(* ===== verification/Prelude.thy ===== *)
theory Prelude
  imports Complex_Main "HOL-Library.AList" "HOL-Library.List_Lexorder" "HOL-Library.Char_ord"
begin

text \<open>
  What every component of the development shares: the error values of the Python code and the
  result type that carries them, ordered dictionaries, the Python built-ins the sources lean on
  (\<^verbatim>\<open>max\<close> and \<^verbatim>\<open>min\<close> with their first-wins tie rule, stable \<^verbatim>\<open>sorted\<close>, insertion-ordered sets),
  and the collections of simplification rules the component proofs use.

  Identifiers (\<^verbatim>\<open>NodeId\<close>, \<^verbatim>\<open>TaskId\<close>, ...) are subclasses of \<^verbatim>\<open>str\<close> in the source
  (\<^verbatim>\<open>src/exo/shared/types/common.py\<close>), so they are strings here; the order on strings is the
  lexicographic one, as Python's.
\<close>

named_theorems res_simps \<open>evaluation of result-valued code\<close>
named_theorems dict_simps \<open>lookups after dictionary updates\<close>

section \<open>Errors and results\<close>

datatype py_error =
    ValueError string
  | AssertionError string
  | KeyError
  | IndexError
  | ZeroDivisionError
  | OverflowError
  | NoEdgeBetweenNodes
  | RuntimeError string
  | OtherError string

type_synonym 'a result = "py_error + 'a"

fun rbind :: "'a result \<Rightarrow> ('a \<Rightarrow> 'b result) \<Rightarrow> 'b result" where
  "rbind (Inl e) f = Inl e"
| "rbind (Inr x) f = f x"

fun rmap :: "('a \<Rightarrow> 'b result) \<Rightarrow> 'a list \<Rightarrow> 'b list result" where
  "rmap f [] = Inr []"
| "rmap f (x # xs) = rbind (f x) (\<lambda>y. rbind (rmap f xs) (\<lambda>ys. Inr (y # ys)))"

fun rfold :: "('s \<Rightarrow> 'a \<Rightarrow> 's result) \<Rightarrow> 's \<Rightarrow> 'a list \<Rightarrow> 's result" where
  "rfold f s [] = Inr s"
| "rfold f s (x # xs) = rbind (f s x) (\<lambda>s'. rfold f s' xs)"

definition rassert :: "string \<Rightarrow> bool \<Rightarrow> unit result" where
  "rassert msg b = (if b then Inr () else Inl (AssertionError msg))"

definition of_option :: "py_error \<Rightarrow> 'a option \<Rightarrow> 'a result" where
  "of_option e v = (case v of None \<Rightarrow> Inl e | Some x \<Rightarrow> Inr x)"

section \<open>Ordered dictionaries\<close>

text \<open>
  A Python \<^verbatim>\<open>dict\<close> iterates in insertion order, and several loops of the sources depend on that
  order, so a dictionary is an association list: \<open>map_of\<close> looks a key up, assignment overwrites
  in place or appends (\<open>AList.update\<close>), deletion drops the entry (\<open>AList.delete\<close>).
\<close>

type_synonym ('k, 'v) dict = "('k \<times> 'v) list"

abbreviation dict_get :: "('k, 'v) dict \<Rightarrow> 'k \<Rightarrow> 'v option" where
  "dict_get d k \<equiv> map_of d k"

abbreviation dict_set :: "('k, 'v) dict \<Rightarrow> 'k \<Rightarrow> 'v \<Rightarrow> ('k, 'v) dict" where
  "dict_set d k v \<equiv> AList.update k v d"

abbreviation dict_del :: "('k, 'v) dict \<Rightarrow> 'k \<Rightarrow> ('k, 'v) dict" where
  "dict_del d k \<equiv> AList.delete k d"

abbreviation dict_keys :: "('k, 'v) dict \<Rightarrow> 'k list" where
  "dict_keys d \<equiv> map fst d"

abbreviation dict_values :: "('k, 'v) dict \<Rightarrow> 'v list" where
  "dict_values d \<equiv> map snd d"

abbreviation dict_mem :: "'k \<Rightarrow> ('k, 'v) dict \<Rightarrow> bool" where
  "dict_mem k d \<equiv> map_of d k \<noteq> None"

text \<open>A comprehension \<^verbatim>\<open>{k: v for ...}\<close>: a later pair overwrites an earlier one.\<close>

definition dict_of :: "('k \<times> 'v) list \<Rightarrow> ('k, 'v) dict" where
  "dict_of ps = foldl (\<lambda>d p. dict_set d (fst p) (snd p)) [] ps"

definition dict_get_default :: "('k, 'v) dict \<Rightarrow> 'k \<Rightarrow> 'v \<Rightarrow> 'v" where
  "dict_get_default d k v = (case map_of d k of None \<Rightarrow> v | Some x \<Rightarrow> x)"

definition wf_dict :: "('k, 'v) dict \<Rightarrow> bool" where
  "wf_dict d \<longleftrightarrow> distinct (map fst d)"

section \<open>Python built-ins\<close>

text \<open>
  \<^verbatim>\<open>max\<close> keeps the first maximal element, \<^verbatim>\<open>min\<close> the first minimal one; both raise on an empty
  iterable. \<open>lt\<close> is the order the elements define.
\<close>

fun py_max_by :: "('a \<Rightarrow> 'a \<Rightarrow> bool) \<Rightarrow> 'a list \<Rightarrow> 'a result" where
  "py_max_by lt [] = Inl (ValueError ''max() arg is an empty sequence'')"
| "py_max_by lt (x # xs) = Inr (foldl (\<lambda>m y. if lt m y then y else m) x xs)"

fun py_min_key :: "('a \<Rightarrow> 'k::linorder) \<Rightarrow> 'a list \<Rightarrow> 'a result" where
  "py_min_key f [] = Inl (ValueError ''min() arg is an empty sequence'')"
| "py_min_key f (x # xs) = Inr (foldl (\<lambda>m y. if f y < f m then y else m) x xs)"

text \<open>An insertion-ordered set: adding a present element changes nothing.\<close>

definition oset_add :: "'a list \<Rightarrow> 'a \<Rightarrow> 'a list" where
  "oset_add xs x = (if x \<in> set xs then xs else xs @ [x])"

text \<open>\<^verbatim>\<open>str(n)\<close> of a non-negative integer, and of any integer.\<close>

function show_nonneg :: "int \<Rightarrow> string" where
  "show_nonneg n =
     (if n < 10 then [''0123456789'' ! nat n]
      else show_nonneg (n div 10) @ [''0123456789'' ! nat (n mod 10)])"
  by pat_completeness auto
termination
  by (relation "measure nat") auto

declare show_nonneg.simps [simp del]

definition show_int :: "int \<Rightarrow> string" where
  "show_int n = (if n < 0 then CHR ''-'' # show_nonneg (- n) else show_nonneg n)"

definition is_digit :: "char \<Rightarrow> bool" where
  "is_digit c \<longleftrightarrow> c \<in> set ''0123456789''"

text \<open>JSON values, for the fields the sources type as \<^verbatim>\<open>dict[str, Any]\<close>.\<close>

datatype json =
    JNull | JBool bool | JInt int | JFloat rat | JStr string
  | JList "json list" | JObj "(string \<times> json) list"

section \<open>Lemmas\<close>

lemma rbind_Inr_iff [simp]: "rbind r f = Inr y \<longleftrightarrow> (\<exists>x. r = Inr x \<and> f x = Inr y)"
  by (cases r) auto

lemma rbind_Inl_iff:
  "rbind r f = Inl e \<longleftrightarrow> r = Inl e \<or> (\<exists>x. r = Inr x \<and> f x = Inl e)"
  by (cases r) auto

lemma rbind_cong [fundef_cong]:
  "r = r' \<Longrightarrow> (\<And>x. r' = Inr x \<Longrightarrow> f x = g x) \<Longrightarrow> rbind r f = rbind r' g"
  by (cases r') auto

lemma rbind_assoc: "rbind (rbind r f) g = rbind r (\<lambda>x. rbind (f x) g)"
  by (cases r) auto

lemma rassert_simps [simp, res_simps]:
  "rassert m True = Inr ()"
  "rassert m False = Inl (AssertionError m)"
  by (simp_all add: rassert_def)

lemma rassert_Inr [simp]: "rassert m b = Inr u \<longleftrightarrow> b"
  by (simp add: rassert_def)

lemma of_option_simps [simp, res_simps]:
  "of_option e None = Inl e"
  "of_option e (Some x) = Inr x"
  by (simp_all add: of_option_def)

lemma of_option_Inr [simp]: "of_option e v = Inr x \<longleftrightarrow> v = Some x"
  by (cases v) auto

lemma rmap_Inr_iff:
  "rmap f xs = Inr ys \<longleftrightarrow> list_all2 (\<lambda>x y. f x = Inr y) xs ys"
  by (induction xs arbitrary: ys) (auto simp: list_all2_Cons1)

lemma rmap_length: "rmap f xs = Inr ys \<Longrightarrow> length ys = length xs"
  by (auto simp: rmap_Inr_iff dest: list_all2_lengthD)

lemma rmap_nth: "rmap f xs = Inr ys \<Longrightarrow> i < length xs \<Longrightarrow> f (xs ! i) = Inr (ys ! i)"
  by (auto simp: rmap_Inr_iff dest: list_all2_nthD)

lemma rmap_total: "(\<And>x. x \<in> set xs \<Longrightarrow> f x = Inr (g x)) \<Longrightarrow> rmap f xs = Inr (map g xs)"
  by (induction xs) auto

lemma rfold_append: "rfold f s (xs @ ys) = rbind (rfold f s xs) (\<lambda>s'. rfold f s' ys)"
  by (induction xs arbitrary: s) (auto simp: rbind_assoc)

lemma rfold_invariant:
  assumes "\<And>s x s'. P s \<Longrightarrow> f s x = Inr s' \<Longrightarrow> P s'"
  shows "P s \<Longrightarrow> rfold f s xs = Inr t \<Longrightarrow> P t"
  by (induction xs arbitrary: s) (auto intro: assms)

lemma foldl_invariant:
  assumes "\<And>s x. P s \<Longrightarrow> P (f s x)"
  shows "P s \<Longrightarrow> P (foldl f s xs)"
  by (induction xs arbitrary: s) (auto intro: assms)

lemma dict_get_set [simp, dict_simps]:
  "dict_get (dict_set d k v) k' = (if k' = k then Some v else dict_get d k')"
  by (simp add: update_conv)

lemma dict_get_del [simp, dict_simps]:
  "dict_get (dict_del d k) k' = (if k' = k then None else dict_get d k')"
  by (simp add: delete_conv)

lemma wf_dict_Nil [simp]: "wf_dict []"
  by (simp add: wf_dict_def)

lemma wf_dict_set [intro]: "wf_dict d \<Longrightarrow> wf_dict (dict_set d k v)"
  by (simp add: wf_dict_def distinct_update)

lemma wf_dict_del [intro]: "wf_dict d \<Longrightarrow> wf_dict (dict_del d k)"
  by (simp add: wf_dict_def distinct_delete)

lemma wf_dict_of [simp]: "wf_dict (dict_of ps)"
  unfolding dict_of_def by (rule foldl_invariant) auto

lemma dict_get_eq_mem: "wf_dict d \<Longrightarrow> dict_get d k = Some v \<longleftrightarrow> (k, v) \<in> set d"
  by (simp add: wf_dict_def)

lemma length_dict_del: "dict_get d k = Some v \<Longrightarrow> length (dict_del d k) < length d"
proof (induction d)
  case (Cons p d)
  have "length (dict_del d k) \<le> length d"
    by (rule length_delete_le)
  with Cons show ?case
    by (cases p) (auto split: if_splits)
qed simp

lemma dict_keys_set: "set (dict_keys (dict_set d k v)) = insert k (set (dict_keys d))"
  by (induction d) auto

lemma dict_keys_set_absent:
  "dict_get d k = None \<Longrightarrow> dict_set d k v = d @ [(k, v)]"
  by (induction d) (auto split: if_splits)

lemma foldl_max_mem: "foldl (\<lambda>m y. if lt m y then y else m) x xs \<in> insert x (set xs)"
proof (induction xs arbitrary: x)
  case (Cons z xs)
  from Cons.IH [of "if lt x z then z else x"] show ?case by auto
qed simp

lemma py_max_by_mem: "py_max_by lt xs = Inr m \<Longrightarrow> m \<in> set xs"
  using foldl_max_mem by (cases xs) fastforce+

lemma py_min_key_mem: "py_min_key f xs = Inr m \<Longrightarrow> m \<in> set xs"
  using foldl_max_mem [of "\<lambda>m y. f y < f m"] by (cases xs) fastforce+

lemma foldl_min_key_le:
  fixes f :: "'a \<Rightarrow> 'k::linorder"
  shows "y \<in> insert x (set xs) \<Longrightarrow> f (foldl (\<lambda>m y. if f y < f m then y else m) x xs) \<le> f y"
proof (induction xs arbitrary: x y)
  case (Cons z xs)
  let ?x = "if f z < f x then z else x"
  have "f (foldl (\<lambda>m y. if f y < f m then y else m) ?x xs) \<le> f ?x"
    by (rule Cons.IH) simp
  moreover have "f ?x \<le> f x" "f ?x \<le> f z"
    by auto
  moreover have "f (foldl (\<lambda>m y. if f y < f m then y else m) ?x xs) \<le> f y" if "y \<in> set xs"
    using that by (intro Cons.IH) simp
  ultimately show ?case
    using Cons.prems by (auto intro: order_trans)
qed simp

lemma py_min_key_le: "py_min_key f xs = Inr m \<Longrightarrow> y \<in> set xs \<Longrightarrow> f m \<le> f y"
  by (cases xs) (auto intro: foldl_min_key_le)

lemma py_min_key_total: "xs \<noteq> [] \<Longrightarrow> \<exists>m. py_min_key f xs = Inr m"
  by (cases xs) auto

lemma py_max_by_total: "xs \<noteq> [] \<Longrightarrow> \<exists>m. py_max_by lt xs = Inr m"
  by (cases xs) auto

text \<open>
  For a strict weak order, \<^verbatim>\<open>max\<close> returns an upper bound: no element is above it.
\<close>

lemma foldl_max_ub:
  assumes asym: "\<And>a b. lt a b \<Longrightarrow> \<not> lt b a"
    and negtrans: "\<And>a b c. \<not> lt a b \<Longrightarrow> \<not> lt b c \<Longrightarrow> \<not> lt a c"
  shows "y \<in> insert x (set xs) \<Longrightarrow> \<not> lt (foldl (\<lambda>m y. if lt m y then y else m) x xs) y"
proof (induction xs arbitrary: x y)
  case Nil
  then show ?case using asym by auto
next
  case (Cons z xs)
  let ?x = "if lt x z then z else x"
  let ?m = "foldl (\<lambda>m y. if lt m y then y else m) ?x xs"
  have "\<not> lt ?m ?x"
    by (rule Cons.IH) simp
  moreover have "\<not> lt ?x x \<and> \<not> lt ?x z"
    using asym by auto
  ultimately have "\<not> lt ?m x \<and> \<not> lt ?m z"
    using negtrans by blast
  moreover have "\<not> lt ?m y" if "y \<in> set xs"
    using that by (intro Cons.IH) simp
  ultimately show ?case using Cons.prems by auto
qed

lemma py_max_by_ub:
  assumes "\<And>a b. lt a b \<Longrightarrow> \<not> lt b a"
    and "\<And>a b c. \<not> lt a b \<Longrightarrow> \<not> lt b c \<Longrightarrow> \<not> lt a c"
    and "py_max_by lt xs = Inr m" "y \<in> set xs"
  shows "\<not> lt m y"
proof -
  obtain x xs' where xs: "xs = x # xs'"
    using assms(3) by (cases xs) auto
  have m: "m = foldl (\<lambda>m y. if lt m y then y else m) x xs'"
    using assms(3) by (simp add: xs)
  from assms(4) have "y \<in> insert x (set xs')"
    by (simp add: xs)
  then show ?thesis
    unfolding m by (rule foldl_max_ub [rotated 2]) (fact assms(1), fact assms(2))
qed

lemma show_nonneg_digits: "0 \<le> n \<Longrightarrow> list_all is_digit (show_nonneg n)"
proof (induction n rule: show_nonneg.induct)
  case (1 n)
  have dig: "is_digit (''0123456789'' ! nat d)" if "0 \<le> d" "d < 10" for d :: int
    unfolding is_digit_def using that by (intro nth_mem) auto
  show ?case
  proof (cases "n < 10")
    case True
    with 1 dig show ?thesis by (subst show_nonneg.simps) simp
  next
    case False
    with 1 have "list_all is_digit (show_nonneg (n div 10))" by simp
    with False dig [of "n mod 10"] show ?thesis by (subst show_nonneg.simps) simp
  qed
qed

lemma show_nonneg_nonempty [simp]: "show_nonneg n \<noteq> []"
  by (subst show_nonneg.simps) simp

lemma set_oset_add [simp]: "set (oset_add xs x) = insert x (set xs)"
  by (auto simp: oset_add_def)

lemma distinct_oset_add [simp]: "distinct (oset_add xs x) = distinct xs"
  by (auto simp: oset_add_def)

end
