(* ===== verification/Py_Float.thy ===== *)
theory Py_Float
  imports Prelude
begin

text \<open>
  Python floats. A finite \<^verbatim>\<open>float\<close> is represented by its exact value, a rational number, and every
  arithmetic operation of the source is the exact operation followed by \<open>fl\<close>, the rounding to
  nearest, ties to even, with the 53-bit significand of IEEE binary64. The exponent range is not
  bounded here: the quotients of byte counts and layer counts the sources form are far from
  overflow and from the subnormal numbers.

  \<open>py_div\<close> is \<^verbatim>\<open>int / int\<close> (correctly rounded in CPython), \<open>py_sum\<close> the built-in \<^verbatim>\<open>sum\<close> on floats,
  which in the Python the project pins (3.13) is compensated (Neumaier) summation.
\<close>

type_synonym pyfloat = rat

function bit_length :: "int \<Rightarrow> int" where
  "bit_length n = (if n \<le> 0 then 0 else bit_length (n div 2) + 1)"
  by pat_completeness auto
termination
  by (relation "measure nat") auto

declare bit_length.simps [simp del]

definition pow2 :: "int \<Rightarrow> rat" where
  "pow2 e = (if 0 \<le> e then of_int (2 ^ nat e) else 1 / of_int (2 ^ nat (- e)))"

text \<open>The exponent \<open>e\<close> with \<open>pow2 e \<le> x < pow2 (e + 1)\<close> of a positive number.\<close>

definition float_exponent :: "rat \<Rightarrow> int" where
  "float_exponent x =
     (case quotient_of x of (p, q) \<Rightarrow>
        let k = bit_length p - bit_length q in if pow2 k \<le> x then k else k - 1)"

text \<open>\<^verbatim>\<open>round(x)\<close> on a float: to the nearest integer, ties to even.\<close>

definition round_half_even :: "rat \<Rightarrow> int" where
  "round_half_even x =
     (let f = \<lfloor>x\<rfloor>; d = x - of_int f
      in if d < 1 / 2 then f else if 1 / 2 < d then f + 1 else if even f then f else f + 1)"

definition fl :: "rat \<Rightarrow> pyfloat" where
  "fl x =
     (if x = 0 then 0
      else let e = float_exponent \<bar>x\<bar> - 52
           in sgn x * of_int (round_half_even (\<bar>x\<bar> / pow2 e)) * pow2 e)"

definition py_div :: "int \<Rightarrow> int \<Rightarrow> pyfloat result" where
  "py_div a b = (if b = 0 then Inl ZeroDivisionError else Inr (fl (of_int a / of_int b)))"

text \<open>\<^verbatim>\<open>int(x)\<close> truncates towards zero.\<close>

definition py_trunc :: "pyfloat \<Rightarrow> int" where
  "py_trunc x = (if 0 \<le> x then \<lfloor>x\<rfloor> else \<lceil>x\<rceil>)"

text \<open>One step of the compensated summation: running sum and running compensation.\<close>

definition cs_add :: "pyfloat \<times> pyfloat \<Rightarrow> pyfloat \<Rightarrow> pyfloat \<times> pyfloat" where
  "cs_add acc x =
     (let (hi, lo) = acc; t = fl (hi + x);
          c = (if \<bar>x\<bar> \<le> \<bar>hi\<bar> then fl (fl (hi - t) + x) else fl (fl (x - t) + hi))
      in (t, fl (lo + c)))"

definition py_sum :: "pyfloat list \<Rightarrow> pyfloat" where
  "py_sum xs = (let (hi, lo) = foldl cs_add (0, 0) xs in fl (hi + lo))"

section \<open>Bounds of the rounding\<close>

lemma pow2_powi: "pow2 e = 2 powi e"
  by (auto simp: pow2_def power_int_def field_simps)

lemma pow2_pos [simp]: "0 < pow2 e"
  by (simp add: pow2_powi)

lemma pow2_nonzero [simp]: "pow2 e \<noteq> 0"
  by (simp add: pow2_powi)

lemma pow2_add: "pow2 (a + b) = pow2 a * pow2 b"
  by (simp add: pow2_powi power_int_add)

lemma pow2_succ: "pow2 (e + 1) = 2 * pow2 e"
  by (simp add: pow2_powi power_int_add)

lemma bit_length_nonneg: "0 \<le> bit_length n"
  by (induction n rule: bit_length.induct) (subst bit_length.simps, auto)

lemma bit_length_bounds:
  "0 < n \<Longrightarrow> pow2 (bit_length n - 1) \<le> of_int n \<and> of_int n < pow2 (bit_length n)"
proof (induction n rule: bit_length.induct)
  case (1 n)
  then have rec: "bit_length n = bit_length (n div 2) + 1"
    by (subst bit_length.simps) simp
  show ?case
  proof (cases "n = 1")
    case True
    have "bit_length 1 = 1" by (simp add: bit_length.simps)
    with True show ?thesis by (simp add: pow2_def)
  next
    case False
    let ?h = "n div 2"
    have "0 < ?h" using False "1.prems" by auto
    with "1.IH" "1.prems" have IH:
      "pow2 (bit_length ?h - 1) \<le> of_int ?h" "of_int ?h < pow2 (bit_length ?h)" by auto
    have nn: "(of_int n :: rat) = 2 * of_int ?h + of_int (n mod 2)"
    proof -
      have "n = 2 * ?h + n mod 2" by simp
      then show ?thesis by (metis of_int_add of_int_mult of_int_numeral)
    qed
    have mm: "0 \<le> (of_int (n mod 2) :: rat)" "(of_int (n mod 2) :: rat) \<le> 1"
      by auto
    have "of_int (?h + 1) \<le> pow2 (bit_length ?h)"
    proof -
      have "pow2 (bit_length ?h) = of_int (2 ^ nat (bit_length ?h))"
        using bit_length_nonneg by (simp add: pow2_def)
      moreover from this IH(2) have "?h < 2 ^ nat (bit_length ?h)"
        by (metis of_int_less_iff)
      ultimately show ?thesis
        by (metis of_int_le_iff zless_imp_add1_zle)
    qed
    then have "of_int n < 2 * pow2 (bit_length ?h)"
      using nn mm by simp
    moreover have "2 * pow2 (bit_length ?h - 1) \<le> of_int n"
      using nn mm IH(1) by simp
    ultimately show ?thesis
      using pow2_succ [of "bit_length ?h - 1"] pow2_succ [of "bit_length ?h"] by (simp add: rec)
  qed
qed

lemma float_exponent_bounds:
  assumes "0 < x"
  shows "pow2 (float_exponent x) \<le> x \<and> x < pow2 (float_exponent x + 1)"
proof -
  obtain p q where pq: "quotient_of x = (p, q)" by fastforce
  have x: "x = of_int p / of_int q" and q: "0 < q"
    using pq quotient_of_div quotient_of_denom_pos by auto
  with assms have p: "0 < p"
    by (simp add: zero_less_divide_iff)
  let ?k = "bit_length p - bit_length q"
  note bp = bit_length_bounds [OF p] and bq = bit_length_bounds [OF q]
  have q0: "(0::rat) < of_int q" using q by simp
  have "pow2 (?k - 1) * of_int q \<le> of_int p"
  proof -
    have "pow2 (?k - 1) * of_int q \<le> pow2 (?k - 1) * pow2 (bit_length q)"
      using bq by (intro mult_left_mono) (auto simp: less_imp_le)
    also have "\<dots> = pow2 (bit_length p - 1)"
      by (simp flip: pow2_add)
    also have "\<dots> \<le> of_int p" using bp by simp
    finally show ?thesis .
  qed
  then have lo: "pow2 (?k - 1) \<le> x"
    using q0 by (simp add: x pos_le_divide_eq)
  have "of_int p < pow2 (?k + 1) * of_int q"
  proof -
    have "of_int p < pow2 (bit_length p)" using bp by simp
    also have "\<dots> = pow2 (?k + 1) * pow2 (bit_length q - 1)"
      by (simp flip: pow2_add)
    also have "\<dots> \<le> pow2 (?k + 1) * of_int q"
      using bq by (intro mult_left_mono) (auto simp: less_imp_le)
    finally show ?thesis .
  qed
  then have hi: "x < pow2 (?k + 1)"
    using q0 by (simp add: x pos_divide_less_eq)
  show ?thesis
    using lo hi by (auto simp: float_exponent_def pq Let_def)
qed

lemma round_half_even_error: "\<bar>of_int (round_half_even x) - x\<bar> \<le> 1 / 2"
proof -
  define f where "f = (of_int \<lfloor>x\<rfloor> :: rat)"
  have "f \<le> x" "x < f + 1" unfolding f_def by linarith+
  then show ?thesis
    by (auto simp: round_half_even_def Let_def abs_le_iff f_def [symmetric])
qed

lemma round_half_even_of_int [simp]: "round_half_even (of_int n) = n"
  by (simp add: round_half_even_def Let_def)

lemma round_half_even_mono_int: "of_int n \<le> x \<Longrightarrow> n \<le> round_half_even x"
proof -
  assume "of_int n \<le> x"
  then have "n \<le> \<lfloor>x\<rfloor>" by (simp add: le_floor_iff)
  then show ?thesis by (auto simp: round_half_even_def Let_def)
qed

text \<open>The relative error of one rounding is at most one unit in \<open>2 ^ 53\<close>.\<close>

lemma fl_error: "\<bar>fl x - x\<bar> \<le> \<bar>x\<bar> / 2 ^ 53"
proof (cases "x = 0")
  case True
  then show ?thesis by (simp add: fl_def)
next
  case False
  define e where "e = float_exponent \<bar>x\<bar> - 52"
  define m where "m = round_half_even (\<bar>x\<bar> / pow2 e)"
  have "pow2 (e + 52) \<le> \<bar>x\<bar>"
    using float_exponent_bounds [of "\<bar>x\<bar>"] False by (simp add: e_def)
  then have ulp: "pow2 e * 2 ^ 52 \<le> \<bar>x\<bar>"
    by (simp add: pow2_add, simp add: pow2_def)
  have "\<bar>of_int m - \<bar>x\<bar> / pow2 e\<bar> \<le> 1 / 2"
    unfolding m_def by (rule round_half_even_error)
  then have "\<bar>of_int m - \<bar>x\<bar> / pow2 e\<bar> * pow2 e \<le> 1 / 2 * pow2 e"
    by (intro mult_right_mono) (auto simp: less_imp_le)
  moreover have "\<bar>of_int m - \<bar>x\<bar> / pow2 e\<bar> * pow2 e = \<bar>of_int m * pow2 e - \<bar>x\<bar>\<bar>"
  proof -
    have "\<bar>of_int m - \<bar>x\<bar> / pow2 e\<bar> * pow2 e = \<bar>(of_int m - \<bar>x\<bar> / pow2 e) * pow2 e\<bar>"
      by (simp only: abs_mult abs_of_pos [OF pow2_pos])
    then show ?thesis by (simp add: left_diff_distrib)
  qed
  moreover have "\<bar>fl x - x\<bar> = \<bar>of_int m * pow2 e - \<bar>x\<bar>\<bar>"
  proof -
    have "fl x = sgn x * (of_int m * pow2 e)"
      using False by (simp add: fl_def Let_def m_def e_def)
    then show ?thesis
      by (cases "0 < x") (use False in \<open>auto simp: sgn_if abs_minus_commute\<close>)
  qed
  ultimately show ?thesis using ulp by simp
qed

lemma fl_0 [simp]: "fl 0 = 0"
  by (simp add: fl_def)

lemma fl_nonneg: "0 \<le> x \<Longrightarrow> 0 \<le> fl x"
proof -
  assume "0 \<le> x"
  then have "0 \<le> round_half_even (\<bar>x\<bar> / pow2 e)" for e
    by (intro round_half_even_mono_int) (simp add: less_imp_le)
  with \<open>0 \<le> x\<close> show ?thesis
    by (simp add: fl_def Let_def less_imp_le)
qed

lemma fl_le: "0 \<le> x \<Longrightarrow> fl x \<le> x + x / 2 ^ 53"
  using fl_error [of x] by linarith

lemma fl_ge: "0 \<le> x \<Longrightarrow> x - x / 2 ^ 53 \<le> fl x"
  using fl_error [of x] by linarith

text \<open>Integers of up to 53 bits are represented exactly.\<close>

lemma fl_of_int: "\<bar>n\<bar> \<le> 2 ^ 53 \<Longrightarrow> fl (of_int n) = of_int n"
proof (cases "n = 0")
  case False
  assume n: "\<bar>n\<bar> \<le> 2 ^ 53"
  let ?x = "\<bar>of_int n\<bar> :: rat"
  define e where "e = float_exponent ?x - 52"
  have lo: "pow2 (e + 52) \<le> ?x"
    using float_exponent_bounds [of ?x] False by (simp add: e_def)
  have int: "\<exists>k. ?x / pow2 e = of_int k"
  proof (cases "e \<le> 0")
    case True
    then have "?x / pow2 e = of_int (\<bar>n\<bar> * 2 ^ nat (- e))"
      by (cases "e = 0") (auto simp: pow2_def)
    then show ?thesis by blast
  next
    case False
    then have "pow2 (1 + 52) \<le> pow2 (e + 52)"
      unfolding pow2_powi by (intro power_int_increasing) auto
    with lo have "(2 ^ 53 :: rat) \<le> ?x" by (simp add: pow2_def)
    with n have "?x = 2 ^ 53"
    proof -
      have "(of_int \<bar>n\<bar> :: rat) \<le> of_int (2 ^ 53)" using n by (simp only: of_int_le_iff)
      with \<open>2 ^ 53 \<le> ?x\<close> show ?thesis by simp
    qed
    moreover from this have "e = 1"
    proof -
      have "pow2 (e + 52) \<le> 2 ^ 53" using lo \<open>?x = 2 ^ 53\<close> by simp
      moreover have "pow2 (2 + 52) \<le> pow2 (e + 52)" if "2 \<le> e"
        unfolding pow2_powi by (intro power_int_increasing) (use that in auto)
      moreover have "\<not> pow2 (2 + 52) \<le> 2 ^ 53" by (simp add: pow2_def)
      ultimately have "\<not> 2 \<le> e" by (meson order_trans)
      with False show ?thesis by simp
    qed
    ultimately have "?x / pow2 e = of_int (2 ^ 52)" by (simp add: pow2_def)
    then show ?thesis by blast
  qed
  then obtain k where k: "?x / pow2 e = of_int k" by blast
  then have "fl (of_int n) = sgn (of_int n) * of_int k * pow2 e"
    using False by (simp add: fl_def Let_def e_def [symmetric])
  also have "\<dots> = sgn (of_int n) * ?x"
    using k by (simp add: field_simps)
  finally show ?thesis by (simp add: sgn_mult_abs)
qed simp

lemma py_trunc_nonneg: "0 \<le> x \<Longrightarrow> py_trunc x = \<lfloor>x\<rfloor>"
  by (simp add: py_trunc_def)

section \<open>Monotonicity\<close>

text \<open>Rounding keeps the order, across binades and zero.\<close>

lemma round_half_even_ub_int: "x \<le> of_int n \<Longrightarrow> round_half_even x \<le> n"
proof -
  assume x: "x \<le> of_int n"
  show ?thesis
  proof (cases "x = of_int n")
    case False
    then have "\<lfloor>x\<rfloor> < n" using x by (simp add: floor_less_iff)
    then show ?thesis by (auto simp: round_half_even_def Let_def)
  qed simp
qed

lemma round_half_even_mono:
  assumes "x \<le> y"
  shows "round_half_even x \<le> round_half_even y"
proof (cases "\<lfloor>x\<rfloor> = \<lfloor>y\<rfloor>")
  case True
  then show ?thesis using assms by (auto simp: round_half_even_def Let_def)
next
  case False
  then have "\<lfloor>x\<rfloor> + 1 \<le> \<lfloor>y\<rfloor>" using floor_mono [OF assms] by simp
  moreover have "round_half_even x \<le> \<lfloor>x\<rfloor> + 1" "\<lfloor>y\<rfloor> \<le> round_half_even y" by (auto simp: round_half_even_def Let_def)
  ultimately show ?thesis by simp
qed

lemma pow2_mono: "a \<le> b \<Longrightarrow> pow2 a \<le> pow2 b"
  by (simp add: pow2_powi power_int_increasing)

lemma pow2_less_exp: "pow2 a < pow2 b \<Longrightarrow> a < b"
  using pow2_mono [of b a] by (cases "b \<le> a") auto

lemma fl_pos: "0 < x \<Longrightarrow> fl x = of_int (round_half_even (x / pow2 (float_exponent x - 52))) * pow2 (float_exponent x - 52)"
  by (simp add: fl_def Let_def)

lemma fl_minus: "fl (- x) = - fl x"
  by (simp add: fl_def Let_def sgn_if)

lemma pow2_const: "pow2 52 = 2 ^ 52" "pow2 53 = 2 ^ 53"
  by (simp_all add: pow2_def)

lemma fl_binade:
  assumes "0 < x"
  shows "pow2 (float_exponent x) \<le> fl x \<and> fl x \<le> pow2 (float_exponent x + 1)"
proof -
  let ?e = "float_exponent x - 52"
  have b: "pow2 (float_exponent x) = of_int (2 ^ 52) * pow2 ?e" "pow2 (float_exponent x + 1) = of_int (2 ^ 53) * pow2 ?e"
    using pow2_add [of 52 ?e] pow2_add [of 53 ?e] by (simp_all add: pow2_const add.commute)
  have "of_int (2 ^ 52) \<le> x / pow2 ?e" "x / pow2 ?e \<le> of_int (2 ^ 53)"
    using float_exponent_bounds [OF assms] unfolding b by (auto simp: field_simps)
  then have "2 ^ 52 \<le> round_half_even (x / pow2 ?e)" "round_half_even (x / pow2 ?e) \<le> 2 ^ 53"
    by (auto intro: round_half_even_mono_int round_half_even_ub_int)
  then have "of_int (2 ^ 52) \<le> (of_int (round_half_even (x / pow2 ?e)) :: rat)" "(of_int (round_half_even (x / pow2 ?e)) :: rat) \<le> of_int (2 ^ 53)"
    by (simp_all only: of_int_le_iff)
  then show ?thesis unfolding fl_pos [OF assms] b by (auto intro: mult_right_mono simp: less_imp_le)
qed

lemma fl_mono_pos:
  assumes "0 < x" "x \<le> y"
  shows "fl x \<le> fl y"
proof (cases "float_exponent x = float_exponent y")
  case True
  have "x / pow2 (float_exponent y - 52) \<le> y / pow2 (float_exponent y - 52)" using assms(2) by (simp add: divide_right_mono less_imp_le)
  from round_half_even_mono [OF this] show ?thesis
    using assms True by (simp add: fl_pos mult_right_mono less_imp_le)
next
  case False
  have y: "0 < y" using assms by simp
  have "pow2 (float_exponent x) < pow2 (float_exponent y + 1)"
    using float_exponent_bounds [OF assms(1)] float_exponent_bounds [OF y] assms(2) by simp
  then have "float_exponent x + 1 \<le> float_exponent y" using pow2_less_exp False by fastforce
  from pow2_mono [OF this] show ?thesis using fl_binade [OF assms(1)] fl_binade [OF y] by simp
qed

lemma fl_mono: "x \<le> y \<Longrightarrow> fl x \<le> fl y"
proof -
  assume xy: "x \<le> y"
  consider "0 < x" | "x \<le> 0" "0 \<le> y" | "y < 0" using xy by linarith
  then show ?thesis
  proof cases
    case 1
    then show ?thesis using fl_mono_pos xy by blast
  next
    case 2
    then have "0 \<le> fl (- x)" "0 \<le> fl y" by (simp_all add: fl_nonneg)
    then show ?thesis by (simp add: fl_minus)
  next
    case 3
    then have "fl (- y) \<le> fl (- x)" using fl_mono_pos [of "- y" "- x"] xy by simp
    then show ?thesis by (simp add: fl_minus)
  qed
qed

end
