(* ===== verification/Memory_Size.thy ===== *)
theory Memory_Size
  imports Py_Float
begin

text \<open>
  \<^verbatim>\<open>Memory\<close> of \<^verbatim>\<open>src/exo/shared/types/memory.py\<close>: a size in bytes with its conversions, its
  arithmetic and its order. The comparison methods make it a linear order, and addition with
  \<^verbatim>\<open>Memory()\<close> a commutative monoid, so the library's \<open>sum_list\<close> is the source's
  \<^verbatim>\<open>sum(..., start=Memory())\<close>.
\<close>

datatype memory = Memory (in_bytes: int)

definition mem_le :: "memory \<Rightarrow> memory \<Rightarrow> bool" where
  "mem_le a b \<longleftrightarrow> in_bytes a \<le> in_bytes b"

definition mem_lt :: "memory \<Rightarrow> memory \<Rightarrow> bool" where
  "mem_lt a b \<longleftrightarrow> in_bytes a < in_bytes b"

definition mem_zero :: memory where
  "mem_zero = Memory 0"

definition mem_add :: "memory \<Rightarrow> memory \<Rightarrow> memory" where
  "mem_add a b = Memory (in_bytes a + in_bytes b)"

instantiation memory :: linorder
begin

definition less_eq_memory :: "memory \<Rightarrow> memory \<Rightarrow> bool" where
  "less_eq_memory = mem_le"

definition less_memory :: "memory \<Rightarrow> memory \<Rightarrow> bool" where
  "less_memory = mem_lt"

instance
  by standard (auto simp: less_eq_memory_def less_memory_def mem_le_def mem_lt_def memory.expand)

end

instantiation memory :: comm_monoid_add
begin

definition zero_memory :: memory where
  "zero_memory = mem_zero"

definition plus_memory :: "memory \<Rightarrow> memory \<Rightarrow> memory" where
  "plus_memory = mem_add"

instance
  by standard (auto simp: zero_memory_def plus_memory_def mem_zero_def mem_add_def)

end

definition mem_sub :: "memory \<Rightarrow> memory \<Rightarrow> memory" where
  "mem_sub a b = Memory (in_bytes a - in_bytes b)"

text \<open>\<^verbatim>\<open>__mul__\<close> by an integer is exact; by a float it rounds the product to the nearest byte.\<close>

definition mem_mul_int :: "memory \<Rightarrow> int \<Rightarrow> memory" where
  "mem_mul_int m k = Memory (in_bytes m * k)"

definition mem_mul_float :: "memory \<Rightarrow> pyfloat \<Rightarrow> memory" where
  "mem_mul_float m x = Memory (round_half_even (fl (fl (of_int (in_bytes m)) * x)))"

text \<open>\<^verbatim>\<open>__truediv__\<close>: a ratio of two sizes is a float, a size divided by an integer is a size.\<close>

definition mem_ratio :: "memory \<Rightarrow> memory \<Rightarrow> pyfloat result" where
  "mem_ratio a b = py_div (in_bytes a) (in_bytes b)"

definition mem_div_int :: "memory \<Rightarrow> int \<Rightarrow> memory result" where
  "mem_div_int m k = rbind (py_div (in_bytes m) k) (\<lambda>x. Inr (Memory (round_half_even x)))"

definition mem_floordiv :: "memory \<Rightarrow> int \<Rightarrow> memory result" where
  "mem_floordiv m k =
     (if k = 0 then Inl ZeroDivisionError else Inr (Memory (in_bytes m div k)))"

definition in_kb :: "memory \<Rightarrow> int" where
  "in_kb m = \<lceil>fl (of_int (in_bytes m) / 1024)\<rceil>"

definition from_kb :: "int \<Rightarrow> memory" where
  "from_kb v = Memory (v * 1024)"

definition from_float_kb :: "pyfloat \<Rightarrow> memory" where
  "from_float_kb v = Memory (round_half_even (fl (v * 1024)))"

definition in_mb :: "memory \<Rightarrow> int" where
  "in_mb m = round_half_even (fl (of_int (in_bytes m) / 1024 ^ 2))"

definition in_float_mb :: "memory \<Rightarrow> pyfloat" where
  "in_float_mb m = fl (of_int (in_bytes m) / 1024 ^ 2)"

definition from_mb :: "pyfloat \<Rightarrow> memory" where
  "from_mb v = Memory (round_half_even (fl (v * 1024 ^ 2)))"

definition from_gb :: "pyfloat \<Rightarrow> memory" where
  "from_gb v = Memory (round_half_even (fl (v * 1024 ^ 3)))"

definition in_gb :: "memory \<Rightarrow> pyfloat" where
  "in_gb m = fl (of_int (in_bytes m) / 1024 ^ 3)"

text \<open>\<^verbatim>\<open>__str__\<close>. \<open>fixed2\<close> is the format \<^verbatim>\<open>:.2f\<close> and \<open>rstrip\<close> the string method.\<close>

definition fixed2 :: "pyfloat \<Rightarrow> string" where
  "fixed2 x =
     (let n = round_half_even (\<bar>x\<bar> * 100)
      in (if x < 0 then ''-'' else []) @ show_nonneg (n div 100) @ ''.'' @
         [''0123456789'' ! nat (n mod 100 div 10), ''0123456789'' ! nat (n mod 10)])"

definition rstrip :: "char \<Rightarrow> string \<Rightarrow> string" where
  "rstrip c s = rev (dropWhile (\<lambda>x. x = c) (rev s))"

definition mem_str :: "memory \<Rightarrow> string" where
  "mem_str m =
     (let (val, unit) =
        (if in_gb m > 2 then (in_gb m, ''GiB'')
         else if in_mb m > 2 then (of_int (in_mb m), ''MiB'')
         else if in_kb m > 3 then (of_int (in_kb m), ''KiB'')
         else (of_int (in_bytes m), ''B''))
      in rstrip CHR ''.'' (rstrip CHR ''0'' (fixed2 val @ '' '' @ unit)) @ '' '' @ unit)"

section \<open>Lemmas\<close>

lemma in_bytes_0 [simp]: "in_bytes 0 = 0"
  by (simp add: zero_memory_def mem_zero_def)

lemma in_bytes_plus [simp]: "in_bytes (a + b) = in_bytes a + in_bytes b"
  by (simp add: plus_memory_def mem_add_def)

lemma memory_le_iff [simp]: "a \<le> b \<longleftrightarrow> in_bytes a \<le> in_bytes (b :: memory)"
  by (simp add: less_eq_memory_def mem_le_def)

lemma memory_less_iff [simp]: "a < b \<longleftrightarrow> in_bytes a < in_bytes (b :: memory)"
  by (simp add: less_memory_def mem_lt_def)

lemma in_bytes_sum_list: "in_bytes (sum_list ms) = sum_list (map in_bytes ms)"
  by (induction ms) auto

lemma rstrip_snoc: "x \<noteq> c \<Longrightarrow> rstrip c (s @ [x]) = s @ [x]"
  by (simp add: rstrip_def)

lemma rstrip_unit:
  "u \<in> {''GiB'', ''MiB'', ''KiB'', ''B''} \<Longrightarrow> c \<noteq> CHR ''B'' \<Longrightarrow> rstrip c (s @ u) = s @ u"
  by (auto simp: rstrip_def)

text \<open>
  \<^verbatim>\<open>Memory.__str__\<close> prints its unit twice: the text is the value with two decimals, the unit,
  and the unit again. The two \<^verbatim>\<open>rstrip\<close> calls, meant to drop trailing zeros of the value, see a
  string that already ends in the unit and never remove anything.
\<close>

theorem mem_str_repeats_unit:
  "\<exists>v u. u \<in> {''GiB'', ''MiB'', ''KiB'', ''B''} \<and> mem_str m = fixed2 v @ '' '' @ u @ '' '' @ u"
proof -
  define p where "p =
    (if in_gb m > 2 then (in_gb m, ''GiB'')
     else if in_mb m > 2 then (of_int (in_mb m), ''MiB'')
     else if in_kb m > 3 then (of_int (in_kb m), ''KiB'')
     else (of_int (in_bytes m), ''B''))"
  have u: "snd p \<in> {''GiB'', ''MiB'', ''KiB'', ''B''}"
    unfolding p_def by simp
  have "rstrip c (fixed2 (fst p) @ '' '' @ snd p) = fixed2 (fst p) @ '' '' @ snd p"
    if "c \<noteq> CHR ''B''" for c
    using rstrip_unit [OF u that, of "fixed2 (fst p) @ '' ''"] by (simp only: append_assoc)
  then have "mem_str m = (fixed2 (fst p) @ '' '' @ snd p) @ '' '' @ snd p"
    unfolding mem_str_def p_def [symmetric] Let_def split_beta by (simp only: char.inject simp_thms)
  with u show ?thesis by auto
qed

end
