(* ===== verification/Multiaddr.thy ===== *)
theory Multiaddr
  imports Prelude
begin

text \<open>
  \<^verbatim>\<open>Multiaddr\<close> of \<^verbatim>\<open>src/exo/shared/types/multiaddr.py\<close>: network addresses of the form
  \<^verbatim>\<open>/ip4/1.2.3.4/tcp/4001/p2p/Qm...\<close>. The three regular expressions are deterministic, so each is
  written as the scanner that consumes its parts from left to right; \<^verbatim>\<open>$\<close> also matches before a
  final newline. \<open>mk_multiaddr\<close> is the validating constructor.
\<close>

datatype multiaddr = Multiaddr (address: string)

text \<open>\<open>scan_span lo hi P s\<close>: the class \<open>P\<close> repeated at least \<open>lo\<close> and at most \<open>hi\<close> times, greedily.\<close>

definition scan_span :: "nat \<Rightarrow> nat \<Rightarrow> (char \<Rightarrow> bool) \<Rightarrow> string \<Rightarrow> (string \<times> string) option" where
  "scan_span lo hi P s =
     (let a = take hi (takeWhile P s)
      in if lo \<le> length a then Some (a, drop (length a) s) else None)"

text \<open>The class repeated at least once.\<close>

definition scan_plus :: "(char \<Rightarrow> bool) \<Rightarrow> string \<Rightarrow> (string \<times> string) option" where
  "scan_plus P s =
     (let a = takeWhile P s in if a = [] then None else Some (a, dropWhile P s))"

definition scan_lit :: "string \<Rightarrow> string \<Rightarrow> string option" where
  "scan_lit l s = (if take (length l) s = l then Some (drop (length l) s) else None)"

definition is_alpha :: "char \<Rightarrow> bool" where
  "is_alpha c \<longleftrightarrow> (CHR ''a'' \<le> c \<and> c \<le> CHR ''z'') \<or> (CHR ''A'' \<le> c \<and> c \<le> CHR ''Z'')"

definition is_hex_colon :: "char \<Rightarrow> bool" where
  "is_hex_colon c \<longleftrightarrow> is_digit c \<or> (CHR ''a'' \<le> c \<and> c \<le> CHR ''f'') \<or>
     (CHR ''A'' \<le> c \<and> c \<le> CHR ''F'') \<or> c = CHR '':''"

definition is_dns_char :: "char \<Rightarrow> bool" where
  "is_dns_char c \<longleftrightarrow> is_alpha c \<or> is_digit c \<or> c = CHR ''.'' \<or> c = CHR ''-''"

text \<open>Four groups of one to three digits, separated by dots.\<close>

fun scan_octets :: "nat \<Rightarrow> string \<Rightarrow> (string \<times> string) option" where
  "scan_octets 0 s = None"
| "scan_octets (Suc 0) s = scan_span 1 3 is_digit s"
| "scan_octets (Suc (Suc n)) s =
     (case scan_span 1 3 is_digit s of None \<Rightarrow> None
      | Some (a, r) \<Rightarrow>
          (case scan_lit ''.'' r of None \<Rightarrow> None
           | Some r' \<Rightarrow>
               (case scan_octets (Suc n) r' of None \<Rightarrow> None
                | Some (b, r'') \<Rightarrow> Some (a @ ''.'' @ b, r''))))"

text \<open>The optional port and peer parts and the end of the string.\<close>

definition scan_tcp :: "string \<Rightarrow> string" where
  "scan_tcp s =
     (case scan_lit ''/tcp/'' s of None \<Rightarrow> s
      | Some r \<Rightarrow> (case scan_span 1 5 is_digit r of None \<Rightarrow> s | Some (_, r') \<Rightarrow> r'))"

definition scan_p2p :: "string \<Rightarrow> string" where
  "scan_p2p s =
     (case scan_lit ''/p2p/'' s of None \<Rightarrow> s
      | Some r \<Rightarrow> (case scan_plus (\<lambda>c. is_alpha c \<or> is_digit c) r of None \<Rightarrow> s | Some (_, r') \<Rightarrow> r'))"

definition at_end :: "string \<Rightarrow> bool" where
  "at_end s \<longleftrightarrow> s = [] \<or> s = [CHR 0x0A]"

definition scan_tail :: "string \<Rightarrow> bool" where
  "scan_tail s \<longleftrightarrow> at_end (scan_p2p (scan_tcp s))"

definition scan_ip4 :: "string \<Rightarrow> (string \<times> string) option" where
  "scan_ip4 s = Option.bind (scan_lit ''/ip4/'' s) (scan_octets 4)"

definition scan_ip6 :: "string \<Rightarrow> (string \<times> string) option" where
  "scan_ip6 s = Option.bind (scan_lit ''/ip6/'' s) (scan_plus is_hex_colon)"

definition scan_dns :: "string \<Rightarrow> (string \<times> string) option" where
  "scan_dns s =
     Option.bind (scan_lit ''/dns'' s)
       (\<lambda>r. Option.bind (scan_lit ''/'' (case r of c # r' \<Rightarrow> if c = CHR ''4'' \<or> c = CHR ''6'' then r' else r | [] \<Rightarrow> []))
         (scan_plus is_dns_char))"

definition full_match :: "(string \<Rightarrow> (string \<times> string) option) \<Rightarrow> string \<Rightarrow> bool" where
  "full_match sc s = (case sc s of None \<Rightarrow> False | Some (_, r) \<Rightarrow> scan_tail r)"

definition invalid_multiaddr :: py_error where
  "invalid_multiaddr = ValueError ''Invalid multiaddr format''"

definition mk_multiaddr :: "string \<Rightarrow> multiaddr result" where
  "mk_multiaddr v =
     (if full_match scan_ip4 v \<or> full_match scan_ip6 v \<or> full_match scan_dns v
      then Inr (Multiaddr v) else Inl invalid_multiaddr)"

text \<open>\<^verbatim>\<open>pattern.split("/")[1]\<close> of the first pattern that matches.\<close>

definition address_type :: "multiaddr \<Rightarrow> string result" where
  "address_type m =
     (if full_match scan_ip4 (address m) then Inr ''ip4''
      else if full_match scan_ip6 (address m) then Inr ''ip6''
      else if full_match scan_dns (address m) then Inr ''dns[46]?''
      else Inl invalid_multiaddr)"

definition ipv6_address :: "multiaddr \<Rightarrow> string result" where
  "ipv6_address m = of_option invalid_multiaddr (map_option fst (scan_ip6 (address m)))"

definition ipv4_address :: "multiaddr \<Rightarrow> string result" where
  "ipv4_address m = of_option invalid_multiaddr (map_option fst (scan_ip4 (address m)))"

definition ip_address :: "multiaddr \<Rightarrow> string result" where
  "ip_address m =
     rbind (address_type m) (\<lambda>t. if t = ''ip4'' then ipv4_address m else ipv6_address m)"

text \<open>The first place where \<^verbatim>\<open>/tcp/\<close> and a digit follow.\<close>

fun search_tcp :: "string \<Rightarrow> string option" where
  "search_tcp [] = None"
| "search_tcp (c # s) =
     (case Option.bind (scan_lit ''/tcp/'' (c # s)) (scan_span 1 5 is_digit) of
        Some (a, _) \<Rightarrow> Some a | None \<Rightarrow> search_tcp s)"

definition digit_value :: "char \<Rightarrow> int" where
  "digit_value c = int (of_char c) - 48"

definition int_of_digits :: "string \<Rightarrow> int" where
  "int_of_digits s = foldl (\<lambda>n c. 10 * n + digit_value c) 0 s"

definition addr_port :: "multiaddr \<Rightarrow> int result" where
  "addr_port m = of_option invalid_multiaddr (map_option int_of_digits (search_tcp (address m)))"

section \<open>Lemmas\<close>

lemma takeWhile_stop: "list_all P a \<Longrightarrow> \<not> P c \<Longrightarrow> takeWhile P (a @ c # r) = a"
  by (induction a) auto

lemma dropWhile_stop: "list_all P a \<Longrightarrow> \<not> P c \<Longrightarrow> dropWhile P (a @ c # r) = c # r"
  by (induction a) auto

lemma scan_span_stop:
  "list_all P a \<Longrightarrow> lo \<le> length a \<Longrightarrow> length a \<le> hi \<Longrightarrow> \<not> P c \<Longrightarrow>
   scan_span lo hi P (a @ c # r) = Some (a, c # r)"
  by (simp add: scan_span_def takeWhile_stop)

lemma scan_span_all:
  "list_all P a \<Longrightarrow> lo \<le> length a \<Longrightarrow> length a \<le> hi \<Longrightarrow> scan_span lo hi P a = Some (a, [])"
  by (simp add: scan_span_def takeWhile_eq_all_conv [THEN iffD2] list_all_iff Let_def)

lemma scan_lit_append [simp]: "scan_lit l (l @ s) = Some s"
  by (simp add: scan_lit_def)

text \<open>An octet as it is written: one to three digits.\<close>

definition octet :: "string \<Rightarrow> bool" where
  "octet a \<longleftrightarrow> list_all is_digit a \<and> 1 \<le> length a \<and> length a \<le> 3"

lemma slash_dot_not_digit [simp]: "\<not> is_digit CHR ''/''" "\<not> is_digit CHR ''.''"
  by (simp_all add: is_digit_def)

lemma scan_octet: "octet a \<Longrightarrow> \<not> is_digit c \<Longrightarrow> scan_span 1 3 is_digit (a @ c # r) = Some (a, c # r)"
  by (rule scan_span_stop) (auto simp: octet_def)

lemma scan_octets4:
  assumes "octet a" "octet b" "octet c" "octet d"
  shows "scan_octets 4 (a @ ''.'' @ b @ ''.'' @ c @ ''.'' @ d @ CHR ''/'' # r) =
    Some (a @ ''.'' @ b @ ''.'' @ c @ ''.'' @ d, CHR ''/'' # r)"
proof -
  have dot: "scan_lit ''.'' (CHR ''.'' # s) = Some s" for s
    by (simp add: scan_lit_def)
  have n4: "(4::nat) = Suc (Suc (Suc (Suc 0)))" by simp
  show ?thesis
    unfolding n4 using assms
    by (simp add: scan_octet [unfolded One_nat_def] dot)
qed

lemma scan_tcp_end:
  assumes "list_all is_digit p" "1 \<le> length p" "length p \<le> 5"
  shows "scan_tail (''/tcp/'' @ p)" "search_tcp (''/tcp/'' @ p) = Some p"
proof -
  have "scan_span 1 5 is_digit p = Some (p, [])"
    by (rule scan_span_all) (use assms in auto)
  then show "scan_tail (''/tcp/'' @ p)" "search_tcp (''/tcp/'' @ p) = Some p"
    by (simp_all add: scan_tail_def scan_tcp_def scan_p2p_def at_end_def scan_lit_def)
qed

lemma search_tcp_skip:
  "list_all (\<lambda>c. c \<noteq> CHR ''/'') a \<Longrightarrow> search_tcp (a @ s) = search_tcp s"
  by (induction a) (auto simp: scan_lit_def)

lemma octet_not_tcp: "octet a \<Longrightarrow> scan_lit ''/tcp/'' (CHR ''/'' # a @ s) = None"
  by (cases a) (auto simp: octet_def scan_lit_def is_digit_def)

lemma octet_no_slash: "octet a \<Longrightarrow> list_all (\<lambda>c. c \<noteq> CHR ''/'') a"
  by (auto simp: octet_def list_all_iff)

text \<open>
  The address a worker builds for a peer it reached, \<^verbatim>\<open>/ip4/{ip}/tcp/{port}\<close>, is accepted by the
  validating constructor, and reading \<^verbatim>\<open>ip_address\<close> and the port digits back gives the \<open>ip\<close> and
  the port it was built from.
\<close>

theorem multiaddr_ip4_roundtrip:
  assumes "octet a" "octet b" "octet c" "octet d"
    and "list_all is_digit p" "1 \<le> length p" "length p \<le> 5"
  shows "\<exists>m. mk_multiaddr (''/ip4/'' @ (a @ ''.'' @ b @ ''.'' @ c @ ''.'' @ d) @ ''/tcp/'' @ p) = Inr m \<and>
    ip_address m = Inr (a @ ''.'' @ b @ ''.'' @ c @ ''.'' @ d) \<and> addr_port m = Inr (int_of_digits p)"
proof -
  let ?ip = "a @ ''.'' @ b @ ''.'' @ c @ ''.'' @ d"
  let ?v = "''/ip4/'' @ ?ip @ ''/tcp/'' @ p"
  have "scan_ip4 ?v = scan_octets 4 (?ip @ ''/tcp/'' @ p)"
    unfolding scan_ip4_def scan_lit_append by simp
  also have "\<dots> = Some (?ip, ''/tcp/'' @ p)"
    using scan_octets4 [OF assms(1-4), of "''tcp/'' @ p"] by simp
  finally have ip4: "scan_ip4 ?v = Some (?ip, ''/tcp/'' @ p)" .
  then have full: "full_match scan_ip4 ?v"
    using scan_tcp_end [OF assms(5-7)] by (simp add: full_match_def)
  have no_slash: "list_all (\<lambda>c. c \<noteq> CHR ''/'') ?ip"
    using assms(1-4) by (simp add: octet_no_slash)
  have "scan_lit ''/tcp/'' (CHR ''/'' # ?ip @ ''/tcp/'' @ p) = None"
    using octet_not_tcp [OF assms(1)] by simp
  then have "search_tcp (CHR ''/'' # ?ip @ ''/tcp/'' @ p) = search_tcp (?ip @ ''/tcp/'' @ p)"
    by simp
  then have "search_tcp ?v = search_tcp (?ip @ ''/tcp/'' @ p)"
    by (simp add: scan_lit_def)
  also have "\<dots> = Some p"
    using search_tcp_skip [OF no_slash, of "''/tcp/'' @ p"] scan_tcp_end [OF assms(5-7)] by simp
  finally have "search_tcp ?v = Some p" .
  with full ip4 show ?thesis
    by (intro exI [of _ "Multiaddr ?v"])
       (simp add: mk_multiaddr_def ip_address_def address_type_def ipv4_address_def addr_port_def)
qed

text \<open>Witness of the round trip at the address \<^verbatim>\<open>/ip4/10.0.0.7/tcp/52415\<close>.\<close>

theorem multiaddr_ip4_roundtrip_witness:
  "\<exists>m. mk_multiaddr ''/ip4/10.0.0.7/tcp/52415'' = Inr m \<and> ip_address m = Inr ''10.0.0.7'' \<and>
     addr_port m = Inr 52415"
proof -
  have d: "octet ''10''" "octet ''0''" "octet ''7''" and p: "list_all is_digit ''52415''"
    by (simp_all add: octet_def is_digit_def)
  have "int_of_digits ''52415'' = 52415"
    by (simp add: int_of_digits_def digit_value_def)
  then show ?thesis
    using multiaddr_ip4_roundtrip [OF d(1) d(2) d(2) d(3) p] by simp
qed

text \<open>
  A DNS multiaddr passes validation, but its \<^verbatim>\<open>ip_address\<close> raises \<^verbatim>\<open>ValueError\<close>: every type other
  than \<^verbatim>\<open>ip4\<close> is read as an IPv6 address.
\<close>

theorem dns_multiaddr_ip_address_raises:
  assumes "scan_dns v = Some (h, r)" "scan_tail r"
  shows "mk_multiaddr v = Inr (Multiaddr v) \<and> ip_address (Multiaddr v) = Inl invalid_multiaddr"
proof -
  obtain r' where "scan_lit ''/dns'' v = Some r'"
    using assms(1) by (auto simp: scan_dns_def bind_eq_Some_conv)
  then have "v = ''/dns'' @ r'"
    by (metis append_take_drop_id option.inject option.simps(3) scan_lit_def)
  then have "scan_ip4 v = None" "scan_ip6 v = None"
    by (simp_all add: scan_ip4_def scan_ip6_def scan_lit_def)
  with assms show ?thesis
    by (simp add: mk_multiaddr_def ip_address_def address_type_def full_match_def
        ipv6_address_def)
qed

theorem dns_multiaddr_ip_address_raises_witness:
  "mk_multiaddr ''/dns/example.com/tcp/443'' = Inr (Multiaddr ''/dns/example.com/tcp/443'') \<and>
   ip_address (Multiaddr ''/dns/example.com/tcp/443'') = Inl invalid_multiaddr"
  by (rule dns_multiaddr_ip_address_raises [of _ "''example.com''" "''/tcp/443''"]) code_simp+

end
