(* ===== verification/Shared_Types.thy ===== *)
theory Shared_Types
  imports Memory_Size Multiaddr
begin

text \<open>
  The data the components exchange (\<^verbatim>\<open>src/exo/shared/types\<close>): node profiles, topology edges,
  model cards, shards, runner states, instances, downloads, tasks, chunks, events and commands.
  A Pydantic class is a record, a union of tagged classes a datatype with one constructor per
  class; a base class shared by the members of a union is the record part of the union
  (\<open>base_shard\<close>, \<open>task\<close>, \<open>download_progress\<close>, \<open>event\<close>). Times are integers (microseconds); where one is
  sent as text, it is the text \<^verbatim>\<open>str(datetime.now())\<close> gave, which reading back does not refuse.
\<close>

type_synonym node_id = string
type_synonym model_id = string
type_synonym command_id = string
type_synonym system_id = string
type_synonym runner_id = string
type_synonym task_id = string
type_synonym event_id = string
type_synonym time = int

definition normalize_model_id :: "model_id \<Rightarrow> string" where
  "normalize_model_id m = concat (map (\<lambda>c. if c = CHR ''/'' then ''--'' else [c]) m)"

section \<open>Common and profiling types\<close>

record session_id =
  master_node_id :: node_id
  election_clock :: int

record host =
  host_ip :: string
  host_port :: int

definition mk_host :: "string \<Rightarrow> int \<Rightarrow> host result" where
  "mk_host i p =
     (if 0 \<le> p \<and> p \<le> 65535 then Inr \<lparr>host_ip = i, host_port = p\<rparr>
      else Inl (ValueError ''Port must be between 0 and 65535''))"

datatype backend = MlxMetal | MlxCpu | MlxCuda | Vllm

record memory_usage =
  ram_total :: memory
  ram_available :: memory
  swap_total :: memory
  swap_available :: memory

record disk_usage =
  disk_total :: memory
  disk_available :: memory

record system_performance_profile =
  gpu_usage :: pyfloat
  temp :: pyfloat
  sys_power :: pyfloat
  pcpu_usage :: pyfloat
  ecpu_usage :: pyfloat

datatype interface_type = Wifi | Ethernet | MaybeEthernet | ThunderboltIf | UnknownIf

record network_interface_info =
  if_name :: string
  if_ip_address :: string
  if_interface_type :: interface_type

record node_identity =
  ident_model_id :: string
  ident_chip_id :: string
  ident_friendly_name :: string
  ident_os_version :: string
  ident_os_build_version :: string

definition default_node_identity :: node_identity where
  "default_node_identity =
     \<lparr>ident_model_id = ''Unknown'', ident_chip_id = ''Unknown'', ident_friendly_name = ''Unknown'',
      ident_os_version = ''Unknown'', ident_os_build_version = ''Unknown''\<rparr>"

record thunderbolt_connection =
  source_uuid :: string
  sink_uuid :: string

record thunderbolt_identifier =
  rdma_interface :: string
  domain_uuid :: string
  link_speed :: string

record thunderbolt_bridge_status =
  bridge_enabled :: bool
  bridge_exists :: bool
  bridge_service_name :: "string option"

text \<open>\<^verbatim>\<open>NodeNetworkInfo\<close>, \<^verbatim>\<open>NodeThunderboltInfo\<close> and \<^verbatim>\<open>NodeRdmaCtlStatus\<close> have one field each.\<close>

type_synonym node_network_info = "network_interface_info list"
type_synonym node_thunderbolt_info = "thunderbolt_identifier list"
type_synonym node_rdma_ctl_status = bool

datatype gathered_info =
    MacmonMetrics system_performance_profile memory_usage
  | MemoryUsageInfo memory_usage
  | NodeNetworkInterfaces "network_interface_info list"
  | MacThunderboltIdentifiers "thunderbolt_identifier list"
  | MacThunderboltConnections "thunderbolt_connection list"
  | RdmaCtlStatus bool
  | ThunderboltBridgeInfo thunderbolt_bridge_status
  | NodeConfig
  | MiscData string
  | StaticNodeInformation string string string string
  | NodeDiskUsage disk_usage
  | NodeBackends "backend list"

section \<open>Topology edges\<close>

datatype edge =
    RDMAConnection (source_rdma_iface: string) (sink_rdma_iface: string)
  | SocketConnection (sink_multiaddr: multiaddr)

record connection =
  conn_source :: node_id
  conn_sink :: node_id
  conn_edge :: edge

text \<open>A \<^verbatim>\<open>Cycle\<close> wraps its list of node ids.\<close>

type_synonym cycle = "node_id list"

section \<open>Model cards and shards\<close>

datatype model_task = TextGenerationTask | TextToImage | ImageToImage

record component_info =
  component_name :: string
  component_path :: string
  component_storage_size :: memory
  component_n_layers :: "int option"
  can_shard :: bool
  safetensors_index_filename :: "string option"

record vision_card_config =
  vision_image_token_id :: int
  vision_model_type :: string
  vision_weights_repo :: string
  vision_image_token :: "string option"
  vision_processor_repo :: "string option"

record sampling_values =
  sv_temperature :: "pyfloat option"
  sv_top_p :: "pyfloat option"
  sv_top_k :: "int option"
  sv_min_p :: "pyfloat option"
  sv_repetition_penalty :: "pyfloat option"
  sv_presence_penalty :: "pyfloat option"
  sv_frequency_penalty :: "pyfloat option"

record sampling_defaults =
  sd_flat :: sampling_values
  sd_thinking :: "sampling_values option"
  sd_non_thinking :: "sampling_values option"

record model_card =
  mc_model_id :: model_id
  mc_storage_size :: memory
  mc_n_layers :: int
  mc_hidden_size :: int
  mc_supports_tensor :: bool
  mc_num_key_value_heads :: "int option"
  mc_tasks :: "model_task list"
  mc_components :: "component_info list option"
  mc_family :: string
  mc_quantization :: string
  mc_base_model :: string
  mc_capabilities :: "string list"
  mc_backends :: "backend list"
  mc_reasoning_dialect :: string
  mc_context_length :: int
  mc_uses_cfg :: bool
  mc_trust_remote_code :: bool
  mc_is_custom :: bool
  mc_vision :: "vision_card_config option"
  mc_sampling_defaults :: sampling_defaults

datatype sharding = Tensor | Pipeline

record base_shard =
  shard_model_card :: model_card
  device_rank :: int
  world_size :: int
  immediate_exception :: bool
  should_timeout :: "pyfloat option"
  start_layer :: int
  end_layer :: int
  n_layers :: int

datatype shard_metadata =
    PipelineShardMetadata (shard_base: base_shard)
  | CfgShardMetadata (shard_base: base_shard) (cfg_rank: int) (cfg_world_size: int)
      (pipeline_rank: int) (pipeline_world_size: int)
  | TensorShardMetadata (shard_base: base_shard)

definition is_first_layer :: "shard_metadata \<Rightarrow> bool" where
  "is_first_layer s \<longleftrightarrow> start_layer (shard_base s) = 0"

definition is_last_layer :: "shard_metadata \<Rightarrow> bool" where
  "is_last_layer s \<longleftrightarrow> end_layer (shard_base s) = n_layers (shard_base s)"

definition shard_model_id :: "shard_metadata \<Rightarrow> model_id" where
  "shard_model_id s = mc_model_id (shard_model_card (shard_base s))"

section \<open>Runners and instances\<close>

datatype runner_diagnostic =
    RunnerMetalGpuTimeout string "string list"
  | RunnerRingTransportError string "string list"
  | RunnerRingSocketReceivingError string "string list" int string string
  | RunnerUnknown string "string list"

datatype runner_status =
    RunnerIdle
  | RunnerConnecting
  | RunnerConnected
  | RunnerLoading int int
  | RunnerLoaded
  | RunnerWarmingUp
  | RunnerReady "int option"
  | RunnerRunning
  | RunnerShuttingDown
  | RunnerShutdown
  | RunnerFailed "string option" "runner_diagnostic list"

record shard_assignments =
  sa_model_id :: model_id
  runner_to_shard :: "(runner_id, shard_metadata) dict"
  node_to_runner :: "(node_id, runner_id) dict"

text \<open>The constructor runs \<^verbatim>\<open>validate_runners_exist\<close>.\<close>

definition mk_shard_assignments ::
  "model_id \<Rightarrow> (runner_id, shard_metadata) dict \<Rightarrow> (node_id, runner_id) dict \<Rightarrow>
   shard_assignments result" where
  "mk_shard_assignments mid r2s n2r =
     (if list_all (\<lambda>r. dict_mem r r2s) (dict_values n2r)
      then Inr \<lparr>sa_model_id = mid, runner_to_shard = r2s, node_to_runner = n2r\<rparr>
      else Inl (ValueError ''Runner in node_to_runner does not exist in runner_to_shard''))"

datatype instance_meta = MlxRing | MlxJaccl

datatype inst =
    MlxRingInstance (instance_id: string) (shard_assignments: shard_assignments)
      (hosts_by_node: "(node_id, host list) dict") (ephemeral_port: int)
  | MlxJacclInstance (instance_id: string) (shard_assignments: shard_assignments)
      (jaccl_devices: "string option list list") (jaccl_coordinators: "(node_id, string) dict")

definition inst_shard :: "inst \<Rightarrow> runner_id \<Rightarrow> shard_metadata option" where
  "inst_shard i r = dict_get (runner_to_shard (shard_assignments i)) r"

record bound_instance =
  bi_instance :: inst
  bound_runner_id :: runner_id
  bound_node_id :: node_id

text \<open>The constructor runs \<^verbatim>\<open>validate_shard_exists\<close>.\<close>

definition mk_bound_instance :: "inst \<Rightarrow> runner_id \<Rightarrow> node_id \<Rightarrow> bound_instance result" where
  "mk_bound_instance i r n =
     (if dict_mem r (runner_to_shard (shard_assignments i))
      then Inr \<lparr>bi_instance = i, bound_runner_id = r, bound_node_id = n\<rparr>
      else Inl (AssertionError ''Bound Instance must be constructed with a runner_id that is in the instances assigned shards''))"

definition bound_shard :: "bound_instance \<Rightarrow> shard_metadata result" where
  "bound_shard b =
     of_option (AssertionError ''shard is not None'') (inst_shard (bi_instance b) (bound_runner_id b))"

definition is_image_model :: "bound_instance \<Rightarrow> bool result" where
  "is_image_model b =
     rbind (bound_shard b)
       (\<lambda>s. Inr (TextToImage \<in> set (mc_tasks (shard_model_card (shard_base s))) \<or>
                 ImageToImage \<in> set (mc_tasks (shard_model_card (shard_base s)))))"

record instance_link =
  link_id :: string
  prefill_instances :: "string list"
  decode_instances :: "string list"

section \<open>Downloads\<close>

datatype download_progress_data =
  DownloadProgressData (dpd_total: memory) (dpd_downloaded: memory)
    (dpd_downloaded_this_session: memory) (dpd_completed_files: int) (dpd_total_files: int)
    (dpd_speed: pyfloat) (dpd_eta_ms: int) (dpd_files: "(string \<times> download_progress_data) list")

datatype download_state =
    DownloadPending memory memory
  | DownloadCompleted memory bool
  | DownloadFailed string
  | DownloadOngoing download_progress_data

record download_progress =
  dp_node_id :: node_id
  dp_shard_metadata :: shard_metadata
  dp_model_directory :: string
  dp_state :: download_state

definition dp_model_id :: "download_progress \<Rightarrow> model_id" where
  "dp_model_id dp = shard_model_id (dp_shard_metadata dp)"

fun is_ongoing :: "download_state \<Rightarrow> bool" where
  "is_ongoing (DownloadOngoing _) = True"
| "is_ongoing _ = False"

fun is_completed :: "download_state \<Rightarrow> bool" where
  "is_completed (DownloadCompleted _ _) = True"
| "is_completed _ = False"

fun is_failed :: "download_state \<Rightarrow> bool" where
  "is_failed (DownloadFailed _) = True"
| "is_failed _ = False"

section \<open>Task parameters and tasks\<close>

record input_message =
  im_role :: string
  im_content :: string

record text_generation_task_params =
  tg_model :: model_id
  tg_input :: "input_message list"
  tg_instructions :: "string option"
  tg_max_output_tokens :: "int option"
  tg_temperature :: "pyfloat option"
  tg_top_p :: "pyfloat option"
  tg_stream :: bool
  tg_tools :: "json list option"
  tg_bench :: bool
  tg_use_prefix_cache :: bool
  tg_top_k :: "int option"
  tg_stop :: "json option"
  tg_seed :: "int option"
  tg_chat_template_messages :: "json list option"
  tg_reasoning_effort :: "string option"
  tg_enable_thinking :: "bool option"
  tg_logprobs :: bool
  tg_top_logprobs :: "int option"
  tg_min_p :: "pyfloat option"
  tg_repetition_penalty :: "pyfloat option"
  tg_repetition_context_size :: "int option"
  tg_presence_penalty :: "pyfloat option"
  tg_frequency_penalty :: "pyfloat option"
  tg_images :: "string list"
  tg_image_hashes :: "(int, string) dict"
  tg_prefill_endpoint :: "string option"

record advanced_image_params =
  ai_seed :: "int option"
  ai_num_inference_steps :: "int option"
  ai_guidance :: "pyfloat option"
  ai_negative_prompt :: "string option"
  ai_num_sync_steps :: "int option"

record image_generation_task_params =
  ig_prompt :: string
  ig_background :: "string option"
  ig_model :: string
  ig_moderation :: "string option"
  ig_n :: "int option"
  ig_output_compression :: "int option"
  ig_output_format :: string
  ig_partial_images :: "int option"
  ig_quality :: "string option"
  ig_response_format :: "string option"
  ig_size :: string
  ig_stream :: "bool option"
  ig_style :: "string option"
  ig_user :: "string option"
  ig_advanced_params :: "advanced_image_params option"
  ig_bench :: bool

record image_edits_task_params =
  ie_image_data :: string
  ie_total_input_chunks :: int
  ie_prompt :: string
  ie_model :: string
  ie_n :: "int option"
  ie_quality :: "string option"
  ie_output_format :: string
  ie_response_format :: "string option"
  ie_size :: string
  ie_image_strength :: "pyfloat option"
  ie_stream :: bool
  ie_partial_images :: "int option"
  ie_advanced_params :: "advanced_image_params option"
  ie_bench :: bool

datatype task_status = Pending | Running | Complete | TimedOut | Failed | Cancelled

datatype task_body =
    CreateRunner bound_instance
  | DownloadModel shard_metadata
  | LoadModel
  | ConnectToGroup
  | StartWarmup
  | TextGeneration command_id text_generation_task_params
  | CancelTask task_id runner_id
  | ImageGeneration command_id image_generation_task_params
  | ImageEdits command_id image_edits_task_params
  | Shutdown runner_id

text \<open>
  \<^verbatim>\<open>error_type\<close> and \<^verbatim>\<open>error_message\<close> are declared by the generation tasks only, but
  \<^verbatim>\<open>model_copy(update=...)\<close> writes them on any task, so they belong to the common part.
\<close>

record task =
  task_id :: task_id
  task_status :: task_status
  task_instance_id :: string
  task_body :: task_body
  task_error_type :: "string option"
  task_error_message :: "string option"

definition mk_task :: "task_id \<Rightarrow> string \<Rightarrow> task_body \<Rightarrow> task" where
  "mk_task tid iid b =
     \<lparr>task_id = tid, task_status = Pending, task_instance_id = iid, task_body = b,
      task_error_type = None, task_error_message = None\<rparr>"

section \<open>Chunks\<close>

record input_image_chunk =
  ic_model :: model_id
  ic_command_id :: command_id
  ic_data :: string
  ic_chunk_index :: int
  ic_total_chunks :: int
  ic_image_index :: int

datatype finish_reason =
  FinishStop | FinishLength | FinishToolCalls | FinishContentFilter | FinishFunctionCall | FinishError

record usage =
  us_prompt_tokens :: int
  us_completion_tokens :: int
  us_total_tokens :: int
  us_cached_tokens :: int
  us_prompt_audio_tokens :: int
  us_reasoning_tokens :: int
  us_audio_tokens :: int
  us_accepted_prediction_tokens :: int
  us_rejected_prediction_tokens :: int

record generation_stats =
  gs_prompt_tps :: pyfloat
  gs_generation_tps :: pyfloat
  gs_prompt_tokens :: int
  gs_generation_tokens :: int
  gs_peak_memory_usage :: memory
  gs_prefix_cache_hit :: string

record top_logprob_item =
  tl_token :: string
  tl_logprob :: pyfloat
  tl_bytes :: "int list option"

record tool_call_item =
  tc_id :: string
  tc_name :: string
  tc_arguments :: string

record token_chunk =
  tk_model :: model_id
  tk_text :: string
  tk_token_id :: int
  tk_usage :: "usage option"
  tk_finish_reason :: "finish_reason option"
  tk_stats :: "generation_stats option"
  tk_logprob :: "pyfloat option"
  tk_top_logprobs :: "top_logprob_item list option"
  tk_is_thinking :: bool

record tool_call_chunk =
  tcc_model :: model_id
  tcc_tool_calls :: "tool_call_item list"
  tcc_usage :: "usage option"
  tcc_stats :: "generation_stats option"

text \<open>The statistics of an image chunk are shown to the client only; they are a JSON value.\<close>

record image_chunk =
  imc_model :: model_id
  imc_data :: string
  imc_chunk_index :: int
  imc_total_chunks :: int
  imc_image_index :: int
  imc_is_partial :: bool
  imc_partial_index :: "int option"
  imc_total_partials :: "int option"
  imc_stats :: "json option"
  imc_format :: "string option"
  imc_finish_reason :: "finish_reason option"
  imc_error_message :: "string option"

datatype chunk =
    TokenChunk token_chunk
  | ErrorChunk model_id string "runner_diagnostic list"
  | ToolCallChunk tool_call_chunk
  | ImageChunk image_chunk
  | PrefillProgressChunk model_id int int

text \<open>\<^verbatim>\<open>finish_reason\<close> of a chunk: the class's constant for errors and tool calls; status chunks have none.\<close>

fun chunk_finish_reason :: "chunk \<Rightarrow> finish_reason option" where
  "chunk_finish_reason (TokenChunk t) = tk_finish_reason t"
| "chunk_finish_reason (ErrorChunk _ _ _) = Some FinishError"
| "chunk_finish_reason (ToolCallChunk _) = Some FinishToolCalls"
| "chunk_finish_reason (ImageChunk i) = imc_finish_reason i"
| "chunk_finish_reason (PrefillProgressChunk _ _ _) = None"

section \<open>Events and commands\<close>

record trace_event_data =
  trace_name :: string
  start_us :: int
  duration_us :: int
  trace_rank :: int
  trace_category :: string

datatype event_body =
    TestEvent
  | TaskCreated task_id task
  | TaskStatusUpdated task_id task_status
  | TaskFailed task_id string string
  | TaskDeleted task_id
  | TaskAcknowledged task_id
  | InstanceCreated inst
  | InstanceDeleted string
  | RunnerStatusUpdated runner_id runner_status
  | NodeTimedOut node_id
  | NodeGatheredInfo node_id time gathered_info
  | NodeDownloadProgress download_progress
  | ChunkGenerated command_id chunk
  | InputChunkReceived command_id input_image_chunk
  | TopologyEdgeCreated connection
  | TopologyEdgeDeleted connection
  | TracesCollected task_id int "trace_event_data list"
  | TracesMerged task_id "trace_event_data list"
  | CustomModelCardAdded model_card
  | CustomModelCardDeleted model_id
  | InstanceLinkCreated instance_link
  | InstanceLinkDeleted string

text \<open>The debugging attribute \<^verbatim>\<open>_master_time_stamp\<close> of the base class is not kept.\<close>

record event =
  event_id :: event_id
  event_body :: event_body

record indexed_event =
  ie_idx :: int
  ie_event :: event

record global_forwarder_event =
  gf_origin_idx :: int
  gf_origin :: node_id
  gf_session :: session_id
  gf_event :: event

record local_forwarder_event =
  lf_origin_idx :: int
  lf_origin :: system_id
  lf_session :: session_id
  lf_event :: event

record place_instance_command =
  pi_model_card :: model_card
  pi_sharding :: sharding
  pi_instance_meta :: instance_meta
  pi_min_nodes :: int

datatype command_body =
    TestCommand
  | RequestEventLog int
  | TextGenerationCommand text_generation_task_params
  | ImageGenerationCommand image_generation_task_params
  | ImageEditsCommand image_edits_task_params
  | PlaceInstance place_instance_command
  | CreateInstance inst
  | DeleteInstance string
  | TaskCancelled command_id
  | TaskFinished command_id
  | SendInputChunk input_image_chunk
  | AddCustomModelCard model_card
  | DeleteCustomModelCard model_id
  | SetInstanceLink string "string list" "string list"
  | DeleteInstanceLink string

record command =
  cmd_command_id :: command_id
  cmd_body :: command_body

datatype download_command =
    StartDownload (target_node_id: node_id) shard_metadata
  | DeleteDownload (target_node_id: node_id) model_id
  | CancelDownload (target_node_id: node_id) model_id

end
