(* ===== verification/Topology.thy ===== *)
theory Topology
  imports Shared_Types
begin

text \<open>
  The cluster graph of \<^verbatim>\<open>src/exo/shared/topology.py\<close>. The graph container is
  \<^verbatim>\<open>rustworkx.PyDiGraph\<close>, a third-party package: its operations are the fields of the record
  \<open>env\<close>, a parameter of every definition that touches the graph, together with the iteration
  order of Python sets of strings, which depends on the process's hash seed. The predicate
  \<open>rx_digraph\<close> states the documented behaviour of the package that the topology code relies on,
  in terms of an abstract view of a graph: its vertices \<open>V g\<close> (index to payload) and its edges
  \<open>E g\<close> (edge index, source index, target index, payload).

  A \<open>topology\<close> is such a graph with the dictionary from node ids to vertex indices. The
  invariant \<open>topo_inv\<close> says that the dictionary and the graph agree and that no connection is
  stored twice; \<open>topo_nodes\<close> and \<open>topo_conns\<close> are what a topology means, and the refinement
  lemmas say what each operation does to them.
\<close>

named_theorems topo_simps \<open>what the operations do to the meaning of a topology\<close>

section \<open>The environment: rustworkx and set iteration\<close>

record 'g env =
  rx_new :: "'g"
  rx_add_node :: "'g \<Rightarrow> node_id \<Rightarrow> 'g \<times> int"
  rx_add_edge :: "'g \<Rightarrow> int \<Rightarrow> int \<Rightarrow> edge \<Rightarrow> 'g"
  rx_remove_node :: "'g \<Rightarrow> int \<Rightarrow> 'g"
  rx_getitem :: "'g \<Rightarrow> int \<Rightarrow> node_id"
  rx_neighbors :: "'g \<Rightarrow> int \<Rightarrow> int list"
  rx_out_edges :: "'g \<Rightarrow> int \<Rightarrow> (int \<times> int \<times> edge) list"
  rx_get_all_edge_data :: "'g \<Rightarrow> int \<Rightarrow> int \<Rightarrow> edge list option"
  rx_nodes :: "'g \<Rightarrow> node_id list"
  rx_weighted_edge_list :: "'g \<Rightarrow> (int \<times> int \<times> edge) list"
  rx_out_edge_indices :: "'g \<Rightarrow> int \<Rightarrow> int list"
  rx_in_edge_indices :: "'g \<Rightarrow> int \<Rightarrow> int list"
  rx_get_edge_data_by_index :: "'g \<Rightarrow> int \<Rightarrow> edge"
  rx_remove_edge_from_index :: "'g \<Rightarrow> int \<Rightarrow> 'g"
  rx_edge_indices_from_endpoints :: "'g \<Rightarrow> int \<Rightarrow> int \<Rightarrow> int list"
  rx_simple_cycles :: "'g \<Rightarrow> int list list"
  set_order :: "string list \<Rightarrow> string list"

record 'g topology =
  graph :: "'g"
  vertex_indices :: "(node_id, int) dict"

section \<open>Operations\<close>

definition new_topology :: "'g env \<Rightarrow> 'g topology" where
  "new_topology rx = \<lparr>graph = rx_new rx, vertex_indices = []\<rparr>"

fun is_rdma :: "edge \<Rightarrow> bool" where
  "is_rdma (RDMAConnection _ _) = True"
| "is_rdma (SocketConnection _) = False"

definition add_node :: "'g env \<Rightarrow> node_id \<Rightarrow> 'g topology \<Rightarrow> 'g topology" where
  "add_node rx n t =
     (if dict_mem n (vertex_indices t) then t
      else let (g, i) = rx_add_node rx (graph t) n
           in \<lparr>graph = g, vertex_indices = dict_set (vertex_indices t) n i\<rparr>)"

definition node_is_leaf :: "'g env \<Rightarrow> 'g topology \<Rightarrow> node_id \<Rightarrow> bool" where
  "node_is_leaf rx t n =
     (case dict_get (vertex_indices t) n of
        None \<Rightarrow> False
      | Some i \<Rightarrow> length (rx_neighbors rx (graph t) i) \<le> 1)"

definition neighbours :: "'g env \<Rightarrow> 'g topology \<Rightarrow> node_id \<Rightarrow> node_id list result" where
  "neighbours rx t n =
     rbind (of_option KeyError (dict_get (vertex_indices t) n))
       (\<lambda>i. Inr (map (rx_getitem rx (graph t)) (rx_neighbors rx (graph t) i)))"

definition mk_conn :: "'g env \<Rightarrow> 'g \<Rightarrow> int \<times> int \<times> edge \<Rightarrow> connection" where
  "mk_conn rx g x =
     (case x of (u, v, d) \<Rightarrow>
        \<lparr>conn_source = rx_getitem rx g u, conn_sink = rx_getitem rx g v, conn_edge = d\<rparr>)"

definition out_edges :: "'g env \<Rightarrow> 'g topology \<Rightarrow> node_id \<Rightarrow> connection list" where
  "out_edges rx t n =
     (case dict_get (vertex_indices t) n of
        None \<Rightarrow> []
      | Some i \<Rightarrow> map (mk_conn rx (graph t)) (rx_out_edges rx (graph t) i))"

definition contains_node :: "'g topology \<Rightarrow> node_id \<Rightarrow> bool" where
  "contains_node t n = dict_mem n (vertex_indices t)"

definition get_all_connections_between ::
  "'g env \<Rightarrow> 'g topology \<Rightarrow> node_id \<Rightarrow> node_id \<Rightarrow> edge list" where
  "get_all_connections_between rx t source sink =
     (case dict_get (vertex_indices t) source of
        None \<Rightarrow> []
      | Some s \<Rightarrow>
          (case dict_get (vertex_indices t) sink of
             None \<Rightarrow> []
           | Some k \<Rightarrow>
               (case rx_get_all_edge_data rx (graph t) s k of None \<Rightarrow> [] | Some ds \<Rightarrow> ds)))"

definition add_connection :: "'g env \<Rightarrow> 'g topology \<Rightarrow> connection \<Rightarrow> 'g topology result" where
  "add_connection rx t conn =
     (let source = conn_source conn; sink = conn_sink conn; edge = conn_edge conn
      in if edge \<in> set (get_all_connections_between rx t source sink) then Inr t
         else
           let t1 = (if dict_mem source (vertex_indices t) then t else add_node rx source t);
               t2 = (if dict_mem sink (vertex_indices t1) then t1 else add_node rx sink t1)
           in rbind (of_option KeyError (dict_get (vertex_indices t2) source)) (\<lambda>src_id.
              rbind (of_option KeyError (dict_get (vertex_indices t2) sink)) (\<lambda>sink_id.
              Inr (t2\<lparr>graph := rx_add_edge rx (graph t2) src_id sink_id edge\<rparr>))))"

definition list_nodes :: "'g env \<Rightarrow> 'g topology \<Rightarrow> node_id list" where
  "list_nodes rx t = rx_nodes rx (graph t)"

definition list_connections :: "'g env \<Rightarrow> 'g topology \<Rightarrow> connection list" where
  "list_connections rx t = map (mk_conn rx (graph t)) (rx_weighted_edge_list rx (graph t))"

text \<open>\<^verbatim>\<open>map_connections\<close>: the nested dictionary source, sink, edges.\<close>

definition map_connections_step ::
  "(node_id, (node_id, edge list) dict) dict \<Rightarrow> connection \<Rightarrow>
   (node_id, (node_id, edge list) dict) dict" where
  "map_connections_step base c =
     (let inner = dict_get_default base (conn_source c) [];
          es = dict_get_default inner (conn_sink c) []
      in dict_set base (conn_source c) (dict_set inner (conn_sink c) (es @ [conn_edge c])))"

definition map_connections ::
  "'g env \<Rightarrow> 'g topology \<Rightarrow> (node_id, (node_id, edge list) dict) dict" where
  "map_connections rx t = foldl map_connections_step [] (list_connections rx t)"

record topology_snapshot =
  snap_nodes :: "node_id list"
  snap_connections :: "(node_id, (node_id, edge list) dict) dict"

definition to_snapshot :: "'g env \<Rightarrow> 'g topology \<Rightarrow> topology_snapshot" where
  "to_snapshot rx t =
     \<lparr>snap_nodes = list_nodes rx t, snap_connections = map_connections rx t\<rparr>"

definition snapshot_conns :: "topology_snapshot \<Rightarrow> connection list" where
  "snapshot_conns s =
     concat (map (\<lambda>(source, inner).
       concat (map (\<lambda>(sink, es).
         map (\<lambda>d. \<lparr>conn_source = source, conn_sink = sink, conn_edge = d\<rparr>) es) inner))
       (snap_connections s))"

definition from_snapshot :: "'g env \<Rightarrow> topology_snapshot \<Rightarrow> 'g topology result" where
  "from_snapshot rx s =
     rfold (add_connection rx) (foldl (\<lambda>t n. add_node rx n t) (new_topology rx) (snap_nodes s))
       (snapshot_conns s)"

definition remove_node :: "'g env \<Rightarrow> node_id \<Rightarrow> 'g topology \<Rightarrow> 'g topology" where
  "remove_node rx n t =
     (case dict_get (vertex_indices t) n of
        None \<Rightarrow> t
      | Some i \<Rightarrow> \<lparr>graph = rx_remove_node rx (graph t) i,
                  vertex_indices = dict_del (vertex_indices t) n\<rparr>)"

definition remove_edges :: "'g env \<Rightarrow> (edge \<Rightarrow> bool) \<Rightarrow> 'g \<Rightarrow> int list \<Rightarrow> 'g" where
  "remove_edges rx P g ks =
     foldl (\<lambda>g k. if P (rx_get_edge_data_by_index rx g k) then rx_remove_edge_from_index rx g k else g)
       g ks"

definition replace_all_out_rdma_connections ::
  "'g env \<Rightarrow> node_id \<Rightarrow> connection list \<Rightarrow> 'g topology \<Rightarrow> 'g topology result" where
  "replace_all_out_rdma_connections rx source new_connections t =
     rbind (of_option KeyError (dict_get (vertex_indices t) source)) (\<lambda>i.
       rfold (add_connection rx)
         (t\<lparr>graph := remove_edges rx is_rdma (graph t) (rx_out_edge_indices rx (graph t) i)\<rparr>)
         new_connections)"

text \<open>
  The list of RDMA edge indices is computed first and then removed, in the source; the removals
  go through the same index list. A self-loop appears in both the out and the in indices.
\<close>

definition remove_all_rdma_connections_touching ::
  "'g env \<Rightarrow> node_id \<Rightarrow> 'g topology \<Rightarrow> 'g topology" where
  "remove_all_rdma_connections_touching rx n t =
     (case dict_get (vertex_indices t) n of
        None \<Rightarrow> t
      | Some i \<Rightarrow>
          let rdma_edge_idxs = filter (\<lambda>k. is_rdma (rx_get_edge_data_by_index rx (graph t) k))
                (rx_out_edge_indices rx (graph t) i @ rx_in_edge_indices rx (graph t) i)
          in t\<lparr>graph := foldl (rx_remove_edge_from_index rx) (graph t) rdma_edge_idxs\<rparr>)"

definition remove_connection :: "'g env \<Rightarrow> connection \<Rightarrow> 'g topology \<Rightarrow> 'g topology" where
  "remove_connection rx conn t =
     (case dict_get (vertex_indices t) (conn_source conn) of
        None \<Rightarrow> t
      | Some s \<Rightarrow>
          (case dict_get (vertex_indices t) (conn_sink conn) of
             None \<Rightarrow> t
           | Some k \<Rightarrow>
               t\<lparr>graph := remove_edges rx (\<lambda>d. d = conn_edge conn) (graph t)
                  (rx_edge_indices_from_endpoints rx (graph t) s k)\<rparr>))"

definition get_cycles :: "'g env \<Rightarrow> 'g topology \<Rightarrow> cycle list" where
  "get_cycles rx t =
     map (map (rx_getitem rx (graph t))) (rx_simple_cycles rx (graph t)) @
     map (\<lambda>n. [n]) (list_nodes rx t)"

definition add_nodes_from :: "'g env \<Rightarrow> 'g \<Rightarrow> node_id list \<Rightarrow> 'g" where
  "add_nodes_from rx g ns = foldl (\<lambda>g n. fst (rx_add_node rx g n)) g ns"

definition get_rdma_cycles :: "'g env \<Rightarrow> 'g topology \<Rightarrow> cycle list" where
  "get_rdma_cycles rx t =
     (let rdma_edges = filter (\<lambda>(u, v, d). is_rdma d) (rx_weighted_edge_list rx (graph t));
          rdma_graph = foldl (\<lambda>g (u, v, d). rx_add_edge rx g u v d)
            (add_nodes_from rx (rx_new rx) (rx_nodes rx (graph t))) rdma_edges
      in map (map (rx_getitem rx rdma_graph)) (rx_simple_cycles rx rdma_graph))"

definition get_subgraph_from_nodes ::
  "'g env \<Rightarrow> 'g topology \<Rightarrow> node_id list \<Rightarrow> 'g topology result" where
  "get_subgraph_from_nodes rx t node_ids =
     rfold (\<lambda>s c. if conn_source c \<in> set node_ids \<and> conn_sink c \<in> set node_ids
                  then add_connection rx s c else Inr s)
       (foldl (\<lambda>s n. add_node rx n s) (new_topology rx) node_ids) (list_connections rx t)"

text \<open>\<^verbatim>\<open>is_rdma_cycle\<close>: the inner loop over the neighbours of one vertex, then the loop over vertices.\<close>

fun rdma_to_neighbors :: "'g env \<Rightarrow> 'g \<Rightarrow> int list \<Rightarrow> int \<Rightarrow> int list \<Rightarrow> bool result" where
  "rdma_to_neighbors rx g rx_idxs rid [] = Inr True"
| "rdma_to_neighbors rx g rx_idxs rid (nb # nbs) =
     (if nb \<notin> set rx_idxs then rdma_to_neighbors rx g rx_idxs rid nbs
      else rbind (of_option NoEdgeBetweenNodes (rx_get_all_edge_data rx g rid nb))
        (\<lambda>ds. if list_ex is_rdma ds then rdma_to_neighbors rx g rx_idxs rid nbs else Inr False))"

fun rdma_all_from :: "'g env \<Rightarrow> 'g \<Rightarrow> int list \<Rightarrow> int list \<Rightarrow> bool result" where
  "rdma_all_from rx g rx_idxs [] = Inr True"
| "rdma_all_from rx g rx_idxs (rid # rids) =
     rbind (rdma_to_neighbors rx g rx_idxs rid (rx_neighbors rx g rid))
       (\<lambda>b. if b then rdma_all_from rx g rx_idxs rids else Inr False)"

definition is_rdma_cycle :: "'g env \<Rightarrow> 'g topology \<Rightarrow> cycle \<Rightarrow> bool result" where
  "is_rdma_cycle rx t cycle =
     rbind (rmap (\<lambda>n. of_option KeyError (dict_get (vertex_indices t) n)) cycle)
       (\<lambda>rx_idxs. rdma_all_from rx (graph t) rx_idxs rx_idxs)"

section \<open>Thunderbolt bridge cycles\<close>

definition get_ips_with_interface_type ::
  "node_id list \<Rightarrow> (node_id, node_network_info) dict \<Rightarrow> interface_type \<Rightarrow> string set" where
  "get_ips_with_interface_type node_ids node_network ty =
     set (map if_ip_address
       (filter (\<lambda>i. if_interface_type i = ty)
         (concat (map (\<lambda>n. dict_get_default node_network n []) node_ids))))"

definition tb_add_edge ::
  "'g env \<Rightarrow> string set \<Rightarrow> (node_id, int) dict \<Rightarrow> 'g \<Rightarrow> 'g \<Rightarrow> int \<times> int \<times> edge \<Rightarrow> 'g result" where
  "tb_add_edge rx ips node_to_idx g0 g x =
     (case x of (u, v, conn) \<Rightarrow>
        (case (dict_get node_to_idx (rx_getitem rx g0 u), dict_get node_to_idx (rx_getitem rx g0 v)) of
           (Some s, Some k) \<Rightarrow>
             (case conn of
                SocketConnection m \<Rightarrow>
                  rbind (ip_address m) (\<lambda>a. Inr (if a \<in> ips then rx_add_edge rx g s k conn else g))
              | RDMAConnection _ _ \<Rightarrow> Inr (rx_add_edge rx g s k conn))
         | _ \<Rightarrow> Inr g))"

definition get_thunderbolt_bridge_cycles ::
  "'g env \<Rightarrow> 'g topology \<Rightarrow> (node_id, thunderbolt_bridge_status) dict \<Rightarrow>
   (node_id, node_network_info) dict \<Rightarrow> node_id list list result" where
  "get_thunderbolt_bridge_cycles rx t node_tb_bridge_status node_network =
     (let enabled_nodes = map fst (filter (\<lambda>(n, st). bridge_enabled st) node_tb_bridge_status)
      in if length enabled_nodes < 2 then Inr []
         else
           let thunderbolt_ips = get_ips_with_interface_type enabled_nodes node_network ThunderboltIf;
               (g, node_to_idx) = foldl (\<lambda>(g, d) n. let (g', i) = rx_add_node rx g n in (g', dict_set d n i))
                 (rx_new rx, [])
                 (filter (\<lambda>n. dict_mem n (vertex_indices t)) (set_order rx enabled_nodes))
           in rbind (rfold (tb_add_edge rx thunderbolt_ips node_to_idx (graph t)) g
                       (rx_weighted_edge_list rx (graph t)))
                (\<lambda>g'. Inr (map (map (rx_getitem rx g'))
                         (filter (\<lambda>c. 2 \<le> length c) (rx_simple_cycles rx g')))))"

end
