(* ===== verification/Topology_Laws.thy ===== *)
theory Topology_Laws
  imports Topology
begin

text \<open>
  What the topology operations mean. \<open>rx_digraph\<close> collects the documented behaviour of
  \<^verbatim>\<open>rustworkx.PyDiGraph\<close> the code relies on, \<open>topo_inv\<close> is the invariant of a topology, and the
  lemmas say, operation by operation, that the invariant is kept and what happens to the set of
  nodes and to the set of connections.
\<close>

section \<open>The documented behaviour of the graph package\<close>

definition rx_digraph ::
  "'g env \<Rightarrow> ('g \<Rightarrow> int \<Rightarrow> node_id option) \<Rightarrow> ('g \<Rightarrow> (int \<times> int \<times> int \<times> edge) set) \<Rightarrow> bool" where
  "rx_digraph rx V E \<longleftrightarrow>
     V (rx_new rx) = Map.empty \<and> E (rx_new rx) = {} \<and>
     (\<forall>g n. V g (snd (rx_add_node rx g n)) = None \<and>
        V (fst (rx_add_node rx g n)) = (V g)(snd (rx_add_node rx g n) \<mapsto> n) \<and>
        E (fst (rx_add_node rx g n)) = E g) \<and>
     (\<forall>g u v d. V g u \<noteq> None \<longrightarrow> V g v \<noteq> None \<longrightarrow>
        V (rx_add_edge rx g u v d) = V g \<and>
        (\<exists>k. k \<notin> fst ` E g \<and> E (rx_add_edge rx g u v d) = insert (k, u, v, d) (E g))) \<and>
     (\<forall>g i. V (rx_remove_node rx g i) = (V g)(i := None) \<and>
        E (rx_remove_node rx g i) = {(k, u, v, d) \<in> E g. u \<noteq> i \<and> v \<noteq> i}) \<and>
     (\<forall>g k. V (rx_remove_edge_from_index rx g k) = V g \<and>
        E (rx_remove_edge_from_index rx g k) = {e \<in> E g. fst e \<noteq> k}) \<and>
     (\<forall>g i n. V g i = Some n \<longrightarrow> rx_getitem rx g i = n) \<and>
     (\<forall>g i. distinct (rx_neighbors rx g i) \<and>
        set (rx_neighbors rx g i) = {v. \<exists>k d. (k, i, v, d) \<in> E g}) \<and>
     (\<forall>g i. set (rx_out_edges rx g i) = {(u, v, d). u = i \<and> (\<exists>k. (k, u, v, d) \<in> E g)}) \<and>
     (\<forall>g u v. set (case rx_get_all_edge_data rx g u v of None \<Rightarrow> [] | Some ds \<Rightarrow> ds) =
        {d. \<exists>k. (k, u, v, d) \<in> E g}) \<and>
     (\<forall>g. \<exists>is. distinct is \<and> set is = dom (V g) \<and> map Some (rx_nodes rx g) = map (V g) is) \<and>
     (\<forall>g. set (rx_weighted_edge_list rx g) = {(u, v, d). \<exists>k. (k, u, v, d) \<in> E g}) \<and>
     (\<forall>g i. distinct (rx_out_edge_indices rx g i) \<and>
        set (rx_out_edge_indices rx g i) = {k. \<exists>v d. (k, i, v, d) \<in> E g}) \<and>
     (\<forall>g i. set (rx_in_edge_indices rx g i) = {k. \<exists>u d. (k, u, i, d) \<in> E g}) \<and>
     (\<forall>g u v. distinct (rx_edge_indices_from_endpoints rx g u v) \<and>
        set (rx_edge_indices_from_endpoints rx g u v) = {k. \<exists>d. (k, u, v, d) \<in> E g}) \<and>
     (\<forall>g k u v d. inj_on fst (E g) \<longrightarrow> (k, u, v, d) \<in> E g \<longrightarrow>
        rx_get_edge_data_by_index rx g k = d) \<and>
     (\<forall>g c. c \<in> set (rx_simple_cycles rx g) \<longrightarrow> c \<noteq> [] \<and> distinct c \<and>
        (\<forall>j < length c. \<exists>k d. (k, c ! j, c ! (Suc j mod length c), d) \<in> E g)) \<and>
     (\<forall>xs. set (set_order rx xs) = set xs \<and> distinct (set_order rx xs))"

lemma rx_new_laws:
  "rx_digraph rx V E \<Longrightarrow> V (rx_new rx) = Map.empty"
  "rx_digraph rx V E \<Longrightarrow> E (rx_new rx) = {}"
  by (simp_all add: rx_digraph_def)

lemma rx_add_node_law:
  assumes "rx_digraph rx V E" "rx_add_node rx g n = (g', i)"
  shows "V g i = None" "V g' = (V g)(i \<mapsto> n)" "E g' = E g"
proof -
  from assms(1) have "V g (snd (rx_add_node rx g n)) = None \<and>
      V (fst (rx_add_node rx g n)) = (V g)(snd (rx_add_node rx g n) \<mapsto> n) \<and>
      E (fst (rx_add_node rx g n)) = E g"
    by (simp add: rx_digraph_def)
  with assms(2) show "V g i = None" "V g' = (V g)(i \<mapsto> n)" "E g' = E g" by auto
qed

lemma rx_add_edge_law:
  "rx_digraph rx V E \<Longrightarrow> V g u \<noteq> None \<Longrightarrow> V g v \<noteq> None \<Longrightarrow>
   V (rx_add_edge rx g u v d) = V g \<and>
   (\<exists>k. k \<notin> fst ` E g \<and> E (rx_add_edge rx g u v d) = insert (k, u, v, d) (E g))"
  by (simp add: rx_digraph_def)

lemma rx_remove_node_law:
  assumes "rx_digraph rx V E"
  shows "V (rx_remove_node rx g i) = (V g)(i := None)"
    "E (rx_remove_node rx g i) = {(k, u, v, d) \<in> E g. u \<noteq> i \<and> v \<noteq> i}"
  using assms by (simp_all add: rx_digraph_def)

lemma rx_remove_edge_law:
  assumes "rx_digraph rx V E"
  shows "V (rx_remove_edge_from_index rx g k) = V g"
    "E (rx_remove_edge_from_index rx g k) = {e \<in> E g. fst e \<noteq> k}"
  using assms by (simp_all add: rx_digraph_def)

lemma rx_getitem_law: "rx_digraph rx V E \<Longrightarrow> V g i = Some n \<Longrightarrow> rx_getitem rx g i = n"
  unfolding rx_digraph_def by (elim conjE) simp

lemma rx_neighbors_law:
  assumes "rx_digraph rx V E"
  shows "distinct (rx_neighbors rx g i)"
    "set (rx_neighbors rx g i) = {v. \<exists>k d. (k, i, v, d) \<in> E g}"
  using assms by (simp_all add: rx_digraph_def)

lemma rx_out_edges_law:
  "rx_digraph rx V E \<Longrightarrow>
   set (rx_out_edges rx g i) = {(u, v, d). u = i \<and> (\<exists>k. (k, u, v, d) \<in> E g)}"
  by (simp add: rx_digraph_def)

lemma rx_get_all_edge_data_law:
  "rx_digraph rx V E \<Longrightarrow>
   set (case rx_get_all_edge_data rx g u v of None \<Rightarrow> [] | Some ds \<Rightarrow> ds) =
     {d. \<exists>k. (k, u, v, d) \<in> E g}"
  by (simp add: rx_digraph_def)

lemma rx_nodes_law:
  "rx_digraph rx V E \<Longrightarrow>
   \<exists>is. distinct is \<and> set is = dom (V g) \<and> map Some (rx_nodes rx g) = map (V g) is"
  by (simp add: rx_digraph_def)

lemma rx_weighted_edge_list_law:
  "rx_digraph rx V E \<Longrightarrow>
   set (rx_weighted_edge_list rx g) = {(u, v, d). \<exists>k. (k, u, v, d) \<in> E g}"
  by (simp add: rx_digraph_def)

lemma rx_edge_indices_laws:
  assumes "rx_digraph rx V E"
  shows "set (rx_out_edge_indices rx g i) = {k. \<exists>v d. (k, i, v, d) \<in> E g}"
    "set (rx_in_edge_indices rx g i) = {k. \<exists>u d. (k, u, i, d) \<in> E g}"
    "set (rx_edge_indices_from_endpoints rx g u v) = {k. \<exists>d. (k, u, v, d) \<in> E g}"
    "distinct (rx_out_edge_indices rx g i)" "distinct (rx_edge_indices_from_endpoints rx g u v)"
  using assms by (simp_all add: rx_digraph_def)

lemma rx_edge_data_law:
  "rx_digraph rx V E \<Longrightarrow> inj_on fst (E g) \<Longrightarrow> (k, u, v, d) \<in> E g \<Longrightarrow>
   rx_get_edge_data_by_index rx g k = d"
  by (simp add: rx_digraph_def)

lemma rx_simple_cycles_law:
  "rx_digraph rx V E \<Longrightarrow> c \<in> set (rx_simple_cycles rx g) \<Longrightarrow>
   c \<noteq> [] \<and> distinct c \<and>
   (\<forall>j < length c. \<exists>k d. (k, c ! j, c ! (Suc j mod length c), d) \<in> E g)"
  by (simp add: rx_digraph_def)

lemma set_order_law:
  assumes "rx_digraph rx V E"
  shows "set (set_order rx xs) = set xs" "distinct (set_order rx xs)"
  using assms by (simp_all add: rx_digraph_def)

section \<open>Invariant and meaning\<close>

definition topo_inv ::
  "('g \<Rightarrow> int \<Rightarrow> node_id option) \<Rightarrow> ('g \<Rightarrow> (int \<times> int \<times> int \<times> edge) set) \<Rightarrow> 'g topology \<Rightarrow> bool" where
  "topo_inv V E t \<longleftrightarrow>
     wf_dict (vertex_indices t) \<and>
     (\<forall>n i. dict_get (vertex_indices t) n = Some i \<longleftrightarrow> V (graph t) i = Some n) \<and>
     (\<forall>k u v d. (k, u, v, d) \<in> E (graph t) \<longrightarrow> V (graph t) u \<noteq> None \<and> V (graph t) v \<noteq> None) \<and>
     inj_on fst (E (graph t)) \<and> inj_on snd (E (graph t))"

definition topo_nodes :: "'g topology \<Rightarrow> node_id set" where
  "topo_nodes t = set (dict_keys (vertex_indices t))"

definition topo_conns ::
  "('g \<Rightarrow> int \<Rightarrow> node_id option) \<Rightarrow> ('g \<Rightarrow> (int \<times> int \<times> int \<times> edge) set) \<Rightarrow> 'g topology \<Rightarrow>
   connection set" where
  "topo_conns V E t =
     {c. \<exists>k u v. (k, u, v, conn_edge c) \<in> E (graph t) \<and>
        V (graph t) u = Some (conn_source c) \<and> V (graph t) v = Some (conn_sink c)}"

lemma conn_collapse [simp]:
  "\<lparr>conn_source = conn_source c, conn_sink = conn_sink c, conn_edge = conn_edge c\<rparr> = c"
  by simp

lemma topo_inv_get:
  "topo_inv V E t \<Longrightarrow> dict_get (vertex_indices t) n = Some i \<longleftrightarrow> V (graph t) i = Some n"
  by (simp add: topo_inv_def)

lemma topo_inv_idx:
  "topo_inv V E t \<Longrightarrow> dict_get (vertex_indices t) n = Some i \<Longrightarrow> V (graph t) j = Some n \<longleftrightarrow> j = i"
  by (metis option.inject topo_inv_get)

lemma topo_nodes_iff: "n \<in> topo_nodes t \<longleftrightarrow> dict_mem n (vertex_indices t)"
  by (auto simp: topo_nodes_def map_of_eq_None_iff image_iff)

lemma topo_nodes_V: "topo_inv V E t \<Longrightarrow> topo_nodes t = ran (V (graph t))"
  by (fastforce simp: topo_nodes_iff topo_inv_def ran_def)

lemma topo_conns_nodes:
  "topo_inv V E t \<Longrightarrow> c \<in> topo_conns V E t \<Longrightarrow>
   conn_source c \<in> topo_nodes t \<and> conn_sink c \<in> topo_nodes t"
  by (auto simp: topo_conns_def topo_nodes_V ran_def)

lemma topo_inv_empty:
  "rx_digraph rx V E \<Longrightarrow> topo_inv V E (new_topology rx)"
  "rx_digraph rx V E \<Longrightarrow> topo_nodes (new_topology rx) = {}"
  "rx_digraph rx V E \<Longrightarrow> topo_conns V E (new_topology rx) = {}"
  by (auto simp: topo_inv_def new_topology_def rx_new_laws topo_nodes_def topo_conns_def)

section \<open>Adding\<close>

lemma add_node_spec:
  assumes "rx_digraph rx V E" "topo_inv V E t"
  shows "topo_inv V E (add_node rx n t)"
    and "topo_nodes (add_node rx n t) = insert n (topo_nodes t)"
    and "topo_conns V E (add_node rx n t) = topo_conns V E t"
proof -
  obtain g i where gi: "rx_add_node rx (graph t) n = (g, i)" by fastforce
  note law = rx_add_node_law [OF assms(1) gi]
  have old: "V (graph t) u \<noteq> None \<Longrightarrow> u \<noteq> i" for u using law(1) by auto
  show "topo_inv V E (add_node rx n t)"
    using assms(2) law old
    by (auto simp: add_node_def gi topo_inv_def split: if_splits)
  show "topo_nodes (add_node rx n t) = insert n (topo_nodes t)"
    using assms(2) by (auto simp: topo_nodes_iff add_node_def gi split: if_splits)
  show "topo_conns V E (add_node rx n t) = topo_conns V E t"
    using assms(2) law old
    by (auto simp: topo_conns_def add_node_def gi topo_inv_def) (metis option.distinct(1))+
qed

lemma connections_between_spec:
  assumes "rx_digraph rx V E" "topo_inv V E t"
  shows "set (get_all_connections_between rx t s k) =
    {d. \<lparr>conn_source = s, conn_sink = k, conn_edge = d\<rparr> \<in> topo_conns V E t}"
proof (cases "dict_get (vertex_indices t) s")
  case None
  with assms(2) show ?thesis
    by (auto simp: get_all_connections_between_def topo_conns_def)
      (metis option.distinct(1) topo_inv_get)
next
  case (Some i)
  show ?thesis
  proof (cases "dict_get (vertex_indices t) k")
    case None
    with assms(2) show ?thesis
      by (auto simp: get_all_connections_between_def topo_conns_def split: option.splits)
        (metis option.distinct(1) topo_inv_get)+
  next
    case (Some j)
    note idx = topo_inv_idx [OF assms(2) \<open>dict_get (vertex_indices t) s = Some i\<close>]
      topo_inv_idx [OF assms(2) Some]
    show ?thesis
      using \<open>dict_get (vertex_indices t) s = Some i\<close> Some
        rx_get_all_edge_data_law [OF assms(1), of "graph t" i j]
      by (simp add: get_all_connections_between_def topo_conns_def idx)
  qed
qed

lemma dict_mem_add_node: "dict_mem n (vertex_indices (add_node rx n t))"
  by (auto simp: add_node_def split: prod.splits)

lemma dict_mem_add_node_mono:
  "dict_mem m (vertex_indices t) \<Longrightarrow> dict_mem m (vertex_indices (add_node rx n t))"
  by (auto simp: add_node_def split: prod.splits)

definition ensure_nodes :: "'g env \<Rightarrow> connection \<Rightarrow> 'g topology \<Rightarrow> 'g topology" where
  "ensure_nodes rx c t = add_node rx (conn_sink c) (add_node rx (conn_source c) t)"

lemma ensure_nodes_mem:
  "\<exists>i. dict_get (vertex_indices (ensure_nodes rx c t)) (conn_source c) = Some i"
  "\<exists>i. dict_get (vertex_indices (ensure_nodes rx c t)) (conn_sink c) = Some i"
  unfolding ensure_nodes_def
  using dict_mem_add_node_mono [OF dict_mem_add_node] dict_mem_add_node by blast+

lemma add_connection_eq:
  "add_connection rx t c =
     (if conn_edge c \<in> set (get_all_connections_between rx t (conn_source c) (conn_sink c)) then Inr t
      else let t2 = ensure_nodes rx c t
           in Inr (t2\<lparr>graph := rx_add_edge rx (graph t2)
                (the (dict_get (vertex_indices t2) (conn_source c)))
                (the (dict_get (vertex_indices t2) (conn_sink c))) (conn_edge c)\<rparr>))"
proof -
  have an: "(if dict_mem n (vertex_indices s) then s else add_node rx n s) = add_node rx n s" for n s
    by (simp add: add_node_def)
  from ensure_nodes_mem [of rx c t] show ?thesis
    unfolding add_connection_def Let_def an ensure_nodes_def [symmetric] by auto
qed

lemma ensure_nodes_spec:
  assumes "rx_digraph rx V E" "topo_inv V E t"
  shows "topo_inv V E (ensure_nodes rx c t)"
    and "topo_nodes (ensure_nodes rx c t) = topo_nodes t \<union> {conn_source c, conn_sink c}"
    and "topo_conns V E (ensure_nodes rx c t) = topo_conns V E t"
  using add_node_spec [OF assms(1)] assms(2) by (auto simp: ensure_nodes_def)

lemma add_edge_spec:
  assumes "rx_digraph rx V E" "topo_inv V E t"
    and "dict_get (vertex_indices t) (conn_source c) = Some i"
    and "dict_get (vertex_indices t) (conn_sink c) = Some j"
    and "c \<notin> topo_conns V E t"
  defines "t' \<equiv> t\<lparr>graph := rx_add_edge rx (graph t) i j (conn_edge c)\<rparr>"
  shows "topo_inv V E t' \<and> topo_nodes t' = topo_nodes t \<and> topo_conns V E t' = insert c (topo_conns V E t)"
proof -
  have Vi: "V (graph t) i = Some (conn_source c)" "V (graph t) j = Some (conn_sink c)"
    using assms(2-4) by (auto simp: topo_inv_def)
  then obtain k where V': "V (graph t') = V (graph t)" and k: "k \<notin> fst ` E (graph t)"
    and E': "E (graph t') = insert (k, i, j, conn_edge c) (E (graph t))"
    using rx_add_edge_law [OF assms(1), of "graph t" i j "conn_edge c"] by (auto simp: t'_def)
  have new: "(i, j, conn_edge c) \<notin> snd ` E (graph t)"
    using assms(5) Vi by (force simp: topo_conns_def)
  have "inj_on fst (E (graph t'))" "inj_on snd (E (graph t'))"
    using assms(2) k new by (auto simp: E' topo_inv_def inj_on_insert)
  moreover have "vertex_indices t' = vertex_indices t" by (simp add: t'_def)
  ultimately have inv: "topo_inv V E t'"
    using assms(2) Vi by (auto simp: topo_inv_def V' E')
  have eta: "conn_edge x = conn_edge c \<Longrightarrow> V (graph t) i = Some (conn_source x) \<Longrightarrow>
      V (graph t) j = Some (conn_sink x) \<Longrightarrow> x = c" for x :: connection
    using Vi by simp
  have "topo_conns V E t' = insert c (topo_conns V E t)"
    using Vi by (auto simp: topo_conns_def V' E' intro: eta)
  with inv show ?thesis by (simp add: topo_nodes_def t'_def)
qed

lemma add_connection_spec:
  assumes "rx_digraph rx V E" "topo_inv V E t"
  shows "\<exists>t'. add_connection rx t c = Inr t' \<and> topo_inv V E t' \<and>
    topo_nodes t' = topo_nodes t \<union> {conn_source c, conn_sink c} \<and>
    topo_conns V E t' = insert c (topo_conns V E t)"
proof (cases "conn_edge c \<in> set (get_all_connections_between rx t (conn_source c) (conn_sink c))")
  case True
  then have "c \<in> topo_conns V E t"
    by (simp add: connections_between_spec [OF assms])
  with True assms(2) topo_conns_nodes [OF assms(2)] show ?thesis
    by (auto simp: add_connection_eq)
next
  case False
  then have new: "c \<notin> topo_conns V E t"
    by (simp add: connections_between_spec [OF assms])
  let ?t = "ensure_nodes rx c t"
  note en = ensure_nodes_spec [OF assms, of c]
  obtain i j where ij: "dict_get (vertex_indices ?t) (conn_source c) = Some i"
    "dict_get (vertex_indices ?t) (conn_sink c) = Some j"
    using ensure_nodes_mem by blast
  from new en(3) have "c \<notin> topo_conns V E ?t" by simp
  from add_edge_spec [OF assms(1) en(1) ij this] False ij en(2,3) show ?thesis
    by (auto simp: add_connection_eq Let_def)
qed

lemma add_connections_spec:
  assumes "rx_digraph rx V E" "topo_inv V E t"
  shows "\<exists>t'. rfold (add_connection rx) t cs = Inr t' \<and> topo_inv V E t' \<and>
    topo_nodes t' = topo_nodes t \<union> conn_source ` set cs \<union> conn_sink ` set cs \<and>
    topo_conns V E t' = topo_conns V E t \<union> set cs"
  using assms(2)
proof (induction cs arbitrary: t)
  case (Cons c cs)
  from add_connection_spec [OF assms(1) Cons.prems, of c] obtain t1 where
    "add_connection rx t c = Inr t1" "topo_inv V E t1"
    "topo_nodes t1 = topo_nodes t \<union> {conn_source c, conn_sink c}"
    "topo_conns V E t1 = insert c (topo_conns V E t)" by blast
  with Cons.IH [of t1] show ?case by auto
qed simp

section \<open>Removing\<close>

lemma inj_on_filter: "inj_on f A \<Longrightarrow> inj_on f {x \<in> A. P x}"
  by (auto simp: inj_on_def)

lemma remove_node_spec:
  assumes "rx_digraph rx V E" "topo_inv V E t"
  shows "topo_inv V E (remove_node rx n t)"
    and "topo_nodes (remove_node rx n t) = topo_nodes t - {n}"
    and "topo_conns V E (remove_node rx n t) =
      {c \<in> topo_conns V E t. conn_source c \<noteq> n \<and> conn_sink c \<noteq> n}"
proof -
  show nodes: "topo_nodes (remove_node rx n t) = topo_nodes t - {n}"
    by (auto simp: topo_nodes_iff remove_node_def split: option.splits if_splits)
  show "topo_inv V E (remove_node rx n t)"
  proof (cases "dict_get (vertex_indices t) n")
    case None
    with assms show ?thesis by (simp add: remove_node_def)
  next
    case (Some i)
    note law = rx_remove_node_law [OF assms(1), of "graph t" i]
    have e: "E (rx_remove_node rx (graph t) i) =
        {e \<in> E (graph t). fst (snd e) \<noteq> i \<and> fst (snd (snd e)) \<noteq> i}"
      by (auto simp: law)
    note m = topo_inv_get [OF assms(2)] and uniq = topo_inv_idx [OF assms(2) Some]
    have "inj_on fst (E (rx_remove_node rx (graph t) i))" "inj_on snd (E (rx_remove_node rx (graph t) i))"
      unfolding e using assms(2) by (auto simp: topo_inv_def inj_on_filter)
    moreover have "remove_node rx n t = \<lparr>graph = rx_remove_node rx (graph t) i,
        vertex_indices = dict_del (vertex_indices t) n\<rparr>"
      by (simp add: remove_node_def Some)
    moreover have "dict_get (dict_del (vertex_indices t) n) m = Some j \<longleftrightarrow>
        ((V (graph t))(i := None)) j = Some m" for m j
      using m uniq by (cases "m = n"; cases "j = i") (auto, metis option.inject)
    moreover have "\<forall>k u v d. (k, u, v, d) \<in> E (graph t) \<longrightarrow> V (graph t) u \<noteq> None \<and> V (graph t) v \<noteq> None"
      "wf_dict (vertex_indices t)"
      using assms(2) unfolding topo_inv_def by blast+
    ultimately show ?thesis
      unfolding topo_inv_def by (simp add: law wf_dict_del) blast
  qed
  show "topo_conns V E (remove_node rx n t) =
      {c \<in> topo_conns V E t. conn_source c \<noteq> n \<and> conn_sink c \<noteq> n}"
  proof (cases "dict_get (vertex_indices t) n")
    case None
    with topo_conns_nodes [OF assms(2)] show ?thesis
      by (auto simp: remove_node_def topo_nodes_iff) (metis option.distinct(1))+
  next
    case (Some i)
    from Some rx_remove_node_law [OF assms(1), of "graph t" i] topo_inv_idx [OF assms(2) Some]
    show ?thesis
      by (auto simp: remove_node_def topo_conns_def split: if_splits) (metis option.inject)
  qed
qed

text \<open>Removing a list of edges by index, those whose payload satisfies a test.\<close>

lemma remove_edges_spec:
  assumes "rx_digraph rx V E" "inj_on fst (E g)" "set ks \<subseteq> fst ` E g" "distinct ks"
  shows "V (remove_edges rx P g ks) = V g \<and>
    E (remove_edges rx P g ks) = {(k, u, v, d) \<in> E g. \<not> (k \<in> set ks \<and> P d)}"
  using assms(2-)
proof (induction ks arbitrary: g)
  case Nil
  then show ?case by (auto simp: remove_edges_def)
next
  case (Cons k ks)
  obtain u v d where kd: "(k, u, v, d) \<in> E g" using Cons.prems(2) by force
  have data: "rx_get_edge_data_by_index rx g k = d"
    using rx_edge_data_law [OF assms(1) Cons.prems(1) kd] .
  have uniq: "(k, u', v', d') \<in> E g \<Longrightarrow> d' = d" for u' v' d'
    using Cons.prems(1) kd by (fastforce simp: inj_on_def)
  let ?g = "if P d then rx_remove_edge_from_index rx g k else g"
  have g: "V ?g = V g" "E ?g = {e \<in> E g. \<not> (fst e = k \<and> P d)}"
    using rx_remove_edge_law [OF assms(1), of g k] by auto
  have "inj_on fst (E ?g)" "set ks \<subseteq> fst ` E ?g"
    unfolding g(2) using Cons.prems by (auto simp: inj_on_filter image_iff) force
  with Cons.IH [of ?g] Cons.prems(3) have
    "V (remove_edges rx P ?g ks) = V g \<and>
     E (remove_edges rx P ?g ks) = {(k', u, v, d') \<in> E ?g. \<not> (k' \<in> set ks \<and> P d')}"
    using g(1) by simp
  moreover have "remove_edges rx P g (k # ks) = remove_edges rx P ?g ks"
    by (simp add: remove_edges_def data)
  ultimately show ?case
    using uniq by (auto simp: g(2))
qed

text \<open>Dropping edges keeps the invariant and the nodes.\<close>

lemma drop_edges_spec:
  assumes "topo_inv V E t" "V g = V (graph t)" "E g = {e \<in> E (graph t). keep e}"
  shows "topo_inv V E (t\<lparr>graph := g\<rparr>)" "topo_nodes (t\<lparr>graph := g\<rparr>) = topo_nodes t"
  using assms by (fastforce simp: topo_inv_def topo_nodes_def inj_on_filter)+

lemma foldl_remove_edges_law:
  assumes "rx_digraph rx V E"
  shows "V (foldl (rx_remove_edge_from_index rx) g ks) = V g \<and>
    E (foldl (rx_remove_edge_from_index rx) g ks) = {e \<in> E g. fst e \<notin> set ks}"
proof (induction ks arbitrary: g)
  case (Cons k ks)
  then show ?case by (auto simp: rx_remove_edge_law [OF assms])
qed simp

lemma remove_all_rdma_spec:
  fixes n :: node_id
  assumes "rx_digraph rx V E" "topo_inv V E t"
  defines "t' \<equiv> remove_all_rdma_connections_touching rx n t"
  shows "topo_inv V E t'" "topo_nodes t' = topo_nodes t"
    "topo_conns V E t' = {c \<in> topo_conns V E t.
       \<not> (is_rdma (conn_edge c) \<and> (conn_source c = n \<or> conn_sink c = n))}"
proof -
  have "topo_inv V E t' \<and> topo_nodes t' = topo_nodes t \<and>
    topo_conns V E t' = {c \<in> topo_conns V E t.
       \<not> (is_rdma (conn_edge c) \<and> (conn_source c = n \<or> conn_sink c = n))}"
  proof (cases "dict_get (vertex_indices t) n")
    case None
    with assms(2) topo_conns_nodes [OF assms(2)] show ?thesis
      by (auto simp: t'_def remove_all_rdma_connections_touching_def topo_nodes_iff)
        (metis option.distinct(1))+
  next
    case (Some i)
    have inj: "inj_on fst (E (graph t))" using assms(2) by (simp add: topo_inv_def)
    define ks where "ks = filter (\<lambda>k. is_rdma (rx_get_edge_data_by_index rx (graph t) k))
      (rx_out_edge_indices rx (graph t) i @ rx_in_edge_indices rx (graph t) i)"
    have ks: "set ks = {k. \<exists>u v d. (k, u, v, d) \<in> E (graph t) \<and> is_rdma d \<and> (u = i \<or> v = i)}"
      unfolding ks_def using rx_edge_data_law [OF assms(1) inj]
      by (auto simp: rx_edge_indices_laws [OF assms(1)]) blast+
    have t': "t' = t\<lparr>graph := foldl (rx_remove_edge_from_index rx) (graph t) ks\<rparr>"
      by (simp add: t'_def remove_all_rdma_connections_touching_def Some ks_def Let_def)
    note g = foldl_remove_edges_law [OF assms(1), of "graph t" ks]
    note Vn = topo_inv_idx [OF assms(2) Some]
    have mem: "k \<in> set ks \<longleftrightarrow> is_rdma d \<and> (u = i \<or> v = i)" if "(k, u, v, d) \<in> E (graph t)" for k u v d
      using inj that unfolding ks by (fastforce simp: inj_on_def)
    have "topo_conns V E t' = {c \<in> topo_conns V E t.
        \<not> (is_rdma (conn_edge c) \<and> (conn_source c = n \<or> conn_sink c = n))}"
      using g mem Vn by (auto simp: t' topo_conns_def) (metis option.inject)+
    with drop_edges_spec [OF assms(2)] g show ?thesis by (simp add: t')
  qed
  then show "topo_inv V E t'" "topo_nodes t' = topo_nodes t"
    "topo_conns V E t' = {c \<in> topo_conns V E t.
       \<not> (is_rdma (conn_edge c) \<and> (conn_source c = n \<or> conn_sink c = n))}" by auto
qed

text \<open>Removing the edges with given indices whose payload satisfies a test, in a topology.\<close>

lemma topo_remove_edges_spec:
  fixes P :: "edge \<Rightarrow> bool"
  assumes "rx_digraph rx V E" "topo_inv V E t" "distinct ks"
    and ks: "set ks = {k. \<exists>u v d. (k, u, v, d) \<in> E (graph t) \<and> Q u v}"
  defines "t' \<equiv> t\<lparr>graph := remove_edges rx P (graph t) ks\<rparr>"
  shows "topo_inv V E t'" "topo_nodes t' = topo_nodes t"
    "topo_conns V E t' = {c. \<exists>k u v. (k, u, v, conn_edge c) \<in> E (graph t) \<and>
        V (graph t) u = Some (conn_source c) \<and> V (graph t) v = Some (conn_sink c) \<and>
        \<not> (Q u v \<and> P (conn_edge c))}"
proof -
  have inj: "inj_on fst (E (graph t))" using assms(2) by (simp add: topo_inv_def)
  have sub: "set ks \<subseteq> fst ` E (graph t)" unfolding ks by force
  note g = remove_edges_spec [OF assms(1) inj sub assms(3), of P]
  have mem: "k \<in> set ks \<longleftrightarrow> Q u v" if "(k, u, v, d) \<in> E (graph t)" for k u v d
    using inj that unfolding ks by (fastforce simp: inj_on_def)
  show "topo_conns V E t' = {c. \<exists>k u v. (k, u, v, conn_edge c) \<in> E (graph t) \<and>
        V (graph t) u = Some (conn_source c) \<and> V (graph t) v = Some (conn_sink c) \<and>
        \<not> (Q u v \<and> P (conn_edge c))}"
    using g mem by (auto simp: t'_def topo_conns_def) blast+
  have "E (remove_edges rx P (graph t) ks) =
      {e \<in> E (graph t). \<not> (fst e \<in> set ks \<and> P (snd (snd (snd e))))}" using g by auto
  from drop_edges_spec [OF assms(2) _ this] g
  show "topo_inv V E t'" "topo_nodes t' = topo_nodes t" by (simp_all add: t'_def)
qed

lemma remove_connection_spec:
  fixes c :: connection
  assumes "rx_digraph rx V E" "topo_inv V E t"
  defines "t' \<equiv> remove_connection rx c t"
  shows "topo_inv V E t' \<and> topo_nodes t' = topo_nodes t \<and> topo_conns V E t' = topo_conns V E t - {c}"
proof (cases "dict_mem (conn_source c) (vertex_indices t) \<and> dict_mem (conn_sink c) (vertex_indices t)")
  case False
  then have "c \<notin> topo_conns V E t"
    using topo_conns_nodes [OF assms(2)] topo_nodes_iff by blast
  moreover have "t' = t"
    using False by (auto simp: t'_def remove_connection_def split: option.splits)
  ultimately show ?thesis using assms(2) by simp
next
  case True
  then obtain i j where i: "dict_get (vertex_indices t) (conn_source c) = Some i"
    and j: "dict_get (vertex_indices t) (conn_sink c) = Some j" by auto
  let ?ks = "rx_edge_indices_from_endpoints rx (graph t) i j"
  have t': "t' = t\<lparr>graph := remove_edges rx (\<lambda>d. d = conn_edge c) (graph t) ?ks\<rparr>"
    by (simp add: t'_def remove_connection_def i j)
  have ks: "set ?ks = {k. \<exists>u v d. (k, u, v, d) \<in> E (graph t) \<and> (u = i \<and> v = j)}"
    by (auto simp: rx_edge_indices_laws [OF assms(1)])
  note sp = topo_remove_edges_spec [OF assms(1,2) rx_edge_indices_laws(5) [OF assms(1)] ks,
      of "\<lambda>d. d = conn_edge c", folded t']
  note idx = topo_inv_idx [OF assms(2) i] topo_inv_idx [OF assms(2) j]
  have "topo_conns V E t' = topo_conns V E t - {c}"
    unfolding sp(3) by (auto simp: topo_conns_def idx) (metis idx option.inject connection.equality unit.exhaust)+
  with sp show ?thesis by simp
qed

lemma replace_all_out_rdma_spec:
  assumes "rx_digraph rx V E" "topo_inv V E t" "n \<in> topo_nodes t"
  shows "\<exists>t'. replace_all_out_rdma_connections rx n cs t = Inr t' \<and> topo_inv V E t' \<and>
    topo_nodes t' = topo_nodes t \<union> conn_source ` set cs \<union> conn_sink ` set cs \<and>
    topo_conns V E t' = {c \<in> topo_conns V E t. \<not> (is_rdma (conn_edge c) \<and> conn_source c = n)} \<union> set cs"
proof -
  obtain i where i: "dict_get (vertex_indices t) n = Some i"
    using assms(3) by (auto simp: topo_nodes_iff)
  let ?ks = "rx_out_edge_indices rx (graph t) i"
  let ?t = "t\<lparr>graph := remove_edges rx is_rdma (graph t) ?ks\<rparr>"
  have ks: "set ?ks = {k. \<exists>u v d. (k, u, v, d) \<in> E (graph t) \<and> u = i}"
    by (auto simp: rx_edge_indices_laws [OF assms(1)])
  note sp = topo_remove_edges_spec [OF assms(1,2) rx_edge_indices_laws(4) [OF assms(1)] ks, of is_rdma]
  have "topo_conns V E ?t = {c \<in> topo_conns V E t. \<not> (is_rdma (conn_edge c) \<and> conn_source c = n)}"
    unfolding sp(3) using topo_inv_idx [OF assms(2) i]
    by (auto simp: topo_conns_def) (metis option.inject)+
  with add_connections_spec [OF assms(1) sp(1), of cs] sp(2) show ?thesis
    by (auto simp: replace_all_out_rdma_connections_def i)
qed

section \<open>Reading\<close>

lemma list_nodes_spec:
  assumes "rx_digraph rx V E" "topo_inv V E t"
  shows "set (list_nodes rx t) = topo_nodes t" "distinct (list_nodes rx t)"
proof -
  obtain vs where vs: "distinct vs" "set vs = dom (V (graph t))"
    "map Some (rx_nodes rx (graph t)) = map (V (graph t)) vs"
    using rx_nodes_law [OF assms(1)] by blast
  have nodes: "rx_nodes rx (graph t) = map (the \<circ> V (graph t)) vs"
    using arg_cong [OF vs(3), of "map the"] by (simp add: comp_def)
  show "set (list_nodes rx t) = topo_nodes t"
    by (auto simp: list_nodes_def nodes vs(2) topo_nodes_V [OF assms(2)] ran_def image_iff)
      (metis domI option.sel)
  have "inj_on (V (graph t)) (dom (V (graph t)))"
    by (auto simp: inj_on_def) (metis assms(2) option.inject topo_inv_get)
  then have "inj_on (the \<circ> V (graph t)) (set vs)"
    unfolding vs(2) by (auto simp: inj_on_def dom_def)
  with vs(1) show "distinct (list_nodes rx t)" by (simp add: list_nodes_def nodes distinct_map)
qed

lemma getitem_topo:
  "rx_digraph rx V E \<Longrightarrow> V g i \<noteq> None \<Longrightarrow> V g i = Some (rx_getitem rx g i)"
  using rx_getitem_law by fastforce

lemma list_connections_spec:
  assumes "rx_digraph rx V E" "topo_inv V E t"
  shows "set (list_connections rx t) = topo_conns V E t"
proof -
  have ends: "V (graph t) u \<noteq> None" "V (graph t) v \<noteq> None" if "(k, u, v, d) \<in> E (graph t)" for k u v d
    using assms(2) that unfolding topo_inv_def by blast+
  note get = getitem_topo [OF assms(1), of "graph t"]
  show ?thesis
  proof (rule set_eqI)
    fix c :: connection
    have "c \<in> set (list_connections rx t) \<longleftrightarrow> (\<exists>k u v. (k, u, v, conn_edge c) \<in> E (graph t) \<and>
        rx_getitem rx (graph t) u = conn_source c \<and> rx_getitem rx (graph t) v = conn_sink c)"
      by (cases c) (force simp: list_connections_def rx_weighted_edge_list_law [OF assms(1)] mk_conn_def)
    also have "\<dots> \<longleftrightarrow> c \<in> topo_conns V E t"
      unfolding topo_conns_def mem_Collect_eq using ends get by (metis option.inject)
    finally show "c \<in> set (list_connections rx t) \<longleftrightarrow> c \<in> topo_conns V E t" .
  qed
qed

text \<open>The nested dictionary of a snapshot lists exactly the connections it was built from.\<close>

definition nested_conns :: "(node_id, (node_id, edge list) dict) dict \<Rightarrow> connection set" where
  "nested_conns m = {c. \<exists>inner es. dict_get m (conn_source c) = Some inner \<and>
     dict_get inner (conn_sink c) = Some es \<and> conn_edge c \<in> set es}"

definition wf_nested :: "(node_id, (node_id, edge list) dict) dict \<Rightarrow> bool" where
  "wf_nested m \<longleftrightarrow> wf_dict m \<and> (\<forall>n inner. dict_get m n = Some inner \<longrightarrow> wf_dict inner)"

lemma map_connections_step_spec:
  assumes "wf_nested m"
  shows "wf_nested (map_connections_step m c) \<and>
    nested_conns (map_connections_step m c) = insert c (nested_conns m)"
proof -
  let ?inner = "dict_get_default m (conn_source c) []"
  have "wf_dict ?inner" using assms
    by (auto simp: wf_nested_def dict_get_default_def wf_dict_def split: option.splits)
  then have "wf_nested (map_connections_step m c)"
    using assms by (auto simp: wf_nested_def map_connections_step_def Let_def wf_dict_set split: if_splits)
  moreover have "nested_conns (map_connections_step m c) = insert c (nested_conns m)"
  proof (rule set_eqI)
    fix x :: connection
    show "x \<in> nested_conns (map_connections_step m c) \<longleftrightarrow> x \<in> insert c (nested_conns m)"
      by (cases x; cases c)
        (auto simp: nested_conns_def map_connections_step_def Let_def dict_get_default_def
          split: option.splits if_splits)
  qed
  ultimately show ?thesis by blast
qed

lemma map_connections_fold:
  "wf_nested m \<Longrightarrow> wf_nested (foldl map_connections_step m cs) \<and>
   nested_conns (foldl map_connections_step m cs) = nested_conns m \<union> set cs"
proof (induction cs arbitrary: m)
  case (Cons c cs)
  with map_connections_step_spec [OF Cons.prems, of c] show ?case by auto
qed simp

lemma snapshot_conns_mem:
  "c \<in> set (snapshot_conns s) \<longleftrightarrow>
   (\<exists>inner es. (conn_source c, inner) \<in> set (snap_connections s) \<and> (conn_sink c, es) \<in> set inner \<and>
      conn_edge c \<in> set es)"
proof
  assume "c \<in> set (snapshot_conns s)"
  then show "\<exists>inner es. (conn_source c, inner) \<in> set (snap_connections s) \<and>
      (conn_sink c, es) \<in> set inner \<and> conn_edge c \<in> set es"
    by (auto simp: snapshot_conns_def) blast
next
  assume "\<exists>inner es. (conn_source c, inner) \<in> set (snap_connections s) \<and>
      (conn_sink c, es) \<in> set inner \<and> conn_edge c \<in> set es"
  then obtain inner es where "(conn_source c, inner) \<in> set (snap_connections s)"
    "(conn_sink c, es) \<in> set inner" "conn_edge c \<in> set es" by blast
  then show "c \<in> set (snapshot_conns s)"
    unfolding snapshot_conns_def
    by (auto intro!: bexI [of _ "(conn_source c, inner)"] bexI [of _ "(conn_sink c, es)"] image_eqI [of _ _ "conn_edge c"])
qed

lemma snapshot_conns_nested:
  assumes "wf_nested (snap_connections s)"
  shows "set (snapshot_conns s) = nested_conns (snap_connections s)"
proof -
  have outer: "(n, inner) \<in> set (snap_connections s) \<longleftrightarrow> dict_get (snap_connections s) n = Some inner"
    for n inner using assms by (simp add: wf_nested_def dict_get_eq_mem)
  have "(k, es) \<in> set inner \<longleftrightarrow> dict_get inner k = Some es"
    if "dict_get (snap_connections s) n = Some inner" for n inner k es
    using assms that by (simp add: wf_nested_def dict_get_eq_mem)
  then show ?thesis
    unfolding set_eq_iff snapshot_conns_mem nested_conns_def mem_Collect_eq outer by blast
qed

lemma add_nodes_spec:
  assumes "rx_digraph rx V E" "topo_inv V E t"
  shows "topo_inv V E (foldl (\<lambda>t n. add_node rx n t) t ns) \<and>
    topo_nodes (foldl (\<lambda>t n. add_node rx n t) t ns) = topo_nodes t \<union> set ns \<and>
    topo_conns V E (foldl (\<lambda>t n. add_node rx n t) t ns) = topo_conns V E t"
  using assms(2)
proof (induction ns arbitrary: t)
  case (Cons n ns)
  with add_node_spec [OF assms(1) Cons.prems, of n] show ?case by auto
qed simp

lemma to_from_snapshot:
  assumes "rx_digraph rx V E" "topo_inv V E t"
  shows "\<exists>t'. from_snapshot rx (to_snapshot rx t) = Inr t' \<and> topo_inv V E t' \<and>
    topo_nodes t' = topo_nodes t \<and> topo_conns V E t' = topo_conns V E t"
proof -
  let ?s = "to_snapshot rx t"
  have "wf_nested (snap_connections ?s) \<and> nested_conns (snap_connections ?s) = topo_conns V E t"
    using map_connections_fold [of "[]" "list_connections rx t"] list_connections_spec [OF assms]
    by (simp add: to_snapshot_def map_connections_def wf_nested_def nested_conns_def)
  then have conns: "set (snapshot_conns ?s) = topo_conns V E t"
    by (simp add: snapshot_conns_nested)
  have nodes: "set (snap_nodes ?s) = topo_nodes t"
    using list_nodes_spec [OF assms] by (simp add: to_snapshot_def)
  note base = add_nodes_spec [OF assms(1) topo_inv_empty(1) [OF assms(1)], of "snap_nodes ?s"]
  show ?thesis
    using add_connections_spec [OF assms(1) conjunct1 [OF base], of "snapshot_conns ?s"] base
      topo_inv_empty [OF assms(1)] topo_conns_nodes [OF assms(2)]
    by (auto simp: from_snapshot_def conns nodes)
qed

lemma subgraph_fold:
  assumes "rx_digraph rx V E" "topo_inv V E s" "set ns \<subseteq> topo_nodes s"
  shows "\<exists>s'. rfold (\<lambda>s c. if conn_source c \<in> set ns \<and> conn_sink c \<in> set ns
      then add_connection rx s c else Inr s) s cs = Inr s' \<and> topo_inv V E s' \<and>
    topo_nodes s' = topo_nodes s \<and>
    topo_conns V E s' = topo_conns V E s \<union> {c \<in> set cs. conn_source c \<in> set ns \<and> conn_sink c \<in> set ns}"
  using assms(2,3)
proof (induction cs arbitrary: s)
  case (Cons c cs)
  show ?case
  proof (cases "conn_source c \<in> set ns \<and> conn_sink c \<in> set ns")
    case True
    from add_connection_spec [OF assms(1) Cons.prems(1), of c] obtain s1 where
      s1: "add_connection rx s c = Inr s1" "topo_inv V E s1"
      "topo_nodes s1 = topo_nodes s \<union> {conn_source c, conn_sink c}"
      "topo_conns V E s1 = insert c (topo_conns V E s)" by blast
    with True Cons.prems(2) have "topo_nodes s1 = topo_nodes s" by auto
    with Cons.IH [of s1] Cons.prems(2) s1 True show ?thesis by auto
  next
    case False
    with Cons.IH [OF Cons.prems] show ?thesis by auto
  qed
qed simp

lemma get_subgraph_spec:
  assumes "rx_digraph rx V E" "topo_inv V E t"
  shows "\<exists>s. get_subgraph_from_nodes rx t ns = Inr s \<and> topo_inv V E s \<and> topo_nodes s = set ns \<and>
    topo_conns V E s = {c \<in> topo_conns V E t. conn_source c \<in> set ns \<and> conn_sink c \<in> set ns}"
proof -
  note base = add_nodes_spec [OF assms(1) topo_inv_empty(1) [OF assms(1)], of ns]
  have "set ns \<subseteq> topo_nodes (foldl (\<lambda>s n. add_node rx n s) (new_topology rx) ns)"
    using base topo_inv_empty(2) [OF assms(1)] by auto
  from subgraph_fold [OF assms(1) conjunct1 [OF base] this, of "list_connections rx t"] base
  show ?thesis
    by (auto simp: get_subgraph_from_nodes_def topo_inv_empty [OF assms(1)] list_connections_spec [OF assms])
qed

text \<open>\<open>is_rdma_cycle\<close> on graph indices, then on node ids.\<close>

lemma rdma_to_neighbors_spec:
  assumes "rx_digraph rx V E" "set nbs \<subseteq> {v. \<exists>k d. (k, rid, v, d) \<in> E g}"
  shows "rdma_to_neighbors rx g idxs rid nbs =
    Inr (\<forall>v \<in> set nbs \<inter> set idxs. \<exists>k d. (k, rid, v, d) \<in> E g \<and> is_rdma d)"
  using assms(2)
proof (induction nbs)
  case (Cons v nbs)
  then obtain k d where "(k, rid, v, d) \<in> E g" by auto
  with rx_get_all_edge_data_law [OF assms(1), of g rid v] obtain ds where
    ds: "rx_get_all_edge_data rx g rid v = Some ds" "set ds = {d. \<exists>k. (k, rid, v, d) \<in> E g}"
    by (cases "rx_get_all_edge_data rx g rid v") auto
  then have ex: "list_ex is_rdma ds \<longleftrightarrow> (\<exists>k d. (k, rid, v, d) \<in> E g \<and> is_rdma d)"
    by (auto simp: list_ex_iff)
  have IH: "rdma_to_neighbors rx g idxs rid nbs =
      Inr (\<forall>v \<in> set nbs \<inter> set idxs. \<exists>k d. (k, rid, v, d) \<in> E g \<and> is_rdma d)"
    using Cons by simp
  show ?case
    by (cases "v \<in> set idxs"; cases "list_ex is_rdma ds") (simp_all add: ds(1) IH ex)
qed simp

lemma rdma_all_from_spec:
  assumes "rx_digraph rx V E"
  shows "rdma_all_from rx g idxs rids = Inr (\<forall>u \<in> set rids. \<forall>v \<in> set idxs.
    (\<exists>k d. (k, u, v, d) \<in> E g) \<longrightarrow> (\<exists>k d. (k, u, v, d) \<in> E g \<and> is_rdma d))"
proof (induction rids)
  case (Cons u rids)
  have "rdma_to_neighbors rx g idxs u (rx_neighbors rx g u) =
      Inr (\<forall>v \<in> {v. \<exists>k d. (k, u, v, d) \<in> E g} \<inter> set idxs. \<exists>k d. (k, u, v, d) \<in> E g \<and> is_rdma d)"
    by (subst rdma_to_neighbors_spec [OF assms])
      (simp_all add: rx_neighbors_law [OF assms])
  with Cons show ?case by simp blast
qed simp

lemma conn_ex:
  "(\<exists>c. Q c) \<longleftrightarrow> (\<exists>a b d. Q \<lparr>conn_source = a, conn_sink = b, conn_edge = d\<rparr>)"
  by (metis connection.surjective unit.exhaust)

lemma is_rdma_cycle_spec:
  assumes "rx_digraph rx V E" "topo_inv V E t" "set cyc \<subseteq> topo_nodes t"
  shows "is_rdma_cycle rx t cyc = Inr (\<forall>a \<in> set cyc. \<forall>b \<in> set cyc.
    (\<exists>c \<in> topo_conns V E t. conn_source c = a \<and> conn_sink c = b) \<longrightarrow>
    (\<exists>c \<in> topo_conns V E t. conn_source c = a \<and> conn_sink c = b \<and> is_rdma (conn_edge c)))"
proof -
  let ?ix = "\<lambda>n. the (dict_get (vertex_indices t) n)"
  have get: "dict_get (vertex_indices t) n = Some (?ix n)" if "n \<in> set cyc" for n
    using assms(3) that by (auto simp: topo_nodes_iff)
  have conn: "(\<exists>c \<in> topo_conns V E t. conn_source c = a \<and> conn_sink c = b \<and> P (conn_edge c)) \<longleftrightarrow>
      (\<exists>k d. (k, ?ix a, ?ix b, d) \<in> E (graph t) \<and> P d)" if "a \<in> set cyc" "b \<in> set cyc" for a b P
  proof -
    note ab = topo_inv_idx [OF assms(2) get [OF that(1)]] topo_inv_idx [OF assms(2) get [OF that(2)]]
    have "(\<exists>c \<in> topo_conns V E t. conn_source c = a \<and> conn_sink c = b \<and> P (conn_edge c)) \<longleftrightarrow>
        (\<exists>d. \<lparr>conn_source = a, conn_sink = b, conn_edge = d\<rparr> \<in> topo_conns V E t \<and> P d)"
      by (auto simp: Bex_def conn_ex)
    then show ?thesis by (auto simp: topo_conns_def ab)
  qed
  have "rmap (\<lambda>n. of_option KeyError (dict_get (vertex_indices t) n)) cyc = Inr (map ?ix cyc)"
    by (rule rmap_total) (metis get of_option_simps)
  then have "is_rdma_cycle rx t cyc = Inr (\<forall>a \<in> set cyc. \<forall>b \<in> set cyc.
      (\<exists>k d. (k, ?ix a, ?ix b, d) \<in> E (graph t)) \<longrightarrow> (\<exists>k d. (k, ?ix a, ?ix b, d) \<in> E (graph t) \<and> is_rdma d))"
    unfolding is_rdma_cycle_def
    by (simp only: rbind.simps rdma_all_from_spec [OF assms(1)] set_map ball_simps)
  also have "\<dots> = Inr (\<forall>a \<in> set cyc. \<forall>b \<in> set cyc.
    (\<exists>c \<in> topo_conns V E t. conn_source c = a \<and> conn_sink c = b) \<longrightarrow>
    (\<exists>c \<in> topo_conns V E t. conn_source c = a \<and> conn_sink c = b \<and> is_rdma (conn_edge c)))"
    by (intro arg_cong [where f = Inr] ball_cong refl)
      (simp only: conn [where P = is_rdma] conn [where P = "\<lambda>_. True", simplified])
  finally show ?thesis .
qed

lemma get_cycles_sound:
  assumes "rx_digraph rx V E" "topo_inv V E t" "cyc \<in> set (get_cycles rx t)"
  shows "cyc \<noteq> [] \<and> distinct cyc \<and> set cyc \<subseteq> topo_nodes t \<and>
    (length cyc = 1 \<or> (\<forall>j < length cyc. \<exists>c \<in> topo_conns V E t.
       conn_source c = cyc ! j \<and> conn_sink c = cyc ! (Suc j mod length cyc)))"
proof (cases "cyc \<in> set (map (\<lambda>n. [n]) (list_nodes rx t))")
  case True
  then obtain n where "cyc = [n]" "n \<in> set (list_nodes rx t)" by auto
  then show ?thesis using list_nodes_spec(1) [OF assms(1,2)] by simp
next
  case False
  then obtain vs where vs: "vs \<in> set (rx_simple_cycles rx (graph t))"
    and cyc: "cyc = map (rx_getitem rx (graph t)) vs"
    using assms(3) by (auto simp: get_cycles_def)
  note law = rx_simple_cycles_law [OF assms(1) vs]
  have V: "V (graph t) v = Some (rx_getitem rx (graph t) v)" if "v \<in> set vs" for v
  proof -
    from that obtain j where "j < length vs" "vs ! j = v" by (auto simp: in_set_conv_nth)
    with law obtain k u d where "(k, v, u, d) \<in> E (graph t)" by metis
    with assms(2) have "V (graph t) v \<noteq> None" unfolding topo_inv_def by blast
    then show ?thesis using getitem_topo [OF assms(1)] by blast
  qed
  have "inj_on (rx_getitem rx (graph t)) (set vs)"
    by (rule inj_onI) (metis V assms(2) option.inject topo_inv_get)
  moreover have "\<exists>c \<in> topo_conns V E t. conn_source c = cyc ! j \<and> conn_sink c = cyc ! (Suc j mod length cyc)"
    if j: "j < length cyc" for j
  proof -
    have j': "j < length vs" "Suc j mod length vs < length vs"
      using j by (auto simp: cyc intro: mod_less_divisor [OF le_less_trans [OF le0]])
    with law obtain k d where "(k, vs ! j, vs ! (Suc j mod length vs), d) \<in> E (graph t)" by blast
    then have "\<lparr>conn_source = cyc ! j, conn_sink = cyc ! (Suc j mod length cyc), conn_edge = d\<rparr>
        \<in> topo_conns V E t"
      using V [OF nth_mem [OF j'(1)]] V [OF nth_mem [OF j'(2)]] j'
      unfolding topo_conns_def cyc by auto
    then show ?thesis by force
  qed
  moreover have "set cyc \<subseteq> topo_nodes t"
    using V by (auto simp: cyc topo_nodes_V [OF assms(2)] ran_def)
  ultimately show ?thesis using law by (simp add: cyc distinct_map)
qed

end
