(* ===== verification/Reference_Graph.thy ===== *)
theory Reference_Graph
  imports Topology_Laws
begin

text \<open>
  A concrete directed multigraph that meets the laws \<open>rx_digraph\<close> asks of
  \<^verbatim>\<open>rustworkx.PyDiGraph\<close>: vertices and edges as lists with explicit indices, the simple cycles by
  enumeration. It shows that the laws can hold together and lets the operations of the cluster
  graph be evaluated on concrete clusters.
\<close>

record ref_graph =
  rg_nodes :: "(int \<times> node_id) list"
  rg_edges :: "(int \<times> int \<times> int \<times> edge) list"

definition fresh_index :: "int list \<Rightarrow> int" where
  "fresh_index ks = 1 + foldr max ks (- 1)"

fun lists_upto :: "int list \<Rightarrow> nat \<Rightarrow> int list list" where
  "lists_upto vs 0 = [[]]"
| "lists_upto vs (Suc n) = [] # concat (map (\<lambda>v. map (\<lambda>vs'. v # vs') (lists_upto vs n)) vs)"

definition rg_has_edge :: "ref_graph \<Rightarrow> int \<Rightarrow> int \<Rightarrow> bool" where
  "rg_has_edge g u v = list_ex (\<lambda>(k, a, b, d). a = u \<and> b = v) (rg_edges g)"

definition rg_is_cycle :: "ref_graph \<Rightarrow> int list \<Rightarrow> bool" where
  "rg_is_cycle g vs \<longleftrightarrow> vs \<noteq> [] \<and> distinct vs \<and> list_all (\<lambda>v. hd vs \<le> v) vs \<and>
     list_all (\<lambda>j. rg_has_edge g (vs ! j) (vs ! (Suc j mod length vs))) [0..<length vs]"

definition ref_simple_cycles :: "ref_graph \<Rightarrow> int list list" where
  "ref_simple_cycles g =
     filter (rg_is_cycle g) (lists_upto (map fst (rg_nodes g)) (length (rg_nodes g)))"

definition ref_env :: "ref_graph env" where
  "ref_env =
     \<lparr>rx_new = \<lparr>rg_nodes = [], rg_edges = []\<rparr>,
      rx_add_node = (\<lambda>g n. let i = fresh_index (map fst (rg_nodes g))
        in (g\<lparr>rg_nodes := rg_nodes g @ [(i, n)]\<rparr>, i)),
      rx_add_edge = (\<lambda>g u v d.
        g\<lparr>rg_edges := rg_edges g @ [(fresh_index (map fst (rg_edges g)), u, v, d)]\<rparr>),
      rx_remove_node = (\<lambda>g i.
        g\<lparr>rg_nodes := filter (\<lambda>(j, n). j \<noteq> i) (rg_nodes g),
          rg_edges := filter (\<lambda>(k, u, v, d). u \<noteq> i \<and> v \<noteq> i) (rg_edges g)\<rparr>),
      rx_getitem = (\<lambda>g i. the (map_of (rg_nodes g) i)),
      rx_neighbors = (\<lambda>g i. remdups (map (fst \<circ> snd \<circ> snd) (filter (\<lambda>(k, u, v, d). u = i) (rg_edges g)))),
      rx_out_edges = (\<lambda>g i. map snd (filter (\<lambda>(k, u, v, d). u = i) (rg_edges g))),
      rx_get_all_edge_data = (\<lambda>g u v.
        let ds = map (snd \<circ> snd \<circ> snd) (filter (\<lambda>(k, a, b, d). a = u \<and> b = v) (rg_edges g))
        in if ds = [] then None else Some ds),
      rx_nodes = (\<lambda>g. map (\<lambda>i. the (map_of (rg_nodes g) i)) (remdups (map fst (rg_nodes g)))),
      rx_weighted_edge_list = (\<lambda>g. map snd (rg_edges g)),
      rx_out_edge_indices = (\<lambda>g i. remdups (map fst (filter (\<lambda>(k, u, v, d). u = i) (rg_edges g)))),
      rx_in_edge_indices = (\<lambda>g i. remdups (map fst (filter (\<lambda>(k, u, v, d). v = i) (rg_edges g)))),
      rx_get_edge_data_by_index = (\<lambda>g k. snd (snd (the (map_of (rg_edges g) k)))),
      rx_remove_edge_from_index = (\<lambda>g k. g\<lparr>rg_edges := filter (\<lambda>e. fst e \<noteq> k) (rg_edges g)\<rparr>),
      rx_edge_indices_from_endpoints = (\<lambda>g u v.
        remdups (map fst (filter (\<lambda>(k, a, b, d). a = u \<and> b = v) (rg_edges g)))),
      rx_simple_cycles = ref_simple_cycles,
      set_order = remdups\<rparr>"

definition ref_V :: "ref_graph \<Rightarrow> int \<Rightarrow> node_id option" where
  "ref_V g = map_of (rg_nodes g)"

definition ref_E :: "ref_graph \<Rightarrow> (int \<times> int \<times> int \<times> edge) set" where
  "ref_E g = set (rg_edges g)"

lemma foldr_max_ub: "k \<in> set ks \<Longrightarrow> k \<le> foldr max ks (- 1 :: int)"
  by (induction ks) auto

lemma fresh_index_not_mem: "fresh_index ks \<notin> set ks"
  using foldr_max_ub [of "fresh_index ks" ks] by (auto simp: fresh_index_def)

lemma map_of_append_fresh:
  "map_of xs i = None \<Longrightarrow> map_of (xs @ [(i, n)]) = (map_of xs)(i \<mapsto> n)"
  by (rule ext) (simp add: map_add_def split: option.splits)

lemma map_of_filter_neq: "map_of (filter (\<lambda>(j, n). j \<noteq> i) xs) = (map_of xs)(i := None)"
  by (induction xs) auto

lemma map_of_inj_on:
  "inj_on fst (set xs) \<Longrightarrow> (k, x) \<in> set xs \<Longrightarrow> map_of xs k = Some x"
proof (induction xs)
  case (Cons a xs)
  then have "inj_on fst (set xs)" by (auto simp: inj_on_def)
  moreover have "k = fst a \<Longrightarrow> snd a = x"
    using inj_onD [OF Cons.prems(1), of a "(k, x)"] Cons.prems(2) by (cases a) auto
  ultimately show ?case using Cons by (cases a) auto
qed simp

lemma ref_cycles_sound:
  assumes "c \<in> set (ref_simple_cycles g)"
  shows "c \<noteq> [] \<and> distinct c \<and>
    (\<forall>j < length c. \<exists>k d. (k, c ! j, c ! (Suc j mod length c), d) \<in> ref_E g)"
proof -
  from assms have c: "rg_is_cycle g c" by (simp add: ref_simple_cycles_def)
  have edge: "rg_has_edge g u v \<Longrightarrow> \<exists>k d. (k, u, v, d) \<in> ref_E g" for u v
    by (auto simp: rg_has_edge_def list_ex_iff ref_E_def)
  from c have "\<forall>j < length c. rg_has_edge g (c ! j) (c ! (Suc j mod length c))"
    by (simp add: rg_is_cycle_def list_all_iff)
  with edge c show ?thesis unfolding rg_is_cycle_def by blast
qed

lemma ref_add_node_law:
  "ref_V g (snd (rx_add_node ref_env g n)) = None \<and>
   ref_V (fst (rx_add_node ref_env g n)) = (ref_V g)(snd (rx_add_node ref_env g n) \<mapsto> n) \<and>
   ref_E (fst (rx_add_node ref_env g n)) = ref_E g"
proof -
  have "map_of (rg_nodes g) (fresh_index (map fst (rg_nodes g))) = None"
    using fresh_index_not_mem [of "map fst (rg_nodes g)"] by (simp add: map_of_eq_None_iff)
  then show ?thesis
    by (simp add: ref_env_def ref_V_def ref_E_def Let_def map_of_append_fresh del: map_of_append)
qed

lemma ref_nodes_law:
  "\<exists>is. distinct is \<and> set is = dom (ref_V g) \<and> map Some (rx_nodes ref_env g) = map (ref_V g) is"
  by (rule exI [of _ "remdups (map fst (rg_nodes g))"])
    (auto simp: ref_env_def ref_V_def dom_map_of_conv_image_fst map_of_eq_None_iff)

lemmas ref_simps = ref_env_def ref_V_def ref_E_def Let_def

lemma ref_add_edge_law:
  "ref_V (rx_add_edge ref_env g u v d) = ref_V g \<and>
   (\<exists>k. k \<notin> fst ` ref_E g \<and> ref_E (rx_add_edge ref_env g u v d) = insert (k, u, v, d) (ref_E g))"
  using fresh_index_not_mem [of "map fst (rg_edges g)"] by (auto simp: ref_simps)

lemma ref_edge_data_law:
  "inj_on fst (ref_E g) \<Longrightarrow> (k, u, v, d) \<in> ref_E g \<Longrightarrow> rx_get_edge_data_by_index ref_env g k = d"
  using map_of_inj_on [of "rg_edges g" k "(u, v, d)"] by (simp add: ref_simps)

lemma ref_remove_laws:
  "ref_V (rx_remove_node ref_env g i) = (ref_V g)(i := None)"
  "ref_E (rx_remove_node ref_env g i) = {(k, u, v, d) \<in> ref_E g. u \<noteq> i \<and> v \<noteq> i}"
  "ref_V (rx_remove_edge_from_index ref_env g k) = ref_V g"
  "ref_E (rx_remove_edge_from_index ref_env g k) = {e \<in> ref_E g. fst e \<noteq> k}"
  by (auto simp: ref_simps map_of_filter_neq)

lemma ref_edge_lists:
  "set (rx_neighbors ref_env g i) = {v. \<exists>k d. (k, i, v, d) \<in> ref_E g}"
  "set (rx_out_edges ref_env g i) = {(u, v, d). u = i \<and> (\<exists>k. (k, u, v, d) \<in> ref_E g)}"
  "set (rx_weighted_edge_list ref_env g) = {(u, v, d). \<exists>k. (k, u, v, d) \<in> ref_E g}"
  "set (rx_out_edge_indices ref_env g i) = {k. \<exists>v d. (k, i, v, d) \<in> ref_E g}"
  "set (rx_in_edge_indices ref_env g i) = {k. \<exists>u d. (k, u, i, d) \<in> ref_E g}"
  "set (rx_edge_indices_from_endpoints ref_env g u v) = {k. \<exists>d. (k, u, v, d) \<in> ref_E g}"
  by (force simp: ref_simps)+

lemma ref_edge_data_between:
  "set (case rx_get_all_edge_data ref_env g u v of None \<Rightarrow> [] | Some ds \<Rightarrow> ds) =
     {d. \<exists>k. (k, u, v, d) \<in> ref_E g}"
  by (force simp: ref_simps filter_empty_conv)

lemma ref_distinct:
  "distinct (rx_neighbors ref_env g i)" "distinct (rx_out_edge_indices ref_env g i)"
  "distinct (rx_edge_indices_from_endpoints ref_env g u v)"
  by (simp_all add: ref_env_def)

theorem ref_env_digraph: "rx_digraph ref_env ref_V ref_E"
  unfolding rx_digraph_def
  using ref_add_node_law ref_add_edge_law ref_nodes_law ref_edge_data_law ref_cycles_sound
  by (simp add: ref_remove_laws ref_edge_lists ref_edge_data_between ref_distinct)
    (simp add: ref_simps)

end
