(* ===== verification/State_Apply.thy ===== *)
theory State_Apply
  imports Reference_Graph
begin

text \<open>
  The replicated state of the cluster (\<^verbatim>\<open>src/exo/shared/types/state.py\<close>) and the pure functions
  that apply an event to it (\<^verbatim>\<open>src/exo/shared/apply.py\<close>). \<open>event_apply\<close> dispatches on the event as
  the source's match does; \<open>apply_event\<close> (the source's \<^verbatim>\<open>apply\<close>) also checks that the event is the
  next of the log. Every handler is one definition. A handler that can raise (the topology methods
  do) returns a result.

  The lemmas give the invariant of a state, that every event keeps it, that no event of a
  reachable state raises apart from the Thunderbolt bridge scan on a DNS address, and what a
  sequence of events does to the index of the last event applied.
\<close>

named_theorems apply_defs \<open>definitions of the event handlers\<close>

section \<open>The state\<close>

record 'g state =
  st_instances :: "(string, inst) dict"
  st_runners :: "(runner_id, runner_status) dict"
  st_downloads :: "(node_id, download_progress list) dict"
  st_tasks :: "(task_id, task) dict"
  st_last_seen :: "(node_id, time) dict"
  st_topology :: "'g topology"
  last_event_applied_idx :: int
  node_identities :: "(node_id, node_identity) dict"
  node_memory :: "(node_id, memory_usage) dict"
  node_disk :: "(node_id, disk_usage) dict"
  node_system :: "(node_id, system_performance_profile) dict"
  node_network :: "(node_id, node_network_info) dict"
  node_thunderbolt :: "(node_id, node_thunderbolt_info) dict"
  node_thunderbolt_bridge :: "(node_id, thunderbolt_bridge_status) dict"
  node_rdma_ctl :: "(node_id, node_rdma_ctl_status) dict"
  node_backends :: "(node_id, backend list) dict"
  thunderbolt_bridge_cycles :: "node_id list list"
  instance_links :: "(string, instance_link) dict"
  prefill_server_ports :: "(runner_id, int) dict"
  custom_model_cards :: "(model_id, model_card) dict"

definition init_state :: "'g env \<Rightarrow> 'g state" where
  "init_state rx =
     \<lparr>st_instances = [], st_runners = [], st_downloads = [], st_tasks = [], st_last_seen = [],
      st_topology = new_topology rx, last_event_applied_idx = - 1, node_identities = [],
      node_memory = [], node_disk = [], node_system = [], node_network = [], node_thunderbolt = [],
      node_thunderbolt_bridge = [], node_rdma_ctl = [], node_backends = [],
      thunderbolt_bridge_cycles = [], instance_links = [], prefill_server_ports = [],
      custom_model_cards = []\<rparr>"

section \<open>Handlers\<close>

definition is_rdma_ctl_enabled :: "node_id \<Rightarrow> (node_id, node_rdma_ctl_status) dict \<Rightarrow> bool" where
  "is_rdma_ctl_enabled n d = (dict_get d n = Some True)"

text \<open>The loop of \<^verbatim>\<open>apply_node_download_progress\<close>: replace the first entry of the same model, or append.\<close>

fun replace_download :: "download_progress \<Rightarrow> download_progress list \<Rightarrow> download_progress list" where
  "replace_download dp [] = [dp]"
| "replace_download dp (x # xs) =
     (if dp_model_id x = dp_model_id dp then dp # xs else x # replace_download dp xs)"

definition apply_node_download_progress :: "download_progress \<Rightarrow> 'g state \<Rightarrow> 'g state" where
  "apply_node_download_progress dp s =
     s\<lparr>st_downloads := dict_set (st_downloads s) (dp_node_id dp)
        (replace_download dp (dict_get_default (st_downloads s) (dp_node_id dp) []))\<rparr>"

definition apply_task_created :: "task_id \<Rightarrow> task \<Rightarrow> 'g state \<Rightarrow> 'g state" where
  "apply_task_created tid t s = s\<lparr>st_tasks := dict_set (st_tasks s) tid t\<rparr>"

definition apply_task_deleted :: "task_id \<Rightarrow> 'g state \<Rightarrow> 'g state" where
  "apply_task_deleted tid s = s\<lparr>st_tasks := dict_del (st_tasks s) tid\<rparr>"

definition update_task_status :: "task_status \<Rightarrow> task \<Rightarrow> task" where
  "update_task_status st t =
     (if st \<noteq> Failed
      then t\<lparr>task_status := st, task_error_type := None, task_error_message := None\<rparr>
      else t\<lparr>task_status := st\<rparr>)"

definition apply_task_status_updated :: "task_id \<Rightarrow> task_status \<Rightarrow> 'g state \<Rightarrow> 'g state" where
  "apply_task_status_updated tid st s =
     (case dict_get (st_tasks s) tid of
        None \<Rightarrow> s
      | Some t \<Rightarrow> s\<lparr>st_tasks := dict_set (st_tasks s) tid (update_task_status st t)\<rparr>)"

definition apply_task_failed :: "task_id \<Rightarrow> string \<Rightarrow> string \<Rightarrow> 'g state \<Rightarrow> 'g state" where
  "apply_task_failed tid ety msg s =
     (case dict_get (st_tasks s) tid of
        None \<Rightarrow> s
      | Some t \<Rightarrow> s\<lparr>st_tasks := dict_set (st_tasks s) tid
                  (t\<lparr>task_error_type := Some ety, task_error_message := Some msg\<rparr>)\<rparr>)"

definition apply_instance_created :: "inst \<Rightarrow> 'g state \<Rightarrow> 'g state" where
  "apply_instance_created i s = s\<lparr>st_instances := dict_set (st_instances s) (instance_id i) i\<rparr>"

text \<open>The loop over the links: an instance is dropped from both sides, an emptied link is dropped.\<close>

fun prune_links :: "string \<Rightarrow> (string, instance_link) dict \<Rightarrow> (string, instance_link) dict" where
  "prune_links iid [] = []"
| "prune_links iid ((lid, l) # ls) =
     (let prefill = filter (\<lambda>i. i \<noteq> iid) (prefill_instances l);
          decode = filter (\<lambda>i. i \<noteq> iid) (decode_instances l)
      in if prefill = [] \<or> decode = [] then prune_links iid ls
         else if prefill = prefill_instances l \<and> decode = decode_instances l
         then (lid, l) # prune_links iid ls
         else (lid, l\<lparr>prefill_instances := prefill, decode_instances := decode\<rparr>) # prune_links iid ls)"

definition apply_instance_deleted :: "string \<Rightarrow> 'g state \<Rightarrow> 'g state" where
  "apply_instance_deleted iid s =
     s\<lparr>st_instances := dict_del (st_instances s) iid,
       instance_links := prune_links iid (instance_links s)\<rparr>"

definition apply_instance_link_created :: "instance_link \<Rightarrow> 'g state \<Rightarrow> 'g state" where
  "apply_instance_link_created l s = s\<lparr>instance_links := dict_set (instance_links s) (link_id l) l\<rparr>"

definition apply_instance_link_deleted :: "string \<Rightarrow> 'g state \<Rightarrow> 'g state" where
  "apply_instance_link_deleted lid s = s\<lparr>instance_links := dict_del (instance_links s) lid\<rparr>"

fun apply_runner_status_updated :: "runner_id \<Rightarrow> runner_status \<Rightarrow> 'g state \<Rightarrow> 'g state" where
  "apply_runner_status_updated rid RunnerShutdown s =
     s\<lparr>st_runners := dict_del (st_runners s) rid,
       prefill_server_ports := dict_del (prefill_server_ports s) rid\<rparr>"
| "apply_runner_status_updated rid (RunnerReady (Some p)) s =
     s\<lparr>st_runners := dict_set (st_runners s) rid (RunnerReady (Some p)),
       prefill_server_ports := dict_set (prefill_server_ports s) rid p\<rparr>"
| "apply_runner_status_updated rid st s = s\<lparr>st_runners := dict_set (st_runners s) rid st\<rparr>"

definition apply_node_timed_out :: "'g env \<Rightarrow> node_id \<Rightarrow> 'g state \<Rightarrow> 'g state result" where
  "apply_node_timed_out rx n s =
     (let topology = remove_node rx n (st_topology s);
          network = dict_del (node_network s) n;
          bridge = dict_del (node_thunderbolt_bridge s) n;
          leaving_node_had_tb_enabled =
            (case dict_get (node_thunderbolt_bridge s) n of None \<Rightarrow> False | Some st \<Rightarrow> bridge_enabled st)
      in rbind (if leaving_node_had_tb_enabled then get_thunderbolt_bridge_cycles rx topology bridge network
                else Inr (thunderbolt_bridge_cycles s))
           (\<lambda>cycles. Inr (s\<lparr>st_downloads := dict_del (st_downloads s) n,
              st_topology := topology,
              st_last_seen := dict_del (st_last_seen s) n,
              node_memory := dict_del (node_memory s) n,
              node_disk := dict_del (node_disk s) n,
              node_system := dict_del (node_system s) n,
              node_network := network,
              node_thunderbolt := dict_del (node_thunderbolt s) n,
              node_thunderbolt_bridge := bridge,
              node_rdma_ctl := dict_del (node_rdma_ctl s) n,
              thunderbolt_bridge_cycles := cycles\<rparr>)))"

text \<open>\<^verbatim>\<open>conn_map\<close>: the node and the RDMA interface of every known Thunderbolt domain.\<close>

definition tb_conn_map ::
  "(node_id, node_thunderbolt_info) dict \<Rightarrow> (string, node_id \<times> string) dict" where
  "tb_conn_map tb =
     dict_of (concat (map (\<lambda>(nid, ids). map (\<lambda>i. (domain_uuid i, (nid, rdma_interface i))) ids) tb))"

definition as_rdma_conns ::
  "node_id \<Rightarrow> (string, node_id \<times> string) dict \<Rightarrow> (node_id, node_rdma_ctl_status) dict \<Rightarrow>
   thunderbolt_connection list \<Rightarrow> connection list" where
  "as_rdma_conns n cm rdma conns =
     concat (map (\<lambda>tb.
       case (dict_get cm (source_uuid tb), dict_get cm (sink_uuid tb)) of
         (Some (_, src_if), Some (sink, sink_if)) \<Rightarrow>
           if is_rdma_ctl_enabled n rdma \<and> is_rdma_ctl_enabled sink rdma
           then [\<lparr>conn_source = n, conn_sink = sink, conn_edge = RDMAConnection src_if sink_if\<rparr>]
           else []
       | _ \<Rightarrow> []) conns)"

fun gathered_info_update ::
  "'g env \<Rightarrow> node_id \<Rightarrow> gathered_info \<Rightarrow> 'g state \<Rightarrow> 'g state result" where
  "gathered_info_update rx n (MacmonMetrics sys mem) s =
     Inr (s\<lparr>node_system := dict_set (node_system s) n sys,
            node_memory := dict_set (node_memory s) n mem\<rparr>)"
| "gathered_info_update rx n (MemoryUsageInfo mem) s =
     Inr (s\<lparr>node_memory := dict_set (node_memory s) n mem\<rparr>)"
| "gathered_info_update rx n (NodeDiskUsage d) s =
     Inr (s\<lparr>node_disk := dict_set (node_disk s) n d\<rparr>)"
| "gathered_info_update rx n NodeConfig s = Inr s"
| "gathered_info_update rx n (MiscData friendly_name) s =
     Inr (s\<lparr>node_identities := dict_set (node_identities s) n
       ((dict_get_default (node_identities s) n default_node_identity)
          \<lparr>ident_friendly_name := friendly_name\<rparr>)\<rparr>)"
| "gathered_info_update rx n (StaticNodeInformation model chip os_version os_build) s =
     Inr (s\<lparr>node_identities := dict_set (node_identities s) n
       ((dict_get_default (node_identities s) n default_node_identity)
          \<lparr>ident_model_id := model, ident_chip_id := chip, ident_os_version := os_version,
           ident_os_build_version := os_build\<rparr>)\<rparr>)"
| "gathered_info_update rx n (NodeNetworkInterfaces ifaces) s =
     Inr (s\<lparr>node_network := dict_set (node_network s) n ifaces\<rparr>)"
| "gathered_info_update rx n (MacThunderboltIdentifiers idents) s =
     Inr (s\<lparr>node_thunderbolt := dict_set (node_thunderbolt s) n idents\<rparr>)"
| "gathered_info_update rx n (MacThunderboltConnections conns) s =
     rbind (replace_all_out_rdma_connections rx n
              (as_rdma_conns n (tb_conn_map (node_thunderbolt s)) (node_rdma_ctl s) conns) (st_topology s))
       (\<lambda>t. Inr (s\<lparr>st_topology := t\<rparr>))"
| "gathered_info_update rx n (ThunderboltBridgeInfo status) s =
     (let bridge = dict_set (node_thunderbolt_bridge s) n status;
          old_enabled = (case dict_get (node_thunderbolt_bridge s) n of None \<Rightarrow> False
                         | Some st \<Rightarrow> bridge_enabled st)
      in rbind (if old_enabled \<noteq> bridge_enabled status
                then get_thunderbolt_bridge_cycles rx (st_topology s) bridge (node_network s)
                else Inr (thunderbolt_bridge_cycles s))
           (\<lambda>cycles. Inr (s\<lparr>node_thunderbolt_bridge := bridge, thunderbolt_bridge_cycles := cycles\<rparr>)))"
| "gathered_info_update rx n (RdmaCtlStatus enabled) s =
     Inr (s\<lparr>node_rdma_ctl := dict_set (node_rdma_ctl s) n enabled,
            st_topology := (if enabled then st_topology s
                            else remove_all_rdma_connections_touching rx n (st_topology s))\<rparr>)"
| "gathered_info_update rx n (NodeBackends bs) s =
     Inr (s\<lparr>node_backends := dict_set (node_backends s) n bs\<rparr>)"

definition apply_node_gathered_info ::
  "'g env \<Rightarrow> node_id \<Rightarrow> time \<Rightarrow> gathered_info \<Rightarrow> 'g state \<Rightarrow> 'g state result" where
  "apply_node_gathered_info rx n when_seen info s =
     gathered_info_update rx n info
       (s\<lparr>st_last_seen := dict_set (st_last_seen s) n when_seen,
          st_topology := add_node rx n (st_topology s)\<rparr>)"

definition apply_topology_edge_created :: "'g env \<Rightarrow> connection \<Rightarrow> 'g state \<Rightarrow> 'g state result" where
  "apply_topology_edge_created rx c s =
     rbind (add_connection rx (st_topology s) c) (\<lambda>t. Inr (s\<lparr>st_topology := t\<rparr>))"

definition apply_topology_edge_deleted :: "'g env \<Rightarrow> connection \<Rightarrow> 'g state \<Rightarrow> 'g state" where
  "apply_topology_edge_deleted rx c s = s\<lparr>st_topology := remove_connection rx c (st_topology s)\<rparr>"

definition apply_custom_model_card_added :: "model_card \<Rightarrow> 'g state \<Rightarrow> 'g state" where
  "apply_custom_model_card_added c s =
     s\<lparr>custom_model_cards := dict_set (custom_model_cards s) (mc_model_id c) c\<rparr>"

definition apply_custom_model_card_deleted :: "model_id \<Rightarrow> 'g state \<Rightarrow> 'g state" where
  "apply_custom_model_card_deleted m s =
     s\<lparr>custom_model_cards := dict_del (custom_model_cards s) m\<rparr>"

section \<open>Dispatch\<close>

fun event_apply :: "'g env \<Rightarrow> event_body \<Rightarrow> 'g state \<Rightarrow> 'g state result" where
  "event_apply rx TestEvent s = Inr s"
| "event_apply rx (ChunkGenerated _ _) s = Inr s"
| "event_apply rx (TaskAcknowledged _) s = Inr s"
| "event_apply rx (InputChunkReceived _ _) s = Inr s"
| "event_apply rx (TracesCollected _ _ _) s = Inr s"
| "event_apply rx (TracesMerged _ _) s = Inr s"
| "event_apply rx (CustomModelCardAdded c) s = Inr (apply_custom_model_card_added c s)"
| "event_apply rx (CustomModelCardDeleted m) s = Inr (apply_custom_model_card_deleted m s)"
| "event_apply rx (InstanceCreated i) s = Inr (apply_instance_created i s)"
| "event_apply rx (InstanceDeleted iid) s = Inr (apply_instance_deleted iid s)"
| "event_apply rx (NodeTimedOut n) s = apply_node_timed_out rx n s"
| "event_apply rx (NodeDownloadProgress dp) s = Inr (apply_node_download_progress dp s)"
| "event_apply rx (NodeGatheredInfo n w i) s = apply_node_gathered_info rx n w i s"
| "event_apply rx (RunnerStatusUpdated rid st) s = Inr (apply_runner_status_updated rid st s)"
| "event_apply rx (TaskCreated tid t) s = Inr (apply_task_created tid t s)"
| "event_apply rx (TaskDeleted tid) s = Inr (apply_task_deleted tid s)"
| "event_apply rx (TaskFailed tid e m) s = Inr (apply_task_failed tid e m s)"
| "event_apply rx (TaskStatusUpdated tid st) s = Inr (apply_task_status_updated tid st s)"
| "event_apply rx (TopologyEdgeCreated c) s = apply_topology_edge_created rx c s"
| "event_apply rx (TopologyEdgeDeleted c) s = Inr (apply_topology_edge_deleted rx c s)"
| "event_apply rx (InstanceLinkCreated l) s = Inr (apply_instance_link_created l s)"
| "event_apply rx (InstanceLinkDeleted lid) s = Inr (apply_instance_link_deleted lid s)"

definition apply_event :: "'g env \<Rightarrow> 'g state \<Rightarrow> indexed_event \<Rightarrow> 'g state result" where
  "apply_event rx s e =
     (if last_event_applied_idx s \<noteq> ie_idx e - 1
      then Inl (AssertionError ''state.last_event_applied_idx == event.idx - 1'')
      else rbind (event_apply rx (event_body (ie_event e)) s)
             (\<lambda>s'. Inr (s'\<lparr>last_event_applied_idx := ie_idx e\<rparr>)))"

lemmas [apply_defs] =
  apply_node_download_progress_def apply_task_created_def apply_task_deleted_def
  apply_task_status_updated_def apply_task_failed_def apply_instance_created_def
  apply_instance_deleted_def apply_instance_link_created_def apply_instance_link_deleted_def
  apply_node_timed_out_def apply_node_gathered_info_def apply_topology_edge_created_def
  apply_topology_edge_deleted_def apply_custom_model_card_added_def
  apply_custom_model_card_deleted_def

section \<open>Invariants\<close>

text \<open>The dictionaries hold each key once and are keyed by the identifier their values carry.\<close>

definition dicts_wf :: "'g state \<Rightarrow> bool" where
  "dicts_wf s \<longleftrightarrow>
     wf_dict (st_instances s) \<and> wf_dict (st_runners s) \<and> wf_dict (st_downloads s) \<and>
     wf_dict (st_tasks s) \<and> wf_dict (st_last_seen s) \<and> wf_dict (node_identities s) \<and>
     wf_dict (node_memory s) \<and> wf_dict (node_disk s) \<and> wf_dict (node_system s) \<and>
     wf_dict (node_network s) \<and> wf_dict (node_thunderbolt s) \<and>
     wf_dict (node_thunderbolt_bridge s) \<and> wf_dict (node_rdma_ctl s) \<and>
     wf_dict (node_backends s) \<and> wf_dict (instance_links s) \<and>
     wf_dict (prefill_server_ports s) \<and> wf_dict (custom_model_cards s)"

definition keyed :: "('v \<Rightarrow> 'k) \<Rightarrow> ('k, 'v) dict \<Rightarrow> bool" where
  "keyed f d \<longleftrightarrow> (\<forall>k v. dict_get d k = Some v \<longrightarrow> f v = k)"

text \<open>A node's downloads list belongs to the node and has one entry per model.\<close>

definition downloads_wf :: "(node_id, download_progress list) dict \<Rightarrow> bool" where
  "downloads_wf d \<longleftrightarrow> (\<forall>n dps. dict_get d n = Some dps \<longrightarrow>
     distinct (map dp_model_id dps) \<and> list_all (\<lambda>dp. dp_node_id dp = n) dps)"

text \<open>The port of a prefill server is known only for a runner the state lists.\<close>

definition ports_wf :: "'g state \<Rightarrow> bool" where
  "ports_wf s \<longleftrightarrow> (\<forall>r p. dict_get (prefill_server_ports s) r = Some p \<longrightarrow> dict_mem r (st_runners s))"

definition keys_ok :: "'g state \<Rightarrow> bool" where
  "keys_ok s \<longleftrightarrow> wf_dict (instance_links s) \<and>
     keyed instance_id (st_instances s) \<and> keyed link_id (instance_links s) \<and>
     keyed mc_model_id (custom_model_cards s) \<and> downloads_wf (st_downloads s)"

definition state_wf :: "'g state \<Rightarrow> bool" where
  "state_wf s \<longleftrightarrow> dicts_wf s \<and> keys_ok s \<and> ports_wf s"

definition state_inv ::
  "('g \<Rightarrow> int \<Rightarrow> node_id option) \<Rightarrow> ('g \<Rightarrow> (int \<times> int \<times> int \<times> edge) set) \<Rightarrow> 'g state \<Rightarrow> bool" where
  "state_inv V E s \<longleftrightarrow> state_wf s \<and> topo_inv V E (st_topology s)"

lemma keyed_set [simp]: "keyed f d \<Longrightarrow> f v = k \<Longrightarrow> keyed f (dict_set d k v)"
  by (simp add: keyed_def)

lemma keyed_del [simp]: "keyed f d \<Longrightarrow> keyed f (dict_del d k)"
  by (simp add: keyed_def)

lemma wf_dict_set_del [simp]:
  "wf_dict d \<Longrightarrow> wf_dict (dict_set d k v)" "wf_dict d \<Longrightarrow> wf_dict (dict_del d k)"
  by auto

lemma dict_keys_del: "set (dict_keys (dict_del d k)) = set (dict_keys d) - {k}"
  by (auto simp: AList.delete_eq)

lemma prune_links_mem:
  "(lid, l) \<in> set (prune_links iid ls) \<Longrightarrow> \<exists>l0. (lid, l0) \<in> set ls \<and> link_id l = link_id l0 \<and>
     prefill_instances l = filter (\<lambda>i. i \<noteq> iid) (prefill_instances l0) \<and>
     decode_instances l = filter (\<lambda>i. i \<noteq> iid) (decode_instances l0) \<and>
     prefill_instances l \<noteq> [] \<and> decode_instances l \<noteq> []"
proof (induction ls)
  case (Cons x ls)
  show ?case
  proof (cases "(lid, l) \<in> set (prune_links iid ls)")
    case True
    with Cons.IH show ?thesis by auto
  next
    case False
    with Cons.prems show ?thesis by (cases x) (auto simp: Let_def split: if_splits)
  qed
qed simp

lemma dict_keys_prune: "set (dict_keys (prune_links iid ls)) \<subseteq> set (dict_keys ls)"
proof
  fix k
  assume "k \<in> set (dict_keys (prune_links iid ls))"
  then obtain l where "(k, l) \<in> set (prune_links iid ls)" by auto
  then obtain l0 where "(k, l0) \<in> set ls" using prune_links_mem by blast
  then show "k \<in> set (dict_keys ls)" by force
qed

lemma prune_links_get:
  "wf_dict ls \<Longrightarrow> dict_get (prune_links iid ls) lid = (case dict_get ls lid of
      None \<Rightarrow> None
    | Some l \<Rightarrow>
        let p = filter (\<lambda>i. i \<noteq> iid) (prefill_instances l); d = filter (\<lambda>i. i \<noteq> iid) (decode_instances l)
        in if p = [] \<or> d = [] then None else Some (l\<lparr>prefill_instances := p, decode_instances := d\<rparr>))"
proof (induction ls)
  case (Cons x ls)
  obtain k l where x: "x = (k, l)" by (cases x)
  have "wf_dict ls" "k \<notin> fst ` set ls" using Cons.prems by (auto simp: x wf_dict_def)
  then have "dict_get (prune_links iid ls) k = None"
    using dict_keys_prune [of iid ls] by (auto simp: map_of_eq_None_iff)
  with Cons.IH [OF \<open>wf_dict ls\<close>] show ?case by (auto simp: x Let_def)
qed simp

lemma wf_dict_prune [simp]: "wf_dict ls \<Longrightarrow> wf_dict (prune_links iid ls)"
proof (induction ls)
  case (Cons x ls)
  then show ?case using dict_keys_prune [of iid ls] by (cases x) (auto simp: wf_dict_def Let_def)
qed simp

lemma keyed_prune [simp]:
  assumes "wf_dict ls" "keyed link_id ls" shows "keyed link_id (prune_links iid ls)"
  unfolding keyed_def
proof (intro allI impI)
  fix lid l
  assume "dict_get (prune_links iid ls) lid = Some l"
  then have "(lid, l) \<in> set (prune_links iid ls)" by (rule map_of_SomeD)
  then obtain l0 where "(lid, l0) \<in> set ls" "link_id l = link_id l0"
    using prune_links_mem by blast
  then show "link_id l = lid" using assms by (simp add: keyed_def dict_get_eq_mem)
qed

lemma replace_download_models:
  "dp_model_id dp \<in> set (map dp_model_id dps) \<Longrightarrow>
     map dp_model_id (replace_download dp dps) = map dp_model_id dps"
  "dp_model_id dp \<notin> set (map dp_model_id dps) \<Longrightarrow> replace_download dp dps = dps @ [dp]"
  by (induction dp dps rule: replace_download.induct) auto

lemma replace_download_wf:
  "distinct (map dp_model_id dps) \<Longrightarrow> distinct (map dp_model_id (replace_download dp dps))"
  by (cases "dp_model_id dp \<in> set (map dp_model_id dps)") (simp_all add: replace_download_models)

lemma replace_download_all:
  "list_all P dps \<Longrightarrow> P dp \<Longrightarrow> list_all P (replace_download dp dps)"
  by (induction dp dps rule: replace_download.induct) auto

lemma downloads_wf_set [simp]:
  assumes "downloads_wf d"
  shows "downloads_wf (dict_set d (dp_node_id dp)
    (replace_download dp (dict_get_default d (dp_node_id dp) [])))"
  using assms
  by (auto simp: downloads_wf_def dict_get_default_def replace_download_wf replace_download_all
      split: option.splits)

lemma downloads_wf_del [simp]: "downloads_wf d \<Longrightarrow> downloads_wf (dict_del d k)"
  by (simp add: downloads_wf_def)

text \<open>The parts of the invariant, one event at a time.\<close>

lemma runner_status_cases:
  "(st = RunnerShutdown \<Longrightarrow> P (s\<lparr>st_runners := dict_del (st_runners s) rid,
        prefill_server_ports := dict_del (prefill_server_ports s) rid\<rparr>)) \<Longrightarrow>
   (\<And>p. st = RunnerReady (Some p) \<Longrightarrow> P (s\<lparr>st_runners := dict_set (st_runners s) rid st,
        prefill_server_ports := dict_set (prefill_server_ports s) rid p\<rparr>)) \<Longrightarrow>
   (P (s\<lparr>st_runners := dict_set (st_runners s) rid st\<rparr>)) \<Longrightarrow>
   P (apply_runner_status_updated rid st s)"
  by (cases "(rid, st, s)" rule: apply_runner_status_updated.cases) auto

lemmas state_wf_defs = state_wf_def dicts_wf_def keys_ok_def ports_wf_def

lemma event_apply_preserves:
  assumes "event_apply rx e s = Inr s'" "P s"
    and "\<And>n w i s'. e = NodeGatheredInfo n w i \<Longrightarrow>
      gathered_info_update rx n i (s\<lparr>st_last_seen := dict_set (st_last_seen s) n w,
        st_topology := add_node rx n (st_topology s)\<rparr>) = Inr s' \<Longrightarrow> P s'"
    and "\<And>rid st. e = RunnerStatusUpdated rid st \<Longrightarrow> P (apply_runner_status_updated rid st s)"
    and "\<And>n s'. apply_node_timed_out rx n s = Inr s' \<Longrightarrow> P s'"
    and "\<And>c s'. apply_topology_edge_created rx c s = Inr s' \<Longrightarrow> P s'"
    and "\<And>k t. P (s\<lparr>st_tasks := dict_set (st_tasks s) k t\<rparr>)"
    and "\<And>k. P (s\<lparr>st_tasks := dict_del (st_tasks s) k\<rparr>)"
    and "\<And>c. P (apply_topology_edge_deleted rx c s)"
    and "\<And>i. P (apply_instance_created i s)" and "\<And>i. P (apply_instance_deleted i s)"
    and "\<And>l. P (apply_instance_link_created l s)" and "\<And>l. P (apply_instance_link_deleted l s)"
    and "\<And>c. P (apply_custom_model_card_added c s)" and "\<And>m. P (apply_custom_model_card_deleted m s)"
    and "\<And>dp. P (apply_node_download_progress dp s)"
  shows "P s'"
proof (cases e)
qed (use assms in \<open>auto simp: apply_node_gathered_info_def apply_task_created_def apply_task_deleted_def
    apply_task_failed_def apply_task_status_updated_def split: option.splits\<close>)

lemma event_apply_dicts_wf:
  assumes "dicts_wf s" "event_apply rx e s = Inr s'" shows "dicts_wf s'"
proof (rule event_apply_preserves [OF assms(2)], goal_cases)
  case (2 n w i s')
  then show ?case using assms(1) by (cases i) (auto simp: dicts_wf_def Let_def)
next
  case (3 rid st)
  show ?case by (rule runner_status_cases) (use assms(1) in \<open>auto simp: dicts_wf_def\<close>)
qed (use assms(1) in \<open>auto simp: dicts_wf_def apply_defs Let_def\<close>)

lemma event_apply_keys_ok:
  assumes "keys_ok s" "event_apply rx e s = Inr s'" shows "keys_ok s'"
proof (rule event_apply_preserves [OF assms(2)], goal_cases)
  case (2 n w i s')
  then show ?case using assms(1) by (cases i) (auto simp: keys_ok_def Let_def)
next
  case (3 rid st)
  show ?case by (rule runner_status_cases) (use assms(1) in \<open>auto simp: keys_ok_def\<close>)
qed (use assms(1) in \<open>auto simp: keys_ok_def apply_defs Let_def\<close>)

lemma event_apply_ports_wf:
  assumes "ports_wf s" "event_apply rx e s = Inr s'" shows "ports_wf s'"
proof (rule event_apply_preserves [OF assms(2)], goal_cases)
  case (2 n w i s')
  then show ?case using assms(1) by (cases i) (auto simp: ports_wf_def Let_def)
next
  case (3 rid st)
  show ?case by (rule runner_status_cases) (use assms(1) in \<open>auto simp: ports_wf_def\<close>)
qed (use assms(1) in \<open>auto simp: ports_wf_def apply_defs Let_def\<close>)

lemma event_apply_state_wf:
  "state_wf s \<Longrightarrow> event_apply rx e s = Inr s' \<Longrightarrow> state_wf s'"
  using event_apply_dicts_wf event_apply_keys_ok event_apply_ports_wf by (metis state_wf_def)

text \<open>The topology after an event: only five kinds of event touch it.\<close>

lemma gathered_info_topology:
  assumes "rx_digraph rx V E" "topo_inv V E (st_topology s)" "n \<in> topo_nodes (st_topology s)"
    and "gathered_info_update rx n i s = Inr s'"
  shows "topo_inv V E (st_topology s')"
proof (cases i)
  case (MacThunderboltConnections conns)
  then obtain t where "replace_all_out_rdma_connections rx n (as_rdma_conns n
      (tb_conn_map (node_thunderbolt s)) (node_rdma_ctl s) conns) (st_topology s) = Inr t"
    "st_topology s' = t" using assms(4) by auto
  with replace_all_out_rdma_spec [OF assms(1-3)] show ?thesis by (metis sum.inject(2))
next
  case (RdmaCtlStatus b)
  with remove_all_rdma_spec(1) [OF assms(1,2)] assms(2,4) show ?thesis by auto
qed (use assms(2,4) in \<open>auto simp: Let_def\<close>)

lemma event_apply_topo_inv:
  assumes "rx_digraph rx V E" "topo_inv V E (st_topology s)" "event_apply rx e s = Inr s'"
  shows "topo_inv V E (st_topology s')"
proof (cases e)
  case (NodeGatheredInfo n w i)
  let ?s = "s\<lparr>st_last_seen := dict_set (st_last_seen s) n w, st_topology := add_node rx n (st_topology s)\<rparr>"
  have "topo_inv V E (st_topology ?s)" "n \<in> topo_nodes (st_topology ?s)"
    using add_node_spec [OF assms(1,2), of n] by auto
  from gathered_info_topology [OF assms(1) this] assms(3) NodeGatheredInfo show ?thesis
    by (simp add: apply_node_gathered_info_def)
next
  case (TopologyEdgeCreated c)
  with add_connection_spec [OF assms(1,2), of c] assms(3) show ?thesis
    by (auto simp: apply_topology_edge_created_def)
next
  case (RunnerStatusUpdated rid st)
  have "topo_inv V E (st_topology (apply_runner_status_updated rid st s))"
    by (rule runner_status_cases) (use assms(2) in auto)
  with assms(3) RunnerStatusUpdated show ?thesis by simp
qed (use assms remove_node_spec(1) [OF assms(1,2)] remove_connection_spec [OF assms(1,2)]
    in \<open>auto simp: apply_defs Let_def split: option.splits\<close>)

lemma state_inv_init: "rx_digraph rx V E \<Longrightarrow> state_inv V E (init_state rx)"
  by (simp add: state_inv_def state_wf_defs init_state_def topo_inv_empty keyed_def downloads_wf_def)

lemma apply_event_inv:
  assumes "rx_digraph rx V E" "state_inv V E s" "apply_event rx s e = Inr s'"
  shows "state_inv V E s'"
proof -
  obtain s1 where s1: "event_apply rx (event_body (ie_event e)) s = Inr s1"
    "s' = s1\<lparr>last_event_applied_idx := ie_idx e\<rparr>"
    using assms(3) by (auto simp: apply_event_def split: if_splits)
  have "state_wf s1" "topo_inv V E (st_topology s1)"
    using event_apply_state_wf [OF _ s1(1)] event_apply_topo_inv [OF assms(1) _ s1(1)] assms(2)
    by (simp_all add: state_inv_def)
  then show ?thesis by (simp add: s1(2) state_inv_def state_wf_defs)
qed

section \<open>RDMA edges and rdma\_ctl\<close>

definition rdma_ok ::
  "('g \<Rightarrow> int \<Rightarrow> node_id option) \<Rightarrow> ('g \<Rightarrow> (int \<times> int \<times> int \<times> edge) set) \<Rightarrow> 'g state \<Rightarrow> bool" where
  "rdma_ok V E s \<longleftrightarrow> (\<forall>c \<in> topo_conns V E (st_topology s). is_rdma (conn_edge c) \<longrightarrow>
     is_rdma_ctl_enabled (conn_source c) (node_rdma_ctl s) \<and>
     is_rdma_ctl_enabled (conn_sink c) (node_rdma_ctl s))"

text \<open>The workers announce socket edges only.\<close>

fun socket_edges_only :: "event_body \<Rightarrow> bool" where
  "socket_edges_only (TopologyEdgeCreated c) = (\<not> is_rdma (conn_edge c))"
| "socket_edges_only _ = True"

lemma as_rdma_conns_enabled:
  "c \<in> set (as_rdma_conns n cm rdma conns) \<Longrightarrow>
   conn_source c = n \<and> is_rdma_ctl_enabled n rdma \<and> is_rdma_ctl_enabled (conn_sink c) rdma"
  by (auto simp: as_rdma_conns_def split: option.splits if_splits)

lemma rdma_ok_cong:
  "rdma_ok V E s \<Longrightarrow> st_topology s' = st_topology s \<Longrightarrow> node_rdma_ctl s' = node_rdma_ctl s \<Longrightarrow>
   rdma_ok V E s'"
  by (simp add: rdma_ok_def)

lemma gathered_info_rdma_ok:
  assumes "rx_digraph rx V E" "topo_inv V E (st_topology s)" "n \<in> topo_nodes (st_topology s)"
    and "rdma_ok V E s" "gathered_info_update rx n i s = Inr s'"
  shows "rdma_ok V E s'"
proof (cases i)
  case (MacThunderboltConnections conns)
  let ?cs = "as_rdma_conns n (tb_conn_map (node_thunderbolt s)) (node_rdma_ctl s) conns"
  obtain t where "replace_all_out_rdma_connections rx n ?cs (st_topology s) = Inr t"
    and s': "s' = s\<lparr>st_topology := t\<rparr>" using assms(5) MacThunderboltConnections by auto
  with replace_all_out_rdma_spec [OF assms(1-3), of ?cs] have
    "topo_conns V E t \<subseteq> topo_conns V E (st_topology s) \<union> set ?cs" by auto
  with assms(4) show ?thesis
    unfolding rdma_ok_def s' by (auto dest: as_rdma_conns_enabled)
next
  case (RdmaCtlStatus b)
  with remove_all_rdma_spec(3) [OF assms(1,2), of n] assms(4,5) show ?thesis
    by (cases b) (auto simp: rdma_ok_def is_rdma_ctl_enabled_def)
qed (use assms(4,5) in \<open>auto simp: Let_def elim!: rdma_ok_cong\<close>)

lemma event_apply_rdma_ok:
  assumes "rx_digraph rx V E" "topo_inv V E (st_topology s)" "rdma_ok V E s"
    and "event_apply rx e s = Inr s'" "socket_edges_only e"
  shows "rdma_ok V E s'"
proof (cases e)
  case (NodeGatheredInfo n w i)
  let ?s = "s\<lparr>st_last_seen := dict_set (st_last_seen s) n w, st_topology := add_node rx n (st_topology s)\<rparr>"
  note an = add_node_spec [OF assms(1,2), of n]
  have "rdma_ok V E ?s" using assms(3) an(3) by (simp add: rdma_ok_def)
  with gathered_info_rdma_ok [OF assms(1), of ?s n i s'] an assms(4) NodeGatheredInfo
  show ?thesis by (simp add: apply_node_gathered_info_def)
next
  case (NodeTimedOut n)
  then have "st_topology s' = remove_node rx n (st_topology s)"
    "node_rdma_ctl s' = dict_del (node_rdma_ctl s) n"
    using assms(4) by (auto simp: apply_node_timed_out_def Let_def)
  with remove_node_spec(3) [OF assms(1,2), of n] assms(3) show ?thesis
    by (auto simp: rdma_ok_def is_rdma_ctl_enabled_def)
next
  case (TopologyEdgeCreated c)
  with add_connection_spec [OF assms(1,2), of c] assms(3-5) show ?thesis
    by (auto simp: rdma_ok_def apply_topology_edge_created_def)
next
  case (TopologyEdgeDeleted c)
  with remove_connection_spec [OF assms(1,2), of c] assms(3,4) show ?thesis
    by (auto simp: rdma_ok_def apply_topology_edge_deleted_def)
next
  case (RunnerStatusUpdated rid st)
  have "rdma_ok V E (apply_runner_status_updated rid st s)"
    by (rule runner_status_cases) (use assms(3) in \<open>auto elim: rdma_ok_cong\<close>)
  with assms(4) RunnerStatusUpdated show ?thesis by simp
qed (use assms(3,4) in \<open>auto simp: apply_defs split: option.splits elim!: rdma_ok_cong\<close>)

section \<open>Replaying a log\<close>

text \<open>
  A replica is a state machine over indexed events that accepts only the next index. What it
  holds after accepting a segment of a log is determined by the position it has reached.
\<close>

locale event_sourced =
  fixes step :: "'s \<Rightarrow> 'e \<Rightarrow> 's result" and pos :: "'s \<Rightarrow> int" and idx :: "'e \<Rightarrow> int"
  assumes step_next: "step s e = Inr s' \<Longrightarrow> idx e = pos s + 1 \<and> pos s' = pos s + 1"
begin

lemma replay_contiguous:
  "rfold step s es = Inr s' \<Longrightarrow>
   pos s' = pos s + int (length es) \<and> map idx es = map (\<lambda>k. pos s + 1 + int k) [0..<length es]"
proof (induction es arbitrary: s)
  case (Cons e es)
  then obtain s1 where s1: "step s e = Inr s1" "rfold step s1 es = Inr s'" by auto
  note st = step_next [OF s1(1)] and IH = Cons.IH [OF s1(2)]
  have "map (\<lambda>k. pos s + 1 + int k) [0..<length (e # es)] =
      (pos s + 1) # map (\<lambda>k. pos s1 + 1 + int k) [0..<length es]"
    unfolding list.size(4) One_nat_def add_Suc_right add_0_right map_upt_Suc
    by (simp add: st algebra_simps)
  with st IH show ?case by simp
qed simp

lemma replay_out_of_order:
  "idx e \<noteq> pos s + 1 \<Longrightarrow> \<exists>err. step s e = Inl err"
  using step_next by (cases "step s e") auto

lemma replay_determined:
  assumes "rfold step s es = Inr s1" "rfold step s fs = Inr s2" "pos s1 = pos s2"
    and "\<And>e f. e \<in> set es \<Longrightarrow> f \<in> set fs \<Longrightarrow> idx e = idx f \<Longrightarrow> e = f"
  shows "es = fs \<and> s1 = s2"
proof -
  note c1 = replay_contiguous [OF assms(1)] and c2 = replay_contiguous [OF assms(2)]
  have len: "length es = length fs" using c1 c2 assms(3) by simp
  have "es ! k = fs ! k" if "k < length es" for k
  proof (rule assms(4))
    show "es ! k \<in> set es" "fs ! k \<in> set fs" using that len by auto
    show "idx (es ! k) = idx (fs ! k)"
      using arg_cong [OF conjunct2 [OF c1], of "\<lambda>xs. xs ! k"]
        arg_cong [OF conjunct2 [OF c2], of "\<lambda>xs. xs ! k"] that len by simp
  qed
  with len have "es = fs" by (simp add: nth_equalityI)
  with assms(1,2) show ?thesis by simp
qed

end

interpretation log: event_sourced "apply_event rx" last_event_applied_idx ie_idx for rx
  by unfold_locales (auto simp: apply_event_def split: if_splits)

lemma replay_inv:
  assumes "rx_digraph rx V E" "state_inv V E s" "rfold (apply_event rx) s es = Inr s'"
  shows "state_inv V E s'"
  using rfold_invariant [of "state_inv V E" "apply_event rx"] apply_event_inv [OF assms(1)] assms(2,3)
  by blast

lemma replay_rdma_ok:
  assumes "rx_digraph rx V E" "state_inv V E s" "rdma_ok V E s"
    and "list_all (\<lambda>e. socket_edges_only (event_body (ie_event e))) es"
    and "rfold (apply_event rx) s es = Inr s'"
  shows "rdma_ok V E s'"
  using assms(2-)
proof (induction es arbitrary: s)
  case (Cons e es)
  then obtain s1 where s1: "apply_event rx s e = Inr s1" "rfold (apply_event rx) s1 es = Inr s'" by auto
  then obtain s0 where s0: "event_apply rx (event_body (ie_event e)) s = Inr s0"
    "s1 = s0\<lparr>last_event_applied_idx := ie_idx e\<rparr>" by (auto simp: apply_event_def split: if_splits)
  have "rdma_ok V E s0"
    using event_apply_rdma_ok [OF assms(1) _ _ s0(1)] Cons.prems by (simp add: state_inv_def)
  then have "rdma_ok V E s1" by (auto simp: s0(2) elim: rdma_ok_cong)
  with Cons.IH [OF apply_event_inv [OF assms(1) Cons.prems(1) s1(1)]] Cons.prems s1(2)
  show ?case by simp
qed simp

section \<open>Events that do not raise\<close>

definition addresses_ok :: "edge \<Rightarrow> bool" where
  "addresses_ok d \<longleftrightarrow> (case d of SocketConnection m \<Rightarrow> \<not> isl (ip_address m) | _ \<Rightarrow> True)"

lemma not_isl_Inr: "\<not> isl r \<Longrightarrow> \<exists>x. r = Inr x"
  by (cases r) auto

lemma tb_fold_total:
  "\<forall>x \<in> set xs. addresses_ok (snd (snd x)) \<Longrightarrow> \<exists>g'. rfold (tb_add_edge rx ips ix g0) g xs = Inr g'"
proof (induction xs arbitrary: g)
  case (Cons x xs)
  obtain u v d where x: "x = (u, v, d)" by (cases x)
  have "\<exists>g1. tb_add_edge rx ips ix g0 g x = Inr g1"
    using Cons.prems not_isl_Inr
    by (auto simp: x tb_add_edge_def addresses_ok_def split: option.splits edge.splits)
  with Cons show ?case by fastforce
qed simp

lemma tb_cycles_total:
  assumes "rx_digraph rx V E" "topo_inv V E t" "\<forall>c \<in> topo_conns V E t. addresses_ok (conn_edge c)"
  shows "\<exists>cs. get_thunderbolt_bridge_cycles rx t br net = Inr cs"
proof -
  have "\<forall>x \<in> set (rx_weighted_edge_list rx (graph t)). addresses_ok (snd (snd x))"
    using assms(3) unfolding list_connections_spec [OF assms(1,2), symmetric]
    by (auto simp: list_connections_def mk_conn_def)
  from tb_fold_total [OF this] show ?thesis
    by (force simp: get_thunderbolt_bridge_cycles_def Let_def split: prod.splits)
qed

lemma event_apply_total:
  assumes "rx_digraph rx V E" "topo_inv V E (st_topology s)"
    and "\<forall>c \<in> topo_conns V E (st_topology s). addresses_ok (conn_edge c)"
  shows "\<exists>s'. event_apply rx e s = Inr s'"
proof (cases e)
  case (NodeTimedOut n)
  have "\<exists>cs. get_thunderbolt_bridge_cycles rx (remove_node rx n (st_topology s)) br net = Inr cs" for br net
    using remove_node_spec [OF assms(1,2), of n] assms(3) by (intro tb_cycles_total [OF assms(1)]) auto
  then show ?thesis by (auto simp: NodeTimedOut apply_node_timed_out_def Let_def)
next
  case (NodeGatheredInfo n w i)
  let ?s = "s\<lparr>st_last_seen := dict_set (st_last_seen s) n w, st_topology := add_node rx n (st_topology s)\<rparr>"
  note an = add_node_spec [OF assms(1,2), of n]
  have "\<exists>s'. gathered_info_update rx n i ?s = Inr s'"
  proof (cases i)
    case (MacThunderboltConnections conns)
    have "topo_inv V E (st_topology ?s)" "n \<in> topo_nodes (st_topology ?s)" using an by auto
    from replace_all_out_rdma_spec [OF assms(1) this] show ?thesis
      unfolding MacThunderboltConnections gathered_info_update.simps by fastforce
  next
    case (ThunderboltBridgeInfo st)
    have "\<exists>cs. get_thunderbolt_bridge_cycles rx (add_node rx n (st_topology s)) br net = Inr cs" for br net
      using an assms(3) by (intro tb_cycles_total [OF assms(1)]) auto
    then show ?thesis by (auto simp: ThunderboltBridgeInfo Let_def)
  qed auto
  then show ?thesis by (simp add: NodeGatheredInfo apply_node_gathered_info_def)
next
  case (TopologyEdgeCreated c)
  with add_connection_spec [OF assms(1,2), of c] show ?thesis
    by (auto simp: apply_topology_edge_created_def)
qed auto

section \<open>Properties\<close>

text \<open>A small log for the witnesses: two nodes that enable RDMA, a Thunderbolt cable, a prefill runner.\<close>

definition number_events :: "event_body list \<Rightarrow> indexed_event list" where
  "number_events bs =
     map (\<lambda>k. \<lparr>ie_idx = int k, ie_event = \<lparr>event_id = ''e'', event_body = bs ! k\<rparr>\<rparr>) [0..<length bs]"

definition demo_bodies :: "event_body list" where
  "demo_bodies =
     [NodeGatheredInfo ''a'' 1 (RdmaCtlStatus True),
      NodeGatheredInfo ''b'' 1 (RdmaCtlStatus True),
      NodeGatheredInfo ''a'' 2 (MacThunderboltIdentifiers
        [\<lparr>rdma_interface = ''rdma_en2'', domain_uuid = ''ua'', link_speed = ''40''\<rparr>]),
      NodeGatheredInfo ''b'' 2 (MacThunderboltIdentifiers
        [\<lparr>rdma_interface = ''rdma_en3'', domain_uuid = ''ub'', link_speed = ''40''\<rparr>]),
      NodeGatheredInfo ''a'' 3 (MacThunderboltConnections [\<lparr>source_uuid = ''ua'', sink_uuid = ''ub''\<rparr>]),
      RunnerStatusUpdated ''r'' (RunnerReady (Some 5000))]"

definition demo_state :: "ref_graph state" where
  "demo_state = (case rfold (apply_event ref_env) (init_state ref_env) (number_events demo_bodies) of
     Inr s \<Rightarrow> s | Inl _ \<Rightarrow> init_state ref_env)"

lemma demo_replay:
  "rfold (apply_event ref_env) (init_state ref_env) (number_events demo_bodies) = Inr demo_state"
proof -
  have "\<not> isl (rfold (apply_event ref_env) (init_state ref_env) (number_events demo_bodies))"
    by code_simp
  then show ?thesis by (auto simp: demo_state_def dest!: not_isl_Inr)
qed

lemma demo_connection:
  "list_connections ref_env (st_topology demo_state) =
     [\<lparr>conn_source = ''a'', conn_sink = ''b'', conn_edge = RDMAConnection ''rdma_en2'' ''rdma_en3''\<rparr>]"
  by code_simp

lemma demo_inv: "state_inv ref_V ref_E demo_state"
  by (rule replay_inv [OF ref_env_digraph state_inv_init [OF ref_env_digraph] demo_replay])

text \<open>
  C3: replaying any list of events from the initial state either raises or ends in a well-formed
  state: every dictionary holds a key once and is keyed by the identifier of its values, a node has
  one download entry per model, a prefill port belongs to a listed runner, the topology's index
  dictionary and graph agree; and the events were numbered 0, 1, 2 and so on without a gap.
\<close>

theorem replicated_state_invariant:
  assumes "rx_digraph rx V E" "rfold (apply_event rx) (init_state rx) es = Inr s"
  shows "state_inv V E s \<and> map ie_idx es = map int [0..<length es] \<and>
    last_event_applied_idx s = int (length es) - 1"
proof -
  have "last_event_applied_idx (init_state rx) = - 1" by (simp add: init_state_def)
  with log.replay_contiguous [OF assms(2)] show ?thesis
    using replay_inv [OF assms(1) state_inv_init [OF assms(1)] assms(2)] by simp
qed

theorem replicated_state_invariant_witness:
  "state_inv ref_V ref_E demo_state \<and> map ie_idx (number_events demo_bodies) = [0, 1, 2, 3, 4, 5] \<and>
   last_event_applied_idx demo_state = 5"
  using replicated_state_invariant [OF ref_env_digraph demo_replay]
  by (simp add: number_events_def demo_bodies_def)

text \<open>
  Whatever the events, as long as edge announcements are socket edges, every RDMA edge of the
  replicated topology joins two nodes whose \<^verbatim>\<open>rdma_ctl\<close> was last reported as enabled, so placement
  never sees an RDMA edge at a node that disabled RDMA.
\<close>

theorem rdma_edges_join_enabled_nodes:
  assumes "rx_digraph rx V E" "rfold (apply_event rx) (init_state rx) es = Inr s"
    and "list_all (\<lambda>e. socket_edges_only (event_body (ie_event e))) es"
    and "c \<in> set (list_connections rx (st_topology s))" "is_rdma (conn_edge c)"
  shows "is_rdma_ctl_enabled (conn_source c) (node_rdma_ctl s) \<and>
    is_rdma_ctl_enabled (conn_sink c) (node_rdma_ctl s)"
proof -
  note inv = state_inv_init [OF assms(1)]
  have "rdma_ok V E (init_state rx)"
    by (simp add: rdma_ok_def init_state_def topo_inv_empty [OF assms(1)])
  from replay_rdma_ok [OF assms(1) inv this assms(3,2)] have "rdma_ok V E s" .
  moreover have "topo_inv V E (st_topology s)"
    using replay_inv [OF assms(1) inv assms(2)] by (simp add: state_inv_def)
  ultimately show ?thesis
    using assms(4,5) by (simp add: rdma_ok_def list_connections_spec [OF assms(1)])
qed

theorem rdma_edges_join_enabled_nodes_witness:
  "is_rdma_ctl_enabled ''a'' (node_rdma_ctl demo_state) \<and> is_rdma_ctl_enabled ''b'' (node_rdma_ctl demo_state)"
  using rdma_edges_join_enabled_nodes [OF ref_env_digraph demo_replay, of
      "\<lparr>conn_source = ''a'', conn_sink = ''b'', conn_edge = RDMAConnection ''rdma_en2'' ''rdma_en3''\<rparr>"]
  by (simp add: demo_connection number_events_def demo_bodies_def list_all_iff)

text \<open>
  Two replicas that accepted events of one log (events with equal index are equal), starting
  from the same state, and that stand at the same index, hold the same state: the order in which
  the network delivered the events does not matter.
\<close>

theorem replicas_at_same_index_agree:
  assumes "rfold (apply_event rx) s es = Inr s1" "rfold (apply_event rx) s fs = Inr s2"
    and "\<forall>e \<in> set es. \<forall>f \<in> set fs. ie_idx e = ie_idx f \<longrightarrow> e = f"
    and "last_event_applied_idx s1 = last_event_applied_idx s2"
  shows "s1 = s2"
  using log.replay_determined [OF assms(1,2,4)] assms(3) by blast

theorem replicas_at_same_index_agree_witness:
  "case rfold (apply_event ref_env) (init_state ref_env) (number_events demo_bodies) of
     Inr s \<Rightarrow> s = demo_state | Inl _ \<Rightarrow> False"
proof -
  have "\<forall>e \<in> set (number_events demo_bodies). \<forall>f \<in> set (number_events demo_bodies).
      ie_idx e = ie_idx f \<longrightarrow> e = f" by (auto simp: number_events_def)
  from replicas_at_same_index_agree [OF demo_replay demo_replay this refl] show ?thesis
    by (simp add: demo_replay)
qed

text \<open>
  A timed-out node leaves the topology with all its connections, and its last-seen time,
  downloads, memory, disk, system, network, Thunderbolt and RDMA entries; every other node keeps
  its entries. Its identity and its backends stay in the state.
\<close>

theorem node_timed_out_forgets_node:
  assumes "rx_digraph rx V E" "state_inv V E s" "event_apply rx (NodeTimedOut n) s = Inr s'"
  shows "topo_nodes (st_topology s') = topo_nodes (st_topology s) - {n} \<and>
    topo_conns V E (st_topology s') =
      {c \<in> topo_conns V E (st_topology s). conn_source c \<noteq> n \<and> conn_sink c \<noteq> n} \<and>
    dict_get (st_last_seen s') = (dict_get (st_last_seen s))(n := None) \<and>
    dict_get (st_downloads s') = (dict_get (st_downloads s))(n := None) \<and>
    dict_get (node_memory s') = (dict_get (node_memory s))(n := None) \<and>
    dict_get (node_network s') = (dict_get (node_network s))(n := None) \<and>
    dict_get (node_rdma_ctl s') = (dict_get (node_rdma_ctl s))(n := None) \<and>
    node_identities s' = node_identities s \<and> node_backends s' = node_backends s"
proof -
  have topo: "topo_inv V E (st_topology s)" using assms(2) by (simp add: state_inv_def)
  have s': "st_topology s' = remove_node rx n (st_topology s)"
    "st_last_seen s' = dict_del (st_last_seen s) n" "st_downloads s' = dict_del (st_downloads s) n"
    "node_memory s' = dict_del (node_memory s) n" "node_network s' = dict_del (node_network s) n"
    "node_rdma_ctl s' = dict_del (node_rdma_ctl s) n"
    "node_identities s' = node_identities s" "node_backends s' = node_backends s"
    using assms(3) by (auto simp: apply_node_timed_out_def Let_def)
  show ?thesis
    unfolding s' using remove_node_spec [OF assms(1) topo, of n] by (auto simp: fun_eq_iff)
qed

theorem node_timed_out_forgets_node_witness:
  "\<exists>s'. event_apply ref_env (NodeTimedOut ''b'') demo_state = Inr s' \<and>
     topo_nodes (st_topology s') = {''a''} \<and> dict_get (st_last_seen s') ''b'' = None"
proof -
  have "\<not> isl (event_apply ref_env (NodeTimedOut ''b'') demo_state)" by code_simp
  then obtain s' where s': "event_apply ref_env (NodeTimedOut ''b'') demo_state = Inr s'"
    using not_isl_Inr by blast
  have "topo_nodes (st_topology demo_state) = {''a'', ''b''}"
    unfolding topo_nodes_def by code_simp
  with node_timed_out_forgets_node [OF ref_env_digraph demo_inv s'] s' show ?thesis by auto
qed

text \<open>
  Deleting an instance removes it from the instances and from every link; a link that loses
  one of its sides disappears, every other link keeps its id and its other members in order.
\<close>

theorem instance_deleted_prunes_links:
  assumes "state_wf s"
  shows "event_apply rx (InstanceDeleted iid) s = Inr s' \<Longrightarrow>
    dict_get (st_instances s') = (dict_get (st_instances s))(iid := None) \<and>
    dict_get (instance_links s') lid = (case dict_get (instance_links s) lid of
      None \<Rightarrow> None
    | Some l \<Rightarrow>
        let p = filter (\<lambda>i. i \<noteq> iid) (prefill_instances l); d = filter (\<lambda>i. i \<noteq> iid) (decode_instances l)
        in if p = [] \<or> d = [] then None else Some (l\<lparr>prefill_instances := p, decode_instances := d\<rparr>))"
  using assms
  by (auto simp: apply_instance_deleted_def prune_links_get state_wf_defs fun_eq_iff)

theorem instance_deleted_prunes_links_witness:
  "\<exists>s'. event_apply ref_env (InstanceDeleted ''i'')
      ((init_state ref_env)\<lparr>instance_links := [(''l'', \<lparr>link_id = ''l'', prefill_instances = [''i'', ''j''],
         decode_instances = [''k'']\<rparr>)]\<rparr>) = Inr s' \<and>
    dict_get (instance_links s') ''l'' = Some \<lparr>link_id = ''l'', prefill_instances = [''j''],
       decode_instances = [''k'']\<rparr>"
proof -
  let ?s = "(init_state ref_env)\<lparr>instance_links := [(''l'', \<lparr>link_id = ''l'',
      prefill_instances = [''i'', ''j''], decode_instances = [''k'']\<rparr>)]\<rparr>"
  have "state_wf ?s"
    by (auto simp: state_wf_defs init_state_def keyed_def downloads_wf_def wf_dict_def)
  from instance_deleted_prunes_links [OF this, of ref_env "''i''" "apply_instance_deleted ''i'' ?s" "''l''"]
  show ?thesis by simp
qed

end
