(* ===== verification/Replica.thy ===== *)
theory Replica
  imports State_Apply
begin

text \<open>
  A replica is another process than the one whose log it replays, and Python iterates over a set of strings in an order
  that differs from process to process (\<open>set_order\<close>). One handler depends on it: the scan for Thunderbolt bridge cycles
  (\<^verbatim>\<open>Topology.get_thunderbolt_bridge_cycles\<close> in \<^verbatim>\<open>src/exo/shared/topology.py\<close>) adds the nodes to its graph in the order of
  such a set. Shown: two processes that apply the same events keep states that are equal but for the recorded cycles, and one
  raises only if the other does.
\<close>

section \<open>Another order\<close>

abbreviation at_order :: "'g env \<Rightarrow> (string list \<Rightarrow> string list) \<Rightarrow> 'g env" where
  "at_order rx ord \<equiv> rx\<lparr>set_order := ord\<rparr>"

abbreviation with_cycles :: "node_id list list \<Rightarrow> 'g state \<Rightarrow> 'g state" where
  "with_cycles cs s \<equiv> s\<lparr>thunderbolt_bridge_cycles := cs\<rparr>"

text \<open>The order lists what is in the set.\<close>

definition lists_set :: "(string list \<Rightarrow> string list) \<Rightarrow> bool" where
  "lists_set ord \<longleftrightarrow> (\<forall>xs. set (ord xs) = set xs)"

lemma env_at_order [simp]:
  "rx_new (at_order rx ord) = rx_new rx" "rx_add_node (at_order rx ord) = rx_add_node rx"
  "rx_add_edge (at_order rx ord) = rx_add_edge rx" "rx_remove_node (at_order rx ord) = rx_remove_node rx"
  "rx_getitem (at_order rx ord) = rx_getitem rx" "rx_neighbors (at_order rx ord) = rx_neighbors rx"
  "rx_out_edges (at_order rx ord) = rx_out_edges rx" "rx_get_all_edge_data (at_order rx ord) = rx_get_all_edge_data rx"
  "rx_nodes (at_order rx ord) = rx_nodes rx" "rx_weighted_edge_list (at_order rx ord) = rx_weighted_edge_list rx"
  "rx_out_edge_indices (at_order rx ord) = rx_out_edge_indices rx" "rx_in_edge_indices (at_order rx ord) = rx_in_edge_indices rx"
  "rx_get_edge_data_by_index (at_order rx ord) = rx_get_edge_data_by_index rx" "rx_remove_edge_from_index (at_order rx ord) = rx_remove_edge_from_index rx"
  "rx_edge_indices_from_endpoints (at_order rx ord) = rx_edge_indices_from_endpoints rx" "rx_simple_cycles (at_order rx ord) = rx_simple_cycles rx"
  by simp_all

lemma topology_at_order [simp]:
  "new_topology (at_order rx ord) = new_topology rx" "add_node (at_order rx ord) n t = add_node rx n t"
  "get_all_connections_between (at_order rx ord) t u v = get_all_connections_between rx t u v"
  "remove_node (at_order rx ord) n t = remove_node rx n t" "remove_edges (at_order rx ord) P g ks = remove_edges rx P g ks"
  "remove_all_rdma_connections_touching (at_order rx ord) n t = remove_all_rdma_connections_touching rx n t"
  unfolding new_topology_def add_node_def get_all_connections_between_def remove_node_def remove_edges_def
    remove_all_rdma_connections_touching_def env_at_order
  by (rule refl)+

lemma topology_edits_at_order [simp]:
  "add_connection (at_order rx ord) = add_connection rx"
  "remove_connection (at_order rx ord) c t = remove_connection rx c t"
  "replace_all_out_rdma_connections (at_order rx ord) n cs t = replace_all_out_rdma_connections rx n cs t"
proof -
  show add: "add_connection (at_order rx ord) = add_connection rx"
    by (intro ext) (unfold add_connection_def topology_at_order env_at_order, rule refl)
  show "remove_connection (at_order rx ord) c t = remove_connection rx c t"
    unfolding remove_connection_def topology_at_order env_at_order by (rule refl)
  show "replace_all_out_rdma_connections (at_order rx ord) n cs t = replace_all_out_rdma_connections rx n cs t"
    unfolding replace_all_out_rdma_connections_def add topology_at_order env_at_order by (rule refl)
qed

section \<open>The scan for bridge cycles\<close>

text \<open>An edge raises exactly when both its nodes are in the graph and its address has no IP.\<close>

definition edge_raises :: "'g env \<Rightarrow> node_id set \<Rightarrow> 'g \<Rightarrow> int \<times> int \<times> edge \<Rightarrow> bool" where
  "edge_raises rx ns g0 x = (case x of (u, v, conn) \<Rightarrow>
     rx_getitem rx g0 u \<in> ns \<and> rx_getitem rx g0 v \<in> ns \<and> (case conn of SocketConnection m \<Rightarrow> isl (ip_address m) | RDMAConnection _ _ \<Rightarrow> False))"

lemma tb_add_edge_raises: "isl (tb_add_edge rx ips ix g0 g x) \<longleftrightarrow> edge_raises rx (set (dict_keys ix)) g0 x"
proof -
  obtain u v conn where x: "x = (u, v, conn)" by (cases x)
  have "n \<in> set (dict_keys ix) \<longleftrightarrow> dict_get ix n \<noteq> None" for n by (simp add: map_of_eq_None_iff)
  moreover have "isl (rbind (ip_address m) (\<lambda>a. Inr (f a))) \<longleftrightarrow> isl (ip_address m)" for m and f :: "string \<Rightarrow> 'a"
    by (cases "ip_address m") auto
  ultimately show ?thesis
    by (simp add: x tb_add_edge_def edge_raises_def del: set_map split: option.splits edge.splits)
qed

lemma tb_fold_raises: "isl (rfold (tb_add_edge rx ips ix g0) g xs) \<longleftrightarrow> list_ex (edge_raises rx (set (dict_keys ix)) g0) xs"
proof (induction xs arbitrary: g)
  case (Cons x xs)
  then show ?case using tb_add_edge_raises [of rx ips ix g0 g x] by (cases "tb_add_edge rx ips ix g0 g x") auto
qed simp

lemma added_nodes: "set (dict_keys (snd (foldl (\<lambda>(g, d) n. let (g', i) = rx_add_node rx g n in (g', dict_set d n i)) (g, d) ns))) =
    set (dict_keys d) \<union> set ns"
proof (induction ns arbitrary: g d)
  case (Cons n ns)
  then show ?case by (auto simp: Let_def dom_update split: prod.splits)
qed simp

lemma bridge_cycles_raise:
  assumes "lists_set (set_order rx)"
  shows "isl (get_thunderbolt_bridge_cycles rx t st net) \<longleftrightarrow>
    2 \<le> length (filter (\<lambda>(n, b). bridge_enabled b) st) \<and>
    list_ex (edge_raises rx {n \<in> fst ` set (filter (\<lambda>(n, b). bridge_enabled b) st). dict_mem n (vertex_indices t)} (graph t))
      (rx_weighted_edge_list rx (graph t))"
proof -
  let ?en = "map fst (filter (\<lambda>(n, b). bridge_enabled b) st)"
  let ?ns = "filter (\<lambda>n. dict_mem n (vertex_indices t)) (set_order rx ?en)"
  let ?gd = "foldl (\<lambda>(g, d) n. let (g', i) = rx_add_node rx g n in (g', dict_set d n i)) (rx_new rx, []) ?ns"
  let ?r = "rfold (tb_add_edge rx (get_ips_with_interface_type ?en net ThunderboltIf) (snd ?gd) (graph t)) (fst ?gd) (rx_weighted_edge_list rx (graph t))"
  have "set (dict_keys (snd ?gd)) = {n \<in> set ?en. dict_mem n (vertex_indices t)}"
    using added_nodes [of rx "rx_new rx" "[]" ?ns] assms by (auto simp: lists_set_def)
  then have "isl ?r \<longleftrightarrow> list_ex (edge_raises rx {n \<in> set ?en. dict_mem n (vertex_indices t)} (graph t)) (rx_weighted_edge_list rx (graph t))"
    unfolding tb_fold_raises by simp
  moreover have "isl (get_thunderbolt_bridge_cycles rx t st net) \<longleftrightarrow> 2 \<le> length ?en \<and> isl ?r"
    by (cases ?r) (auto simp: get_thunderbolt_bridge_cycles_def Let_def split: prod.split)
  ultimately show ?thesis by simp
qed

lemma bridge_cycles_at_order:
  assumes "lists_set (set_order rx)" "lists_set ord" "get_thunderbolt_bridge_cycles rx t st net = Inr cs"
  shows "\<exists>cs'. get_thunderbolt_bridge_cycles (at_order rx ord) t st net = Inr cs'"
proof -
  have "edge_raises (at_order rx ord) = edge_raises rx" by (intro ext) (simp add: edge_raises_def)
  moreover have "lists_set (set_order (at_order rx ord))" using assms(2) by simp
  ultimately have "\<not> isl (get_thunderbolt_bridge_cycles (at_order rx ord) t st net)"
    using bridge_cycles_raise [OF assms(1), of t st net] bridge_cycles_raise [of "at_order rx ord" t st net] assms(3) by simp
  then show ?thesis by (cases "get_thunderbolt_bridge_cycles (at_order rx ord) t st net") auto
qed

section \<open>Events\<close>

definition agree_but_cycles :: "'g state \<Rightarrow> 'g state \<Rightarrow> bool" where
  "agree_but_cycles s s' \<longleftrightarrow> s' = with_cycles (thunderbolt_bridge_cycles s') s"

lemma agree_iff: "agree_but_cycles s s' \<longleftrightarrow> (\<exists>cs. s' = with_cycles cs s)"
  by (auto simp: agree_but_cycles_def)

lemma gathered_at_order:
  assumes "lists_set (set_order rx)" "lists_set ord" "gathered_info_update rx n i s = Inr t"
  shows "\<exists>t'. gathered_info_update (at_order rx ord) n i (with_cycles cs s) = Inr t' \<and> agree_but_cycles t t'"
proof (cases i)
  case (ThunderboltBridgeInfo st)
  obtain cs1 where cs1: "(if (case dict_get (node_thunderbolt_bridge s) n of None \<Rightarrow> False | Some st \<Rightarrow> bridge_enabled st) \<noteq> bridge_enabled st
        then get_thunderbolt_bridge_cycles rx (st_topology s) (dict_set (node_thunderbolt_bridge s) n st) (node_network s)
        else Inr (thunderbolt_bridge_cycles s)) = Inr cs1"
      "t = s\<lparr>node_thunderbolt_bridge := dict_set (node_thunderbolt_bridge s) n st, thunderbolt_bridge_cycles := cs1\<rparr>"
    using assms(3) by (auto simp: ThunderboltBridgeInfo Let_def split: if_splits)
  then obtain cs2 where "(if (case dict_get (node_thunderbolt_bridge s) n of None \<Rightarrow> False | Some st \<Rightarrow> bridge_enabled st) \<noteq> bridge_enabled st
        then get_thunderbolt_bridge_cycles (at_order rx ord) (st_topology s) (dict_set (node_thunderbolt_bridge s) n st) (node_network s)
        else Inr cs) = Inr cs2"
    using bridge_cycles_at_order [OF assms(1,2)] by (metis (no_types, lifting))
  then show ?thesis using cs1(2) by (auto simp: ThunderboltBridgeInfo Let_def agree_but_cycles_def)
qed (use assms(3) in \<open>auto simp: agree_but_cycles_def\<close>)

lemma timed_out_at_order:
  assumes "lists_set (set_order rx)" "lists_set ord" "apply_node_timed_out rx n s = Inr t"
  shows "\<exists>t'. apply_node_timed_out (at_order rx ord) n (with_cycles cs s) = Inr t' \<and> agree_but_cycles t t'"
proof (cases "case dict_get (node_thunderbolt_bridge s) n of None \<Rightarrow> False | Some st \<Rightarrow> bridge_enabled st")
  case True
  let ?c = "\<lambda>rx. get_thunderbolt_bridge_cycles rx (remove_node rx n (st_topology s)) (dict_del (node_thunderbolt_bridge s) n) (dict_del (node_network s) n)"
  obtain cs1 where "?c rx = Inr cs1" using assms(3) True by (auto simp: apply_node_timed_out_def Let_def)
  moreover from bridge_cycles_at_order [OF assms(1,2) this] obtain cs2 where "?c (at_order rx ord) = Inr cs2" by auto
  ultimately show ?thesis using assms(3) True by (auto simp: apply_node_timed_out_def Let_def agree_but_cycles_def)
qed (use assms(3) in \<open>auto simp: apply_node_timed_out_def Let_def agree_but_cycles_def\<close>)

lemma runner_status_cycles: "apply_runner_status_updated rid st (with_cycles cs s) = with_cycles cs (apply_runner_status_updated rid st s)"
  by (cases "(rid, st, s)" rule: apply_runner_status_updated.cases) auto

lemma event_apply_at_order:
  assumes "lists_set (set_order rx)" "lists_set ord" "event_apply rx e s = Inr t" "agree_but_cycles s s'"
  shows "\<exists>t'. event_apply (at_order rx ord) e s' = Inr t' \<and> agree_but_cycles t t'"
proof -
  obtain cs where s': "s' = with_cycles cs s" using assms(4) by (auto simp: agree_iff)
  show ?thesis
  proof (cases e)
    case (NodeTimedOut n)
    then show ?thesis using timed_out_at_order [OF assms(1,2)] assms(3) by (simp add: s')
  next
    case (NodeGatheredInfo n w i)
    have eq: "with_cycles cs (s\<lparr>st_last_seen := ls, st_topology := tp\<rparr>) = (with_cycles cs s)\<lparr>st_last_seen := ls, st_topology := tp\<rparr>" for ls tp
      by simp
    have "gathered_info_update rx n i (s\<lparr>st_last_seen := dict_set (st_last_seen s) n w, st_topology := add_node rx n (st_topology s)\<rparr>) = Inr t"
      using assms(3) by (simp add: NodeGatheredInfo apply_node_gathered_info_def)
    from gathered_at_order [OF assms(1,2) this, of cs, unfolded eq] show ?thesis
      by (simp add: s' NodeGatheredInfo apply_node_gathered_info_def)
  next
    case (RunnerStatusUpdated rid st)
    then show ?thesis using assms(3) by (auto simp: s' runner_status_cycles agree_iff)
  qed (use assms(3) in \<open>auto simp: s' apply_defs agree_but_cycles_def split: option.splits\<close>)
qed

lemma apply_event_at_order:
  assumes "lists_set (set_order rx)" "lists_set ord" "apply_event rx s e = Inr t" "agree_but_cycles s s'"
  shows "\<exists>t'. apply_event (at_order rx ord) s' e = Inr t' \<and> agree_but_cycles t t'"
proof -
  obtain t0 where t0: "last_event_applied_idx s = ie_idx e - 1" "event_apply rx (event_body (ie_event e)) s = Inr t0"
    "t = t0\<lparr>last_event_applied_idx := ie_idx e\<rparr>" using assms(3) by (auto simp: apply_event_def split: if_splits)
  from event_apply_at_order [OF assms(1,2) t0(2) assms(4)] obtain cs
    where "event_apply (at_order rx ord) (event_body (ie_event e)) s' = Inr (with_cycles cs t0)" by (auto simp: agree_iff)
  moreover have "last_event_applied_idx s' = last_event_applied_idx s" using assms(4) by (auto simp: agree_iff)
  ultimately have "apply_event (at_order rx ord) s' e = Inr ((with_cycles cs t0)\<lparr>last_event_applied_idx := ie_idx e\<rparr>)"
    using t0(1) by (simp add: apply_event_def)
  moreover have "(with_cycles cs t0)\<lparr>last_event_applied_idx := ie_idx e\<rparr> = with_cycles cs t" using t0(3) by simp
  ultimately show ?thesis unfolding agree_iff by metis
qed

text \<open>Two processes that replay the same events.\<close>

lemma replay_at_order:
  assumes "lists_set (set_order rx)" "lists_set ord"
  shows "rfold (apply_event rx) s es = Inr t \<Longrightarrow> agree_but_cycles s s' \<Longrightarrow>
    \<exists>t'. rfold (apply_event (at_order rx ord)) s' es = Inr t' \<and> agree_but_cycles t t'"
proof (induction es arbitrary: s s')
  case (Cons e es)
  then obtain s1 where s1: "apply_event rx s e = Inr s1" "rfold (apply_event rx) s1 es = Inr t" by auto
  from apply_event_at_order [OF assms s1(1) Cons.prems(2)] obtain s2
    where "apply_event (at_order rx ord) s' e = Inr s2" "agree_but_cycles s1 s2" by blast
  with Cons.IH [OF s1(2)] show ?case by auto
qed simp

lemma init_at_order: "init_state (at_order rx ord) = init_state rx" "agree_but_cycles (init_state rx) (init_state rx)"
  by (simp_all add: init_state_def agree_but_cycles_def)

text \<open>The recorded cycles do differ: two nodes with an RDMA connection each way, and two orders of the same set.\<close>

definition rdma_pair :: "ref_graph topology" where
  "rdma_pair = (case rfold (add_connection ref_env) (new_topology ref_env)
     [\<lparr>conn_source = ''a'', conn_sink = ''b'', conn_edge = RDMAConnection ''i'' ''j''\<rparr>,
      \<lparr>conn_source = ''b'', conn_sink = ''a'', conn_edge = RDMAConnection ''j'' ''i''\<rparr>] of Inr t \<Rightarrow> t | Inl _ \<Rightarrow> new_topology ref_env)"

definition bridged :: "(node_id, thunderbolt_bridge_status) dict" where
  "bridged = map (\<lambda>n. (n, \<lparr>bridge_enabled = True, bridge_exists = True, bridge_service_name = None\<rparr>)) [''a'', ''b'']"

lemma cycles_depend_on_order:
  "get_thunderbolt_bridge_cycles ref_env rdma_pair bridged [] = Inr [[''a'', ''b'']]"
  "get_thunderbolt_bridge_cycles (at_order ref_env (rev \<circ> remdups)) rdma_pair bridged [] = Inr [[''b'', ''a'']]"
  by code_simp+

end
