(* ===== verification/Event_Buffer.thy ===== *)
theory Event_Buffer
  imports Prelude
begin

text \<open>
  The resequencing buffers of \<^verbatim>\<open>src/exo/utils/event_buffer.py\<close>. An \<open>ordered_buffer\<close> holds
  events that arrived ahead of their turn in a dictionary keyed by index and releases them
  strictly in index order; a \<open>multi_source_buffer\<close> keeps one ordered buffer per source.

  The locale \<open>resequencer\<close> is the contract the routing layer relies on: what an ingest and a
  drain do to the next index to release and to the events held back. Its lemmas say what a
  consumer of any such buffer sees when every message is taken from one log: the released events
  are always a prefix of the log, in order and without repetition, whatever the arrival order,
  the duplicates and the polling times, and nothing that has arrived contiguously stays behind.
\<close>

section \<open>OrderedBuffer\<close>

record 'a ordered_buffer =
  store :: "(int, 'a) dict"
  next_idx_to_release :: int

definition ob_init :: "'a ordered_buffer" where
  "ob_init = \<lparr>store = [], next_idx_to_release = 0\<rparr>"

definition ob_ingest :: "int \<Rightarrow> 'a \<Rightarrow> 'a ordered_buffer \<Rightarrow> 'a ordered_buffer result" where
  "ob_ingest idx t b =
     (if idx < next_idx_to_release b then Inr b
      else case dict_get (store b) idx of
        Some t' \<Rightarrow>
          rbind (rassert ''Received different messages with identical indices'' (t' = t))
            (\<lambda>_. Inr b)
      | None \<Rightarrow> Inr (b\<lparr>store := dict_set (store b) idx t\<rparr>))"

definition ob_pop_next :: "'a ordered_buffer \<Rightarrow> 'a ordered_buffer" where
  "ob_pop_next b =
     b\<lparr>store := dict_del (store b) (next_idx_to_release b),
       next_idx_to_release := next_idx_to_release b + 1\<rparr>"

function ob_drain :: "'a ordered_buffer \<Rightarrow> 'a list \<times> 'a ordered_buffer" where
  "ob_drain b =
     (case dict_get (store b) (next_idx_to_release b) of
        None \<Rightarrow> ([], b)
      | Some event \<Rightarrow>
          (let (ret, b') = ob_drain (ob_pop_next b) in (event # ret, b')))"
  by pat_completeness auto
termination
  by (relation "measure (\<lambda>b. length (store b))") (auto simp: ob_pop_next_def length_dict_del)

function ob_drain_indexed :: "'a ordered_buffer \<Rightarrow> (int \<times> 'a) list \<times> 'a ordered_buffer" where
  "ob_drain_indexed b =
     (case dict_get (store b) (next_idx_to_release b) of
        None \<Rightarrow> ([], b)
      | Some event \<Rightarrow>
          (let (ret, b') = ob_drain_indexed (ob_pop_next b)
           in ((next_idx_to_release b, event) # ret, b')))"
  by pat_completeness auto
termination
  by (relation "measure (\<lambda>b. length (store b))") (auto simp: ob_pop_next_def length_dict_del)

declare ob_drain.simps [simp del] ob_drain_indexed.simps [simp del]

section \<open>MultiSourceBuffer\<close>

record ('s, 'a) multi_source_buffer =
  stores :: "('s, 'a ordered_buffer) dict"

definition msb_init :: "('s, 'a) multi_source_buffer" where
  "msb_init = \<lparr>stores = []\<rparr>"

definition msb_ingest ::
  "int \<Rightarrow> 'a \<Rightarrow> 's \<Rightarrow> ('s, 'a) multi_source_buffer \<Rightarrow> ('s, 'a) multi_source_buffer result" where
  "msb_ingest idx t source m =
     (let buffer = dict_get_default (stores m) source ob_init
      in rbind (ob_ingest idx t buffer)
           (\<lambda>buffer'. Inr (m\<lparr>stores := dict_set (stores m) source buffer'\<rparr>)))"

fun drain_stores ::
  "('s, 'a ordered_buffer) dict \<Rightarrow> 'a list \<times> ('s, 'a ordered_buffer) dict" where
  "drain_stores [] = ([], [])"
| "drain_stores ((s, b) # d) =
     (let (ret, b') = ob_drain b; (rest, d') = drain_stores d in (ret @ rest, (s, b') # d'))"

definition msb_drain ::
  "('s, 'a) multi_source_buffer \<Rightarrow> 'a list \<times> ('s, 'a) multi_source_buffer" where
  "msb_drain m = (let (ret, d) = drain_stores (stores m) in (ret, m\<lparr>stores := d\<rparr>))"

section \<open>Histories of buffer operations\<close>

datatype 'a buf_op = Ingest int 'a | Drain

text \<open>Running a history against any buffer: the released events, and the buffer at the end.\<close>

fun buf_run ::
  "(int \<Rightarrow> 'a \<Rightarrow> 'b \<Rightarrow> 'b result) \<Rightarrow> ('b \<Rightarrow> (int \<times> 'a) list \<times> 'b) \<Rightarrow>
   'b \<Rightarrow> 'a buf_op list \<Rightarrow> ((int \<times> 'a) list \<times> 'b) result" where
  "buf_run ing dr b [] = Inr ([], b)"
| "buf_run ing dr b (Ingest i t # ops) = rbind (ing i t b) (\<lambda>b'. buf_run ing dr b' ops)"
| "buf_run ing dr b (Drain # ops) =
     (let (out, b') = dr b
      in rbind (buf_run ing dr b' ops) (\<lambda>(rest, b''). Inr (out @ rest, b'')))"

text \<open>Every message of the history is an entry of the log under its own index.\<close>

fun op_from_log :: "'a list \<Rightarrow> 'a buf_op \<Rightarrow> bool" where
  "op_from_log L (Ingest i t) = (0 \<le> i \<and> i < int (length L) \<and> t = L ! nat i)"
| "op_from_log L Drain = True"

definition ops_from_log :: "'a list \<Rightarrow> 'a buf_op list \<Rightarrow> bool" where
  "ops_from_log L ops = list_all (op_from_log L) ops"

definition ingested :: "'a buf_op list \<Rightarrow> int set" where
  "ingested ops = {i. \<exists>t. Ingest i t \<in> set ops}"

text \<open>The first \<open>n\<close> entries of a log, each with its index.\<close>

definition indexed_prefix :: "'a list \<Rightarrow> nat \<Rightarrow> (int \<times> 'a) list" where
  "indexed_prefix L n = map (\<lambda>k. (int k, L ! k)) [0..<n]"

lemma buf_run_append:
  "buf_run ing dr b (xs @ ys) =
     rbind (buf_run ing dr b xs)
       (\<lambda>(o1, b1). rbind (buf_run ing dr b1 ys) (\<lambda>(o2, b2). Inr (o1 @ o2, b2)))"
proof (induction ing dr b xs rule: buf_run.induct)
  case (1 ing dr b)
  then show ?case by (cases "buf_run ing dr b ys") auto
next
  case (2 ing dr b i t ops)
  then show ?case by (cases "ing i t b") auto
next
  case (3 ing dr b ops)
  obtain o1 b1 where d: "dr b = (o1, b1)" by fastforce
  from 3 [OF d [symmetric] refl] d show ?case
    by (cases "buf_run ing dr b1 ops")
       (auto simp: rbind_assoc split: prod.splits intro!: rbind_cong)
qed

section \<open>The contract of a resequencing buffer\<close>

locale resequencer =
  fixes fresh :: "'b"
    and ingest :: "int \<Rightarrow> 'a \<Rightarrow> 'b \<Rightarrow> 'b result"
    and drain :: "'b \<Rightarrow> (int \<times> 'a) list \<times> 'b"
    and next_idx :: "'b \<Rightarrow> int"
    and held :: "'b \<Rightarrow> int \<Rightarrow> 'a option"
  assumes next_fresh: "next_idx fresh = 0"
    and held_fresh: "held fresh i = None"
    and ingest_released: "i < next_idx b \<Longrightarrow> ingest i t b = Inr b"
    and ingest_again: "next_idx b \<le> i \<Longrightarrow> held b i = Some t \<Longrightarrow> ingest i t b = Inr b"
    and ingest_new: "next_idx b \<le> i \<Longrightarrow> held b i = None \<Longrightarrow>
      \<exists>b'. ingest i t b = Inr b' \<and> next_idx b' = next_idx b \<and> held b' = (held b)(i \<mapsto> t)"
    and drain_entry: "drain b = (out, b') \<Longrightarrow> k < length out \<Longrightarrow>
      fst (out ! k) = next_idx b + int k \<and> held b (next_idx b + int k) = Some (snd (out ! k))"
    and drain_next: "drain b = (out, b') \<Longrightarrow> next_idx b' = next_idx b + int (length out)"
    and drain_stops: "drain b = (out, b') \<Longrightarrow> held b (next_idx b') = None"
    and drain_held: "drain b = (out, b') \<Longrightarrow>
      held b' i = (if next_idx b \<le> i \<and> i < next_idx b' then None else held b i)"
begin

definition agrees :: "'a list \<Rightarrow> nat \<Rightarrow> 'b \<Rightarrow> bool" where
  "agrees L n b \<longleftrightarrow> next_idx b = int n \<and> n \<le> length L \<and>
     (\<forall>i t. held b i = Some t \<longrightarrow> int n \<le> i \<and> i < int (length L) \<and> t = L ! nat i)"

text \<open>The index has been received: it was released, or it is held back.\<close>

definition received :: "nat \<Rightarrow> 'b \<Rightarrow> int \<Rightarrow> bool" where
  "received n b j \<longleftrightarrow> j < int n \<or> held b j \<noteq> None"

lemma agrees_fresh: "agrees L 0 fresh"
  by (simp add: agrees_def next_fresh held_fresh)

lemma agrees_ingest:
  assumes "agrees L n b" "0 \<le> i" "i < int (length L)"
  shows "\<exists>b'. ingest i (L ! nat i) b = Inr b' \<and> agrees L n b' \<and>
    (\<forall>j. j = i \<or> received n b j \<longrightarrow> received n b' j)"
proof -
  consider "i < next_idx b" | "next_idx b \<le> i" "held b i = None"
    | t where "next_idx b \<le> i" "held b i = Some t"
    by force
  then show ?thesis
  proof cases
    case 1
    with assms show ?thesis by (auto simp: ingest_released agrees_def received_def)
  next
    case 2
    with assms ingest_new [of b i "L ! nat i"] show ?thesis
      by (fastforce simp: agrees_def received_def)
  next
    case 3
    with assms have "t = L ! nat i" by (auto simp: agrees_def)
    with 3 assms show ?thesis by (auto simp: ingest_again received_def)
  qed
qed

lemma agrees_drain:
  assumes "agrees L n b" "drain b = (out, b')"
  shows "\<exists>m. n \<le> m \<and> agrees L m b' \<and> indexed_prefix L n @ out = indexed_prefix L m \<and>
    (\<forall>j. received n b j \<longrightarrow> received m b' j)"
proof -
  let ?m = "n + length out"
  have nx: "next_idx b = int n" and nx': "next_idx b' = int ?m"
    using assms drain_next [OF assms(2)] by (auto simp: agrees_def)
  have entry: "out ! k = (int (n + k), L ! (n + k)) \<and> n + k < length L" if "k < length out" for k
  proof -
    from drain_entry [OF assms(2) that] nx have
      f: "fst (out ! k) = int (n + k)" and h: "held b (int (n + k)) = Some (snd (out ! k))"
      by auto
    from h assms(1) have "int (n + k) < int (length L) \<and> snd (out ! k) = L ! nat (int (n + k))"
      unfolding agrees_def by blast
    with f show ?thesis by (simp add: prod_eq_iff del: of_nat_add)
  qed
  have "?m \<le> length L"
    using entry [of "length out - 1"] assms(1) by (cases "length out") (auto simp: agrees_def)
  then have "agrees L ?m b'"
    using assms(1) nx nx' by (auto simp: agrees_def drain_held [OF assms(2)] split: if_splits)
  moreover have "indexed_prefix L n @ out = indexed_prefix L ?m"
    by (rule nth_equalityI) (auto simp: indexed_prefix_def nth_append entry)
  ultimately show ?thesis
    using nx nx' by (intro exI [of _ ?m]) (auto simp: drain_held [OF assms(2)] received_def)
qed

text \<open>
  Safety: a history of messages taken from one log never fails, and what it releases extends
  what was released before to a longer prefix of the log.
\<close>

lemma run_from:
  assumes "agrees L n b" "list_all (op_from_log L) ops"
  shows "\<exists>out b' m. buf_run ingest drain b ops = Inr (out, b') \<and> n \<le> m \<and> agrees L m b' \<and>
    indexed_prefix L n @ out = indexed_prefix L m \<and>
    (\<forall>j. received n b j \<or> j \<in> ingested ops \<longrightarrow> received m b' j)"
  using assms
proof (induction ops arbitrary: n b)
  case Nil
  then show ?case by (auto simp: ingested_def)
next
  case (Cons op ops)
  show ?case
  proof (cases op)
    case (Ingest i t)
    with Cons.prems have it: "0 \<le> i" "i < int (length L)" "t = L ! nat i" by auto
    obtain b1 where b1: "ingest i t b = Inr b1" "agrees L n b1"
      "\<forall>j. j = i \<or> received n b j \<longrightarrow> received n b1 j"
      using agrees_ingest [OF Cons.prems(1) it(1,2)] it(3) by blast
    have "list_all (op_from_log L) ops" using Cons.prems by simp
    from Cons.IH [OF b1(2) this] obtain out b' m where
      "buf_run ingest drain b1 ops = Inr (out, b')" "n \<le> m" "agrees L m b'"
      "indexed_prefix L n @ out = indexed_prefix L m"
      "\<forall>j. received n b1 j \<or> j \<in> ingested ops \<longrightarrow> received m b' j"
      by blast
    with b1 Ingest show ?thesis
      by (intro exI [of _ out] exI [of _ b'] exI [of _ m]) (auto simp: ingested_def)
  next
    case Drain
    obtain out1 b1 where d: "drain b = (out1, b1)" by fastforce
    from agrees_drain [OF Cons.prems(1) d] obtain m1 where m1: "n \<le> m1" "agrees L m1 b1"
      "indexed_prefix L n @ out1 = indexed_prefix L m1"
      "\<forall>j. received n b j \<longrightarrow> received m1 b1 j"
      by blast
    have "list_all (op_from_log L) ops" using Cons.prems by simp
    from Cons.IH [OF m1(2) this] obtain out b' m where r:
      "buf_run ingest drain b1 ops = Inr (out, b')" "m1 \<le> m" "agrees L m b'"
      "indexed_prefix L m1 @ out = indexed_prefix L m"
      "\<forall>j. received m1 b1 j \<or> j \<in> ingested ops \<longrightarrow> received m b' j"
      by blast
    have ing: "ingested (op # ops) = ingested ops"
      using Drain by (auto simp: ingested_def)
    have "indexed_prefix L n @ (out1 @ out) = indexed_prefix L m"
      using m1(3) r(4) by (metis append_assoc)
    with d m1 r Drain ing show ?thesis
      by (intro exI [of _ "out1 @ out"] exI [of _ b'] exI [of _ m]) auto
  qed
qed

lemma run_releases_prefix:
  assumes "ops_from_log L ops"
  shows "\<exists>b n. buf_run ingest drain fresh ops = Inr (indexed_prefix L n, b) \<and>
    next_idx b = int n \<and> n \<le> length L"
  using run_from [OF agrees_fresh assms [unfolded ops_from_log_def]]
  by (fastforce simp: agrees_def indexed_prefix_def)

text \<open>
  Progress: once the indices below \<open>m\<close> have all been received, the next drain leaves none of them
  behind.
\<close>

lemma run_then_drain_complete:
  assumes "ops_from_log L ops" and "{0..<int m} \<subseteq> ingested ops"
  shows "\<exists>b n. buf_run ingest drain fresh (ops @ [Drain]) = Inr (indexed_prefix L n, b) \<and> m \<le> n"
proof -
  from run_from [OF agrees_fresh assms(1) [unfolded ops_from_log_def]] obtain out b n where r:
    "buf_run ingest drain fresh ops = Inr (out, b)" "agrees L n b"
    "indexed_prefix L 0 @ out = indexed_prefix L n"
    "\<forall>j. j \<in> ingested ops \<longrightarrow> received n b j"
    by blast
  obtain out1 b1 where d: "drain b = (out1, b1)" by fastforce
  from agrees_drain [OF r(2) d] obtain k where k: "n \<le> k" "agrees L k b1"
    "indexed_prefix L n @ out1 = indexed_prefix L k" by blast
  have "m \<le> k"
  proof (rule ccontr)
    assume "\<not> m \<le> k"
    then have "int k \<in> {0..<int m}" by simp
    with assms(2) have "int k \<in> ingested ops" by blast
    with r(4) k(1) have "held b (int k) \<noteq> None" by (auto simp: received_def)
    moreover have "held b (int k) = None"
      using drain_stops [OF d] k(2) by (simp add: agrees_def)
    ultimately show False by simp
  qed
  with r d k show ?thesis
    by (intro exI [of _ b1] exI [of _ k]) (simp add: indexed_prefix_def buf_run_append)
qed

end

section \<open>OrderedBuffer meets the contract\<close>

lemma ob_drain_indexed_None:
  "dict_get (store b) (next_idx_to_release b) = None \<Longrightarrow> ob_drain_indexed b = ([], b)"
  by (simp add: ob_drain_indexed.simps)

lemma ob_drain_indexed_Some:
  "dict_get (store b) (next_idx_to_release b) = Some e \<Longrightarrow>
   ob_drain_indexed b =
     (let (ret, b') = ob_drain_indexed (ob_pop_next b) in ((next_idx_to_release b, e) # ret, b'))"
  by (simp add: ob_drain_indexed.simps [of b])

lemma ob_drain_indexed_spec:
  assumes "ob_drain_indexed b = (out, b')"
  shows "next_idx_to_release b' = next_idx_to_release b + int (length out) \<and>
    dict_get (store b) (next_idx_to_release b') = None \<and>
    (\<forall>k<length out. fst (out ! k) = next_idx_to_release b + int k \<and>
       dict_get (store b) (next_idx_to_release b + int k) = Some (snd (out ! k))) \<and>
    (\<forall>i. dict_get (store b') i =
       (if next_idx_to_release b \<le> i \<and> i < next_idx_to_release b' then None
        else dict_get (store b) i))"
  using assms
proof (induction b arbitrary: out b' rule: ob_drain_indexed.induct)
  case (1 b)
  show ?case
  proof (cases "dict_get (store b) (next_idx_to_release b)")
    case None
    with 1 show ?thesis by (auto simp: ob_drain_indexed_None)
  next
    case (Some e)
    obtain ret where ret: "ob_drain_indexed (ob_pop_next b) = (ret, b')"
      and out: "out = (next_idx_to_release b, e) # ret"
      using "1.prems" Some by (auto simp: ob_drain_indexed_Some split: prod.splits)
    note IH = "1.IH" [OF Some ret]
    have nx: "next_idx_to_release (ob_pop_next b) = next_idx_to_release b + 1"
      and st: "dict_get (store (ob_pop_next b)) i =
        (if i = next_idx_to_release b then None else dict_get (store b) i)" for i
      by (simp_all add: ob_pop_next_def)
    from IH Some show ?thesis
      by (auto simp: out nx st nth_Cons add.commute add.left_commute
          split: nat.splits if_splits)
  qed
qed

lemma ob_drain_eq: "ob_drain b = (map snd (fst (ob_drain_indexed b)), snd (ob_drain_indexed b))"
proof (induction b rule: ob_drain.induct)
  case (1 b)
  then show ?case
    by (cases "dict_get (store b) (next_idx_to_release b)")
       (auto simp: ob_drain.simps [of b] ob_drain_indexed.simps [of b] split: prod.splits)
qed

interpretation ob: resequencer
  ob_init ob_ingest ob_drain_indexed next_idx_to_release "\<lambda>b. dict_get (store b)"
proof (unfold_locales, goal_cases)
  case (6 b out b' k)
  then show ?case using ob_drain_indexed_spec by blast
next
  case (7 b out b')
  then show ?case using ob_drain_indexed_spec by blast
next
  case (8 b out b')
  then show ?case using ob_drain_indexed_spec by blast
next
  case (9 b out b' i)
  then show ?case using ob_drain_indexed_spec by blast
qed (auto simp: ob_init_def ob_ingest_def fun_eq_iff)

section \<open>MultiSourceBuffer: one resequencer per source\<close>

datatype ('s, 'a) msb_op = MIngest 's int 'a | MDrain

fun msb_run ::
  "('s, 'a) multi_source_buffer \<Rightarrow> ('s, 'a) msb_op list \<Rightarrow>
   ('a list \<times> ('s, 'a) multi_source_buffer) result" where
  "msb_run m [] = Inr ([], m)"
| "msb_run m (MIngest s i t # ops) = rbind (msb_ingest i t s m) (\<lambda>m'. msb_run m' ops)"
| "msb_run m (MDrain # ops) =
     (let (out, m') = msb_drain m
      in rbind (msb_run m' ops) (\<lambda>(rest, m''). Inr (out @ rest, m'')))"

text \<open>Source \<open>s\<close> sends the entries of its own log, which carry its name, under their indices.\<close>

fun msb_op_from_logs :: "('a \<Rightarrow> 's) \<Rightarrow> ('s \<Rightarrow> 'a list) \<Rightarrow> ('s, 'a) msb_op \<Rightarrow> bool" where
  "msb_op_from_logs src L (MIngest s i t) =
     (0 \<le> i \<and> i < int (length (L s)) \<and> t = L s ! nat i \<and> src t = s)"
| "msb_op_from_logs src L MDrain = True"

definition buf_of :: "('s, 'a) multi_source_buffer \<Rightarrow> 's \<Rightarrow> 'a ordered_buffer" where
  "buf_of m s = dict_get_default (stores m) s ob_init"

definition msb_agrees ::
  "('a \<Rightarrow> 's) \<Rightarrow> ('s \<Rightarrow> 'a list) \<Rightarrow> ('s \<Rightarrow> nat) \<Rightarrow> ('s, 'a) multi_source_buffer \<Rightarrow> bool" where
  "msb_agrees src L n m \<longleftrightarrow> wf_dict (stores m) \<and>
     (\<forall>s. ob.agrees (L s) (n s) (buf_of m s) \<and>
        (\<forall>i t. dict_get (store (buf_of m s)) i = Some t \<longrightarrow> src t = s))"

lemma map_snd_indexed_prefix: "n \<le> length L \<Longrightarrow> map snd (indexed_prefix L n) = take n L"
  by (rule nth_equalityI) (auto simp: indexed_prefix_def)

lemma ob_drain_init: "ob_drain ob_init = ([], ob_init)"
  by (simp add: ob_drain.simps ob_init_def)

lemma buf_of_ingest:
  "msb_ingest i t s m = Inr m' \<Longrightarrow>
   \<exists>b. ob_ingest i t (buf_of m s) = Inr b \<and> (\<forall>x. buf_of m' x = (if x = s then b else buf_of m x)) \<and>
     (wf_dict (stores m) \<longrightarrow> wf_dict (stores m'))"
  by (auto simp: msb_ingest_def Let_def buf_of_def dict_get_default_def split: option.splits)

lemma drained_elements:
  assumes "ob_drain b = (out, b')" "t \<in> set out"
  shows "\<exists>i. dict_get (store b) i = Some t"
proof -
  obtain outi where o: "ob_drain_indexed b = (outi, b')" "out = map snd outi"
    using assms(1) by (auto simp: ob_drain_eq prod_eq_iff)
  with assms(2) obtain k where "k < length outi" "t = snd (outi ! k)"
    by (auto simp: in_set_conv_nth)
  with ob_drain_indexed_spec [OF o(1)] show ?thesis by blast
qed

lemma drain_stores_spec:
  assumes "wf_dict d" "drain_stores d = (ret, d')"
    and "\<And>s b i t. dict_get d s = Some b \<Longrightarrow> dict_get (store b) i = Some t \<Longrightarrow> src t = s"
  shows "wf_dict d' \<and> map fst d' = map fst d \<and>
    (\<forall>s. dict_get d' s = map_option (\<lambda>b. snd (ob_drain b)) (dict_get d s)) \<and>
    (\<forall>s. filter (\<lambda>t. src t = s) ret = (case dict_get d s of None \<Rightarrow> [] | Some b \<Rightarrow> fst (ob_drain b)))"
  using assms
proof (induction d arbitrary: ret d')
  case (Cons p d)
  obtain s b where p: "p = (s, b)" by (cases p)
  obtain r b' where r: "ob_drain b = (r, b')" by fastforce
  obtain rest d1 where d1: "drain_stores d = (rest, d1)" by fastforce
  have ret: "ret = r @ rest" "d' = (s, b') # d1" using Cons.prems(2) by (auto simp: p r d1)
  have wf: "wf_dict d" "s \<notin> fst ` set d" using Cons.prems(1) by (auto simp: p wf_dict_def)
  have none: "dict_get d s = None" using wf(2) by (simp add: map_of_eq_None_iff)
  have src: "src t = x" if "dict_get d x = Some c" "dict_get (store c) i = Some t" for x c i t
    using Cons.prems(3) [of x c i t] that none by (cases "x = s") (auto simp: p)
  from Cons.IH [OF wf(1) d1 src] have IH: "wf_dict d1" "map fst d1 = map fst d"
    "\<And>x. dict_get d1 x = map_option (\<lambda>b. snd (ob_drain b)) (dict_get d x)"
    "\<And>x. filter (\<lambda>t. src t = x) rest = (case dict_get d x of None \<Rightarrow> [] | Some b \<Rightarrow> fst (ob_drain b))"
    by auto
  have "src t = s" if "t \<in> set r" for t
    using drained_elements [OF r that] Cons.prems(3) [of s b] by (auto simp: p)
  then have fr: "filter (\<lambda>t. src t = x) r = (if x = s then r else [])" for x
    by (auto simp: filter_empty_conv filter_id_conv)
  have "wf_dict d'" using wf(2) IH(1,2) by (simp add: ret p wf_dict_def flip: set_map)
  with none IH show ?case by (auto simp: p ret r fr)
qed simp

lemma msb_drain_agrees:
  assumes "msb_agrees src L n m" "msb_drain m = (out, m')"
  shows "\<exists>k. msb_agrees src L k m' \<and> (\<forall>s. n s \<le> k s \<and> k s \<le> length (L s) \<and>
    take (n s) (L s) @ filter (\<lambda>t. src t = s) out = take (k s) (L s))"
proof -
  obtain d' where d': "drain_stores (stores m) = (out, d')" and m': "m' = m\<lparr>stores := d'\<rparr>"
    using assms(2) by (auto simp: msb_drain_def split: prod.splits)
  have tagged: "src t = s" if "dict_get (stores m) s = Some b" "dict_get (store b) i = Some t" for s b i t
    using assms(1) that unfolding msb_agrees_def buf_of_def dict_get_default_def by fastforce
  note sp = drain_stores_spec [of _ _ _ src, OF conjunct1 [OF assms(1) [unfolded msb_agrees_def]] d' tagged]
  have buf: "buf_of m' s = snd (ob_drain (buf_of m s))"
    "filter (\<lambda>t. src t = s) out = fst (ob_drain (buf_of m s))" for s
    using sp by (auto simp: m' buf_of_def dict_get_default_def ob_drain_init split: option.splits)
  have "\<exists>k. n s \<le> k \<and> ob.agrees (L s) k (buf_of m' s) \<and>
      take (n s) (L s) @ filter (\<lambda>t. src t = s) out = take k (L s)" for s
  proof -
    have ag: "ob.agrees (L s) (n s) (buf_of m s)" using assms(1) by (simp add: msb_agrees_def)
    obtain o1 b1 where o1: "ob_drain_indexed (buf_of m s) = (o1, b1)" by fastforce
    from ob.agrees_drain [OF ag o1] obtain k where k: "n s \<le> k" "ob.agrees (L s) k b1"
      "indexed_prefix (L s) (n s) @ o1 = indexed_prefix (L s) k" by blast
    have le: "k \<le> length (L s)" "n s \<le> length (L s)" using k(2) ag by (auto simp: ob.agrees_def)
    have "take (n s) (L s) @ map snd o1 = take k (L s)"
      using arg_cong [OF k(3), of "map snd"] le by (simp add: map_snd_indexed_prefix)
    with k o1 show ?thesis by (auto simp: buf ob_drain_eq)
  qed
  then obtain k where k: "\<forall>s. n s \<le> k s \<and> ob.agrees (L s) (k s) (buf_of m' s) \<and>
      take (n s) (L s) @ filter (\<lambda>t. src t = s) out = take (k s) (L s)" by metis
  have "src t = s" if "dict_get (store (buf_of m' s)) i = Some t" for s i t
  proof -
    obtain o1 where "ob_drain_indexed (buf_of m s) = (o1, buf_of m' s)"
      by (metis buf(1) ob_drain_eq prod.exhaust_sel snd_conv)
    from ob_drain_indexed_spec [OF this] that have "dict_get (store (buf_of m s)) i = Some t"
      by (metis option.distinct(1))
    with assms(1) show ?thesis by (auto simp: msb_agrees_def)
  qed
  with k sp have "msb_agrees src L k m'" by (simp add: msb_agrees_def m')
  moreover have "k s \<le> length (L s)" for s using k by (auto simp: ob.agrees_def)
  ultimately show ?thesis using k by blast
qed

lemma msb_run_from:
  assumes "msb_agrees src L n m" "list_all (msb_op_from_logs src L) ops"
  shows "\<exists>out m' k. msb_run m ops = Inr (out, m') \<and> msb_agrees src L k m' \<and>
    (\<forall>s. k s \<le> length (L s) \<and> take (n s) (L s) @ filter (\<lambda>t. src t = s) out = take (k s) (L s))"
  using assms
proof (induction ops arbitrary: n m)
  case Nil
  then show ?case by (auto simp: msb_agrees_def ob.agrees_def)
next
  case (Cons op ops)
  show ?case
  proof (cases op)
    case (MIngest s i t)
    with Cons.prems have it: "0 \<le> i" "i < int (length (L s))" "t = L s ! nat i" "src t = s" by auto
    have ag: "ob.agrees (L s) (n s) (buf_of m s)" using Cons.prems(1) by (simp add: msb_agrees_def)
    obtain b where b: "ob_ingest i t (buf_of m s) = Inr b" "ob.agrees (L s) (n s) b"
      using ob.agrees_ingest [OF ag it(1,2)] it(3) by blast
    then obtain m1 where m1: "msb_ingest i t s m = Inr m1"
      by (auto simp: msb_ingest_def buf_of_def Let_def)
    from buf_of_ingest [OF m1] b(1) have bm: "buf_of m1 x = (if x = s then b else buf_of m x)" for x by auto
    have "src u = s" if "dict_get (store b) j = Some u" for j u
      using b(1) that it(4) Cons.prems(1)
      by (auto simp: ob_ingest_def msb_agrees_def split: if_splits option.splits)
    with b(2) bm buf_of_ingest [OF m1] Cons.prems(1) have "msb_agrees src L n m1"
      by (auto simp: msb_agrees_def)
    with Cons m1 MIngest show ?thesis by auto
  next
    case MDrain
    obtain o1 m1 where d: "msb_drain m = (o1, m1)" by fastforce
    from msb_drain_agrees [OF Cons.prems(1) d] obtain k1 where k1: "msb_agrees src L k1 m1"
      "\<forall>s. take (n s) (L s) @ filter (\<lambda>t. src t = s) o1 = take (k1 s) (L s)" by blast
    with Cons obtain out m' k where "msb_run m1 ops = Inr (out, m')" "msb_agrees src L k m'"
      "\<forall>s. k s \<le> length (L s) \<and> take (k1 s) (L s) @ filter (\<lambda>t. src t = s) out = take (k s) (L s)"
      by (metis list_all_iff list.set_intros(2))
    moreover have "take (n s) (L s) @ filter (\<lambda>t. src t = s) (o1 @ out) =
        take (k1 s) (L s) @ filter (\<lambda>t. src t = s) out" for s
      using k1(2) by (metis append_assoc filter_append)
    ultimately show ?thesis using d MDrain by (intro exI [of _ "o1 @ out"] exI [of _ m'] exI [of _ k]) simp
  qed
qed

section \<open>Properties\<close>

text \<open>
  C35: whatever the order in which the entries of a log arrive, with repetitions, and however often
  the buffer is polled, no operation raises and what \<^verbatim>\<open>OrderedBuffer.drain_indexed\<close> has released is
  exactly the first \<open>n\<close> entries of the log, in order, each once and under its own index.
\<close>

theorem ordered_buffer_releases_prefix:
  assumes "ops_from_log L ops"
  shows "\<exists>b n. buf_run ob_ingest ob_drain_indexed ob_init ops = Inr (indexed_prefix L n, b) \<and>
    next_idx_to_release b = int n \<and> n \<le> length L"
  by (rule ob.run_releases_prefix [OF assms])

theorem ordered_buffer_releases_prefix_witness:
  "\<exists>b n. buf_run ob_ingest ob_drain_indexed ob_init
      [Ingest 1 CHR ''b'', Drain, Ingest 0 CHR ''a'', Ingest 1 CHR ''b'', Drain] =
      Inr (indexed_prefix ''abc'' n, b) \<and> next_idx_to_release b = int n \<and> n \<le> length ''abc''"
  by (rule ordered_buffer_releases_prefix) (simp add: ops_from_log_def)

text \<open>
  Nothing that has arrived contiguously stays behind: once every index below \<open>m\<close> has been
  ingested, the next drain brings the released events to at least \<open>m\<close>.
\<close>

theorem ordered_buffer_drain_complete:
  assumes "ops_from_log L ops" "{0..<int m} \<subseteq> ingested ops"
  shows "\<exists>b n. buf_run ob_ingest ob_drain_indexed ob_init (ops @ [Drain]) = Inr (indexed_prefix L n, b) \<and> m \<le> n"
  by (rule ob.run_then_drain_complete [OF assms])

theorem ordered_buffer_drain_complete_witness:
  "\<exists>b n. buf_run ob_ingest ob_drain_indexed ob_init [Ingest 1 CHR ''b'', Ingest 0 CHR ''a'', Drain] =
      Inr (indexed_prefix ''abc'' n, b) \<and> 2 \<le> n"
proof -
  have "{0..<int 2} \<subseteq> ingested [Ingest 1 CHR ''b'', Ingest 0 CHR ''a'']"
  proof
    fix i :: int
    assume "i \<in> {0..<int 2}"
    then have "i = 0 \<or> i = 1" by auto
    then show "i \<in> ingested [Ingest 1 CHR ''b'', Ingest 0 CHR ''a'']" by (auto simp: ingested_def)
  qed
  moreover have "ops_from_log ''abc'' [Ingest 1 CHR ''b'', Ingest 0 CHR ''a'']"
    by (simp add: ops_from_log_def)
  ultimately show ?thesis
    using ordered_buffer_drain_complete [of "''abc''" "[Ingest 1 CHR ''b'', Ingest 0 CHR ''a'']" 2]
    unfolding append_Cons append_Nil by blast
qed

text \<open>
  A \<^verbatim>\<open>MultiSourceBuffer\<close> fed by several senders, in any interleaving, never raises and releases
  for every sender exactly a prefix of what that sender numbered, in the sender's order.
\<close>

theorem multi_source_buffer_per_source_prefix:
  assumes "list_all (msb_op_from_logs src L) ops"
  shows "\<exists>out m k. msb_run msb_init ops = Inr (out, m) \<and>
    (\<forall>s. k s \<le> length (L s) \<and> filter (\<lambda>t. src t = s) out = take (k s) (L s))"
proof -
  have "msb_agrees src L (\<lambda>_. 0) msb_init"
    by (simp add: msb_agrees_def msb_init_def buf_of_def dict_get_default_def ob.agrees_fresh ob.held_fresh)
  from msb_run_from [OF this assms] show ?thesis by (metis append_Nil take_0)
qed

definition demo_logs :: "string \<Rightarrow> (string \<times> int) list" where
  "demo_logs s = (if s = ''x'' then [(''x'', 6), (''x'', 7)] else [(s, 5)])"

theorem multi_source_buffer_per_source_prefix_witness:
  "\<exists>out m k. msb_run msb_init [MIngest ''x'' 1 (''x'', 7), MIngest ''y'' 0 (''y'', 5), MDrain,
      MIngest ''x'' 0 (''x'', 6), MDrain] = Inr (out, m) \<and>
    (\<forall>s. k s \<le> length (demo_logs s) \<and> filter (\<lambda>t. fst t = s) out = take (k s) (demo_logs s))"
  by (rule multi_source_buffer_per_source_prefix) (simp add: demo_logs_def)

end
