(* ===== verification/Election.thy ===== *)
theory Election
  imports Shared_Types "HOL-Library.List_Lexorder" "HOL-Library.Char_ord"
begin

text \<open>
  Master election (\<^verbatim>\<open>src/exo/shared/election.py\<close>). One node's \<^verbatim>\<open>Election\<close> object is the record
  \<open>el_state\<close>. Its asynchronous tasks interleave at awaits, so each stretch of code between two
  awaits is one step function: the receivers' loop bodies, and for a campaign its start (up to the
  wait for the previous campaign), its beginning (status computed, appended and sent), its wake-up
  (status sent again), its decision (the maximum of the candidates, the result sent, the \<^verbatim>\<open>finally\<close>
  block), and the delivery of a cancellation. A send on an unbounded channel does not yield, it only
  raises in a cancelled scope; so a campaign that was cancelled goes on to its \<^verbatim>\<open>finally\<close> block from
  its next await, and the decision and the send of its result are one step. The candidate lists are shared by
  reference between the object and its campaigns; they live in the store \<open>el_lists\<close> and are named
  by their index. \<open>el_step\<close> is the step relation, \<open>el_reach\<close> the reachable states.
\<close>

section \<open>Messages\<close>

record election_message =
  em_clock :: int
  em_seniority :: int
  proposed_session :: session_id
  em_commands_seen :: int

definition em_lt :: "election_message \<Rightarrow> election_message \<Rightarrow> bool" where
  "em_lt a b =
     (if em_clock a \<noteq> em_clock b then em_clock a < em_clock b
      else if em_seniority a \<noteq> em_seniority b then em_seniority a < em_seniority b
      else if em_commands_seen a \<noteq> em_commands_seen b then em_commands_seen a < em_commands_seen b
      else master_node_id (proposed_session a) < master_node_id (proposed_session b))"

record election_result =
  er_session_id :: session_id
  won_clock :: int
  is_new_master :: bool

section \<open>The election object\<close>

text \<open>
  The phases of one \<^verbatim>\<open>_campaign\<close> call. \<open>Waiting d\<close> waits for the done event of campaign \<open>d\<close>, which
  is set when that campaign is in phase \<open>Finished\<close>.
\<close>

datatype campaign_phase =
    Scheduled
  | Waiting nat
  | Announced election_message
  | Woken election_message
  | Finished

record campaign =
  cg_list :: nat
  cg_clock :: int
  cg_phase :: campaign_phase
  cg_cancelled :: bool

record el_state =
  el_seniority :: int
  el_clock :: int
  el_node_id :: node_id
  el_commands_seen :: int
  el_current_session :: session_id
  el_candidates :: nat
  el_lists :: "election_message list list"
  el_scope :: "nat option"
  el_done :: "nat option"
  el_campaigns :: "campaign list"
  el_sent :: "election_message list"
  el_results :: "election_result list"

definition el_init :: "node_id \<Rightarrow> bool \<Rightarrow> int \<Rightarrow> el_state" where
  "el_init n is_candidate seniority =
     \<lparr>el_seniority = (if is_candidate then seniority else - 1), el_clock = 0, el_node_id = n,
      el_commands_seen = 0, el_current_session = \<lparr>master_node_id = n, election_clock = 0\<rparr>,
      el_candidates = 0, el_lists = [[]], el_scope = None, el_done = None, el_campaigns = [],
      el_sent = [], el_results = []\<rparr>"

definition schedule_campaign :: "election_message list \<Rightarrow> el_state \<Rightarrow> el_state" where
  "schedule_campaign cands s =
     s\<lparr>el_candidates := length (el_lists s), el_lists := el_lists s @ [cands],
       el_campaigns := el_campaigns s @
         [\<lparr>cg_list = length (el_lists s), cg_clock = 0, cg_phase = Scheduled, cg_cancelled = False\<rparr>]\<rparr>"

section \<open>Receivers\<close>

definition election_receiver :: "election_message \<Rightarrow> el_state \<Rightarrow> el_state" where
  "election_receiver m s =
     (if master_node_id (proposed_session m) = el_node_id s then s
      else if em_clock m > el_clock s then schedule_campaign [m] (s\<lparr>el_clock := em_clock m\<rparr>)
      else if em_clock m < el_clock s then s
      else s\<lparr>el_lists := (el_lists s)[el_candidates s := el_lists s ! el_candidates s @ [m]]\<rparr>)"

definition connection_receiver :: "el_state \<Rightarrow> el_state" where
  "connection_receiver s = schedule_campaign [] (s\<lparr>el_clock := el_clock s + 1\<rparr>)"

definition command_counter :: "el_state \<Rightarrow> el_state" where
  "command_counter s = s\<lparr>el_commands_seen := el_commands_seen s + 1\<rparr>"

section \<open>Campaigns\<close>

definition set_campaign :: "nat \<Rightarrow> campaign \<Rightarrow> el_state \<Rightarrow> el_state" where
  "set_campaign c g s = s\<lparr>el_campaigns := (el_campaigns s)[c := g]\<rparr>"

definition election_status :: "int \<Rightarrow> el_state \<Rightarrow> election_message" where
  "election_status c s =
     \<lparr>em_clock = c, em_seniority = el_seniority s,
      proposed_session =
        (if master_node_id (el_current_session s) = el_node_id s then el_current_session s
         else \<lparr>master_node_id = el_node_id s, election_clock = c\<rparr>),
      em_commands_seen = el_commands_seen s\<rparr>"

text \<open>From the creation of the done event to the first sleep.\<close>

definition campaign_begin :: "nat \<Rightarrow> el_state \<Rightarrow> el_state" where
  "campaign_begin c s =
     (let g = el_campaigns s ! c; status = election_status (cg_clock g) s
      in set_campaign c (g\<lparr>cg_phase := Announced status\<rparr>)
           (s\<lparr>el_done := Some c, el_scope := Some c,
              el_lists := (el_lists s)[cg_list g := el_lists s ! cg_list g @ [status]],
              el_sent := el_sent s @ [status]\<rparr>))"

text \<open>From the call to the wait for the previous campaign.\<close>

definition campaign_start :: "nat \<Rightarrow> el_state \<Rightarrow> el_state" where
  "campaign_start c s =
     (let s1 = set_campaign c ((el_campaigns s ! c)\<lparr>cg_clock := el_clock s\<rparr>) s;
          s2 = (case el_scope s1 of
                  None \<Rightarrow> s1
                | Some d \<Rightarrow> set_campaign d ((el_campaigns s1 ! d)\<lparr>cg_cancelled := True\<rparr>) s1)
      in case el_done s2 of
           None \<Rightarrow> campaign_begin c s2
         | Some d \<Rightarrow> set_campaign c ((el_campaigns s2 ! c)\<lparr>cg_phase := Waiting d\<rparr>) s2)"

definition campaign_wake :: "nat \<Rightarrow> election_message \<Rightarrow> el_state \<Rightarrow> el_state" where
  "campaign_wake c status s =
     set_campaign c ((el_campaigns s ! c)\<lparr>cg_phase := Woken status\<rparr>)
       (s\<lparr>el_sent := el_sent s @ [status]\<rparr>)"

definition elect :: "election_message \<Rightarrow> el_state \<Rightarrow> el_state" where
  "elect em s =
     s\<lparr>el_current_session := proposed_session em,
       el_results := el_results s @ [\<lparr>er_session_id = proposed_session em, won_clock = em_clock em,
         is_new_master = (proposed_session em \<noteq> el_current_session s)\<rparr>]\<rparr>"

text \<open>The \<^verbatim>\<open>finally\<close> block, reached after the result was sent or on cancellation.\<close>

definition campaign_finally :: "nat \<Rightarrow> el_state \<Rightarrow> el_state" where
  "campaign_finally c s =
     set_campaign c ((el_campaigns s ! c)\<lparr>cg_phase := Finished\<rparr>)
       (if el_scope s = Some c then s\<lparr>el_scope := None\<rparr> else s)"

definition campaign_decide :: "nat \<Rightarrow> el_state \<Rightarrow> el_state result" where
  "campaign_decide c s =
     (let candidates = el_lists s ! cg_list (el_campaigns s ! c)
      in rbind (py_max_by em_lt candidates) (\<lambda>elected.
           Inr (campaign_finally c (elect elected
             (if el_node_id s = master_node_id (proposed_session elected) \<and> 0 \<le> el_seniority s
              then s\<lparr>el_seniority := max (el_seniority s) (int (length candidates))\<rparr>
              else s)))))"

section \<open>Steps\<close>

datatype el_label =
    RecvElection election_message
  | RecvConnection
  | RecvCommand
  | Start nat
  | Begin nat
  | Wake nat
  | Decide nat
  | Cancel nat

definition phase_of :: "el_state \<Rightarrow> nat \<Rightarrow> campaign_phase option" where
  "phase_of s c = (if c < length (el_campaigns s) then Some (cg_phase (el_campaigns s ! c)) else None)"

text \<open>The step a label names, when it is enabled.\<close>

fun el_next :: "el_label \<Rightarrow> el_state \<Rightarrow> el_state option" where
  "el_next (RecvElection m) s = Some (election_receiver m s)"
| "el_next RecvConnection s = Some (connection_receiver s)"
| "el_next RecvCommand s = Some (command_counter s)"
| "el_next (Start c) s =
     (if phase_of s c = Some Scheduled then Some (campaign_start c s) else None)"
| "el_next (Begin c) s =
     (case phase_of s c of
        Some (Waiting d) \<Rightarrow>
          if phase_of s d = Some Finished then Some (campaign_begin c s) else None
      | _ \<Rightarrow> None)"
| "el_next (Wake c) s =
     (case phase_of s c of
        Some (Announced status) \<Rightarrow>
          if cg_cancelled (el_campaigns s ! c) then None else Some (campaign_wake c status s)
      | _ \<Rightarrow> None)"
| "el_next (Decide c) s =
     (case phase_of s c of
        Some (Woken _) \<Rightarrow>
          if cg_cancelled (el_campaigns s ! c) then None
          else (case campaign_decide c s of Inr s' \<Rightarrow> Some s' | Inl _ \<Rightarrow> None)
      | _ \<Rightarrow> None)"
| "el_next (Cancel c) s =
     (case phase_of s c of
        Some p \<Rightarrow>
          if cg_cancelled (el_campaigns s ! c) \<and>
             (case p of Announced _ \<Rightarrow> True | Woken _ \<Rightarrow> True | _ \<Rightarrow> False)
          then Some (campaign_finally c s) else None
      | None \<Rightarrow> None)"

text \<open>\<^verbatim>\<open>run\<close>: the initial campaign, called directly, runs to its first await.\<close>

definition el_run :: "node_id \<Rightarrow> bool \<Rightarrow> int \<Rightarrow> el_state" where
  "el_run n is_candidate seniority =
     campaign_start 0 (schedule_campaign [] (el_init n is_candidate seniority))"

inductive el_step :: "el_state \<Rightarrow> el_state \<Rightarrow> bool" where
  step: "el_next l s = Some s' \<Longrightarrow> el_step s s'"

inductive el_reach :: "el_state \<Rightarrow> el_state \<Rightarrow> bool" for s0 where
  reach_refl: "el_reach s0 s0"
| reach_step: "el_reach s0 s \<Longrightarrow> el_step s s' \<Longrightarrow> el_reach s0 s'"

fun el_exec :: "el_label list \<Rightarrow> el_state \<Rightarrow> el_state option" where
  "el_exec [] s = Some s"
| "el_exec (l # ls) s = (case el_next l s of None \<Rightarrow> None | Some s' \<Rightarrow> el_exec ls s')"

inductive_cases el_stepE: "el_step s s'"

section \<open>The order of the candidates\<close>

text \<open>
  What a vote by maximum needs of its order, and what it gives: an upper bound, and the same
  choice, up to ties, from any two lists with the same members.
\<close>

locale vote_order =
  fixes lt :: "'a \<Rightarrow> 'a \<Rightarrow> bool"
  assumes asym: "lt a b \<Longrightarrow> \<not> lt b a"
    and negtrans: "\<not> lt a b \<Longrightarrow> \<not> lt b c \<Longrightarrow> \<not> lt a c"
begin

lemma winner_ub: "py_max_by lt xs = Inr m \<Longrightarrow> y \<in> set xs \<Longrightarrow> \<not> lt m y"
  by (rule py_max_by_ub [OF asym negtrans])

lemma same_voters_tie:
  assumes "py_max_by lt xs = Inr m" "py_max_by lt ys = Inr n" "set xs = set ys"
  shows "\<not> lt m n \<and> \<not> lt n m"
  using winner_ub [OF assms(1)] winner_ub [OF assms(2)] py_max_by_mem [OF assms(1)]
    py_max_by_mem [OF assms(2)] assms(3) by blast

end

interpretation em: vote_order em_lt
  by unfold_locales (auto simp: em_lt_def split: if_splits)

lemma em_tie_same_master:
  "\<not> em_lt a b \<Longrightarrow> \<not> em_lt b a \<Longrightarrow>
   master_node_id (proposed_session a) = master_node_id (proposed_session b)"
  by (auto simp: em_lt_def split: if_splits)

section \<open>Invariant\<close>

definition own_status :: "el_state \<Rightarrow> election_message \<Rightarrow> bool" where
  "own_status s m \<longleftrightarrow> master_node_id (proposed_session m) = el_node_id s \<and> em_clock m \<le> el_clock s"

definition campaign_ok :: "el_state \<Rightarrow> campaign \<Rightarrow> bool" where
  "campaign_ok s g \<longleftrightarrow> cg_list g < length (el_lists s) \<and> cg_clock g \<le> el_clock s \<and>
     (\<forall>st. cg_phase g = Announced st \<or> cg_phase g = Woken st \<longrightarrow>
        own_status s st \<and> st \<in> set (el_lists s ! cg_list g))"

definition el_inv :: "el_state \<Rightarrow> bool" where
  "el_inv s \<longleftrightarrow> 0 \<le> el_clock s \<and> el_candidates s < length (el_lists s) \<and>
     (\<forall>d. el_scope s = Some d \<or> el_done s = Some d \<longrightarrow> d < length (el_campaigns s)) \<and>
     (\<forall>g \<in> set (el_campaigns s). campaign_ok s g) \<and>
     (\<forall>l \<in> set (el_lists s). \<forall>m \<in> set l. em_clock m \<le> el_clock s) \<and>
     (\<forall>m \<in> set (el_sent s). own_status s m)"

text \<open>Growing the clock and the lists keeps campaigns well-formed.\<close>

definition el_grows :: "el_state \<Rightarrow> el_state \<Rightarrow> bool" where
  "el_grows s s' \<longleftrightarrow> el_clock s \<le> el_clock s' \<and> el_node_id s' = el_node_id s \<and>
     length (el_lists s) \<le> length (el_lists s') \<and>
     (\<forall>i < length (el_lists s). set (el_lists s ! i) \<subseteq> set (el_lists s' ! i))"

lemma own_status_grows: "own_status s m \<Longrightarrow> el_grows s s' \<Longrightarrow> own_status s' m"
  by (auto simp: own_status_def el_grows_def)

lemma campaign_ok_grows:
  assumes "campaign_ok s g" "el_grows s s'" shows "campaign_ok s' g"
proof -
  have "set (el_lists s ! cg_list g) \<subseteq> set (el_lists s' ! cg_list g)"
    using assms by (auto simp: campaign_ok_def el_grows_def)
  with assms own_status_grows [OF _ assms(2)] show ?thesis
    by (auto simp: campaign_ok_def el_grows_def)
qed

lemma inv_update:
  assumes "el_inv s" "el_grows s s'" "el_candidates s' < length (el_lists s')"
    and "\<forall>d. el_scope s' = Some d \<or> el_done s' = Some d \<longrightarrow> d < length (el_campaigns s')"
    and "\<forall>g \<in> set (el_campaigns s'). g \<in> set (el_campaigns s) \<or> campaign_ok s' g"
    and "\<forall>l \<in> set (el_lists s'). \<forall>m \<in> set l. em_clock m \<le> el_clock s'"
    and "\<forall>m \<in> set (el_sent s'). m \<in> set (el_sent s) \<or> own_status s' m"
  shows "el_inv s'"
  using assms campaign_ok_grows [OF _ assms(2)] own_status_grows [OF _ assms(2)]
  unfolding el_inv_def el_grows_def by (metis order_trans)

lemma lists_append:
  assumes "el_inv s" "i < length (el_lists s)" "em_clock m \<le> el_clock s"
  defines "ls \<equiv> (el_lists s)[i := el_lists s ! i @ [m]]"
  shows "\<forall>l \<in> set ls. \<forall>m \<in> set l. em_clock m \<le> el_clock s"
    and "\<forall>j < length (el_lists s). set (el_lists s ! j) \<subseteq> set (ls ! j)"
proof -
  have old: "\<forall>l \<in> set (el_lists s). \<forall>m \<in> set l. em_clock m \<le> el_clock s"
    using assms(1) by (simp add: el_inv_def)
  have "set ls \<subseteq> insert (el_lists s ! i @ [m]) (set (el_lists s))"
    unfolding ls_def by (rule set_update_subset_insert)
  with old nth_mem [OF assms(2)] assms(3)
  show "\<forall>l \<in> set ls. \<forall>m \<in> set l. em_clock m \<le> el_clock s" by fastforce
  show "\<forall>j < length (el_lists s). set (el_lists s ! j) \<subseteq> set (ls ! j)"
    unfolding ls_def using assms(2) by (simp add: nth_list_update subset_iff)
qed

lemma schedule_inv:
  assumes "el_inv s" "\<forall>m \<in> set cands. em_clock m \<le> el_clock s"
  shows "el_inv (schedule_campaign cands s)"
proof (rule inv_update [OF assms(1)])
  show "\<forall>g \<in> set (el_campaigns (schedule_campaign cands s)).
      g \<in> set (el_campaigns s) \<or> campaign_ok (schedule_campaign cands s) g"
    using assms(1) by (auto simp: schedule_campaign_def campaign_ok_def el_inv_def)
qed (use assms in \<open>auto simp: schedule_campaign_def el_grows_def el_inv_def nth_append\<close>)

lemma clock_inv:
  assumes "el_inv s" "el_clock s \<le> c" shows "el_inv (s\<lparr>el_clock := c\<rparr>)"
  by (rule inv_update [OF assms(1)])
    (use assms in \<open>force simp: el_grows_def el_inv_def\<close>)+

lemma election_receiver_inv: "el_inv s \<Longrightarrow> el_inv (election_receiver m s)"
proof -
  assume inv: "el_inv s"
  have "el_inv (s\<lparr>el_lists := (el_lists s)[el_candidates s := el_lists s ! el_candidates s @ [m]]\<rparr>)"
    if "em_clock m \<le> el_clock s"
    by (rule inv_update [OF inv])
      (use inv that lists_append [OF inv, of "el_candidates s" m] in \<open>auto simp: el_grows_def el_inv_def\<close>)
  with inv show ?thesis
    by (auto simp: election_receiver_def intro!: schedule_inv clock_inv)
qed

lemma campaign_at: "el_inv s \<Longrightarrow> c < length (el_campaigns s) \<Longrightarrow> campaign_ok s (el_campaigns s ! c)"
  by (simp add: el_inv_def)

lemma set_campaign_inv:
  assumes "el_inv s" "campaign_ok s g"
  shows "el_inv (set_campaign c g s)"
proof -
  have "set ((el_campaigns s)[c := g]) \<subseteq> insert g (set (el_campaigns s))"
    by (rule set_update_subset_insert)
  moreover have "campaign_ok (s\<lparr>el_campaigns := cs\<rparr>) x = campaign_ok s x" for x cs
    by (simp add: campaign_ok_def own_status_def)
  ultimately show ?thesis
    using assms by (auto simp: el_inv_def set_campaign_def own_status_def)
qed

lemma election_status_own: "c \<le> el_clock s \<Longrightarrow> own_status s (election_status c s)"
  by (simp add: own_status_def election_status_def)

lemma campaign_begin_inv:
  assumes "el_inv s" "c < length (el_campaigns s)"
  shows "el_inv (campaign_begin c s)"
proof -
  let ?g = "el_campaigns s ! c" let ?st = "election_status (cg_clock (el_campaigns s ! c)) s"
  have g: "campaign_ok s ?g" using campaign_at [OF assms] .
  then have own: "own_status s ?st" by (simp add: campaign_ok_def election_status_own)
  let ?s = "s\<lparr>el_done := Some c, el_scope := Some c,
      el_lists := (el_lists s)[cg_list ?g := el_lists s ! cg_list ?g @ [?st]],
      el_sent := el_sent s @ [?st]\<rparr>"
  have i: "cg_list ?g < length (el_lists s)" "em_clock ?st \<le> el_clock s"
    using g own by (auto simp: campaign_ok_def own_status_def)
  note la = lists_append [OF assms(1) i]
  have gr: "el_grows s ?s" using la(2) by (simp add: el_grows_def)
  have inv: "el_inv ?s"
    by (rule inv_update [OF assms(1) gr])
      (use la(1) assms own in \<open>auto simp: el_inv_def own_status_def\<close>)
  have "campaign_ok ?s (?g\<lparr>cg_phase := Announced ?st\<rparr>)"
    using g own i by (auto simp: campaign_ok_def own_status_def)
  from set_campaign_inv [OF inv this] show ?thesis
    by (simp add: campaign_begin_def Let_def)
qed

lemma campaign_ok_phase:
  "campaign_ok s g \<Longrightarrow> (\<forall>st. p \<noteq> Announced st \<and> p \<noteq> Woken st) \<Longrightarrow> campaign_ok s (g\<lparr>cg_phase := p\<rparr>)"
  by (simp add: campaign_ok_def)

lemma set_campaign_fields [simp]:
  "el_campaigns (set_campaign c g s) = (el_campaigns s)[c := g]"
  "el_clock (set_campaign c g s) = el_clock s" "el_node_id (set_campaign c g s) = el_node_id s"
  "el_seniority (set_campaign c g s) = el_seniority s" "el_lists (set_campaign c g s) = el_lists s"
  "el_scope (set_campaign c g s) = el_scope s" "el_done (set_campaign c g s) = el_done s"
  "el_sent (set_campaign c g s) = el_sent s" "el_results (set_campaign c g s) = el_results s"
  "el_current_session (set_campaign c g s) = el_current_session s"
  by (simp_all add: set_campaign_def)

lemma campaign_start_inv:
  assumes "el_inv s" "phase_of s c = Some Scheduled"
  shows "el_inv (campaign_start c s)"
proof -
  have c: "c < length (el_campaigns s)" "cg_phase (el_campaigns s ! c) = Scheduled"
    using assms(2) by (auto simp: phase_of_def split: if_splits)
  define s1 where "s1 = set_campaign c ((el_campaigns s ! c)\<lparr>cg_clock := el_clock s\<rparr>) s"
  have "campaign_ok s ((el_campaigns s ! c)\<lparr>cg_clock := el_clock s\<rparr>)"
    using campaign_at [OF assms(1) c(1)] c(2) by (simp add: campaign_ok_def)
  then have inv1: "el_inv s1" unfolding s1_def by (rule set_campaign_inv [OF assms(1)])
  define s2 where "s2 = (case el_scope s1 of None \<Rightarrow> s1
      | Some d \<Rightarrow> set_campaign d ((el_campaigns s1 ! d)\<lparr>cg_cancelled := True\<rparr>) s1)"
  have inv2: "el_inv s2"
  proof (cases "el_scope s1")
    case (Some d)
    then have "d < length (el_campaigns s1)" using inv1 by (simp add: el_inv_def)
    from campaign_at [OF inv1 this] have "campaign_ok s1 ((el_campaigns s1 ! d)\<lparr>cg_cancelled := True\<rparr>)"
      by (simp add: campaign_ok_def)
    with Some show ?thesis by (simp add: s2_def set_campaign_inv [OF inv1])
  qed (simp add: s2_def inv1)
  have c2: "c < length (el_campaigns s2)"
    using c(1) by (auto simp: s2_def s1_def split: option.splits)
  have "el_inv (set_campaign c ((el_campaigns s2 ! c)\<lparr>cg_phase := Waiting d\<rparr>) s2)" for d
    by (rule set_campaign_inv [OF inv2 campaign_ok_phase [OF campaign_at [OF inv2 c2]]]) simp
  with campaign_begin_inv [OF inv2 c2] show ?thesis
    by (auto simp: campaign_start_def Let_def s1_def [symmetric] s2_def [symmetric] split: option.splits)
qed

lemma phase_of_Some: "phase_of s c = Some p \<Longrightarrow> c < length (el_campaigns s) \<and> cg_phase (el_campaigns s ! c) = p"
  by (auto simp: phase_of_def split: if_splits)

lemma inv_irrelevant:
  "el_inv s \<Longrightarrow> el_inv (s\<lparr>el_seniority := x\<rparr>)" "el_inv s \<Longrightarrow> el_inv (s\<lparr>el_current_session := y\<rparr>)"
  "el_inv s \<Longrightarrow> el_inv (s\<lparr>el_commands_seen := z\<rparr>)" "el_inv s \<Longrightarrow> el_inv (s\<lparr>el_results := r\<rparr>)"
  "el_inv s \<Longrightarrow> el_inv (s\<lparr>el_scope := None\<rparr>)"
  by (simp_all add: el_inv_def campaign_ok_def own_status_def)

lemma campaign_wake_inv:
  assumes "el_inv s" "phase_of s c = Some (Announced st)"
  shows "el_inv (campaign_wake c st s)"
proof -
  have c: "c < length (el_campaigns s)" "cg_phase (el_campaigns s ! c) = Announced st"
    using phase_of_Some [OF assms(2)] by auto
  have ok: "campaign_ok s (el_campaigns s ! c)" "own_status s st"
    using campaign_at [OF assms(1) c(1)] c(2) by (auto simp: campaign_ok_def)
  have "el_inv (s\<lparr>el_sent := el_sent s @ [st]\<rparr>)"
    by (rule inv_update [OF assms(1)]) (use assms(1) ok(2) in \<open>auto simp: el_grows_def el_inv_def own_status_def\<close>)
  moreover have "campaign_ok (s\<lparr>el_sent := el_sent s @ [st]\<rparr>) ((el_campaigns s ! c)\<lparr>cg_phase := Woken st\<rparr>)"
    using ok c(2) by (auto simp: campaign_ok_def own_status_def)
  ultimately show ?thesis unfolding campaign_wake_def by (rule set_campaign_inv)
qed

lemma campaign_finally_inv: "el_inv s \<Longrightarrow> c < length (el_campaigns s) \<Longrightarrow> el_inv (campaign_finally c s)"
proof -
  assume inv: "el_inv s" and c: "c < length (el_campaigns s)"
  let ?s = "if el_scope s = Some c then s\<lparr>el_scope := None\<rparr> else s"
  have i: "el_inv ?s" using inv by (simp add: inv_irrelevant)
  then have "campaign_ok ?s (el_campaigns s ! c)" using campaign_at [OF i, of c] c by (auto split: if_splits)
  then show ?thesis
    unfolding campaign_finally_def by (intro set_campaign_inv [OF i] campaign_ok_phase) auto
qed

lemma elect_campaigns [simp]: "el_campaigns (elect em s) = el_campaigns s"
  by (simp add: elect_def)

lemma elect_inv: "el_inv s \<Longrightarrow> el_inv (elect em s)"
  by (simp add: elect_def el_inv_def campaign_ok_def own_status_def)

lemma campaign_decide_inv:
  "el_inv s \<Longrightarrow> c < length (el_campaigns s) \<Longrightarrow> campaign_decide c s = Inr s' \<Longrightarrow> el_inv s'"
  by (auto simp: campaign_decide_def Let_def intro!: campaign_finally_inv elect_inv inv_irrelevant split: if_splits)

lemma el_next_inv: "el_inv s \<Longrightarrow> el_next l s = Some s' \<Longrightarrow> el_inv s'"
  by (cases l)
    (auto simp: election_receiver_inv connection_receiver_def command_counter_def campaign_start_inv
      intro!: schedule_inv clock_inv inv_irrelevant campaign_begin_inv campaign_wake_inv campaign_finally_inv
      intro: campaign_decide_inv
      dest: phase_of_Some split: if_splits option.splits campaign_phase.splits sum.splits)

lemma el_run_inv: "el_inv (el_run n b k)"
  unfolding el_run_def
proof (rule campaign_start_inv)
  have "el_inv (el_init n b k)" by (simp add: el_inv_def el_init_def)
  then show "el_inv (schedule_campaign [] (el_init n b k))" by (rule schedule_inv) simp
qed (simp add: schedule_campaign_def el_init_def phase_of_def)

lemma el_reach_inv: "el_reach s0 s \<Longrightarrow> el_inv s0 \<Longrightarrow> el_inv s"
  by (induction rule: el_reach.induct) (auto elim!: el_stepE intro: el_next_inv)

section \<open>The clock of a campaign\<close>

text \<open>
  Every candidate a campaign has, its own status included, is of the campaign's clock or an older one, and the
  list that still receives candidates is of the node's clock.
\<close>

definition clock_ok :: "el_state \<Rightarrow> campaign \<Rightarrow> bool" where
  "clock_ok s g \<longleftrightarrow> cg_phase g = Scheduled \<or>
     (\<forall>m \<in> set (el_lists s ! cg_list g). em_clock m \<le> cg_clock g) \<and>
     (cg_list g = el_candidates s \<longrightarrow> cg_clock g = el_clock s) \<and>
     (\<forall>st. cg_phase g = Announced st \<or> cg_phase g = Woken st \<longrightarrow> em_clock st = cg_clock g)"

definition el_rounds :: "el_state \<Rightarrow> bool" where
  "el_rounds s \<longleftrightarrow> el_inv s \<and> distinct (map cg_list (el_campaigns s)) \<and> (\<forall>g \<in> set (el_campaigns s). clock_ok s g)"

lemma set_campaign_candidates [simp]: "el_candidates (set_campaign c g s) = el_candidates s"
  by (simp add: set_campaign_def)

lemma clock_ok_cong:
  "el_lists s' = el_lists s \<Longrightarrow> el_candidates s' = el_candidates s \<Longrightarrow> el_clock s' = el_clock s \<Longrightarrow> clock_ok s' g = clock_ok s g"
  by (simp add: clock_ok_def)

lemma set_campaign_rounds:
  assumes "el_rounds s" "el_inv (set_campaign c g s)" "c < length (el_campaigns s)" "cg_list g = cg_list (el_campaigns s ! c)" "clock_ok s g"
  shows "el_rounds (set_campaign c g s)"
proof -
  have "map cg_list ((el_campaigns s)[c := g]) = map cg_list (el_campaigns s)"
    using assms(3,4) by (simp add: map_update list_update_same_conv)
  moreover have "clock_ok (set_campaign c g s) x" if "x \<in> set ((el_campaigns s)[c := g])" for x
  proof -
    have "x = g \<or> x \<in> set (el_campaigns s)" using that set_update_subset_insert [of "el_campaigns s" c g] by blast
    then have "clock_ok s x" using assms(1,5) by (auto simp: el_rounds_def)
    then show ?thesis using clock_ok_cong [of "set_campaign c g s" s x] by simp
  qed
  ultimately show ?thesis using assms(1,2) by (simp add: el_rounds_def)
qed

lemma clock_ok_at: "el_rounds s \<Longrightarrow> c < length (el_campaigns s) \<Longrightarrow> clock_ok s (el_campaigns s ! c)"
  by (simp add: el_rounds_def)

lemma schedule_rounds:
  assumes "el_rounds s" "el_clock s \<le> k" "\<forall>m \<in> set cands. em_clock m \<le> k"
  shows "el_rounds (schedule_campaign cands (s\<lparr>el_clock := k\<rparr>))"
proof -
  have inv: "el_inv s" using assms(1) by (simp add: el_rounds_def)
  have lists: "cg_list g < length (el_lists s)" if "g \<in> set (el_campaigns s)" for g
    using inv that by (simp add: el_inv_def campaign_ok_def)
  have "el_inv (schedule_campaign cands (s\<lparr>el_clock := k\<rparr>))" using assms by (intro schedule_inv clock_inv [OF inv]) simp_all
  moreover have "length (el_lists s) \<notin> cg_list ` set (el_campaigns s)" using lists by fastforce
  moreover have "clock_ok (schedule_campaign cands (s\<lparr>el_clock := k\<rparr>)) g" if g: "g \<in> set (el_campaigns s)" for g
    using lists [OF g] assms(1) g by (auto simp: el_rounds_def clock_ok_def schedule_campaign_def nth_append)
  ultimately show ?thesis using assms(1)
    by (auto simp: el_rounds_def schedule_campaign_def clock_ok_def)
qed

lemma election_receiver_rounds: "el_rounds s \<Longrightarrow> el_rounds (election_receiver m s)"
proof -
  assume r: "el_rounds s"
  let ?s = "s\<lparr>el_lists := (el_lists s)[el_candidates s := el_lists s ! el_candidates s @ [m]]\<rparr>"
  have "el_rounds ?s" if m: "em_clock m = el_clock s" "master_node_id (proposed_session m) \<noteq> el_node_id s"
  proof -
    have "el_inv ?s" using election_receiver_inv [of s m] r m by (simp add: election_receiver_def el_rounds_def)
    moreover have "clock_ok ?s g" if g: "g \<in> set (el_campaigns s)" for g
      using r g m by (cases "cg_list g = el_candidates s") (auto simp: el_rounds_def clock_ok_def el_inv_def)
    ultimately show ?thesis using r by (simp add: el_rounds_def)
  qed
  then show ?thesis using r schedule_rounds [OF r, of "em_clock m" "[m]"] by (auto simp: election_receiver_def)
qed

lemma campaign_begin_rounds:
  assumes "el_rounds s" "c < length (el_campaigns s)" "clock_ok s ((el_campaigns s ! c)\<lparr>cg_phase := Finished\<rparr>)"
  shows "el_rounds (campaign_begin c s)"
proof -
  let ?g = "el_campaigns s ! c" let ?st = "election_status (cg_clock (el_campaigns s ! c)) s"
  let ?s = "campaign_begin c s"
  have inv: "el_inv s" using assms(1) by (simp add: el_rounds_def)
  have s': "el_campaigns ?s = (el_campaigns s)[c := ?g\<lparr>cg_phase := Announced ?st\<rparr>]" "el_candidates ?s = el_candidates s"
    "el_lists ?s = (el_lists s)[cg_list ?g := el_lists s ! cg_list ?g @ [?st]]" "el_clock ?s = el_clock s"
    by (simp_all add: campaign_begin_def Let_def)
  have i: "cg_list ?g < length (el_lists s)" using inv assms(2) by (simp add: el_inv_def campaign_ok_def)
  have st: "em_clock ?st = cg_clock ?g" by (simp add: election_status_def)
  have mine: "clock_ok ?s (?g\<lparr>cg_phase := Announced ?st\<rparr>)"
    using assms(3) i st by (auto simp: clock_ok_def s')
  have other: "clock_ok ?s (el_campaigns s ! d)" if d: "d < length (el_campaigns s)" "d \<noteq> c" for d
  proof -
    have "cg_list (el_campaigns s ! d) \<noteq> cg_list ?g"
      using assms(1,2) d by (auto simp: el_rounds_def distinct_conv_nth)
    then show ?thesis using clock_ok_at [OF assms(1) d(1)] by (simp add: clock_ok_def s')
  qed
  have "clock_ok ?s x" if x: "x \<in> set (el_campaigns ?s)" for x
  proof -
    obtain d where "d < length (el_campaigns s)" "x = el_campaigns ?s ! d" using x by (auto simp: s'(1) in_set_conv_nth)
    then show ?thesis using mine other by (cases "d = c") (simp_all add: s'(1))
  qed
  moreover have "map cg_list (el_campaigns ?s) = map cg_list (el_campaigns s)"
    using assms(2) by (simp add: s'(1) map_update list_update_same_conv)
  ultimately show ?thesis using assms(1) campaign_begin_inv [OF inv assms(2)] by (simp add: el_rounds_def)
qed

lemma campaign_start_rounds:
  assumes "el_rounds s" "phase_of s c = Some Scheduled"
  shows "el_rounds (campaign_start c s)"
proof -
  have c: "c < length (el_campaigns s)" "cg_phase (el_campaigns s ! c) = Scheduled" using phase_of_Some [OF assms(2)] by auto
  have inv: "el_inv s" using assms(1) by (simp add: el_rounds_def)
  have started: "clock_ok s ((el_campaigns s ! c)\<lparr>cg_clock := el_clock s, cg_phase := p\<rparr>)"
    if "\<forall>st. p \<noteq> Announced st \<and> p \<noteq> Woken st" for p
    using inv c(1) that by (auto simp: clock_ok_def el_inv_def campaign_ok_def)
  define s1 where "s1 = set_campaign c ((el_campaigns s ! c)\<lparr>cg_clock := el_clock s\<rparr>) s"
  have "campaign_ok s ((el_campaigns s ! c)\<lparr>cg_clock := el_clock s\<rparr>)"
    using campaign_at [OF inv c(1)] c(2) by (simp add: campaign_ok_def)
  then have r1: "el_rounds s1"
    unfolding s1_def using c by (intro set_campaign_rounds [OF assms(1)] set_campaign_inv [OF inv]) (simp_all add: clock_ok_def)
  define s2 where "s2 = (case el_scope s1 of None \<Rightarrow> s1
      | Some d \<Rightarrow> set_campaign d ((el_campaigns s1 ! d)\<lparr>cg_cancelled := True\<rparr>) s1)"
  have inv1: "el_inv s1" using r1 by (simp add: el_rounds_def)
  have r2: "el_rounds s2"
  proof (cases "el_scope s1")
    case (Some d)
    then have d: "d < length (el_campaigns s1)" using inv1 by (simp add: el_inv_def)
    from campaign_at [OF inv1 d] have "campaign_ok s1 ((el_campaigns s1 ! d)\<lparr>cg_cancelled := True\<rparr>)" by (simp add: campaign_ok_def)
    with set_campaign_rounds [OF r1 set_campaign_inv [OF inv1 this] d] clock_ok_at [OF r1 d]
    show ?thesis by (simp add: s2_def Some clock_ok_def)
  qed (simp add: s2_def r1)
  have inv2: "el_inv s2" using r2 by (simp add: el_rounds_def)
  have c2: "c < length (el_campaigns s2)" using c(1) by (auto simp: s2_def s1_def split: option.splits)
  have same: "el_lists s2 = el_lists s" "el_candidates s2 = el_candidates s" "el_clock s2 = el_clock s"
    by (auto simp: s2_def s1_def split: option.splits)
  have g2: "cg_list (el_campaigns s2 ! c) = cg_list (el_campaigns s ! c)" "cg_clock (el_campaigns s2 ! c) = el_clock s"
    using c(1) by (auto simp: s2_def s1_def nth_list_update split: option.splits)
  have ok: "clock_ok s2 ((el_campaigns s2 ! c)\<lparr>cg_phase := p\<rparr>)" if "\<forall>st. p \<noteq> Announced st \<and> p \<noteq> Woken st" for p
    using started [OF that] that by (simp add: clock_ok_def same g2)
  have "el_rounds (set_campaign c ((el_campaigns s2 ! c)\<lparr>cg_phase := Waiting d\<rparr>) s2)" for d
    using ok [of "Waiting d"] c2
    by (intro set_campaign_rounds [OF r2] set_campaign_inv [OF inv2] campaign_ok_phase campaign_at [OF inv2]) auto
  with campaign_begin_rounds [OF r2 c2 ok] show ?thesis
    by (auto simp: campaign_start_def Let_def s1_def [symmetric] s2_def [symmetric] split: option.splits)
qed

lemma campaign_finally_rounds:
  assumes "el_rounds s" "c < length (el_campaigns s)" "cg_phase (el_campaigns s ! c) \<noteq> Scheduled"
  shows "el_rounds (campaign_finally c s)"
proof -
  have inv: "el_inv s" using assms(1) by (simp add: el_rounds_def)
  let ?s = "if el_scope s = Some c then s\<lparr>el_scope := None\<rparr> else s"
  have "el_rounds ?s" using assms(1) inv by (auto simp: el_rounds_def clock_ok_def inv_irrelevant)
  moreover have "clock_ok ?s ((el_campaigns s ! c)\<lparr>cg_phase := Finished\<rparr>)"
    using clock_ok_at [OF assms(1,2)] assms(3) by (simp add: clock_ok_def)
  ultimately show ?thesis
    using set_campaign_rounds [of ?s c "(el_campaigns s ! c)\<lparr>cg_phase := Finished\<rparr>"] campaign_finally_inv [OF inv assms(2)] assms(2)
    by (simp add: campaign_finally_def split: if_splits)
qed

lemma rounds_irrelevant:
  assumes "el_rounds s" "el_inv s'" "el_lists s' = el_lists s" "el_candidates s' = el_candidates s" "el_clock s' = el_clock s"
    "el_campaigns s' = el_campaigns s"
  shows "el_rounds s'"
  using assms clock_ok_cong [of s' s] by (simp add: el_rounds_def)

lemma campaign_decide_rounds:
  assumes "el_rounds s" "phase_of s c = Some (Woken st)" "campaign_decide c s = Inr s'"
  shows "el_rounds s'"
proof -
  have inv: "el_inv s" using assms(1) by (simp add: el_rounds_def)
  have c: "c < length (el_campaigns s)" "cg_phase (el_campaigns s ! c) = Woken st" using phase_of_Some [OF assms(2)] by auto
  obtain em n where s': "s' = campaign_finally c (elect em (s\<lparr>el_seniority := n\<rparr>)) \<or> s' = campaign_finally c (elect em s)"
    using assms(3) by (auto simp: campaign_decide_def Let_def split: if_splits)
  have "el_rounds (elect em (s\<lparr>el_seniority := n\<rparr>))"
    by (rule rounds_irrelevant [OF assms(1) elect_inv [OF inv_irrelevant(1) [OF inv]]]) (simp_all add: elect_def)
  moreover have "el_rounds (elect em s)" by (rule rounds_irrelevant [OF assms(1) elect_inv [OF inv]]) (simp_all add: elect_def)
  ultimately show ?thesis using s' c campaign_finally_rounds by auto
qed

lemma campaign_wake_rounds:
  assumes "el_rounds s" "phase_of s c = Some (Announced st)"
  shows "el_rounds (campaign_wake c st s)"
proof -
  have inv: "el_inv s" using assms(1) by (simp add: el_rounds_def)
  have c: "c < length (el_campaigns s)" "cg_phase (el_campaigns s ! c) = Announced st" using phase_of_Some [OF assms(2)] by auto
  let ?s = "s\<lparr>el_sent := el_sent s @ [st]\<rparr>"
  have "own_status s st" using campaign_at [OF inv c(1)] c(2) by (simp add: campaign_ok_def)
  then have "el_inv ?s" using inv by (simp add: el_inv_def campaign_ok_def own_status_def)
  then have "el_rounds ?s" by (rule rounds_irrelevant [OF assms(1)]) simp_all
  from set_campaign_rounds [OF this, of c "(el_campaigns s ! c)\<lparr>cg_phase := Woken st\<rparr>"] campaign_wake_inv [OF inv assms(2)] c
    clock_ok_at [OF assms(1) c(1)]
  show ?thesis by (simp add: campaign_wake_def clock_ok_def)
qed

lemma el_next_rounds:
  assumes "el_rounds s" "el_next l s = Some s'"
  shows "el_rounds s'"
proof (cases l)
  case RecvConnection
  then show ?thesis using assms schedule_rounds [OF assms(1), of "el_clock s + 1" "[]"] by (simp add: connection_receiver_def)
next
  case RecvCommand
  then have "s' = command_counter s" using assms(2) by simp
  then show ?thesis using assms inv_irrelevant(3) [of s] by (intro rounds_irrelevant [OF assms(1)]) (auto simp: command_counter_def el_rounds_def)
next
  case (Begin c)
  then obtain d where c: "phase_of s c = Some (Waiting d)" "s' = campaign_begin c s"
    using assms(2) by (auto split: option.splits campaign_phase.splits if_splits)
  then show ?thesis using assms(1) phase_of_Some [OF c(1)] clock_ok_at [OF assms(1), of c]
    by (auto simp: clock_ok_def intro!: campaign_begin_rounds)
next
  case (Wake c)
  then show ?thesis using assms campaign_wake_rounds [OF assms(1)] by (auto split: option.splits campaign_phase.splits if_splits)
next
  case (Decide c)
  then show ?thesis using assms campaign_decide_rounds [OF assms(1)] by (auto split: option.splits campaign_phase.splits if_splits sum.splits)
next
  case (Cancel c)
  then show ?thesis using assms phase_of_Some [of s c] campaign_finally_rounds [OF assms(1)]
    by (auto split: option.splits campaign_phase.splits if_splits)
qed (use assms in \<open>auto simp: election_receiver_rounds campaign_start_rounds split: if_splits\<close>)

lemma el_run_rounds: "el_rounds (el_run n b k)"
  unfolding el_run_def
proof (rule campaign_start_rounds)
  have "el_inv (el_init n b k)" by (simp add: el_inv_def el_init_def)
  then have r: "el_rounds (el_init n b k)" by (simp add: el_rounds_def) (simp add: el_init_def)
  have "el_init n b k = (el_init n b k)\<lparr>el_clock := el_clock (el_init n b k)\<rparr>" by simp
  with schedule_rounds [OF r, of "el_clock (el_init n b k)" "[]"] show "el_rounds (schedule_campaign [] (el_init n b k))" by simp
qed (simp add: schedule_campaign_def el_init_def phase_of_def)

lemma el_reach_rounds: "el_reach s0 s \<Longrightarrow> el_rounds s0 \<Longrightarrow> el_rounds s"
  by (induction rule: el_reach.induct) (auto elim!: el_stepE intro: el_next_rounds)

section \<open>Properties\<close>

lemma campaign_decide_woken:
  assumes "el_inv s" "phase_of s c = Some (Woken st)"
  shows "\<exists>em s'. py_max_by em_lt (el_lists s ! cg_list (el_campaigns s ! c)) = Inr em \<and>
    campaign_decide c s = Inr s' \<and> el_current_session s' = proposed_session em \<and>
    el_seniority s' =
      (if el_node_id s = master_node_id (proposed_session em) \<and> 0 \<le> el_seniority s
       then max (el_seniority s) (int (length (el_lists s ! cg_list (el_campaigns s ! c)))) else el_seniority s) \<and>
    cg_phase (el_campaigns s' ! c) = Finished \<and> length (el_campaigns s') = length (el_campaigns s) \<and>
    el_results s' = el_results s @ [\<lparr>er_session_id = proposed_session em,
      won_clock = em_clock em, is_new_master = (proposed_session em \<noteq> el_current_session s)\<rparr>]"
proof -
  have c: "c < length (el_campaigns s)" "cg_phase (el_campaigns s ! c) = Woken st"
    using phase_of_Some [OF assms(2)] by auto
  then have "st \<in> set (el_lists s ! cg_list (el_campaigns s ! c))"
    using campaign_at [OF assms(1) c(1)] by (auto simp: campaign_ok_def)
  then obtain em where "py_max_by em_lt (el_lists s ! cg_list (el_campaigns s ! c)) = Inr em"
    using py_max_by_total by (metis list.set(1) empty_iff)
  with c(1) show ?thesis by (auto simp: campaign_decide_def campaign_finally_def elect_def Let_def)
qed

lemma not_em_lt:
  "\<not> em_lt a b \<Longrightarrow> em_clock b \<le> em_clock a \<and> (em_clock b = em_clock a \<longrightarrow> em_seniority b \<le> em_seniority a \<and>
     (em_seniority b = em_seniority a \<longrightarrow> em_commands_seen b \<le> em_commands_seen a \<and>
       (em_commands_seen b = em_commands_seen a \<longrightarrow> master_node_id (proposed_session b) \<le> master_node_id (proposed_session a))))"
  by (auto simp: em_lt_def split: if_splits)

text \<open>
  C36: in every reachable state a campaign that reaches its decision does not raise. All its candidates are of the clock it runs
  with or an older one; it elects a candidate of that clock, with the highest seniority among the candidates of that clock,
  among those the most commands seen, and among those the greatest node id. It makes that candidate's session the current one
  and reports it, with the clock and with the flag that says whether the session changed.
\<close>

theorem campaign_elects_maximum:
  assumes "el_reach (el_run n b k) s" "phase_of s c = Some (Woken st)"
  shows "\<exists>em s'. campaign_decide c s = Inr s' \<and>
    em \<in> set (el_lists s ! cg_list (el_campaigns s ! c)) \<and> em_clock em = cg_clock (el_campaigns s ! c) \<and>
    (\<forall>m \<in> set (el_lists s ! cg_list (el_campaigns s ! c)).
       em_clock m \<le> cg_clock (el_campaigns s ! c) \<and>
       (em_clock m = cg_clock (el_campaigns s ! c) \<longrightarrow> em_seniority m \<le> em_seniority em \<and>
         (em_seniority m = em_seniority em \<longrightarrow> em_commands_seen m \<le> em_commands_seen em \<and>
           (em_commands_seen m = em_commands_seen em \<longrightarrow>
             master_node_id (proposed_session m) \<le> master_node_id (proposed_session em))))) \<and>
    el_current_session s' = proposed_session em \<and>
    el_results s' = el_results s @ [\<lparr>er_session_id = proposed_session em, won_clock = cg_clock (el_campaigns s ! c),
      is_new_master = (proposed_session em \<noteq> el_current_session s)\<rparr>] \<and>
    phase_of s' c = Some Finished"
proof -
  note rounds = el_reach_rounds [OF assms(1) el_run_rounds]
  then have inv: "el_inv s" by (simp add: el_rounds_def)
  let ?l = "el_lists s ! cg_list (el_campaigns s ! c)" let ?k = "cg_clock (el_campaigns s ! c)"
  have c: "c < length (el_campaigns s)" "cg_phase (el_campaigns s ! c) = Woken st" using phase_of_Some [OF assms(2)] by auto
  have clocks: "\<forall>m \<in> set ?l. em_clock m \<le> ?k" "em_clock st = ?k" using clock_ok_at [OF rounds c(1)] c(2) by (auto simp: clock_ok_def)
  obtain em s' where r: "py_max_by em_lt ?l = Inr em"
    "campaign_decide c s = Inr s'" "el_current_session s' = proposed_session em"
    "cg_phase (el_campaigns s' ! c) = Finished" "length (el_campaigns s') = length (el_campaigns s)"
    "el_results s' = el_results s @ [\<lparr>er_session_id = proposed_session em,
      won_clock = em_clock em, is_new_master = (proposed_session em \<noteq> el_current_session s)\<rparr>]"
    using campaign_decide_woken [OF inv assms(2)] by blast
  have "st \<in> set ?l" using campaign_at [OF inv c(1)] c(2) by (auto simp: campaign_ok_def)
  from not_em_lt [OF em.winner_ub [OF r(1) this]] have "?k \<le> em_clock em" using clocks(2) by simp
  then have k: "em_clock em = ?k" using clocks(1) py_max_by_mem [OF r(1)] by force
  have "em_seniority m \<le> em_seniority em \<and> (em_seniority m = em_seniority em \<longrightarrow> em_commands_seen m \<le> em_commands_seen em \<and>
      (em_commands_seen m = em_commands_seen em \<longrightarrow> master_node_id (proposed_session m) \<le> master_node_id (proposed_session em)))"
    if "m \<in> set ?l" "em_clock m = ?k" for m
    using not_em_lt [OF em.winner_ub [OF r(1) that(1)]] that(2) k by simp
  with r k clocks(1) py_max_by_mem [OF r(1)] c(1) show ?thesis
    by (intro exI [of _ em] exI [of _ s']) (simp add: phase_of_def)
qed

text \<open>The execution of a list of labels reaches the state it computes.\<close>

lemma el_exec_reach: "el_exec ls s = Some s' \<Longrightarrow> el_reach s0 s \<Longrightarrow> el_reach s0 s'"
proof (induction ls arbitrary: s)
  case (Cons l ls)
  then obtain s1 where "el_next l s = Some s1" "el_exec ls s1 = Some s'" by (auto split: option.splits)
  with Cons.IH [of s1] Cons.prems(2) show ?case by (blast intro: reach_step step)
qed simp

lemma el_exec_the: "el_exec ls s0 \<noteq> None \<Longrightarrow> el_reach s0 (the (el_exec ls s0))"
  by (rule el_exec_reach [OF _ reach_refl]) auto

definition demo_em :: "node_id \<Rightarrow> int \<Rightarrow> election_message" where
  "demo_em n c = \<lparr>em_clock = c, em_seniority = 0,
     proposed_session = \<lparr>master_node_id = n, election_clock = c\<rparr>, em_commands_seen = 0\<rparr>"

definition demo_labels :: "el_label list" where
  "demo_labels = [Wake 0, Decide 0, RecvElection (demo_em ''z'' 1), Start 1, Begin 1, Wake 1]"

definition demo_election :: el_state where
  "demo_election = the (el_exec demo_labels (el_run ''a'' True 0))"

lemma demo_election_reach: "el_reach (el_run ''a'' True 0) demo_election"
  unfolding demo_election_def by (rule el_exec_the) code_simp

lemma demo_election_phase: "phase_of demo_election 1 = Some (Woken \<lparr>em_clock = 1, em_seniority = 1,
    proposed_session = \<lparr>master_node_id = ''a'', election_clock = 0\<rparr>, em_commands_seen = 0\<rparr>)"
  by code_simp

theorem campaign_elects_maximum_witness:
  "\<exists>s'. campaign_decide 1 demo_election = Inr s' \<and> master_node_id (el_current_session s') = ''a''"
proof -
  let ?l = "el_lists demo_election ! cg_list (el_campaigns demo_election ! 1)"
  have l: "?l = [demo_em ''z'' 1, \<lparr>em_clock = 1, em_seniority = 1,
        proposed_session = \<lparr>master_node_id = ''a'', election_clock = 0\<rparr>, em_commands_seen = 0\<rparr>]"
    and k: "cg_clock (el_campaigns demo_election ! 1) = 1" by code_simp+
  obtain em s' where r: "campaign_decide 1 demo_election = Inr s'" "em \<in> set ?l"
    "\<forall>m \<in> set ?l. em_clock m = cg_clock (el_campaigns demo_election ! 1) \<longrightarrow> em_seniority m \<le> em_seniority em"
    "el_current_session s' = proposed_session em"
    using campaign_elects_maximum [OF demo_election_reach demo_election_phase] by blast
  from r(2,3) have "master_node_id (proposed_session em) = ''a''" unfolding l k by (auto simp: demo_em_def)
  with r(1,4) show ?thesis by auto
qed

text \<open>
  Agreement. Two nodes whose campaigns decide with the same set of candidates, in whatever
  order and however often each was received, elect the same session, provided that candidates
  naming the same master name the same session.
\<close>

theorem same_candidates_elect_same_session:
  assumes "el_inv s1" "phase_of s1 c1 = Some (Woken st1)"
    and "el_inv s2" "phase_of s2 c2 = Some (Woken st2)"
    and "set (el_lists s1 ! cg_list (el_campaigns s1 ! c1)) = set (el_lists s2 ! cg_list (el_campaigns s2 ! c2))"
    and "\<forall>a \<in> set (el_lists s1 ! cg_list (el_campaigns s1 ! c1)).
      \<forall>b \<in> set (el_lists s1 ! cg_list (el_campaigns s1 ! c1)).
      master_node_id (proposed_session a) = master_node_id (proposed_session b) \<longrightarrow>
      proposed_session a = proposed_session b"
  shows "\<exists>t1 t2. campaign_decide c1 s1 = Inr t1 \<and> campaign_decide c2 s2 = Inr t2 \<and>
    el_current_session t1 = el_current_session t2"
proof -
  obtain a t1 where a: "py_max_by em_lt (el_lists s1 ! cg_list (el_campaigns s1 ! c1)) = Inr a"
    "campaign_decide c1 s1 = Inr t1" "el_current_session t1 = proposed_session a"
    using campaign_decide_woken [OF assms(1,2)] by blast
  obtain b t2 where b: "py_max_by em_lt (el_lists s2 ! cg_list (el_campaigns s2 ! c2)) = Inr b"
    "campaign_decide c2 s2 = Inr t2" "el_current_session t2 = proposed_session b"
    using campaign_decide_woken [OF assms(3,4)] by blast
  have "\<not> em_lt a b \<and> \<not> em_lt b a" by (rule em.same_voters_tie [OF a(1) b(1) assms(5)])
  then have "master_node_id (proposed_session a) = master_node_id (proposed_session b)"
    by (simp add: em_tie_same_master)
  with assms(5,6) py_max_by_mem [OF a(1)] py_max_by_mem [OF b(1)]
  have "proposed_session a = proposed_session b" by blast
  with a b show ?thesis by auto
qed

text \<open>Two arrival orders at the node \<open>z\<close>, which is not a candidate.\<close>

definition demo_order1 :: "el_label list" where
  "demo_order1 = [Wake 0, Decide 0, RecvElection (demo_em ''y'' 1),
     RecvElection (demo_em ''a'' 1), RecvElection (demo_em ''y'' 1), Start 1, Begin 1, Wake 1]"

definition demo_order2 :: "el_label list" where
  "demo_order2 = [Wake 0, Decide 0, RecvElection (demo_em ''a'' 1),
     Start 1, Begin 1, RecvElection (demo_em ''y'' 1), Wake 1]"

definition demo_z :: "el_label list \<Rightarrow> el_state" where
  "demo_z ls = the (el_exec ls (el_run ''z'' False 0))"

theorem same_candidates_elect_same_session_witness:
  "\<exists>t1 t2. campaign_decide 1 (demo_z demo_order1) = Inr t1 \<and> campaign_decide 1 (demo_z demo_order2) = Inr t2 \<and>
     el_current_session t1 = el_current_session t2"
proof (rule same_candidates_elect_same_session)
  show "el_inv (demo_z demo_order1)" "el_inv (demo_z demo_order2)"
    unfolding demo_z_def by (rule el_reach_inv [OF el_exec_the el_run_inv], code_simp)+
  have l1: "el_lists (demo_z demo_order1) ! cg_list (el_campaigns (demo_z demo_order1) ! 1) =
      [demo_em ''y'' 1, demo_em ''a'' 1, demo_em ''y'' 1, (demo_em ''z'' 1)\<lparr>em_seniority := - 1,
         proposed_session := \<lparr>master_node_id = ''z'', election_clock = 0\<rparr>\<rparr>]" by code_simp
  have l2: "el_lists (demo_z demo_order2) ! cg_list (el_campaigns (demo_z demo_order2) ! 1) =
      [demo_em ''a'' 1, (demo_em ''z'' 1)\<lparr>em_seniority := - 1,
         proposed_session := \<lparr>master_node_id = ''z'', election_clock = 0\<rparr>\<rparr>, demo_em ''y'' 1]" by code_simp
  show "set (el_lists (demo_z demo_order1) ! cg_list (el_campaigns (demo_z demo_order1) ! 1)) =
      set (el_lists (demo_z demo_order2) ! cg_list (el_campaigns (demo_z demo_order2) ! 1))"
    unfolding l1 l2 by auto
  show "\<forall>a \<in> set (el_lists (demo_z demo_order1) ! cg_list (el_campaigns (demo_z demo_order1) ! 1)).
      \<forall>b \<in> set (el_lists (demo_z demo_order1) ! cg_list (el_campaigns (demo_z demo_order1) ! 1)).
      master_node_id (proposed_session a) = master_node_id (proposed_session b) \<longrightarrow>
      proposed_session a = proposed_session b"
    unfolding l1 by (simp add: demo_em_def)
  show "phase_of (demo_z demo_order1) 1 = Some (Woken ((demo_em ''z'' 1)\<lparr>em_seniority := - 1,
         proposed_session := \<lparr>master_node_id = ''z'', election_clock = 0\<rparr>\<rparr>))" by code_simp
  show "phase_of (demo_z demo_order2) 1 = Some (Woken ((demo_em ''z'' 1)\<lparr>em_seniority := - 1,
         proposed_session := \<lparr>master_node_id = ''z'', election_clock = 0\<rparr>\<rparr>))" by code_simp
qed

text \<open>What a step does to the clock, the seniority and the messages sent.\<close>

lemma campaign_begin_fields [simp]:
  "el_clock (campaign_begin c s) = el_clock s" "el_seniority (campaign_begin c s) = el_seniority s"
  "el_node_id (campaign_begin c s) = el_node_id s"
  by (simp_all add: campaign_begin_def Let_def)

lemma campaign_start_fields [simp]:
  "el_clock (campaign_start c s) = el_clock s" "el_seniority (campaign_start c s) = el_seniority s"
  "el_node_id (campaign_start c s) = el_node_id s"
  by (simp_all add: campaign_start_def Let_def split: option.splits)

lemma el_next_monotone:
  assumes "el_next l s = Some s'"
  shows "el_clock s \<le> el_clock s' \<and> el_node_id s' = el_node_id s \<and>
    (if el_seniority s < 0 then el_seniority s' = el_seniority s else el_seniority s \<le> el_seniority s')"
  using assms
  by (cases l)
    (auto simp: election_receiver_def connection_receiver_def schedule_campaign_def command_counter_def
      campaign_wake_def campaign_decide_def Let_def elect_def campaign_finally_def
      split: if_splits option.splits campaign_phase.splits sum.splits)

lemma el_reach_monotone:
  "el_reach s0 s \<Longrightarrow> el_clock s0 \<le> el_clock s \<and> el_node_id s = el_node_id s0 \<and>
    (if el_seniority s0 < 0 then el_seniority s = el_seniority s0 else el_seniority s0 \<le> el_seniority s)"
proof (induction rule: el_reach.induct)
  case (reach_step s s')
  then obtain l where "el_next l s = Some s'" by (auto elim: el_stepE)
  from el_next_monotone [OF this] reach_step.IH show ?case by (auto split: if_splits)
qed simp

lemma el_run_fields [simp]:
  "el_node_id (el_run n b k) = n" "el_seniority (el_run n b k) = (if b then k else - 1)"
  by (simp_all add: el_run_def schedule_campaign_def el_init_def)

text \<open>
  In every reachable state of a node, its clock has not gone back; every status it ever sent
  names itself as master, with a clock it had reached; a node that is not a master candidate keeps
  seniority -1, so any candidate of the same clock beats it, and the seniority of a candidate
  never decreases.
\<close>

theorem election_node_invariant:
  assumes "el_reach (el_run n b k) s"
  shows "0 \<le> el_clock s \<and> (\<forall>m \<in> set (el_sent s). master_node_id (proposed_session m) = n \<and> em_clock m \<le> el_clock s) \<and>
    (\<not> b \<longrightarrow> el_seniority s = - 1) \<and> (b \<and> 0 \<le> k \<longrightarrow> k \<le> el_seniority s)"
  using el_reach_inv [OF assms el_run_inv] el_reach_monotone [OF assms]
  by (auto simp: el_inv_def own_status_def split: if_splits)

theorem election_node_invariant_witness:
  "0 \<le> el_clock demo_election \<and>
   list_all (\<lambda>m. master_node_id (proposed_session m) = ''a'' \<and> em_clock m \<le> el_clock demo_election) (el_sent demo_election) \<and>
   0 \<le> el_seniority demo_election"
  using election_node_invariant [OF demo_election_reach] by (simp add: list_all_iff)

text \<open>
  A newer campaign cancels only the campaign that has begun, not one that still waits for its
  predecessor: two rounds that start while an older campaign winds down leave a state in which two
  campaigns of the node have announced themselves and neither is cancelled.
\<close>

theorem campaigns_can_overlap:
  "\<exists>s st1 st2. el_reach (el_run ''a'' True 0) s \<and>
     phase_of s 1 = Some (Announced st1) \<and> \<not> cg_cancelled (el_campaigns s ! 1) \<and>
     phase_of s 2 = Some (Announced st2) \<and> \<not> cg_cancelled (el_campaigns s ! 2)"
proof -
  let ?ls = "[RecvElection (demo_em ''z'' 1), Start 1, RecvElection (demo_em ''z'' 2), Start 2,
    Cancel 0, Begin 1, Begin 2]"
  let ?s = "the (el_exec ?ls (el_run ''a'' True 0))"
  have "el_reach (el_run ''a'' True 0) ?s" by (rule el_exec_the) code_simp
  moreover have "phase_of ?s 1 = Some (Announced \<lparr>em_clock = 1, em_seniority = 0,
      proposed_session = \<lparr>master_node_id = ''a'', election_clock = 0\<rparr>, em_commands_seen = 0\<rparr>)"
    by code_simp
  moreover have "phase_of ?s 2 = Some (Announced \<lparr>em_clock = 2, em_seniority = 0,
      proposed_session = \<lparr>master_node_id = ''a'', election_clock = 0\<rparr>, em_commands_seen = 0\<rparr>)"
    by code_simp
  moreover have "\<not> cg_cancelled (el_campaigns ?s ! 1) \<and> \<not> cg_cancelled (el_campaigns ?s ! 2)"
    by code_simp
  ultimately show ?thesis by blast
qed

end
