(* ===== verification/Py_String.thy ===== *)
theory Py_String
  imports Prelude
begin

text \<open>
  The string methods the sources use: \<^verbatim>\<open>strip\<close>, \<^verbatim>\<open>lower\<close>, \<^verbatim>\<open>isalnum\<close>, on the characters the \<open>char\<close> type has
  (the first 256 code points), with Python's tables for these.
\<close>

definition is_space :: "char \<Rightarrow> bool" where
  "is_space c \<longleftrightarrow> (let n = of_char c :: nat in (9 \<le> n \<and> n \<le> 13) \<or> (28 \<le> n \<and> n \<le> 32) \<or> n = 133 \<or> n = 160)"

definition py_strip :: "string \<Rightarrow> string" where
  "py_strip x = rev (dropWhile is_space (rev (dropWhile is_space x)))"

definition to_lower :: "char \<Rightarrow> char" where
  "to_lower c =
     (let n = of_char c :: nat in
      if (65 \<le> n \<and> n \<le> 90) \<or> (192 \<le> n \<and> n \<le> 222 \<and> n \<noteq> 215) then char_of (n + 32) else c)"

definition py_lower :: "string \<Rightarrow> string" where
  "py_lower x = map to_lower x"

definition is_alnum :: "char \<Rightarrow> bool" where
  "is_alnum c \<longleftrightarrow>
     (let n = of_char c :: nat in
      (48 \<le> n \<and> n \<le> 57) \<or> (65 \<le> n \<and> n \<le> 90) \<or> (97 \<le> n \<and> n \<le> 122) \<or> n \<in> {170, 178, 179, 181, 185, 186, 188, 189, 190} \<or>
      (192 \<le> n \<and> n \<noteq> 215 \<and> n \<noteq> 247))"

text \<open>\<^verbatim>\<open>len(s.encode("utf-8"))\<close>\<close>

definition utf8_length :: "string \<Rightarrow> nat" where
  "utf8_length x = sum_list (map (\<lambda>c. if (of_char c :: nat) < 128 then 1 else 2) x)"

lemma is_alnum_not_space: "is_alnum c \<Longrightarrow> \<not> is_space c"
  by (auto simp: is_alnum_def is_space_def Let_def)

lemma to_lower_idem [simp]: "to_lower (to_lower c) = to_lower c"
proof -
  define n where "n = (of_char c :: nat)"
  have "n < 256" "char_of n = c" by (simp_all add: n_def)
  then show ?thesis unfolding to_lower_def n_def [symmetric] Let_def by auto
qed

lemma py_strip_padded: "list_all is_space xs \<Longrightarrow> list_all is_space ys \<Longrightarrow> py_strip (xs @ s @ ys) = py_strip s"
proof -
  assume xs: "list_all is_space xs" and ys: "list_all is_space ys"
  have "dropWhile is_space (xs @ s @ ys) = dropWhile is_space (s @ ys)"
    using xs by (simp add: dropWhile_append2 list_all_iff)
  moreover have "dropWhile is_space (rev (dropWhile is_space (s @ ys))) = dropWhile is_space (rev (dropWhile is_space s))"
  proof (cases "\<forall>c \<in> set s. is_space c")
    case True
    then have "dropWhile is_space (s @ ys) = []" "dropWhile is_space s = []" using ys by (auto simp: list_all_iff)
    then show ?thesis by (simp only:)
  next
    case False
    then have "dropWhile is_space (s @ ys) = dropWhile is_space s @ ys" by (auto simp: dropWhile_append1)
    moreover have "dropWhile is_space (rev ys @ rev (dropWhile is_space s)) = dropWhile is_space (rev (dropWhile is_space s))"
      using ys by (intro dropWhile_append2) (auto simp: list_all_iff)
    ultimately show ?thesis by simp
  qed
  ultimately show "py_strip (xs @ s @ ys) = py_strip s" by (simp add: py_strip_def)
qed

end
