(* ===== verification/Effects.thy ===== *)
theory Effects
  imports Prelude
begin

text \<open>
  Code that changes an object and may raise. An action maps a state to a new state and a result;
  an exception keeps the changes made before it, as in Python. \<open>sbind\<close> and \<open>sseq\<close> are the
  sequencing of statements, \<open>upd\<close> an assignment, \<open>raises\<close> a \<^verbatim>\<open>raise\<close>, \<open>sassert\<close> an \<^verbatim>\<open>assert\<close>.
  \<open>keeps P m\<close> says that \<open>m\<close> preserves \<open>P\<close> whether it returns or raises.
\<close>

named_theorems keeps_intros \<open>preservation of a predicate by actions\<close>

type_synonym ('s, 'a) action = "'s \<Rightarrow> 's \<times> 'a result"

definition ret :: "'a \<Rightarrow> ('s, 'a) action" where
  "ret x s = (s, Inr x)"

definition raises :: "py_error \<Rightarrow> ('s, 'a) action" where
  "raises e s = (s, Inl e)"

definition sbind :: "('s, 'a) action \<Rightarrow> ('a \<Rightarrow> ('s, 'b) action) \<Rightarrow> ('s, 'b) action" where
  "sbind m f s = (case m s of (s', Inl e) \<Rightarrow> (s', Inl e) | (s', Inr x) \<Rightarrow> f x s')"

definition upd :: "('s \<Rightarrow> 's) \<Rightarrow> ('s, unit) action" where
  "upd f s = (f s, Inr ())"

definition gets :: "('s \<Rightarrow> 'a) \<Rightarrow> ('s, 'a) action" where
  "gets f s = (s, Inr (f s))"

definition lift_result :: "'a result \<Rightarrow> ('s, 'a) action" where
  "lift_result r s = (s, r)"

definition sassert :: "string \<Rightarrow> ('s \<Rightarrow> bool) \<Rightarrow> ('s, unit) action" where
  "sassert msg p s = (s, rassert msg (p s))"

definition swhen :: "bool \<Rightarrow> ('s, unit) action \<Rightarrow> ('s, unit) action" where
  "swhen b m = (if b then m else ret ())"

fun sseq :: "('s, unit) action list \<Rightarrow> ('s, unit) action" where
  "sseq [] = ret ()"
| "sseq (m # ms) = sbind m (\<lambda>_. sseq ms)"

definition sforeach :: "('a \<Rightarrow> ('s, unit) action) \<Rightarrow> 'a list \<Rightarrow> ('s, unit) action" where
  "sforeach f xs = sseq (map f xs)"

text \<open>Reading a field before going on: \<open>with_state (\<lambda>s. m)\<close> runs the action chosen from the current state.\<close>

definition with_state :: "('s \<Rightarrow> ('s, 'a) action) \<Rightarrow> ('s, 'a) action" where
  "with_state f s = f s s"

definition keeps :: "('s \<Rightarrow> bool) \<Rightarrow> ('s, 'a) action \<Rightarrow> bool" where
  "keeps P m \<longleftrightarrow> (\<forall>s. P s \<longrightarrow> P (fst (m s)))"

lemmas effect_defs = ret_def raises_def sbind_def upd_def gets_def lift_result_def sassert_def
  swhen_def with_state_def sforeach_def

lemma keepsI: "(\<And>s. P s \<Longrightarrow> P (fst (m s))) \<Longrightarrow> keeps P m"
  by (simp add: keeps_def)

lemma keepsD: "keeps P m \<Longrightarrow> P s \<Longrightarrow> P (fst (m s))"
  by (simp add: keeps_def)

lemma keeps_pure [keeps_intros]:
  "keeps P (ret x)" "keeps P (raises e)" "keeps P (gets f)" "keeps P (lift_result r)" "keeps P (sassert msg p)"
  by (simp_all add: keeps_def effect_defs)

lemma keeps_upd [keeps_intros]: "(\<And>s. P s \<Longrightarrow> P (f s)) \<Longrightarrow> keeps P (upd f)"
  by (simp add: keeps_def upd_def)

lemma keeps_sbind [keeps_intros]: "keeps P m \<Longrightarrow> (\<And>x. keeps P (f x)) \<Longrightarrow> keeps P (sbind m f)"
  by (auto simp: keeps_def sbind_def split: prod.splits sum.splits)

lemma keeps_swhen [keeps_intros]: "(b \<Longrightarrow> keeps P m) \<Longrightarrow> keeps P (swhen b m)"
  by (simp add: swhen_def keeps_pure)

lemma keeps_sseq [keeps_intros]: "(\<And>m. m \<in> set ms \<Longrightarrow> keeps P m) \<Longrightarrow> keeps P (sseq ms)"
  by (induction ms) (auto intro!: keeps_pure keeps_sbind)

lemma keeps_sforeach [keeps_intros]: "(\<And>x. x \<in> set xs \<Longrightarrow> keeps P (f x)) \<Longrightarrow> keeps P (sforeach f xs)"
  unfolding sforeach_def by (rule keeps_sseq) auto

lemma keeps_with_state [keeps_intros]: "(\<And>s. keeps P (f s)) \<Longrightarrow> keeps P (with_state f)"
  by (simp add: keeps_def with_state_def)

lemma sbind_ret [simp]: "sbind m ret = (m :: ('s, unit) action)"
  by (rule ext) (auto simp: sbind_def ret_def split: prod.splits sum.splits)

lemma sbind_upd [simp]: "sbind (upd f) g s = g () (f s)"
  by (simp add: sbind_def upd_def)

lemma sseq_append: "sseq (ms @ ns) s = sbind (sseq ms) (\<lambda>_. sseq ns) s"
  by (induction ms arbitrary: s) (auto simp: effect_defs split: prod.splits sum.splits)

end
