(* ===== verification/Placement_Utils.thy ===== *)
theory Placement_Utils
  imports Topology Py_Float
begin

text \<open>
  The helpers of placement (\<^verbatim>\<open>src/exo/master/placement_utils.py\<close>): choosing cycles by memory and
  size, distributing the layers of a model over nodes in proportion to their free memory, building
  the shard assignments for pipeline, CFG and tensor parallelism, and the host lists, device
  matrices and coordinator addresses of the MLX backends.

  Fresh runner ids (\<^verbatim>\<open>uuid4\<close>) are the parameter \<open>rids\<close>: the id of the runner created for the i-th
  node. Floats are rounded as in \<open>Py_Float\<close>.
\<close>

section \<open>Choosing cycles\<close>

definition sum_available :: "(node_id, memory_usage) dict \<Rightarrow> node_id list \<Rightarrow> memory result" where
  "sum_available node_memory ns =
     rfold (\<lambda>acc n. rbind (of_option KeyError (dict_get node_memory n))
       (\<lambda>m. Inr (acc + ram_available m))) (Memory 0) ns"

text \<open>The sum is only formed when every node of the cycle has a memory entry.\<close>

fun filter_cycles_by_memory ::
  "cycle list \<Rightarrow> (node_id, memory_usage) dict \<Rightarrow> memory \<Rightarrow> cycle list result" where
  "filter_cycles_by_memory [] node_memory required = Inr []"
| "filter_cycles_by_memory (c # cs) node_memory required =
     (if \<not> list_all (\<lambda>n. dict_mem n node_memory) c
      then filter_cycles_by_memory cs node_memory required
      else rbind (sum_available node_memory c) (\<lambda>total_mem.
           rbind (filter_cycles_by_memory cs node_memory required) (\<lambda>rest.
           Inr (if required \<le> total_mem then c # rest else rest))))"

definition get_smallest_cycles :: "cycle list \<Rightarrow> cycle list result" where
  "get_smallest_cycles cycles =
     rbind (py_min_key length cycles)
       (\<lambda>c. Inr (filter (\<lambda>d. length d = length c) cycles))"

section \<open>Layers in proportion to memory\<close>

definition raw_shares :: "int \<Rightarrow> pyfloat list \<Rightarrow> pyfloat list" where
  "raw_shares total_layers fractions = map (\<lambda>f. fl (f * fl (of_int total_layers))) fractions"

text \<open>\<^verbatim>\<open>sorted(range(n), key=..., reverse=True)\<close> keeps the order of equal keys.\<close>

definition by_remainder :: "pyfloat list \<Rightarrow> int list \<Rightarrow> nat list" where
  "by_remainder raw floors =
     sort_key (\<lambda>i. - fl (raw ! i - of_int (floors ! i))) [0..<length raw]"

definition give_remainder :: "nat list \<Rightarrow> int \<Rightarrow> int list \<Rightarrow> int list result" where
  "give_remainder order k floors =
     rfold (\<lambda>res i. if i < length order then Inr (res[order ! i := res ! (order ! i) + 1])
                    else Inl IndexError) floors [0..<nat k]"

definition take_from_largest :: "int list \<Rightarrow> nat \<Rightarrow> int list result" where
  "take_from_largest res i =
     (if res ! i \<noteq> 0 then Inr res
      else rbind (py_max_by (\<lambda>a b. res ! a < res ! b) [0..<length res]) (\<lambda>max_idx.
           rbind (rassert ''result[max_idx] > 1'' (res ! max_idx > 1)) (\<lambda>_.
           Inr (res[max_idx := res ! max_idx - 1, i := 1]))))"

definition allocate_layers_proportionally :: "int \<Rightarrow> pyfloat list \<Rightarrow> int list result" where
  "allocate_layers_proportionally total_layers fractions =
     (let n = length fractions
      in if n = 0 then Inl (ValueError ''Cannot allocate layers to an empty node list'')
         else if total_layers < int n
         then Inl (ValueError ''Cannot distribute layers (need at least 1 layer per node)'')
         else
           let raw = raw_shares total_layers fractions;
               floors = map py_trunc raw
           in rbind (give_remainder (by_remainder raw floors) (total_layers - sum_list floors) floors)
                (\<lambda>res. rfold take_from_largest res [0..<n]))"

section \<open>Shard assignments\<close>

definition validate_cycle :: "cycle \<Rightarrow> unit result" where
  "validate_cycle c =
     (if c = [] then Inl (ValueError ''Cannot create shard assignments for empty node cycle'')
      else Inr ())"

definition compute_total_memory :: "node_id list \<Rightarrow> (node_id, memory_usage) dict \<Rightarrow> memory result" where
  "compute_total_memory ns node_memory =
     rbind (sum_available node_memory ns) (\<lambda>total_mem.
       if in_bytes total_mem = 0
       then Inl (ValueError ''Cannot create shard assignments: total available memory is 0'')
       else Inr total_mem)"

definition check_node_memory ::
  "(node_id, memory_usage) dict \<Rightarrow> model_card \<Rightarrow> int list \<Rightarrow> nat \<times> node_id \<Rightarrow> unit result" where
  "check_node_memory node_memory mcard allocs x =
     (case x of (i, n) \<Rightarrow>
        rbind (mem_floordiv (mem_mul_int (mc_storage_size mcard) (allocs ! i)) (mc_n_layers mcard)) (\<lambda>required.
        rbind (of_option KeyError (dict_get node_memory n)) (\<lambda>m.
        if required > ram_available m
        then Inl (ValueError ''insufficient memory'') else Inr ())))"

definition allocate_and_validate_layers ::
  "node_id list \<Rightarrow> (node_id, memory_usage) dict \<Rightarrow> memory \<Rightarrow> model_card \<Rightarrow> int list result" where
  "allocate_and_validate_layers ns node_memory total_mem mcard =
     rbind (rmap (\<lambda>n. rbind (of_option KeyError (dict_get node_memory n))
                        (\<lambda>m. mem_ratio (ram_available m) total_mem)) ns) (\<lambda>fractions.
     rbind (allocate_layers_proportionally (mc_n_layers mcard) fractions) (\<lambda>allocs.
     rbind (rmap (check_node_memory node_memory mcard allocs) (enumerate 0 ns)) (\<lambda>_.
     Inr allocs)))"

definition mk_base_shard :: "model_card \<Rightarrow> nat \<Rightarrow> nat \<Rightarrow> int \<Rightarrow> int \<Rightarrow> base_shard" where
  "mk_base_shard mcard rank world start_l end_l =
     \<lparr>shard_model_card = mcard, device_rank = int rank, world_size = int world,
      immediate_exception = False, should_timeout = None, start_layer = start_l, end_layer = end_l,
      n_layers = mc_n_layers mcard\<rparr>"

text \<open>The loop shared by the three kinds of sharding: a fresh runner per node, in rank order.\<close>

definition assign_runners ::
  "(nat \<Rightarrow> runner_id) \<Rightarrow> model_card \<Rightarrow> cycle \<Rightarrow> (nat \<Rightarrow> shard_metadata) \<Rightarrow> shard_assignments result" where
  "assign_runners rids mcard c shard_of =
     (let (r2s, n2r) = foldl (\<lambda>(r2s, n2r) (i, n).
            (dict_set r2s (rids i) (shard_of i), dict_set n2r n (rids i))) ([], []) (enumerate 0 c)
      in mk_shard_assignments (mc_model_id mcard) r2s n2r)"

definition get_shard_assignments_for_pure_pipeline ::
  "(nat \<Rightarrow> runner_id) \<Rightarrow> model_card \<Rightarrow> cycle \<Rightarrow> (node_id, memory_usage) dict \<Rightarrow> shard_assignments result" where
  "get_shard_assignments_for_pure_pipeline rids mcard c node_memory =
     rbind (validate_cycle c) (\<lambda>_.
     rbind (compute_total_memory c node_memory) (\<lambda>total_mem.
     rbind (allocate_and_validate_layers c node_memory total_mem mcard) (\<lambda>allocs.
     assign_runners rids mcard c (\<lambda>i.
       let before = sum_list (take i allocs)
       in PipelineShardMetadata (mk_base_shard mcard i (length c) before (before + allocs ! i))))))"

text \<open>Group 0 ascending, then group 1 descending.\<close>

definition cfg_position :: "nat \<Rightarrow> nat \<Rightarrow> int \<times> nat" where
  "cfg_position p i = (map (\<lambda>r. (0, r)) [0..<p] @ map (\<lambda>r. (1, r)) (rev [0..<p])) ! i"

definition get_shard_assignments_for_cfg_parallel ::
  "(nat \<Rightarrow> runner_id) \<Rightarrow> model_card \<Rightarrow> cycle \<Rightarrow> (node_id, memory_usage) dict \<Rightarrow> shard_assignments result" where
  "get_shard_assignments_for_cfg_parallel rids mcard c node_memory =
     rbind (validate_cycle c) (\<lambda>_.
     let p = length c div 2; pipeline_node_ids = take p c
     in rbind (compute_total_memory pipeline_node_ids node_memory) (\<lambda>total_mem.
        rbind (allocate_and_validate_layers pipeline_node_ids node_memory total_mem mcard) (\<lambda>allocs.
        assign_runners rids mcard c (\<lambda>i.
          let (cfg, r) = cfg_position p i; before = sum_list (take r allocs)
          in CfgShardMetadata (mk_base_shard mcard i (length c) before (before + allocs ! r))
               cfg 2 (int r) (int p)))))"

definition get_shard_assignments_for_pipeline_parallel ::
  "(nat \<Rightarrow> runner_id) \<Rightarrow> model_card \<Rightarrow> cycle \<Rightarrow> (node_id, memory_usage) dict \<Rightarrow> shard_assignments result" where
  "get_shard_assignments_for_pipeline_parallel rids mcard c node_memory =
     (let w = length c
      in if mc_uses_cfg mcard \<and> 2 \<le> w \<and> w mod 2 = 0
         then get_shard_assignments_for_cfg_parallel rids mcard c node_memory
         else get_shard_assignments_for_pure_pipeline rids mcard c node_memory)"

definition get_shard_assignments_for_tensor_parallel ::
  "(nat \<Rightarrow> runner_id) \<Rightarrow> model_card \<Rightarrow> cycle \<Rightarrow> shard_assignments result" where
  "get_shard_assignments_for_tensor_parallel rids mcard c =
     assign_runners rids mcard c (\<lambda>i.
       TensorShardMetadata (mk_base_shard mcard i (length c) 0 (mc_n_layers mcard)))"

fun get_shard_assignments ::
  "(nat \<Rightarrow> runner_id) \<Rightarrow> model_card \<Rightarrow> cycle \<Rightarrow> sharding \<Rightarrow> (node_id, memory_usage) dict \<Rightarrow>
   shard_assignments result" where
  "get_shard_assignments rids mcard c Pipeline node_memory =
     get_shard_assignments_for_pipeline_parallel rids mcard c node_memory"
| "get_shard_assignments rids mcard c Tensor node_memory =
     get_shard_assignments_for_tensor_parallel rids mcard c"

section \<open>Backends\<close>

fun first_rdma_iface :: "edge list \<Rightarrow> string option" where
  "first_rdma_iface [] = None"
| "first_rdma_iface (RDMAConnection src snk # es) = Some src"
| "first_rdma_iface (SocketConnection m # es) = first_rdma_iface es"

definition get_mlx_jaccl_devices_matrix ::
  "'g env \<Rightarrow> node_id list \<Rightarrow> 'g topology \<Rightarrow> string option list list result" where
  "get_mlx_jaccl_devices_matrix rx c t =
     rmap (\<lambda>(i, node_i).
       rmap (\<lambda>(j, node_j).
         if i = j then Inr None
         else case first_rdma_iface (get_all_connections_between rx t node_i node_j) of
                Some src \<Rightarrow> Inr (Some src)
              | None \<Rightarrow> Inl (ValueError ''Current jaccl backend requires all-to-all RDMA connections''))
         (enumerate 0 c)) (enumerate 0 c)"

fun socket_ips :: "edge list \<Rightarrow> string list result" where
  "socket_ips [] = Inr []"
| "socket_ips (SocketConnection m # es) =
     rbind (ip_address m) (\<lambda>ip. rbind (socket_ips es) (\<lambda>ips. Inr (ip # ips)))"
| "socket_ips (RDMAConnection src snk # es) = socket_ips es"

definition find_connection_ip :: "'g env \<Rightarrow> 'g topology \<Rightarrow> node_id \<Rightarrow> node_id \<Rightarrow> string list result" where
  "find_connection_ip rx t i j = socket_ips (get_all_connections_between rx t i j)"

fun ip_priority :: "bool \<Rightarrow> interface_type \<Rightarrow> nat" where
  "ip_priority True ThunderboltIf = 0"
| "ip_priority True MaybeEthernet = 1"
| "ip_priority True Ethernet = 2"
| "ip_priority True Wifi = 3"
| "ip_priority True UnknownIf = 4"
| "ip_priority False Ethernet = 0"
| "ip_priority False Wifi = 1"
| "ip_priority False UnknownIf = 2"
| "ip_priority False MaybeEthernet = 3"
| "ip_priority False ThunderboltIf = 4"

definition find_ip_prioritised ::
  "'g env \<Rightarrow> node_id \<Rightarrow> node_id \<Rightarrow> 'g topology \<Rightarrow> (node_id, node_network_info) dict \<Rightarrow> bool \<Rightarrow>
   string option result" where
  "find_ip_prioritised rx n other t node_network ring =
     rbind (find_connection_ip rx t n other) (\<lambda>ips.
       if ips = [] then Inr None
       else
         let ip_to_type = dict_of (map (\<lambda>i. (if_ip_address i, if_interface_type i))
               (dict_get_default node_network other []))
         in rbind (py_min_key (\<lambda>ip. ip_priority ring (dict_get_default ip_to_type ip UnknownIf)) ips)
              (\<lambda>ip. Inr (Some ip)))"

definition ring_host ::
  "'g env \<Rightarrow> 'g topology \<Rightarrow> (node_id, node_network_info) dict \<Rightarrow> int \<Rightarrow> nat \<Rightarrow> nat \<Rightarrow> node_id \<Rightarrow>
   nat \<times> node_id \<Rightarrow> host result" where
  "ring_host rx t node_network port w rank n x =
     (case x of (idx, other) \<Rightarrow>
        let left_rank = (int rank - 1) mod int w; right_rank = (int rank + 1) mod int w
        in if idx = rank then mk_host ''0.0.0.0'' port
           else if int idx \<noteq> left_rank \<and> int idx \<noteq> right_rank then mk_host ''198.51.100.1'' 0
           else rbind (find_ip_prioritised rx n other t node_network True) (\<lambda>ip.
             case ip of
               None \<Rightarrow> Inl (ValueError ''MLX ring backend requires connectivity between neighbouring nodes'')
             | Some a \<Rightarrow> mk_host a port))"

definition get_mlx_ring_hosts_by_node ::
  "'g env \<Rightarrow> cycle \<Rightarrow> 'g topology \<Rightarrow> int \<Rightarrow> (node_id, node_network_info) dict \<Rightarrow>
   (node_id, host list) dict result" where
  "get_mlx_ring_hosts_by_node rx c t port node_network =
     rfold (\<lambda>d (rank, n).
       rbind (rmap (ring_host rx t node_network port (length c) rank n) (enumerate 0 c))
         (\<lambda>hosts. Inr (dict_set d n hosts))) [] (enumerate 0 c)"

definition get_ip_for_node ::
  "'g env \<Rightarrow> node_id \<Rightarrow> 'g topology \<Rightarrow> (node_id, node_network_info) dict \<Rightarrow> node_id \<Rightarrow> string result" where
  "get_ip_for_node rx coordinator t node_network n =
     (if n = coordinator then Inr ''0.0.0.0''
      else rbind (find_ip_prioritised rx n coordinator t node_network False) (\<lambda>ip.
        of_option (ValueError ''Current jaccl backend requires all participating devices to be able to communicate'') ip))"

definition get_mlx_jaccl_coordinators ::
  "'g env \<Rightarrow> node_id \<Rightarrow> int \<Rightarrow> 'g topology \<Rightarrow> (node_id, node_network_info) dict \<Rightarrow>
   (node_id, string) dict result" where
  "get_mlx_jaccl_coordinators rx coordinator port t node_network =
     rbind (rmap (\<lambda>n. rbind (get_ip_for_node rx coordinator t node_network n)
              (\<lambda>ip. Inr (n, ip @ '':'' @ show_int port))) (list_nodes rx t))
       (\<lambda>ps. Inr (dict_of ps))"

section \<open>The layer allocation is exact\<close>

lemma sum_list_int_update:
  "k < length xs \<Longrightarrow> sum_list (xs[k := x]) = sum_list xs + x - xs ! k" for x :: int
  by (induction xs arbitrary: k) (auto split: nat.splits)

lemma give_remainder_spec:
  assumes "length order = length floors" "set order \<subseteq> {..<length floors}" "k \<le> int (length floors)"
  shows "\<exists>res. give_remainder order k floors = Inr res \<and> length res = length floors \<and>
    sum_list res = sum_list floors + max k 0 \<and> (\<forall>j < length floors. floors ! j \<le> res ! j)"
proof -
  let ?f = "\<lambda>res i. if i < length order then Inr (res[order ! i := res ! (order ! i) + (1 :: int)])
    else Inl IndexError"
  have "\<exists>res. rfold ?f floors [0..<m] = Inr res \<and> length res = length floors \<and>
      sum_list res = sum_list floors + int m \<and> (\<forall>j < length floors. floors ! j \<le> res ! j)"
    if "m \<le> length floors" for m
    using that
  proof (induction m)
    case (Suc m)
    then obtain res where res: "rfold ?f floors [0..<m] = Inr res" "length res = length floors"
      "sum_list res = sum_list floors + int m" "\<forall>j < length floors. floors ! j \<le> res ! j" by auto
    have m: "m < length order" using Suc.prems assms(1) by simp
    then have o: "order ! m < length res" using assms(2) res(2) nth_mem by fastforce
    have "rfold ?f floors [0..<Suc m] = Inr (res[order ! m := res ! (order ! m) + 1])"
      using m by (simp add: rfold_append res(1))
    moreover have "\<forall>j < length floors. floors ! j \<le> res[order ! m := res ! (order ! m) + 1] ! j"
      using res(4) o by (auto simp: nth_list_update) (metis add.commute add_increasing zero_le_one)?
    ultimately show ?case
      using res o by (auto simp: sum_list_int_update)
  qed simp
  note rec = this
  have k: "nat k \<le> length floors" "int (nat k) = max k 0" using assms(3) by auto
  show ?thesis
    unfolding give_remainder_def k(2) [symmetric] by (rule rec [OF k(1)])
qed

lemma sum_list_le_length: "\<forall>x \<in> set xs. x \<le> (1 :: int) \<Longrightarrow> sum_list xs \<le> int (length xs)"
  by (induction xs) auto

lemma sum_list_zero_lt:
  assumes "\<forall>x \<in> set xs. x \<le> (1 :: int)" "i < length xs" "xs ! i = 0"
  shows "sum_list xs < int (length xs)"
proof -
  have "sum_list (xs[i := 1]) \<le> int (length xs)"
    using sum_list_le_length [of "xs[i := 1]"] assms(1) set_update_subset_insert [of xs i 1] by fastforce
  with assms show ?thesis by (simp add: sum_list_int_update)
qed

definition allocation_ok :: "nat \<Rightarrow> int \<Rightarrow> int list \<Rightarrow> bool" where
  "allocation_ok n L res \<longleftrightarrow> length res = n \<and> sum_list res = L \<and> (\<forall>x \<in> set res. 0 \<le> x)"

lemma take_from_largest_spec:
  assumes "allocation_ok n L res" "int n \<le> L" "i < n"
  shows "\<exists>res'. take_from_largest res i = Inr res' \<and> allocation_ok n L res' \<and> 1 \<le> res' ! i \<and>
    (\<forall>j < n. 1 \<le> res ! j \<longrightarrow> 1 \<le> res' ! j)"
proof (cases "res ! i = 0")
  case False
  moreover have "0 \<le> res ! i" using assms by (simp add: allocation_ok_def)
  ultimately have "1 \<le> res ! i" by simp
  with False assms show ?thesis by (auto simp: take_from_largest_def)
next
  case True
  have len: "length res = n" "sum_list res = L" and nonneg: "\<forall>x \<in> set res. 0 \<le> x"
    using assms(1) by (auto simp: allocation_ok_def)
  obtain m where m: "py_max_by (\<lambda>a b. res ! a < res ! b) [0..<length res] = Inr m"
    using py_max_by_total [of "[0..<length res]"] assms(3) len(1) by fastforce
  have mn: "m < n" using py_max_by_mem [OF m] len(1) by simp
  have ub: "res ! j \<le> res ! m" if "j < n" for j
    using py_max_by_ub [OF _ _ m, of j] that len(1) by fastforce
  have big: "1 < res ! m"
  proof (rule ccontr)
    assume "\<not> 1 < res ! m"
    then have "\<forall>x \<in> set res. x \<le> 1" using ub len(1) by (fastforce simp: in_set_conv_nth)
    from sum_list_zero_lt [OF this _ True] assms(2,3) len show False by simp
  qed
  let ?res = "res[m := res ! m - 1, i := 1]"
  have "m \<noteq> i" using big True by auto
  have "take_from_largest res i = Inr ?res"
    using True m big by (simp add: take_from_largest_def)
  moreover have "sum_list ?res = L"
    using mn assms(3) len True \<open>m \<noteq> i\<close> by (simp add: sum_list_int_update)
  moreover have "\<forall>j < n. ?res ! j = (if j = i then 1 else if j = m then res ! m - 1 else res ! j)"
    using mn assms(3) len(1) by (simp add: nth_list_update)
  moreover have "\<forall>x \<in> set ?res. 0 \<le> x"
    using nonneg [unfolded all_set_conv_all_nth] big mn assms(3) len(1)
    by (auto simp: in_set_conv_nth nth_list_update split: if_splits)
  ultimately show ?thesis
    using len big assms(3) by (intro exI [of _ ?res]) (auto simp: allocation_ok_def)
qed

lemma take_all_spec:
  assumes "allocation_ok n L res" "int n \<le> L" "m \<le> n"
  shows "\<exists>res'. rfold take_from_largest res [0..<m] = Inr res' \<and> allocation_ok n L res' \<and>
    (\<forall>j < m. 1 \<le> res' ! j)"
  using assms(3)
proof (induction m)
  case 0
  then show ?case using assms(1) by simp
next
  case (Suc m)
  then obtain r where r: "rfold take_from_largest res [0..<m] = Inr r" "allocation_ok n L r"
    "\<forall>j < m. 1 \<le> r ! j" by auto
  from take_from_largest_spec [OF r(2) assms(2), of m] Suc.prems obtain r' where
    r': "take_from_largest r m = Inr r'" "allocation_ok n L r'" "1 \<le> r' ! m"
    "\<forall>j < n. 1 \<le> r ! j \<longrightarrow> 1 \<le> r' ! j" by auto
  have "\<forall>j < Suc m. 1 \<le> r' ! j"
    using r(3) r'(3,4) Suc.prems by (auto simp: less_Suc_eq)
  then show ?case using r(1) r' by (auto simp: rfold_append)
qed

text \<open>The rounding errors of the shares stay far below one layer.\<close>

lemma sum_shares_bounds:
  assumes "\<forall>f \<in> set fs. 0 \<le> f" "0 \<le> L"
  shows "\<bar>sum_list (map (\<lambda>f. fl (f * L)) fs) - sum_list fs * L\<bar> \<le> sum_list fs * L / 2 ^ 53"
  using assms(1)
proof (induction fs)
  case (Cons f fs)
  have "\<bar>fl (f * L) - f * L\<bar> \<le> f * L / 2 ^ 53"
    using fl_error [of "f * L"] Cons.prems assms(2) by simp
  moreover have "\<bar>sum_list (map (\<lambda>f. fl (f * L)) fs) - sum_list fs * L\<bar> \<le> sum_list fs * L / 2 ^ 53"
    using Cons by simp
  moreover have "(\<Sum>f\<leftarrow>f # fs. fl (f * L)) - sum_list (f # fs) * L =
      (fl (f * L) - f * L) + ((\<Sum>f\<leftarrow>fs. fl (f * L)) - sum_list fs * L)"
    by (simp add: algebra_simps)
  moreover have "sum_list (f # fs) * L / 2 ^ 53 = f * L / 2 ^ 53 + sum_list fs * L / 2 ^ 53"
    by (simp add: distrib_right add_divide_distrib)
  ultimately show ?case
    using abs_triangle_ineq [of "fl (f * L) - f * L" "(\<Sum>f\<leftarrow>fs. fl (f * L)) - sum_list fs * L"]
    by linarith
qed simp

lemma sum_floors_bounds:
  "of_int (sum_list (map floor xs)) \<le> sum_list xs \<and>
   sum_list xs - rat_of_nat (length xs) \<le> of_int (sum_list (map floor xs))"
proof (induction xs)
  case (Cons x xs)
  have "of_int \<lfloor>x\<rfloor> \<le> x" "x - 1 \<le> of_int \<lfloor>x\<rfloor>" by linarith+
  with Cons show ?case by simp linarith
qed simp

text \<open>Fractions that sum to one up to rounding.\<close>

definition fractions_ok :: "pyfloat list \<Rightarrow> bool" where
  "fractions_ok fs \<longleftrightarrow> (\<forall>f \<in> set fs. 0 \<le> f) \<and> \<bar>sum_list fs - 1\<bar> \<le> 1 / 2 ^ 53"

lemma two_roundings:
  fixes R P L :: rat
  assumes "\<bar>R - P\<bar> \<le> P / 2 ^ 53" "\<bar>P - L\<bar> \<le> L / 2 ^ 53" "L \<le> 2 ^ 50"
  shows "R < L + 1" "L < R + 1"
proof -
  have a: "2 ^ 53 * R \<le> (2 ^ 53 + 1) * P" "(2 ^ 53 - 1) * P \<le> 2 ^ 53 * R"
    using assms(1) unfolding abs_le_iff by (auto simp: field_simps)
  have b: "2 ^ 53 * P \<le> (2 ^ 53 + 1) * L" "(2 ^ 53 - 1) * L \<le> 2 ^ 53 * P"
    using assms(2) unfolding abs_le_iff by (auto simp: field_simps)
  from a b assms(3) show "R < L + 1" "L < R + 1" by simp_all
qed

lemma floor_sum_near:
  assumes "fractions_ok fs" "0 \<le> L" "L \<le> 2 ^ 50"
  defines "floors \<equiv> map py_trunc (raw_shares L fs)"
  shows "sum_list floors \<le> L" "L - sum_list floors \<le> int (length fs)" "\<forall>x \<in> set floors. 0 \<le> x"
proof -
  let ?L = "rat_of_int L" let ?R = "sum_list (map (\<lambda>f. fl (f * ?L)) fs)" let ?S = "sum_list fs"
  have fl_L: "fl ?L = ?L" using assms(2,3) by (intro fl_of_int) simp
  have nonneg: "\<forall>f \<in> set fs. 0 \<le> f" using assms(1) by (simp add: fractions_ok_def)
  have pos: "\<forall>x \<in> set (raw_shares L fs). 0 \<le> x"
    using nonneg assms(2) by (auto simp: raw_shares_def fl_L intro!: fl_nonneg)
  have floors: "floors = map floor (raw_shares L fs)"
    unfolding floors_def using pos by (auto simp: py_trunc_nonneg)
  show "\<forall>x \<in> set floors. 0 \<le> x" using pos by (auto simp: floors)
  have R: "raw_shares L fs = map (\<lambda>f. fl (f * ?L)) fs" by (simp add: raw_shares_def fl_L)
  have S: "\<bar>?S - 1\<bar> \<le> 1 / 2 ^ 53" using assms(1) by (simp add: fractions_ok_def)
  have "\<bar>?R - ?S * ?L\<bar> \<le> ?S * ?L / 2 ^ 53"
    by (rule sum_shares_bounds) (use nonneg assms(2) in auto)
  note e1 = this
  have e2: "\<bar>?S * ?L - ?L\<bar> \<le> ?L / 2 ^ 53"
  proof -
    have "?S * ?L - ?L = (?S - 1) * ?L" by (simp add: algebra_simps)
    then have "\<bar>?S * ?L - ?L\<bar> = \<bar>?S - 1\<bar> * ?L" using assms(2) by (simp add: abs_mult)
    also have "\<dots> \<le> 1 / 2 ^ 53 * ?L" using S assms(2) by (intro mult_right_mono) auto
    finally show ?thesis by simp
  qed
  have "?L \<le> 2 ^ 50" using assms(3) by (metis of_int_le_iff of_int_numeral of_int_power)
  note near = two_roundings [OF e1 e2 this]
  note fb = sum_floors_bounds [of "raw_shares L fs", folded floors, unfolded R]
  have "rat_of_int (sum_list floors) < ?L + 1" using fb near by (simp add: floors R)
  then show "sum_list floors \<le> L" by (metis of_int_1 of_int_add of_int_less_iff zle_add1_eq_le)
  have "?L - rat_of_int (sum_list floors) < rat_of_nat (length fs) + 1"
    using fb near by (simp add: floors R)
  then have "rat_of_int (L - sum_list floors) < rat_of_int (int (length fs) + 1)" by simp
  then show "L - sum_list floors \<le> int (length fs)" by (simp only: of_int_less_iff)
qed

lemma by_remainder_perm:
  "length (by_remainder raw floors) = length raw" "set (by_remainder raw floors) = {..<length raw}"
  by (auto simp: by_remainder_def)

lemma allocate_layers_ok:
  assumes "fractions_ok fs" "fs \<noteq> []" "int (length fs) \<le> L" "L \<le> 2 ^ 50"
  shows "\<exists>res. allocate_layers_proportionally L fs = Inr res \<and> length res = length fs \<and>
    sum_list res = L \<and> (\<forall>x \<in> set res. 1 \<le> x)"
proof -
  let ?n = "length fs" let ?raw = "raw_shares L fs" let ?floors = "map py_trunc (raw_shares L fs)"
  let ?order = "by_remainder ?raw ?floors"
  have L: "0 \<le> L" using assms(3) by simp
  note near = floor_sum_near [OF assms(1) L assms(4)]
  have n: "length ?floors = ?n" by (simp add: raw_shares_def)
  obtain r where r: "give_remainder ?order (L - sum_list ?floors) ?floors = Inr r"
    "length r = ?n" "sum_list r = L" "\<forall>j < ?n. ?floors ! j \<le> r ! j"
    using give_remainder_spec [of ?order ?floors "L - sum_list ?floors"] near n
    by (auto simp: by_remainder_perm raw_shares_def)
  have "\<forall>x \<in> set r. 0 \<le> x"
  proof
    fix x assume "x \<in> set r"
    then obtain j where j: "j < ?n" "x = r ! j" using r(2) by (auto simp: in_set_conv_nth)
    then have "0 \<le> ?floors ! j" using near(3) n by (metis nth_mem)
    with r(4) j show "0 \<le> x" by fastforce
  qed
  then have "allocation_ok ?n L r" using r by (simp add: allocation_ok_def)
  from take_all_spec [OF this assms(3) order_refl] obtain res where
    res: "rfold take_from_largest r [0..<?n] = Inr res" "allocation_ok ?n L res" "\<forall>j < ?n. 1 \<le> res ! j"
    by blast
  have "\<forall>x \<in> set res. 1 \<le> x" using res(2,3) by (auto simp: in_set_conv_nth allocation_ok_def)
  moreover have "allocate_layers_proportionally L fs = Inr res"
    using assms(2,3) r(1) res(1) by (simp add: allocate_layers_proportionally_def Let_def)
  ultimately show ?thesis using res(2) by (auto simp: allocation_ok_def)
qed

section \<open>Assignments\<close>

lemma assign_fold:
  fixes shard_of :: "nat \<Rightarrow> shard_metadata"
  assumes "distinct c" "inj rids"
  defines "F \<equiv> \<lambda>(r2s, n2r) (i, n). (dict_set r2s (rids i) (shard_of i), dict_set n2r n (rids i))"
  shows "\<exists>r2s' n2r'. foldl F (r2s, n2r) (enumerate k c) = (r2s', n2r') \<and>
    (\<forall>i < length c. dict_get r2s' (rids (k + i)) = Some (shard_of (k + i)) \<and>
       dict_get n2r' (c ! i) = Some (rids (k + i))) \<and>
    (\<forall>r. r \<notin> rids ` {k..<k + length c} \<longrightarrow> dict_get r2s' r = dict_get r2s r) \<and>
    (\<forall>n. n \<notin> set c \<longrightarrow> dict_get n2r' n = dict_get n2r n)"
  using assms(1)
proof (induction c arbitrary: k r2s n2r)
  case (Cons n c)
  obtain r2s' n2r' where IH:
    "foldl F (dict_set r2s (rids k) (shard_of k), dict_set n2r n (rids k)) (enumerate (Suc k) c) = (r2s', n2r')"
    "\<forall>i < length c. dict_get r2s' (rids (Suc k + i)) = Some (shard_of (Suc k + i)) \<and>
       dict_get n2r' (c ! i) = Some (rids (Suc k + i))"
    "\<forall>r. r \<notin> rids ` {Suc k..<Suc k + length c} \<longrightarrow>
       dict_get r2s' r = dict_get (dict_set r2s (rids k) (shard_of k)) r"
    "\<forall>m. m \<notin> set c \<longrightarrow> dict_get n2r' m = dict_get (dict_set n2r n (rids k)) m"
    using Cons.IH [of "dict_set r2s (rids k) (shard_of k)" "dict_set n2r n (rids k)" "Suc k"] Cons.prems
    by (meson distinct.simps(2))
  have "rids k \<notin> rids ` {Suc k..<Suc k + length c}" using assms(2) by (auto dest: injD)
  with IH(3) have k: "dict_get r2s' (rids k) = Some (shard_of k)" by simp
  have "n \<notin> set c" using Cons.prems by simp
  with IH(4) have n: "dict_get n2r' n = Some (rids k)" by simp
  have "\<forall>i < length (n # c). dict_get r2s' (rids (k + i)) = Some (shard_of (k + i)) \<and>
       dict_get n2r' ((n # c) ! i) = Some (rids (k + i))"
    using k n IH(2) by (auto simp: nth_Cons split: nat.splits)
  moreover have "{k..<k + length (n # c)} = insert k {Suc k..<Suc k + length c}" by auto
  with IH(3) have "\<forall>r. r \<notin> rids ` {k..<k + length (n # c)} \<longrightarrow> dict_get r2s' r = dict_get r2s r"
    by (simp only: image_insert) simp
  moreover have "\<forall>m. m \<notin> set (n # c) \<longrightarrow> dict_get n2r' m = dict_get n2r m"
    using IH(4) by auto
  ultimately show ?case using IH(1) by (simp add: F_def)
qed simp

lemma assign_runners_spec:
  assumes "assign_runners rids mcard c shard_of = Inr sa" "distinct c" "inj rids"
  shows "\<forall>i < length c. dict_get (node_to_runner sa) (c ! i) = Some (rids i) \<and>
      dict_get (runner_to_shard sa) (rids i) = Some (shard_of i)"
    and "\<forall>n. n \<notin> set c \<longrightarrow> dict_get (node_to_runner sa) n = None"
    and "sa_model_id sa = mc_model_id mcard"
  using assign_fold [OF assms(2,3), of shard_of "[]" "[]" 0] assms(1)
  by (auto simp: assign_runners_def mk_shard_assignments_def split: if_splits)

lemma assign_runners_total:
  assumes "distinct c" "inj rids"
  shows "\<exists>sa. assign_runners rids mcard c shard_of = Inr sa"
proof -
  obtain r2s n2r where f: "foldl (\<lambda>(r2s, n2r) (i, n). (dict_set r2s (rids i) (shard_of i), dict_set n2r n (rids i)))
      ([], []) (enumerate 0 c) = (r2s, n2r)"
    "\<forall>i < length c. dict_get r2s (rids i) = Some (shard_of i) \<and> dict_get n2r (c ! i) = Some (rids i)"
    "\<forall>n. n \<notin> set c \<longrightarrow> dict_get n2r n = None"
    using assign_fold [OF assms, of shard_of "[]" "[]" 0] by auto
  have wf: "wf_dict (snd (foldl (\<lambda>(r2s, n2r) (i, n). (dict_set r2s (rids i) (shard_of i), dict_set n2r n (rids i)))
      ([], []) (enumerate 0 c)))"
    by (rule foldl_invariant [where P = "\<lambda>x. wf_dict (snd x)"]) (auto split: prod.splits)
  have "dict_mem r r2s" if "r \<in> set (dict_values n2r)" for r
  proof -
    from that obtain n where "(n, r) \<in> set n2r" by auto
    then have nr: "dict_get n2r n = Some r" using wf by (simp add: f(1) dict_get_eq_mem)
    then have "n \<in> set c" using f(3) by fastforce
    then obtain i where "i < length c" "c ! i = n" by (auto simp: in_set_conv_nth)
    with f(2) nr show ?thesis by auto
  qed
  then show ?thesis
    by (simp add: assign_runners_def f(1) mk_shard_assignments_def list_all_iff)
qed

text \<open>The fractions of the free memory sum to one up to rounding.\<close>

lemma sum_available_eq:
  "sum_available mem ns = Inr t \<Longrightarrow>
   (\<forall>n \<in> set ns. dict_mem n mem) \<and>
   in_bytes t = sum_list (map (\<lambda>n. in_bytes (ram_available (the (dict_get mem n)))) ns)"
proof -
  let ?f = "\<lambda>acc n. rbind (of_option KeyError (dict_get mem n)) (\<lambda>m. Inr (acc + ram_available m))"
  have "rfold ?f a ns = Inr t \<Longrightarrow> (\<forall>n \<in> set ns. dict_mem n mem) \<and>
      in_bytes t = in_bytes a + sum_list (map (\<lambda>n. in_bytes (ram_available (the (dict_get mem n)))) ns)" for a
    by (induction ns arbitrary: a) auto
  from this [of "Memory 0"] show "sum_available mem ns = Inr t \<Longrightarrow> (\<forall>n \<in> set ns. dict_mem n mem) \<and>
      in_bytes t = sum_list (map (\<lambda>n. in_bytes (ram_available (the (dict_get mem n)))) ns)"
    by (simp add: sum_available_def)
qed

lemma memory_fractions_ok:
  assumes "\<forall>a \<in> set as. 0 \<le> a" "0 < sum_list as"
  shows "fractions_ok (map (\<lambda>a. fl (of_int a / of_int (sum_list as))) as)"
proof -
  let ?S = "rat_of_int (sum_list as)"
  have S: "0 < ?S" using assms(2) by simp
  have sum: "sum_list (map rat_of_int as) = ?S" by (induction as) auto
  have "\<bar>sum_list (map (\<lambda>f. fl (f * (1 / ?S))) (map rat_of_int as)) - sum_list (map rat_of_int as) * (1 / ?S)\<bar>
      \<le> sum_list (map rat_of_int as) * (1 / ?S) / 2 ^ 53"
    by (rule sum_shares_bounds) (use assms(1) S in auto)
  then have "\<bar>sum_list (map (\<lambda>a. fl (of_int a / ?S)) as) - 1\<bar> \<le> 1 / 2 ^ 53"
    using S unfolding sum by (simp add: comp_def)
  moreover have "\<forall>f \<in> set (map (\<lambda>a. fl (of_int a / ?S)) as). 0 \<le> f"
    using assms(1) S by (auto intro!: fl_nonneg)
  ultimately show ?thesis by (simp add: fractions_ok_def)
qed

definition memory_nonneg :: "(node_id, memory_usage) dict \<Rightarrow> bool" where
  "memory_nonneg mem \<longleftrightarrow> list_all (\<lambda>(n, m). 0 \<le> in_bytes (ram_available m)) mem"

lemma allocate_and_validate_spec:
  assumes "allocate_and_validate_layers ns mem total_mem mcard = Inr allocs"
    and "compute_total_memory ns mem = Inr total_mem" "memory_nonneg mem" "ns \<noteq> []"
    and "mc_n_layers mcard \<le> 2 ^ 50"
  shows "length allocs = length ns \<and> sum_list allocs = mc_n_layers mcard \<and> (\<forall>x \<in> set allocs. 1 \<le> x)"
proof -
  let ?a = "\<lambda>n. in_bytes (ram_available (the (dict_get mem n)))"
  have sum: "in_bytes total_mem = sum_list (map ?a ns)" "in_bytes total_mem \<noteq> 0"
    and mem: "\<forall>n \<in> set ns. dict_mem n mem"
    using assms(2) sum_available_eq by (auto simp: compute_total_memory_def split: if_splits)
  have "0 \<le> ?a n" if n: "n \<in> set ns" for n
  proof -
    obtain m where "dict_get mem n = Some m" using mem n by blast
    with assms(3) show ?thesis
      by (auto simp: memory_nonneg_def list_all_iff dest: map_of_SomeD)
  qed
  then have nonneg: "\<forall>a \<in> set (map ?a ns). 0 \<le> a" by auto
  then have pos: "0 < sum_list (map ?a ns)" using sum by (metis order_less_le sum_list_nonneg)
  obtain fs where fs: "rmap (\<lambda>n. rbind (of_option KeyError (dict_get mem n))
      (\<lambda>m. mem_ratio (ram_available m) total_mem)) ns = Inr fs"
    "allocate_layers_proportionally (mc_n_layers mcard) fs = Inr allocs"
    using assms(1) by (auto simp: allocate_and_validate_layers_def)
  have "rmap (\<lambda>n. rbind (of_option KeyError (dict_get mem n)) (\<lambda>m. mem_ratio (ram_available m) total_mem)) ns =
      Inr (map (\<lambda>n. fl (of_int (?a n) / of_int (in_bytes total_mem))) ns)"
    by (rule rmap_total) (use mem sum(2) in \<open>auto simp: mem_ratio_def py_div_def\<close>)
  then have "fs = map (\<lambda>a. fl (of_int a / of_int (sum_list (map ?a ns)))) (map ?a ns)"
    using fs(1) sum(1) by (simp add: comp_def)
  with memory_fractions_ok [OF nonneg pos] have ok: "fractions_ok fs" and len: "length fs = length ns" by auto
  have "int (length fs) \<le> mc_n_layers mcard"
    using fs(2) by (auto simp: allocate_layers_proportionally_def Let_def split: if_splits)
  with allocate_layers_ok [OF ok _ _ assms(5)] len assms(4) fs(2) show ?thesis by fastforce
qed

lemma cuts_increase:
  assumes "\<forall>x \<in> set xs. 1 \<le> (x :: int)" "i < length xs"
  shows "sum_list (take i xs) < sum_list (take (Suc i) xs) \<and>
    sum_list (take i xs) + xs ! i = sum_list (take (Suc i) xs)"
proof -
  have "1 \<le> xs ! i" using assms by simp
  then show ?thesis using assms(2) by (simp add: take_Suc_conv_app_nth)
qed

section \<open>Properties\<close>

text \<open>
  C13: for non-negative memory fractions that sum to one up to rounding, and at least as many
  layers as nodes, the largest-remainder allocation neither raises nor loses a layer: it returns
  one entry per node, every entry at least 1, and the entries sum to the number of layers. The
  fractions, products and remainders are IEEE doubles; the bound on the number of layers keeps the
  accumulated rounding error below one layer.
\<close>

theorem allocate_layers_exact:
  assumes "fractions_ok fs" "fs \<noteq> []" "int (length fs) \<le> L" "L \<le> 2 ^ 50"
  shows "\<exists>res. allocate_layers_proportionally L fs = Inr res \<and> length res = length fs \<and>
    sum_list res = L \<and> (\<forall>x \<in> set res. 1 \<le> x)"
  by (rule allocate_layers_ok [OF assms])

theorem allocate_layers_exact_witness:
  "\<exists>res. allocate_layers_proportionally 10 [fl (1 / 7), fl (2 / 7), fl (4 / 7)] = Inr res \<and>
     length res = length [1, 2, 4 :: int] \<and> sum_list res = 10 \<and> list_all (\<lambda>x. 1 \<le> x) res"
proof -
  have "fractions_ok (map (\<lambda>a. fl (of_int a / of_int (sum_list [1, 2, 4]))) [1, 2, 4])"
    by (rule memory_fractions_ok) auto
  then have "fractions_ok [fl (1 / 7), fl (2 / 7), fl (4 / 7)]" by simp
  from allocate_layers_exact [OF this, of 10] show ?thesis by (simp add: list_all_iff)
qed

text \<open>
  C14: a pipeline assignment cuts the model into consecutive, non-empty layer ranges: the i-th node
  of the cycle gets its own runner, rank i and the layers from one cut to the next; the first cut
  is 0 and the last is the number of layers, so every layer is computed exactly once.
\<close>

theorem pipeline_shards_partition_layers:
  assumes "get_shard_assignments_for_pure_pipeline rids mcard c mem = Inr sa"
    and "distinct c" "inj rids" "memory_nonneg mem" "mc_n_layers mcard \<le> 2 ^ 50"
  shows "\<exists>cuts. cuts 0 = 0 \<and> cuts (length c) = mc_n_layers mcard \<and>
    (\<forall>i < length c. cuts i < cuts (Suc i) \<and>
       dict_get (node_to_runner sa) (c ! i) = Some (rids i) \<and>
       dict_get (runner_to_shard sa) (rids i) =
         Some (PipelineShardMetadata (mk_base_shard mcard i (length c) (cuts i) (cuts (Suc i)))))"
proof -
  obtain t allocs where t: "compute_total_memory c mem = Inr t" and c: "c \<noteq> []"
    and a: "allocate_and_validate_layers c mem t mcard = Inr allocs"
    and r: "assign_runners rids mcard c (\<lambda>i. let before = sum_list (take i allocs)
       in PipelineShardMetadata (mk_base_shard mcard i (length c) before (before + allocs ! i))) = Inr sa"
    using assms(1) by (auto simp: get_shard_assignments_for_pure_pipeline_def validate_cycle_def split: if_splits)
  note al = allocate_and_validate_spec [OF a t assms(4) c assms(5)]
  note sp = assign_runners_spec(1) [OF r assms(2,3)]
  show ?thesis
    using al sp cuts_increase [of allocs]
    by (intro exI [of _ "\<lambda>i. sum_list (take i allocs)"]) (simp add: Let_def)
qed

definition demo_card :: model_card where
  "demo_card = \<lparr>mc_model_id = ''m'', mc_storage_size = Memory 1000, mc_n_layers = 10, mc_hidden_size = 1,
     mc_supports_tensor = True, mc_num_key_value_heads = None, mc_tasks = [TextGenerationTask],
     mc_components = None, mc_family = [], mc_quantization = [], mc_base_model = [],
     mc_capabilities = [], mc_backends = [MlxMetal], mc_reasoning_dialect = [], mc_context_length = 0,
     mc_uses_cfg = False, mc_trust_remote_code = False, mc_is_custom = False, mc_vision = None,
     mc_sampling_defaults = \<lparr>sd_flat = \<lparr>sv_temperature = None, sv_top_p = None, sv_top_k = None,
       sv_min_p = None, sv_repetition_penalty = None, sv_presence_penalty = None, sv_frequency_penalty = None\<rparr>,
       sd_thinking = None, sd_non_thinking = None\<rparr>\<rparr>"

definition demo_memory :: "int \<Rightarrow> memory_usage" where
  "demo_memory b = \<lparr>ram_total = Memory b, ram_available = Memory b, swap_total = Memory 0, swap_available = Memory 0\<rparr>"

definition demo_rids :: "nat \<Rightarrow> runner_id" where
  "demo_rids i = replicate i CHR ''r''"

lemma inj_demo_rids: "inj demo_rids"
  by (rule injI) (metis demo_rids_def length_replicate)

definition demo_mem :: "(node_id, memory_usage) dict" where
  "demo_mem = [(''a'', demo_memory 3000), (''b'', demo_memory 1000)]"

theorem pipeline_shards_partition_layers_witness:
  "\<exists>sa cuts. get_shard_assignments_for_pure_pipeline demo_rids demo_card [''a'', ''b''] demo_mem = Inr sa \<and>
     cuts 0 = 0 \<and> cuts 0 < (cuts 1 :: int) \<and> cuts 1 < cuts 2 \<and> cuts (2 :: nat) = 10"
proof -
  have "\<not> isl (get_shard_assignments_for_pure_pipeline demo_rids demo_card [''a'', ''b''] demo_mem)"
    by code_simp
  then obtain sa where sa: "get_shard_assignments_for_pure_pipeline demo_rids demo_card [''a'', ''b''] demo_mem = Inr sa"
    by (cases "get_shard_assignments_for_pure_pipeline demo_rids demo_card [''a'', ''b''] demo_mem") auto
  have "memory_nonneg demo_mem" by code_simp
  moreover have "distinct [''a'', ''b'']" "mc_n_layers demo_card \<le> 2 ^ 50" by (simp_all add: demo_card_def)
  ultimately obtain cuts where "cuts 0 = 0" "cuts (length [''a'', ''b'']) = mc_n_layers demo_card"
    "\<forall>i < length [''a'', ''b'']. cuts i < cuts (Suc i)"
    using pipeline_shards_partition_layers [OF sa _ inj_demo_rids] by blast
  with sa show ?thesis by (intro exI [of _ sa] exI [of _ cuts]) (simp add: demo_card_def numeral_2_eq_2 All_less_Suc)
qed

lemma cfg_position_eq:
  "i < 2 * p \<Longrightarrow> cfg_position p i = (if i < p then (0, i) else (1, 2 * p - 1 - i))"
  by (auto simp: cfg_position_def nth_append rev_nth)

text \<open>
  With CFG parallelism on an even cycle of \<open>2 * p\<close> nodes both halves are complete pipelines over
  the same cuts: the first half runs them in ascending order as group 0, the second half in
  descending order as group 1, so the two nodes with the last stage (ranks \<open>p - 1\<close> and \<open>p\<close>) are
  neighbours, and so are the two nodes with the first stage.
\<close>

theorem cfg_shards_two_full_pipelines:
  assumes "get_shard_assignments_for_cfg_parallel rids mcard c mem = Inr sa"
    and "length c = 2 * p" "0 < p" "distinct c" "inj rids" "memory_nonneg mem" "mc_n_layers mcard \<le> 2 ^ 50"
  shows "\<exists>cuts. cuts 0 = 0 \<and> cuts p = mc_n_layers mcard \<and> (\<forall>r < p. cuts r < cuts (Suc r)) \<and>
    (\<forall>i < 2 * p. let (g, r) = (if i < p then (0, i) else (1, 2 * p - 1 - i))
       in dict_get (node_to_runner sa) (c ! i) = Some (rids i) \<and>
          dict_get (runner_to_shard sa) (rids i) = Some (CfgShardMetadata
            (mk_base_shard mcard i (2 * p) (cuts r) (cuts (Suc r))) g 2 (int r) (int p)))"
proof -
  have take: "take p c \<noteq> []" "length (take p c) = p" using assms(2,3) by auto
  obtain t allocs where t: "compute_total_memory (take p c) mem = Inr t"
    and a: "allocate_and_validate_layers (take p c) mem t mcard = Inr allocs"
    and r: "assign_runners rids mcard c (\<lambda>i. let (cfg, r) = cfg_position p i; before = sum_list (take r allocs)
          in CfgShardMetadata (mk_base_shard mcard i (length c) before (before + allocs ! r))
               cfg 2 (int r) (int p)) = Inr sa"
    using assms(1,2) by (auto simp: get_shard_assignments_for_cfg_parallel_def Let_def)
  note al = allocate_and_validate_spec [OF a t assms(6) take(1) assms(7)]
  have inc: "sum_list (take k allocs) < sum_list (take (Suc k) allocs) \<and>
      sum_list (take k allocs) + allocs ! k = sum_list (take (Suc k) allocs)" if "k < p" for k
    using cuts_increase [of allocs k] al take(2) that by simp
  have "let (g, r) = (if i < p then (0, i) else (1, 2 * p - 1 - i))
       in dict_get (node_to_runner sa) (c ! i) = Some (rids i) \<and>
          dict_get (runner_to_shard sa) (rids i) = Some (CfgShardMetadata
            (mk_base_shard mcard i (2 * p) (sum_list (take r allocs)) (sum_list (take (Suc r) allocs)))
            g 2 (int r) (int p))" if "i < 2 * p" for i
    using assign_runners_spec(1) [OF r assms(4,5)] that assms(2) inc [of i] inc [of "2 * p - 1 - i"]
    by (auto simp: cfg_position_eq Let_def)
  with al inc take(2) show ?thesis
    by (intro exI [of _ "\<lambda>k. sum_list (take k allocs)"]) simp
qed

theorem cfg_shards_two_full_pipelines_witness:
  "\<exists>sa. get_shard_assignments_for_cfg_parallel demo_rids (demo_card\<lparr>mc_uses_cfg := True\<rparr>) [''a'', ''b''] demo_mem = Inr sa \<and>
     dict_get (node_to_runner sa) ''b'' = Some (demo_rids 1) \<and>
     dict_get (runner_to_shard sa) (demo_rids 1) =
       Some (CfgShardMetadata (mk_base_shard (demo_card\<lparr>mc_uses_cfg := True\<rparr>) 1 2 0 10) 1 2 0 1)"
proof -
  let ?card = "demo_card\<lparr>mc_uses_cfg := True\<rparr>"
  let ?r = "get_shard_assignments_for_cfg_parallel demo_rids ?card [''a'', ''b''] demo_mem"
  have "\<not> isl ?r" by code_simp
  then obtain sa where sa: "?r = Inr sa" by (cases ?r) auto
  have mem: "memory_nonneg demo_mem" by code_simp
  have hyps: "length [''a'', ''b''] = 2 * 1" "0 < (1 :: nat)" "distinct [''a'', ''b'']"
    "mc_n_layers ?card \<le> 2 ^ 50" by (simp_all add: demo_card_def)
  obtain cuts where cuts: "cuts 0 = 0" "cuts 1 = mc_n_layers ?card"
    and at: "\<forall>i < 2 * 1. let (g, r) = (if i < 1 then (0, i) else (1, 2 * 1 - 1 - i))
       in dict_get (node_to_runner sa) ([''a'', ''b''] ! i) = Some (demo_rids i) \<and>
          dict_get (runner_to_shard sa) (demo_rids i) = Some (CfgShardMetadata
            (mk_base_shard ?card i (2 * 1) (cuts r) (cuts (Suc r))) g 2 (int r) (int 1))"
    using cfg_shards_two_full_pipelines [OF sa hyps(1,2,3) inj_demo_rids mem hyps(4)] by blast
  from at [rule_format, of 1] sa cuts show ?thesis
    by (intro exI [of _ sa]) (simp add: demo_card_def)
qed

section \<open>Addresses and device matrices\<close>

lemma first_rdma_iface_Some:
  "first_rdma_iface es = Some s \<Longrightarrow> \<exists>k. RDMAConnection s k \<in> set es"
  by (induction es rule: first_rdma_iface.induct) auto

lemma socket_ips_mem:
  "socket_ips es = Inr ips \<Longrightarrow> ip \<in> set ips \<longleftrightarrow> (\<exists>m. SocketConnection m \<in> set es \<and> ip_address m = Inr ip)"
  by (induction es arbitrary: ips rule: socket_ips.induct) auto

lemma find_ip_prioritised_best:
  assumes "find_ip_prioritised rx n other t net ring = Inr (Some ip)"
  defines "ty \<equiv> \<lambda>ip. dict_get_default (dict_of (map (\<lambda>i. (if_ip_address i, if_interface_type i))
     (dict_get_default net other []))) ip UnknownIf"
  shows "\<exists>ips. find_connection_ip rx t n other = Inr ips \<and> ip \<in> set ips \<and>
    (\<forall>a \<in> set ips. ip_priority ring (ty ip) \<le> ip_priority ring (ty a))"
proof -
  obtain ips where ips: "find_connection_ip rx t n other = Inr ips"
    "py_min_key (\<lambda>ip. ip_priority ring (ty ip)) ips = Inr ip"
    using assms(1) by (auto simp: find_ip_prioritised_def Let_def ty_def split: if_splits)
  from py_min_key_mem [OF ips(2)] py_min_key_le [OF ips(2)] ips(1) show ?thesis by blast
qed

lemma jaccl_matrix_entry:
  assumes "get_mlx_jaccl_devices_matrix rx c t = Inr mat" "i < length c" "j < length c"
  shows "length mat = length c \<and> length (mat ! i) = length c \<and>
    (if i = j then mat ! i ! j = None
     else \<exists>src snk. mat ! i ! j = Some src \<and>
       RDMAConnection src snk \<in> set (get_all_connections_between rx t (c ! i) (c ! j)))"
proof -
  let ?row = "\<lambda>(i, node_i). rmap (\<lambda>(j, node_j). if i = j then Inr None
      else case first_rdma_iface (get_all_connections_between rx t node_i node_j) of
         Some src \<Rightarrow> Inr (Some src)
       | None \<Rightarrow> Inl (ValueError ''Current jaccl backend requires all-to-all RDMA connections'')) (enumerate 0 c)"
  have m: "rmap ?row (enumerate 0 c) = Inr mat"
    using assms(1) by (simp add: get_mlx_jaccl_devices_matrix_def)
  have row: "?row (i, c ! i) = Inr (mat ! i)"
    using rmap_nth [OF m, of i] assms(2) by (simp add: nth_enumerate_eq)
  then have row': "rmap (\<lambda>(j, node_j). if i = j then Inr None
      else case first_rdma_iface (get_all_connections_between rx t (c ! i) node_j) of
         Some src \<Rightarrow> Inr (Some src)
       | None \<Rightarrow> Inl (ValueError ''Current jaccl backend requires all-to-all RDMA connections''))
      (enumerate 0 c) = Inr (mat ! i)" by simp
  from rmap_nth [OF row', of j] assms(3) have entry: "(if i = j then Inr None
      else case first_rdma_iface (get_all_connections_between rx t (c ! i) (c ! j)) of
         Some src \<Rightarrow> Inr (Some src)
       | None \<Rightarrow> Inl (ValueError ''Current jaccl backend requires all-to-all RDMA connections'')) =
      Inr (mat ! i ! j)" by (simp add: nth_enumerate_eq)
  then show ?thesis
    using rmap_length [OF m] rmap_length [OF row']
    by (cases "mat ! i ! j") (auto split: if_splits option.splits dest: first_rdma_iface_Some)
qed

end
