(* ===== verification/Placement.thy ===== *)
theory Placement
  imports Placement_Utils State_Apply "HOL-Library.List_Lexorder" "HOL-Library.Char_ord"
begin

text \<open>
  Placement of model instances (\<^verbatim>\<open>src/exo/master/placement.py\<close>, \<^verbatim>\<open>src/exo/utils/ports.py\<close>): choosing
  the cycle of nodes for a \<^verbatim>\<open>PlaceInstance\<close> command and building the instance, deleting an
  instance, turning the difference between current and target instances into events, and
  cancelling downloads nobody needs. The random port, the fresh instance id and the fresh runner
  ids are parameters. Messages of the errors are shortened.
\<close>

section \<open>Definitions\<close>

text \<open>\<^verbatim>\<open>random.randint(49153, 65535)\<close> gives \<open>r\<close>.\<close>

definition random_ephemeral_port :: "int \<Rightarrow> int" where
  "random_ephemeral_port r = (if r \<le> 52415 then r - 1 else r)"

fun instance_meta_backends :: "instance_meta \<Rightarrow> backend list" where
  "instance_meta_backends MlxRing = [MlxMetal, MlxCuda, MlxCpu]"
| "instance_meta_backends MlxJaccl = [MlxMetal]"

definition add_instance_to_placements :: "inst \<Rightarrow> (string, inst) dict \<Rightarrow> (string, inst) dict" where
  "add_instance_to_placements i current = dict_set current (instance_id i) i"

fun rfilter :: "('a \<Rightarrow> bool result) \<Rightarrow> 'a list \<Rightarrow> 'a list result" where
  "rfilter p [] = Inr []"
| "rfilter p (x # xs) = rbind (p x) (\<lambda>b. rbind (rfilter p xs) (\<lambda>ys. Inr (if b then x # ys else ys)))"

definition starts_with :: "string \<Rightarrow> string \<Rightarrow> bool" where
  "starts_with p s = (take (length p) s = p)"

definition ratio_or_zero :: "memory \<Rightarrow> memory \<Rightarrow> pyfloat" where
  "ratio_or_zero a b = (if 0 < in_bytes b then fl (of_int (in_bytes a) / of_int (in_bytes b)) else 0)"

fun progress_fraction :: "download_state \<Rightarrow> pyfloat" where
  "progress_fraction (DownloadCompleted _ _) = 1"
| "progress_fraction (DownloadOngoing d) = ratio_or_zero (dpd_downloaded d) (dpd_total d)"
| "progress_fraction (DownloadPending downloaded total_size) = ratio_or_zero downloaded total_size"
| "progress_fraction (DownloadFailed _) = 0"

fun first_fraction :: "model_id \<Rightarrow> download_progress list \<Rightarrow> pyfloat" where
  "first_fraction m [] = 0"
| "first_fraction m (p # ps) =
     (if dp_model_id p \<noteq> m then first_fraction m ps else progress_fraction (dp_state p))"

definition get_node_download_fraction ::
  "node_id \<Rightarrow> model_id \<Rightarrow> (node_id, download_progress list) dict \<Rightarrow> pyfloat" where
  "get_node_download_fraction n m dl = first_fraction m (dict_get_default dl n [])"

definition cycle_download_score ::
  "cycle \<Rightarrow> model_id \<Rightarrow> (node_id, download_progress list) dict \<Rightarrow> pyfloat" where
  "cycle_download_score c m dl = py_sum (map (\<lambda>n. get_node_download_fraction n m dl) c)"

definition tensor_cycle_ok :: "model_card \<Rightarrow> cycle \<Rightarrow> bool result" where
  "tensor_cycle_ok mcard c =
     (if c = [] then Inl ZeroDivisionError
      else Inr (mc_hidden_size mcard mod int (length c) = 0 \<and>
        (starts_with ''DeepSeek V4'' (mc_base_model mcard) \<or>
         (case mc_num_key_value_heads mcard of None \<Rightarrow> True | Some k \<Rightarrow> k mod int (length c) = 0))))"

text \<open>The filters that depend on the kind of sharding (lines 133 to 173).\<close>

definition sharding_filter :: "place_instance_command \<Rightarrow> cycle list \<Rightarrow> cycle list result" where
  "sharding_filter cmd cycles =
     rbind (if pi_sharding cmd = Tensor
            then if \<not> mc_supports_tensor (pi_model_card cmd)
                 then Inl (ValueError ''Requested Tensor sharding but this model does not support tensor parallelism'')
                 else rbind (rfilter (tensor_cycle_ok (pi_model_card cmd)) cycles) (\<lambda>cs.
                        if cs = [] then Inl (ValueError ''No tensor sharding found'') else Inr cs)
            else Inr cycles) (\<lambda>cs.
       if pi_sharding cmd = Pipeline \<and>
          mc_model_id (pi_model_card cmd) = ''mlx-community/DeepSeek-V3.1-8bit''
       then Inl (ValueError ''Pipeline parallelism is not supported for DeepSeek V3.1 (8-bit)'')
       else if pi_sharding cmd = Pipeline \<and> starts_with ''Gemma 4'' (mc_base_model (pi_model_card cmd))
       then let single = filter (\<lambda>c. length c = 1) cs
            in if single = [] then Inl (ValueError ''Pipeline parallelism is not supported for Gemma 4'')
               else Inr single
       else Inr cs)"

definition required_backends :: "instance_meta \<Rightarrow> model_card \<Rightarrow> backend list" where
  "required_backends im mcard = filter (\<lambda>b. b \<in> set (mc_backends mcard)) (instance_meta_backends im)"

definition node_supports :: "(node_id, backend list) dict \<Rightarrow> backend list \<Rightarrow> node_id \<Rightarrow> bool" where
  "node_supports nback req n = list_ex (\<lambda>b. b \<in> set req) (dict_get_default nback n [])"

text \<open>The backend and RDMA filters (lines 177 to 219).\<close>

definition backend_filter ::
  "'g env \<Rightarrow> place_instance_command \<Rightarrow> 'g topology \<Rightarrow> (node_id, backend list) dict \<Rightarrow>
   (node_id, node_rdma_ctl_status) dict \<Rightarrow> cycle list \<Rightarrow> cycle list result" where
  "backend_filter rx cmd t nback rdma_ctl cycles =
     (let req = required_backends (pi_instance_meta cmd) (pi_model_card cmd)
      in if req = [] then Inl (ValueError ''backends cannot satisfy engine'')
         else
           let cs = filter (list_all (node_supports nback req)) cycles
           in if cs = [] then Inl (ValueError ''No cycle where every node supports a backend'')
              else rbind (rfilter (\<lambda>c. rbind (is_rdma_cycle rx t c) (\<lambda>b.
                       Inr (b \<and> list_all (\<lambda>n. is_rdma_ctl_enabled n rdma_ctl) c))) cs) (\<lambda>rdma_cycles.
                     if pi_instance_meta cmd = MlxJaccl
                     then if rdma_cycles = []
                          then Inl (ValueError ''Requested RDMA (MlxJaccl) but no RDMA-connected cycles available'')
                          else Inr rdma_cycles
                     else Inr cs))"

definition cycle_key ::
  "model_id \<Rightarrow> (node_id, download_progress list) dict \<Rightarrow> (node_id, memory_usage) dict \<Rightarrow> cycle \<Rightarrow>
   (pyfloat \<times> memory) result" where
  "cycle_key m dl nmem c =
     rbind (sum_available nmem c) (\<lambda>total_mem. Inr (cycle_download_score c m dl, total_mem))"

definition key_lt :: "pyfloat \<times> memory \<Rightarrow> pyfloat \<times> memory \<Rightarrow> bool" where
  "key_lt a b \<longleftrightarrow> fst a < fst b \<or> (fst a = fst b \<and> snd a < snd b)"

definition select_cycle ::
  "'g env \<Rightarrow> 'g topology \<Rightarrow> model_id \<Rightarrow> (node_id, download_progress list) dict \<Rightarrow>
   (node_id, memory_usage) dict \<Rightarrow> cycle list \<Rightarrow> cycle result" where
  "select_cycle rx t m dl nmem cycles =
     (let leafs = filter (list_ex (node_is_leaf rx t)) cycles;
          candidates = (if leafs \<noteq> [] then leafs else cycles)
      in rbind (rmap (\<lambda>c. rbind (cycle_key m dl nmem c) (\<lambda>k. Inr (k, c))) candidates) (\<lambda>keyed_cycles.
         rbind (py_max_by (\<lambda>a b. key_lt (fst a) (fst b)) keyed_cycles) (\<lambda>x. Inr (snd x))))"

text \<open>The candidate cycles: long enough, with the required nodes, with enough memory (lines 117 to 131).\<close>

definition candidate_cycles ::
  "'g env \<Rightarrow> place_instance_command \<Rightarrow> 'g topology \<Rightarrow> (node_id, memory_usage) dict \<Rightarrow>
   node_id list option \<Rightarrow> cycle list result" where
  "candidate_cycles rx cmd t nmem required_nodes =
     (let cs = filter (\<lambda>c. pi_min_nodes cmd \<le> int (length c)) (get_cycles rx t);
          cs' = (case required_nodes of
                   Some (r # rs) \<Rightarrow> filter (\<lambda>c. list_all (\<lambda>n. n \<in> set c) (r # rs)) cs
                 | _ \<Rightarrow> cs)
      in rbind (filter_cycles_by_memory cs' nmem (mc_storage_size (pi_model_card cmd))) (\<lambda>ms.
           if ms = [] then Inl (ValueError ''No cycles found with sufficient memory'') else Inr ms))"

definition get_device_rank :: "shard_assignments \<Rightarrow> node_id \<Rightarrow> int result" where
  "get_device_rank sa n =
     rbind (of_option KeyError (dict_get (node_to_runner sa) n)) (\<lambda>r.
     rbind (of_option (AssertionError ''shard_metadata is not None'') (dict_get (runner_to_shard sa) r)) (\<lambda>sh.
     Inr (device_rank (shard_base sh))))"

text \<open>Building the instance on the chosen cycle (lines 258 to 309).\<close>

definition build_instance ::
  "'g env \<Rightarrow> string \<Rightarrow> int \<Rightarrow> instance_meta \<Rightarrow> 'g topology \<Rightarrow> (node_id, node_network_info) dict \<Rightarrow>
   cycle \<Rightarrow> shard_assignments \<Rightarrow> inst result" where
  "build_instance rx iid rnd im t nnet c sa =
     rbind (get_subgraph_from_nodes rx t c) (\<lambda>sub.
       case im of
         MlxJaccl \<Rightarrow>
           rbind (rfilter (\<lambda>n. rbind (get_device_rank sa n) (\<lambda>k. Inr (k = 0))) c) (\<lambda>zeros.
           rbind (rassert ''len(zero_node_ids) == 1'' (length zeros = 1)) (\<lambda>_.
           rbind (get_mlx_jaccl_devices_matrix rx c sub) (\<lambda>devices.
           rbind (get_mlx_jaccl_coordinators rx (hd zeros) (random_ephemeral_port rnd) sub nnet) (\<lambda>coords.
           Inr (MlxJacclInstance iid sa devices coords)))))
       | MlxRing \<Rightarrow>
           let port = random_ephemeral_port rnd
           in rbind (get_mlx_ring_hosts_by_node rx c sub port nnet) (\<lambda>hosts.
              Inr (MlxRingInstance iid sa hosts port)))"

definition place_instance ::
  "'g env \<Rightarrow> (nat \<Rightarrow> runner_id) \<Rightarrow> string \<Rightarrow> int \<Rightarrow> place_instance_command \<Rightarrow> 'g topology \<Rightarrow>
   (string, inst) dict \<Rightarrow> (node_id, memory_usage) dict \<Rightarrow> (node_id, node_network_info) dict \<Rightarrow>
   (node_id, backend list) dict \<Rightarrow> node_id list option \<Rightarrow> (node_id, download_progress list) dict \<Rightarrow>
   (node_id, node_rdma_ctl_status) dict \<Rightarrow> (string, inst) dict result" where
  "place_instance rx rids iid rnd cmd t current nmem nnet nback required_nodes
     download_status rdma_ctl =
     rbind (candidate_cycles rx cmd t nmem required_nodes) (\<lambda>with_memory.
     rbind (sharding_filter cmd with_memory) (\<lambda>shardable.
     rbind (get_smallest_cycles shardable) (\<lambda>smallest.
     rbind (backend_filter rx cmd t nback rdma_ctl smallest) (\<lambda>supported.
     rbind (select_cycle rx t (mc_model_id (pi_model_card cmd)) download_status nmem supported) (\<lambda>c.
     let im = (if length c = 1 then MlxRing else pi_instance_meta cmd);
         sh = (if length c = 1 then Pipeline else pi_sharding cmd)
     in rbind (get_shard_assignments rids (pi_model_card cmd) c sh nmem) (\<lambda>sa.
        rbind (build_instance rx iid rnd im t nnet c sa) (\<lambda>i.
        Inr (dict_set current iid i))))))))"

definition delete_instance :: "string \<Rightarrow> (string, inst) dict \<Rightarrow> (string, inst) dict result" where
  "delete_instance iid current =
     (if dict_mem iid current then Inr (dict_del current iid)
      else Inl (ValueError ''Instance not found''))"

definition cancel_tasks_of :: "string \<Rightarrow> (task_id, task) dict \<Rightarrow> event_body list" where
  "cancel_tasks_of iid tasks =
     map (\<lambda>t. TaskStatusUpdated (task_id t) Cancelled)
       (filter (\<lambda>t. task_instance_id t = iid \<and> (task_status t = Pending \<or> task_status t = Running))
         (dict_values tasks))"

definition get_transition_events ::
  "(string, inst) dict \<Rightarrow> (string, inst) dict \<Rightarrow> (task_id, task) dict \<Rightarrow> event_body list" where
  "get_transition_events current target tasks =
     map (\<lambda>(iid, i). InstanceCreated i) (filter (\<lambda>(iid, i). \<not> dict_mem iid current) target) @
     concat (map (\<lambda>(iid, i). cancel_tasks_of iid tasks @ [InstanceDeleted iid])
       (filter (\<lambda>(iid, i). \<not> dict_mem iid target) current))"

definition currently_downloading :: "(node_id, download_progress list) dict \<Rightarrow> (node_id \<times> model_id) list" where
  "currently_downloading dl =
     concat (map (\<lambda>(n, dps). map (\<lambda>dp. (n, dp_model_id dp)) (filter (\<lambda>dp. is_ongoing (dp_state dp)) dps)) dl)"

definition active_models :: "(string, inst) dict \<Rightarrow> (node_id \<times> model_id) list result" where
  "active_models instances =
     rmap (\<lambda>(i, n, r).
         rbind (of_option KeyError (dict_get (runner_to_shard (shard_assignments i)) r))
           (\<lambda>sh. Inr (n, shard_model_id sh)))
       (concat (map (\<lambda>(iid, i). map (\<lambda>(n, r). (i, n, r)) (node_to_runner (shard_assignments i))) instances))"

definition cancel_unnecessary_downloads ::
  "(string, inst) dict \<Rightarrow> (node_id, download_progress list) dict \<Rightarrow> download_command list result" where
  "cancel_unnecessary_downloads instances dl =
     rbind (active_models instances) (\<lambda>act.
       Inr (map (\<lambda>(n, m). CancelDownload n m)
         (filter (\<lambda>x. x \<notin> set act) (currently_downloading dl))))"

section \<open>What survives the filters\<close>

lemma rfilter_mem: "rfilter p xs = Inr ys \<Longrightarrow> x \<in> set ys \<longleftrightarrow> x \<in> set xs \<and> p x = Inr True"
  by (induction xs arbitrary: ys) (auto split: if_splits)

lemma filter_cycles_mem:
  "filter_cycles_by_memory cs nmem req = Inr ms \<Longrightarrow> c \<in> set ms \<Longrightarrow>
   c \<in> set cs \<and> (\<exists>t. sum_available nmem c = Inr t \<and> req \<le> t)"
  by (induction cs arbitrary: ms) (auto split: if_splits)

lemma candidate_cycles_mem:
  assumes "candidate_cycles rx cmd t nmem req = Inr ms" "c \<in> set ms"
  shows "c \<in> set (get_cycles rx t) \<and> pi_min_nodes cmd \<le> int (length c) \<and>
    (\<forall>ns. req = Some ns \<longrightarrow> set ns \<subseteq> set c) \<and>
    (\<exists>t. sum_available nmem c = Inr t \<and> mc_storage_size (pi_model_card cmd) \<le> t)"
proof -
  let ?cs = "case req of Some (r # rs) \<Rightarrow> filter (\<lambda>c. list_all (\<lambda>n. n \<in> set c) (r # rs))
      (filter (\<lambda>c. pi_min_nodes cmd \<le> int (length c)) (get_cycles rx t))
    | _ \<Rightarrow> filter (\<lambda>c. pi_min_nodes cmd \<le> int (length c)) (get_cycles rx t)"
  have "filter_cycles_by_memory ?cs nmem (mc_storage_size (pi_model_card cmd)) = Inr ms"
    using assms(1) by (auto simp: candidate_cycles_def Let_def split: if_splits)
  from filter_cycles_mem [OF this assms(2)] show ?thesis
    by (auto simp: list_all_iff split: option.splits list.splits)
qed

lemma sharding_filter_mem: "sharding_filter cmd cs = Inr ms \<Longrightarrow> c \<in> set ms \<Longrightarrow> c \<in> set cs"
  by (auto simp: sharding_filter_def Let_def rfilter_mem split: if_splits)

lemma get_smallest_mem:
  "get_smallest_cycles cs = Inr ms \<Longrightarrow> c \<in> set ms \<Longrightarrow> c \<in> set cs \<and> (\<forall>d \<in> set cs. length c \<le> length d)"
  using py_min_key_le [of length cs] by (auto simp: get_smallest_cycles_def)

lemma backend_filter_mem:
  assumes "backend_filter rx cmd t nback rdma cs = Inr ms" "c \<in> set ms"
  shows "c \<in> set cs \<and> (\<forall>n \<in> set c. node_supports nback (required_backends (pi_instance_meta cmd) (pi_model_card cmd)) n) \<and>
    (pi_instance_meta cmd = MlxJaccl \<longrightarrow> is_rdma_cycle rx t c = Inr True \<and>
       (\<forall>n \<in> set c. is_rdma_ctl_enabled n rdma))"
proof -
  let ?req = "required_backends (pi_instance_meta cmd) (pi_model_card cmd)"
  let ?cs = "filter (list_all (node_supports nback ?req)) cs"
  obtain rc where rc: "rfilter (\<lambda>c. rbind (is_rdma_cycle rx t c) (\<lambda>b.
      Inr (b \<and> list_all (\<lambda>n. is_rdma_ctl_enabled n rdma) c))) ?cs = Inr rc"
    "ms = (if pi_instance_meta cmd = MlxJaccl then rc else ?cs)"
    using assms(1) by (auto simp: backend_filter_def Let_def split: if_splits)
  have "c \<in> set ?cs" using assms(2) rc by (auto simp: rfilter_mem split: if_splits)
  moreover have "is_rdma_cycle rx t c = Inr True \<and> (\<forall>n \<in> set c. is_rdma_ctl_enabled n rdma)"
    if "pi_instance_meta cmd = MlxJaccl"
  proof -
    from that rc(2) assms(2) have "c \<in> set rc" by simp
    with rc(1) show ?thesis by (auto simp: rfilter_mem list_all_iff)
  qed
  ultimately show ?thesis by (auto simp: list_all_iff)
qed

lemma select_cycle_mem:
  assumes "select_cycle rx t m dl nmem cs = Inr c" shows "c \<in> set cs"
proof -
  let ?cand = "if filter (list_ex (node_is_leaf rx t)) cs \<noteq> [] then filter (list_ex (node_is_leaf rx t)) cs else cs"
  obtain kcs k where k: "rmap (\<lambda>c. rbind (cycle_key m dl nmem c) (\<lambda>k. Inr (k, c))) ?cand = Inr kcs"
    "py_max_by (\<lambda>a b. key_lt (fst a) (fst b)) kcs = Inr (k, c)"
    using assms by (auto simp: select_cycle_def Let_def)
  from py_max_by_mem [OF k(2)] obtain j where j: "j < length kcs" "kcs ! j = (k, c)"
    by (auto simp: in_set_conv_nth)
  have "?cand ! j = c" "j < length ?cand"
    using rmap_nth [OF k(1), of j] rmap_length [OF k(1)] j by auto
  then have "c \<in> set ?cand" by (metis nth_mem)
  then show ?thesis by (auto split: if_splits)
qed

lemma get_shard_assignments_nodes:
  assumes "get_shard_assignments rids mcard c sh nmem = Inr sa" "distinct c" "inj rids"
  shows "(\<forall>n. dict_mem n (node_to_runner sa) \<longleftrightarrow> n \<in> set c) \<and> sa_model_id sa = mc_model_id mcard"
proof -
  obtain f where f: "assign_runners rids mcard c f = Inr sa"
    using assms(1)
    by (cases sh) (auto simp: get_shard_assignments_for_pipeline_parallel_def Let_def
        get_shard_assignments_for_cfg_parallel_def get_shard_assignments_for_pure_pipeline_def
        get_shard_assignments_for_tensor_parallel_def split: if_splits)
  note sp = assign_runners_spec [OF f assms(2,3)]
  have "dict_mem n (node_to_runner sa)" if "n \<in> set c" for n
  proof -
    obtain k where "k < length c" "c ! k = n" using \<open>n \<in> set c\<close> by (auto simp: in_set_conv_nth)
    with sp(1) show ?thesis by auto
  qed
  moreover have "n \<in> set c" if "dict_mem n (node_to_runner sa)" for n
    using sp(2) that by auto
  ultimately show ?thesis using sp(3) by auto
qed

fun is_jaccl :: "inst \<Rightarrow> bool" where
  "is_jaccl (MlxJacclInstance _ _ _ _) = True"
| "is_jaccl (MlxRingInstance _ _ _ _) = False"

lemma build_instance_fields:
  "build_instance rx iid rnd im t nnet c sa = Inr i \<Longrightarrow> instance_id i = iid \<and> shard_assignments i = sa \<and>
     (im = MlxJaccl \<longleftrightarrow> is_jaccl i)"
  by (cases im) (auto simp: build_instance_def Let_def)

lemma place_instance_cases:
  assumes "place_instance rx rids iid rnd cmd t current nmem nnet nback req dl rdma = Inr target"
  obtains ms ss sm sp c sa i where
    "candidate_cycles rx cmd t nmem req = Inr ms" "sharding_filter cmd ms = Inr ss"
    "get_smallest_cycles ss = Inr sm" "backend_filter rx cmd t nback rdma sm = Inr sp"
    "select_cycle rx t (mc_model_id (pi_model_card cmd)) dl nmem sp = Inr c"
    "get_shard_assignments rids (pi_model_card cmd) c (if length c = 1 then Pipeline else pi_sharding cmd) nmem = Inr sa"
    "build_instance rx iid rnd (if length c = 1 then MlxRing else pi_instance_meta cmd) t nnet c sa = Inr i"
    "target = dict_set current iid i"
  using assms unfolding place_instance_def Let_def rbind_Inr_iff by blast

section \<open>Transition events\<close>

definition apply_bodies :: "'g env \<Rightarrow> 'g state \<Rightarrow> event_body list \<Rightarrow> 'g state result" where
  "apply_bodies rx s bs = rfold (\<lambda>s b. event_apply rx b s) s bs"

lemma apply_bodies_append:
  "apply_bodies rx s (as @ bs) = rbind (apply_bodies rx s as) (\<lambda>s'. apply_bodies rx s' bs)"
  by (simp add: apply_bodies_def rfold_append)

lemma apply_creates:
  "wf_dict L \<Longrightarrow> keyed instance_id L \<Longrightarrow>
   \<exists>s'. apply_bodies rx s (map (\<lambda>(iid, i). InstanceCreated i) L) = Inr s' \<and> st_tasks s' = st_tasks s \<and>
     (\<forall>k. dict_get (st_instances s') k = (case dict_get L k of None \<Rightarrow> dict_get (st_instances s) k | Some i \<Rightarrow> Some i))"
proof (induction L arbitrary: s)
  case Nil
  then show ?case by (simp add: apply_bodies_def)
next
  case (Cons p L)
  obtain iid i where p: "p = (iid, i)" by (cases p)
  have iid: "instance_id i = iid" using Cons.prems(2) by (auto simp: p keyed_def)
  have wf: "wf_dict L" "dict_get L iid = None"
    using Cons.prems(1) by (auto simp: p wf_dict_def map_of_eq_None_iff)
  then have "keyed instance_id L"
    using Cons.prems(2) by (auto simp: p keyed_def split: if_splits) (metis option.distinct(1))?
  from Cons.IH [OF wf(1) this, of "apply_instance_created i s"] wf(2) iid show ?case
    by (fastforce simp: p apply_bodies_def apply_instance_created_def split: option.splits)
qed

lemma apply_cancels:
  "\<exists>s'. apply_bodies rx s (map (\<lambda>tid. TaskStatusUpdated tid Cancelled) tids) = Inr s' \<and>
     st_instances s' = st_instances s \<and>
     (\<forall>k. dict_get (st_tasks s') k = (if k \<in> set tids then map_option (update_task_status Cancelled) (dict_get (st_tasks s) k)
        else dict_get (st_tasks s) k))"
proof (induction tids arbitrary: s)
  case Nil
  then show ?case by (simp add: apply_bodies_def)
next
  case (Cons tid tids)
  let ?s = "apply_task_status_updated tid Cancelled s"
  have inst: "st_instances ?s = st_instances s"
    by (simp add: apply_task_status_updated_def split: option.splits)
  have idem: "update_task_status Cancelled (update_task_status Cancelled t) = update_task_status Cancelled t" for t
    by (simp add: update_task_status_def)
  have get: "dict_get (st_tasks ?s) k = (if k = tid then map_option (update_task_status Cancelled) (dict_get (st_tasks s) k)
      else dict_get (st_tasks s) k)" for k
    by (auto simp: apply_task_status_updated_def split: option.splits)
  obtain s' where s': "apply_bodies rx ?s (map (\<lambda>tid. TaskStatusUpdated tid Cancelled) tids) = Inr s'"
    "st_instances s' = st_instances ?s"
    "\<forall>k. dict_get (st_tasks s') k = (if k \<in> set tids then map_option (update_task_status Cancelled) (dict_get (st_tasks ?s) k)
        else dict_get (st_tasks ?s) k)" using Cons.IH [of ?s] by blast
  show ?case
    by (rule exI [of _ s'])
      (use s' inst in \<open>auto simp: apply_bodies_def get option.map_comp comp_def idem\<close>)
qed

definition cancel_ids :: "string \<Rightarrow> (task_id, task) dict \<Rightarrow> task_id list" where
  "cancel_ids iid tasks = map task_id
     (filter (\<lambda>t. task_instance_id t = iid \<and> (task_status t = Pending \<or> task_status t = Running))
       (dict_values tasks))"

lemma map_of_filter_key: "map_of (filter (\<lambda>(k, v). P k) d) k = (if P k then map_of d k else None)"
  by (induction d) auto

lemma cancel_ids_mem:
  assumes "wf_dict T" "keyed task_id T" "dict_get T tid = Some t"
  shows "tid \<in> set (cancel_ids iid T) \<longleftrightarrow>
    task_instance_id t = iid \<and> (task_status t = Pending \<or> task_status t = Running)"
proof -
  have "u = t" if "(k, u) \<in> set T" "task_id u = tid" for k u
    using that assms by (auto simp: keyed_def simp flip: dict_get_eq_mem)
  moreover have "(tid, t) \<in> set T" "task_id t = tid"
    using assms by (auto simp: keyed_def dict_get_eq_mem)
  ultimately show ?thesis by (force simp: cancel_ids_def)
qed

lemma cancel_tasks_of_ids: "cancel_tasks_of iid tasks = map (\<lambda>tid. TaskStatusUpdated tid Cancelled) (cancel_ids iid tasks)"
  by (simp add: cancel_tasks_of_def cancel_ids_def)

definition marked :: "task_id set \<Rightarrow> (task_id, task) dict \<Rightarrow> task_id \<Rightarrow> task option" where
  "marked A d k = (if k \<in> A then map_option (update_task_status Cancelled) (dict_get d k) else dict_get d k)"

lemma update_cancelled_idem [simp]:
  "update_task_status Cancelled (update_task_status Cancelled t) = update_task_status Cancelled t"
  by (simp add: update_task_status_def)

lemma marked_marked:
  "\<forall>k. dict_get d' k = marked A d k \<Longrightarrow> marked B d' k = marked (A \<union> B) d k"
  by (auto simp: marked_def option.map_comp comp_def)

lemma apply_deletes:
  "\<exists>s'. apply_bodies rx s (concat (map (\<lambda>(iid, i). cancel_tasks_of iid T @ [InstanceDeleted iid]) L)) = Inr s' \<and>
     (\<forall>k. dict_get (st_instances s') k = (if k \<in> fst ` set L then None else dict_get (st_instances s) k)) \<and>
     (\<forall>k. dict_get (st_tasks s') k = marked (\<Union>iid \<in> fst ` set L. set (cancel_ids iid T)) (st_tasks s) k)"
proof (induction L arbitrary: s)
  case Nil
  then show ?case by (simp add: apply_bodies_def marked_def)
next
  case (Cons p L)
  obtain iid i where p: "p = (iid, i)" by (cases p)
  obtain s1 where s1: "apply_bodies rx s (cancel_tasks_of iid T) = Inr s1" "st_instances s1 = st_instances s"
    "\<forall>k. dict_get (st_tasks s1) k = marked (set (cancel_ids iid T)) (st_tasks s) k"
    using apply_cancels [of rx s "cancel_ids iid T"] by (auto simp: cancel_tasks_of_ids marked_def)
  let ?s2 = "apply_instance_deleted iid s1"
  have s2: "apply_bodies rx s (cancel_tasks_of iid T @ [InstanceDeleted iid]) = Inr ?s2"
    by (simp add: apply_bodies_append s1(1)) (simp add: apply_bodies_def)
  obtain s' where s': "apply_bodies rx ?s2 (concat (map (\<lambda>(iid, i). cancel_tasks_of iid T @ [InstanceDeleted iid]) L)) = Inr s'"
    "\<forall>k. dict_get (st_instances s') k = (if k \<in> fst ` set L then None else dict_get (st_instances ?s2) k)"
    "\<forall>k. dict_get (st_tasks s') k = marked (\<Union>iid \<in> fst ` set L. set (cancel_ids iid T)) (st_tasks ?s2) k"
    using Cons.IH [of ?s2] by blast
  have t2: "st_tasks ?s2 = st_tasks s1" by (simp add: apply_instance_deleted_def)
  show ?case
  proof (intro exI [of _ s'] conjI allI)
    show "apply_bodies rx s (concat (map (\<lambda>(iid, i). cancel_tasks_of iid T @ [InstanceDeleted iid]) (p # L))) = Inr s'"
      unfolding p list.map concat.simps prod.case apply_bodies_append [of _ _ "cancel_tasks_of iid T @ [InstanceDeleted iid]"] s2
      using s'(1) by simp
    show "dict_get (st_instances s') k = (if k \<in> fst ` set (p # L) then None else dict_get (st_instances s) k)" for k
      using s'(2) s1(2) by (auto simp: p apply_instance_deleted_def)
    show "dict_get (st_tasks s') k = marked (\<Union>iid \<in> fst ` set (p # L). set (cancel_ids iid T)) (st_tasks s) k" for k
      using s'(3) marked_marked [OF s1(3)] by (simp add: p t2)
  qed
qed

section \<open>Properties\<close>

text \<open>
  C12: when placement succeeds, exactly one instance is added, under the fresh id, and its shards
  are assigned to the nodes of one cycle of the topology that has at least the required number of
  nodes and all required nodes, whose total free memory covers the model, whose every node
  supports a backend of the engine; a JACCL instance lies on an RDMA cycle of nodes with RDMA enabled.
\<close>

theorem place_instance_sound:
  assumes "rx_digraph rx V E" "topo_inv V E t" "inj rids"
    and "place_instance rx rids iid rnd cmd t current nmem nnet nback req dl rdma = Inr target"
  shows "\<exists>c i. target = dict_set current iid i \<and> instance_id i = iid \<and>
    sa_model_id (shard_assignments i) = mc_model_id (pi_model_card cmd) \<and>
    c \<in> set (get_cycles rx t) \<and> pi_min_nodes cmd \<le> int (length c) \<and>
    (\<forall>n. dict_mem n (node_to_runner (shard_assignments i)) \<longleftrightarrow> n \<in> set c) \<and>
    (\<forall>ns. req = Some ns \<longrightarrow> set ns \<subseteq> set c) \<and>
    (\<exists>m. sum_available nmem c = Inr m \<and> mc_storage_size (pi_model_card cmd) \<le> m) \<and>
    (\<forall>n \<in> set c. node_supports nback (required_backends (pi_instance_meta cmd) (pi_model_card cmd)) n) \<and>
    (is_jaccl i \<longrightarrow> is_rdma_cycle rx t c = Inr True \<and> (\<forall>n \<in> set c. is_rdma_ctl_enabled n rdma))"
proof -
  from assms(4) obtain ms ss sm sp c sa i where p:
    "candidate_cycles rx cmd t nmem req = Inr ms" "sharding_filter cmd ms = Inr ss"
    "get_smallest_cycles ss = Inr sm" "backend_filter rx cmd t nback rdma sm = Inr sp"
    "select_cycle rx t (mc_model_id (pi_model_card cmd)) dl nmem sp = Inr c"
    "get_shard_assignments rids (pi_model_card cmd) c (if length c = 1 then Pipeline else pi_sharding cmd) nmem = Inr sa"
    "build_instance rx iid rnd (if length c = 1 then MlxRing else pi_instance_meta cmd) t nnet c sa = Inr i"
    "target = dict_set current iid i" by (rule place_instance_cases)
  note b = backend_filter_mem [OF p(4) select_cycle_mem [OF p(5)]]
  have "c \<in> set ms" using b get_smallest_mem [OF p(3)] sharding_filter_mem [OF p(2)] by blast
  note cand = candidate_cycles_mem [OF p(1) this]
  have "distinct c" using get_cycles_sound [OF assms(1,2)] cand by blast
  note sa = get_shard_assignments_nodes [OF p(6) this assms(3)]
  note i = build_instance_fields [OF p(7)]
  have "is_jaccl i \<longrightarrow> pi_instance_meta cmd = MlxJaccl" using i by (auto split: if_splits)
  with b cand sa i p(8) show ?thesis by (intro exI [of _ c] exI [of _ i]) simp
qed

definition demo_topology :: "ref_graph topology" where
  "demo_topology = add_node ref_env ''b'' (add_node ref_env ''a'' (new_topology ref_env))"

definition demo_place :: place_instance_command where
  "demo_place = \<lparr>pi_model_card = demo_card, pi_sharding = Pipeline, pi_instance_meta = MlxRing, pi_min_nodes = 1\<rparr>"

definition demo_target :: "(string, inst) dict result" where
  "demo_target = place_instance ref_env demo_rids ''i'' 50000 demo_place demo_topology [] demo_mem []
     [(''a'', [MlxMetal]), (''b'', [MlxCuda])] (Some [''a'']) [] []"

lemma demo_topology_inv: "topo_inv ref_V ref_E demo_topology"
  unfolding demo_topology_def
  by (intro add_node_spec(1) [OF ref_env_digraph] topo_inv_empty(1) [OF ref_env_digraph])

theorem place_instance_sound_witness:
  "\<exists>target i. demo_target = Inr target \<and> target = dict_set [] ''i'' i \<and> instance_id i = ''i'' \<and>
     dict_mem ''a'' (node_to_runner (shard_assignments i))"
proof -
  have "\<not> isl demo_target" by code_simp
  then obtain target where t: "demo_target = Inr target" by (auto dest: not_isl_Inr)
  obtain c i where i: "target = dict_set [] ''i'' i" "instance_id i = ''i''"
    "\<forall>n. dict_mem n (node_to_runner (shard_assignments i)) \<longleftrightarrow> n \<in> set c" "set [''a''] \<subseteq> set c"
    using place_instance_sound [OF ref_env_digraph demo_topology_inv inj_demo_rids t [unfolded demo_target_def]]
    by (elim exE conjE) blast
  then have "''a'' \<in> set c" by simp
  with i(3) have "dict_mem ''a'' (node_to_runner (shard_assignments i))" by blast
  with t i(1,2) show ?thesis by blast
qed

text \<open>
  C11: the transition events turn the current instances into the target. Applied to a replicated state whose tasks, like the
  target's instances, are filed under their own ids, they do not raise, leave instances under exactly the target's ids, cancel
  precisely the pending and running tasks of the instances that disappear and touch no other task. A new id gets the target's
  instance; an id that stays keeps the instance it has, for no event changes one, so the result is the target itself exactly
  when the target changes no instance that exists already.
\<close>

theorem transition_events_reach_target:
  assumes "wf_dict target" "keyed instance_id target" "wf_dict (st_tasks s)" "keyed task_id (st_tasks s)"
  shows "\<exists>s'. apply_bodies rx s (get_transition_events (st_instances s) target (st_tasks s)) = Inr s' \<and>
    (\<forall>k. dict_get (st_instances s') k = (case dict_get target k of None \<Rightarrow> None
       | Some j \<Rightarrow> (case dict_get (st_instances s) k of None \<Rightarrow> Some j | Some i \<Rightarrow> Some i))) \<and>
    ((\<forall>k. dict_get (st_instances s') k = dict_get target k) \<longleftrightarrow>
       (\<forall>k i j. dict_get (st_instances s) k = Some i \<longrightarrow> dict_get target k = Some j \<longrightarrow> i = j)) \<and>
    (\<forall>tid t. dict_get (st_tasks s) tid = Some t \<longrightarrow> dict_get (st_tasks s') tid =
       Some (if dict_mem (task_instance_id t) (st_instances s) \<and> \<not> dict_mem (task_instance_id t) target \<and>
                (task_status t = Pending \<or> task_status t = Running)
             then update_task_status Cancelled t else t))"
proof -
  let ?cur = "st_instances s" let ?T = "st_tasks s"
  let ?new = "filter (\<lambda>(iid, i). \<not> dict_mem iid ?cur) target"
  let ?old = "filter (\<lambda>(iid, i). \<not> dict_mem iid target) ?cur"
  have new: "dict_get ?new k = (if dict_mem k ?cur then None else dict_get target k)" for k
    using map_of_filter_key [of "\<lambda>k. \<not> dict_mem k ?cur" target k] by simp
  have "wf_dict ?new" "keyed instance_id ?new"
    using assms(1,2) by (auto simp: wf_dict_def distinct_map_filter keyed_def new split: if_splits)
  from apply_creates [OF this, of rx s] obtain s1 where s1:
    "apply_bodies rx s (map (\<lambda>(iid, i). InstanceCreated i) ?new) = Inr s1" "st_tasks s1 = ?T"
    "\<forall>k. dict_get (st_instances s1) k = (case dict_get ?new k of None \<Rightarrow> dict_get ?cur k | Some i \<Rightarrow> Some i)" by blast
  from apply_deletes [of rx s1 ?T ?old] obtain s' where s':
    "apply_bodies rx s1 (concat (map (\<lambda>(iid, i). cancel_tasks_of iid ?T @ [InstanceDeleted iid]) ?old)) = Inr s'"
    "\<forall>k. dict_get (st_instances s') k = (if k \<in> fst ` set ?old then None else dict_get (st_instances s1) k)"
    "\<forall>k. dict_get (st_tasks s') k = marked (\<Union>iid \<in> fst ` set ?old. set (cancel_ids iid ?T)) ?T k"
    using s1(2) by auto
  have gone: "k \<in> fst ` set ?old \<longleftrightarrow> dict_mem k ?cur \<and> \<not> dict_mem k target" for k
    using weak_map_of_SomeI by (force simp: image_iff dest: map_of_SomeD)
  have inst: "dict_get (st_instances s') k = (case dict_get target k of None \<Rightarrow> None
      | Some j \<Rightarrow> (case dict_get ?cur k of None \<Rightarrow> Some j | Some i \<Rightarrow> Some i))" for k
    using s'(2) s1(3) gone [of k] new [of k] by (auto split: option.splits)
  moreover have "(\<forall>k. dict_get (st_instances s') k = dict_get target k) \<longleftrightarrow>
      (\<forall>k i j. dict_get ?cur k = Some i \<longrightarrow> dict_get target k = Some j \<longrightarrow> i = j)"
    unfolding inst by (auto split: option.splits)
  moreover have "tid \<in> (\<Union>iid \<in> fst ` set ?old. set (cancel_ids iid ?T)) \<longleftrightarrow>
      dict_mem (task_instance_id t) ?cur \<and> \<not> dict_mem (task_instance_id t) target \<and>
      (task_status t = Pending \<or> task_status t = Running)" if "dict_get ?T tid = Some t" for tid t
  proof -
    have ex: "(\<exists>iid \<in> A. tid \<in> set (cancel_ids iid ?T)) \<longleftrightarrow>
        task_instance_id t \<in> A \<and> (task_status t = Pending \<or> task_status t = Running)" for A
      unfolding cancel_ids_mem [OF assms(3,4) that] by blast
    show ?thesis unfolding UN_iff ex gone by (rule conj_assoc)
  qed
  ultimately show ?thesis
    using s1(1) s' by (intro exI [of _ s'])
      (simp add: get_transition_events_def apply_bodies_append marked_def)
qed

definition demo_task :: "task_id \<Rightarrow> task" where
  "demo_task tid = mk_task tid ''i'' LoadModel"

theorem transition_events_reach_target_witness:
  "\<exists>s'. apply_bodies ref_env ((init_state ref_env)\<lparr>st_tasks := [(''t'', demo_task ''t'')]\<rparr>)
      (get_transition_events [] [(''i'', MlxRingInstance ''i'' \<lparr>sa_model_id = ''m'', runner_to_shard = [], node_to_runner = []\<rparr> [] 0)]
         [(''t'', demo_task ''t'')]) = Inr s' \<and>
    dict_mem ''i'' (st_instances s') \<and> dict_get (st_tasks s') ''t'' = Some (demo_task ''t'')"
proof -
  let ?s = "(init_state ref_env)\<lparr>st_tasks := [(''t'', demo_task ''t'')]\<rparr>"
  let ?t = "[(''i'', MlxRingInstance ''i'' \<lparr>sa_model_id = ''m'', runner_to_shard = [], node_to_runner = []\<rparr> [] 0)]"
  have "wf_dict ?t" "keyed instance_id ?t" "wf_dict (st_tasks ?s)" "keyed task_id (st_tasks ?s)"
    by (auto simp: wf_dict_def keyed_def demo_task_def mk_task_def split: if_splits)
  then obtain s' where s':
    "apply_bodies ref_env ?s (get_transition_events (st_instances ?s) ?t (st_tasks ?s)) = Inr s'"
    "\<forall>k. dict_get (st_instances s') k = (case dict_get ?t k of None \<Rightarrow> None
       | Some j \<Rightarrow> (case dict_get (st_instances ?s) k of None \<Rightarrow> Some j | Some i \<Rightarrow> Some i))"
    "\<forall>tid t. dict_get (st_tasks ?s) tid = Some t \<longrightarrow> dict_get (st_tasks s') tid =
       Some (if dict_mem (task_instance_id t) (st_instances ?s) \<and> \<not> dict_mem (task_instance_id t) ?t \<and>
                (task_status t = Pending \<or> task_status t = Running)
             then update_task_status Cancelled t else t)"
    using transition_events_reach_target [of ?t ?s ref_env] by blast
  then show ?thesis by (intro exI [of _ s']) (simp add: init_state_def)
qed

text \<open>The nodes that an instance assigns a model to.\<close>

definition needed :: "(string, inst) dict \<Rightarrow> node_id \<Rightarrow> model_id \<Rightarrow> bool" where
  "needed instances n m \<longleftrightarrow> (\<exists>iid i r sh. (iid, i) \<in> set instances \<and> (n, r) \<in> set (node_to_runner (shard_assignments i)) \<and>
     dict_get (runner_to_shard (shard_assignments i)) r = Some sh \<and> shard_model_id sh = m)"

lemma rmap_set: "rmap f xs = Inr ys \<Longrightarrow> y \<in> set ys \<longleftrightarrow> (\<exists>x \<in> set xs. f x = Inr y)"
  by (induction xs arbitrary: ys) auto

lemma active_models_mem:
  "active_models instances = Inr act \<Longrightarrow> (n, m) \<in> set act \<longleftrightarrow> needed instances n m"
  unfolding active_models_def by (auto simp: rmap_set needed_def) blast+

lemma currently_downloading_mem:
  "(n, m) \<in> set (currently_downloading dl) \<longleftrightarrow>
   (\<exists>dps dp. (n, dps) \<in> set dl \<and> dp \<in> set dps \<and> is_ongoing (dp_state dp) \<and> dp_model_id dp = m)"
proof (induction dl)
  case (Cons x dl)
  obtain k ds where x: "x = (k, ds)" by (cases x)
  have "(n, m) \<in> set (currently_downloading (x # dl)) \<longleftrightarrow>
      (n = k \<and> (\<exists>dp \<in> set ds. is_ongoing (dp_state dp) \<and> dp_model_id dp = m)) \<or> (n, m) \<in> set (currently_downloading dl)"
    by (auto simp: x currently_downloading_def)
  with Cons show ?case by (auto simp: x)
qed (simp add: currently_downloading_def)

text \<open>
  Exactly the ongoing downloads that no instance needs are cancelled: a cancel command for a
  node and a model is issued if and only if the node is downloading the model and no instance
  assigns a shard of that model to that node.
\<close>

theorem cancelled_downloads_exact:
  assumes "cancel_unnecessary_downloads instances dl = Inr cmds"
  shows "CancelDownload n m \<in> set cmds \<longleftrightarrow>
    (\<exists>dps dp. (n, dps) \<in> set dl \<and> dp \<in> set dps \<and> is_ongoing (dp_state dp) \<and> dp_model_id dp = m) \<and>
    \<not> needed instances n m"
proof -
  obtain act where act: "active_models instances = Inr act"
    "cmds = map (\<lambda>(n, m). CancelDownload n m) (filter (\<lambda>x. x \<notin> set act) (currently_downloading dl))"
    using assms by (auto simp: cancel_unnecessary_downloads_def)
  have "CancelDownload n m \<in> set cmds \<longleftrightarrow> (n, m) \<in> set (currently_downloading dl) \<and> (n, m) \<notin> set act"
    by (auto simp: act(2))
  also have "(n, m) \<in> set (currently_downloading dl) \<longleftrightarrow>
      (\<exists>dps dp. (n, dps) \<in> set dl \<and> dp \<in> set dps \<and> is_ongoing (dp_state dp) \<and> dp_model_id dp = m)"
    by (rule currently_downloading_mem)
  finally show ?thesis by (simp add: active_models_mem [OF act(1)])
qed

definition demo_ongoing :: download_progress where
  "demo_ongoing = \<lparr>dp_node_id = ''a'', dp_shard_metadata = TensorShardMetadata (mk_base_shard demo_card 0 1 0 10),
     dp_model_directory = [], dp_state = DownloadOngoing (DownloadProgressData (Memory 9) (Memory 1) (Memory 1) 0 1 0 0 [])\<rparr>"

theorem cancelled_downloads_exact_witness:
  "cancel_unnecessary_downloads [] [(''a'', [demo_ongoing])] = Inr [CancelDownload ''a'' ''m''] \<and>
   \<not> needed [] ''a'' ''m''"
proof -
  have e: "cancel_unnecessary_downloads [] [(''a'', [demo_ongoing])] = Inr [CancelDownload ''a'' ''m'']"
    by code_simp
  with cancelled_downloads_exact [OF e, of "''a''" "''m''"] show ?thesis by simp
qed

text \<open>
  For every number the random generator may return, the port is an ephemeral port (above
  49151, at most 65535) different from the API port 52415, so \<^verbatim>\<open>Host\<close> accepts it; and different
  numbers give different ports.
\<close>

theorem ephemeral_port_bounds:
  assumes "49153 \<le> r" "r \<le> 65535"
  shows "49152 \<le> random_ephemeral_port r \<and> random_ephemeral_port r \<le> 65535 \<and>
    random_ephemeral_port r \<noteq> 52415 \<and> mk_host ip (random_ephemeral_port r) = Inr \<lparr>host_ip = ip, host_port = random_ephemeral_port r\<rparr> \<and>
    (random_ephemeral_port r = random_ephemeral_port q \<longrightarrow> r = q)"
  using assms by (auto simp: random_ephemeral_port_def mk_host_def split: if_splits)

theorem ephemeral_port_bounds_witness:
  "random_ephemeral_port 52415 = 52414 \<and> random_ephemeral_port 52415 \<noteq> 52415"
  using ephemeral_port_bounds [of 52415] by (simp add: random_ephemeral_port_def)

end
