(* ===== verification/Runner.thy ===== *)
theory Runner
  imports Effects Placement "HOL-Library.Sublist"
begin

text \<open>
  The runner process (\<^verbatim>\<open>src/exo/worker/runner/runner.py\<close>): the state machine that connects, loads,
  warms up and serves generation tasks on one shard.

  The inference engines behind \<^verbatim>\<open>Builder\<close> and \<^verbatim>\<open>Engine\<close> are not modelled: what a call into them does
  is an input of the step (\<open>engine_calls\<close>): the events it sends through the shared sender, the load
  progress or results it yields and whether it raises. \<^verbatim>\<open>main\<close> and the loop of
  \<^verbatim>\<open>handle_generation_tasks\<close> are cut at the points where the code takes the next item of the work
  queue: \<open>rn_control\<close> says which of the two loops is running. \<open>rn_events\<close> is everything sent to the
  supervisor so far.
\<close>

datatype generator = Builder | Engine

datatype work_item = TaskItem task | PrefillTask string | TaskStreamClosed

datatype engine_event =
    EngineChunk command_id chunk
  | EngineTraces task_id int "trace_event_data list"

fun engine_event_body :: "engine_event \<Rightarrow> event_body" where
  "engine_event_body (EngineChunk c k) = ChunkGenerated c k"
| "engine_event_body (EngineTraces t r ts) = TracesCollected t r ts"

datatype engine_response = CancelledResponse | FinishedResponse | ChunkResponse chunk

text \<open>One element \<^verbatim>\<open>Engine.step\<close> yields, or an event the engine sends meanwhile.\<close>

datatype step_item = StepResult task_id engine_response | StepEvent engine_event

type_synonym engine_call = "engine_event list \<times> py_error option"

record engine_calls =
  en_connect :: engine_call
  en_load_progress :: "(int \<times> int) list"
  en_load :: engine_call
  en_build :: engine_call
  en_warmup :: engine_call
  en_submit :: engine_call
  en_close :: engine_call
  en_prefill_server :: engine_call
  en_random_port :: int

datatype control = InMain | Generating | Exited | Raised py_error

record runner =
  rn_runner_id :: runner_id
  rn_shard_metadata :: shard_metadata
  rn_current_status :: runner_status
  rn_generator :: generator
  rn_seen :: "task_id list"
  rn_active_tasks :: "(task_id, task) dict"
  rn_prefill_server :: bool
  rn_prefill_server_port :: "int option"
  rn_prefill_done :: "string list"
  rn_events :: "event_body list"
  rn_control :: control

section \<open>Sending\<close>

definition send :: "event_body \<Rightarrow> (runner, unit) action" where
  "send e = upd (\<lambda>r. r\<lparr>rn_events := rn_events r @ [e]\<rparr>)"

definition engine :: "engine_call \<Rightarrow> (runner, unit) action" where
  "engine c = sseq [upd (\<lambda>r. r\<lparr>rn_events := rn_events r @ map engine_event_body (fst c)\<rparr>),
                    (case snd c of None \<Rightarrow> ret () | Some e \<Rightarrow> raises e)]"

definition update_status :: "runner_status \<Rightarrow> (runner, unit) action" where
  "update_status st =
     with_state (\<lambda>r. sseq [upd (\<lambda>r. r\<lparr>rn_current_status := st\<rparr>), send (RunnerStatusUpdated (rn_runner_id r) st)])"

definition send_task_status :: "task_id \<Rightarrow> task_status \<Rightarrow> (runner, unit) action" where
  "send_task_status t st = send (TaskStatusUpdated t st)"

definition acknowledge_task :: "task \<Rightarrow> (runner, unit) action" where
  "acknowledge_task t = send (TaskAcknowledged (task_id t))"

definition send_chunk :: "chunk \<Rightarrow> command_id \<Rightarrow> (runner, unit) action" where
  "send_chunk k c =
     sseq [sassert ''isinstance(self.generator, Engine)'' (\<lambda>r. rn_generator r = Engine), send (ChunkGenerated c k)]"

section \<open>Construction\<close>

definition mk_runner :: "bound_instance \<Rightarrow> runner result" where
  "mk_runner b =
     rbind (bound_shard b) (\<lambda>sh.
       if immediate_exception (shard_base sh)
       then Inl (OtherError ''Fake exception - runner failed to spin up.'')
       else Inr (fst (update_status RunnerIdle
              \<lparr>rn_runner_id = bound_runner_id b, rn_shard_metadata = sh, rn_current_status = RunnerIdle,
               rn_generator = Builder, rn_seen = [], rn_active_tasks = [], rn_prefill_server = False,
               rn_prefill_server_port = None, rn_prefill_done = [], rn_events = [], rn_control = InMain\<rparr>)))"

definition start_prefill_server :: "bool \<Rightarrow> engine_calls \<Rightarrow> (runner, unit) action" where
  "start_prefill_server enable_disaggregation en =
     with_state (\<lambda>r.
       if \<not> enable_disaggregation \<or> device_rank (shard_base (rn_shard_metadata r)) \<noteq> 0 \<or>
          rn_prefill_server_port r \<noteq> None
       then ret ()
       else sseq [engine (en_prefill_server en),
                  upd (\<lambda>r. r\<lparr>rn_prefill_server := True,
                             rn_prefill_server_port := Some (random_ephemeral_port (en_random_port en))\<rparr>)])"

text \<open>\<^verbatim>\<open>_serve_prefill\<close> swallows every exception of the engine and always marks the request done; the engine
  sends no event meanwhile (\<^verbatim>\<open>run_prefill_for_request\<close> passes no progress callback).\<close>

definition serve_prefill :: "string \<Rightarrow> (runner, unit) action" where
  "serve_prefill req = upd (\<lambda>r. r\<lparr>rn_prefill_done := rn_prefill_done r @ [req]\<rparr>)"

section \<open>Generation\<close>

definition submit_generation :: "engine_calls \<Rightarrow> task \<Rightarrow> (runner, unit) action" where
  "submit_generation en t =
     sseq [sassert ''isinstance(self.generator, Engine)'' (\<lambda>r. rn_generator r = Engine),
           upd (\<lambda>r. r\<lparr>rn_active_tasks := dict_set (rn_active_tasks r) (task_id t) t\<rparr>),
           engine (en_submit en)]"

definition shutdown :: "engine_calls \<Rightarrow> task \<Rightarrow> (runner, unit) action" where
  "shutdown en t =
     sseq [update_status RunnerShuttingDown, acknowledge_task t, engine (en_close en),
           send_task_status (task_id t) Complete, update_status RunnerShutdown]"

fun is_generation :: "task_body \<Rightarrow> bool" where
  "is_generation (TextGeneration _ _) = True"
| "is_generation (ImageGeneration _ _) = True"
| "is_generation (ImageEdits _ _) = True"
| "is_generation _ = False"

fun task_command_id :: "task_body \<Rightarrow> command_id option" where
  "task_command_id (TextGeneration c _) = Some c"
| "task_command_id (ImageGeneration c _) = Some c"
| "task_command_id (ImageEdits c _) = Some c"
| "task_command_id _ = None"

text \<open>The \<^verbatim>\<open>while self.active_tasks\<close> test and what follows the loop.\<close>

definition loop_test :: "(runner, unit) action" where
  "loop_test =
     with_state (\<lambda>r.
       if rn_active_tasks r \<noteq> [] then upd (\<lambda>r. r\<lparr>rn_control := Generating\<rparr>)
       else sseq [update_status (RunnerReady (rn_prefill_server_port r)), upd (\<lambda>r. r\<lparr>rn_control := InMain\<rparr>)])"

fun is_ready :: "runner_status \<Rightarrow> bool" where
  "is_ready (RunnerReady _) = True"
| "is_ready _ = False"

definition handle_generation_tasks :: "engine_calls \<Rightarrow> task \<Rightarrow> (runner, unit) action" where
  "handle_generation_tasks en t =
     sseq [sassert ''isinstance(self.current_status, RunnerReady)'' (\<lambda>r. is_ready (rn_current_status r)),
           sassert ''isinstance(self.generator, Engine)'' (\<lambda>r. rn_generator r = Engine),
           update_status RunnerRunning, acknowledge_task t,
           upd (\<lambda>r. r\<lparr>rn_seen := oset_add (rn_seen r) (task_id t)\<rparr>),
           submit_generation en t, loop_test]"

text \<open>The results of one \<^verbatim>\<open>Engine.step\<close>; the value is the list \<^verbatim>\<open>finished\<close>.\<close>

fun handle_results :: "step_item list \<Rightarrow> task_id list \<Rightarrow> (runner, task_id list) action" where
  "handle_results [] finished = ret finished"
| "handle_results (StepEvent e # xs) finished =
     sbind (send (engine_event_body e)) (\<lambda>_. handle_results xs finished)"
| "handle_results (StepResult t CancelledResponse # xs) finished = handle_results xs (finished @ [t])"
| "handle_results (StepResult t FinishedResponse # xs) finished =
     sbind (send_task_status t Complete) (\<lambda>_. handle_results xs (finished @ [t]))"
| "handle_results (StepResult t (ChunkResponse k) # xs) finished =
     sbind (with_state (\<lambda>r. lift_result (of_option KeyError
              (Option.bind (dict_get (rn_active_tasks r) t) (\<lambda>tk. task_command_id (task_body tk))))))
       (\<lambda>c. sbind (send_chunk k c) (\<lambda>_. handle_results xs finished))"

definition pop_finished :: "task_id list \<Rightarrow> (runner, unit) action" where
  "pop_finished ts = upd (\<lambda>r. r\<lparr>rn_active_tasks := foldl dict_del (rn_active_tasks r) ts\<rparr>)"

definition outside_state_machine :: "py_error" where
  "outside_state_machine = ValueError ''Received task outside of state machine''"

text \<open>An item taken from the queue between two steps of the engine.\<close>

fun generation_item :: "engine_calls \<Rightarrow> work_item \<Rightarrow> (runner, unit) action" where
  "generation_item en TaskStreamClosed = upd (\<lambda>r. r\<lparr>rn_control := InMain\<rparr>)"
| "generation_item en (PrefillTask q) = sseq [serve_prefill q, loop_test]"
| "generation_item en (TaskItem t) =
     with_state (\<lambda>r.
       if task_id t \<in> set (rn_seen r) then loop_test
       else sseq [upd (\<lambda>r. r\<lparr>rn_seen := oset_add (rn_seen r) (task_id t)\<rparr>),
                  (if is_generation (task_body t)
                   then sseq [acknowledge_task t, submit_generation en t, loop_test]
                   else case task_body t of
                          Shutdown _ \<Rightarrow> sseq [shutdown en t, upd (\<lambda>r. r\<lparr>rn_control := Exited\<rparr>)]
                        | _ \<Rightarrow> raises outside_state_machine)])"

definition generation_round ::
  "step_item list \<Rightarrow> py_error option \<Rightarrow> work_item option \<Rightarrow> engine_calls \<Rightarrow> (runner, unit) action" where
  "generation_round results err item en =
     sbind (handle_results results []) (\<lambda>finished.
       sseq [(case err of None \<Rightarrow> ret () | Some e \<Rightarrow> raises e), pop_finished finished,
             (case item of None \<Rightarrow> loop_test | Some i \<Rightarrow> generation_item en i)])"

section \<open>The state machine\<close>

definition connect :: "engine_calls \<Rightarrow> task \<Rightarrow> (runner, unit) action" where
  "connect en t =
     sseq [sassert ''isinstance(self.generator, Builder)'' (\<lambda>r. rn_generator r = Builder),
           update_status RunnerConnecting, acknowledge_task t, engine (en_connect en),
           send_task_status (task_id t) Complete, update_status RunnerConnected]"

definition report_progress :: "(int \<times> int) list \<Rightarrow> (runner, unit) action" where
  "report_progress ps = sforeach (\<lambda>(n, total). update_status (RunnerLoading n total)) ps"

definition load_model :: "engine_calls \<Rightarrow> task \<Rightarrow> (runner, unit) action" where
  "load_model en t =
     sseq [with_state (\<lambda>r. let b = shard_base (rn_shard_metadata r)
                           in update_status (RunnerLoading 0 (end_layer b - start_layer b))),
           acknowledge_task t,
           report_progress (en_load_progress en),
           engine (en_load en), engine (en_build en), upd (\<lambda>r. r\<lparr>rn_generator := Engine\<rparr>),
           send_task_status (task_id t) Complete, update_status RunnerLoaded]"

definition warmup :: "bool \<Rightarrow> bool \<Rightarrow> engine_calls \<Rightarrow> task \<Rightarrow> (runner, unit) action" where
  "warmup enable_disaggregation skip_warmup en t =
     sseq [sassert ''isinstance(self.generator, Engine)'' (\<lambda>r. rn_generator r = Engine),
           update_status RunnerWarmingUp, acknowledge_task t,
           (if skip_warmup then ret () else engine (en_warmup en)),
           start_prefill_server enable_disaggregation en,
           send_task_status (task_id t) Complete,
           with_state (\<lambda>r. update_status (RunnerReady (rn_prefill_server_port r)))]"

text \<open>The guards of the \<^verbatim>\<open>match\<close>: what the state machine accepts, in the order of the cases.\<close>

datatype action_kind = DoConnect | DoLoad | DoWarmup | DoGenerate | DoShutdown | DoRaise

definition match_task :: "task_body \<Rightarrow> runner_status \<Rightarrow> generator \<Rightarrow> action_kind" where
  "match_task b st g =
     (case b of
        ConnectToGroup \<Rightarrow> (if st = RunnerIdle then DoConnect else DoRaise)
      | LoadModel \<Rightarrow> (if g = Builder \<and> (st = RunnerConnected \<or> st = RunnerIdle) then DoLoad else DoRaise)
      | StartWarmup \<Rightarrow> (if st = RunnerLoaded then DoWarmup else DoRaise)
      | Shutdown _ \<Rightarrow> DoShutdown
      | _ \<Rightarrow> (if is_generation b \<and> is_ready st then DoGenerate else DoRaise))"

definition handle_first_task :: "bool \<Rightarrow> bool \<Rightarrow> engine_calls \<Rightarrow> task \<Rightarrow> (runner, unit) action" where
  "handle_first_task enable_disaggregation skip_warmup en t =
     sseq [send_task_status (task_id t) Running,
           with_state (\<lambda>r.
             case match_task (task_body t) (rn_current_status r) (rn_generator r) of
               DoConnect \<Rightarrow> connect en t
             | DoLoad \<Rightarrow> load_model en t
             | DoWarmup \<Rightarrow> warmup enable_disaggregation skip_warmup en t
             | DoGenerate \<Rightarrow> handle_generation_tasks en t
             | DoShutdown \<Rightarrow> shutdown en t
             | DoRaise \<Rightarrow> raises outside_state_machine)]"

text \<open>One round of the loop of \<^verbatim>\<open>main\<close>.\<close>

fun main_item :: "bool \<Rightarrow> bool \<Rightarrow> engine_calls \<Rightarrow> work_item \<Rightarrow> (runner, unit) action" where
  "main_item d w en TaskStreamClosed = upd (\<lambda>r. r\<lparr>rn_control := Exited\<rparr>)"
| "main_item d w en (PrefillTask q) = serve_prefill q"
| "main_item d w en (TaskItem t) =
     with_state (\<lambda>r.
       if task_id t \<in> set (rn_seen r) then ret ()
       else sseq [upd (\<lambda>r. r\<lparr>rn_seen := oset_add (rn_seen r) (task_id t)\<rparr>),
                  handle_first_task d w en t,
                  with_state (\<lambda>r. if rn_current_status r = RunnerShutdown then upd (\<lambda>r. r\<lparr>rn_control := Exited\<rparr>)
                                  else ret ())])"

text \<open>
  An exception leaves both loops; the \<^verbatim>\<open>finally\<close> of \<^verbatim>\<open>main\<close> stops the prefill server on every way out.
\<close>

definition finish :: "runner \<times> unit result \<Rightarrow> runner" where
  "finish p =
     (case p of
        (r, Inl e) \<Rightarrow> r\<lparr>rn_control := Raised e, rn_prefill_server := False\<rparr>
      | (r, Inr _) \<Rightarrow> if rn_control r = Exited then r\<lparr>rn_prefill_server := False\<rparr> else r)"

datatype rn_input =
    GetItem work_item engine_calls
  | StepRound "step_item list" "py_error option" "work_item option" engine_calls

fun rn_next :: "bool \<Rightarrow> bool \<Rightarrow> rn_input \<Rightarrow> runner \<Rightarrow> runner option" where
  "rn_next d w (GetItem i en) r =
     (if rn_control r = InMain then Some (finish (main_item d w en i r)) else None)"
| "rn_next d w (StepRound res err i en) r =
     (if rn_control r = Generating then Some (finish (generation_round res err i en r)) else None)"

inductive rn_reach :: "bool \<Rightarrow> bool \<Rightarrow> runner \<Rightarrow> runner \<Rightarrow> bool" for d w r0 where
  rn_init: "rn_reach d w r0 r0"
| rn_step: "rn_reach d w r0 r \<Longrightarrow> rn_next d w i r = Some r' \<Longrightarrow> rn_reach d w r0 r'"

fun rn_exec :: "bool \<Rightarrow> bool \<Rightarrow> rn_input list \<Rightarrow> runner \<Rightarrow> runner option" where
  "rn_exec d w [] r = Some r"
| "rn_exec d w (i # is) r = Option.bind (rn_next d w i r) (rn_exec d w is)"

section \<open>The events a runner sends\<close>

text \<open>
  What the supervisor reads off an event stream: the acknowledged tasks, the last reported status,
  and whether every completion is reported while the last status is a working one.
\<close>

fun acks :: "event_body list \<Rightarrow> task_id list" where
  "acks [] = []"
| "acks (TaskAcknowledged t # es) = t # acks es"
| "acks (_ # es) = acks es"

fun last_status :: "runner_status \<Rightarrow> event_body list \<Rightarrow> runner_status" where
  "last_status st [] = st"
| "last_status st (RunnerStatusUpdated _ st' # es) = last_status st' es"
| "last_status st (_ # es) = last_status st es"

fun working :: "runner_status \<Rightarrow> bool" where
  "working RunnerRunning = True"
| "working RunnerWarmingUp = True"
| "working (RunnerLoading _ _) = True"
| "working RunnerConnecting = True"
| "working RunnerShuttingDown = True"
| "working _ = False"

fun completes_ok :: "runner_status \<Rightarrow> event_body list \<Rightarrow> bool" where
  "completes_ok st [] = True"
| "completes_ok st (RunnerStatusUpdated _ st' # es) = completes_ok st' es"
| "completes_ok st (TaskStatusUpdated _ Complete # es) = (working st \<and> completes_ok st es)"
| "completes_ok st (_ # es) = completes_ok st es"

lemma acks_append [simp]: "acks (xs @ ys) = acks xs @ acks ys"
  by (induction xs rule: acks.induct) auto

lemma last_status_append [simp]: "last_status st (xs @ ys) = last_status (last_status st xs) ys"
  by (induction st xs rule: last_status.induct) auto

lemma completes_ok_append [simp]:
  "completes_ok st (xs @ ys) \<longleftrightarrow> completes_ok st xs \<and> completes_ok (last_status st xs) ys"
  by (induction st xs rule: completes_ok.induct) auto

lemma engine_event_trace [simp]:
  "acks (engine_event_body e # es) = acks es"
  "last_status st (engine_event_body e # es) = last_status st es"
  "completes_ok st (engine_event_body e # es) = completes_ok st es"
  by (cases e; simp)+

lemma engine_events_trace [simp]:
  "acks (map engine_event_body es) = []"
  "last_status st (map engine_event_body es) = st"
  "completes_ok st (map engine_event_body es)"
  by (induction es) auto

abbreviation loading_events :: "runner_id \<Rightarrow> (int \<times> int) list \<Rightarrow> event_body list" where
  "loading_events rid ps \<equiv> map (\<lambda>(n, t). RunnerStatusUpdated rid (RunnerLoading n t)) ps"

lemma loading_events_trace [simp]:
  "acks (loading_events rid ps) = []"
  "completes_ok st (loading_events rid ps)"
  "working st \<Longrightarrow> working (last_status st (loading_events rid ps))"
  by (induction ps arbitrary: st) auto

lemmas runner_defs = effect_defs send_def engine_def update_status_def send_task_status_def
  acknowledge_task_def send_chunk_def

lemma report_progress_eq:
  "report_progress ps r =
     (r\<lparr>rn_current_status := last_status (rn_current_status r) (loading_events (rn_runner_id r) ps),
        rn_events := rn_events r @ loading_events (rn_runner_id r) ps\<rparr>, Inr ())"
  by (induction ps arbitrary: r) (auto simp: report_progress_def runner_defs)

section \<open>Invariant\<close>

definition trace_inv :: "runner \<Rightarrow> bool" where
  "trace_inv r \<longleftrightarrow>
     last_status RunnerIdle (rn_events r) = rn_current_status r \<and> completes_ok RunnerIdle (rn_events r) \<and>
     distinct (acks (rn_events r)) \<and> set (acks (rn_events r)) \<subseteq> set (rn_seen r)"

fun status_ok :: "runner_status \<Rightarrow> generator \<Rightarrow> bool" where
  "status_ok RunnerIdle g \<longleftrightarrow> g = Builder"
| "status_ok RunnerConnected g \<longleftrightarrow> g = Builder"
| "status_ok RunnerLoaded g \<longleftrightarrow> g = Engine"
| "status_ok (RunnerReady _) g \<longleftrightarrow> g = Engine"
| "status_ok RunnerRunning g \<longleftrightarrow> g = Engine"
| "status_ok _ g \<longleftrightarrow> False"

definition rn_inv :: "runner \<Rightarrow> bool" where
  "rn_inv r \<longleftrightarrow> trace_inv r \<and>
     (rn_control r = InMain \<or> rn_control r = Generating \<longrightarrow>
        status_ok (rn_current_status r) (rn_generator r) \<and> set (acks (rn_events r)) = set (rn_seen r)) \<and>
     (rn_control r = Generating \<longrightarrow> rn_current_status r = RunnerRunning \<and> rn_active_tasks r \<noteq> [])"

lemma mk_runner_inv:
  assumes "mk_runner b = Inr r"
  shows "rn_inv r" "rn_events r = [RunnerStatusUpdated (bound_runner_id b) RunnerIdle]" "rn_seen r = []"
    "rn_control r = InMain"
  using assms by (auto simp: mk_runner_def runner_defs rn_inv_def trace_inv_def split: if_splits)

text \<open>What is true while the generation loop handles the results of a step.\<close>

lemma handle_results_keeps:
  assumes "\<And>s e. P s \<Longrightarrow> acks [e] = [] \<Longrightarrow> (\<And>st. last_status st [e] = st) \<Longrightarrow>
      completes_ok RunnerRunning [e] \<Longrightarrow> P (s\<lparr>rn_events := rn_events s @ [e]\<rparr>)"
  shows "keeps P (handle_results xs f)"
proof -
  have send: "keeps P (send e)" if "acks [e] = []" "\<And>st. last_status st [e] = st" "completes_ok RunnerRunning [e]" for e
    using assms that by (auto simp: keeps_def send_def upd_def)
  have chunk: "keeps P (send_chunk k c)" for k c
    unfolding send_chunk_def by (auto intro!: keeps_intros send)
  show ?thesis
    by (induction xs f rule: handle_results.induct)
       (auto intro!: keeps_intros send chunk simp: send_task_status_def lift_result_def)
qed

definition gen_ok :: "runner \<Rightarrow> bool" where
  "gen_ok r \<longleftrightarrow> trace_inv r \<and> rn_current_status r = RunnerRunning \<and> rn_generator r = Engine \<and>
     set (acks (rn_events r)) = set (rn_seen r)"

lemma loop_test_inv: "gen_ok r \<Longrightarrow> rn_inv (finish (loop_test r))"
  by (auto simp: gen_ok_def loop_test_def runner_defs finish_def rn_inv_def trace_inv_def)

lemma finish_sbind:
  assumes "\<And>e s. m r = (s, Inl e) \<Longrightarrow> P (finish (s, Inl e))"
    and "\<And>x s. m r = (s, Inr x) \<Longrightarrow> P (finish (f x s))"
  shows "P (finish (sbind m f r))"
  using assms by (auto simp: sbind_def split: prod.splits sum.splits)

lemma raised_inv: "trace_inv r \<Longrightarrow> rn_inv (finish (r, Inl e))"
  by (simp add: finish_def rn_inv_def trace_inv_def)

lemma submit_inv: "gen_ok r \<Longrightarrow> rn_inv (finish (sseq [submit_generation en t, loop_test] r))"
  by (auto simp: gen_ok_def submit_generation_def loop_test_def runner_defs finish_def rn_inv_def trace_inv_def
      split: option.splits prod.splits sum.splits if_splits)

lemma shutdown_inv:
  assumes "trace_inv r" "task_id t \<in> set (rn_seen r)" "task_id t \<notin> set (acks (rn_events r))"
  shows "rn_inv (finish (sseq [shutdown en t, upd (\<lambda>r. r\<lparr>rn_control := Exited\<rparr>)] r))"
  using assms
  by (auto simp: shutdown_def runner_defs finish_def rn_inv_def trace_inv_def split: option.splits)

lemma generation_item_inv:
  assumes "gen_ok r"
  shows "rn_inv (finish (generation_item en i r))"
proof (cases i)
  case (TaskItem t)
  let ?r = "r\<lparr>rn_seen := rn_seen r @ [task_id t]\<rparr>"
  show ?thesis
  proof (cases "task_id t \<in> set (rn_seen r)")
    case True
    then show ?thesis using loop_test_inv [OF assms] by (simp add: TaskItem with_state_def)
  next
    case False
    have seen: "trace_inv ?r" "task_id t \<in> set (rn_seen ?r)" "task_id t \<notin> set (acks (rn_events ?r))"
      using assms False by (auto simp: gen_ok_def trace_inv_def)
    have "rn_inv (finish (sseq [acknowledge_task t, submit_generation en t, loop_test] ?r))"
      using submit_inv [of "?r\<lparr>rn_events := rn_events r @ [TaskAcknowledged (task_id t)]\<rparr>" en t] assms False
      by (simp add: acknowledge_task_def send_def) (auto simp: gen_ok_def trace_inv_def)
    moreover have "rn_inv (finish (raises outside_state_machine ?r))"
      using raised_inv [OF seen(1)] by (simp add: raises_def)
    ultimately show ?thesis
      using False shutdown_inv [OF seen, of en]
      by (cases "task_body t") (auto simp: TaskItem with_state_def oset_add_def)
  qed
next
  case (PrefillTask q)
  then show ?thesis
    using loop_test_inv [of "r\<lparr>rn_prefill_done := rn_prefill_done r @ [q]\<rparr>"] assms
    by (auto simp: serve_prefill_def gen_ok_def trace_inv_def)
next
  case TaskStreamClosed
  then show ?thesis using assms by (auto simp: upd_def finish_def rn_inv_def gen_ok_def trace_inv_def)
qed

lemma generation_round_inv:
  assumes "rn_inv r" "rn_control r = Generating"
  shows "rn_inv (finish (generation_round res err i en r))"
proof -
  have gen: "gen_ok r" using assms by (auto simp: rn_inv_def gen_ok_def)
  have "keeps gen_ok (handle_results res [])"
    by (rule handle_results_keeps) (auto simp: gen_ok_def trace_inv_def)
  then have ok: "gen_ok (fst (handle_results res [] r))" using gen by (rule keepsD)
  show ?thesis unfolding generation_round_def
  proof (rule finish_sbind)
    fix e s assume "handle_results res [] r = (s, Inl e)"
    then show "rn_inv (finish (s, Inl e))" using ok raised_inv by (auto simp: gen_ok_def)
  next
    fix fin s assume "handle_results res [] r = (s, Inr fin)"
    then have s: "gen_ok s" using ok by simp
    have p: "gen_ok (s\<lparr>rn_active_tasks := x\<rparr>)" for x
      using s by (simp add: gen_ok_def trace_inv_def)
    have "rn_inv (finish (s, Inl e))" for e using raised_inv [of s] s by (simp add: gen_ok_def)
    then show "rn_inv (finish (sseq [case err of None \<Rightarrow> ret () | Some e \<Rightarrow> raises e, pop_finished fin,
        case i of None \<Rightarrow> loop_test | Some i \<Rightarrow> generation_item en i] s))"
      using loop_test_inv [OF p] generation_item_inv [OF p]
      by (cases err; cases i) (simp_all add: pop_finished_def sbind_def ret_def raises_def upd_def)
  qed
qed

text \<open>The four handlers of \<^verbatim>\<open>handle_first_task\<close>, entered with the task marked as seen.\<close>

definition entry_ok :: "task \<Rightarrow> runner \<Rightarrow> bool" where
  "entry_ok t r \<longleftrightarrow> trace_inv r \<and> status_ok (rn_current_status r) (rn_generator r) \<and>
     rn_control r = InMain \<and> task_id t \<notin> set (acks (rn_events r)) \<and>
     set (rn_seen r) = insert (task_id t) (set (acks (rn_events r)))"

abbreviation check_exit :: "(runner, unit) action" where
  "check_exit \<equiv> with_state (\<lambda>r. if rn_current_status r = RunnerShutdown then upd (\<lambda>r. r\<lparr>rn_control := Exited\<rparr>) else ret ())"

lemmas entry_simps = runner_defs finish_def rn_inv_def trace_inv_def entry_ok_def

lemma connect_inv:
  "entry_ok t r \<Longrightarrow> rn_current_status r = RunnerIdle \<Longrightarrow> rn_inv (finish (sbind (connect en t) (\<lambda>_. check_exit) r))"
  by (auto simp: connect_def entry_simps split: option.splits)

lemma load_model_inv:
  "entry_ok t r \<Longrightarrow> rn_inv (finish (sbind (load_model en t) (\<lambda>_. check_exit) r))"
  by (auto simp: load_model_def report_progress_eq Let_def entry_simps split: option.splits)

lemma warmup_inv:
  "entry_ok t r \<Longrightarrow> rn_current_status r = RunnerLoaded \<Longrightarrow>
   rn_inv (finish (sbind (warmup d w en t) (\<lambda>_. check_exit) r))"
  by (auto simp: warmup_def start_prefill_server_def entry_simps split: option.splits if_splits)

lemma first_shutdown_inv:
  "entry_ok t r \<Longrightarrow> rn_inv (finish (sbind (shutdown en t) (\<lambda>_. check_exit) r))"
  by (auto simp: shutdown_def entry_simps split: option.splits)

lemma first_generation_inv:
  "entry_ok t r \<Longrightarrow> rn_inv (finish (sbind (handle_generation_tasks en t) (\<lambda>_. check_exit) r))"
  by (auto simp: handle_generation_tasks_def submit_generation_def loop_test_def oset_add_def entry_simps rassert_def
      split: option.splits if_splits)

lemma main_item_inv:
  assumes "rn_inv r" "rn_control r = InMain"
  shows "rn_inv (finish (main_item d w en i r))"
proof (cases i)
  case (TaskItem t)
  show ?thesis
  proof (cases "task_id t \<in> set (rn_seen r)")
    case True
    then show ?thesis using assms by (simp add: TaskItem with_state_def ret_def finish_def)
  next
    case False
    let ?r = "r\<lparr>rn_seen := rn_seen r @ [task_id t], rn_events := rn_events r @ [TaskStatusUpdated (task_id t) Running]\<rparr>"
    have e: "entry_ok t ?r" and g: "status_ok (rn_current_status r) (rn_generator r)"
      using assms False by (auto simp: rn_inv_def trace_inv_def entry_ok_def)
    have raised: "rn_inv (finish (?r, Inl x))" for x using raised_inv e by (auto simp: entry_ok_def)
    have unfold: "main_item d w en i r = sbind (\<lambda>r. case match_task (task_body t) (rn_current_status r) (rn_generator r) of
               DoConnect \<Rightarrow> connect en t r | DoLoad \<Rightarrow> load_model en t r | DoWarmup \<Rightarrow> warmup d w en t r
             | DoGenerate \<Rightarrow> handle_generation_tasks en t r | DoShutdown \<Rightarrow> shutdown en t r
             | DoRaise \<Rightarrow> raises outside_state_machine r) (\<lambda>_. check_exit) ?r"
      using False
      by (simp add: TaskItem handle_first_task_def send_task_status_def send_def oset_add_def with_state_def
            sbind_def upd_def split: action_kind.split prod.split sum.split)
    show ?thesis
    proof (cases "match_task (task_body t) (rn_current_status r) (rn_generator r)")
      case DoConnect
      moreover from DoConnect have "rn_current_status r = RunnerIdle"
        by (auto simp: match_task_def split: task_body.splits if_splits)
      ultimately show ?thesis unfolding unfold using connect_inv [OF e] by (simp add: sbind_def)
    next
      case DoWarmup
      moreover from DoWarmup have "rn_current_status r = RunnerLoaded"
        by (auto simp: match_task_def split: task_body.splits if_splits)
      ultimately show ?thesis unfolding unfold using warmup_inv [OF e] by (simp add: sbind_def)
    next
      case DoLoad
      then show ?thesis unfolding unfold using load_model_inv [OF e] by (simp add: sbind_def)
    next
      case DoGenerate
      then show ?thesis unfolding unfold using first_generation_inv [OF e] by (simp add: sbind_def)
    next
      case DoShutdown
      then show ?thesis unfolding unfold using first_shutdown_inv [OF e] by (simp add: sbind_def)
    next
      case DoRaise
      then show ?thesis unfolding unfold using raised by (simp add: sbind_def raises_def)
    qed
  qed
next
  case (PrefillTask q)
  then show ?thesis
    using assms by (auto simp: serve_prefill_def upd_def finish_def rn_inv_def trace_inv_def)
next
  case TaskStreamClosed
  then show ?thesis using assms by (auto simp: upd_def finish_def rn_inv_def trace_inv_def)
qed

lemma rn_next_inv: "rn_inv r \<Longrightarrow> rn_next d w i r = Some r' \<Longrightarrow> rn_inv r'"
  by (cases i) (auto split: if_splits intro: main_item_inv generation_round_inv)

lemma rn_reach_inv: "rn_reach d w r0 r \<Longrightarrow> rn_inv r0 \<Longrightarrow> rn_inv r"
  by (induction rule: rn_reach.induct) (auto intro: rn_next_inv)

lemma rn_exec_reach:
  "rn_exec d w is r = Some r' \<Longrightarrow> rn_reach d w r0 r \<Longrightarrow> rn_reach d w r0 r'"
  by (induction "is" arbitrary: r) (auto simp: bind_eq_Some_conv intro: rn_step)

section \<open>Growth of the trace\<close>

fun input_ids :: "rn_input \<Rightarrow> task_id set" where
  "input_ids (GetItem (TaskItem t) _) = {task_id t}"
| "input_ids (StepRound _ _ (Some (TaskItem t)) _) = {task_id t}"
| "input_ids _ = {}"

text \<open>A predicate that every change of the four fields below keeps is kept by every step.\<close>

locale runner_frame =
  fixes P :: "runner \<Rightarrow> bool" and ids :: "task_id set"
  assumes frame_send: "P s \<Longrightarrow> P (s\<lparr>rn_events := rn_events s @ es\<rparr>)"
    and frame_seen: "P s \<Longrightarrow> x \<in> ids \<Longrightarrow> P (s\<lparr>rn_seen := oset_add (rn_seen s) x\<rparr>)"
    and frame_status: "P (s\<lparr>rn_current_status := st\<rparr>) = P s"
    and frame_control: "P (s\<lparr>rn_control := c\<rparr>) = P s"
    and frame_generator: "P (s\<lparr>rn_generator := g\<rparr>) = P s"
    and frame_active: "P (s\<lparr>rn_active_tasks := a\<rparr>) = P s"
    and frame_server: "P (s\<lparr>rn_prefill_server := b\<rparr>) = P s"
    and frame_port: "P (s\<lparr>rn_prefill_server_port := p\<rparr>) = P s"
    and frame_done: "P (s\<lparr>rn_prefill_done := q\<rparr>) = P s"
begin

lemma send_keeps: "keeps P (send e)"
  by (simp add: keeps_def send_def upd_def frame_send)

lemma engine_keeps: "keeps P (engine c)"
  unfolding engine_def by (auto intro!: keeps_intros frame_send split: option.splits)

lemma update_status_keeps: "keeps P (update_status st)"
  unfolding update_status_def by (auto intro!: keeps_intros send_keeps simp: frame_status)

lemmas primitive_keeps = send_keeps engine_keeps update_status_keeps

lemma sends_keeps:
  "keeps P (send_task_status t ts)" "keeps P (acknowledge_task k)" "keeps P (send_chunk ch cmd)"
  by (auto simp: send_task_status_def acknowledge_task_def send_chunk_def intro!: keeps_intros primitive_keeps)

lemma start_prefill_server_keeps: "keeps P (start_prefill_server d en)"
  unfolding start_prefill_server_def
  by (auto intro!: keeps_intros primitive_keeps simp: frame_server frame_port)

lemma loop_test_keeps: "keeps P loop_test"
  unfolding loop_test_def by (auto intro!: keeps_intros primitive_keeps simp: frame_control)

lemma submit_keeps: "keeps P (submit_generation en t)"
  unfolding submit_generation_def by (auto intro!: keeps_intros primitive_keeps simp: frame_active)

lemma shutdown_keeps: "keeps P (shutdown en t)"
  unfolding shutdown_def by (auto intro!: keeps_intros primitive_keeps sends_keeps)

lemma handle_results_frame: "keeps P (handle_results res f)"
  by (rule handle_results_keeps) (rule frame_send)

lemma seen_keeps: "x \<in> ids \<Longrightarrow> keeps P (upd (\<lambda>r. r\<lparr>rn_seen := oset_add (rn_seen r) x\<rparr>))"
  by (simp add: keeps_def upd_def frame_seen)

lemma first_task_keeps: "task_id t \<in> ids \<Longrightarrow> keeps P (handle_first_task d w en t)"
  unfolding handle_first_task_def connect_def load_model_def report_progress_def warmup_def handle_generation_tasks_def
  by (auto intro!: keeps_intros primitive_keeps sends_keeps submit_keeps loop_test_keeps shutdown_keeps
        start_prefill_server_keeps seen_keeps simp: Let_def frame_generator split: action_kind.split)

lemma finish_keeps: "P (fst p) \<Longrightarrow> P (finish p)"
  by (auto simp: finish_def frame_control frame_server split: prod.splits sum.splits)

lemma main_item_keeps: "(\<And>t. i = TaskItem t \<Longrightarrow> task_id t \<in> ids) \<Longrightarrow> keeps P (main_item d w en i)"
  by (cases i)
     (auto intro!: keeps_intros first_task_keeps seen_keeps simp: serve_prefill_def frame_done frame_control)

lemma generation_item_keeps: "(\<And>t. i = TaskItem t \<Longrightarrow> task_id t \<in> ids) \<Longrightarrow> keeps P (generation_item en i)"
  by (cases i)
     (auto intro!: keeps_intros loop_test_keeps submit_keeps shutdown_keeps sends_keeps seen_keeps
        simp: serve_prefill_def frame_done frame_control split: task_body.split)

lemma generation_round_keeps:
  "(\<And>t. i = Some (TaskItem t) \<Longrightarrow> task_id t \<in> ids) \<Longrightarrow> keeps P (generation_round res err i en)"
  unfolding generation_round_def pop_finished_def
  by (auto intro!: keeps_intros handle_results_frame loop_test_keeps generation_item_keeps simp: frame_active
        split: option.split)

lemma next_keeps: "input_ids i \<subseteq> ids \<Longrightarrow> P r \<Longrightarrow> rn_next d w i r = Some r' \<Longrightarrow> P r'"
  by (cases i)
     (auto split: if_splits option.splits work_item.splits
        intro!: finish_keeps keepsD [OF main_item_keeps] keepsD [OF generation_round_keeps])

end

interpretation ev: runner_frame "\<lambda>r. prefix E (rn_events r)" UNIV for E
  by unfold_locales (auto intro: prefix_prefix)

interpretation seen: runner_frame "\<lambda>r. S \<subseteq> set (rn_seen r) \<and> set (rn_seen r) \<subseteq> S \<union> I" I for S I
  by unfold_locales auto

lemma rn_next_grows:
  assumes "rn_inv r" "rn_next d w i r = Some r'"
  shows "\<exists>es. rn_events r' = rn_events r @ es \<and> set (acks es) \<subseteq> input_ids i - set (rn_seen r) \<and>
    set (rn_seen r) \<subseteq> set (rn_seen r') \<and> set (rn_seen r') \<subseteq> set (rn_seen r) \<union> input_ids i"
proof -
  obtain es where es: "rn_events r' = rn_events r @ es"
    using ev.next_keeps [of i "rn_events r" r d w r'] assms(2) by (auto elim: prefixE)
  have seen: "set (rn_seen r) \<subseteq> set (rn_seen r')" "set (rn_seen r') \<subseteq> set (rn_seen r) \<union> input_ids i"
    using seen.next_keeps [of i "input_ids i" "set (rn_seen r)" r d w r'] assms(2) by auto
  have live: "rn_control r = InMain \<or> rn_control r = Generating"
    using assms(2) by (cases i) (auto split: if_splits)
  have "trace_inv r'" using rn_next_inv [OF assms] by (simp add: rn_inv_def)
  moreover have "set (acks (rn_events r)) = set (rn_seen r)" using assms(1) live by (auto simp: rn_inv_def)
  ultimately show ?thesis using es seen by (auto simp: trace_inv_def)
qed

section \<open>Properties\<close>

definition demo_bound :: bound_instance where
  "demo_bound =
     \<lparr>bi_instance = MlxRingInstance ''i''
        \<lparr>sa_model_id = ''m'', runner_to_shard = [(''r'', PipelineShardMetadata (mk_base_shard demo_card 0 1 0 10))],
         node_to_runner = [(''a'', ''r'')]\<rparr> [] 50000,
      bound_runner_id = ''r'', bound_node_id = ''a''\<rparr>"

definition quiet :: engine_calls where
  "quiet = \<lparr>en_connect = ([], None), en_load_progress = [(5, 10), (10, 10)], en_load = ([], None), en_build = ([], None),
     en_warmup = ([], None), en_submit = ([], None), en_close = ([], None), en_prefill_server = ([], None), en_random_port = 50000\<rparr>"

definition demo_params :: image_generation_task_params where
  "demo_params = \<lparr>ig_prompt = ''p'', ig_background = None, ig_model = ''m'', ig_moderation = None, ig_n = None,
     ig_output_compression = None, ig_output_format = ''png'', ig_partial_images = None, ig_quality = None,
     ig_response_format = None, ig_size = ''auto'', ig_stream = None, ig_style = None, ig_user = None,
     ig_advanced_params = None, ig_bench = False\<rparr>"

definition demo_gen_task :: task where
  "demo_gen_task = mk_task ''3'' ''i'' (ImageGeneration ''c'' demo_params)"

definition demo_inputs :: "rn_input list" where
  "demo_inputs =
     [GetItem (TaskItem (mk_task ''1'' ''i'' LoadModel)) quiet, GetItem (TaskItem (mk_task ''2'' ''i'' StartWarmup)) quiet,
      GetItem (TaskItem demo_gen_task) quiet]"

definition demo_runner :: runner where
  "demo_runner = (case mk_runner demo_bound of
     Inr r \<Rightarrow> (case rn_exec True False demo_inputs r of Some r' \<Rightarrow> r' | None \<Rightarrow> r))"

definition demo_runner0 :: runner where
  "demo_runner0 = (case mk_runner demo_bound of Inr r \<Rightarrow> r)"

lemma demo_runner0: "mk_runner demo_bound = Inr demo_runner0"
proof -
  have "\<not> isl (mk_runner demo_bound)" by code_simp
  then show ?thesis by (cases "mk_runner demo_bound") (auto simp: demo_runner0_def)
qed

lemma demo_runner_reach: "rn_reach True False demo_runner0 demo_runner"
proof -
  have "rn_exec True False demo_inputs demo_runner0 \<noteq> None" by code_simp
  then have "rn_exec True False demo_inputs demo_runner0 = Some demo_runner"
    using demo_runner0 by (auto simp: demo_runner_def)
  then show ?thesis by (rule rn_exec_reach [OF _ rn_init])
qed

text \<open>
  Whatever the engine does and in whatever order items arrive, the events a runner has sent at
  any moment obey the protocol the supervisor relies on: a task is reported complete only while the
  last reported status is a working one, no task is acknowledged twice, only tasks the runner has
  seen are acknowledged, and the last reported status is the runner's current one.
\<close>

theorem runner_events_follow_protocol:
  assumes "mk_runner b = Inr r0" "rn_reach d w r0 r"
  shows "completes_ok RunnerIdle (rn_events r) \<and> distinct (acks (rn_events r)) \<and>
    set (acks (rn_events r)) \<subseteq> set (rn_seen r) \<and>
    last_status RunnerIdle (rn_events r) = rn_current_status r"
  using rn_reach_inv [OF assms(2) mk_runner_inv(1) [OF assms(1)]] by (auto simp: rn_inv_def trace_inv_def)

theorem runner_events_follow_protocol_witness:
  "completes_ok RunnerIdle (rn_events demo_runner) \<and> distinct (acks (rn_events demo_runner)) \<and>
   acks (rn_events demo_runner) = [''1'', ''2'', ''3''] \<and>
   last_status RunnerIdle (rn_events demo_runner) = RunnerRunning"
proof -
  have "rn_current_status demo_runner = RunnerRunning" by code_simp
  moreover have "acks (rn_events demo_runner) = [''1'', ''2'', ''3'']" by code_simp
  ultimately show ?thesis
    using runner_events_follow_protocol [OF demo_runner0 demo_runner_reach] by simp
qed

text \<open>
  When the task stream closes while a generation is running, the runner consumes the marker, but
  leaves only the generation loop: its status stays \<^verbatim>\<open>RunnerRunning\<close>, so \<^verbatim>\<open>main\<close> waits for another
  item. The reader thread adds none after the marker; however many prefill requests follow, the
  runner never reaches an exit.
\<close>

theorem runner_survives_stream_close:
  assumes "mk_runner b = Inr r0" "rn_reach d w r0 r"
    and "rn_next d w (StepRound res None (Some TaskStreamClosed) en) r = Some r'"
    and "handle_results res [] r = (s, Inr fin)"
  shows "\<exists>r''. rn_exec d w (map (\<lambda>q. GetItem (PrefillTask (fst q)) (snd q)) qs) r' = Some r'' \<and>
    rn_control r'' = InMain \<and> rn_current_status r'' = RunnerRunning"
proof -
  have g: "rn_control r = Generating" "r' = finish (generation_round res None (Some TaskStreamClosed) en r)"
    using assms(3) by (auto split: if_splits)
  then have r': "rn_control r' = InMain"
    using assms(4) by (simp add: generation_round_def pop_finished_def sbind_def ret_def upd_def finish_def)
  have "rn_inv r" using rn_reach_inv [OF assms(2) mk_runner_inv(1) [OF assms(1)]] .
  then have "gen_ok r" using g by (auto simp: rn_inv_def gen_ok_def)
  moreover have "keeps gen_ok (handle_results res [])"
    by (rule handle_results_keeps) (auto simp: gen_ok_def trace_inv_def)
  ultimately have "gen_ok s" using assms(4) keepsD by fastforce
  then have st: "rn_current_status r' = RunnerRunning"
    using g assms(4)
    by (simp add: generation_round_def pop_finished_def sbind_def ret_def upd_def finish_def gen_ok_def)
  show ?thesis using r' st
    by (induction qs arbitrary: r') (auto simp: serve_prefill_def upd_def finish_def)
qed

theorem runner_survives_stream_close_witness:
  "\<exists>r' r''. rn_next True False (StepRound [] None (Some TaskStreamClosed) quiet) demo_runner = Some r' \<and>
     rn_exec True False [GetItem (PrefillTask ''q'') quiet] r' = Some r'' \<and> rn_control r'' = InMain"
proof -
  have "rn_next True False (StepRound [] None (Some TaskStreamClosed) quiet) demo_runner \<noteq> None" by code_simp
  then obtain r' where r': "rn_next True False (StepRound [] None (Some TaskStreamClosed) quiet) demo_runner = Some r'"
    by blast
  have "handle_results [] [] demo_runner = (demo_runner, Inr [])" by (simp add: ret_def)
  from runner_survives_stream_close [OF demo_runner0 demo_runner_reach r' this, of "[(''q'', quiet)]"]
  obtain r'' where "rn_exec True False [GetItem (PrefillTask ''q'') quiet] r' = Some r''" "rn_control r'' = InMain"
    by (auto simp del: rn_exec.simps)
  with r' show ?thesis by blast
qed

end
