(* ===== verification/Supervisor.thy ===== *)
theory Supervisor
  imports Py_String Runner
begin

text \<open>
  The supervisor of one runner process (\<^verbatim>\<open>src/exo/worker/runner/supervisor.py\<close>) with the collector
  of stderr diagnostics (\<^verbatim>\<open>src/exo/worker/runner/diagnostics.py\<close>).

  Each coroutine is cut into the pieces between its suspension points: \<^verbatim>\<open>start_task\<close> up to
  \<^verbatim>\<open>event.wait()\<close>, the handling of one message by \<^verbatim>\<open>_forward_events\<close>, one tick of \<^verbatim>\<open>_watch_runner\<close>. The
  process is an input: whether it is alive and the exit code read after it was stopped. Channels are
  lists of what was sent; that a channel is closed is an argument of the operation that finds it so.
\<close>

section \<open>Diagnostics\<close>

record collector =
  stderr_tail :: "string list"
  collected :: "runner_diagnostic list"

definition new_collector :: collector where
  "new_collector = \<lparr>stderr_tail = [], collected = []\<rparr>"

fun is_socket_error :: "runner_diagnostic \<Rightarrow> bool" where
  "is_socket_error (RunnerRingSocketReceivingError _ _ _ _ _) = True"
| "is_socket_error _ = False"

fun is_unknown :: "runner_diagnostic \<Rightarrow> bool" where
  "is_unknown (RunnerUnknown _ _) = True"
| "is_unknown _ = False"

text \<open>\<open>classify\<close> is the regular-expression matching of \<^verbatim>\<open>_classify_line\<close>; the deque keeps the last four lines.\<close>

definition record_line ::
  "(string \<Rightarrow> string list \<Rightarrow> runner_diagnostic option) \<Rightarrow> string \<Rightarrow> collector \<Rightarrow> collector" where
  "record_line classify line c =
     (if line = [] \<or> list_all is_space line then c
      else let tail = stderr_tail c @ [line]; evidence = drop (length tail - 4) tail;
               diagnostic = (case classify line evidence of
                               Some d \<Rightarrow> d
                             | None \<Rightarrow> RunnerUnknown ''Unclassified runner stderr line'' evidence)
           in if collected c \<noteq> [] \<and> is_socket_error (last (collected c)) \<and> is_socket_error diagnostic
              then c\<lparr>stderr_tail := evidence, collected := butlast (collected c) @ [diagnostic]\<rparr>
              else c\<lparr>stderr_tail := evidence, collected := collected c @ [diagnostic]\<rparr>)"

text \<open>
  The line buffering of \<^verbatim>\<open>_handle_runner_output\<close> on decoded text: \<open>split_lines\<close> is
  \<^verbatim>\<open>text.split("\n")\<close>, whose last element becomes the pending line.
\<close>

fun split_lines :: "string \<Rightarrow> string list" where
  "split_lines [] = [[]]"
| "split_lines (c # cs) = (if c = CHR 0x0A then [] # split_lines cs else (c # hd (split_lines cs)) # tl (split_lines cs))"

definition strip_cr :: "string \<Rightarrow> string" where
  "strip_cr l = (if l \<noteq> [] \<and> last l = CHR 0x0D then butlast l else l)"

definition handle_line :: "string \<Rightarrow> string list \<Rightarrow> string list" where
  "handle_line line out = (let l = strip_cr line in if l = [] then out else out @ [l])"

definition handle_text :: "string \<Rightarrow> string \<times> string list \<Rightarrow> string \<times> string list" where
  "handle_text text p =
     (if text = [] then p
      else let lines = split_lines (fst p @ text)
           in (last lines, foldl (\<lambda>out l. handle_line l out) (snd p) (butlast lines)))"

definition handle_output :: "string list \<Rightarrow> string list" where
  "handle_output chunks =
     (let (pending, out) = foldl (\<lambda>p c. handle_text c p) ([], []) chunks
      in if pending = [] then out else handle_line pending out)"

section \<open>State\<close>

record supervisor =
  sv_bound_instance :: bound_instance
  sv_shard_metadata :: shard_metadata
  sv_status :: runner_status
  sv_pending :: "task_id list"
  sv_released :: "task_id list"
  sv_in_progress :: "(task_id, task) dict"
  sv_completed :: "task_id list"
  sv_cancelled :: "task_id list"
  sv_watch_cancelled :: bool
  sv_diagnostics :: collector
  sv_tasks :: "task list"
  sv_cancels :: "task_id list"
  sv_events :: "event_body list"
  sv_shutdown :: bool

definition mk_supervisor :: "bound_instance \<Rightarrow> supervisor result" where
  "mk_supervisor b =
     rbind (bound_shard b) (\<lambda>sh. Inr
       \<lparr>sv_bound_instance = b, sv_shard_metadata = sh, sv_status = RunnerIdle, sv_pending = [], sv_released = [],
        sv_in_progress = [], sv_completed = [], sv_cancelled = [], sv_watch_cancelled = False,
        sv_diagnostics = new_collector, sv_tasks = [], sv_cancels = [], sv_events = [], sv_shutdown = False\<rparr>)"

definition sv_send :: "event_body \<Rightarrow> (supervisor, unit) action" where
  "sv_send e = upd (\<lambda>s. s\<lparr>sv_events := sv_events s @ [e]\<rparr>)"

section \<open>Checking the process\<close>

datatype check_cause = NoCause | ExceptionCause | TerminationCause string

text \<open>How the process ended: \<open>strsignal\<close> is \<^verbatim>\<open>signal.strsignal\<close>, which may raise or give \<^verbatim>\<open>None\<close>.\<close>

definition exit_cause :: "(int \<Rightarrow> string option result) \<Rightarrow> int option \<Rightarrow> string" where
  "exit_cause strsignal rc =
     (case rc of
        Some n \<Rightarrow>
          if n < 0 then
            (case strsignal (- n) of
               Inr (Some d) \<Rightarrow> ''signal='' @ show_int (- n) @ '' ('' @ d @ '')''
             | _ \<Rightarrow> ''signal='' @ show_int (- n))
          else ''exitcode='' @ show_int n
      | None \<Rightarrow> ''exitcode=None'')"

definition error_chunk_event :: "supervisor \<Rightarrow> runner_diagnostic list \<Rightarrow> string \<Rightarrow> task \<Rightarrow> event_body option" where
  "error_chunk_event s ds cause t =
     map_option (\<lambda>c. ChunkGenerated c (ErrorChunk (shard_model_id (sv_shard_metadata s))
        (''Runner shutdown before completing command ('' @ cause @ '')'') ds)) (task_command_id (task_body t))"

definition check_runner ::
  "(int \<Rightarrow> string option result) \<Rightarrow> check_cause \<Rightarrow> int option \<Rightarrow> supervisor \<Rightarrow> supervisor" where
  "check_runner strsignal e rc s0 =
     (let s = s0\<lparr>sv_watch_cancelled := True\<rparr>
      in if rc = Some 0 then s
         else let c0 = exit_cause strsignal rc;
                  cause = (case e of TerminationCause m \<Rightarrow> c0 @ [CHR 0x0A] @ ''Runner error: '' @ m | _ \<Rightarrow> c0);
                  ds = filter (\<lambda>d. \<not> is_unknown d) (collected (sv_diagnostics s));
                  st = RunnerFailed (Some (''Terminated ('' @ cause @ '')'')) ds
              in s\<lparr>sv_events := sv_events s @ List.map_filter (error_chunk_event s ds cause) (dict_values (sv_in_progress s)) @
                                [RunnerStatusUpdated (bound_runner_id (sv_bound_instance s)) st],
                   sv_status := st, sv_shutdown := True\<rparr>)"

section \<open>Operations\<close>

definition start_task :: "bool \<Rightarrow> task \<Rightarrow> supervisor \<Rightarrow> supervisor" where
  "start_task chan_closed t s =
     (if task_id t \<in> set (sv_pending s) \<or> task_id t \<in> set (sv_completed s) then s
      else let s' = s\<lparr>sv_pending := oset_add (sv_pending s) (task_id t),
                      sv_in_progress := dict_set (sv_in_progress s) (task_id t) t\<rparr>
           in if chan_closed then s'\<lparr>sv_in_progress := dict_del (sv_in_progress s') (task_id t)\<rparr>
              else s'\<lparr>sv_tasks := sv_tasks s' @ [t]\<rparr>)"

text \<open>\<open>pipe\<close> is what the cancel channel does: it takes the id, it is closed, or it blocks for half a second.\<close>

datatype cancel_pipe = PipeTakes | PipeClosed | PipeBlocked "int option"

definition cancel_task ::
  "(int \<Rightarrow> string option result) \<Rightarrow> cancel_pipe \<Rightarrow> task_id \<Rightarrow> supervisor \<Rightarrow> supervisor" where
  "cancel_task strsignal pipe t s =
     (let s' = s\<lparr>sv_cancelled := oset_add (sv_cancelled s) t\<rparr>
      in if t \<in> set (sv_completed s) then s'
         else case pipe of
                PipeTakes \<Rightarrow> s'\<lparr>sv_cancels := sv_cancels s' @ [t]\<rparr>
              | PipeClosed \<Rightarrow> s'
              | PipeBlocked rc \<Rightarrow> check_runner strsignal ExceptionCause rc s')"

text \<open>The \<^verbatim>\<open>finally\<close> of \<^verbatim>\<open>_forward_events\<close> sets every event that is still pending.\<close>

definition release_pending :: "supervisor \<Rightarrow> supervisor" where
  "release_pending s = s\<lparr>sv_released := sv_released s @ sv_pending s\<rparr>"

datatype runner_message = RunnerEvent event_body | RunnerTermination string "int option"

definition note_status :: "event_body \<Rightarrow> supervisor \<Rightarrow> supervisor" where
  "note_status e s = (case e of RunnerStatusUpdated _ st \<Rightarrow> s\<lparr>sv_status := st\<rparr> | _ \<Rightarrow> s)"

definition forward_event :: "event_body \<Rightarrow> (supervisor, unit) action" where
  "forward_event e =
     sseq [upd (note_status e),
           with_state (\<lambda>s. case e of
              TaskAcknowledged t \<Rightarrow>
                if t \<in> set (sv_pending s)
                then upd (\<lambda>s. s\<lparr>sv_pending := removeAll t (sv_pending s), sv_released := sv_released s @ [t]\<rparr>)
                else raises KeyError
            | TaskStatusUpdated t st \<Rightarrow>
                sseq [swhen (st = Complete)
                        (sseq [sassert ''isinstance(self.status, working)'' (\<lambda>s. working (sv_status s)),
                               upd (\<lambda>s. s\<lparr>sv_in_progress := dict_del (sv_in_progress s) t,
                                          sv_completed := oset_add (sv_completed s) t\<rparr>)]),
                      sv_send e]
            | _ \<Rightarrow> sv_send e)]"

text \<open>One message of the runner; an exception or the end of the stream passes through \<open>release_pending\<close>.\<close>

fun forward_message :: "(int \<Rightarrow> string option result) \<Rightarrow> runner_message \<Rightarrow> supervisor \<Rightarrow> supervisor \<times> unit result" where
  "forward_message strsignal (RunnerTermination m rc) s =
     (release_pending (check_runner strsignal (TerminationCause m) rc s), Inr ())"
| "forward_message strsignal (RunnerEvent e) s =
     (case forward_event e s of
        (s', Inr _) \<Rightarrow> (s', Inr ())
      | (s', Inl x) \<Rightarrow> (release_pending s', Inl x))"

definition forward_closed :: "(int \<Rightarrow> string option result) \<Rightarrow> int option \<Rightarrow> supervisor \<Rightarrow> supervisor" where
  "forward_closed strsignal rc s = release_pending (check_runner strsignal NoCause rc s)"

definition watch_runner :: "(int \<Rightarrow> string option result) \<Rightarrow> bool \<Rightarrow> int option \<Rightarrow> supervisor \<Rightarrow> supervisor" where
  "watch_runner strsignal alive rc s =
     (if sv_watch_cancelled s \<or> alive then s else check_runner strsignal ExceptionCause rc s)"

section \<open>Line buffering\<close>

lemma split_lines_nonempty [simp]: "split_lines cs \<noteq> []"
  by (cases cs) auto

lemma split_lines_append:
  "split_lines (xs @ ys) = butlast (split_lines xs) @ split_lines (last (split_lines xs) @ ys)"
proof (induction xs)
  case (Cons c cs)
  obtain l ls where l: "split_lines cs = l # ls" by (cases "split_lines cs") auto
  show ?case using Cons l by (cases ls) auto
qed simp

lemma foldl_handle_line:
  "foldl (\<lambda>out l. handle_line l out) out ls = out @ filter (\<lambda>l. l \<noteq> []) (map strip_cr ls)"
  by (induction ls arbitrary: out) (auto simp: handle_line_def Let_def)

lemma handle_text_chunks:
  "foldl (\<lambda>p c. handle_text c p) ([], []) chunks =
     (last (split_lines (concat chunks)),
      filter (\<lambda>l. l \<noteq> []) (map strip_cr (butlast (split_lines (concat chunks)))))"
proof (induction chunks rule: rev_induct)
  case (snoc c cs)
  show ?case
  proof (cases "c = []")
    case False
    then show ?thesis
      using snoc split_lines_append [of "concat cs" c]
      by (simp add: handle_text_def [of c] Let_def foldl_handle_line butlast_append)
  qed (use snoc in \<open>simp add: handle_text_def [of "[]"]\<close>)
qed simp

section \<open>Supervisor and runner together\<close>

text \<open>
  The tasks the supervisor has sent and the runner not yet taken, and how many of the runner's events
  have been forwarded. Both channels are first-in first-out.
\<close>

record duo =
  du_supervisor :: supervisor
  du_runner :: runner
  du_taken :: nat
  du_forwarded :: nat

definition du_queue :: "duo \<Rightarrow> task list" where
  "du_queue d = drop (du_taken d) (sv_tasks (du_supervisor d))"

definition mk_duo :: "bound_instance \<Rightarrow> duo result" where
  "mk_duo b = rbind (mk_supervisor b) (\<lambda>s. rbind (mk_runner b) (\<lambda>r.
     Inr \<lparr>du_supervisor = s, du_runner = r, du_taken = 0, du_forwarded = 0\<rparr>))"

fun input_task :: "rn_input \<Rightarrow> task option" where
  "input_task (GetItem (TaskItem t) _) = Some t"
| "input_task (StepRound _ _ (Some (TaskItem t)) _) = Some t"
| "input_task _ = None"

inductive duo_step :: "duo \<Rightarrow> duo \<Rightarrow> bool" where
  du_start: "duo_step d (d\<lparr>du_supervisor := start_task chan_closed t (du_supervisor d)\<rparr>)"
| du_cancel: "duo_step d (d\<lparr>du_supervisor := cancel_task ss pipe t (du_supervisor d)\<rparr>)"
| du_watch: "duo_step d (d\<lparr>du_supervisor := watch_runner ss alive rc (du_supervisor d)\<rparr>)"
| du_take: "rn_next en w i (du_runner d) = Some r \<Longrightarrow> input_task i = Some t \<Longrightarrow> du_queue d = t # q \<Longrightarrow>
    duo_step d (d\<lparr>du_runner := r, du_taken := Suc (du_taken d)\<rparr>)"
| du_other: "rn_next en w i (du_runner d) = Some r \<Longrightarrow> input_task i = None \<Longrightarrow>
    duo_step d (d\<lparr>du_runner := r\<rparr>)"
| du_forward: "\<not> sv_shutdown (du_supervisor d) \<Longrightarrow> du_forwarded d < length (rn_events (du_runner d)) \<Longrightarrow>
    forward_message ss (RunnerEvent (rn_events (du_runner d) ! du_forwarded d)) (du_supervisor d) = (s, Inr ()) \<Longrightarrow>
    duo_step d (d\<lparr>du_supervisor := s, du_forwarded := Suc (du_forwarded d)\<rparr>)"

inductive_cases duo_stepE: "duo_step d d'"

definition duo_inv :: "duo \<Rightarrow> bool" where
  "duo_inv d \<longleftrightarrow>
     rn_inv (du_runner d) \<and> du_forwarded d \<le> length (rn_events (du_runner d)) \<and>
     set (acks (drop (du_forwarded d) (rn_events (du_runner d)))) \<subseteq> set (sv_pending (du_supervisor d)) \<and>
     (\<forall>t \<in> set (du_queue d). task_id t \<in> set (rn_seen (du_runner d)) \<or> task_id t \<in> set (sv_pending (du_supervisor d))) \<and>
     (\<not> sv_shutdown (du_supervisor d) \<longrightarrow>
        sv_status (du_supervisor d) = last_status RunnerIdle (take (du_forwarded d) (rn_events (du_runner d))))"

lemma mk_duo_inv: "mk_duo b = Inr d \<Longrightarrow> duo_inv d"
  by (auto simp: mk_duo_def mk_supervisor_def duo_inv_def du_queue_def mk_runner_inv)

lemma check_runner_recovers: "check_runner ss e (Some 0) s = s\<lparr>sv_watch_cancelled := True\<rparr>"
  by (simp add: check_runner_def)

lemma check_runner_fields [simp]:
  "sv_pending (check_runner ss e rc s) = sv_pending s" "sv_tasks (check_runner ss e rc s) = sv_tasks s"
  "sv_shutdown (check_runner ss e rc s) \<longleftrightarrow> sv_shutdown s \<or> rc \<noteq> Some 0"
  by (simp_all add: check_runner_def Let_def)

lemma cancel_task_fields [simp]:
  "sv_pending (cancel_task ss p t s) = sv_pending s" "sv_tasks (cancel_task ss p t s) = sv_tasks s"
  by (cases p; simp add: cancel_task_def Let_def check_runner_recovers split: if_splits)+

lemma cancel_task_status:
  "\<not> sv_shutdown (cancel_task ss p t s) \<Longrightarrow> sv_status (cancel_task ss p t s) = sv_status s \<and> \<not> sv_shutdown s"
  by (cases p; simp add: cancel_task_def Let_def check_runner_recovers split: if_splits)+

lemma watch_runner_fields [simp]:
  "sv_pending (watch_runner ss a rc s) = sv_pending s" "sv_tasks (watch_runner ss a rc s) = sv_tasks s"
  by (auto simp: watch_runner_def check_runner_recovers)

lemma watch_runner_status:
  "\<not> sv_shutdown (watch_runner ss a rc s) \<Longrightarrow> sv_status (watch_runner ss a rc s) = sv_status s \<and> \<not> sv_shutdown s"
  by (auto simp: watch_runner_def check_runner_recovers)

lemma start_task_fields [simp]:
  "sv_shutdown (start_task c t s) = sv_shutdown s" "sv_status (start_task c t s) = sv_status s"
  "x \<in> set (sv_pending s) \<Longrightarrow> x \<in> set (sv_pending (start_task c t s))"
  by (simp_all add: start_task_def Let_def)

lemma start_task_queue:
  "sv_tasks (start_task c t s) = sv_tasks s \<or>
   sv_tasks (start_task c t s) = sv_tasks s @ [t] \<and> task_id t \<in> set (sv_pending (start_task c t s))"
  by (auto simp: start_task_def Let_def)

text \<open>What forwarding needs of the next event, and what it leaves.\<close>

lemma forward_event_ok:
  assumes "\<And>t. e = TaskAcknowledged t \<Longrightarrow> t \<in> set (sv_pending s)"
    and "completes_ok (sv_status s) [e]"
  shows "\<exists>s'. forward_message ss (RunnerEvent e) s = (s', Inr ())"
  using assms by (cases e) (auto simp: forward_event_def note_status_def sv_send_def effect_defs split: task_status.splits)

lemma forward_event_fields:
  assumes "forward_message ss (RunnerEvent e) s = (s', Inr ())"
  shows "sv_status s' = last_status (sv_status s) [e]" "sv_tasks s' = sv_tasks s" "sv_shutdown s' = sv_shutdown s"
    "set (sv_pending s') = set (sv_pending s) - set (acks [e])"
proof -
  have "sv_status s' = last_status (sv_status s) [e] \<and> sv_tasks s' = sv_tasks s \<and> sv_shutdown s' = sv_shutdown s \<and>
    set (sv_pending s') = set (sv_pending s) - set (acks [e])"
    using assms
    by (cases e)
       (auto simp: forward_event_def note_status_def sv_send_def effect_defs rassert_def split: if_splits)
  then show "sv_status s' = last_status (sv_status s) [e]" "sv_tasks s' = sv_tasks s" "sv_shutdown s' = sv_shutdown s"
    "set (sv_pending s') = set (sv_pending s) - set (acks [e])" by auto
qed

lemma duo_start_inv:
  assumes "duo_inv d"
  shows "duo_inv (d\<lparr>du_supervisor := start_task c t (du_supervisor d)\<rparr>)"
proof -
  let ?d = "d\<lparr>du_supervisor := start_task c t (du_supervisor d)\<rparr>"
  have "task_id u \<in> set (rn_seen (du_runner d)) \<or> task_id u \<in> set (sv_pending (du_supervisor ?d))"
    if "u \<in> set (du_queue ?d)" for u
  proof -
    have "u \<in> set (du_queue d) \<or> u = t \<and> task_id t \<in> set (sv_pending (du_supervisor ?d))"
      using that start_task_queue [of c t "du_supervisor d"] by (auto simp: du_queue_def drop_Cons' split: if_splits)
    then show ?thesis using assms by (auto simp: duo_inv_def)
  qed
  then show ?thesis using assms by (auto simp: duo_inv_def)
qed

text \<open>A step of the runner on an item of the queue, or on no item.\<close>

lemma input_ids_task: "input_ids i = (case input_task i of None \<Rightarrow> {} | Some t \<Rightarrow> {task_id t})"
  by (cases i rule: input_ids.cases) auto

lemma duo_runner_inv:
  assumes "duo_inv d" "rn_next en w i (du_runner d) = Some r"
    and "\<forall>t. input_task i = Some t \<longrightarrow> t \<in> set (du_queue d)"
    and "d' = d\<lparr>du_runner := r, du_taken := k\<rparr>" "du_taken d \<le> k"
  shows "duo_inv d'"
proof -
  have inv: "rn_inv (du_runner d)" using assms(1) by (simp add: duo_inv_def)
  obtain es where es: "rn_events r = rn_events (du_runner d) @ es"
    and new: "set (acks es) \<subseteq> input_ids i - set (rn_seen (du_runner d))"
    and seen: "set (rn_seen (du_runner d)) \<subseteq> set (rn_seen r)"
    using rn_next_grows [OF inv assms(2)] by auto
  have "set (acks es) \<subseteq> set (sv_pending (du_supervisor d))"
    using new assms(1,3) by (auto simp: input_ids_task duo_inv_def split: option.splits)
  moreover have "set (du_queue d') \<subseteq> set (du_queue d)"
    using assms(4,5) by (auto simp: du_queue_def dest: set_drop_subset_set_drop [THEN subsetD])
  ultimately show ?thesis
    using assms(1,4) es seen rn_next_inv [OF inv assms(2)] by (auto simp: duo_inv_def)
qed

lemma duo_forward_inv:
  assumes "duo_inv d" "\<not> sv_shutdown (du_supervisor d)" "du_forwarded d < length (rn_events (du_runner d))"
    and "forward_message ss (RunnerEvent (rn_events (du_runner d) ! du_forwarded d)) (du_supervisor d) = (s, Inr ())"
  shows "duo_inv (d\<lparr>du_supervisor := s, du_forwarded := Suc (du_forwarded d)\<rparr>)"
proof -
  let ?es = "rn_events (du_runner d)" and ?n = "du_forwarded d"
  note f = forward_event_fields [OF assms(4)]
  have split: "drop ?n ?es = ?es ! ?n # drop (Suc ?n) ?es" using assms(3) by (rule Cons_nth_drop_Suc [symmetric])
  have all: "acks ?es = acks (take ?n ?es) @ acks [?es ! ?n] @ acks (drop (Suc ?n) ?es)"
    using arg_cong [OF append_take_drop_id [of ?n ?es], of acks] split by (metis acks_append append_Cons append_Nil)
  have rest: "acks (drop ?n ?es) = acks [?es ! ?n] @ acks (drop (Suc ?n) ?es)"
    unfolding split by (metis acks_append append_Cons append_Nil)
  have tr: "distinct (acks ?es)" "set (acks ?es) \<subseteq> set (rn_seen (du_runner d))"
    using assms(1) by (auto simp: duo_inv_def rn_inv_def trace_inv_def)
  have "set (acks (drop (Suc ?n) ?es)) \<subseteq> set (sv_pending s)"
    using assms(1) tr(1) all rest by (auto simp: f duo_inv_def)
  moreover have "sv_status s = last_status RunnerIdle (take (Suc ?n) ?es)"
    using assms by (simp add: f duo_inv_def take_Suc_conv_app_nth del: last_status.simps)
  moreover have "\<forall>t \<in> set (du_queue d). task_id t \<in> set (rn_seen (du_runner d)) \<or> task_id t \<in> set (sv_pending s)"
    using assms(1) tr(2) all by (auto simp: f duo_inv_def)
  ultimately show ?thesis using assms(1,3) f(2) by (simp add: duo_inv_def du_queue_def)
qed

lemma duo_step_inv: "duo_step d d' \<Longrightarrow> duo_inv d \<Longrightarrow> duo_inv d'"
proof (induction rule: duo_step.induct)
  case (du_cancel d ss pipe t)
  then show ?case
    using cancel_task_status [of ss pipe t "du_supervisor d"] by (auto simp: duo_inv_def du_queue_def)
next
  case (du_watch d ss alive rc)
  then show ?case
    using watch_runner_status [of ss alive rc "du_supervisor d"] by (auto simp: duo_inv_def du_queue_def)
next
  case (du_take en w i d r t q)
  then show ?case using duo_runner_inv [of d en w i r _ "Suc (du_taken d)"] by simp
next
  case (du_other en w i d r)
  then show ?case using duo_runner_inv [of d en w i r _ "du_taken d"] by simp
qed (auto intro: duo_start_inv duo_forward_inv)

lemma duo_reach_inv: "duo_step\<^sup>*\<^sup>* d d' \<Longrightarrow> duo_inv d \<Longrightarrow> duo_inv d'"
  by (induction rule: rtranclp_induct) (auto intro: duo_step_inv)

section \<open>Properties\<close>

text \<open>
  C4: however task submissions, cancellations, liveness checks, the runner's own steps and the
  forwarding of its events interleave, the supervisor can always forward the runner's next event:
  an acknowledgement finds its pending entry and the assertion that a completed task is reported
  by a working runner holds.
\<close>

theorem supervisor_forwards_every_event:
  assumes "mk_duo b = Inr d0" "duo_step\<^sup>*\<^sup>* d0 d"
    and "\<not> sv_shutdown (du_supervisor d)" "du_forwarded d < length (rn_events (du_runner d))"
  shows "\<exists>s. forward_message ss (RunnerEvent (rn_events (du_runner d) ! du_forwarded d)) (du_supervisor d) = (s, Inr ()) \<and>
    duo_step d (d\<lparr>du_supervisor := s, du_forwarded := Suc (du_forwarded d)\<rparr>)"
proof -
  let ?es = "rn_events (du_runner d)" and ?n = "du_forwarded d"
  have inv: "duo_inv d" using duo_reach_inv [OF assms(2) mk_duo_inv [OF assms(1)]] .
  have es: "?es = take ?n ?es @ [?es ! ?n] @ drop (Suc ?n) ?es" using assms(4) by (simp add: id_take_nth_drop)
  have "completes_ok RunnerIdle (take ?n ?es @ [?es ! ?n] @ drop (Suc ?n) ?es)"
    unfolding es [symmetric] using inv by (simp add: duo_inv_def rn_inv_def trace_inv_def)
  then have "completes_ok (sv_status (du_supervisor d)) [?es ! ?n]"
    using inv assms(3) by (simp add: duo_inv_def del: completes_ok.simps append.simps)
  moreover have "t \<in> set (sv_pending (du_supervisor d))" if "?es ! ?n = TaskAcknowledged t" for t
  proof -
    have "drop ?n ?es = TaskAcknowledged t # drop (Suc ?n) ?es"
      using that Cons_nth_drop_Suc [OF assms(4)] by simp
    then show ?thesis using inv by (auto simp: duo_inv_def)
  qed
  ultimately obtain s where s: "forward_message ss (RunnerEvent (?es ! ?n)) (du_supervisor d) = (s, Inr ())"
    using forward_event_ok by blast
  then show ?thesis using du_forward [OF assms(3,4) s] by blast
qed

definition demo_duo0 :: duo where
  "demo_duo0 = (case mk_duo demo_bound of Inr d \<Rightarrow> d)"

lemma demo_duo0: "mk_duo demo_bound = Inr demo_duo0"
proof -
  have "\<not> isl (mk_duo demo_bound)" by code_simp
  then show ?thesis by (cases "mk_duo demo_bound") (auto simp: demo_duo0_def)
qed

theorem supervisor_forwards_every_event_witness:
  "\<exists>d s. duo_step\<^sup>*\<^sup>* demo_duo0 d \<and> sv_tasks (du_supervisor d) = [demo_gen_task] \<and>
     forward_message (\<lambda>_. Inr None) (RunnerEvent (rn_events (du_runner d) ! du_forwarded d)) (du_supervisor d) = (s, Inr ())"
proof -
  let ?d = "demo_duo0\<lparr>du_supervisor := start_task False demo_gen_task (du_supervisor demo_duo0)\<rparr>"
  have r: "duo_step\<^sup>*\<^sup>* demo_duo0 ?d" using du_start by blast
  have "\<not> sv_shutdown (du_supervisor ?d) \<and> du_forwarded ?d < length (rn_events (du_runner ?d))" by code_simp
  then obtain s where
    "forward_message (\<lambda>_. Inr None) (RunnerEvent (rn_events (du_runner ?d) ! du_forwarded ?d)) (du_supervisor ?d) = (s, Inr ())"
    using supervisor_forwards_every_event [OF demo_duo0 r] by blast
  moreover have "sv_tasks (du_supervisor ?d) = [demo_gen_task]" by code_simp
  ultimately show ?thesis using r by blast
qed

text \<open>
  When the process has ended with any exit code but 0, the supervisor reports the failure: it sends
  an error chunk to the command of every generation task still in progress, in the order they
  started, then the failed status of its own runner as the last event, and shuts down.
\<close>

theorem failed_runner_is_reported:
  assumes "rc \<noteq> Some 0"
  shows "\<exists>msgs msg ds. sv_events (check_runner ss e rc s) =
      sv_events s @ map (\<lambda>(c, m). ChunkGenerated c (ErrorChunk (shard_model_id (sv_shard_metadata s)) m ds)) msgs @
      [RunnerStatusUpdated (bound_runner_id (sv_bound_instance s)) (RunnerFailed (Some msg) ds)] \<and>
    map fst msgs = List.map_filter (\<lambda>t. task_command_id (task_body t)) (dict_values (sv_in_progress s)) \<and>
    sv_status (check_runner ss e rc s) = RunnerFailed (Some msg) ds \<and> sv_shutdown (check_runner ss e rc s) \<and>
    (\<forall>d \<in> set ds. \<not> is_unknown d)"
proof -
  define cause where "cause = (case e of TerminationCause m \<Rightarrow> exit_cause ss rc @ [CHR 0x0A] @ ''Runner error: '' @ m
    | _ \<Rightarrow> exit_cause ss rc)"
  define ds where "ds = filter (\<lambda>d. \<not> is_unknown d) (collected (sv_diagnostics s))"
  define m where "m = ''Runner shutdown before completing command ('' @ cause @ '')''"
  define cs where "cs = List.map_filter (\<lambda>t. task_command_id (task_body t)) (dict_values (sv_in_progress s))"
  define st where "st = RunnerFailed (Some (''Terminated ('' @ cause @ '')'')) ds"
  have "List.map_filter (error_chunk_event (s\<lparr>sv_watch_cancelled := True\<rparr>) ds cause) ts =
      map (\<lambda>(c, m). ChunkGenerated c (ErrorChunk (shard_model_id (sv_shard_metadata s)) m ds))
        (map (\<lambda>c. (c, m)) (List.map_filter (\<lambda>t. task_command_id (task_body t)) ts))" for ts
    by (induction ts) (auto simp: error_chunk_event_def List.map_filter_simps m_def split: option.split)
  then have ev: "sv_events (check_runner ss e rc s) =
      sv_events s @ map (\<lambda>(c, m). ChunkGenerated c (ErrorChunk (shard_model_id (sv_shard_metadata s)) m ds)) (map (\<lambda>c. (c, m)) cs) @
      [RunnerStatusUpdated (bound_runner_id (sv_bound_instance s)) st]"
    using assms by (simp add: check_runner_def Let_def cause_def [symmetric] ds_def [symmetric] st_def cs_def)
  have status: "sv_status (check_runner ss e rc s) = st"
    using assms by (simp add: check_runner_def Let_def cause_def [symmetric] ds_def [symmetric] st_def)
  have "map fst (map (\<lambda>c. (c, m)) cs) = cs" by (simp add: comp_def)
  with ev status show ?thesis unfolding st_def cs_def
    using assms by (intro exI conjI) (assumption | simp add: ds_def)+
qed

definition demo_failing :: supervisor where
  "demo_failing = start_task False demo_gen_task (du_supervisor demo_duo0)"

theorem failed_runner_is_reported_witness:
  "\<exists>m ds. ChunkGenerated ''c'' (ErrorChunk ''m'' m ds) \<in> set (sv_events (check_runner (\<lambda>_. Inr None) NoCause (Some (- 9)) demo_failing)) \<and>
     last (sv_events (check_runner (\<lambda>_. Inr None) NoCause (Some (- 9)) demo_failing)) =
       RunnerStatusUpdated ''r'' (sv_status (check_runner (\<lambda>_. Inr None) NoCause (Some (- 9)) demo_failing))"
proof -
  have model: "shard_model_id (sv_shard_metadata demo_failing) = ''m''" by code_simp
  have rid: "bound_runner_id (sv_bound_instance demo_failing) = ''r''" by code_simp
  have tasks: "List.map_filter (\<lambda>t. task_command_id (task_body t)) (dict_values (sv_in_progress demo_failing)) = [''c'']"
    by code_simp
  have rc: "Some (- 9 :: int) \<noteq> Some 0" by simp
  obtain msgs msg ds where ev: "sv_events (check_runner (\<lambda>_. Inr None) NoCause (Some (- 9)) demo_failing) =
      sv_events demo_failing @ map (\<lambda>(c, m). ChunkGenerated c (ErrorChunk ''m'' m ds)) msgs @
      [RunnerStatusUpdated ''r'' (RunnerFailed (Some msg) ds)]"
    "map fst msgs = [''c'']"
    "sv_status (check_runner (\<lambda>_. Inr None) NoCause (Some (- 9)) demo_failing) = RunnerFailed (Some msg) ds"
    using failed_runner_is_reported [OF rc, of "\<lambda>_. Inr None" NoCause demo_failing] unfolding model rid tasks
    by (elim exE conjE) (rule that)
  moreover from this(2) obtain m where "msgs = [(''c'', m)]" by (auto simp: map_eq_Cons_conv)
  ultimately show ?thesis by (intro exI [of _ m] exI [of _ ds]) simp
qed

text \<open>
  The lines the supervisor logs and classifies do not depend on how the runner's output was cut
  into chunks: they are the non-empty lines of the whole text, without a trailing carriage return,
  including a last line that no newline ends.
\<close>

theorem stdio_lines_independent_of_chunks:
  "handle_output chunks = filter (\<lambda>l. l \<noteq> []) (map strip_cr (split_lines (concat chunks)))"
proof -
  let ?ls = "split_lines (concat chunks)"
  have "filter (\<lambda>l. l \<noteq> []) (map strip_cr ?ls) =
    filter (\<lambda>l. l \<noteq> []) (map strip_cr (butlast ?ls)) @ filter (\<lambda>l. l \<noteq> []) [strip_cr (last ?ls)]"
    by (metis append_butlast_last_id filter_append list.simps(8,9) map_append split_lines_nonempty)
  moreover have "strip_cr [] = []" by (simp add: strip_cr_def)
  ultimately show ?thesis
    by (auto simp: handle_output_def handle_text_chunks handle_line_def Let_def)
qed

end
