(* ===== verification/Backoff.thy ===== *)
theory Backoff
  imports Py_Float
begin

text \<open>
  The exponential backoff per key (\<^verbatim>\<open>src/exo/utils/keyed_backoff.py\<close>). The monotonic clock the code
  reads is the argument \<open>now\<close>. \<^verbatim>\<open>2.0**attempts\<close> is exact while the exponent fits binary64 and raises
  \<^verbatim>\<open>OverflowError\<close> from 1024 on, before \<^verbatim>\<open>min\<close> with the cap is taken.
\<close>

record 'k backoff =
  bo_base :: pyfloat
  bo_cap :: pyfloat
  bo_attempts :: "('k, int) dict"
  bo_last_time :: "('k, pyfloat) dict"

definition new_backoff :: "pyfloat \<Rightarrow> pyfloat \<Rightarrow> 'k backoff" where
  "new_backoff base cap = \<lparr>bo_base = base, bo_cap = cap, bo_attempts = [], bo_last_time = []\<rparr>"

definition attempts :: "'k backoff \<Rightarrow> 'k \<Rightarrow> int" where
  "attempts b k = dict_get_default (bo_attempts b) k 0"

text \<open>\<^verbatim>\<open>2.0**n\<close>\<close>

definition float_two_pow :: "int \<Rightarrow> pyfloat result" where
  "float_two_pow n = (if n < 1024 then Inr (pow2 n) else Inl OverflowError)"

definition should_proceed :: "pyfloat \<Rightarrow> 'k backoff \<Rightarrow> 'k \<Rightarrow> bool result" where
  "should_proceed now b k =
     (let last_t = dict_get_default (bo_last_time b) k 0; n = dict_get_default (bo_attempts b) k 0
      in rbind (float_two_pow n) (\<lambda>p.
           let delay = min (bo_cap b) (fl (bo_base b * p)) in Inr (delay \<le> fl (now - last_t))))"

definition record_attempt :: "pyfloat \<Rightarrow> 'k \<Rightarrow> 'k backoff \<Rightarrow> 'k backoff" where
  "record_attempt now k b =
     b\<lparr>bo_last_time := dict_set (bo_last_time b) k now,
       bo_attempts := dict_set (bo_attempts b) k (dict_get_default (bo_attempts b) k 0 + 1)\<rparr>"

definition reset :: "'k \<Rightarrow> 'k backoff \<Rightarrow> 'k backoff" where
  "reset k b =
     b\<lparr>bo_attempts := dict_del (bo_attempts b) k, bo_last_time := dict_del (bo_last_time b) k\<rparr>"

text \<open>Attempts on one key at the given times, one after the other.\<close>

definition record_all :: "pyfloat list \<Rightarrow> 'k \<Rightarrow> 'k backoff \<Rightarrow> 'k backoff" where
  "record_all ts k b = foldl (\<lambda>b t. record_attempt t k b) b ts"

section \<open>Lemmas\<close>

lemma attempts_record [simp]:
  "attempts (record_attempt t k b) k' = attempts b k' + (if k' = k then 1 else 0)"
  by (simp add: attempts_def record_attempt_def dict_get_default_def)

lemma attempts_reset [simp]: "attempts (reset k b) k' = (if k' = k then 0 else attempts b k')"
  by (simp add: attempts_def reset_def dict_get_default_def)

lemma last_time_reset [simp]:
  "dict_get_default (bo_last_time (reset k b)) k' d = (if k' = k then d else dict_get_default (bo_last_time b) k' d)"
  by (simp add: reset_def dict_get_default_def)

lemma backoff_params [simp]:
  "bo_base (record_attempt t k b) = bo_base b" "bo_cap (record_attempt t k b) = bo_cap b"
  "bo_base (reset k b) = bo_base b" "bo_cap (reset k b) = bo_cap b"
  by (simp_all add: record_attempt_def reset_def)

lemma record_all_params [simp]:
  "bo_base (record_all ts k b) = bo_base b" "bo_cap (record_all ts k b) = bo_cap b"
  by (induction ts rule: rev_induct) (simp_all add: record_all_def)

lemma record_all_attempts:
  "attempts (record_all ts k b) k' = attempts b k' + (if k' = k then int (length ts) else 0)"
  by (induction ts rule: rev_induct) (auto simp: record_all_def)

lemma record_all_last:
  "dict_get_default (bo_last_time (record_all ts k b)) k' d =
     (if k' = k \<and> ts \<noteq> [] then last ts else dict_get_default (bo_last_time b) k' d)"
  by (induction ts rule: rev_induct) (auto simp: record_all_def record_attempt_def dict_get_default_def)

lemma should_proceed_eq:
  "should_proceed now b k =
     (if attempts b k < 1024
      then Inr (min (bo_cap b) (fl (bo_base b * pow2 (attempts b k))) \<le> fl (now - dict_get_default (bo_last_time b) k 0))
      else Inl OverflowError)"
  by (simp add: should_proceed_def attempts_def float_two_pow_def Let_def)

text \<open>With base 0.5 and cap 10.0, as the worker creates both of its backoffs, the product is exact below the cap.\<close>

lemma worker_delay: "min 10 (fl (1 / 2 * pow2 (int n))) = min 10 (2 ^ n / 2)"
proof (cases "n \<le> 5")
  case True
  then have "n = 0 \<or> n = 1 \<or> n = 2 \<or> n = 3 \<or> n = 4 \<or> n = 5" by auto
  moreover have "fl (1 / 2) = 1 / 2" by code_simp
  ultimately show ?thesis
    using fl_of_int [of 1] fl_of_int [of 2] fl_of_int [of 4] fl_of_int [of 8] fl_of_int [of 16]
    by (auto simp: pow2_def)
next
  case False
  then have "(2 :: rat) ^ 6 \<le> 2 ^ n" by (intro power_increasing) auto
  then have p: "(32 :: rat) \<le> 2 ^ n / 2" by simp
  have "fl (1 / 2 * pow2 (int n)) = fl (2 ^ n / 2)" by (simp add: pow2_def)
  moreover have "2 ^ n / 2 - 2 ^ n / 2 / 2 ^ 53 \<le> fl (2 ^ n / 2 :: rat)"
    by (rule fl_ge) simp
  moreover have "(2 ^ n / 2 / 2 ^ 53 :: rat) \<le> 2 ^ n / 2 / 2"
    using p by (simp add: field_simps)
  ultimately show ?thesis using p by (simp add: min_def)
qed

section \<open>Properties\<close>

text \<open>
  With the worker's parameters (base 0.5 s, cap 10 s), after a reset and n recorded attempts a
  key may proceed exactly when the time since the last attempt has reached min(10, 2^n / 2)
  seconds; other keys are unaffected; but once 1024 attempts are recorded the computation of the
  delay overflows and the query raises at every time, although the delay is capped.
\<close>

theorem backoff_schedule:
  "let b' = record_all ts k (reset k (b\<lparr>bo_base := 1 / 2, bo_cap := 10\<rparr>))
   in should_proceed now b' k =
        (if length ts < 1024 then Inr (min 10 (2 ^ length ts / 2) \<le> fl (now - last (0 # ts)))
         else Inl OverflowError) \<and>
      (\<forall>k'. k' \<noteq> k \<longrightarrow> should_proceed now b' k' = should_proceed now (b\<lparr>bo_base := 1 / 2, bo_cap := 10\<rparr>) k')"
proof -
  define b0 where "b0 = b\<lparr>bo_base := 1 / 2, bo_cap := 10\<rparr>"
  define b' where "b' = record_all ts k (reset k b0)"
  have "attempts b' k = int (length ts)" by (simp add: b'_def record_all_attempts)
  moreover have "bo_base b' = 1 / 2" "bo_cap b' = 10" by (simp_all add: b'_def b0_def)
  moreover have "dict_get_default (bo_last_time b') k 0 = last (0 # ts)"
    by (simp add: b'_def record_all_last)
  ultimately have "should_proceed now b' k =
      (if length ts < 1024 then Inr (min 10 (2 ^ length ts / 2) \<le> fl (now - last (0 # ts))) else Inl OverflowError)"
    unfolding should_proceed_eq by (simp only: worker_delay) simp
  moreover have "should_proceed now b' k' = should_proceed now b0 k'" if "k' \<noteq> k" for k'
  proof -
    have "attempts b' k' = attempts b0 k'" using that by (simp add: b'_def record_all_attempts)
    moreover have "dict_get_default (bo_last_time b') k' 0 = dict_get_default (bo_last_time b0) k' 0"
      using that by (simp add: b'_def record_all_last)
    ultimately show ?thesis by (simp add: should_proceed_eq) (simp add: b'_def)
  qed
  ultimately show ?thesis by (auto simp: Let_def b'_def b0_def)
qed

theorem backoff_schedule_witness:
  "should_proceed 14 (record_all [1, 2, 4] ''m'' (reset ''m'' (new_backoff 0 0\<lparr>bo_base := 1 / 2, bo_cap := 10\<rparr>))) ''m'' = Inr True"
proof -
  have "fl (10 :: rat) = 10" using fl_of_int [of 10] by simp
  then show ?thesis
    using backoff_schedule [of "[1, 2, 4]" "''m''" "new_backoff 0 0" 14] by (simp add: Let_def)
qed

end
