(* ===== verification/Plan.thy ===== *)
theory Plan
  imports Supervisor Backoff
begin

text \<open>
  The worker's planner (\<^verbatim>\<open>src/exo/worker/plan.py\<close>): a pure decision, taken ten times a second, of
  the next task for this node's runners. Each helper returns the task or nothing, or raises; \<open>tid\<close>
  is the fresh id of the task it may construct, \<open>now\<close> the monotonic clock the backoffs read.
\<close>

section \<open>Loops\<close>

text \<open>A \<^verbatim>\<open>for\<close> loop that returns from its body, and \<^verbatim>\<open>all\<close> over a condition that may raise.\<close>

fun first_some :: "('a \<Rightarrow> 'b option result) \<Rightarrow> 'a list \<Rightarrow> 'b option result" where
  "first_some f [] = Inr None"
| "first_some f (x # xs) = rbind (f x) (\<lambda>r. case r of None \<Rightarrow> first_some f xs | Some y \<Rightarrow> Inr (Some y))"

fun rall :: "('a \<Rightarrow> bool result) \<Rightarrow> 'a list \<Rightarrow> bool result" where
  "rall p [] = Inr True"
| "rall p (x # xs) = rbind (p x) (\<lambda>b. if b then rall p xs else Inr False)"

text \<open>\<^verbatim>\<open>a or b\<close> on optional tasks.\<close>

definition or_else :: "'a option result \<Rightarrow> 'a option result \<Rightarrow> 'a option result" where
  "or_else a b = rbind a (\<lambda>r. case r of None \<Rightarrow> b | Some y \<Rightarrow> Inr (Some y))"

section \<open>Status tests\<close>

fun is_failed_runner :: "runner_status option \<Rightarrow> bool" where
  "is_failed_runner (Some (RunnerFailed _ _)) = True"
| "is_failed_runner _ = False"

fun connecting_or_idle :: "runner_status option \<Rightarrow> bool" where
  "connecting_or_idle (Some RunnerConnecting) = True"
| "connecting_or_idle (Some RunnerIdle) = True"
| "connecting_or_idle _ = False"

fun ready_for_model :: "runner_status option \<Rightarrow> bool" where
  "ready_for_model (Some RunnerConnected) = True"
| "ready_for_model (Some (RunnerLoading _ _)) = True"
| "ready_for_model (Some RunnerLoaded) = True"
| "ready_for_model _ = False"

fun warming_or_ready :: "runner_status option \<Rightarrow> bool" where
  "warming_or_ready (Some RunnerWarmingUp) = True"
| "warming_or_ready (Some (RunnerReady _)) = True"
| "warming_or_ready _ = False"

fun ready_or_running :: "runner_status \<Rightarrow> bool" where
  "ready_or_running (RunnerReady _) = True"
| "ready_or_running RunnerRunning = True"
| "ready_or_running _ = False"

type_synonym runners = "(runner_id, supervisor) dict"

definition sv_instance :: "supervisor \<Rightarrow> inst" where
  "sv_instance s = bi_instance (sv_bound_instance s)"

definition sv_assignments :: "supervisor \<Rightarrow> shard_assignments" where
  "sv_assignments s = shard_assignments (sv_instance s)"

definition sv_runner_id :: "supervisor \<Rightarrow> runner_id" where
  "sv_runner_id s = bound_runner_id (sv_bound_instance s)"

section \<open>The helpers\<close>

definition plan_cancel_tasks :: "task_id \<Rightarrow> runners \<Rightarrow> (task_id, task) dict \<Rightarrow> task option result" where
  "plan_cancel_tasks tid runners tasks =
     first_some (\<lambda>t.
       if task_status t \<noteq> Cancelled then Inr None
       else first_some (\<lambda>(rid, s).
         if task_instance_id t \<noteq> instance_id (sv_instance s) then Inr None
         else if task_id t \<in> set (sv_cancelled s) then Inr None
         else Inr (Some (mk_task tid (task_instance_id t) (CancelTask (task_id t) rid)))) runners)
     (dict_values tasks)"

definition plan_kill_runner ::
  "task_id \<Rightarrow> runners \<Rightarrow> (runner_id, runner_status) dict \<Rightarrow> (string, inst) dict \<Rightarrow> task option result" where
  "plan_kill_runner tid runners all_runners instances =
     first_some (\<lambda>s.
       let iid = instance_id (sv_instance s); stop = Inr (Some (mk_task tid iid (Shutdown (sv_runner_id s))))
       in if \<not> dict_mem iid instances then stop
          else if is_failed_runner (Some (sv_status s)) then stop
          else first_some (\<lambda>g.
                 if sv_runner_id s = g then Inr None
                 else if is_failed_runner (dict_get all_runners g) then stop else Inr None)
               (dict_values (node_to_runner (sv_assignments s))))
     (dict_values runners)"

definition plan_create_runner ::
  "task_id \<Rightarrow> pyfloat \<Rightarrow> node_id \<Rightarrow> runners \<Rightarrow> (runner_id, runner_status) dict \<Rightarrow> (string, inst) dict \<Rightarrow>
   string backoff \<Rightarrow> task option result" where
  "plan_create_runner tid now nid runners all_runners instances instance_backoff =
     first_some (\<lambda>i.
       case dict_get (node_to_runner (shard_assignments i)) nid of
         None \<Rightarrow> Inr None
       | Some rid \<Rightarrow>
           if dict_mem rid runners then Inr None
           else if list_ex (\<lambda>g. g \<noteq> rid \<and> is_failed_runner (dict_get all_runners g))
                     (dict_values (node_to_runner (shard_assignments i))) \<and>
                   \<not> is_failed_runner (dict_get all_runners rid)
                then Inr None
           else rbind (should_proceed now instance_backoff (instance_id i)) (\<lambda>ok.
                  if \<not> ok then Inr None
                  else rbind (mk_bound_instance i rid nid) (\<lambda>b.
                         Inr (Some (mk_task tid (instance_id i) (CreateRunner b))))))
     (dict_values instances)"

definition download_settled :: "download_progress option \<Rightarrow> bool" where
  "download_settled dp =
     (case dp of None \<Rightarrow> False
      | Some d \<Rightarrow> is_ongoing (dp_state d) \<or> is_completed (dp_state d) \<or> is_failed (dp_state d))"

definition plan_model_needs_download ::
  "task_id \<Rightarrow> pyfloat \<Rightarrow> node_id \<Rightarrow> runners \<Rightarrow> (node_id, download_progress list) dict \<Rightarrow> model_id backoff \<Rightarrow>
   task option result" where
  "plan_model_needs_download tid now nid runners downloads download_backoff =
     (let status = dict_of (map (\<lambda>dp. (dp_model_id dp, dp)) (dict_get_default downloads nid []))
      in first_some (\<lambda>s.
           rbind (bound_shard (sv_bound_instance s)) (\<lambda>sh.
             if sv_status s = RunnerIdle \<and> \<not> download_settled (dict_get status (shard_model_id sh))
             then rbind (should_proceed now download_backoff (shard_model_id sh)) (\<lambda>ok.
                    Inr (if ok then Some (mk_task tid (instance_id (sv_instance s)) (DownloadModel sh)) else None))
             else Inr None)) (dict_values runners))"

definition plan_init_distributed_backend ::
  "task_id \<Rightarrow> runners \<Rightarrow> (runner_id, runner_status) dict \<Rightarrow> task option result" where
  "plan_init_distributed_backend tid runners all_runners =
     first_some (\<lambda>s.
       let group = dict_keys (runner_to_shard (sv_assignments s))
       in if length group = 1 then Inr None
          else if \<not> (sv_status s = RunnerIdle \<and> list_all (\<lambda>g. connecting_or_idle (dict_get all_runners g)) group)
          then Inr None
          else rbind (bound_shard (sv_bound_instance s)) (\<lambda>sh.
                 let rank = device_rank (shard_base sh); world = world_size (shard_base sh)
                 in rbind (rassert ''device_rank < world_size'' (rank < world)) (\<lambda>_.
                    rbind (rassert ''device_rank >= 0'' (0 \<le> rank)) (\<lambda>_.
                      let accepting = rank < world - 1;
                          connecting = rank = world - 1 \<and>
                            list_all (\<lambda>g. g = sv_runner_id s \<or> dict_get all_runners g = Some RunnerConnecting) group
                      in Inr (if accepting \<or> connecting
                              then Some (mk_task tid (instance_id (sv_instance s)) ConnectToGroup) else None)))))
     (dict_values runners)"

definition downloads_complete :: "(node_id, download_progress list) dict \<Rightarrow> shard_assignments \<Rightarrow> bool" where
  "downloads_complete downloads sa =
     list_all (\<lambda>nid. case dict_get downloads nid of
         None \<Rightarrow> False
       | Some dps \<Rightarrow> list_ex (\<lambda>dp. is_completed (dp_state dp) \<and> dp_model_id dp = sa_model_id sa) dps)
     (dict_keys (node_to_runner sa))"

definition plan_load_model ::
  "task_id \<Rightarrow> runners \<Rightarrow> (runner_id, runner_status) dict \<Rightarrow> (node_id, download_progress list) dict \<Rightarrow>
   task option result" where
  "plan_load_model tid runners all_runners downloads =
     first_some (\<lambda>s.
       let sa = sv_assignments s; load = Inr (Some (mk_task tid (instance_id (sv_instance s)) LoadModel))
       in if \<not> downloads_complete downloads sa then Inr None
          else if length (runner_to_shard sa) = 1 \<and> sv_status s = RunnerIdle then load
          else if sv_status s = RunnerConnected \<and>
                  list_all (\<lambda>g. ready_for_model (dict_get all_runners g)) (dict_keys (runner_to_shard sa))
          then load else Inr None)
     (dict_values runners)"

definition plan_ready_to_warmup ::
  "task_id \<Rightarrow> runners \<Rightarrow> (runner_id, runner_status) dict \<Rightarrow> task option result" where
  "plan_ready_to_warmup tid runners all_runners =
     first_some (\<lambda>s.
       let group = dict_keys (runner_to_shard (sv_assignments s))
       in rbind (bound_shard (sv_bound_instance s)) (\<lambda>sh.
            let rank = device_rank (shard_base sh); world = world_size (shard_base sh)
            in rbind (rassert ''device_rank < world_size'' (rank < world)) (\<lambda>_.
               rbind (rassert ''device_rank >= 0'' (0 \<le> rank)) (\<lambda>_.
                 let accepting = rank > 0 \<and>
                       list_all (\<lambda>g. dict_get all_runners g = Some RunnerLoaded \<or> warming_or_ready (dict_get all_runners g)) group;
                     connecting = rank = 0 \<and>
                       list_all (\<lambda>g. g = sv_runner_id s \<or> warming_or_ready (dict_get all_runners g)) group
                 in Inr (if sv_status s = RunnerLoaded \<and> (accepting \<or> connecting)
                         then Some (mk_task tid (instance_id (sv_instance s)) StartWarmup) else None)))))
     (dict_values runners)"

text \<open>What a generation task still waits for: all chunks of an image to edit, all images of a prompt in the cache.\<close>

definition inputs_missing ::
  "(command_id, (int, input_image_chunk) dict) dict \<Rightarrow> (string, string) dict \<Rightarrow> task_body \<Rightarrow> bool" where
  "inputs_missing input_chunk_buffer image_cache b =
     (case b of
        ImageEdits c p \<Rightarrow>
          ie_total_input_chunks p > 0 \<and>
          int (length (dict_get_default input_chunk_buffer c [])) < ie_total_input_chunks p
      | TextGeneration c p \<Rightarrow>
          tg_image_hashes p \<noteq> [] \<and> \<not> list_all (\<lambda>h. dict_mem h image_cache) (dict_values (tg_image_hashes p))
      | _ \<Rightarrow> False)"

definition plan_pending_tasks ::
  "runners \<Rightarrow> (task_id, task) dict \<Rightarrow> (runner_id, runner_status) dict \<Rightarrow>
   (command_id, (int, input_image_chunk) dict) dict \<Rightarrow> (string, string) dict \<Rightarrow> task option result" where
  "plan_pending_tasks runners tasks all_runners input_chunk_buffer image_cache =
     first_some (\<lambda>t.
       if \<not> is_generation (task_body t) then Inr None
       else if task_status t \<noteq> Pending \<and> task_status t \<noteq> Running then Inr None
       else if inputs_missing input_chunk_buffer image_cache (task_body t) then Inr None
       else first_some (\<lambda>s.
         if task_instance_id t \<noteq> instance_id (sv_instance s) then Inr None
         else if task_id t \<in> set (sv_completed s) \<or> dict_mem (task_id t) (sv_in_progress s) then Inr None
         else if \<not> ready_or_running (sv_status s) then Inr None
         else rbind (rall (\<lambda>g. rbind (of_option KeyError (dict_get all_runners g)) (\<lambda>st. Inr (ready_or_running st)))
                      (dict_keys (runner_to_shard (sv_assignments s))))
                (\<lambda>ok. Inr (if ok then Some t else None)))
       (dict_values runners))
     (dict_values tasks)"

definition plan ::
  "task_id \<Rightarrow> pyfloat \<Rightarrow> node_id \<Rightarrow> runners \<Rightarrow> (node_id, download_progress list) dict \<Rightarrow> (string, inst) dict \<Rightarrow>
   (runner_id, runner_status) dict \<Rightarrow> (task_id, task) dict \<Rightarrow>
   (command_id, (int, input_image_chunk) dict) dict \<Rightarrow> (string, string) dict \<Rightarrow>
   string backoff \<Rightarrow> model_id backoff \<Rightarrow> task option result" where
  "plan tid now nid runners downloads instances all_runners tasks input_chunk_buffer image_cache
     instance_backoff download_backoff =
     or_else (plan_cancel_tasks tid runners tasks)
     (or_else (plan_kill_runner tid runners all_runners instances)
     (or_else (plan_create_runner tid now nid runners all_runners instances instance_backoff)
     (or_else (plan_model_needs_download tid now nid runners downloads download_backoff)
     (or_else (plan_init_distributed_backend tid runners all_runners)
     (or_else (plan_load_model tid runners all_runners downloads)
     (or_else (plan_ready_to_warmup tid runners all_runners)
       (plan_pending_tasks runners tasks all_runners input_chunk_buffer image_cache)))))))"

section \<open>Lemmas\<close>

lemma first_some_SomeD: "first_some f xs = Inr (Some y) \<Longrightarrow> \<exists>x \<in> set xs. f x = Inr (Some y)"
  by (induction xs) (auto split: option.splits)

lemma first_some_total: "(\<And>x. x \<in> set xs \<Longrightarrow> \<exists>v. f x = Inr v) \<Longrightarrow> \<exists>v. first_some f xs = Inr v"
proof (induction xs)
  case (Cons x xs)
  then obtain v where "f x = Inr v" by fastforce
  with Cons show ?case by (auto split: option.splits)
qed simp

lemma first_some_None: "first_some f xs = Inr None \<longleftrightarrow> (\<forall>x \<in> set xs. f x = Inr None)"
  by (induction xs) (auto split: option.splits)

lemma rall_True: "rall p xs = Inr True \<longleftrightarrow> (\<forall>x \<in> set xs. p x = Inr True)"
  by (induction xs) auto

lemma rall_total: "(\<And>x. x \<in> set xs \<Longrightarrow> \<exists>v. p x = Inr v) \<Longrightarrow> \<exists>v. rall p xs = Inr v"
proof (induction xs)
  case (Cons x xs)
  then obtain v where "p x = Inr v" by fastforce
  with Cons show ?case by (cases v) (auto simp del: ex_simps)
qed auto

lemma or_else_Some: "or_else a b = Inr (Some y) \<longleftrightarrow> a = Inr (Some y) \<or> a = Inr None \<and> b = Inr (Some y)"
  by (auto simp: or_else_def split: option.splits)

lemma or_else_total: "(\<exists>v. a = Inr v) \<Longrightarrow> (\<exists>v. b = Inr v) \<Longrightarrow> \<exists>v. or_else a b = Inr v"
  by (cases a; cases "projr a") (auto simp: or_else_def)

subsection \<open>What each helper promises about the task it returns\<close>

text \<open>The supervisor a planned task is for.\<close>

definition planned_for :: "runners \<Rightarrow> task \<Rightarrow> supervisor \<Rightarrow> bool" where
  "planned_for runners t s \<longleftrightarrow> s \<in> set (dict_values runners) \<and> task_instance_id t = instance_id (sv_instance s)"

lemma cancel_tasks_result:
  "plan_cancel_tasks tid runners tasks = Inr (Some t) \<Longrightarrow>
   \<exists>u rid s. t = mk_task tid (task_instance_id u) (CancelTask (task_id u) rid) \<and> u \<in> set (dict_values tasks) \<and>
     (rid, s) \<in> set runners \<and> task_status u = Cancelled \<and> task_instance_id u = instance_id (sv_instance s) \<and>
     task_id u \<notin> set (sv_cancelled s)"
  unfolding plan_cancel_tasks_def
proof (drule first_some_SomeD, elim bexE, goal_cases)
  case (1 u)
  then have u: "task_status u = Cancelled" by (auto split: if_splits)
  with 1(2) have "first_some (\<lambda>(rid, s). if task_instance_id u \<noteq> instance_id (sv_instance s) then Inr None
      else if task_id u \<in> set (sv_cancelled s) then Inr None
      else Inr (Some (mk_task tid (task_instance_id u) (CancelTask (task_id u) rid)))) runners = Inr (Some t)"
    by simp
  from first_some_SomeD [OF this] obtain rid s where s: "(rid, s) \<in> set runners"
    "(if task_instance_id u \<noteq> instance_id (sv_instance s) then Inr None
      else if task_id u \<in> set (sv_cancelled s) then Inr None
      else Inr (Some (mk_task tid (task_instance_id u) (CancelTask (task_id u) rid)))) = (Inr (Some t) :: task option result)"
    by auto
  with u 1(1) show ?case by (intro exI [of _ u] exI [of _ rid] exI [of _ s]) (auto split: if_splits)
qed

lemma kill_runner_result:
  "plan_kill_runner tid runners all_runners instances = Inr (Some t) \<Longrightarrow>
   \<exists>s. planned_for runners t s \<and> task_body t = Shutdown (sv_runner_id s) \<and>
     (\<not> dict_mem (task_instance_id t) instances \<or> is_failed_runner (Some (sv_status s)) \<or>
      (\<exists>g \<in> set (dict_values (node_to_runner (sv_assignments s))).
         g \<noteq> sv_runner_id s \<and> is_failed_runner (dict_get all_runners g)))"
  unfolding plan_kill_runner_def
  by (fastforce dest!: first_some_SomeD simp: Let_def planned_for_def mk_task_def split: if_splits)

lemma create_runner_result:
  "plan_create_runner tid now nid runners all_runners instances bo = Inr (Some t) \<Longrightarrow>
   \<exists>i rid. i \<in> set (dict_values instances) \<and> dict_get (node_to_runner (shard_assignments i)) nid = Some rid \<and>
     \<not> dict_mem rid runners \<and> should_proceed now bo (instance_id i) = Inr True \<and>
     t = mk_task tid (instance_id i) (CreateRunner \<lparr>bi_instance = i, bound_runner_id = rid, bound_node_id = nid\<rparr>)"
  unfolding plan_create_runner_def
  by (fastforce dest!: first_some_SomeD simp: mk_bound_instance_def split: if_splits option.splits)

lemma needs_download_result:
  "plan_model_needs_download tid now nid runners downloads bo = Inr (Some t) \<Longrightarrow>
   \<exists>s sh. planned_for runners t s \<and> bound_shard (sv_bound_instance s) = Inr sh \<and> task_body t = DownloadModel sh \<and>
     sv_status s = RunnerIdle \<and> should_proceed now bo (shard_model_id sh) = Inr True"
  unfolding plan_model_needs_download_def Let_def
  by (fastforce dest!: first_some_SomeD simp: planned_for_def mk_task_def split: if_splits)

lemma init_backend_result:
  "plan_init_distributed_backend tid runners all_runners = Inr (Some t) \<Longrightarrow>
   \<exists>s sh. planned_for runners t s \<and> bound_shard (sv_bound_instance s) = Inr sh \<and> task_body t = ConnectToGroup \<and>
     sv_status s = RunnerIdle \<and>
     (\<forall>g \<in> set (dict_keys (runner_to_shard (sv_assignments s))). connecting_or_idle (dict_get all_runners g) \<and>
        (device_rank (shard_base sh) = world_size (shard_base sh) - 1 \<and> g \<noteq> sv_runner_id s \<longrightarrow>
         dict_get all_runners g = Some RunnerConnecting))"
  unfolding plan_init_distributed_backend_def Let_def
proof (drule first_some_SomeD, elim bexE, goal_cases)
  case (1 s)
  then show ?case
    by (intro exI [of _ s]) (auto simp: planned_for_def mk_task_def list_all_iff split: if_splits)
qed

lemma load_model_result:
  "plan_load_model tid runners all_runners downloads = Inr (Some t) \<Longrightarrow>
   \<exists>s. planned_for runners t s \<and> task_body t = LoadModel \<and> downloads_complete downloads (sv_assignments s) \<and>
     (length (runner_to_shard (sv_assignments s)) = 1 \<and> sv_status s = RunnerIdle \<or>
      sv_status s = RunnerConnected \<and>
      (\<forall>g \<in> set (dict_keys (runner_to_shard (sv_assignments s))). ready_for_model (dict_get all_runners g)))"
  unfolding plan_load_model_def Let_def
  by (fastforce dest!: first_some_SomeD simp: planned_for_def mk_task_def list_all_iff split: if_splits)

lemma warmup_result:
  "plan_ready_to_warmup tid runners all_runners = Inr (Some t) \<Longrightarrow>
   \<exists>s sh. planned_for runners t s \<and> bound_shard (sv_bound_instance s) = Inr sh \<and> task_body t = StartWarmup \<and>
     sv_status s = RunnerLoaded \<and>
     (\<forall>g \<in> set (dict_keys (runner_to_shard (sv_assignments s))).
        (0 < device_rank (shard_base sh) \<longrightarrow>
           dict_get all_runners g = Some RunnerLoaded \<or> warming_or_ready (dict_get all_runners g)) \<and>
        (device_rank (shard_base sh) = 0 \<and> g \<noteq> sv_runner_id s \<longrightarrow> warming_or_ready (dict_get all_runners g)))"
  unfolding plan_ready_to_warmup_def Let_def
proof (drule first_some_SomeD, elim bexE, goal_cases)
  case (1 s)
  then show ?case
    by (intro exI [of _ s]) (auto simp: planned_for_def mk_task_def list_all_iff split: if_splits)
qed

lemma pending_result:
  "plan_pending_tasks runners tasks all_runners buf cache = Inr (Some t) \<Longrightarrow>
   t \<in> set (dict_values tasks) \<and> is_generation (task_body t) \<and> (task_status t = Pending \<or> task_status t = Running) \<and>
   \<not> inputs_missing buf cache (task_body t) \<and>
   (\<exists>s. planned_for runners t s \<and> task_id t \<notin> set (sv_completed s) \<and> \<not> dict_mem (task_id t) (sv_in_progress s) \<and>
     ready_or_running (sv_status s) \<and>
     (\<forall>g \<in> set (dict_keys (runner_to_shard (sv_assignments s))). \<exists>st. dict_get all_runners g = Some st \<and> ready_or_running st))"
  unfolding plan_pending_tasks_def
proof (drule first_some_SomeD, elim bexE, goal_cases)
  case (1 u)
  then have u: "is_generation (task_body u)" "task_status u = Pending \<or> task_status u = Running"
    "\<not> inputs_missing buf cache (task_body u)" by (auto split: if_splits)
  with 1 obtain s where "s \<in> set (dict_values runners)" and s: "(if task_instance_id u \<noteq> instance_id (sv_instance s) then Inr None
         else if task_id u \<in> set (sv_completed s) \<or> dict_mem (task_id u) (sv_in_progress s) then Inr None
         else if \<not> ready_or_running (sv_status s) then Inr None
         else rbind (rall (\<lambda>g. rbind (of_option KeyError (dict_get all_runners g)) (\<lambda>st. Inr (ready_or_running st)))
                      (dict_keys (runner_to_shard (sv_assignments s))))
                (\<lambda>ok. Inr (if ok then Some u else None))) = Inr (Some t)"
    by (auto dest!: first_some_SomeD)
  moreover from s have "t = u" by (auto split: if_splits)
  ultimately show ?case using 1(1) u
    by (intro conjI exI [of _ s]) (auto simp: planned_for_def rall_True split: if_splits)
qed

lemmas plan_results = cancel_tasks_result kill_runner_result create_runner_result needs_download_result
  init_backend_result load_model_result warmup_result pending_result

lemma plan_SomeD:
  assumes "plan tid now nid runners downloads instances all_runners tasks buf cache ibo dbo = Inr (Some t)"
  obtains "plan_cancel_tasks tid runners tasks = Inr (Some t)"
  | "plan_kill_runner tid runners all_runners instances = Inr (Some t)"
  | "plan_create_runner tid now nid runners all_runners instances ibo = Inr (Some t)"
  | "plan_model_needs_download tid now nid runners downloads dbo = Inr (Some t)"
  | "plan_init_distributed_backend tid runners all_runners = Inr (Some t)"
  | "plan_load_model tid runners all_runners downloads = Inr (Some t)"
  | "plan_ready_to_warmup tid runners all_runners = Inr (Some t)"
  | "plan_pending_tasks runners tasks all_runners buf cache = Inr (Some t)"
  using assms unfolding plan_def or_else_Some by blast

section \<open>Planner and runner\<close>

text \<open>The tasks the worker hands to a runner, and those a runner's two loops do not reject.\<close>

fun for_runner :: "task_body \<Rightarrow> bool" where
  "for_runner (CreateRunner _) = False"
| "for_runner (DownloadModel _) = False"
| "for_runner (CancelTask _ _) = False"
| "for_runner _ = True"

definition accepts :: "runner \<Rightarrow> task_body \<Rightarrow> bool" where
  "accepts r b \<longleftrightarrow>
     (case rn_control r of
        InMain \<Rightarrow> match_task b (rn_current_status r) (rn_generator r) \<noteq> DoRaise
      | Generating \<Rightarrow> is_generation b \<or> (\<exists>rid. b = Shutdown rid)
      | _ \<Rightarrow> False)"

lemma match_task_simps:
  "match_task (Shutdown rid) st g \<noteq> DoRaise"
  "match_task ConnectToGroup RunnerIdle g \<noteq> DoRaise"
  "match_task LoadModel RunnerIdle Builder \<noteq> DoRaise" "match_task LoadModel RunnerConnected Builder \<noteq> DoRaise"
  "match_task StartWarmup RunnerLoaded g \<noteq> DoRaise"
  "is_generation b \<Longrightarrow> is_ready st \<Longrightarrow> match_task b st g \<noteq> DoRaise"
  by (auto simp: match_task_def split: task_body.splits)

text \<open>
  C21: the planner never sends a runner a task its state machine rejects: when the supervisor's view of
  the status is up to date (and the runner's task stream is open, so that a running status means
  the generation loop), the runner accepts every task the plan hands to it, in every reachable state.
\<close>

theorem planned_task_fits_runner:
  assumes "plan tid now nid runners downloads instances all_runners tasks buf cache ibo dbo = Inr (Some t)"
    and "for_runner (task_body t)"
    and "mk_runner b = Inr r0" "rn_reach d w r0 r" "rn_control r = InMain \<or> rn_control r = Generating"
  shows "\<exists>s. planned_for runners t s \<and>
    (rn_current_status r = sv_status s \<and> (rn_control r = InMain \<longrightarrow> sv_status s \<noteq> RunnerRunning) \<longrightarrow> accepts r (task_body t))"
proof -
  have "rn_inv r" using rn_reach_inv [OF assms(4) mk_runner_inv(1) [OF assms(3)]] .
  then have ok: "status_ok (rn_current_status r) (rn_generator r)"
    "rn_control r = Generating \<Longrightarrow> rn_current_status r = RunnerRunning"
    using assms(5) by (auto simp: rn_inv_def)
  have acc: "accepts r (task_body t)"
    if "rn_current_status r = st" "rn_control r = InMain \<longrightarrow> st \<noteq> RunnerRunning"
      "(\<exists>rid. task_body t = Shutdown rid) \<or> task_body t = ConnectToGroup \<and> st = RunnerIdle \<or>
       task_body t = LoadModel \<and> (st = RunnerIdle \<or> st = RunnerConnected) \<or>
       task_body t = StartWarmup \<and> st = RunnerLoaded \<or> is_generation (task_body t) \<and> ready_or_running st" for st
    using that ok assms(5) by (cases st) (auto simp: accepts_def match_task_simps)
  from assms(1) show ?thesis
  proof (cases rule: plan_SomeD)
    case 1 with assms(2) show ?thesis by (auto dest!: plan_results simp: mk_task_def)
  next
    case 2 with acc show ?thesis by (blast dest: plan_results)
  next
    case 3 with assms(2) show ?thesis by (auto dest!: plan_results simp: mk_task_def)
  next
    case 4 with assms(2) show ?thesis by (auto dest!: plan_results)
  next
    case 5 with acc show ?thesis by (blast dest: plan_results)
  next
    case 6 with acc show ?thesis by (blast dest: plan_results)
  next
    case 7 with acc show ?thesis by (blast dest: plan_results)
  next
    case 8 with acc show ?thesis by (blast dest: plan_results)
  qed
qed

definition demo_sup :: "runner_status \<Rightarrow> supervisor" where
  "demo_sup st = (du_supervisor demo_duo0)\<lparr>sv_status := st\<rparr>"

definition demo_downloads :: "(node_id, download_progress list) dict" where
  "demo_downloads = [(''a'', [demo_ongoing\<lparr>dp_state := DownloadCompleted (Memory 1000) False\<rparr>])]"

definition demo_plan :: "runner_status \<Rightarrow> task option result" where
  "demo_plan st = plan ''t'' 100 ''a'' [(''r'', demo_sup st)] demo_downloads [(''i'', bi_instance demo_bound)]
     [(''r'', st)] [] [] [] (new_backoff (1 / 2) 10) (new_backoff (1 / 2) 10)"

theorem planned_task_fits_runner_witness:
  "accepts demo_runner0 (task_body (mk_task ''t'' ''i'' LoadModel))"
proof -
  have p: "demo_plan RunnerIdle = Inr (Some (mk_task ''t'' ''i'' LoadModel))" by code_simp
  have r: "rn_control demo_runner0 = InMain \<or> rn_control demo_runner0 = Generating" by code_simp
  have st: "rn_current_status demo_runner0 = RunnerIdle" by code_simp
  have b: "for_runner (task_body (mk_task ''t'' ''i'' LoadModel))" by (simp add: mk_task_def)
  show ?thesis
    using planned_task_fits_runner [OF p [unfolded demo_plan_def] b demo_runner0 rn_init r] st
    by (auto simp: planned_for_def demo_sup_def)
qed

section \<open>Barriers\<close>

text \<open>What must hold of the whole group of a supervisor's instance before a task of each kind starts.\<close>

definition barrier ::
  "(runner_id, runner_status) dict \<Rightarrow> (node_id, download_progress list) dict \<Rightarrow> supervisor \<Rightarrow> int \<Rightarrow> int \<Rightarrow> task_body \<Rightarrow> bool" where
  "barrier all_runners downloads s rank world b \<longleftrightarrow>
     (let group = dict_keys (runner_to_shard (sv_assignments s)); others = filter (\<lambda>g. g \<noteq> sv_runner_id s) group
      in case b of
           ConnectToGroup \<Rightarrow>
             list_all (\<lambda>g. connecting_or_idle (dict_get all_runners g)) group \<and>
             (rank = world - 1 \<longrightarrow> list_all (\<lambda>g. dict_get all_runners g = Some RunnerConnecting) others)
         | LoadModel \<Rightarrow>
             downloads_complete downloads (sv_assignments s) \<and>
             (length group \<noteq> 1 \<longrightarrow> list_all (\<lambda>g. ready_for_model (dict_get all_runners g)) group)
         | StartWarmup \<Rightarrow>
             (if rank = 0 then list_all (\<lambda>g. warming_or_ready (dict_get all_runners g)) others
              else list_all (\<lambda>g. dict_get all_runners g = Some RunnerLoaded \<or> warming_or_ready (dict_get all_runners g)) group)
         | _ \<Rightarrow> is_generation b \<longrightarrow>
             list_all (\<lambda>g. case dict_get all_runners g of None \<Rightarrow> False | Some st \<Rightarrow> ready_or_running st) group)"

lemma warmup_rank:
  "plan_ready_to_warmup tid runners all_runners = Inr (Some t) \<Longrightarrow>
   \<exists>s sh. planned_for runners t s \<and> bound_shard (sv_bound_instance s) = Inr sh \<and> task_body t = StartWarmup \<and>
     barrier all_runners downloads s (device_rank (shard_base sh)) (world_size (shard_base sh)) StartWarmup"
  unfolding plan_ready_to_warmup_def Let_def
proof (drule first_some_SomeD, elim bexE, goal_cases)
  case (1 s)
  then show ?case
    by (intro exI [of _ s]) (auto simp: planned_for_def mk_task_def list_all_iff barrier_def Let_def split: if_splits)
qed

text \<open>
  C22: the plan keeps the group in step: a task that starts a phase is planned for a supervisor whose
  group has passed the barrier of that phase. The last rank connects only when all other ranks are
  connecting; a model is loaded only when every node of the instance holds it and, in a group,
  every runner is connected; rank 0 warms up only after all other ranks have begun to, the others
  only when all are loaded; a generation starts only when every runner is ready or running.
\<close>

theorem plan_respects_group_barriers:
  assumes "plan tid now nid runners downloads instances all_runners tasks buf cache ibo dbo = Inr (Some t)"
    and "for_runner (task_body t)" "\<forall>s \<in> set (dict_values runners). \<exists>sh. bound_shard (sv_bound_instance s) = Inr sh"
  shows "\<exists>s sh. planned_for runners t s \<and> bound_shard (sv_bound_instance s) = Inr sh \<and>
    barrier all_runners downloads s (device_rank (shard_base sh)) (world_size (shard_base sh)) (task_body t)"
proof -
  have sh: "\<exists>sh. bound_shard (sv_bound_instance s) = Inr sh" if "planned_for runners t s" for s
    using that assms(3) by (auto simp: planned_for_def)
  from assms(1) show ?thesis
  proof (cases rule: plan_SomeD)
    case 2
    then obtain s where "planned_for runners t s" "task_body t = Shutdown (sv_runner_id s)"
      using kill_runner_result by blast
    with sh show ?thesis by (auto simp: barrier_def Let_def)
  next
    case 5
    then show ?thesis by (fastforce dest!: init_backend_result simp: barrier_def Let_def list_all_iff)
  next
    case 6
    then obtain s where "planned_for runners t s" "task_body t = LoadModel"
      "downloads_complete downloads (sv_assignments s)"
      "length (runner_to_shard (sv_assignments s)) = 1 \<or>
       (\<forall>g \<in> set (dict_keys (runner_to_shard (sv_assignments s))). ready_for_model (dict_get all_runners g))"
      using load_model_result by blast
    with sh [of s] show ?thesis by (intro exI [of _ s]) (auto simp: barrier_def Let_def list_all_iff)
  next
    case 7
    then show ?thesis using warmup_rank [OF 7, of downloads] by auto
  next
    case 8
    then obtain s where g: "is_generation (task_body t)" and p: "planned_for runners t s"
      and all: "\<forall>g \<in> set (dict_keys (runner_to_shard (sv_assignments s))). \<exists>st. dict_get all_runners g = Some st \<and> ready_or_running st"
      using pending_result by blast
    have "list_all (\<lambda>g. case dict_get all_runners g of None \<Rightarrow> False | Some st \<Rightarrow> ready_or_running st)
        (dict_keys (runner_to_shard (sv_assignments s)))"
      unfolding list_all_iff using all by fastforce
    with g p sh [OF p] show ?thesis
      by (intro exI [of _ s]) (cases "task_body t"; auto simp: barrier_def Let_def)
  qed (use assms(2) in \<open>auto dest!: plan_results simp: mk_task_def\<close>)
qed

theorem plan_respects_group_barriers_witness:
  "\<exists>s sh. planned_for [(''r'', demo_sup RunnerLoaded)] (mk_task ''t'' ''i'' StartWarmup) s \<and>
     bound_shard (sv_bound_instance s) = Inr sh \<and>
     barrier [(''r'', RunnerLoaded)] demo_downloads s (device_rank (shard_base sh)) (world_size (shard_base sh)) StartWarmup"
proof -
  have p: "demo_plan RunnerLoaded = Inr (Some (mk_task ''t'' ''i'' StartWarmup))" by code_simp
  have b: "for_runner (task_body (mk_task ''t'' ''i'' StartWarmup))" by (simp add: mk_task_def)
  have "\<not> isl (bound_shard (sv_bound_instance (demo_sup RunnerLoaded)))" by code_simp
  then have "\<forall>s \<in> set (dict_values [(''r'', demo_sup RunnerLoaded)]). \<exists>sh. bound_shard (sv_bound_instance s) = Inr sh"
    by (cases "bound_shard (sv_bound_instance (demo_sup RunnerLoaded))") auto
  from plan_respects_group_barriers [OF p [unfolded demo_plan_def] b this] show ?thesis by (simp add: mk_task_def)
qed

section \<open>When the planner raises\<close>

definition supervisor_ok :: "(runner_id, runner_status) dict \<Rightarrow> supervisor \<Rightarrow> bool" where
  "supervisor_ok all_runners s \<longleftrightarrow>
     (\<exists>sh. bound_shard (sv_bound_instance s) = Inr sh \<and> 0 \<le> device_rank (shard_base sh) \<and>
        device_rank (shard_base sh) < world_size (shard_base sh)) \<and>
     (ready_or_running (sv_status s) \<longrightarrow>
        (\<forall>g \<in> set (dict_keys (runner_to_shard (sv_assignments s))). dict_mem g all_runners))"

definition instance_ok :: "inst \<Rightarrow> bool" where
  "instance_ok i \<longleftrightarrow> (\<forall>n r. dict_get (node_to_runner (shard_assignments i)) n = Some r \<longrightarrow>
     dict_mem r (runner_to_shard (shard_assignments i)))"

lemma should_proceed_total: "attempts b k < 1024 \<Longrightarrow> \<exists>v. should_proceed now b k = Inr v"
  by (simp add: should_proceed_eq)

lemma create_runner_total:
  assumes "\<forall>i \<in> set (dict_values instances). instance_ok i" "\<forall>k. attempts ibo k < 1024"
  shows "\<exists>v. plan_create_runner tid now nid runners all_runners instances ibo = Inr v"
  unfolding plan_create_runner_def
proof (rule first_some_total, goal_cases)
  case (1 i)
  obtain ok where "should_proceed now ibo (instance_id i) = Inr ok"
    using should_proceed_total [OF assms(2) [rule_format]] by blast
  moreover have "instance_ok i" using 1 assms(1) by blast
  ultimately show ?case by (auto simp: instance_ok_def mk_bound_instance_def split: option.splits)
qed

lemma needs_download_total:
  assumes "\<forall>s \<in> set (dict_values runners). supervisor_ok all_runners s" "\<forall>k. attempts dbo k < 1024"
  shows "\<exists>v. plan_model_needs_download tid now nid runners downloads dbo = Inr v"
  unfolding plan_model_needs_download_def Let_def
proof (rule first_some_total, goal_cases)
  case (1 s)
  then obtain sh where "bound_shard (sv_bound_instance s) = Inr sh" using assms(1) by (auto simp: supervisor_ok_def)
  moreover obtain ok where "should_proceed now dbo (shard_model_id sh) = Inr ok"
    using should_proceed_total [OF assms(2) [rule_format]] by blast
  ultimately show ?case by auto
qed

lemma pending_total:
  assumes "\<forall>s \<in> set (dict_values runners). supervisor_ok all_runners s"
  shows "\<exists>v. plan_pending_tasks runners tasks all_runners buf cache = Inr v"
proof -
  have "\<exists>v. rall (\<lambda>g. rbind (of_option KeyError (dict_get all_runners g)) (\<lambda>st. Inr (ready_or_running st)))
      (dict_keys (runner_to_shard (sv_assignments s))) = Inr v"
    if "s \<in> set (dict_values runners)" "ready_or_running (sv_status s)" for s
    using that assms by (intro rall_total) (fastforce simp: supervisor_ok_def)
  then show ?thesis unfolding plan_pending_tasks_def by (auto intro!: first_some_total)
qed

text \<open>
  C39: the planner does not raise as long as every supervised shard is one of its instance's with a rank
  within the group, every instance's runners have shards, the status of every runner of a ready
  group is known, and no backoff key has reached 1024 attempts.
\<close>

theorem plan_does_not_raise:
  assumes "\<forall>s \<in> set (dict_values runners). supervisor_ok all_runners s"
    and "\<forall>i \<in> set (dict_values instances). instance_ok i"
    and "\<forall>k. attempts ibo k < 1024" "\<forall>k. attempts dbo k < 1024"
  shows "\<exists>v. plan tid now nid runners downloads instances all_runners tasks buf cache ibo dbo = Inr v"
proof -
  have "\<exists>v. plan_cancel_tasks tid runners tasks = Inr v"
    unfolding plan_cancel_tasks_def by (auto intro!: first_some_total)
  moreover have "\<exists>v. plan_kill_runner tid runners all_runners instances = Inr v"
    unfolding plan_kill_runner_def by (auto intro!: first_some_total simp: Let_def)
  moreover have "\<exists>v. plan_init_distributed_backend tid runners all_runners = Inr v"
    unfolding plan_init_distributed_backend_def
    using assms(1) by (intro first_some_total) (auto simp: Let_def supervisor_ok_def)
  moreover have "\<exists>v. plan_load_model tid runners all_runners downloads = Inr v"
    unfolding plan_load_model_def by (auto intro!: first_some_total simp: Let_def)
  moreover have "\<exists>v. plan_ready_to_warmup tid runners all_runners = Inr v"
    unfolding plan_ready_to_warmup_def
    using assms(1) by (intro first_some_total) (auto simp: Let_def supervisor_ok_def)
  ultimately show ?thesis unfolding plan_def
    using create_runner_total [OF assms(2,3)] needs_download_total [OF assms(1,4)] pending_total [OF assms(1)]
    by (intro or_else_total) auto
qed

theorem plan_does_not_raise_witness:
  "\<exists>v. demo_plan (RunnerReady None) = Inr v"
proof -
  have "\<forall>s \<in> set (dict_values [(''r'', demo_sup (RunnerReady None))]). supervisor_ok [(''r'', RunnerReady None)] s"
    by (auto simp: supervisor_ok_def demo_sup_def demo_duo0_def mk_duo_def mk_supervisor_def mk_runner_def bound_shard_def
          inst_shard_def demo_bound_def sv_assignments_def sv_instance_def mk_base_shard_def)
  moreover have "\<forall>i \<in> set (dict_values [(''i'', bi_instance demo_bound)]). instance_ok i"
    by (auto simp: instance_ok_def demo_bound_def split: if_splits)
  moreover have "\<forall>k. attempts (new_backoff (1 / 2) 10 :: string backoff) k < 1024"
    by (simp add: attempts_def new_backoff_def dict_get_default_def)
  ultimately show ?thesis unfolding demo_plan_def by (intro plan_does_not_raise) auto
qed

section \<open>Progress of a group\<close>

text \<open>
  One supervisor per runner of a group of several shards, each on its own node, with distinct ranks
  below the world size, and the replicated runner statuses up to date.
\<close>

definition group_view ::
  "runner_id list \<Rightarrow> (runner_id \<Rightarrow> supervisor) \<Rightarrow> (runner_id, runner_status) dict \<Rightarrow> (runner_id \<Rightarrow> int) \<Rightarrow> int \<Rightarrow> bool" where
  "group_view grp sv all_runners rank world \<longleftrightarrow>
     length grp \<noteq> 1 \<and> inj_on rank (set grp) \<and>
     (\<forall>g \<in> set grp. dict_keys (runner_to_shard (sv_assignments (sv g))) = grp \<and> sv_runner_id (sv g) = g \<and>
        dict_get all_runners g = Some (sv_status (sv g)) \<and>
        (\<exists>sh. bound_shard (sv_bound_instance (sv g)) = Inr sh \<and> device_rank (shard_base sh) = rank g \<and>
           world_size (shard_base sh) = world \<and> 0 \<le> rank g \<and> rank g < world))"

lemma pick_rank:
  assumes "g0 \<in> S" "inj_on rank S" "P g0"
  obtains g where "g \<in> S" "P g" "rank g \<noteq> (k :: int) \<or> (\<forall>h \<in> S. h \<noteq> g \<longrightarrow> \<not> P h)"
proof (cases "\<exists>g \<in> S. P g \<and> rank g \<noteq> k")
  case False
  then have "\<forall>h \<in> S. P h \<longrightarrow> h = g0" using assms by (metis inj_onD)
  then show ?thesis using that [OF assms(1,3)] by blast
qed (use that in blast)

lemma group_view_status:
  "group_view grp sv all_runners rank world \<Longrightarrow> h \<in> set grp \<Longrightarrow> dict_get all_runners h = Some (sv_status (sv h))"
  by (simp add: group_view_def)

lemma connect_progress:
  assumes "group_view grp sv all_runners rank world" "g0 \<in> set grp" "sv_status (sv g0) = RunnerIdle"
    and "\<forall>g \<in> set grp. connecting_or_idle (dict_get all_runners g)"
  shows "\<exists>g \<in> set grp. sv_status (sv g) = RunnerIdle \<and> plan_init_distributed_backend tid [(g, sv g)] all_runners =
    Inr (Some (mk_task tid (instance_id (sv_instance (sv g))) ConnectToGroup))"
proof -
  obtain g where g: "g \<in> set grp" "sv_status (sv g) = RunnerIdle"
    "rank g \<noteq> world - 1 \<or> (\<forall>h \<in> set grp. h \<noteq> g \<longrightarrow> sv_status (sv h) \<noteq> RunnerIdle)"
    using pick_rank [of g0 "set grp" rank "\<lambda>g. sv_status (sv g) = RunnerIdle" "world - 1"] assms
    by (auto simp: group_view_def)
  have "\<forall>h \<in> set grp. h \<noteq> g \<longrightarrow> dict_get all_runners h = Some RunnerConnecting" if "rank g = world - 1"
  proof (intro ballI impI)
    fix h assume h: "h \<in> set grp" "h \<noteq> g"
    then have "connecting_or_idle (Some (sv_status (sv h)))" "sv_status (sv h) \<noteq> RunnerIdle"
      using assms(4) g that group_view_status [OF assms(1)] by auto
    then show "dict_get all_runners h = Some RunnerConnecting"
      using group_view_status [OF assms(1) h(1)] by (cases "sv_status (sv h)") auto
  qed
  moreover obtain sh where "bound_shard (sv_bound_instance (sv g)) = Inr sh" "device_rank (shard_base sh) = rank g"
    "world_size (shard_base sh) = world" "0 \<le> rank g" "rank g < world"
    using assms(1) g by (auto simp: group_view_def)
  moreover have "dict_keys (runner_to_shard (sv_assignments (sv g))) = grp" "sv_runner_id (sv g) = g" "length grp \<noteq> 1"
    using assms(1) g(1) by (auto simp: group_view_def)
  ultimately show ?thesis using assms(4) g
    by (intro bexI [of _ g]) (auto simp: plan_init_distributed_backend_def list_all_iff Let_def)
qed

lemma warmup_progress:
  assumes "group_view grp sv all_runners rank world" "g0 \<in> set grp" "sv_status (sv g0) = RunnerLoaded"
    and "\<forall>g \<in> set grp. dict_get all_runners g = Some RunnerLoaded \<or> warming_or_ready (dict_get all_runners g)"
  shows "\<exists>g \<in> set grp. sv_status (sv g) = RunnerLoaded \<and> plan_ready_to_warmup tid [(g, sv g)] all_runners =
    Inr (Some (mk_task tid (instance_id (sv_instance (sv g))) StartWarmup))"
proof -
  obtain g where g: "g \<in> set grp" "sv_status (sv g) = RunnerLoaded"
    "rank g \<noteq> 0 \<or> (\<forall>h \<in> set grp. h \<noteq> g \<longrightarrow> sv_status (sv h) \<noteq> RunnerLoaded)"
    using pick_rank [of g0 "set grp" rank "\<lambda>g. sv_status (sv g) = RunnerLoaded" 0] assms
    by (auto simp: group_view_def)
  have "\<forall>h \<in> set grp. h \<noteq> g \<longrightarrow> warming_or_ready (dict_get all_runners h)" if "rank g = 0"
    using assms(4) g that group_view_status [OF assms(1)] by auto
  moreover obtain sh where "bound_shard (sv_bound_instance (sv g)) = Inr sh" "device_rank (shard_base sh) = rank g"
    "world_size (shard_base sh) = world" "0 \<le> rank g" "rank g < world"
    using assms(1) g by (auto simp: group_view_def)
  moreover have "dict_keys (runner_to_shard (sv_assignments (sv g))) = grp" "sv_runner_id (sv g) = g"
    using assms(1) g(1) by (auto simp: group_view_def)
  ultimately show ?thesis using assms(4) g
    by (intro bexI [of _ g]) (simp_all add: plan_ready_to_warmup_def list_all_iff Let_def del: set_map, blast)
qed

text \<open>
  The whole planner of a node that runs nothing but its runner of the group: the group's instance is placed, the node's other
  instances have no runner there, the instance's runners are those of the group, and every cancelled task of the
  instance has been passed on.
\<close>

definition startup_view ::
  "runner_id list \<Rightarrow> (runner_id \<Rightarrow> supervisor) \<Rightarrow> (runner_id, runner_status) dict \<Rightarrow> (string, inst) dict \<Rightarrow> (task_id, task) dict \<Rightarrow> bool" where
  "startup_view grp sv all_runners instances tasks \<longleftrightarrow>
     (\<forall>g \<in> set grp. let iid = instance_id (sv_instance (sv g)) in
        dict_mem iid instances \<and> set (dict_values (node_to_runner (sv_assignments (sv g)))) \<subseteq> set grp \<and>
        (\<forall>i \<in> set (dict_values instances). dict_get (node_to_runner (shard_assignments i)) (bound_node_id (sv_bound_instance (sv g))) \<in> {None, Some g}) \<and>
        (\<forall>t \<in> set (dict_values tasks). task_status t = Cancelled \<and> task_instance_id t = iid \<longrightarrow> task_id t \<in> set (sv_cancelled (sv g))))"

lemma startup_first_helpers:
  assumes "startup_view grp sv all_runners instances tasks" "g \<in> set grp"
    and "\<forall>h \<in> set grp. \<not> is_failed_runner (dict_get all_runners h)" "dict_get all_runners g = Some (sv_status (sv g))"
  shows "plan tid now (bound_node_id (sv_bound_instance (sv g))) [(g, sv g)] downloads instances all_runners tasks buf cache ibo dbo =
    or_else (plan_model_needs_download tid now (bound_node_id (sv_bound_instance (sv g))) [(g, sv g)] downloads dbo)
    (or_else (plan_init_distributed_backend tid [(g, sv g)] all_runners)
    (or_else (plan_load_model tid [(g, sv g)] all_runners downloads)
    (or_else (plan_ready_to_warmup tid [(g, sv g)] all_runners)
      (plan_pending_tasks [(g, sv g)] tasks all_runners buf cache))))"
proof -
  have v: "dict_mem (instance_id (sv_instance (sv g))) instances" "set (dict_values (node_to_runner (sv_assignments (sv g)))) \<subseteq> set grp"
    "\<forall>i \<in> set (dict_values instances). dict_get (node_to_runner (shard_assignments i)) (bound_node_id (sv_bound_instance (sv g))) \<in> {None, Some g}"
    "\<forall>t \<in> set (dict_values tasks). task_status t = Cancelled \<and> task_instance_id t = instance_id (sv_instance (sv g)) \<longrightarrow> task_id t \<in> set (sv_cancelled (sv g))"
    using assms(1,2) by (auto simp: startup_view_def Let_def)
  have cancel: "plan_cancel_tasks tid [(g, sv g)] tasks = Inr None"
    unfolding plan_cancel_tasks_def first_some_None using v(4) by auto
  have "\<not> is_failed_runner (Some (sv_status (sv g)))" using assms(2-4) by metis
  moreover have "\<not> is_failed_runner (dict_get all_runners h)" if "h \<in> set (dict_values (node_to_runner (sv_assignments (sv g))))" for h
    using that v(2) assms(3) by blast
  ultimately have kill: "plan_kill_runner tid [(g, sv g)] all_runners instances = Inr None"
    unfolding plan_kill_runner_def first_some_None using v(1) by (auto simp: first_some_None Let_def)
  have "plan_create_runner tid now (bound_node_id (sv_bound_instance (sv g))) [(g, sv g)] all_runners instances ibo = Inr None"
    unfolding plan_create_runner_def first_some_None using v(3) by (auto split: option.split)
  with cancel kill show ?thesis by (simp add: plan_def or_else_def)
qed

lemma no_download: "\<exists>sh. bound_shard (sv_bound_instance s) = Inr sh \<Longrightarrow> sv_status s \<noteq> RunnerIdle \<Longrightarrow>
    plan_model_needs_download tid now nid [(g, s)] downloads dbo = Inr None"
  by (auto simp: plan_model_needs_download_def Let_def)

definition download_known :: "(node_id, download_progress list) dict \<Rightarrow> supervisor \<Rightarrow> shard_metadata \<Rightarrow> bool" where
  "download_known downloads s sh \<longleftrightarrow>
     download_settled (dict_get (dict_of (map (\<lambda>dp. (dp_model_id dp, dp))
       (dict_get_default downloads (bound_node_id (sv_bound_instance s)) []))) (shard_model_id sh))"

lemma idle_download:
  assumes "bound_shard (sv_bound_instance s) = Inr sh" "attempts dbo (shard_model_id sh) < 1024"
  shows "plan_model_needs_download tid now (bound_node_id (sv_bound_instance s)) [(g, s)] downloads dbo = Inr None \<or>
    plan_model_needs_download tid now (bound_node_id (sv_bound_instance s)) [(g, s)] downloads dbo =
      Inr (Some (mk_task tid (instance_id (sv_instance s)) (DownloadModel sh))) \<and> \<not> download_known downloads s sh"
proof -
  obtain ok where "should_proceed now dbo (shard_model_id sh) = Inr ok" using should_proceed_total [OF assms(2)] by blast
  then show ?thesis using assms(1) by (auto simp: plan_model_needs_download_def download_known_def Let_def)
qed

lemma group_shard:
  "group_view grp sv all_runners rank world \<Longrightarrow> g \<in> set grp \<Longrightarrow> \<exists>sh. bound_shard (sv_bound_instance (sv g)) = Inr sh"
  by (auto simp: group_view_def)

lemma load_progress:
  assumes "group_view grp sv all_runners rank world" "g \<in> set grp" "sv_status (sv g) = RunnerConnected"
    and "\<forall>h \<in> set grp. ready_for_model (dict_get all_runners h)" "downloads_complete downloads (sv_assignments (sv g))"
  shows "plan_load_model tid [(g, sv g)] all_runners downloads = Inr (Some (mk_task tid (instance_id (sv_instance (sv g))) LoadModel))"
proof -
  have "dict_keys (runner_to_shard (sv_assignments (sv g))) = grp" using assms(1,2) by (simp add: group_view_def)
  then show ?thesis using assms(3-5) by (simp add: plan_load_model_def list_all_iff)
qed

lemma later_helpers:
  "sv_status s \<noteq> RunnerIdle \<Longrightarrow> plan_init_distributed_backend tid [(g, s)] all_runners = Inr None"
  "sv_status s = RunnerLoaded \<Longrightarrow> plan_load_model tid [(g, s)] all_runners downloads = Inr None"
  by (simp_all add: plan_init_distributed_backend_def plan_load_model_def Let_def)

lemma failed_not_starting:
  "is_failed_runner x \<Longrightarrow> \<not> connecting_or_idle x \<and> \<not> ready_for_model x \<and> \<not> warming_or_ready x \<and> x \<noteq> Some RunnerLoaded"
  by (cases x rule: is_failed_runner.cases) auto

text \<open>
  C23: starting up a group never deadlocks. Let the nodes of a group of several runners run nothing else and know each other's
  statuses, and let no model have been tried 1024 times. While all runners are idle or connecting and one is still idle, the planner of some node plans to connect its
  runner, or first to download the model, of which it knows no ongoing, completed or failed download; while all are connected,
  loading or loaded, the planner of every connected runner's node plans to load the model once all nodes hold it; while all are loaded, warming up or ready and one is only loaded, the planner of some node plans the warm-up of its runner.
\<close>

theorem group_startup_progress:
  assumes "group_view grp sv all_runners rank world" "startup_view grp sv all_runners instances tasks" "g0 \<in> set grp"
    and "\<forall>g k. attempts (dbo g) k < 1024"
  shows "let plan_of = (\<lambda>g. plan tid now (bound_node_id (sv_bound_instance (sv g))) [(g, sv g)] downloads instances all_runners tasks
        buf cache (ibo g) (dbo g));
      task_of = (\<lambda>g body. mk_task tid (instance_id (sv_instance (sv g))) body) in
    (sv_status (sv g0) = RunnerIdle \<and> list_all (\<lambda>g. connecting_or_idle (dict_get all_runners g)) grp \<longrightarrow>
      (\<exists>g \<in> set grp. plan_of g = Inr (Some (task_of g ConnectToGroup)) \<or>
         (\<exists>sh. plan_of g = Inr (Some (task_of g (DownloadModel sh))) \<and> bound_shard (sv_bound_instance (sv g)) = Inr sh \<and>
            \<not> download_known downloads (sv g) sh))) \<and>
    (sv_status (sv g0) = RunnerConnected \<and> list_all (\<lambda>g. ready_for_model (dict_get all_runners g)) grp \<and>
       downloads_complete downloads (sv_assignments (sv g0)) \<longrightarrow> plan_of g0 = Inr (Some (task_of g0 LoadModel))) \<and>
    (sv_status (sv g0) = RunnerLoaded \<and>
       list_all (\<lambda>g. dict_get all_runners g = Some RunnerLoaded \<or> warming_or_ready (dict_get all_runners g)) grp \<longrightarrow>
      (\<exists>g \<in> set grp. plan_of g = Inr (Some (task_of g StartWarmup))))"
  unfolding Let_def
proof (intro conjI impI)
  let ?plan = "\<lambda>g. plan tid now (bound_node_id (sv_bound_instance (sv g))) [(g, sv g)] downloads instances all_runners tasks buf cache (ibo g) (dbo g)"
  let ?task = "\<lambda>g body. mk_task tid (instance_id (sv_instance (sv g))) body"
  note view = assms(1) and start = assms(2) and g0 = assms(3) and status = group_view_status [OF assms(1)]
  note first = startup_first_helpers [OF start]
  {
    assume idle: "sv_status (sv g0) = RunnerIdle \<and> list_all (\<lambda>g. connecting_or_idle (dict_get all_runners g)) grp"
    then have all: "\<forall>g \<in> set grp. connecting_or_idle (dict_get all_runners g)" by (simp add: list_all_iff)
    have nf: "\<forall>h \<in> set grp. \<not> is_failed_runner (dict_get all_runners h)"
      using all failed_not_starting by blast
    obtain g where g: "g \<in> set grp" "sv_status (sv g) = RunnerIdle" "plan_init_distributed_backend tid [(g, sv g)] all_runners =
        Inr (Some (?task g ConnectToGroup))"
      using connect_progress [OF view g0 _ all, of tid] idle by blast
    obtain sh where sh: "bound_shard (sv_bound_instance (sv g)) = Inr sh" using group_shard [OF view g(1)] by blast
    have "attempts (dbo g) (shard_model_id sh) < 1024" using assms(4) by blast
    from idle_download [OF sh this, of tid now g downloads]
    have "?plan g = Inr (Some (?task g ConnectToGroup)) \<or>
        ?plan g = Inr (Some (?task g (DownloadModel sh))) \<and> \<not> download_known downloads (sv g) sh"
      unfolding first [OF g(1) nf status [OF g(1)]] using g(3) by (auto simp: or_else_def)
    then show "\<exists>g \<in> set grp. ?plan g = Inr (Some (?task g ConnectToGroup)) \<or>
         (\<exists>sh. ?plan g = Inr (Some (?task g (DownloadModel sh))) \<and> bound_shard (sv_bound_instance (sv g)) = Inr sh \<and>
            \<not> download_known downloads (sv g) sh)" using g(1) sh by blast
  }
  {
    assume conn: "sv_status (sv g0) = RunnerConnected \<and> list_all (\<lambda>g. ready_for_model (dict_get all_runners g)) grp \<and>
      downloads_complete downloads (sv_assignments (sv g0))"
    then have all: "\<forall>g \<in> set grp. ready_for_model (dict_get all_runners g)" by (simp add: list_all_iff)
    have nf: "\<forall>h \<in> set grp. \<not> is_failed_runner (dict_get all_runners h)"
      using all failed_not_starting by blast
    show "?plan g0 = Inr (Some (?task g0 LoadModel))"
      unfolding first [OF g0 nf status [OF g0]]
      using conn load_progress [OF view g0 _ all] no_download [OF group_shard [OF view g0]] later_helpers(1) [of "sv g0"]
      by (simp add: or_else_def)
  }
  {
    assume loaded: "sv_status (sv g0) = RunnerLoaded \<and>
      list_all (\<lambda>g. dict_get all_runners g = Some RunnerLoaded \<or> warming_or_ready (dict_get all_runners g)) grp"
    then have all: "\<forall>g \<in> set grp. dict_get all_runners g = Some RunnerLoaded \<or> warming_or_ready (dict_get all_runners g)"
      by (simp add: list_all_iff)
    have nf: "\<forall>h \<in> set grp. \<not> is_failed_runner (dict_get all_runners h)"
      using all failed_not_starting by blast
    obtain g where g: "g \<in> set grp" "sv_status (sv g) = RunnerLoaded" "plan_ready_to_warmup tid [(g, sv g)] all_runners = Inr (Some (?task g StartWarmup))"
      using warmup_progress [OF view g0 _ all, of tid] loaded by blast
    have "?plan g = Inr (Some (?task g StartWarmup))"
      unfolding first [OF g(1) nf status [OF g(1)]]
      using g no_download [OF group_shard [OF view g(1)]] later_helpers [of "sv g"] by (simp add: or_else_def)
    then show "\<exists>g \<in> set grp. ?plan g = Inr (Some (?task g StartWarmup))" using g(1) by blast
  }
qed

definition duo_bound :: "runner_id \<Rightarrow> bound_instance" where
  "duo_bound r =
     \<lparr>bi_instance = MlxRingInstance ''i''
        \<lparr>sa_model_id = ''m'', runner_to_shard =
           [(''r'', PipelineShardMetadata (mk_base_shard demo_card 0 2 0 5)), (''s'', PipelineShardMetadata (mk_base_shard demo_card 1 2 5 10))],
         node_to_runner = [(''a'', ''r''), (''b'', ''s'')]\<rparr> [] 50000,
      bound_runner_id = r, bound_node_id = (if r = ''r'' then ''a'' else ''b'')\<rparr>"

definition duo_sup :: "runner_id \<Rightarrow> supervisor" where
  "duo_sup r = (du_supervisor demo_duo0)\<lparr>sv_bound_instance := duo_bound r,
     sv_status := (if r = ''r'' then RunnerConnecting else RunnerIdle)\<rparr>"

theorem group_startup_progress_witness:
  "plan ''t'' 100 ''b'' [(''s'', duo_sup ''s'')] [] [(''i'', bi_instance (duo_bound ''r''))] [(''r'', RunnerConnecting), (''s'', RunnerIdle)] [] [] []
     (new_backoff (1 / 2) 10) (new_backoff (1 / 2) 10) \<in>
   {Inr (Some (mk_task ''t'' ''i'' ConnectToGroup)), Inr (Some (mk_task ''t'' ''i'' (DownloadModel (PipelineShardMetadata (mk_base_shard demo_card 1 2 5 10)))))}"
proof -
  let ?all = "[(''r'', RunnerConnecting), (''s'', RunnerIdle)]" let ?is = "[(''i'', bi_instance (duo_bound ''r''))]"
  have view: "group_view [''r'', ''s''] duo_sup ?all (\<lambda>r. if r = ''r'' then 0 else 1) 2"
    by (auto simp: group_view_def duo_sup_def duo_bound_def sv_assignments_def sv_instance_def sv_runner_id_def
          bound_shard_def inst_shard_def mk_base_shard_def)
  have start: "startup_view [''r'', ''s''] duo_sup ?all ?is []"
    by (auto simp: startup_view_def duo_sup_def duo_bound_def sv_assignments_def sv_instance_def)
  have bo: "\<forall>g k. attempts ((\<lambda>_ :: runner_id. new_backoff (1 / 2) 10 :: model_id backoff) g) k < 1024"
    by (simp add: attempts_def new_backoff_def dict_get_default_def)
  have s: "bound_shard (sv_bound_instance (duo_sup ''s'')) = Inr (PipelineShardMetadata (mk_base_shard demo_card 1 2 5 10))"
    "instance_id (sv_instance (duo_sup ''s'')) = ''i''" "bound_node_id (sv_bound_instance (duo_sup ''s'')) = ''b''"
    "bound_node_id (sv_bound_instance (duo_sup ''r'')) = ''a''"
    by (simp_all add: duo_sup_def duo_bound_def sv_instance_def bound_shard_def inst_shard_def mk_base_shard_def)
  have st: "sv_status (duo_sup ''s'') = RunnerIdle" by (simp add: duo_sup_def)
  have r: "plan ''t'' 100 ''a'' [(''r'', duo_sup ''r'')] [] ?is ?all [] [] [] (new_backoff (1 / 2) 10) (new_backoff (1 / 2) 10) = Inr None"
    by code_simp
  from group_startup_progress [OF view start _ bo, of "''s''" "''t''" 100 "[]" "[]" "[]" "\<lambda>_. new_backoff (1 / 2) 10"]
  show ?thesis using s st r by (auto simp: Let_def)
qed

end
