(* ===== verification/Worker.thy ===== *)
theory Worker
  imports Plan
begin

text \<open>
  The worker of a node (\<^verbatim>\<open>src/exo/worker/main.py\<close>): it applies the ordered events to its copy of the
  state, collects the chunks of input images, runs the planner and carries out what it decides
  through the supervisors.

  One step is the handling of one event, one round of \<^verbatim>\<open>plan_step\<close> or one poll of the connections.
  The channels of the supervisors, the search for a model on disk (\<^verbatim>\<open>resolve_existing_model\<close>), the
  clock, fresh ids, the probes and SHA-256 (\<open>sha\<close>) are inputs. The custom-card reconciliation
  writes files only and is left out.
\<close>

record 'g worker =
  wk_node_id :: node_id
  wk_api_port :: int
  wk_state :: "'g state"
  wk_runners :: runners
  wk_input_chunk_buffer :: "(command_id, (int, input_image_chunk) dict) dict"
  wk_input_chunk_counts :: "(command_id, int) dict"
  wk_image_cache :: "(string, string) dict"
  wk_download_backoff :: "model_id backoff"
  wk_instance_backoff :: "string backoff"
  wk_events :: "event_body list"
  wk_commands :: "command_body list"
  wk_download_commands :: "download_command list"

definition mk_worker :: "'g env \<Rightarrow> node_id \<Rightarrow> int \<Rightarrow> 'g worker" where
  "mk_worker rx n port =
     \<lparr>wk_node_id = n, wk_api_port = port, wk_state = init_state rx, wk_runners = [], wk_input_chunk_buffer = [],
      wk_input_chunk_counts = [], wk_image_cache = [], wk_download_backoff = new_backoff (1 / 2) 10,
      wk_instance_backoff = new_backoff (1 / 2) 10, wk_events = [], wk_commands = [], wk_download_commands = []\<rparr>"

abbreviation EXO_MAX_INSTANCE_RETRIES :: int where
  "EXO_MAX_INSTANCE_RETRIES \<equiv> 5"

definition wk_send :: "event_body \<Rightarrow> ('g worker, unit) action" where
  "wk_send e = upd (\<lambda>w. w\<lparr>wk_events := wk_events w @ [e]\<rparr>)"

section \<open>Applying events\<close>

text \<open>\<^verbatim>\<open>per_image\<close>: the chunks of one command grouped by image, in order of arrival.\<close>

definition per_image :: "input_image_chunk list \<Rightarrow> (int, input_image_chunk list) dict" where
  "per_image cs = foldl (\<lambda>d c. dict_set d (ic_image_index c) (dict_get_default d (ic_image_index c) [] @ [c])) [] cs"

definition assemble_image :: "input_image_chunk list \<Rightarrow> string" where
  "assemble_image cs = concat (map ic_data (sort_key ic_chunk_index cs))"

definition encode_ascii :: "string \<Rightarrow> string result" where
  "encode_ascii s = (if list_all (\<lambda>c. (of_char c :: nat) < 128) s then Inr s else Inl (ValueError ''UnicodeEncodeError''))"

definition cache_images :: "(string \<Rightarrow> string) \<Rightarrow> input_image_chunk list \<Rightarrow> ('g worker, unit) action" where
  "cache_images sha cs =
     sforeach (\<lambda>(_, ks). let img = assemble_image ks in
       sbind (lift_result (encode_ascii img)) (\<lambda>bytes.
         upd (\<lambda>w. w\<lparr>wk_image_cache := dict_set (wk_image_cache w) (sha bytes) img\<rparr>))) (per_image cs)"

definition receive_chunk :: "(string \<Rightarrow> string) \<Rightarrow> command_id \<Rightarrow> input_image_chunk \<Rightarrow> ('g worker, unit) action" where
  "receive_chunk sha c k =
     sseq [with_state (\<lambda>w. swhen (\<not> dict_mem c (wk_input_chunk_buffer w))
             (upd (\<lambda>w. w\<lparr>wk_input_chunk_buffer := dict_set (wk_input_chunk_buffer w) c [],
                        wk_input_chunk_counts := dict_set (wk_input_chunk_counts w) c (ic_total_chunks k)\<rparr>))),
           upd (\<lambda>w. w\<lparr>wk_input_chunk_buffer := dict_set (wk_input_chunk_buffer w) c
             (dict_set (dict_get_default (wk_input_chunk_buffer w) c []) (ic_chunk_index k) k)\<rparr>),
           with_state (\<lambda>w. let got = dict_get_default (wk_input_chunk_buffer w) c [] in
             sbind (lift_result (of_option KeyError (dict_get (wk_input_chunk_counts w) c))) (\<lambda>n.
               swhen (int (length got) = n) (cache_images sha (dict_values got))))]"

definition wk_event :: "'g env \<Rightarrow> (string \<Rightarrow> string) \<Rightarrow> indexed_event \<Rightarrow> ('g worker, unit) action" where
  "wk_event rx sha e =
     sseq [with_state (\<lambda>w. sbind (lift_result (apply_event rx (wk_state w) e)) (\<lambda>s. upd (\<lambda>w. w\<lparr>wk_state := s\<rparr>))),
           (case event_body (ie_event e) of
              InstanceDeleted iid \<Rightarrow> upd (\<lambda>w. w\<lparr>wk_instance_backoff := reset iid (wk_instance_backoff w)\<rparr>)
            | InputChunkReceived c k \<Rightarrow> receive_chunk sha c k
            | _ \<Rightarrow> ret ())]"

section \<open>Carrying out a plan\<close>

text \<open>
  What the environment contributes to one round: the new task's id, the clock, where the model was
  found on disk and whether that directory is read-only, whether the runner's task channel is
  closed, what its cancel pipe does and whether a shutdown was acknowledged in time.
\<close>

record round_env =
  re_task_id :: task_id
  re_now :: pyfloat
  re_found :: "(string \<times> bool) option"
  re_closed :: bool
  re_pipe :: cancel_pipe
  re_strsignal :: "int \<Rightarrow> string option result"
  re_shutdown_timeout :: bool

definition create_supervisor :: "bound_instance \<Rightarrow> ('g worker, unit) action" where
  "create_supervisor b =
     sbind (lift_result (mk_supervisor b)) (\<lambda>s.
       upd (\<lambda>w. w\<lparr>wk_runners := dict_set (wk_runners w) (bound_runner_id b) s\<rparr>))"

definition start_runner_task :: "round_env \<Rightarrow> task \<Rightarrow> ('g worker, unit) action" where
  "start_runner_task env t =
     with_state (\<lambda>w. case dict_get (st_instances (wk_state w)) (task_instance_id t) of
       None \<Rightarrow> ret ()
     | Some i \<Rightarrow>
         sbind (lift_result (of_option KeyError (dict_get (node_to_runner (shard_assignments i)) (wk_node_id w)))) (\<lambda>rid.
         sbind (lift_result (of_option KeyError (dict_get (wk_runners w) rid))) (\<lambda>s.
           upd (\<lambda>w. w\<lparr>wk_runners := dict_set (wk_runners w) rid (start_task (re_closed env) t s)\<rparr>))))"

definition create_runner_step :: "round_env \<Rightarrow> task \<Rightarrow> bound_instance \<Rightarrow> ('g worker, unit) action" where
  "create_runner_step env t b =
     sseq [create_supervisor b,
           upd (\<lambda>w. w\<lparr>wk_instance_backoff := record_attempt (re_now env) (task_instance_id t) (wk_instance_backoff w)\<rparr>),
           wk_send (TaskStatusUpdated (task_id t) Complete)]"

definition download_step :: "round_env \<Rightarrow> task \<Rightarrow> shard_metadata \<Rightarrow> ('g worker, unit) action" where
  "download_step env t sh =
     with_state (\<lambda>w. sseq
       (upd (\<lambda>w. w\<lparr>wk_download_backoff := record_attempt (re_now env) (shard_model_id sh) (wk_download_backoff w)\<rparr>) #
        (case re_found env of
           Some (path, read_only) \<Rightarrow>
             [wk_send (NodeDownloadProgress \<lparr>dp_node_id = wk_node_id w, dp_shard_metadata = sh, dp_model_directory = path,
                dp_state = DownloadCompleted (mc_storage_size (shard_model_card (shard_base sh))) read_only\<rparr>),
              wk_send (TaskStatusUpdated (task_id t) Complete)]
         | None \<Rightarrow>
             [upd (\<lambda>w. w\<lparr>wk_download_commands := wk_download_commands w @ [StartDownload (wk_node_id w) sh]\<rparr>),
              wk_send (TaskStatusUpdated (task_id t) Running)])))"

text \<open>
  A shutdown takes the supervisor out of the worker first; \<^verbatim>\<open>start_task\<close> and \<^verbatim>\<open>shutdown\<close> then act on an
  object the worker no longer holds.
\<close>

definition shutdown_step :: "round_env \<Rightarrow> task \<Rightarrow> runner_id \<Rightarrow> ('g worker, unit) action" where
  "shutdown_step env t rid =
     with_state (\<lambda>w. sbind (lift_result (of_option KeyError (dict_get (wk_runners w) rid))) (\<lambda>_.
       sseq [upd (\<lambda>w. w\<lparr>wk_runners := dict_del (wk_runners w) rid\<rparr>),
             swhen (re_shutdown_timeout env) (wk_send (TaskStatusUpdated (task_id t) TimedOut))]))"

definition cancel_step :: "round_env \<Rightarrow> task \<Rightarrow> task_id \<Rightarrow> runner_id \<Rightarrow> ('g worker, unit) action" where
  "cancel_step env t cancelled rid =
     with_state (\<lambda>w. sbind (lift_result (of_option KeyError (dict_get (wk_runners w) rid))) (\<lambda>s.
       sseq [upd (\<lambda>w. w\<lparr>wk_runners := dict_set (wk_runners w) rid (cancel_task (re_strsignal env) (re_pipe env) cancelled s)\<rparr>),
             wk_send (TaskStatusUpdated (task_id t) Complete)]))"

definition forget_chunks :: "command_id \<Rightarrow> ('g worker, unit) action" where
  "forget_chunks c = upd (\<lambda>w. w\<lparr>wk_input_chunk_buffer := dict_del (wk_input_chunk_buffer w) c,
                               wk_input_chunk_counts := dict_del (wk_input_chunk_counts w) c\<rparr>)"

definition image_edits_step :: "round_env \<Rightarrow> task \<Rightarrow> command_id \<Rightarrow> image_edits_task_params \<Rightarrow> ('g worker, unit) action" where
  "image_edits_step env t c p =
     with_state (\<lambda>w. let chunks = dict_get_default (wk_input_chunk_buffer w) c [] in
       sbind (lift_result (rmap (\<lambda>k. of_option KeyError (dict_get chunks (int k))) [0..<length chunks])) (\<lambda>ks.
         sseq [forget_chunks c,
               start_runner_task env
                 \<lparr>task_id = task_id t, task_status = task_status t, task_instance_id = task_instance_id t,
                  task_body = ImageEdits c (p\<lparr>ie_image_data := concat (map ic_data ks)\<rparr>),
                  task_error_type = None, task_error_message = None\<rparr>]))"

definition text_images_step :: "round_env \<Rightarrow> task \<Rightarrow> command_id \<Rightarrow> text_generation_task_params \<Rightarrow> ('g worker, unit) action" where
  "text_images_step env t c p =
     with_state (\<lambda>w.
       sbind (lift_result (rmap (\<lambda>(_, h). of_option KeyError (dict_get (wk_image_cache w) h))
                (sort_key fst (tg_image_hashes p)))) (\<lambda>imgs.
         sseq [forget_chunks c,
               start_runner_task env (t\<lparr>task_body := TextGeneration c (p\<lparr>tg_images := imgs\<rparr>)\<rparr>)]))"

definition load_model_step :: "round_env \<Rightarrow> task \<Rightarrow> ('g worker, unit) action" where
  "load_model_step env t =
     sseq [with_state (\<lambda>w. case dict_get (st_instances (wk_state w)) (task_instance_id t) of
             None \<Rightarrow> ret ()
           | Some i \<Rightarrow> upd (\<lambda>w. w\<lparr>wk_download_backoff := reset (sa_model_id (shard_assignments i)) (wk_download_backoff w)\<rparr>)),
           start_runner_task env t]"

definition carry_out :: "round_env \<Rightarrow> task \<Rightarrow> ('g worker, unit) action" where
  "carry_out env t =
     (case task_body t of
        CreateRunner b \<Rightarrow> create_runner_step env t b
      | DownloadModel sh \<Rightarrow> download_step env t sh
      | Shutdown rid \<Rightarrow> shutdown_step env t rid
      | CancelTask cancelled rid \<Rightarrow> cancel_step env t cancelled rid
      | ImageEdits c p \<Rightarrow> if ie_total_input_chunks p > 0 then image_edits_step env t c p else start_runner_task env t
      | TextGeneration c p \<Rightarrow> if tg_image_hashes p \<noteq> [] then text_images_step env t c p else start_runner_task env t
      | LoadModel \<Rightarrow> load_model_step env t
      | _ \<Rightarrow> start_runner_task env t)"

fun is_create_runner :: "task_body \<Rightarrow> bool" where
  "is_create_runner (CreateRunner _) = True"
| "is_create_runner _ = False"

definition worker_plan :: "round_env \<Rightarrow> 'g worker \<Rightarrow> task option result" where
  "worker_plan env w =
     plan (re_task_id env) (re_now env) (wk_node_id w) (wk_runners w) (st_downloads (wk_state w)) (st_instances (wk_state w))
       (st_runners (wk_state w)) (st_tasks (wk_state w)) (wk_input_chunk_buffer w) (wk_image_cache w)
       (wk_instance_backoff w) (wk_download_backoff w)"

definition plan_step :: "round_env \<Rightarrow> ('g worker, unit) action" where
  "plan_step env =
     with_state (\<lambda>w. sbind (lift_result (worker_plan env w)) (\<lambda>r.
       case r of
         None \<Rightarrow> ret ()
       | Some t \<Rightarrow>
           if is_create_runner (task_body t) \<and>
              attempts (wk_instance_backoff w) (task_instance_id t) \<ge> EXO_MAX_INSTANCE_RETRIES
           then upd (\<lambda>w. w\<lparr>wk_commands := wk_commands w @ [DeleteInstance (task_instance_id t)]\<rparr>)
           else sseq [wk_send (TaskCreated (task_id t) t), carry_out env t]))"

section \<open>Polling the connections\<close>

text \<open>The reachable addresses the probes report, in the order they report them.\<close>

definition probe_edge :: "int \<Rightarrow> string \<Rightarrow> edge result" where
  "probe_edge port ip =
     rbind (mk_multiaddr ((if CHR ''.'' \<in> set ip then ''/ip4/'' else ''/ip6/'') @ ip @ ''/tcp/'' @ show_int port))
       (\<lambda>a. Inr (SocketConnection a))"

fun probe_loop :: "edge list \<Rightarrow> (node_id \<times> string) list \<Rightarrow> (string \<times> node_id) list \<Rightarrow> ('g worker, (node_id \<times> string) list) action" where
  "probe_loop edges conns [] = ret conns"
| "probe_loop edges conns ((ip, nid) # ps) =
     with_state (\<lambda>w.
       if (nid, ip) \<in> set conns then probe_loop edges conns ps
       else sbind (lift_result (probe_edge (wk_api_port w) ip)) (\<lambda>d.
            sbind (swhen (d \<notin> set edges)
                     (wk_send (TopologyEdgeCreated \<lparr>conn_source = wk_node_id w, conn_sink = nid, conn_edge = d\<rparr>))) (\<lambda>_.
              probe_loop edges (conns @ [(nid, ip)]) ps)))"

definition stale_edge :: "'g worker \<Rightarrow> (node_id \<times> string) list \<Rightarrow> connection \<Rightarrow> bool result" where
  "stale_edge w conns c =
     (case conn_edge c of
        SocketConnection a \<Rightarrow>
          rbind (addr_port a) (\<lambda>port.
            if port \<noteq> wk_api_port w then Inr False
            else if conn_sink c \<notin> fst ` set conns then Inr True
            else rbind (ip_address a) (\<lambda>ip. Inr ((conn_sink c, ip) \<notin> set conns)))
      | _ \<Rightarrow> Inr False)"

definition poll_connections :: "'g env \<Rightarrow> (string \<times> node_id) list \<Rightarrow> ('g worker, unit) action" where
  "poll_connections rx reachable =
     with_state (\<lambda>w. let outs = out_edges rx (st_topology (wk_state w)) (wk_node_id w) in
       sbind (probe_loop (map conn_edge outs) [] reachable) (\<lambda>conns.
         sforeach (\<lambda>c. sbind (lift_result (stale_edge w conns c)) (\<lambda>b. swhen b (wk_send (TopologyEdgeDeleted c)))) outs))"

section \<open>The worker as a state machine\<close>

text \<open>\<open>WSupervisor\<close> is whatever a supervisor of the worker does on its own (forwarding events, noticing a failure).\<close>

datatype wk_input =
    WEvent indexed_event
  | WPlan round_env
  | WPoll "(string \<times> node_id) list"
  | WSupervisor runner_id supervisor

fun wk_next :: "'g env \<Rightarrow> (string \<Rightarrow> string) \<Rightarrow> wk_input \<Rightarrow> ('g worker, unit) action" where
  "wk_next rx sha (WEvent e) = wk_event rx sha e"
| "wk_next rx sha (WPlan env) = plan_step env"
| "wk_next rx sha (WPoll reachable) = poll_connections rx reachable"
| "wk_next rx sha (WSupervisor rid s) =
     with_state (\<lambda>w. swhen (dict_mem rid (wk_runners w)) (upd (\<lambda>w. w\<lparr>wk_runners := dict_set (wk_runners w) rid s\<rparr>)))"

inductive wk_reach :: "'g env \<Rightarrow> (string \<Rightarrow> string) \<Rightarrow> 'g worker \<Rightarrow> 'g worker \<Rightarrow> bool" for rx sha w0 where
  wk_init: "wk_reach rx sha w0 w0"
| wk_step: "wk_reach rx sha w0 w \<Longrightarrow> wk_next rx sha i w = (w', Inr ()) \<Longrightarrow> wk_reach rx sha w0 w'"

section \<open>Retries of an instance\<close>

definition retries_ok :: "'g worker \<Rightarrow> bool" where
  "retries_ok w \<longleftrightarrow> (\<forall>k. 0 \<le> attempts (wk_instance_backoff w) k \<and> attempts (wk_instance_backoff w) k \<le> EXO_MAX_INSTANCE_RETRIES)"

lemma retries_frame [simp]:
  "retries_ok (w\<lparr>wk_state := a\<rparr>) = retries_ok w" "retries_ok (w\<lparr>wk_runners := b\<rparr>) = retries_ok w"
  "retries_ok (w\<lparr>wk_input_chunk_buffer := c\<rparr>) = retries_ok w" "retries_ok (w\<lparr>wk_input_chunk_counts := d\<rparr>) = retries_ok w"
  "retries_ok (w\<lparr>wk_image_cache := e\<rparr>) = retries_ok w" "retries_ok (w\<lparr>wk_download_backoff := f\<rparr>) = retries_ok w"
  "retries_ok (w\<lparr>wk_events := g\<rparr>) = retries_ok w" "retries_ok (w\<lparr>wk_commands := h\<rparr>) = retries_ok w"
  "retries_ok (w\<lparr>wk_download_commands := i\<rparr>) = retries_ok w"
  by (simp_all add: retries_ok_def)

lemma wk_send_keeps: "keeps retries_ok (wk_send e)"
  unfolding wk_send_def by (rule keeps_upd) simp

lemma start_runner_task_keeps: "keeps retries_ok (start_runner_task env t)"
  unfolding start_runner_task_def by (auto intro!: keeps_intros split: option.split)

lemma carry_out_keeps: "\<not> is_create_runner (task_body t) \<Longrightarrow> keeps retries_ok (carry_out env t)"
  unfolding carry_out_def download_step_def shutdown_step_def cancel_step_def image_edits_step_def
    text_images_step_def load_model_step_def forget_chunks_def
  by (cases "task_body t")
     (auto intro!: keeps_intros wk_send_keeps start_runner_task_keeps simp: Let_def split: option.splits)

lemma wk_event_keeps: "keeps retries_ok (wk_event rx sha e)"
  unfolding wk_event_def receive_chunk_def cache_images_def
  by (cases "event_body (ie_event e)") (auto intro!: keeps_intros simp: Let_def retries_ok_def)

lemma probe_loop_keeps: "keeps retries_ok (probe_loop edges conns ps)"
  by (induction edges conns ps rule: probe_loop.induct) (auto intro!: keeps_intros wk_send_keeps)

lemma poll_keeps: "keeps retries_ok (poll_connections rx reachable)"
  unfolding poll_connections_def by (auto intro!: keeps_intros probe_loop_keeps wk_send_keeps simp: Let_def)

lemma create_runner_retries:
  assumes "retries_ok w" "attempts (wk_instance_backoff w) (task_instance_id t) < EXO_MAX_INSTANCE_RETRIES"
  shows "retries_ok (fst (create_runner_step env t b w))"
  using assms
  by (auto simp: create_runner_step_def create_supervisor_def wk_send_def effect_defs retries_ok_def split: sum.splits prod.splits)

lemma plan_step_keeps: "keeps retries_ok (plan_step env)"
proof (rule keepsI)
  fix w :: "'g worker" assume w: "retries_ok w"
  show "retries_ok (fst (plan_step env w))"
  proof (cases "worker_plan env w")
    case (Inr r)
    show ?thesis
    proof (cases r)
      case (Some t)
      let ?w = "w\<lparr>wk_events := wk_events w @ [TaskCreated (task_id t) t]\<rparr>"
      have "retries_ok (fst (carry_out env t ?w))"
        if "\<not> (is_create_runner (task_body t) \<and> attempts (wk_instance_backoff w) (task_instance_id t) \<ge> EXO_MAX_INSTANCE_RETRIES)"
      proof (cases "is_create_runner (task_body t)")
        case True
        then obtain b where "task_body t = CreateRunner b" by (cases "task_body t") auto
        with that True w show ?thesis by (simp add: carry_out_def create_runner_retries)
      qed (use keepsD [OF carry_out_keeps, of t ?w env] w in simp)
      then show ?thesis using Inr Some w
        by (auto simp: plan_step_def wk_send_def with_state_def sbind_def lift_result_def upd_def)
    qed (use Inr w in \<open>simp add: plan_step_def effect_defs\<close>)
  qed (use w in \<open>simp add: plan_step_def effect_defs\<close>)
qed

lemma wk_next_keeps: "keeps retries_ok (wk_next rx sha i)"
  by (cases i) (auto intro!: keeps_intros wk_event_keeps plan_step_keeps poll_keeps)

lemma wk_reach_retries: "wk_reach rx sha w0 w \<Longrightarrow> retries_ok w0 \<Longrightarrow> retries_ok w"
proof (induction rule: wk_reach.induct)
  case (wk_step w i w')
  then show ?case using keepsD [OF wk_next_keeps, of w rx sha i] by simp
qed

section \<open>Properties\<close>

text \<open>
  In every reachable state of a worker no instance has more than five recorded attempts, so the
  instance backoff never raises; once an instance has used them up, a plan to create its runner
  starts no runner but requests the deletion of the instance.
\<close>

theorem instance_retries_bounded:
  assumes "wk_reach rx sha (mk_worker rx n port) w"
  shows "attempts (wk_instance_backoff w) iid \<le> EXO_MAX_INSTANCE_RETRIES \<and>
    (\<exists>ok. should_proceed now (wk_instance_backoff w) iid = Inr ok) \<and>
    (worker_plan env w = Inr (Some t) \<and> is_create_runner (task_body t) \<and>
       attempts (wk_instance_backoff w) (task_instance_id t) = EXO_MAX_INSTANCE_RETRIES \<longrightarrow>
     plan_step env w = (w\<lparr>wk_commands := wk_commands w @ [DeleteInstance (task_instance_id t)]\<rparr>, Inr ()))"
proof -
  have "retries_ok (mk_worker rx n port)"
    by (simp add: retries_ok_def mk_worker_def new_backoff_def attempts_def dict_get_default_def)
  then have w: "retries_ok w" using wk_reach_retries assms by blast
  then have "attempts (wk_instance_backoff w) iid < 1024" by (auto simp: retries_ok_def intro: order_le_less_trans)
  then show ?thesis using w should_proceed_total
    by (auto simp: retries_ok_def plan_step_def effect_defs)
qed

definition demo_round :: round_env where
  "demo_round = \<lparr>re_task_id = ''t'', re_now = 100, re_found = None, re_closed = False, re_pipe = PipeTakes,
     re_strsignal = (\<lambda>_. Inr None), re_shutdown_timeout = False\<rparr>"

definition demo_worker_inputs :: "wk_input list" where
  "demo_worker_inputs =
     [WEvent \<lparr>ie_idx = 0, ie_event = \<lparr>event_id = ''e'', event_body = InstanceCreated (bi_instance demo_bound)\<rparr>\<rparr>, WPlan demo_round]"

definition wk_exec :: "'g env \<Rightarrow> (string \<Rightarrow> string) \<Rightarrow> wk_input list \<Rightarrow> ('g worker, unit) action" where
  "wk_exec rx sha is = sforeach (wk_next rx sha) is"

lemma wk_exec_reach: "wk_exec rx sha is w = (w', Inr ()) \<Longrightarrow> wk_reach rx sha w0 w \<Longrightarrow> wk_reach rx sha w0 w'"
proof (induction "is" arbitrary: w)
  case (Cons i "is")
  then obtain w1 where "wk_next rx sha i w = (w1, Inr ())" "wk_exec rx sha is w1 = (w', Inr ())"
    by (auto simp: wk_exec_def sforeach_def sbind_def split: prod.splits sum.splits)
  with Cons wk_step show ?case by blast
qed (simp add: wk_exec_def sforeach_def ret_def)

theorem instance_retries_bounded_witness:
  "\<exists>w ok. wk_reach ref_env id (mk_worker ref_env ''a'' 52415) w \<and> attempts (wk_instance_backoff w) ''i'' = 1 \<and>
     should_proceed 100 (wk_instance_backoff w) ''i'' = Inr ok"
proof -
  let ?p = "wk_exec ref_env id demo_worker_inputs (mk_worker ref_env ''a'' 52415)"
  have r: "snd ?p = Inr ()" by code_simp
  have a: "attempts (wk_instance_backoff (fst ?p)) ''i'' = 1" by code_simp
  have "wk_reach ref_env id (mk_worker ref_env ''a'' 52415) (fst ?p)"
    by (rule wk_exec_reach [OF prod_eqI wk_init]) (use r in \<open>simp_all only: fst_conv snd_conv\<close>)
  moreover from instance_retries_bounded [OF this, of "''i''" 100] obtain ok where
    "should_proceed 100 (wk_instance_backoff (fst ?p)) ''i'' = Inr ok" by blast
  ultimately show ?thesis using a by blast
qed

end
