(* ===== verification/Event_Log.thy ===== *)
theory Event_Log
  imports Prelude "HOL-Library.Word"
begin

text \<open>
  The append-only event log on disk (\<^verbatim>\<open>src/exo/utils/disk_event_log.py\<close>): length-prefixed records in
  one file and a bounded cache from event index to byte offset, ordered by last use.

  The file is its list of bytes. msgpack and Pydantic are not modelled: \<open>ser\<close> and \<open>deser\<close> are
  arguments, and what the log relies on is \<open>codec\<close>: deserialising a serialised event of a class \<open>ok\<close> gives
  it back, where \<open>ok\<close> covers the events that are appended.
  Rotation and compression of old files only touch files the log never reads again, and are left out.
\<close>

type_synonym byte = "8 word"

definition to_bytes4 :: "nat \<Rightarrow> byte list result" where
  "to_bytes4 n =
     (if n < 256 ^ 4
      then Inr [word_of_nat (n div 256 ^ 3), word_of_nat (n div 256 ^ 2), word_of_nat (n div 256), word_of_nat n]
      else Inl OverflowError)"

definition unpack_header :: "byte list \<Rightarrow> nat" where
  "unpack_header bs = foldl (\<lambda>n b. n * 256 + unat b) 0 bs"

record elog =
  lg_file :: "byte list"
  lg_count :: int
  lg_cache :: "(int, nat) dict"

definition new_log :: elog where
  "new_log = \<lparr>lg_file = [], lg_count = 0, lg_cache = []\<rparr>"

section \<open>Records\<close>

text \<open>\<^verbatim>\<open>f.read(n)\<close> at a position; it returns fewer bytes at the end of the file.\<close>

definition file_read :: "byte list \<Rightarrow> nat \<Rightarrow> nat \<Rightarrow> byte list" where
  "file_read file pos n = take n (drop pos file)"

definition skip_record :: "byte list \<Rightarrow> nat \<Rightarrow> nat" where
  "skip_record file pos =
     (let header = file_read file pos 4
      in if length header < 4 then pos + length header else pos + 4 + unpack_header header)"

definition read_record :: "(byte list \<Rightarrow> 'e result) \<Rightarrow> byte list \<Rightarrow> nat \<Rightarrow> ('e option \<times> nat) result" where
  "read_record deser file pos =
     (let header = file_read file pos 4
      in if length header < 4 then Inr (None, pos + length header)
         else let n = unpack_header header; payload = file_read file (pos + 4) n
              in if length payload < n then Inr (None, pos + 4 + length payload)
                 else rbind (deser payload) (\<lambda>e. Inr (Some e, pos + 4 + n)))"

fun read_records :: "(byte list \<Rightarrow> 'e result) \<Rightarrow> byte list \<Rightarrow> nat \<Rightarrow> nat \<Rightarrow> ('e list \<times> nat) result" where
  "read_records deser file 0 pos = Inr ([], pos)"
| "read_records deser file (Suc k) pos =
     rbind (read_record deser file pos) (\<lambda>(e, pos').
       case e of None \<Rightarrow> Inr ([], pos')
       | Some x \<Rightarrow> rbind (read_records deser file k pos') (\<lambda>(xs, p). Inr (x # xs, p)))"

section \<open>The offset cache\<close>

definition move_to_end :: "int \<Rightarrow> (int, nat) dict \<Rightarrow> (int, nat) dict" where
  "move_to_end k d = filter (\<lambda>p. fst p \<noteq> k) d @ filter (\<lambda>p. fst p = k) d"

definition cache_offset :: "int \<Rightarrow> nat \<Rightarrow> elog \<Rightarrow> elog" where
  "cache_offset idx off l =
     (let d = move_to_end idx (dict_set (lg_cache l) idx off)
      in l\<lparr>lg_cache := (if 128 < length d then tl d else d)\<rparr>)"

text \<open>The scan over the cache keeps the last entry below the target in order of use.\<close>

definition scan_start :: "(int, nat) dict \<Rightarrow> int \<Rightarrow> int \<times> nat" where
  "scan_start d target = foldl (\<lambda>acc (k, off). if k < target then (k, off) else acc) (0, 0) d"

definition seek_to :: "int \<Rightarrow> elog \<Rightarrow> nat \<times> elog" where
  "seek_to target l =
     (case dict_get (lg_cache l) target of
        Some off \<Rightarrow> (off, l\<lparr>lg_cache := move_to_end target (lg_cache l)\<rparr>)
      | None \<Rightarrow>
          let (start, off) = scan_start (lg_cache l) target;
              pos = (skip_record (lg_file l) ^^ nat (target - start)) off
          in (pos, cache_offset target pos l))"

section \<open>Operations\<close>

definition log_append :: "('e \<Rightarrow> byte list) \<Rightarrow> 'e \<Rightarrow> elog \<Rightarrow> elog result" where
  "log_append ser e l =
     rbind (to_bytes4 (length (ser e))) (\<lambda>h.
       Inr (l\<lparr>lg_file := lg_file l @ h @ ser e, lg_count := lg_count l + 1\<rparr>))"

definition read_range :: "(byte list \<Rightarrow> 'e result) \<Rightarrow> int \<Rightarrow> int \<Rightarrow> elog \<Rightarrow> ('e list \<times> elog) result" where
  "read_range deser start end_idx l =
     (let stop = min end_idx (lg_count l)
      in if start < 0 \<or> stop < 0 \<or> start \<ge> stop then Inr ([], l)
         else let (pos, l1) = seek_to start l
              in rbind (read_records deser (lg_file l1) (nat (stop - start)) pos) (\<lambda>(es, p).
                   Inr (es, if stop < lg_count l1 then cache_offset stop p l1 else l1)))"

definition read_all :: "(byte list \<Rightarrow> 'e result) \<Rightarrow> elog \<Rightarrow> 'e list result" where
  "read_all deser l =
     (if lg_count l = 0 then Inr []
      else rbind (read_records deser (lg_file l) (nat (lg_count l)) 0) (\<lambda>(es, _). Inr es))"

section \<open>What the log holds\<close>

definition codec :: "('e \<Rightarrow> bool) \<Rightarrow> ('e \<Rightarrow> byte list) \<Rightarrow> (byte list \<Rightarrow> 'e result) \<Rightarrow> bool" where
  "codec ok ser deser \<longleftrightarrow> (\<forall>e. ok e \<longrightarrow> deser (ser e) = Inr e)"

definition header_of :: "nat \<Rightarrow> byte list" where
  "header_of n = [word_of_nat (n div 256 ^ 3), word_of_nat (n div 256 ^ 2), word_of_nat (n div 256), word_of_nat n]"

definition record_of :: "('e \<Rightarrow> byte list) \<Rightarrow> 'e \<Rightarrow> byte list" where
  "record_of ser e = header_of (length (ser e)) @ ser e"

definition file_of :: "('e \<Rightarrow> byte list) \<Rightarrow> 'e list \<Rightarrow> byte list" where
  "file_of ser es = concat (map (record_of ser) es)"

definition offset :: "('e \<Rightarrow> byte list) \<Rightarrow> 'e list \<Rightarrow> nat \<Rightarrow> nat" where
  "offset ser es i = length (file_of ser (take i es))"

definition holds :: "('e \<Rightarrow> byte list) \<Rightarrow> elog \<Rightarrow> 'e list \<Rightarrow> bool" where
  "holds ser l es \<longleftrightarrow>
     lg_file l = file_of ser es \<and> lg_count l = int (length es) \<and>
     (\<forall>e \<in> set es. length (ser e) < 256 ^ 4) \<and> length (lg_cache l) \<le> 128 \<and>
     (\<forall>(i, off) \<in> set (lg_cache l). 0 \<le> i \<and> i < int (length es) \<and> off = offset ser es (nat i))"

lemma unpack_header_of: "n < 256 ^ 4 \<Longrightarrow> unpack_header (header_of n) = n"
proof -
  assume n: "n < 256 ^ 4"
  have u: "unat (word_of_nat k :: byte) = k mod 256" for k by (simp add: unat_of_nat)
  have top: "n div 16777216 mod 256 = n div 16777216" using n by (simp add: less_mult_imp_div_less)
  have step: "m div 256 * 256 + m mod 256 = m" for m :: nat by simp
  have "n div 16777216 = n div 65536 div 256" "n div 65536 = n div 256 div 256" by (simp_all flip: div_mult2_eq)
  then have "n div 16777216 * 256 + n div 65536 mod 256 = n div 65536"
    "n div 65536 * 256 + n div 256 mod 256 = n div 256" using step by metis+
  then show ?thesis
    unfolding unpack_header_def header_of_def by (simp add: u top)
qed

lemma length_header_of [simp]: "length (header_of n) = 4"
  by (simp add: header_of_def)

lemma drop_file_of: "i < length es \<Longrightarrow> drop (offset ser es i) (file_of ser es) = record_of ser (es ! i) @ file_of ser (drop (Suc i) es)"
proof -
  assume i: "i < length es"
  have "file_of ser es = file_of ser (take i es) @ file_of ser (drop i es)"
    unfolding file_of_def by (metis append_take_drop_id concat_append map_append)
  moreover have "drop i es = es ! i # drop (Suc i) es" using i by (simp add: Cons_nth_drop_Suc)
  ultimately show ?thesis by (simp add: offset_def file_of_def)
qed

lemma offset_Suc: "i < length es \<Longrightarrow> offset ser es (Suc i) = offset ser es i + 4 + length (ser (es ! i))"
  by (simp add: offset_def file_of_def take_Suc_conv_app_nth record_of_def)

lemma header_at:
  assumes "holds ser l es" "i < length es"
  shows "file_read (lg_file l) (offset ser es i) 4 = header_of (length (ser (es ! i)))"
    and "file_read (lg_file l) (offset ser es i + 4) (length (ser (es ! i))) = ser (es ! i)"
proof -
  have d: "drop (offset ser es i) (lg_file l) = record_of ser (es ! i) @ file_of ser (drop (Suc i) es)"
    using assms by (simp add: holds_def drop_file_of)
  then show "file_read (lg_file l) (offset ser es i) 4 = header_of (length (ser (es ! i)))"
    by (simp add: file_read_def record_of_def)
  have "drop (offset ser es i + 4) (lg_file l) = drop 4 (drop (offset ser es i) (lg_file l))" by (simp add: add.commute)
  then show "file_read (lg_file l) (offset ser es i + 4) (length (ser (es ! i))) = ser (es ! i)"
    unfolding d by (simp add: file_read_def record_of_def)
qed

lemma skip_record_at:
  assumes "holds ser l es" "i < length es"
  shows "skip_record (lg_file l) (offset ser es i) = offset ser es (Suc i)"
proof -
  have "length (ser (es ! i)) < 256 ^ 4" using assms by (auto simp: holds_def)
  then show ?thesis using assms by (simp add: skip_record_def header_at unpack_header_of offset_Suc Let_def)
qed

lemma skip_records_at:
  assumes "holds ser l es"
  shows "i + k \<le> length es \<Longrightarrow> (skip_record (lg_file l) ^^ k) (offset ser es i) = offset ser es (i + k)"
proof (induction k)
  case (Suc k)
  then show ?case using skip_record_at [OF assms, of "i + k"] by simp
qed simp

lemma read_records_at:
  assumes "holds ser l es" "codec ok ser deser" "list_all ok es"
  shows "i + k \<le> length es \<Longrightarrow>
    read_records deser (lg_file l) k (offset ser es i) = Inr (take k (drop i es), offset ser es (i + k))"
proof (induction k arbitrary: i)
  case (Suc k)
  then have i: "i < length es" by simp
  then have small: "length (ser (es ! i)) < 256 ^ 4" using assms(1) by (auto simp: holds_def)
  have "read_record deser (lg_file l) (offset ser es i) = Inr (Some (es ! i), offset ser es (Suc i))"
    using assms(2,3) small i
    by (simp add: read_record_def header_at [OF assms(1) i] unpack_header_of codec_def list_all_length Let_def offset_Suc [OF i])
  moreover have "take (Suc k) (drop i es) = es ! i # take k (drop (Suc i) es)"
    using i by (metis Cons_nth_drop_Suc take_Suc_Cons)
  ultimately show ?case using Suc.IH [of "Suc i"] Suc.prems by simp
qed simp

text \<open>Every operation on the cache keeps what the log holds.\<close>

lemma holds_cache:
  assumes "holds ser l es" "length d \<le> 128"
    and "\<And>i off. (i, off) \<in> set d \<Longrightarrow> 0 \<le> i \<and> i < int (length es) \<and> off = offset ser es (nat i)"
  shows "holds ser (l\<lparr>lg_cache := d\<rparr>) es"
  using assms by (auto simp: holds_def)

lemma holds_entry:
  "holds ser l es \<Longrightarrow> (i, off) \<in> set (lg_cache l) \<Longrightarrow> 0 \<le> i \<and> i < int (length es) \<and> off = offset ser es (nat i)"
  by (auto simp: holds_def)

lemma set_dict_set: "set (dict_set d k v) \<subseteq> insert (k, v) (set d)"
  by (induction d) auto

lemma length_dict_set: "length (dict_set d k v) \<le> Suc (length d)"
  by (induction d) auto

lemma length_move_to_end [simp]: "length (move_to_end k d) = length d"
  using sum_length_filter_compl [of "\<lambda>p. fst p = k" d] by (simp add: move_to_end_def)

lemma set_move_to_end [simp]: "set (move_to_end k d) = set d"
  by (auto simp: move_to_end_def)

lemma cache_offset_holds:
  assumes "holds ser l es" "0 \<le> i" "i < int (length es)" "off = offset ser es (nat i)"
  shows "holds ser (cache_offset i off l) es"
proof -
  let ?d = "move_to_end i (dict_set (lg_cache l) i off)"
  have len: "length ?d \<le> Suc (length (lg_cache l))"
    by (simp add: length_dict_set)
  have "length (lg_cache l) \<le> 128" using assms(1) by (simp add: holds_def)
  moreover have "(k, o') \<in> set ?d \<Longrightarrow> 0 \<le> k \<and> k < int (length es) \<and> o' = offset ser es (nat k)" for k o'
    using set_dict_set [of i off "lg_cache l"] holds_entry [OF assms(1)] assms(2-4) by auto
  moreover have "set (tl ?d) \<subseteq> set ?d" by (cases ?d) auto
  ultimately show ?thesis using len unfolding cache_offset_def Let_def
    by (intro holds_cache [OF assms(1)]) (auto split: if_splits simp del: set_move_to_end)
qed

lemma scan_start_cases: "scan_start d t = (0, 0) \<or> scan_start d t \<in> set d \<and> fst (scan_start d t) < t"
proof -
  let ?f = "\<lambda>acc (k, off). if k < t then (k, off :: nat) else acc"
  have "foldl ?f acc d = acc \<or> foldl ?f acc d \<in> set d \<and> fst (foldl ?f acc d) < t" for acc
  proof (induction d arbitrary: acc)
    case (Cons p d)
    obtain k off where "p = (k, off)" by fastforce
    with Cons.IH [of "?f acc p"] show ?case by (cases "k < t") auto
  qed simp
  then show ?thesis unfolding scan_start_def .
qed

lemma seek_to_spec:
  assumes "holds ser l es" "0 \<le> t" "t < int (length es)"
  shows "fst (seek_to t l) = offset ser es (nat t)" "holds ser (snd (seek_to t l)) es"
    "lg_file (snd (seek_to t l)) = lg_file l" "lg_count (snd (seek_to t l)) = lg_count l"
proof -
  obtain start off where f: "scan_start (lg_cache l) t = (start, off)" by fastforce
  have fr: "0 \<le> start \<and> off = offset ser es (nat start) \<and> start \<le> t"
    using scan_start_cases [of "lg_cache l" t] f holds_entry [OF assms(1)] assms(2)
    by (auto simp: offset_def file_of_def)
  then have pos: "(skip_record (lg_file l) ^^ nat (t - start)) off = offset ser es (nat t)"
    using skip_records_at [OF assms(1), of "nat start" "nat (t - start)"] assms(3)
    by (simp add: nat_add_distrib [symmetric])
  have hit: "off' = offset ser es (nat t)" if "dict_get (lg_cache l) t = Some off'" for off'
    using map_of_SomeD [OF that] holds_entry [OF assms(1)] by blast
  have "holds ser (l\<lparr>lg_cache := move_to_end t (lg_cache l)\<rparr>) es"
    using assms(1) by (intro holds_cache) (auto simp: holds_def)
  then show "fst (seek_to t l) = offset ser es (nat t)" "holds ser (snd (seek_to t l)) es"
    "lg_file (snd (seek_to t l)) = lg_file l" "lg_count (snd (seek_to t l)) = lg_count l"
    using hit pos f cache_offset_holds [OF assms(1,2,3) refl]
    by (auto simp: seek_to_def cache_offset_def Let_def split: option.splits)
qed

text \<open>\<^verbatim>\<open>read_range\<close> on a log that holds \<open>es\<close>: a slice, as Python would cut it, empty for a negative start.\<close>

definition py_slice :: "int \<Rightarrow> int \<Rightarrow> 'e list \<Rightarrow> 'e list" where
  "py_slice a b es = (if a < 0 then [] else take (nat (b - a)) (drop (nat a) es))"

lemma read_range_spec:
  assumes "holds ser l es" "codec ok ser deser" "list_all ok es"
  shows "\<exists>l'. read_range deser a b l = Inr (py_slice a b es, l') \<and> holds ser l' es"
proof (cases "a < 0 \<or> min b (lg_count l) < 0 \<or> a \<ge> min b (lg_count l)")
  case True
  then have "py_slice a b es = []" using assms(1) by (auto simp: py_slice_def holds_def)
  with True assms(1) show ?thesis by (auto simp: read_range_def Let_def)
next
  case False
  let ?stop = "min b (lg_count l)" and ?l = "snd (seek_to a l)"
  have n: "lg_count l = int (length es)" using assms(1) by (simp add: holds_def)
  then have a: "0 \<le> a" "a < int (length es)" and s: "a < ?stop" "?stop \<le> int (length es)" using False by auto
  note seek = seek_to_spec [OF assms(1) a]
  have end_idx: "nat a + nat (?stop - a) = nat ?stop" using a s by (simp add: nat_add_distrib [symmetric])
  have "read_records deser (lg_file ?l) (nat (?stop - a)) (fst (seek_to a l)) =
      Inr (take (nat (?stop - a)) (drop (nat a) es), offset ser es (nat ?stop))"
    using read_records_at [OF seek(2) assms(2,3), of "nat a" "nat (?stop - a)"] s a unfolding seek(1) end_idx by simp
  moreover have "take (nat (?stop - a)) (drop (nat a) es) = py_slice a b es"
    using a s n by (cases "b \<le> lg_count l") (auto simp: py_slice_def min_def)
  moreover have "holds ser (cache_offset ?stop (offset ser es (nat ?stop)) ?l) es" if "?stop < lg_count l"
    using cache_offset_holds [OF seek(2), of ?stop] that a s n by simp
  moreover from calculation have "read_range deser a b l = Inr (py_slice a b es,
      if ?stop < lg_count l then cache_offset ?stop (offset ser es (nat ?stop)) ?l else ?l)"
    using False seek(4) by (simp only: read_range_def Let_def case_prod_beta if_False rbind.simps fst_conv snd_conv)
  ultimately show ?thesis using seek(2) by auto
qed

lemma log_append_spec:
  assumes "holds ser l es" "log_append ser e l = Inr l'"
  shows "holds ser l' (es @ [e])"
proof -
  have e: "length (ser e) < 256 ^ 4" "l' = l\<lparr>lg_file := lg_file l @ record_of ser e, lg_count := lg_count l + 1\<rparr>"
    using assms(2) by (auto simp: log_append_def to_bytes4_def record_of_def header_of_def split: if_splits)
  have "offset ser (es @ [e]) (nat i) = offset ser es (nat i)" if "i < int (length es)" for i
    using that by (simp add: offset_def)
  with assms(1) e show ?thesis by (fastforce simp: holds_def file_of_def)
qed

lemma holds_new: "holds ser new_log []"
  by (simp add: holds_def new_log_def file_of_def)

section \<open>Properties\<close>

datatype 'e log_op = Append 'e | ReadRange int int

fun log_run :: "('e \<Rightarrow> byte list) \<Rightarrow> (byte list \<Rightarrow> 'e result) \<Rightarrow> elog \<Rightarrow> 'e log_op list \<Rightarrow> elog result" where
  "log_run ser deser l [] = Inr l"
| "log_run ser deser l (Append e # ops) = rbind (log_append ser e l) (\<lambda>l'. log_run ser deser l' ops)"
| "log_run ser deser l (ReadRange a b # ops) = rbind (read_range deser a b l) (\<lambda>(_, l'). log_run ser deser l' ops)"

fun appended :: "'e log_op list \<Rightarrow> 'e list" where
  "appended [] = []"
| "appended (Append e # ops) = e # appended ops"
| "appended (ReadRange _ _ # ops) = appended ops"

lemma log_run_holds:
  assumes "codec ok ser deser"
  shows "holds ser l es \<Longrightarrow> list_all ok (es @ appended ops) \<Longrightarrow> log_run ser deser l ops = Inr l' \<Longrightarrow> holds ser l' (es @ appended ops)"
proof (induction ops arbitrary: l es rule: appended.induct)
  case (2 e ops)
  then obtain l1 where l1: "log_append ser e l = Inr l1" "log_run ser deser l1 ops = Inr l'" by auto
  from "2.IH" [OF log_append_spec [OF "2.prems"(1) l1(1)] _ l1(2)] "2.prems"(2) show ?case by simp
next
  case (3 a b ops)
  have "list_all ok es" using "3.prems"(2) by simp
  from read_range_spec [OF "3.prems"(1) assms this, of a b] 3 show ?case by fastforce
qed simp

lemma log_run_total:
  assumes "codec ok ser deser"
  shows "holds ser l es \<Longrightarrow> list_all ok (es @ appended ops) \<Longrightarrow> list_all (\<lambda>e. length (ser e) < 256 ^ 4) (appended ops) \<Longrightarrow> \<exists>l'. log_run ser deser l ops = Inr l'"
proof (induction ops arbitrary: l es rule: appended.induct)
  case (2 e ops)
  then obtain l1 where "log_append ser e l = Inr l1" by (auto simp: log_append_def to_bytes4_def)
  moreover from this have "holds ser l1 (es @ [e])" by (rule log_append_spec [OF "2.prems"(1)])
  from "2.IH" [OF this] "2.prems"(2,3) obtain l' where "log_run ser deser l1 ops = Inr l'" by auto
  ultimately show ?case by auto
next
  case (3 a b ops)
  have "list_all ok es" using "3.prems"(2) by simp
  from read_range_spec [OF "3.prems"(1) assms this, of a b] 3 show ?case by fastforce
qed simp

text \<open>
  C37: whatever was read before and whatever the bounded offset cache holds, reading a range of a log
  returns exactly the appended events with those indices, in order, cut at the end of the log.
\<close>

theorem event_log_read_range_exact:
  assumes "codec ok ser deser" "list_all ok (appended ops)" "log_run ser deser new_log ops = Inr l"
  shows "\<exists>l'. read_range deser a b l = Inr (py_slice a b (appended ops), l') \<and> length (lg_cache l') \<le> 128 \<and>
    read_all deser l = Inr (appended ops)"
proof -
  have h: "holds ser l (appended ops)" using log_run_holds [OF assms(1) holds_new _ assms(3)] assms(2) by simp
  have "read_records deser (lg_file l) (length (appended ops)) (offset ser (appended ops) 0) =
      Inr (take (length (appended ops)) (drop 0 (appended ops)), offset ser (appended ops) (0 + length (appended ops)))"
    by (rule read_records_at [OF h assms(1,2)]) simp
  then have "read_all deser l = Inr (appended ops)"
    using h by (auto simp: read_all_def holds_def offset_def file_of_def)
  then show ?thesis using read_range_spec [OF h assms(1,2), of a b] by (auto simp: holds_def)
qed

definition demo_ser :: "nat \<Rightarrow> byte list" where
  "demo_ser n = replicate n 1"

definition demo_deser :: "byte list \<Rightarrow> nat result" where
  "demo_deser bs = Inr (length bs)"

theorem event_log_read_range_exact_witness:
  "\<exists>l l'. log_run demo_ser demo_deser new_log [Append 3, Append 0, ReadRange 1 2, Append 5] = Inr l \<and>
     read_range demo_deser 1 7 l = Inr ([0, 5], l')"
proof -
  let ?r = "log_run demo_ser demo_deser new_log [Append 3, Append 0, ReadRange 1 2, Append 5]"
  have c: "codec (\<lambda>_. True) demo_ser demo_deser" by (simp add: codec_def demo_ser_def demo_deser_def)
  then obtain l where l: "?r = Inr l"
    using log_run_total [OF c holds_new, of "[Append 3, Append 0, ReadRange 1 2, Append 5]"] by (auto simp: demo_ser_def)
  from event_log_read_range_exact [OF c _ l, of 1 7] obtain l' where
    "read_range demo_deser 1 7 l = Inr (py_slice 1 7 [3, 0, 5], l')" by auto
  moreover have "py_slice 1 7 [3, 0, 5 :: nat] = [0, 5]" by (simp add: py_slice_def)
  ultimately show ?thesis using l by auto
qed

end
