(* ===== verification/Master.thy ===== *)
theory Master
  imports Effects Event_Log Event_Buffer Placement
begin

text \<open>
  The master (\<^verbatim>\<open>src/exo/master/main.py\<close>): it turns commands into events, puts the events all nodes
  report into one order, applies and logs them and broadcasts them with their index.

  Events the master creates itself go out through its event sender and come back as local events
  like everybody else's; \<open>ma_events\<close> lists them. The three tasks of \<^verbatim>\<open>run\<close> interleave at the points
  where they wait: handling one command, taking one local event and draining the buffer into
  \<open>ma_backlog\<close>, indexing one event of the backlog, and the two halves of a planning round are steps.
  Fresh ids, random numbers, the clock and the iteration order of sets are inputs.
\<close>

record 'g master =
  ma_node_id :: node_id
  ma_session_id :: session_id
  ma_state :: "'g state"
  ma_command_task_mapping :: "(command_id, task_id) dict"
  ma_multi_buffer :: "(system_id, event) multi_source_buffer"
  ma_backlog :: "event list"
  ma_event_log :: elog
  ma_pending_traces :: "(task_id, (int, trace_event_data list) dict) dict"
  ma_expected_ranks :: "(task_id, int list) dict"
  ma_events :: "event_body list"
  ma_global :: "global_forwarder_event list"
  ma_downloads :: "download_command list"

definition mk_master :: "'g env \<Rightarrow> node_id \<Rightarrow> session_id \<Rightarrow> 'g master" where
  "mk_master rx n sid =
     \<lparr>ma_node_id = n, ma_session_id = sid, ma_state = init_state rx, ma_command_task_mapping = [],
      ma_multi_buffer = msb_init, ma_backlog = [], ma_event_log = new_log, ma_pending_traces = [],
      ma_expected_ranks = [], ma_events = [], ma_global = [], ma_downloads = []\<rparr>"

record fresh =
  fr_task_id :: task_id
  fr_runner_ids :: "nat \<Rightarrow> runner_id"
  fr_instance_id :: string
  fr_random :: int

section \<open>Choosing an instance\<close>

definition in_flight :: "task \<Rightarrow> bool" where
  "in_flight t \<longleftrightarrow> task_status t = Pending \<or> task_status t = Running"

definition task_count :: "'g state \<Rightarrow> string \<Rightarrow> nat" where
  "task_count s iid = length (filter (\<lambda>t. task_instance_id t = iid \<and> in_flight t) (dict_values (st_tasks s)))"

definition prefill_only :: "'g state \<Rightarrow> string \<Rightarrow> bool" where
  "prefill_only s iid \<longleftrightarrow>
     list_ex (\<lambda>l. iid \<in> set (prefill_instances l)) (dict_values (instance_links s)) \<and>
     \<not> list_ex (\<lambda>l. iid \<in> set (decode_instances l)) (dict_values (instance_links s))"

definition instance_task_counts :: "'g state \<Rightarrow> model_id \<Rightarrow> (string \<Rightarrow> bool) \<Rightarrow> (string, nat) dict" where
  "instance_task_counts s m excluded =
     dict_of (map (\<lambda>i. (instance_id i, task_count s (instance_id i)))
       (filter (\<lambda>i. sa_model_id (shard_assignments i) = m \<and> \<not> excluded (instance_id i)) (dict_values (st_instances s))))"

definition select_instance :: "'g state \<Rightarrow> model_id \<Rightarrow> (string \<Rightarrow> bool) \<Rightarrow> string result" where
  "select_instance s m excluded =
     (let counts = instance_task_counts s m excluded
      in if counts = [] then Inl (ValueError ''No instance found for model'')
         else Inr (hd (sort_key (\<lambda>i. dict_get_default counts i 0) (dict_keys counts))))"

text \<open>The first address, in the order of the source instances' load, at which a prefill server of a linked instance listens.\<close>

fun first_endpoint ::
  "'g env \<Rightarrow> 'g state \<Rightarrow> node_id \<Rightarrow> (node_id \<times> runner_id) list \<Rightarrow> string option result" where
  "first_endpoint rx s dnode [] = Inr None"
| "first_endpoint rx s dnode ((n, r) # ps) =
     (case dict_get (prefill_server_ports s) r of
        None \<Rightarrow> first_endpoint rx s dnode ps
      | Some port \<Rightarrow>
          rbind (find_ip_prioritised rx dnode n (st_topology s) (node_network s) True) (\<lambda>ip.
            case ip of None \<Rightarrow> first_endpoint rx s dnode ps
            | Some a \<Rightarrow> Inr (Some (a @ '':'' @ show_int port))))"

definition prefill_sources :: "'g state \<Rightarrow> string \<Rightarrow> string list" where
  "prefill_sources s iid =
     filter (\<lambda>x. x \<noteq> iid) (concat (map prefill_instances
       (filter (\<lambda>l. iid \<in> set (decode_instances l)) (dict_values (instance_links s)))))"

definition prefill_endpoint_for :: "'g env \<Rightarrow> 'g state \<Rightarrow> string \<Rightarrow> string option result" where
  "prefill_endpoint_for rx s iid =
     (case dict_get (st_instances s) iid of
        None \<Rightarrow> Inr None
      | Some d \<Rightarrow>
          (case dict_keys (node_to_runner (shard_assignments d)) of
             [] \<Rightarrow> Inr None
           | dnode # _ \<Rightarrow>
               first_endpoint rx s dnode (concat (map (\<lambda>src.
                   case dict_get (st_instances s) src of
                     None \<Rightarrow> [] | Some i \<Rightarrow> node_to_runner (shard_assignments i))
                 (sort_key (task_count s) (set_order rx (prefill_sources s iid)))))))"

section \<open>Sending\<close>

definition ma_send_events :: "event_body list \<Rightarrow> ('g master, unit) action" where
  "ma_send_events es = upd (\<lambda>m. m\<lparr>ma_events := ma_events m @ es\<rparr>)"

definition ma_send_event :: "indexed_event \<Rightarrow> ('g master, unit) action" where
  "ma_send_event e = upd (\<lambda>m. m\<lparr>ma_global := ma_global m @
     [\<lparr>gf_origin_idx = ie_idx e, gf_origin = ma_node_id m, gf_session = ma_session_id m, gf_event = ie_event e\<rparr>]\<rparr>)"

section \<open>Commands\<close>

definition dedup :: "'a list \<Rightarrow> 'a list" where
  "dedup xs = foldl oset_add [] xs"

definition map_command :: "command_id \<Rightarrow> task_id \<Rightarrow> ('g master, unit) action" where
  "map_command c t = upd (\<lambda>m. m\<lparr>ma_command_task_mapping := dict_set (ma_command_task_mapping m) c t\<rparr>)"

text \<open>The three generation commands differ in the instances they exclude, in the task and in tracing.\<close>

definition create_task :: "fresh \<Rightarrow> command_id \<Rightarrow> string \<Rightarrow> task_body \<Rightarrow> event_body list" where
  "create_task fr c iid b = [TaskCreated (fr_task_id fr) (mk_task (fr_task_id fr) iid b)]"

definition expect_traces :: "bool \<Rightarrow> fresh \<Rightarrow> string \<Rightarrow> ('g master, unit) action" where
  "expect_traces tracing fr iid =
     with_state (\<lambda>m. case dict_get (st_instances (ma_state m)) iid of
       None \<Rightarrow> ret ()
     | Some i \<Rightarrow> swhen tracing (upd (\<lambda>m. m\<lparr>ma_expected_ranks := dict_set (ma_expected_ranks m) (fr_task_id fr)
          (dedup (map (\<lambda>sh. device_rank (shard_base sh)) (dict_values (runner_to_shard (shard_assignments i)))))\<rparr>)))"

definition text_generation_command ::
  "'g env \<Rightarrow> fresh \<Rightarrow> command_id \<Rightarrow> text_generation_task_params \<Rightarrow> ('g master, event_body list) action" where
  "text_generation_command rx fr c p =
     with_state (\<lambda>m. let s = ma_state m in
       sbind (lift_result (select_instance s (tg_model p) (prefill_only s))) (\<lambda>iid.
       sbind (lift_result (prefill_endpoint_for rx s iid)) (\<lambda>ep.
       sbind (map_command c (fr_task_id fr)) (\<lambda>_.
         ret (create_task fr c iid (TextGeneration c (p\<lparr>tg_prefill_endpoint := ep\<rparr>)))))))"

definition image_command ::
  "bool \<Rightarrow> fresh \<Rightarrow> command_id \<Rightarrow> model_id \<Rightarrow> task_body \<Rightarrow> ('g master, event_body list) action" where
  "image_command tracing fr c model b =
     with_state (\<lambda>m.
       sbind (lift_result (select_instance (ma_state m) model (\<lambda>_. False))) (\<lambda>iid.
       sbind (map_command c (fr_task_id fr)) (\<lambda>_.
       sbind (expect_traces tracing fr iid) (\<lambda>_. ret (create_task fr c iid b)))))"

definition transition_to :: "(string, inst) dict \<Rightarrow> ('g master, event_body list) action" where
  "transition_to placement =
     with_state (\<lambda>m. ret (get_transition_events (st_instances (ma_state m)) placement (st_tasks (ma_state m))))"

definition delete_instance_command :: "string \<Rightarrow> ('g master, event_body list) action" where
  "delete_instance_command iid =
     with_state (\<lambda>m.
       sbind (lift_result (delete_instance iid (st_instances (ma_state m)))) (\<lambda>placement.
       sbind (lift_result (cancel_unnecessary_downloads placement (st_downloads (ma_state m)))) (\<lambda>cmds.
       sbind (upd (\<lambda>m. m\<lparr>ma_downloads := ma_downloads m @ cmds\<rparr>)) (\<lambda>_. transition_to placement))))"

definition place_instance_cmd :: "'g env \<Rightarrow> fresh \<Rightarrow> place_instance_command \<Rightarrow> ('g master, event_body list) action" where
  "place_instance_cmd rx fr c =
     with_state (\<lambda>m. let s = ma_state m in
       sbind (lift_result (place_instance rx (fr_runner_ids fr) (fr_instance_id fr) (fr_random fr) c (st_topology s)
                (st_instances s) (node_memory s) (node_network s) (node_backends s) None (st_downloads s) (node_rdma_ctl s)))
         transition_to)"

text \<open>\<^verbatim>\<open>RequestEventLog\<close>: at most a thousand events, from the log, with their original indices.\<close>

definition resend :: "(byte list \<Rightarrow> event result) \<Rightarrow> int \<Rightarrow> ('g master, unit) action" where
  "resend deser since =
     with_state (\<lambda>m. let stop = min (since + 1000) (lg_count (ma_event_log m)) in
       sbind (lift_result (read_range deser since stop (ma_event_log m))) (\<lambda>(es, l).
         sseq (upd (\<lambda>m. m\<lparr>ma_event_log := l\<rparr>) #
           map (\<lambda>k. ma_send_event \<lparr>ie_idx = since + int k, ie_event = es ! k\<rparr>) [0..<length es])))"

definition command_events ::
  "'g env \<Rightarrow> (byte list \<Rightarrow> event result) \<Rightarrow> bool \<Rightarrow> fresh \<Rightarrow> command \<Rightarrow> ('g master, event_body list) action" where
  "command_events rx deser tracing fr cmd =
     (let c = cmd_command_id cmd in
      case cmd_body cmd of
        TestCommand \<Rightarrow> ret []
      | TextGenerationCommand p \<Rightarrow> text_generation_command rx fr c p
      | ImageGenerationCommand p \<Rightarrow> image_command tracing fr c (ig_model p) (ImageGeneration c p)
      | ImageEditsCommand p \<Rightarrow> image_command tracing fr c (ie_model p) (ImageEdits c p)
      | DeleteInstance iid \<Rightarrow> delete_instance_command iid
      | PlaceInstance p \<Rightarrow> place_instance_cmd rx fr p
      | CreateInstance i \<Rightarrow> with_state (\<lambda>m. transition_to (add_instance_to_placements i (st_instances (ma_state m))))
      | SendInputChunk k \<Rightarrow> ret [InputChunkReceived (ic_command_id k) k]
      | TaskCancelled cc \<Rightarrow>
          with_state (\<lambda>m. ret (case dict_get (ma_command_task_mapping m) cc of
              None \<Rightarrow> [] | Some t \<Rightarrow> [TaskStatusUpdated t Cancelled]))
      | TaskFinished cc \<Rightarrow>
          with_state (\<lambda>m. sbind (upd (\<lambda>m. m\<lparr>ma_command_task_mapping := dict_del (ma_command_task_mapping m) cc\<rparr>)) (\<lambda>_.
            ret (case dict_get (ma_command_task_mapping m) cc of None \<Rightarrow> [] | Some t \<Rightarrow> [TaskDeleted t])))
      | AddCustomModelCard k \<Rightarrow> ret [CustomModelCardAdded k]
      | DeleteCustomModelCard k \<Rightarrow> ret [CustomModelCardDeleted k]
      | SetInstanceLink l ps ds \<Rightarrow>
          ret [InstanceLinkCreated \<lparr>link_id = l, prefill_instances = dedup ps, decode_instances = dedup ds\<rparr>]
      | DeleteInstanceLink l \<Rightarrow> ret [InstanceLinkDeleted l]
      | RequestEventLog since \<Rightarrow> sbind (resend deser since) (\<lambda>_. ret []))"

text \<open>The loop catches \<^verbatim>\<open>ValueError\<close> and goes on; any other exception ends the master.\<close>

fun is_value_error :: "py_error \<Rightarrow> bool" where
  "is_value_error (ValueError _) = True"
| "is_value_error _ = False"

definition handle_command ::
  "'g env \<Rightarrow> (byte list \<Rightarrow> event result) \<Rightarrow> bool \<Rightarrow> fresh \<Rightarrow> command \<Rightarrow> ('g master, unit) action" where
  "handle_command rx deser tracing fr cmd m =
     (case sbind (command_events rx deser tracing fr cmd) ma_send_events m of
        (m', Inl e) \<Rightarrow> (m', if is_value_error e then Inr () else Inl e)
      | (m', Inr u) \<Rightarrow> (m', Inr u))"

section \<open>Planning rounds\<close>

definition plan_broken_instances :: "'g env \<Rightarrow> ('g master, unit) action" where
  "plan_broken_instances rx =
     with_state (\<lambda>m. let s = ma_state m; connected = list_nodes rx (st_topology s) in
       ma_send_events (map (\<lambda>(iid, i). InstanceDeleted iid)
         (filter (\<lambda>(iid, i). \<not> list_all (\<lambda>n. n \<in> set connected) (dict_keys (node_to_runner (shard_assignments i))))
           (st_instances s))))"

definition plan_timeouts :: "time \<Rightarrow> time \<Rightarrow> ('g master, unit) action" where
  "plan_timeouts timeout now =
     with_state (\<lambda>m. ma_send_events (map (\<lambda>(n, t). NodeTimedOut n)
       (filter (\<lambda>(n, t). now - t > timeout) (st_last_seen (ma_state m)))))"

section \<open>Events\<close>

definition merge_and_save_traces :: "task_id \<Rightarrow> ('g master, unit) action" where
  "merge_and_save_traces t =
     with_state (\<lambda>m.
       sbind (lift_result (of_option KeyError (dict_get (ma_pending_traces m) t))) (\<lambda>d.
         sseq [ma_send_events [TracesMerged t (concat (dict_values d))],
               upd (\<lambda>m. m\<lparr>ma_pending_traces := dict_del (ma_pending_traces m) t,
                          ma_expected_ranks := dict_del (ma_expected_ranks m) t\<rparr>)]))"

definition handle_traces_collected :: "task_id \<Rightarrow> int \<Rightarrow> trace_event_data list \<Rightarrow> ('g master, unit) action" where
  "handle_traces_collected t rank traces =
     sseq [upd (\<lambda>m. m\<lparr>ma_pending_traces := dict_set (ma_pending_traces m) t
             (dict_set (dict_get_default (ma_pending_traces m) t []) rank traces)\<rparr>),
           with_state (\<lambda>m. case dict_get (ma_expected_ranks m) t of
              None \<Rightarrow> ret ()
            | Some ranks \<Rightarrow> swhen (set ranks \<subseteq> set (dict_keys (dict_get_default (ma_pending_traces m) t [])))
                (merge_and_save_traces t))]"

definition stamp :: "time \<Rightarrow> event \<Rightarrow> event" where
  "stamp now e =
     (case event_body e of NodeGatheredInfo n t i \<Rightarrow> e\<lparr>event_body := NodeGatheredInfo n now i\<rparr> | _ \<Rightarrow> e)"

definition index_event :: "'g env \<Rightarrow> (event \<Rightarrow> byte list) \<Rightarrow> time \<Rightarrow> event \<Rightarrow> ('g master, unit) action" where
  "index_event rx ser now e =
     with_state (\<lambda>m. let e' = stamp now e; indexed = \<lparr>ie_idx = lg_count (ma_event_log m), ie_event = e'\<rparr> in
       sbind (lift_result (apply_event rx (ma_state m) indexed)) (\<lambda>s.
       sseq [upd (\<lambda>m. m\<lparr>ma_state := s\<rparr>),
             sbind (lift_result (log_append ser e' (ma_event_log m))) (\<lambda>l. upd (\<lambda>m. m\<lparr>ma_event_log := l\<rparr>)),
             ma_send_event indexed]))"

definition process_event :: "'g env \<Rightarrow> (event \<Rightarrow> byte list) \<Rightarrow> time \<Rightarrow> event \<Rightarrow> ('g master, unit) action" where
  "process_event rx ser now e =
     (case event_body e of
        TracesCollected t rank traces \<Rightarrow> handle_traces_collected t rank traces
      | _ \<Rightarrow> index_event rx ser now e)"

definition receive_local :: "local_forwarder_event \<Rightarrow> ('g master, unit) action" where
  "receive_local le =
     with_state (\<lambda>m.
       if lf_session le \<noteq> ma_session_id m then ret ()
       else sbind (lift_result (msb_ingest (lf_origin_idx le) (lf_event le) (lf_origin le) (ma_multi_buffer m))) (\<lambda>b.
              upd (\<lambda>m. let (es, b') = msb_drain b in m\<lparr>ma_multi_buffer := b', ma_backlog := ma_backlog m @ es\<rparr>)))"

section \<open>The master as a state machine\<close>

datatype ma_input =
    MCommand bool fresh command
  | MLocal local_forwarder_event
  | MProcess time
  | MPlanInstances
  | MPlanTimeouts time time

fun ma_next ::
  "'g env \<Rightarrow> (event \<Rightarrow> byte list) \<Rightarrow> (byte list \<Rightarrow> event result) \<Rightarrow> ma_input \<Rightarrow> ('g master, unit) action" where
  "ma_next rx ser deser (MCommand tracing fr c) = handle_command rx deser tracing fr c"
| "ma_next rx ser deser (MLocal le) = with_state (\<lambda>m. if ma_backlog m = [] then receive_local le else ret ())"
| "ma_next rx ser deser (MProcess now) =
     with_state (\<lambda>m. case ma_backlog m of
        [] \<Rightarrow> ret ()
      | e # es \<Rightarrow> sseq [upd (\<lambda>m. m\<lparr>ma_backlog := es\<rparr>), process_event rx ser now e])"
| "ma_next rx ser deser MPlanInstances = plan_broken_instances rx"
| "ma_next rx ser deser (MPlanTimeouts timeout now) = plan_timeouts timeout now"

text \<open>\<open>ok\<close> is the class of events that survive serialisation; the events the master indexes are in it.\<close>

fun ma_input_ok :: "(event \<Rightarrow> bool) \<Rightarrow> ma_input \<Rightarrow> 'g master \<Rightarrow> bool" where
  "ma_input_ok ok (MProcess now) m = list_all (\<lambda>e. ok (stamp now e)) (take 1 (ma_backlog m))"
| "ma_input_ok ok _ m = True"

inductive ma_reach ::
  "(event \<Rightarrow> bool) \<Rightarrow> 'g env \<Rightarrow> (event \<Rightarrow> byte list) \<Rightarrow> (byte list \<Rightarrow> event result) \<Rightarrow> 'g master \<Rightarrow> 'g master \<Rightarrow> bool" for ok rx ser deser m0 where
  ma_init: "ma_reach ok rx ser deser m0 m0"
| ma_step: "ma_reach ok rx ser deser m0 m \<Longrightarrow> ma_input_ok ok i m \<Longrightarrow> ma_next rx ser deser i m = (m', Inr ()) \<Longrightarrow> ma_reach ok rx ser deser m0 m'"

section \<open>Invariant\<close>

definition index_events :: "event list \<Rightarrow> indexed_event list" where
  "index_events es = map (\<lambda>k. \<lparr>ie_idx = int k, ie_event = es ! k\<rparr>) [0..<length es]"

definition broadcast :: "node_id \<Rightarrow> session_id \<Rightarrow> event list \<Rightarrow> nat \<Rightarrow> global_forwarder_event" where
  "broadcast n sid es k = \<lparr>gf_origin_idx = int k, gf_origin = n, gf_session = sid, gf_event = es ! k\<rparr>"

fun is_traces :: "event_body \<Rightarrow> bool" where
  "is_traces (TracesCollected _ _ _) = True"
| "is_traces _ = False"

text \<open>
  The log holds \<open>es\<close>, none of them a trace report, the state is what replaying \<open>es\<close> gives, and the broadcast messages are the
  entries of \<open>es\<close> with their indices, every entry at least once.
\<close>

definition ma_inv ::
  "(event \<Rightarrow> bool) \<Rightarrow> 'g env \<Rightarrow> (event \<Rightarrow> byte list) \<Rightarrow> node_id \<Rightarrow> session_id \<Rightarrow> event list \<Rightarrow> 'g master \<Rightarrow> bool" where
  "ma_inv ok rx ser n sid es m \<longleftrightarrow>
     ma_node_id m = n \<and> ma_session_id m = sid \<and> holds ser (ma_event_log m) es \<and> list_all ok es \<and> list_all (\<lambda>e. \<not> is_traces (event_body e)) es \<and>
     rfold (apply_event rx) (init_state rx) (index_events es) = Inr (ma_state m) \<and>
     set (ma_global m) = broadcast n sid es ` {..<length es}"

lemma index_events_snoc: "index_events (es @ [e]) = index_events es @ [\<lparr>ie_idx = int (length es), ie_event = e\<rparr>]"
  by (simp add: index_events_def nth_append)

lemma broadcast_snoc: "k < length es \<Longrightarrow> broadcast n sid (es @ [e]) k = broadcast n sid es k"
  by (simp add: broadcast_def nth_append)

lemma ma_inv_init: "ma_inv ok rx ser n sid [] (mk_master rx n sid)"
  by (simp add: ma_inv_def mk_master_def holds_new index_events_def)

lemma ma_inv_frame [simp]:
  "ma_inv ok rx ser n sid es (m\<lparr>ma_command_task_mapping := a\<rparr>) = ma_inv ok rx ser n sid es m"
  "ma_inv ok rx ser n sid es (m\<lparr>ma_multi_buffer := b, ma_backlog := c\<rparr>) = ma_inv ok rx ser n sid es m"
  "ma_inv ok rx ser n sid es (m\<lparr>ma_multi_buffer := b\<rparr>) = ma_inv ok rx ser n sid es m"
  "ma_inv ok rx ser n sid es (m\<lparr>ma_backlog := c\<rparr>) = ma_inv ok rx ser n sid es m"
  "ma_inv ok rx ser n sid es (m\<lparr>ma_pending_traces := d\<rparr>) = ma_inv ok rx ser n sid es m"
  "ma_inv ok rx ser n sid es (m\<lparr>ma_expected_ranks := f\<rparr>) = ma_inv ok rx ser n sid es m"
  "ma_inv ok rx ser n sid es (m\<lparr>ma_pending_traces := d, ma_expected_ranks := f\<rparr>) = ma_inv ok rx ser n sid es m"
  "ma_inv ok rx ser n sid es (m\<lparr>ma_events := g\<rparr>) = ma_inv ok rx ser n sid es m"
  "ma_inv ok rx ser n sid es (m\<lparr>ma_downloads := h\<rparr>) = ma_inv ok rx ser n sid es m"
  by (simp_all add: ma_inv_def)

lemma sends_broadcast:
  assumes "ma_inv ok rx ser n sid es m" "\<forall>e \<in> set xs. \<exists>k < length es. e = \<lparr>ie_idx = int k, ie_event = es ! k\<rparr>"
  shows "ma_inv ok rx ser n sid es (fst (sseq (map ma_send_event xs) m))" "snd (sseq (map ma_send_event xs) m) = Inr ()"
proof -
  have "ma_inv ok rx ser n sid es (fst (sseq (map ma_send_event xs) m)) \<and> snd (sseq (map ma_send_event xs) m) = Inr ()"
    using assms
  proof (induction xs arbitrary: m)
    case (Cons e xs)
    then obtain k where k: "k < length es" "e = \<lparr>ie_idx = int k, ie_event = es ! k\<rparr>" by auto
    let ?m = "fst (ma_send_event e m)"
    have "ma_inv ok rx ser n sid es ?m"
      using Cons.prems(1) k by (auto simp: ma_inv_def ma_send_event_def upd_def broadcast_def)
    with Cons.IH [of ?m] Cons.prems(2) show ?case by (simp add: ma_send_event_def sbind_def upd_def)
  qed (simp add: ret_def)
  then show "ma_inv ok rx ser n sid es (fst (sseq (map ma_send_event xs) m))" "snd (sseq (map ma_send_event xs) m) = Inr ()"
    by auto
qed

lemma py_slice_nth: "k < length (py_slice a b es) \<Longrightarrow> 0 \<le> a \<and> nat a + k < length es \<and> py_slice a b es ! k = es ! (nat a + k)"
  by (auto simp: py_slice_def split: if_splits)

lemma resend_keeps:
  assumes "codec ok ser deser"
  shows "keeps (ma_inv ok rx ser n sid es) (resend deser since)"
proof (rule keepsI)
  fix m assume m: "ma_inv ok rx ser n sid es m"
  let ?stop = "min (since + 1000) (lg_count (ma_event_log m))"
  obtain l where l: "read_range deser since ?stop (ma_event_log m) = Inr (py_slice since ?stop es, l)" "holds ser l es"
    using read_range_spec [OF _ assms] m by (fastforce simp: ma_inv_def)
  let ?xs = "py_slice since ?stop es"
  have inv: "ma_inv ok rx ser n sid es (m\<lparr>ma_event_log := l\<rparr>)" using m l(2) by (simp add: ma_inv_def)
  have idx: "\<forall>e \<in> set (map (\<lambda>k. \<lparr>ie_idx = since + int k, ie_event = ?xs ! k\<rparr>) [0..<length ?xs]).
      \<exists>k < length es. e = \<lparr>ie_idx = int k, ie_event = es ! k\<rparr>"
  proof (clarsimp, goal_cases)
    case (1 k)
    then show ?case using py_slice_nth [of k since ?stop es] by (intro exI [of _ "nat since + k"]) auto
  qed
  have "fst (resend deser since m) =
      fst (sseq (map ma_send_event (map (\<lambda>k. \<lparr>ie_idx = since + int k, ie_event = ?xs ! k\<rparr>) [0..<length ?xs])) (m\<lparr>ma_event_log := l\<rparr>))"
    using l(1) by (simp add: resend_def with_state_def sbind_def lift_result_def Let_def upd_def comp_def)
  then show "ma_inv ok rx ser n sid es (fst (resend deser since m))" using sends_broadcast(1) [OF inv idx] by simp
qed

lemma send_events_keeps: "keeps (ma_inv ok rx ser n sid es) (ma_send_events xs)"
  unfolding ma_send_events_def by (rule keeps_upd) simp

lemma command_events_keeps:
  assumes "codec ok ser deser"
  shows "keeps (ma_inv ok rx ser n sid es) (command_events rx' deser tracing fr cmd)"
  unfolding command_events_def text_generation_command_def image_command_def map_command_def expect_traces_def
    delete_instance_command_def place_instance_cmd_def transition_to_def Let_def
  by (cases "cmd_body cmd")
     (auto intro!: keeps_intros resend_keeps [OF assms] split: option.split)

lemma handle_command_keeps:
  assumes "codec ok ser deser"
  shows "keeps (ma_inv ok rx ser n sid es) (handle_command rx deser tracing fr cmd)"
proof (rule keepsI)
  fix m assume "ma_inv ok rx ser n sid es m"
  then have "ma_inv ok rx ser n sid es (fst (sbind (command_events rx deser tracing fr cmd) ma_send_events m))"
    by (rule keepsD [OF keeps_sbind [OF command_events_keeps [OF assms] send_events_keeps]])
  then show "ma_inv ok rx ser n sid es (fst (handle_command rx deser tracing fr cmd m))"
    by (auto simp: handle_command_def split: prod.splits sum.splits)
qed

lemma traces_keeps: "keeps (ma_inv ok rx ser n sid es) (handle_traces_collected t rank traces)"
  unfolding handle_traces_collected_def merge_and_save_traces_def
  by (auto intro!: keeps_intros send_events_keeps split: option.split)

lemma index_event_inv:
  assumes "ma_inv ok rx ser n sid es m" "index_event rx ser now e m = (m', Inr ())" "ok (stamp now e)" "\<not> is_traces (event_body e)"
  shows "ma_inv ok rx ser n sid (es @ [stamp now e]) m'"
proof -
  let ?e = "\<lparr>ie_idx = lg_count (ma_event_log m), ie_event = stamp now e\<rparr>"
  have cnt: "lg_count (ma_event_log m) = int (length es)" using assms(1) by (simp add: ma_inv_def holds_def)
  obtain st l where st: "apply_event rx (ma_state m) ?e = Inr st"
    and l: "log_append ser (stamp now e) (ma_event_log m) = Inr l"
    and m': "m' = m\<lparr>ma_state := st, ma_event_log := l, ma_global := ma_global m @
       [\<lparr>gf_origin_idx = ie_idx ?e, gf_origin = ma_node_id m, gf_session = ma_session_id m, gf_event = ie_event ?e\<rparr>]\<rparr>"
    using assms(2)
    by (auto simp: index_event_def ma_send_event_def effect_defs Let_def split: sum.splits)
  have "rfold (apply_event rx) (init_state rx) (index_events (es @ [stamp now e])) = Inr st"
    using assms(1) st cnt by (auto simp: index_events_snoc rfold_append ma_inv_def)
  moreover have "broadcast n sid (es @ [stamp now e]) ` {..<length (es @ [stamp now e])} =
      insert (broadcast n sid (es @ [stamp now e]) (length es)) (broadcast n sid es ` {..<length es})"
    by (auto simp: lessThan_Suc broadcast_snoc image_iff)
  moreover have "broadcast n sid (es @ [stamp now e]) (length es) =
      \<lparr>gf_origin_idx = ie_idx ?e, gf_origin = n, gf_session = sid, gf_event = ie_event ?e\<rparr>"
    by (simp add: broadcast_def cnt)
  moreover have "holds ser l (es @ [stamp now e])"
    using log_append_spec [OF _ l] assms(1) by (simp add: ma_inv_def)
  moreover have "\<not> is_traces (event_body (stamp now e))" using assms(4) by (auto simp: stamp_def split: event_body.splits)
  ultimately show ?thesis using assms(1,3) m' by (simp add: ma_inv_def)
qed

lemma ma_next_inv:
  assumes "codec ok ser deser" "ma_inv ok rx ser n sid es m" "ma_next rx ser deser i m = (m', Inr ())"
    "ma_input_ok ok i m"
  shows "\<exists>es'. ma_inv ok rx ser n sid (es @ es') m'"
proof -
  have same: "\<exists>es'. ma_inv ok rx ser n sid (es @ es') m'" if "keeps (ma_inv ok rx ser n sid es) (ma_next rx ser deser i)"
    using keepsD [OF that assms(2)] assms(3) by (intro exI [of _ "[]"]) simp
  show ?thesis
  proof (cases i)
    case (MCommand tr fr c)
    then show ?thesis by (intro same) (simp add: handle_command_keeps [OF assms(1)])
  next
    case (MLocal le)
    then show ?thesis
      by (intro same) (auto simp: receive_local_def intro!: keeps_intros split: prod.split)
  next
    case (MProcess now)
    show ?thesis
    proof (cases "ma_backlog m")
      case Nil
      then show ?thesis using assms(2,3) MProcess by (intro exI [of _ "[]"]) (simp add: with_state_def ret_def)
    next
      case (Cons e rest)
      let ?m = "m\<lparr>ma_backlog := rest\<rparr>"
      have p: "process_event rx ser now e ?m = (m', Inr ())" and inv: "ma_inv ok rx ser n sid es ?m"
        using assms(2,3) MProcess Cons by (simp_all add: with_state_def)
      show ?thesis
      proof (cases "\<exists>t r ts. event_body e = TracesCollected t r ts")
        case True
        then obtain t r ts where "event_body e = TracesCollected t r ts" by blast
        with p have "handle_traces_collected t r ts ?m = (m', Inr ())" by (simp add: process_event_def)
        with keepsD [OF traces_keeps inv, of t r ts] show ?thesis by (intro exI [of _ "[]"]) simp
      next
        case False
        with p have "index_event rx ser now e ?m = (m', Inr ())"
          by (cases "event_body e") (auto simp: process_event_def)
        moreover have "\<not> is_traces (event_body e)" using False by (cases "event_body e") auto
        ultimately show ?thesis using index_event_inv [OF inv] assms(4) MProcess Cons by fastforce
      qed
    qed
  next
    case MPlanInstances
    then show ?thesis
      by (intro same) (auto simp: plan_broken_instances_def Let_def intro!: keeps_intros send_events_keeps)
  next
    case (MPlanTimeouts timeout now)
    then show ?thesis by (intro same) (auto simp: plan_timeouts_def intro!: keeps_intros send_events_keeps)
  qed
qed

lemma ma_reach_inv:
  assumes "codec ok ser deser"
  shows "ma_reach ok rx ser deser m0 m \<Longrightarrow> ma_inv ok rx ser n sid es0 m0 \<Longrightarrow> \<exists>es. ma_inv ok rx ser n sid (es0 @ es) m"
proof (induction rule: ma_reach.induct)
  case ma_init
  then show ?case by (intro exI [of _ "[]"]) simp
next
  case (ma_step m i m')
  then obtain es where "ma_inv ok rx ser n sid (es0 @ es) m" by blast
  from ma_next_inv [OF assms this ma_step.hyps(3,2)] show ?case by (metis append_assoc)
qed

section \<open>Choosing the least loaded instance\<close>

lemma hd_sort_key: "xs \<noteq> [] \<Longrightarrow> hd (sort_key f xs) \<in> set xs \<and> (\<forall>y \<in> set xs. f (hd (sort_key f xs)) \<le> f y)"
proof -
  assume "xs \<noteq> []"
  then have "sort_key f xs \<noteq> []" by (metis set_empty set_sort)
  then obtain z zs where z: "sort_key f xs = z # zs" by (cases "sort_key f xs") auto
  have "sorted (map f (z # zs))" "set (z # zs) = set xs" using z sorted_sort_key [of f xs] set_sort [of f xs] by simp_all
  then show ?thesis using z by auto
qed

lemma foldl_dict_set_get:
  "dict_get (foldl (\<lambda>d p. dict_set d (fst p) (snd p)) d ps) k = (case dict_get (rev ps) k of None \<Rightarrow> dict_get d k | Some v \<Rightarrow> Some v)"
  by (induction ps arbitrary: d) (auto simp: map_add_def split: option.splits)

lemma dict_of_get: "dict_get (dict_of ps) k = dict_get (rev ps) k"
  unfolding dict_of_def by (simp add: foldl_dict_set_get split: option.splits)

lemma counts_mem:
  "iid \<in> set (dict_keys (instance_task_counts s m excluded)) \<longleftrightarrow>
   (\<exists>i \<in> set (dict_values (st_instances s)). instance_id i = iid \<and> sa_model_id (shard_assignments i) = m \<and> \<not> excluded iid)"
proof -
  have key: "iid \<in> set (dict_keys d) \<longleftrightarrow> dict_mem iid d" for d :: "(string, nat) dict"
    by (simp add: map_of_eq_None_iff)
  show ?thesis unfolding key instance_task_counts_def dict_of_get by (auto simp: map_of_eq_None_iff image_iff)
qed

lemma counts_get:
  "iid \<in> set (dict_keys (instance_task_counts s m excluded)) \<Longrightarrow>
   dict_get_default (instance_task_counts s m excluded) iid 0 = task_count s iid"
proof -
  let ?c = "instance_task_counts s m excluded"
  assume "iid \<in> set (dict_keys ?c)"
  then obtain v where v: "dict_get ?c iid = Some v" by (cases "dict_get ?c iid") (auto simp: map_of_eq_None_iff)
  then have "(iid, v) \<in> set (rev (map (\<lambda>i. (instance_id i, task_count s (instance_id i)))
       (filter (\<lambda>i. sa_model_id (shard_assignments i) = m \<and> \<not> excluded (instance_id i)) (dict_values (st_instances s)))))"
    unfolding instance_task_counts_def dict_of_get by (rule map_of_SomeD)
  then show ?thesis using v by (auto simp: dict_get_default_def)
qed

lemma select_instance_spec:
  assumes "select_instance s m excluded = Inr iid"
  shows "\<exists>i \<in> set (dict_values (st_instances s)). instance_id i = iid \<and> sa_model_id (shard_assignments i) = m \<and> \<not> excluded iid"
    and "i' \<in> set (dict_values (st_instances s)) \<Longrightarrow> sa_model_id (shard_assignments i') = m \<Longrightarrow> \<not> excluded (instance_id i') \<Longrightarrow>
      task_count s iid \<le> task_count s (instance_id i')"
proof -
  let ?c = "instance_task_counts s m excluded"
  have c: "?c \<noteq> []" "iid = hd (sort_key (\<lambda>i. dict_get_default ?c i 0) (dict_keys ?c))"
    using assms by (auto simp: select_instance_def Let_def split: if_splits)
  then have h: "iid \<in> set (dict_keys ?c)" "\<forall>y \<in> set (dict_keys ?c). dict_get_default ?c iid 0 \<le> dict_get_default ?c y 0"
    using hd_sort_key [of "dict_keys ?c" "\<lambda>i. dict_get_default ?c i 0"] by auto
  from h(1) show "\<exists>i \<in> set (dict_values (st_instances s)). instance_id i = iid \<and> sa_model_id (shard_assignments i) = m \<and> \<not> excluded iid"
    unfolding counts_mem .
  show "task_count s iid \<le> task_count s (instance_id i')"
    if "i' \<in> set (dict_values (st_instances s))" "sa_model_id (shard_assignments i') = m" "\<not> excluded (instance_id i')"
  proof -
    have "instance_id i' \<in> set (dict_keys ?c)" unfolding counts_mem using that by blast
    with h counts_get [of iid s m excluded] counts_get [of "instance_id i'" s m excluded] show ?thesis by auto
  qed
qed

section \<open>Properties\<close>

text \<open>
  C2: whatever commands and local events arrive and in whatever order the master's tasks run, there is
  one sequence of events such that the log on disk holds it, the master's state is its replay from
  the initial state, and the messages broadcast so far are its entries with their positions as
  indices, every entry at least once; the sequence of a later state extends it.
\<close>

theorem master_broadcasts_its_log:
  assumes "codec ok ser deser" "ma_reach ok rx ser deser (mk_master rx n sid) m" "ma_reach ok rx ser deser m m'"
  shows "\<exists>es es'. holds ser (ma_event_log m) es \<and> holds ser (ma_event_log m') (es @ es') \<and>
    rfold (apply_event rx) (init_state rx) (index_events es) = Inr (ma_state m) \<and>
    rfold (apply_event rx) (init_state rx) (index_events (es @ es')) = Inr (ma_state m') \<and>
    set (ma_global m) = broadcast n sid es ` {..<length es} \<and>
    set (ma_global m') = broadcast n sid (es @ es') ` {..<length (es @ es')}"
proof -
  obtain es where es: "ma_inv ok rx ser n sid ([] @ es) m"
    using ma_reach_inv [OF assms(1,2) ma_inv_init] by blast
  moreover obtain es' where "ma_inv ok rx ser n sid (([] @ es) @ es') m'"
    using ma_reach_inv [OF assms(1,3) es] by blast
  ultimately show ?thesis by (auto simp: ma_inv_def)
qed

definition demo_event :: event where
  "demo_event = \<lparr>event_id = ''e'', event_body = TestEvent\<rparr>"

definition demo_session :: session_id where
  "demo_session = \<lparr>master_node_id = ''a'', election_clock = 0\<rparr>"

definition demo_local :: local_forwarder_event where
  "demo_local = \<lparr>lf_origin_idx = 0, lf_origin = ''x'', lf_session = demo_session, lf_event = demo_event\<rparr>"

definition demo_codec_ok :: "event \<Rightarrow> bool" where
  "demo_codec_ok e \<longleftrightarrow> e = demo_event"

abbreviation demo_encode :: "event \<Rightarrow> byte list" where
  "demo_encode \<equiv> \<lambda>_. [1]"

abbreviation demo_decode :: "byte list \<Rightarrow> event result" where
  "demo_decode \<equiv> \<lambda>_. Inr demo_event"

lemma demo_drain:
  "msb_drain \<lparr>stores = [(''x'', \<lparr>store = [(0, demo_event)], next_idx_to_release = 0\<rparr>)]\<rparr> =
     ([demo_event], \<lparr>stores = [(''x'', \<lparr>store = [], next_idx_to_release = 1\<rparr>)]\<rparr>)"
  by (simp add: msb_drain_def ob_drain.simps ob_pop_next_def)

lemma demo_master_step:
  "\<exists>m1 m. ma_next ref_env demo_encode demo_decode (MLocal demo_local) (mk_master ref_env ''a'' demo_session) = (m1, Inr ()) \<and>
     ma_backlog m1 = [demo_event] \<and> ma_next ref_env demo_encode demo_decode (MProcess 0) m1 = (m, Inr ()) \<and>
     lg_count (ma_event_log m) = 1"
  by (simp add: mk_master_def receive_local_def demo_local_def msb_ingest_def msb_init_def ob_init_def ob_ingest_def
      dict_get_default_def demo_drain effect_defs)
     (simp add: process_event_def index_event_def demo_event_def stamp_def new_log_def apply_event_def init_state_def
      log_append_def to_bytes4_def ma_send_event_def effect_defs Let_def)

lemma demo_codec: "codec demo_codec_ok demo_encode demo_decode"
  by (simp add: codec_def demo_codec_ok_def)

lemma demo_master_reach:
  obtains m where "ma_reach demo_codec_ok ref_env demo_encode demo_decode (mk_master ref_env ''a'' demo_session) m"
    "lg_count (ma_event_log m) = 1"
proof -
  obtain m1 m where m1: "ma_next ref_env demo_encode demo_decode (MLocal demo_local) (mk_master ref_env ''a'' demo_session) = (m1, Inr ())"
    and b: "ma_backlog m1 = [demo_event]" and m: "ma_next ref_env demo_encode demo_decode (MProcess 0) m1 = (m, Inr ())"
    and n: "lg_count (ma_event_log m) = 1" using demo_master_step by blast
  have "ma_reach demo_codec_ok ref_env demo_encode demo_decode (mk_master ref_env ''a'' demo_session) m1"
    by (rule ma_step [OF ma_init _ m1]) simp
  moreover have "ma_input_ok demo_codec_ok (MProcess 0) m1" by (simp add: b demo_codec_ok_def demo_event_def stamp_def)
  ultimately have "ma_reach demo_codec_ok ref_env demo_encode demo_decode (mk_master ref_env ''a'' demo_session) m"
    by (rule ma_step [OF _ _ m])
  with n that show ?thesis by blast
qed

theorem master_broadcasts_its_log_witness:
  "\<exists>m es. ma_reach demo_codec_ok ref_env demo_encode demo_decode (mk_master ref_env ''a'' demo_session) m \<and>
     length es = 1 \<and> rfold (apply_event ref_env) (init_state ref_env) (index_events es) = Inr (ma_state m) \<and>
     set (ma_global m) = broadcast ''a'' demo_session es ` {..<1}"
proof -
  obtain m where r: "ma_reach demo_codec_ok ref_env demo_encode demo_decode (mk_master ref_env ''a'' demo_session) m"
    and n: "lg_count (ma_event_log m) = 1" by (rule demo_master_reach)
  obtain es where es: "holds demo_encode (ma_event_log m) es"
    "rfold (apply_event ref_env) (init_state ref_env) (index_events es) = Inr (ma_state m)"
    "set (ma_global m) = broadcast ''a'' demo_session es ` {..<length es}"
    using master_broadcasts_its_log [OF demo_codec r ma_init] by blast
  from es(1) n have "length es = 1" by (simp add: holds_def)
  with r es(2,3) show ?thesis by auto
qed

text \<open>
  A text generation command creates exactly one task, with the fresh id, on an instance that serves
  the model and is not reserved for prefill, and no other such instance has fewer tasks in flight;
  cancelling the command afterwards addresses that task.
\<close>

theorem text_generation_on_least_loaded:
  assumes "cmd_body cmd = TextGenerationCommand p"
    and "command_events rx deser tracing fr cmd m = (m', Inr evs)"
  shows "\<exists>iid ep. evs = [TaskCreated (fr_task_id fr) (mk_task (fr_task_id fr) iid
       (TextGeneration (cmd_command_id cmd) (p\<lparr>tg_prefill_endpoint := ep\<rparr>)))] \<and>
    (\<exists>i \<in> set (dict_values (st_instances (ma_state m))). instance_id i = iid \<and> sa_model_id (shard_assignments i) = tg_model p) \<and>
    \<not> prefill_only (ma_state m) iid \<and>
    (\<forall>i \<in> set (dict_values (st_instances (ma_state m))). sa_model_id (shard_assignments i) = tg_model p \<and>
       \<not> prefill_only (ma_state m) (instance_id i) \<longrightarrow> task_count (ma_state m) iid \<le> task_count (ma_state m) (instance_id i)) \<and>
    command_events rx deser tracing fr2 \<lparr>cmd_command_id = c2, cmd_body = TaskCancelled (cmd_command_id cmd)\<rparr> m' =
      (m', Inr [TaskStatusUpdated (fr_task_id fr) Cancelled])"
proof -
  obtain iid ep where sel: "select_instance (ma_state m) (tg_model p) (prefill_only (ma_state m)) = Inr iid"
    and evs: "evs = create_task fr (cmd_command_id cmd) iid (TextGeneration (cmd_command_id cmd) (p\<lparr>tg_prefill_endpoint := ep\<rparr>))"
    and m': "m' = m\<lparr>ma_command_task_mapping := dict_set (ma_command_task_mapping m) (cmd_command_id cmd) (fr_task_id fr)\<rparr>"
    using assms
    by (auto simp: command_events_def text_generation_command_def map_command_def effect_defs Let_def split: sum.splits)
  have "command_events rx deser tracing fr2 \<lparr>cmd_command_id = c2, cmd_body = TaskCancelled (cmd_command_id cmd)\<rparr> m' =
      (m', Inr [TaskStatusUpdated (fr_task_id fr) Cancelled])"
    by (simp add: m' command_events_def Let_def effect_defs)
  with select_instance_spec [OF sel] evs show ?thesis unfolding create_task_def by blast
qed

definition demo_fresh :: fresh where
  "demo_fresh = \<lparr>fr_task_id = ''t'', fr_runner_ids = demo_rids, fr_instance_id = ''j'', fr_random = 50000\<rparr>"

definition demo_text :: text_generation_task_params where
  "demo_text = \<lparr>tg_model = ''m'', tg_input = [], tg_instructions = None, tg_max_output_tokens = None, tg_temperature = None,
     tg_top_p = None, tg_stream = False, tg_tools = None, tg_bench = False, tg_use_prefix_cache = True, tg_top_k = None,
     tg_stop = None, tg_seed = None, tg_chat_template_messages = None, tg_reasoning_effort = None, tg_enable_thinking = None,
     tg_logprobs = False, tg_top_logprobs = None, tg_min_p = None, tg_repetition_penalty = None,
     tg_repetition_context_size = None, tg_presence_penalty = None, tg_frequency_penalty = None, tg_images = [],
     tg_image_hashes = [], tg_prefill_endpoint = None\<rparr>"

definition demo_ring :: "string \<Rightarrow> inst" where
  "demo_ring i = MlxRingInstance i \<lparr>sa_model_id = ''m'', runner_to_shard = [], node_to_runner = []\<rparr> [] 0"

definition demo_serving :: "ref_graph master" where
  "demo_serving = (mk_master ref_env ''a'' demo_session)\<lparr>ma_state := (init_state ref_env)
     \<lparr>st_instances := [(''i'', demo_ring ''i''), (''j'', demo_ring ''j'')], st_tasks := [(''u'', demo_task ''u'')]\<rparr>\<rparr>"

theorem text_generation_on_least_loaded_witness:
  "\<exists>m'. command_events ref_env demo_decode False demo_fresh \<lparr>cmd_command_id = ''c'', cmd_body = TextGenerationCommand demo_text\<rparr>
       demo_serving = (m', Inr [TaskCreated ''t'' (mk_task ''t'' ''j'' (TextGeneration ''c'' demo_text))]) \<and>
     command_events ref_env demo_decode False demo_fresh \<lparr>cmd_command_id = ''d'', cmd_body = TaskCancelled ''c''\<rparr> m' =
       (m', Inr [TaskStatusUpdated ''t'' Cancelled])"
proof -
  let ?cmd = "\<lparr>cmd_command_id = ''c'', cmd_body = TextGenerationCommand demo_text\<rparr>"
  have "snd (command_events ref_env demo_decode False demo_fresh ?cmd demo_serving) =
      Inr [TaskCreated ''t'' (mk_task ''t'' ''j'' (TextGeneration ''c'' demo_text))]" by code_simp
  then obtain m' where m': "command_events ref_env demo_decode False demo_fresh ?cmd demo_serving =
      (m', Inr [TaskCreated ''t'' (mk_task ''t'' ''j'' (TextGeneration ''c'' demo_text))])" by (metis prod.collapse)
  from text_generation_on_least_loaded [OF _ m', of demo_text demo_fresh "''d''"] m' show ?thesis
    by (intro exI [of _ m']) (auto simp: demo_fresh_def)
qed

end
