(* ===== verification/Event_Router.thy ===== *)
theory Event_Router
  imports Effects Event_Buffer Shared_Types Backoff
begin

text \<open>
  The event router of a node (\<^verbatim>\<open>src/exo/routing/event_router.py\<close>): it numbers and sends the node's own
  events to the master, keeps them until the master has broadcast them, puts the master's
  broadcast into order, asks for missing events and hands the ordered events to the node's
  receivers (worker, API).

  Every coroutine is cut at its waits. \<^verbatim>\<open>_nack_request\<close> is a task with the phases \<open>NackQueued\<close>
  (started, not yet run), \<open>NackSleeping\<close>, \<open>NackDone\<close>; \<open>er_nack_scope\<close> names the task whose cancel scope
  \<^verbatim>\<open>_nack_cancel_scope\<close> holds. A receiver records what it was sent; a closed one is dropped.
\<close>

datatype nack_phase = NackQueued | NackSleeping pyfloat | NackDone

fun is_sleeping :: "nack_phase \<Rightarrow> bool" where
  "is_sleeping (NackSleeping _) = True"
| "is_sleeping _ = False"

record nack =
  nk_since :: int
  nk_phase :: nack_phase
  nk_cancelled :: bool

record receiver =
  rc_open :: bool
  rc_got :: "indexed_event list"

record router =
  er_session_id :: session_id
  er_next_origin_idx :: "(system_id, int) dict"
  er_out_for_delivery :: "(event_id, pyfloat \<times> local_forwarder_event) dict"
  er_receivers :: "receiver list"
  er_buf :: "event ordered_buffer"
  er_nacks :: "nack list"
  er_nack_scope :: "nat option"
  er_nack_attempts :: int
  er_outbound :: "local_forwarder_event list"
  er_commands :: "command_body list"

definition mk_router :: "session_id \<Rightarrow> nat \<Rightarrow> router" where
  "mk_router sid k =
     \<lparr>er_session_id = sid, er_next_origin_idx = [], er_out_for_delivery = [],
      er_receivers = replicate k \<lparr>rc_open = True, rc_got = []\<rparr>, er_buf = ob_init, er_nacks = [], er_nack_scope = None,
      er_nack_attempts = 0, er_outbound = [], er_commands = []\<rparr>"

section \<open>Outbound\<close>

text \<open>One event through the sender \<open>sys\<close>: each sender numbers its events from 0.\<close>

definition er_ingest :: "pyfloat \<Rightarrow> system_id \<Rightarrow> event \<Rightarrow> router \<Rightarrow> router" where
  "er_ingest now sys e r =
     (let idx = dict_get_default (er_next_origin_idx r) sys 0;
          f = \<lparr>lf_origin_idx = idx, lf_origin = sys, lf_session = er_session_id r, lf_event = e\<rparr>
      in r\<lparr>er_next_origin_idx := dict_set (er_next_origin_idx r) sys (idx + 1),
           er_outbound := er_outbound r @ [f],
           er_out_for_delivery := dict_set (er_out_for_delivery r) (event_id e) (now, f)\<rparr>)"

definition retry_due :: "pyfloat \<Rightarrow> event_id \<times> pyfloat \<times> local_forwarder_event \<Rightarrow> bool" where
  "retry_due now p \<longleftrightarrow> fl (fst (snd p) + 5) < now"

definition simple_retry :: "pyfloat \<Rightarrow> router \<Rightarrow> router" where
  "simple_retry now r =
     foldl (\<lambda>r p. if retry_due now p
         then r\<lparr>er_out_for_delivery := dict_set (er_out_for_delivery r) (fst p) (now, snd (snd p)),
                er_outbound := er_outbound r @ [snd (snd p)]\<rparr>
         else r) r (er_out_for_delivery r)"

section \<open>Inbound\<close>

text \<open>Sending one ordered event to every receiver; \<open>closed_now\<close> says which sends find the channel closed.\<close>

definition deliver :: "(int \<Rightarrow> nat \<Rightarrow> bool) \<Rightarrow> receiver list \<Rightarrow> int \<times> event \<Rightarrow> receiver list" where
  "deliver closed_now rs p =
     map (\<lambda>k. let c = rs ! k in
        if \<not> rc_open c then c
        else if closed_now (fst p) k then c\<lparr>rc_open := False\<rparr>
        else c\<lparr>rc_got := rc_got c @ [\<lparr>ie_idx = fst p, ie_event = snd p\<rparr>]\<rparr>) [0..<length rs]"

definition nack_idle :: "router \<Rightarrow> bool" where
  "nack_idle r = (case er_nack_scope r of None \<Rightarrow> True | Some k \<Rightarrow> nk_cancelled (er_nacks r ! k))"

definition cancel_nack :: "router \<Rightarrow> router" where
  "cancel_nack r =
     (case er_nack_scope r of None \<Rightarrow> r
      | Some k \<Rightarrow> r\<lparr>er_nacks := (er_nacks r)[k := (er_nacks r ! k)\<lparr>nk_cancelled := True\<rparr>]\<rparr>)"

definition ext_in :: "(int \<Rightarrow> nat \<Rightarrow> bool) \<Rightarrow> global_forwarder_event \<Rightarrow> router \<Rightarrow> router result" where
  "ext_in closed_now g r =
     (if gf_session g \<noteq> er_session_id r then Inr r
      else if gf_origin g \<noteq> master_node_id (er_session_id r) then Inr r
      else rbind (ob_ingest (gf_origin_idx g) (gf_event g) (er_buf r)) (\<lambda>b.
        let r1 = r\<lparr>er_out_for_delivery := dict_del (er_out_for_delivery r) (event_id (gf_event g))\<rparr>;
            (drained, b') = ob_drain_indexed b;
            r2 = r1\<lparr>er_buf := b'\<rparr>
        in if drained = []
           then Inr (if nack_idle r2
                     then r2\<lparr>er_nacks := er_nacks r2 @ [\<lparr>nk_since = next_idx_to_release b', nk_phase = NackQueued, nk_cancelled = False\<rparr>]\<rparr>
                     else r2)
           else Inr (let r3 = cancel_nack (r2\<lparr>er_nack_attempts := 0\<rparr>)
                     in r3\<lparr>er_receivers := foldl (deliver closed_now) (er_receivers r3) drained\<rparr>)))"

section \<open>Requesting missing events\<close>

definition nack_begin :: "nat \<Rightarrow> router \<Rightarrow> router result" where
  "nack_begin k r =
     (let since = (if nk_since (er_nacks r ! k) < 0 then 0 else nk_since (er_nacks r ! k)) in
      rbind (float_two_pow (er_nack_attempts r)) (\<lambda>p.
        Inr (r\<lparr>er_nack_scope := Some k, er_nack_attempts := er_nack_attempts r + 1,
               er_nacks := (er_nacks r)[k := (er_nacks r ! k)\<lparr>nk_since := since,
                 nk_phase := NackSleeping (min 10 (fl (1 / 2 * p)))\<rparr>]\<rparr>)))"

definition nack_end :: "nat \<Rightarrow> router \<Rightarrow> router" where
  "nack_end k r =
     r\<lparr>er_nacks := (er_nacks r)[k := (er_nacks r ! k)\<lparr>nk_phase := NackDone\<rparr>],
       er_nack_scope := (if er_nack_scope r = Some k then None else er_nack_scope r)\<rparr>"

text \<open>The sleep ends: a cancelled task only leaves its scope, another one sends its request first.\<close>

definition nack_wake :: "nat \<Rightarrow> router \<Rightarrow> router" where
  "nack_wake k r =
     nack_end k (if nk_cancelled (er_nacks r ! k) then r
                 else r\<lparr>er_commands := er_commands r @ [RequestEventLog (nk_since (er_nacks r ! k))]\<rparr>)"

section \<open>The router as a state machine\<close>

datatype er_input =
    EIngest pyfloat system_id event
  | ERetry pyfloat
  | EExtIn "int \<Rightarrow> nat \<Rightarrow> bool" global_forwarder_event
  | ENackBegin nat
  | ENackWake nat

fun er_next :: "router \<Rightarrow> er_input \<Rightarrow> router result" where
  "er_next r (EIngest now sys e) = Inr (er_ingest now sys e r)"
| "er_next r (ERetry now) = Inr (simple_retry now r)"
| "er_next r (EExtIn cl g) = ext_in cl g r"
| "er_next r (ENackBegin k) =
     (if k < length (er_nacks r) \<and> nk_phase (er_nacks r ! k) = NackQueued then nack_begin k r else Inr r)"
| "er_next r (ENackWake k) =
     (if k < length (er_nacks r) \<and> is_sleeping (nk_phase (er_nacks r ! k)) then Inr (nack_wake k r) else Inr r)"

section \<open>What the receivers get\<close>

abbreviation indexed :: "int \<times> event \<Rightarrow> indexed_event" where
  "indexed p \<equiv> \<lparr>ie_idx = fst p, ie_event = snd p\<rparr>"

definition log_prefix :: "event list \<Rightarrow> nat \<Rightarrow> indexed_event list" where
  "log_prefix L n = map indexed (indexed_prefix L n)"

text \<open>A message the router does not drop is an entry of the log with its index.\<close>

fun input_from_log :: "session_id \<Rightarrow> event list \<Rightarrow> er_input \<Rightarrow> bool" where
  "input_from_log sid L (EExtIn _ g) =
     (gf_session g = sid \<and> gf_origin g = master_node_id sid \<longrightarrow>
        0 \<le> gf_origin_idx g \<and> gf_origin_idx g < int (length L) \<and> gf_event g = L ! nat (gf_origin_idx g))"
| "input_from_log sid L _ = True"

definition er_inv :: "session_id \<Rightarrow> event list \<Rightarrow> nat \<Rightarrow> router \<Rightarrow> bool" where
  "er_inv sid L n r \<longleftrightarrow>
     er_session_id r = sid \<and> ob.agrees L n (er_buf r) \<and>
     (\<forall>c \<in> set (er_receivers r). \<exists>k \<le> n. rc_got c = log_prefix L k \<and> (rc_open c \<longrightarrow> k = n))"

lemma er_inv_init: "er_inv sid L 0 (mk_router sid k)"
  by (auto simp: er_inv_def mk_router_def ob.agrees_fresh log_prefix_def indexed_prefix_def)

lemma deliver_length [simp]: "length (deliver cl rs p) = length rs"
  by (simp add: deliver_def)

lemma deliver_all:
  "length (foldl (deliver cl) rs ps) = length rs \<and>
   (\<forall>k < length rs. \<exists>j \<le> length ps. rc_got (foldl (deliver cl) rs ps ! k) = rc_got (rs ! k) @ map indexed (take j ps) \<and>
      (rc_open (foldl (deliver cl) rs ps ! k) \<longrightarrow> rc_open (rs ! k) \<and> j = length ps) \<and> (\<not> rc_open (rs ! k) \<longrightarrow> j = 0))"
proof (induction ps arbitrary: rs)
  case (Cons p ps)
  let ?rs = "deliver cl rs p"
  show ?case
  proof (intro conjI allI impI)
    show "length (foldl (deliver cl) rs (p # ps)) = length rs" using Cons [of ?rs] by simp
    fix k assume k: "k < length rs"
    then obtain j where j: "j \<le> length ps" "rc_got (foldl (deliver cl) ?rs ps ! k) = rc_got (?rs ! k) @ map indexed (take j ps)"
      "rc_open (foldl (deliver cl) ?rs ps ! k) \<longrightarrow> rc_open (?rs ! k) \<and> j = length ps" "\<not> rc_open (?rs ! k) \<longrightarrow> j = 0"
      using Cons [of ?rs] by auto
    let ?j = "if rc_open (?rs ! k) then Suc j else 0"
    show "\<exists>j \<le> length (p # ps). rc_got (foldl (deliver cl) rs (p # ps) ! k) = rc_got (rs ! k) @ map indexed (take j (p # ps)) \<and>
      (rc_open (foldl (deliver cl) rs (p # ps) ! k) \<longrightarrow> rc_open (rs ! k) \<and> j = length (p # ps)) \<and> (\<not> rc_open (rs ! k) \<longrightarrow> j = 0)"
      using k j by (intro exI [of _ ?j]) (auto simp: deliver_def Let_def split: if_splits)
  qed
qed simp

lemma simple_retry_fields [simp]:
  "er_session_id (simple_retry now r) = er_session_id r" "er_buf (simple_retry now r) = er_buf r"
  "er_receivers (simple_retry now r) = er_receivers r"
proof -
  let ?f = "\<lambda>r p. if retry_due now p
         then r\<lparr>er_out_for_delivery := dict_set (er_out_for_delivery r) (fst p) (now, snd (snd p)),
                er_outbound := er_outbound r @ [snd (snd p)]\<rparr> else r"
  have "er_session_id (foldl ?f r ps) = er_session_id r \<and> er_buf (foldl ?f r ps) = er_buf r \<and>
      er_receivers (foldl ?f r ps) = er_receivers r" for ps
    by (induction ps arbitrary: r) auto
  then show "er_session_id (simple_retry now r) = er_session_id r" "er_buf (simple_retry now r) = er_buf r"
    "er_receivers (simple_retry now r) = er_receivers r" unfolding simple_retry_def by blast+
qed

lemma cancel_nack_fields [simp]:
  "er_session_id (cancel_nack r) = er_session_id r" "er_buf (cancel_nack r) = er_buf r"
  "er_receivers (cancel_nack r) = er_receivers r" "er_out_for_delivery (cancel_nack r) = er_out_for_delivery r"
  "er_outbound (cancel_nack r) = er_outbound r"
  by (simp_all add: cancel_nack_def split: option.split)

lemma receivers_after_drain:
  assumes "\<forall>c \<in> set rs. \<exists>k \<le> n. rc_got c = log_prefix L k \<and> (rc_open c \<longrightarrow> k = n)"
    and "indexed_prefix L n @ drained = indexed_prefix L m" "n \<le> m"
  shows "\<forall>c \<in> set (foldl (deliver cl) rs drained). \<exists>k \<le> m. rc_got c = log_prefix L k \<and> (rc_open c \<longrightarrow> k = m)"
proof
  have len: "length drained = m - n"
    using arg_cong [OF assms(2), of length] by (simp add: indexed_prefix_def)
  note all = deliver_all [of cl rs drained]
  fix c assume "c \<in> set (foldl (deliver cl) rs drained)"
  then obtain i where i: "i < length rs" "c = foldl (deliver cl) rs drained ! i" using all by (auto simp: in_set_conv_nth)
  then obtain j where j: "j \<le> length drained" "rc_got c = rc_got (rs ! i) @ map indexed (take j drained)"
    "rc_open c \<longrightarrow> rc_open (rs ! i) \<and> j = length drained" "\<not> rc_open (rs ! i) \<longrightarrow> j = 0" using all by blast
  obtain k where k: "k \<le> n" "rc_got (rs ! i) = log_prefix L k" "rc_open (rs ! i) \<longrightarrow> k = n"
    using assms(1) i(1) by (meson nth_mem)
  have "log_prefix L n @ map indexed (take j drained) = log_prefix L (n + j)"
  proof -
    have "indexed_prefix L n @ take j drained = take (n + j) (indexed_prefix L m)"
      unfolding assms(2) [symmetric] by (simp add: indexed_prefix_def)
    also have "\<dots> = indexed_prefix L (n + j)" using j(1) len assms(3) by (simp add: indexed_prefix_def take_map)
    finally show ?thesis unfolding log_prefix_def by (metis map_append)
  qed
  then show "\<exists>k \<le> m. rc_got c = log_prefix L k \<and> (rc_open c \<longrightarrow> k = m)"
    using j k len assms(3)
    by (cases "rc_open (rs ! i)") (auto intro: exI [of _ "n + j"] exI [of _ k])
qed

lemma ext_in_inv:
  assumes "er_inv sid L n r" "input_from_log sid L (EExtIn cl g)"
  shows "\<exists>r' m. ext_in cl g r = Inr r' \<and> n \<le> m \<and> er_inv sid L m r'"
proof (cases "gf_session g = sid \<and> gf_origin g = master_node_id sid")
  case False
  then show ?thesis using assms(1) by (auto simp: ext_in_def er_inv_def)
next
  case True
  then have g: "0 \<le> gf_origin_idx g" "gf_origin_idx g < int (length L)" "gf_event g = L ! nat (gf_origin_idx g)"
    using assms(2) by auto
  have inv: "er_session_id r = sid" "ob.agrees L n (er_buf r)"
    and rs: "\<forall>c \<in> set (er_receivers r). \<exists>k \<le> n. rc_got c = log_prefix L k \<and> (rc_open c \<longrightarrow> k = n)"
    using assms(1) by (auto simp: er_inv_def)
  obtain b where b: "ob_ingest (gf_origin_idx g) (gf_event g) (er_buf r) = Inr b" "ob.agrees L n b"
    using ob.agrees_ingest [OF inv(2) g(1,2)] g(3) by auto
  obtain drained b' where d: "ob_drain_indexed b = (drained, b')" by fastforce
  obtain m where m: "n \<le> m" "ob.agrees L m b'" "indexed_prefix L n @ drained = indexed_prefix L m"
    using ob.agrees_drain [OF b(2) d] by auto
  show ?thesis
  proof (cases "drained = []")
    case True
    then have "m = n" using arg_cong [OF m(3), of length] by (simp add: indexed_prefix_def)
    then show ?thesis using True inv rs b d m \<open>gf_session g = sid \<and> _\<close>
      by (auto simp: ext_in_def er_inv_def Let_def)
  next
    case False
    then show ?thesis using inv receivers_after_drain [OF rs m(3,1), of cl] b d m \<open>gf_session g = sid \<and> _\<close>
      by (auto simp: ext_in_def er_inv_def Let_def)
  qed
qed

lemma er_next_inv:
  assumes "er_inv sid L n r" "input_from_log sid L i" "er_next r i = Inr r'"
  shows "\<exists>m. n \<le> m \<and> er_inv sid L m r'"
proof (cases i)
  case (EExtIn cl g)
  then show ?thesis using ext_in_inv [OF assms(1)] assms(2,3) by fastforce
qed (use assms in \<open>auto simp: er_inv_def er_ingest_def nack_begin_def nack_wake_def nack_end_def Let_def split: if_splits\<close>)

lemma er_run_inv:
  "rfold er_next r ins = Inr r' \<Longrightarrow> list_all (input_from_log sid L) ins \<Longrightarrow> er_inv sid L n r \<Longrightarrow> \<exists>m. n \<le> m \<and> er_inv sid L m r'"
proof (induction ins arbitrary: r n)
  case (Cons i ins)
  then obtain r1 where r1: "er_next r i = Inr r1" "rfold er_next r1 ins = Inr r'" by auto
  obtain m1 where "n \<le> m1" "er_inv sid L m1 r1" using er_next_inv [OF Cons.prems(3) _ r1(1)] Cons.prems(2) by auto
  moreover from this Cons.IH [OF r1(2), of m1] Cons.prems(2) obtain m where "m1 \<le> m" "er_inv sid L m r'" by auto
  ultimately show ?case by (intro exI [of _ m]) simp
qed auto

section \<open>Keeping events until they are broadcast\<close>

text \<open>The input does not concern the event id: no sender submits it again and no accepted message carries it.\<close>

fun leaves_alone :: "session_id \<Rightarrow> event_id \<Rightarrow> er_input \<Rightarrow> bool" where
  "leaves_alone sid eid (EIngest _ _ e) = (event_id e \<noteq> eid)"
| "leaves_alone sid eid (EExtIn _ g) =
     (gf_session g = sid \<and> gf_origin g = master_node_id sid \<longrightarrow> event_id (gf_event g) \<noteq> eid)"
| "leaves_alone sid eid _ = True"

definition awaiting :: "session_id \<Rightarrow> event_id \<Rightarrow> local_forwarder_event \<Rightarrow> router \<Rightarrow> bool" where
  "awaiting sid eid f r \<longleftrightarrow> er_session_id r = sid \<and> wf_dict (er_out_for_delivery r) \<and>
     (\<exists>t. dict_get (er_out_for_delivery r) eid = Some (t, f))"

lemma retry_fold:
  fixes now r ps
  defines "r' \<equiv> foldl (\<lambda>r p. if retry_due now p
         then r\<lparr>er_out_for_delivery := dict_set (er_out_for_delivery r) (fst p) (now, snd (snd p)),
                er_outbound := er_outbound r @ [snd (snd p)]\<rparr> else r) r ps"
  assumes "wf_dict ps"
  shows "wf_dict (er_out_for_delivery r) \<Longrightarrow> wf_dict (er_out_for_delivery r')"
    and "dict_get (er_out_for_delivery r') eid = (case dict_get ps eid of
        Some (t, f) \<Rightarrow> if retry_due now (eid, t, f) then Some (now, f) else dict_get (er_out_for_delivery r) eid
      | None \<Rightarrow> dict_get (er_out_for_delivery r) eid)"
    and "\<exists>sent. er_outbound r' = er_outbound r @ sent \<and> (\<forall>p \<in> set ps. retry_due now p \<longrightarrow> snd (snd p) \<in> set sent)"
proof -
  let ?f = "\<lambda>r p. if retry_due now p
         then r\<lparr>er_out_for_delivery := dict_set (er_out_for_delivery r) (fst p) (now, snd (snd p)),
                er_outbound := er_outbound r @ [snd (snd p)]\<rparr> else r"
  have "(wf_dict (er_out_for_delivery r) \<longrightarrow> wf_dict (er_out_for_delivery (foldl ?f r ps))) \<and>
    dict_get (er_out_for_delivery (foldl ?f r ps)) eid = (case dict_get ps eid of
        Some (t, f) \<Rightarrow> if retry_due now (eid, t, f) then Some (now, f) else dict_get (er_out_for_delivery r) eid
      | None \<Rightarrow> dict_get (er_out_for_delivery r) eid) \<and>
    (\<exists>sent. er_outbound (foldl ?f r ps) = er_outbound r @ sent \<and> (\<forall>p \<in> set ps. retry_due now p \<longrightarrow> snd (snd p) \<in> set sent))"
    using assms(2)
  proof (induction ps arbitrary: r)
    case (Cons p ps)
    obtain e t f where p: "p = (e, t, f)" by (cases p) auto
    have wf: "wf_dict ps" "e \<notin> set (map fst ps)" using Cons.prems p by (auto simp: wf_dict_def)
    then have "dict_get ps e = None" by (simp add: map_of_eq_None_iff)
    with Cons.IH [OF wf(1), of "?f r p"] p show ?case
      by (auto split: option.splits if_splits)
  qed simp
  then show "wf_dict (er_out_for_delivery r) \<Longrightarrow> wf_dict (er_out_for_delivery r')"
    "dict_get (er_out_for_delivery r') eid = (case dict_get ps eid of
        Some (t, f) \<Rightarrow> if retry_due now (eid, t, f) then Some (now, f) else dict_get (er_out_for_delivery r) eid
      | None \<Rightarrow> dict_get (er_out_for_delivery r) eid)"
    "\<exists>sent. er_outbound r' = er_outbound r @ sent \<and> (\<forall>p \<in> set ps. retry_due now p \<longrightarrow> snd (snd p) \<in> set sent)"
    unfolding r'_def by blast+
qed

lemma simple_retry_awaiting:
  assumes "awaiting sid eid f r"
  shows "awaiting sid eid f (simple_retry now r)"
proof -
  obtain t where t: "dict_get (er_out_for_delivery r) eid = Some (t, f)" "wf_dict (er_out_for_delivery r)" "er_session_id r = sid"
    using assms by (auto simp: awaiting_def)
  then show ?thesis
    using retry_fold(1,2) [OF t(2), where r = r and now = now] t simple_retry_fields(1) [of now r]
    by (auto simp: awaiting_def simple_retry_def split: if_splits)
qed

lemma ext_in_out:
  assumes "ext_in cl g r = Inr r'"
  shows "er_session_id r' = er_session_id r"
    and "er_out_for_delivery r' = (if gf_session g = er_session_id r \<and> gf_origin g = master_node_id (er_session_id r)
      then dict_del (er_out_for_delivery r) (event_id (gf_event g)) else er_out_for_delivery r)"
  using assms by (auto simp: ext_in_def Let_def case_prod_beta split: if_splits)

lemma er_next_awaiting:
  assumes "awaiting sid eid f r" "leaves_alone sid eid i" "er_next r i = Inr r'"
  shows "awaiting sid eid f r'"
proof (cases i)
  case (EExtIn cl g)
  then have e: "ext_in cl g r = Inr r'" using assms(3) by simp
  show ?thesis using assms(1,2) EExtIn
    by (auto simp: awaiting_def ext_in_out [OF e] wf_dict_del)
next
  case (ERetry now)
  then show ?thesis using assms(1,3) simple_retry_awaiting by auto
qed (use assms in \<open>auto simp: awaiting_def er_ingest_def nack_begin_def nack_wake_def nack_end_def Let_def wf_dict_set
       split: if_splits\<close>)

lemma er_run_awaiting:
  "rfold er_next r ins = Inr r' \<Longrightarrow> list_all (leaves_alone sid eid) ins \<Longrightarrow> awaiting sid eid f r \<Longrightarrow> awaiting sid eid f r'"
  by (induction ins arbitrary: r) (auto intro: er_next_awaiting)

lemma retry_resends:
  assumes "awaiting sid eid f r" "dict_get (er_out_for_delivery r) eid = Some (t, f)" "fl (t + 5) < now"
  shows "\<exists>sent. er_outbound (simple_retry now r) = er_outbound r @ sent \<and> f \<in> set sent"
proof -
  have wf: "wf_dict (er_out_for_delivery r)" using assms(1) by (simp add: awaiting_def)
  have "(eid, t, f) \<in> set (er_out_for_delivery r)" using map_of_SomeD [OF assms(2)] .
  moreover have "retry_due now (eid, t, f)" using assms(3) by (simp add: retry_due_def)
  ultimately show ?thesis using retry_fold(3) [OF wf, where r = r and now = now] unfolding simple_retry_def by fastforce
qed

section \<open>Properties\<close>

text \<open>
  C5: in whatever order the master's broadcast arrives, with duplicates and with messages of other
  sessions or origins in between, every receiver of the router has been sent a prefix of the
  master's log, each event once and with its index, and all receivers still open have been sent
  the same prefix; no message taken from the log makes the router raise.
\<close>

theorem router_delivers_log_prefix:
  assumes "rfold er_next (mk_router sid k) ins = Inr r" "list_all (input_from_log sid L) ins"
  shows "\<exists>n \<le> length L. next_idx_to_release (er_buf r) = int n \<and>
    (\<forall>c \<in> set (er_receivers r). \<exists>j \<le> n. rc_got c = log_prefix L j \<and> (rc_open c \<longrightarrow> j = n)) \<and>
    (\<forall>cl g. input_from_log sid L (EExtIn cl g) \<longrightarrow> (\<exists>r'. er_next r (EExtIn cl g) = Inr r'))"
proof -
  obtain n where n: "er_inv sid L n r" using er_run_inv [OF assms er_inv_init] by blast
  then have "n \<le> length L \<and> next_idx_to_release (er_buf r) = int n" by (simp add: er_inv_def ob.agrees_def)
  moreover have "\<forall>cl g. input_from_log sid L (EExtIn cl g) \<longrightarrow> (\<exists>r'. er_next r (EExtIn cl g) = Inr r')"
    using ext_in_inv [OF n] by fastforce
  ultimately show ?thesis using n by (auto simp: er_inv_def)
qed

text \<open>
  An event a node has sent stays with its router until the master broadcasts it: as long as no
  accepted message carries its id, it is kept, and every retry more than five seconds after the
  last attempt sends it again unchanged, with the origin and the index it was first sent with.
\<close>

theorem router_retries_until_broadcast:
  assumes "er_session_id r = sid" "wf_dict (er_out_for_delivery r)"
    and "rfold er_next (er_ingest now sys e r) ins = Inr r'" "list_all (leaves_alone sid (event_id e)) ins"
  shows "\<exists>t f. dict_get (er_out_for_delivery r') (event_id e) = Some (t, f) \<and> lf_event f = e \<and> lf_origin f = sys \<and>
    lf_origin_idx f = dict_get_default (er_next_origin_idx r) sys 0 \<and>
    (\<forall>later. fl (t + 5) < later \<longrightarrow>
       (\<exists>sent. er_outbound (simple_retry later r') = er_outbound r' @ sent \<and> f \<in> set sent))"
proof -
  let ?f = "\<lparr>lf_origin_idx = dict_get_default (er_next_origin_idx r) sys 0, lf_origin = sys, lf_session = er_session_id r, lf_event = e\<rparr>"
  have "awaiting sid (event_id e) ?f (er_ingest now sys e r)"
    using assms(1,2) by (simp add: awaiting_def er_ingest_def Let_def wf_dict_set)
  from er_run_awaiting [OF assms(3,4) this] have aw: "awaiting sid (event_id e) ?f r'" .
  then obtain t where t: "dict_get (er_out_for_delivery r') (event_id e) = Some (t, ?f)" by (auto simp: awaiting_def)
  have "\<forall>later. fl (t + 5) < later \<longrightarrow>
       (\<exists>sent. er_outbound (simple_retry later r') = er_outbound r' @ sent \<and> ?f \<in> set sent)"
    using retry_resends [OF aw t] by blast
  with t show ?thesis by (intro exI [of _ t] exI [of _ ?f]) simp
qed

definition router_session :: session_id where
  "router_session = \<lparr>master_node_id = ''a'', election_clock = 0\<rparr>"

definition test_event :: "event_id \<Rightarrow> event" where
  "test_event i = \<lparr>event_id = i, event_body = TestEvent\<rparr>"

definition from_master :: "int \<Rightarrow> event \<Rightarrow> global_forwarder_event" where
  "from_master k e = \<lparr>gf_origin_idx = k, gf_origin = ''a'', gf_session = router_session, gf_event = e\<rparr>"

definition demo_arrivals :: "er_input list" where
  "demo_arrivals = [EExtIn (\<lambda>_ _. False) (from_master 1 (test_event ''y'')), ENackBegin 0,
     EExtIn (\<lambda>_ k. k = 1) (from_master 0 (test_event ''x'')), EExtIn (\<lambda>_ _. False) (from_master 0 (test_event ''x''))]"

theorem router_delivers_log_prefix_witness:
  "\<exists>r n. rfold er_next (mk_router router_session 2) demo_arrivals = Inr r \<and>
     rc_got (er_receivers r ! 0) = log_prefix [test_event ''x'', test_event ''y''] n \<and> n = 2"
proof -
  let ?r = "rfold er_next (mk_router router_session 2) demo_arrivals" and ?L = "[test_event ''x'', test_event ''y'']"
  have ok: "\<not> isl ?r" by code_simp
  then obtain r where r: "?r = Inr r" by (cases ?r) auto
  have "(case ?r of Inr r \<Rightarrow> next_idx_to_release (er_buf r) = 2 \<and> length (er_receivers r) = 2 \<and> rc_open (er_receivers r ! 0) | Inl _ \<Rightarrow> False)"
    by code_simp
  then have f: "next_idx_to_release (er_buf r) = 2" "er_receivers r ! 0 \<in> set (er_receivers r)" "rc_open (er_receivers r ! 0)"
    using r by auto
  have "list_all (input_from_log router_session ?L) demo_arrivals"
    by (simp add: demo_arrivals_def from_master_def router_session_def)
  from router_delivers_log_prefix [OF r this] f r show ?thesis by fastforce
qed

theorem router_retries_until_broadcast_witness:
  "\<exists>r' t f. rfold er_next (er_ingest 0 ''s'' (test_event ''z'') (mk_router router_session 1)) demo_arrivals = Inr r' \<and>
     dict_get (er_out_for_delivery r') ''z'' = Some (t, f) \<and> lf_event f = test_event ''z''"
proof -
  let ?init = "mk_router router_session 1"
  let ?r = "rfold er_next (er_ingest 0 ''s'' (test_event ''z'') ?init) demo_arrivals"
  have "\<not> isl ?r" by code_simp
  then obtain r' where r': "?r = Inr r'" by (cases ?r) auto
  have a: "er_session_id ?init = router_session" "wf_dict (er_out_for_delivery ?init)" by (simp_all add: mk_router_def)
  have "list_all (leaves_alone router_session (event_id (test_event ''z''))) demo_arrivals"
    by (simp add: demo_arrivals_def from_master_def test_event_def)
  from router_retries_until_broadcast [OF a r' this] r' show ?thesis by (auto simp: test_event_def)
qed

end
