(* ===== verification/Api.thy ===== *)
theory Api
  imports Effects Event_Log State_Apply Supervisor
begin

text \<open>
  The event side of the HTTP API (\<^verbatim>\<open>src/exo/api/main.py\<close>): it applies the ordered events to its own
  copy of the state, hands the chunks of a command to the request that waits for them, cancels
  commands, and holds back commands while an election runs.

  A channel is a member of the store \<open>api_chans\<close>: what was ever sent on it, how much the request has
  taken, and which of its two ends are open; the two dictionaries of queues name channels by their
  index. A coroutine is cut at its waits. \<^verbatim>\<open>_send\<close> waits while the API is paused; \<open>api_waiting\<close> lists the
  calls that are at such a wait. FastAPI, the routes and the files of merged traces are not
  modelled; the serialisation of the event log is a parameter (\<open>ser\<close>).
\<close>

record chan =
  ch_command :: command_id
  ch_image :: bool
  ch_sent :: "chunk list"
  ch_taken :: nat
  ch_sender_open :: bool
  ch_receiver_open :: bool

datatype api_call =
    CancelCall command_id nat
  | FinishText command_id
  | FinishImage command_id

record 'g api =
  api_state :: "'g state"
  api_event_log :: elog
  api_chans :: "chan list"
  api_text_queues :: "(command_id, nat) dict"
  api_image_queues :: "(command_id, nat) dict"
  api_paused :: bool
  api_last_completed_election :: int
  api_waiting :: "api_call list"
  api_commands :: "command_body list"

definition mk_api :: "'g env \<Rightarrow> 'g api" where
  "mk_api rx =
     \<lparr>api_state = init_state rx, api_event_log = new_log, api_chans = [], api_text_queues = [],
      api_image_queues = [], api_paused = False, api_last_completed_election = 0, api_waiting = [],
      api_commands = []\<rparr>"

section \<open>Elections\<close>

definition api_unpause :: "int \<Rightarrow> 'g api \<Rightarrow> 'g api" where
  "api_unpause clock a = a\<lparr>api_last_completed_election := clock, api_paused := False\<rparr>"

text \<open>The queues are replaced, not closed: their channels keep both ends as they are.\<close>

definition api_reset :: "'g env \<Rightarrow> int \<Rightarrow> 'g api \<Rightarrow> 'g api" where
  "api_reset rx clock a =
     api_unpause clock (a\<lparr>api_event_log := new_log, api_state := init_state rx,
       api_text_queues := [], api_image_queues := []\<rparr>)"

definition pause_on_new_election :: "int \<Rightarrow> 'g api \<Rightarrow> 'g api" where
  "pause_on_new_election clock a =
     (if api_last_completed_election a < clock then a\<lparr>api_paused := True\<rparr> else a)"

section \<open>Events\<close>

definition chan_open :: "chan \<Rightarrow> bool" where
  "chan_open ch \<longleftrightarrow> ch_sender_open ch \<and> ch_receiver_open ch"

definition chan_close :: "chan \<Rightarrow> chan" where
  "chan_close ch = ch\<lparr>ch_sender_open := False\<rparr>"

text \<open>A queue whose channel is closed is dropped when the send fails.\<close>

definition offer :: "(command_id, nat) dict \<Rightarrow> command_id \<Rightarrow> chunk \<Rightarrow> chan list \<Rightarrow> (command_id, nat) dict \<times> chan list" where
  "offer qs c k chs =
     (case dict_get qs c of
        None \<Rightarrow> (qs, chs)
      | Some i \<Rightarrow>
          if chan_open (chs ! i) then (qs, chs[i := (chs ! i)\<lparr>ch_sent := ch_sent (chs ! i) @ [k]\<rparr>])
          else (dict_del qs c, chs))"

fun is_image_chunk :: "chunk \<Rightarrow> bool" where
  "is_image_chunk (ImageChunk _) = True"
| "is_image_chunk _ = False"

definition offer_image :: "command_id \<Rightarrow> chunk \<Rightarrow> ('g api, unit) action" where
  "offer_image c k =
     with_state (\<lambda>a. swhen (dict_mem c (api_image_queues a))
       (sseq [sassert ''isinstance(event.chunk, ImageChunk)'' (\<lambda>_. is_image_chunk k),
              upd (\<lambda>a. let (qs, chs) = offer (api_image_queues a) c k (api_chans a)
                       in a\<lparr>api_image_queues := qs, api_chans := chs\<rparr>)]))"

definition offer_text :: "command_id \<Rightarrow> chunk \<Rightarrow> ('g api, unit) action" where
  "offer_text c k =
     with_state (\<lambda>a. swhen (dict_mem c (api_text_queues a))
       (sseq [sassert ''not isinstance(event.chunk, ImageChunk)'' (\<lambda>_. \<not> is_image_chunk k),
              upd (\<lambda>a. let (qs, chs) = offer (api_text_queues a) c k (api_chans a)
                       in a\<lparr>api_text_queues := qs, api_chans := chs\<rparr>)]))"

definition pop_close :: "(command_id, nat) dict \<Rightarrow> command_id \<Rightarrow> chan list \<Rightarrow> (command_id, nat) dict \<times> chan list" where
  "pop_close qs c chs =
     (case dict_get qs c of
        None \<Rightarrow> (qs, chs)
      | Some i \<Rightarrow> (dict_del qs c, chs[i := chan_close (chs ! i)]))"

definition close_streams_of :: "command_id \<Rightarrow> 'g api \<Rightarrow> 'g api" where
  "close_streams_of c a =
     (let (tq, chs) = pop_close (api_text_queues a) c (api_chans a);
          (iq, chs') = pop_close (api_image_queues a) c chs
      in a\<lparr>api_text_queues := tq, api_image_queues := iq, api_chans := chs'\<rparr>)"

definition close_streams_for_instance :: "string \<Rightarrow> 'g api \<Rightarrow> 'g api" where
  "close_streams_for_instance iid a =
     foldl (\<lambda>a t. if task_instance_id t \<noteq> iid then a
                  else case task_command_id (task_body t) of None \<Rightarrow> a | Some c \<Rightarrow> close_streams_of c a)
       a (dict_values (st_tasks (api_state a)))"

definition api_apply :: "'g env \<Rightarrow> (event \<Rightarrow> byte list) \<Rightarrow> indexed_event \<Rightarrow> ('g api, unit) action" where
  "api_apply rx ser e =
     sseq [with_state (\<lambda>a. sbind (lift_result (log_append ser (ie_event e) (api_event_log a)))
             (\<lambda>l. upd (\<lambda>a. a\<lparr>api_event_log := l\<rparr>))),
           with_state (\<lambda>a. sbind (lift_result (apply_event rx (api_state a) e))
             (\<lambda>s. upd (\<lambda>a. a\<lparr>api_state := s\<rparr>))),
           (case event_body (ie_event e) of
              ChunkGenerated c k \<Rightarrow> sseq [offer_image c k, offer_text c k]
            | InstanceDeleted iid \<Rightarrow> upd (close_streams_for_instance iid)
            | _ \<Rightarrow> ret ())]"

section \<open>Requests\<close>

text \<open>The registration at the start of \<^verbatim>\<open>_token_chunk_stream\<close> and of \<^verbatim>\<open>_collect_image_chunks\<close>.\<close>

definition new_chan :: "bool \<Rightarrow> command_id \<Rightarrow> chan" where
  "new_chan img c = \<lparr>ch_command = c, ch_image = img, ch_sent = [], ch_taken = 0, ch_sender_open = True, ch_receiver_open = True\<rparr>"

definition open_text_stream :: "command_id \<Rightarrow> 'g api \<Rightarrow> 'g api" where
  "open_text_stream c a =
     a\<lparr>api_text_queues := dict_set (api_text_queues a) c (length (api_chans a)), api_chans := api_chans a @ [new_chan False c]\<rparr>"

definition open_image_stream :: "command_id \<Rightarrow> 'g api \<Rightarrow> 'g api" where
  "open_image_stream c a =
     a\<lparr>api_image_queues := dict_set (api_image_queues a) c (length (api_chans a)), api_chans := api_chans a @ [new_chan True c]\<rparr>"

definition end_stream :: "nat \<Rightarrow> 'g api \<Rightarrow> 'g api" where
  "end_stream i a =
     a\<lparr>api_chans := (api_chans a)[i := (api_chans a ! i)\<lparr>ch_receiver_open := False\<rparr>],
       api_waiting := api_waiting a @ [if ch_image (api_chans a ! i) then FinishImage (ch_command (api_chans a ! i))
                                       else FinishText (ch_command (api_chans a ! i))]\<rparr>"

text \<open>
  One round of the loop of \<^verbatim>\<open>_token_chunk_stream\<close>: a chunk is taken, and the stream ends after a chunk
  that finishes it; or the sender is closed and nothing is left; or the request waits (\<^term>\<open>None\<close>).
\<close>

definition stream_next :: "nat \<Rightarrow> 'g api \<Rightarrow> 'g api option" where
  "stream_next i a =
     (if length (api_chans a) \<le> i then None
      else let ch = api_chans a ! i in
        if \<not> ch_receiver_open ch \<or> ch_image ch then None
        else if ch_taken ch < length (ch_sent ch)
        then let a' = a\<lparr>api_chans := (api_chans a)[i := ch\<lparr>ch_taken := ch_taken ch + 1\<rparr>]\<rparr>
             in Some (if chunk_finish_reason (ch_sent ch ! ch_taken ch) \<noteq> None then end_stream i a' else a')
        else if ch_sender_open ch then None
        else Some (end_stream i a))"

text \<open>The collector of an image request has all its images, or raised.\<close>

definition image_stream_end :: "nat \<Rightarrow> 'g api \<Rightarrow> 'g api option" where
  "image_stream_end i a =
     (if i < length (api_chans a) \<and> ch_receiver_open (api_chans a ! i) \<and> ch_image (api_chans a ! i)
      then Some (end_stream i a) else None)"

text \<open>The client went away: the cancellation is sent at once, the final \<^verbatim>\<open>TaskFinished\<close> through \<^verbatim>\<open>_send\<close>.\<close>

definition stream_disconnect :: "nat \<Rightarrow> 'g api \<Rightarrow> 'g api option" where
  "stream_disconnect i a =
     (if i < length (api_chans a) \<and> ch_receiver_open (api_chans a ! i)
      then Some (let a' = end_stream i a
                 in a'\<lparr>api_commands := api_commands a' @ [TaskCancelled (ch_command (api_chans a ! i))]\<rparr>)
      else None)"

definition cancel_command :: "command_id \<Rightarrow> 'g api \<Rightarrow> 'g api result" where
  "cancel_command c a =
     (case (case dict_get (api_text_queues a) c of Some i \<Rightarrow> Some i | None \<Rightarrow> dict_get (api_image_queues a) c) of
        None \<Rightarrow> Inl (OtherError ''404 Command not found or already completed'')
      | Some i \<Rightarrow> Inr (a\<lparr>api_waiting := api_waiting a @ [CancelCall c i]\<rparr>))"

text \<open>What a call does once \<^verbatim>\<open>_send\<close> has let it through.\<close>

fun complete_call :: "api_call \<Rightarrow> 'g api \<Rightarrow> 'g api" where
  "complete_call (CancelCall c i) a =
     a\<lparr>api_commands := api_commands a @ [TaskCancelled c],
       api_chans := (api_chans a)[i := chan_close (api_chans a ! i)]\<rparr>"
| "complete_call (FinishText c) a =
     a\<lparr>api_commands := api_commands a @ [TaskFinished c], api_text_queues := dict_del (api_text_queues a) c\<rparr>"
| "complete_call (FinishImage c) a =
     a\<lparr>api_commands := api_commands a @ [TaskFinished c], api_image_queues := dict_del (api_image_queues a) c\<rparr>"

definition api_proceed :: "nat \<Rightarrow> 'g api \<Rightarrow> 'g api option" where
  "api_proceed k a =
     (if \<not> api_paused a \<and> k < length (api_waiting a)
      then Some (complete_call (api_waiting a ! k)
             (a\<lparr>api_waiting := take k (api_waiting a) @ drop (Suc k) (api_waiting a)\<rparr>))
      else None)"

section \<open>Steps\<close>

datatype api_label =
    ApiEvent indexed_event
  | ApiOpenText command_id
  | ApiOpenImage command_id
  | ApiNext nat
  | ApiImageEnd nat
  | ApiDisconnect nat
  | ApiCancel command_id
  | ApiProceed nat
  | ApiElection int
  | ApiUnpause int
  | ApiReset int

fun api_next :: "'g env \<Rightarrow> (event \<Rightarrow> byte list) \<Rightarrow> api_label \<Rightarrow> 'g api \<Rightarrow> 'g api option" where
  "api_next rx ser (ApiEvent e) a =
     (case api_apply rx ser e a of (a', Inr _) \<Rightarrow> Some a' | (_, Inl _) \<Rightarrow> None)"
| "api_next rx ser (ApiOpenText c) a = Some (open_text_stream c a)"
| "api_next rx ser (ApiOpenImage c) a = Some (open_image_stream c a)"
| "api_next rx ser (ApiNext i) a = stream_next i a"
| "api_next rx ser (ApiImageEnd i) a = image_stream_end i a"
| "api_next rx ser (ApiDisconnect i) a = stream_disconnect i a"
| "api_next rx ser (ApiCancel c) a = (case cancel_command c a of Inr a' \<Rightarrow> Some a' | Inl _ \<Rightarrow> None)"
| "api_next rx ser (ApiProceed k) a = api_proceed k a"
| "api_next rx ser (ApiElection clock) a = Some (pause_on_new_election clock a)"
| "api_next rx ser (ApiUnpause clock) a = Some (api_unpause clock a)"
| "api_next rx ser (ApiReset clock) a = Some (api_reset rx clock a)"

inductive api_run ::
  "'g env \<Rightarrow> (event \<Rightarrow> byte list) \<Rightarrow> 'g api \<Rightarrow> api_label list \<Rightarrow> 'g api \<Rightarrow> bool"
  for rx ser where
  run_nil: "api_run rx ser a [] a"
| run_cons: "api_next rx ser l a = Some b \<Longrightarrow> api_run rx ser b ls c \<Longrightarrow> api_run rx ser a (l # ls) c"

text \<open>The chunks of one command among the events of a run.\<close>

fun label_chunks :: "command_id \<Rightarrow> api_label \<Rightarrow> chunk list" where
  "label_chunks c (ApiEvent e) =
     (case event_body (ie_event e) of ChunkGenerated d k \<Rightarrow> if d = c then [k] else [] | _ \<Rightarrow> [])"
| "label_chunks c _ = []"

definition chunks_for :: "command_id \<Rightarrow> api_label list \<Rightarrow> chunk list" where
  "chunks_for c ls = concat (map (label_chunks c) ls)"

section \<open>What happens to a channel\<close>

text \<open>A channel is live while a send can reach it: it is registered for its command and open.\<close>

definition queues_of :: "bool \<Rightarrow> 'g api \<Rightarrow> (command_id, nat) dict" where
  "queues_of img a = (if img then api_image_queues a else api_text_queues a)"

definition live :: "'g api \<Rightarrow> nat \<Rightarrow> bool" where
  "live a i \<longleftrightarrow> i < length (api_chans a) \<and> chan_open (api_chans a ! i) \<and>
     dict_get (queues_of (ch_image (api_chans a ! i)) a) (ch_command (api_chans a ! i)) = Some i"

definition wf_api :: "'g api \<Rightarrow> bool" where
  "wf_api a \<longleftrightarrow>
     (\<forall>img c i. dict_get (queues_of img a) c = Some i \<longrightarrow>
        i < length (api_chans a) \<and> ch_command (api_chans a ! i) = c \<and> ch_image (api_chans a ! i) = img)"

text \<open>From \<open>a\<close> to \<open>b\<close> the channel \<open>i\<close> was sent \<open>f i\<close>, and no dead channel came back to life.\<close>

definition evolves :: "(nat \<Rightarrow> chunk list) \<Rightarrow> 'g api \<Rightarrow> 'g api \<Rightarrow> bool" where
  "evolves f a b \<longleftrightarrow> wf_api b \<and> length (api_chans a) \<le> length (api_chans b) \<and>
     (\<forall>i < length (api_chans a).
        ch_command (api_chans b ! i) = ch_command (api_chans a ! i) \<and>
        ch_image (api_chans b ! i) = ch_image (api_chans a ! i) \<and>
        ch_sent (api_chans b ! i) = ch_sent (api_chans a ! i) @ f i \<and> (live b i \<longrightarrow> live a i))"

lemma evolves_trans:
  assumes "evolves f a b" "evolves g b c" shows "evolves (\<lambda>i. f i @ g i) a c"
  using assms by (auto simp: evolves_def)

lemma evolves_cong: "evolves f a b \<Longrightarrow> (\<And>i. i < length (api_chans a) \<Longrightarrow> f i = g i) \<Longrightarrow> evolves g a b"
  by (auto simp: evolves_def)

text \<open>Operations that drop queues, close ends of channels or take from them.\<close>

definition weakens :: "'g api \<Rightarrow> 'g api \<Rightarrow> bool" where
  "weakens a b \<longleftrightarrow>
     (\<forall>img c i. dict_get (queues_of img b) c = Some i \<longrightarrow> dict_get (queues_of img a) c = Some i) \<and>
     length (api_chans b) = length (api_chans a) \<and>
     (\<forall>i < length (api_chans a).
        ch_command (api_chans b ! i) = ch_command (api_chans a ! i) \<and>
        ch_image (api_chans b ! i) = ch_image (api_chans a ! i) \<and>
        ch_sent (api_chans b ! i) = ch_sent (api_chans a ! i) \<and>
        (chan_open (api_chans b ! i) \<longrightarrow> chan_open (api_chans a ! i)))"

lemma weakens_refl: "weakens a a"
  by (simp add: weakens_def)

lemma weakens_trans: "weakens a b \<Longrightarrow> weakens b c \<Longrightarrow> weakens a c"
  by (auto simp: weakens_def)

lemma weakens_evolves: "wf_api a \<Longrightarrow> weakens a b \<Longrightarrow> evolves (\<lambda>_. []) a b"
proof -
  assume wf: "wf_api a" and w: "weakens a b"
  have len: "length (api_chans b) = length (api_chans a)" using w by (simp add: weakens_def)
  have same: "ch_command (api_chans b ! i) = ch_command (api_chans a ! i)" "ch_image (api_chans b ! i) = ch_image (api_chans a ! i)"
    "ch_sent (api_chans b ! i) = ch_sent (api_chans a ! i)" "chan_open (api_chans b ! i) \<Longrightarrow> chan_open (api_chans a ! i)"
    if "i < length (api_chans a)" for i using w that by (auto simp: weakens_def)
  have get: "dict_get (queues_of img b) c = Some i \<Longrightarrow> dict_get (queues_of img a) c = Some i" for img c i
    using w by (simp add: weakens_def)
  have "wf_api b" unfolding wf_api_def using wf get same len by (metis wf_api_def)
  moreover have "live b i \<longrightarrow> live a i" if "i < length (api_chans a)" for i
    using that same [OF that] get by (auto simp: live_def)
  ultimately show ?thesis using len same by (simp add: evolves_def)
qed

lemma nth_update_any: "j < length xs \<Longrightarrow> xs[i := x] ! j = (if i = j then x else xs ! j)"
  by auto

lemma pop_close_weakens:
  assumes "pop_close (queues_of img a) c (api_chans a) = (qs, chs)"
  shows "weakens a (if img then a\<lparr>api_image_queues := qs, api_chans := chs\<rparr> else a\<lparr>api_text_queues := qs, api_chans := chs\<rparr>)"
  using assms
  by (auto simp: pop_close_def weakens_def queues_of_def chan_close_def chan_open_def nth_update_any
      split: option.splits if_splits)

lemma close_streams_of_weakens: "weakens a (close_streams_of c a)"
proof -
  obtain tq chs where t: "pop_close (api_text_queues a) c (api_chans a) = (tq, chs)" by (cases "pop_close (api_text_queues a) c (api_chans a)")
  obtain iq chs' where i: "pop_close (api_image_queues a) c chs = (iq, chs')" by (cases "pop_close (api_image_queues a) c chs")
  let ?a = "a\<lparr>api_text_queues := tq, api_chans := chs\<rparr>"
  have "weakens a ?a" using pop_close_weakens [of False a c tq chs] t by (simp add: queues_of_def)
  moreover have "weakens ?a (?a\<lparr>api_image_queues := iq, api_chans := chs'\<rparr>)"
    using pop_close_weakens [of True ?a c iq chs'] i by (simp add: queues_of_def)
  ultimately show ?thesis using t i by (auto simp: close_streams_of_def intro: weakens_trans)
qed

lemma close_streams_for_instance_weakens: "weakens a (close_streams_for_instance iid a)"
  unfolding close_streams_for_instance_def
  by (rule foldl_invariant [where P = "weakens a"])
    (auto split: option.splits intro: weakens_refl weakens_trans close_streams_of_weakens)

lemma end_stream_weakens: "weakens a (end_stream i a)"
  by (auto simp: weakens_def end_stream_def queues_of_def chan_open_def nth_update_any)

lemma stream_next_weakens: "stream_next i a = Some b \<Longrightarrow> weakens a b"
proof -
  assume step: "stream_next i a = Some b"
  let ?a = "a\<lparr>api_chans := (api_chans a)[i := (api_chans a ! i)\<lparr>ch_taken := ch_taken (api_chans a ! i) + 1\<rparr>]\<rparr>"
  have "weakens a ?a" by (auto simp: weakens_def queues_of_def chan_open_def nth_update_any)
  with step show ?thesis
    by (auto simp: stream_next_def Let_def end_stream_weakens intro: weakens_trans [OF _ end_stream_weakens] split: if_splits)
qed

lemma complete_call_weakens: "weakens a (complete_call k a)"
  by (cases k) (auto simp: weakens_def queues_of_def chan_close_def chan_open_def nth_update_any)

lemma open_stream_evolves:
  assumes "wf_api a"
  shows "evolves (\<lambda>_. []) a (open_text_stream c a)" "evolves (\<lambda>_. []) a (open_image_stream c a)"
  using assms
  by (auto simp: evolves_def wf_api_def live_def queues_of_def open_text_stream_def open_image_stream_def new_chan_def
      nth_append less_SucI split: if_splits)

text \<open>Only queues and channels matter.\<close>

lemma evolves_other_fields:
  assumes "evolves f a b" "api_chans a' = api_chans a" "api_text_queues a' = api_text_queues a"
    "api_image_queues a' = api_image_queues a"
  shows "evolves f a' b"
proof -
  have "live a' i = live a i" for i using assms(2-4) by (simp add: live_def queues_of_def)
  with assms(1,2) show ?thesis by (simp add: evolves_def)
qed

definition set_queues :: "bool \<Rightarrow> (command_id, nat) dict \<Rightarrow> chan list \<Rightarrow> 'g api \<Rightarrow> 'g api" where
  "set_queues img qs chs a =
     (if img then a\<lparr>api_image_queues := qs, api_chans := chs\<rparr> else a\<lparr>api_text_queues := qs, api_chans := chs\<rparr>)"

lemma set_queues_simps [simp]:
  "api_chans (set_queues img qs chs a) = chs"
  "queues_of img' (set_queues img qs chs a) = (if img' = img then qs else queues_of img' a)"
  by (auto simp: set_queues_def queues_of_def)

lemma offer_evolves:
  assumes "wf_api a" "offer (queues_of img a) c k (api_chans a) = (qs, chs)"
  shows "evolves (\<lambda>i. if live a i \<and> ch_image (api_chans a ! i) = img \<and> ch_command (api_chans a ! i) = c then [k] else [])
    a (set_queues img qs chs a)"
proof (cases "dict_get (queues_of img a) c")
  case None
  then have q: "qs = queues_of img a" "chs = api_chans a" using assms(2) by (auto simp: offer_def)
  then have w: "weakens a (set_queues img qs chs a)" by (simp add: weakens_def)
  have none: "\<not> (live a i \<and> ch_image (api_chans a ! i) = img \<and> ch_command (api_chans a ! i) = c)" for i
    using None by (intro notI, elim conjE, hypsubst) (simp add: live_def)
  show ?thesis
    by (rule evolves_cong [OF weakens_evolves [OF assms(1) w]], rule sym, rule if_not_P, rule none)
next
  case (Some j)
  then have j: "j < length (api_chans a)" "ch_command (api_chans a ! j) = c" "ch_image (api_chans a ! j) = img"
    using assms(1) by (auto simp: wf_api_def)
  have only: "live a i \<and> ch_image (api_chans a ! i) = img \<and> ch_command (api_chans a ! i) = c \<longleftrightarrow> i = j \<and> chan_open (api_chans a ! j)" for i
    using Some j by (auto simp: live_def)
  show ?thesis
  proof (cases "chan_open (api_chans a ! j)")
    case True
    let ?b = "set_queues img qs chs a"
    have q: "qs = queues_of img a" "chs = (api_chans a)[j := (api_chans a ! j)\<lparr>ch_sent := ch_sent (api_chans a ! j) @ [k]\<rparr>]"
      using True assms(2) Some by (auto simp: offer_def)
    have qq: "queues_of img' ?b = queues_of img' a" for img' by (simp add: q)
    have ch: "ch_command (chs ! i) = ch_command (api_chans a ! i)" "ch_image (chs ! i) = ch_image (api_chans a ! i)"
      "ch_sent (chs ! i) = ch_sent (api_chans a ! i) @ (if i = j then [k] else [])"
      "chan_open (chs ! i) = chan_open (api_chans a ! i)" if "i < length (api_chans a)" for i
      using that by (auto simp: q(2) nth_update_any chan_open_def)
    have len: "length chs = length (api_chans a)" by (simp add: q)
    have lv: "live ?b i = live a i" for i
      unfolding live_def using ch [of i] qq len by (cases "i < length (api_chans a)") simp_all
    have "wf_api ?b" unfolding wf_api_def qq
      using assms(1) ch len by (auto simp: wf_api_def)
    with ch len lv True show ?thesis unfolding only by (simp add: evolves_def)
  next
    case False
    then have "qs = dict_del (queues_of img a) c" "chs = api_chans a" using assms(2) Some by (auto simp: offer_def)
    then have "weakens a (set_queues img qs chs a)"
      by (auto simp: weakens_def split: if_splits)
    from weakens_evolves [OF assms(1) this] False show ?thesis unfolding only by (auto elim: evolves_cong)
  qed
qed

lemma offer_text_evolves:
  assumes "wf_api a" "offer_text c k a = (b, Inr u)"
  shows "evolves (\<lambda>i. if live a i \<and> \<not> ch_image (api_chans a ! i) \<and> ch_command (api_chans a ! i) = c then [k] else []) a b"
proof -
  obtain qs chs where o: "offer (api_text_queues a) c k (api_chans a) = (qs, chs)" by fastforce
  have "b = a\<lparr>api_text_queues := qs, api_chans := chs\<rparr>"
    using assms(2) o
    by (auto simp: offer_text_def effect_defs rassert_def offer_def split: if_splits option.splits)
  with offer_evolves [of a False c k qs chs] assms(1) o show ?thesis by (simp add: queues_of_def set_queues_def)
qed

lemma offer_image_evolves:
  assumes "wf_api a" "offer_image c k a = (b, Inr u)"
  shows "evolves (\<lambda>i. if live a i \<and> ch_image (api_chans a ! i) \<and> ch_command (api_chans a ! i) = c then [k] else []) a b"
proof -
  obtain qs chs where o: "offer (api_image_queues a) c k (api_chans a) = (qs, chs)" by fastforce
  have "b = a\<lparr>api_image_queues := qs, api_chans := chs\<rparr>"
    using assms(2) o
    by (auto simp: offer_image_def effect_defs rassert_def offer_def split: if_splits option.splits)
  with offer_evolves [of a True c k qs chs] assms(1) o show ?thesis by (simp add: queues_of_def set_queues_def)
qed

lemma offer_image_keeps_text:
  assumes "wf_api a" "offer_image c k a = (b, Inr u)" "i < length (api_chans a)" "\<not> ch_image (api_chans a ! i)"
  shows "live b i = live a i"
proof -
  obtain qs chs where o: "offer (api_image_queues a) c k (api_chans a) = (qs, chs)" by fastforce
  have b: "b = a\<lparr>api_image_queues := qs, api_chans := chs\<rparr>"
    using assms(2) o by (auto simp: offer_image_def effect_defs rassert_def offer_def split: if_splits option.splits)
  have "j \<noteq> i" if "dict_get (api_image_queues a) c = Some j" for j
    using assms(1,4) that by (auto simp: wf_api_def queues_of_def dest!: spec [of _ True])
  then have "chs ! i = api_chans a ! i" "length chs = length (api_chans a)"
    using o assms(3) by (auto simp: offer_def nth_update_any split: option.splits if_splits)
  with assms(3,4) show ?thesis by (simp add: b live_def queues_of_def)
qed

lemma offer_chunk_evolves:
  assumes "wf_api a" "sseq [offer_image c k, offer_text c k] a = (b, Inr u)"
  shows "evolves (\<lambda>i. if live a i \<and> ch_command (api_chans a ! i) = c then [k] else []) a b"
proof -
  obtain a1 r where r: "offer_image c k a = (a1, r)" by fastforce
  with assms(2) have a1: "offer_image c k a = (a1, Inr ())" "offer_text c k a1 = (b, Inr u)"
    by (auto simp: sbind_def ret_def split: prod.splits sum.splits)
  note e1 = offer_image_evolves [OF assms(1) a1(1)]
  then have wf1: "wf_api a1" by (simp add: evolves_def)
  have same_live: "live a1 i \<longleftrightarrow> live a i" if "i < length (api_chans a)" "\<not> ch_image (api_chans a ! i)" for i
    by (rule offer_image_keeps_text [OF assms(1) a1(1) that])
  have same: "ch_image (api_chans a1 ! i) = ch_image (api_chans a ! i)" "ch_command (api_chans a1 ! i) = ch_command (api_chans a ! i)"
    if "i < length (api_chans a)" for i using e1 that by (auto simp: evolves_def)
  have "(if live a i \<and> ch_image (api_chans a ! i) \<and> ch_command (api_chans a ! i) = c then [k] else []) @
      (if live a1 i \<and> \<not> ch_image (api_chans a1 ! i) \<and> ch_command (api_chans a1 ! i) = c then [k] else []) =
      (if live a i \<and> ch_command (api_chans a ! i) = c then [k] else [])" if "i < length (api_chans a)" for i
    using same [OF that] same_live [OF that] by (cases "ch_image (api_chans a ! i)") simp_all
  then show ?thesis by (rule evolves_cong [OF evolves_trans [OF e1 offer_text_evolves [OF wf1 a1(2)]]])
qed

lemma api_apply_evolves:
  assumes "wf_api a" "api_apply rx ser e a = (b, Inr u)"
  shows "evolves (\<lambda>i. if live a i then label_chunks (ch_command (api_chans a ! i)) (ApiEvent e) else []) a b"
proof -
  obtain l s where ls: "(case event_body (ie_event e) of
        ChunkGenerated c k \<Rightarrow> sseq [offer_image c k, offer_text c k]
      | InstanceDeleted iid \<Rightarrow> upd (close_streams_for_instance iid) | _ \<Rightarrow> ret ())
      (a\<lparr>api_event_log := l, api_state := s\<rparr>) = (b, Inr u)"
    using assms(2) unfolding api_apply_def
    by (auto simp: effect_defs split: prod.splits sum.splits)
  let ?a = "a\<lparr>api_event_log := l, api_state := s\<rparr>"
  have q: "queues_of img ?a = queues_of img a" for img by (simp add: queues_of_def)
  have wf: "wf_api ?a" using assms(1) by (simp add: wf_api_def q)
  have lv: "live ?a i = live a i" for i by (simp add: live_def queues_of_def)
  have none: "evolves (\<lambda>_. []) ?a b" if "\<And>c k. event_body (ie_event e) \<noteq> ChunkGenerated c k"
    using ls wf that
    by (cases "event_body (ie_event e)")
      (auto simp: ret_def upd_def intro!: weakens_evolves close_streams_for_instance_weakens weakens_refl)
  have "evolves (\<lambda>i. if live a i then label_chunks (ch_command (api_chans a ! i)) (ApiEvent e) else []) ?a b"
  proof (cases "event_body (ie_event e)")
    case (ChunkGenerated c k)
    with ls have "sseq [offer_image c k, offer_text c k] ?a = (b, Inr u)" by simp
    from offer_chunk_evolves [OF wf this] show ?thesis
      by (rule evolves_cong) (auto simp: ChunkGenerated lv)
  qed (rule evolves_cong [OF none]; simp)+
  then show ?thesis by (rule evolves_other_fields) simp_all
qed

lemma api_next_evolves:
  assumes "wf_api a" "api_next rx ser l a = Some b"
  shows "evolves (\<lambda>i. if live a i then label_chunks (ch_command (api_chans a ! i)) l else []) a b"
proof -
  have quiet: "evolves (\<lambda>i. if live a i then label_chunks (ch_command (api_chans a ! i)) l else []) a b"
    if "evolves (\<lambda>_. []) a b" "\<And>c. label_chunks c l = []"
    by (rule evolves_cong [OF that(1)]) (simp add: that(2))
  note weak = quiet [OF weakens_evolves [OF assms(1)]]
  show ?thesis
  proof (cases l)
    case (ApiEvent e)
    then obtain u where "api_apply rx ser e a = (b, Inr u)"
      using assms(2) by (auto split: prod.splits sum.splits)
    from api_apply_evolves [OF assms(1) this] show ?thesis unfolding ApiEvent .
  next
    case l: (ApiOpenText c)
    with assms(2) have "b = open_text_stream c a \<or> b = open_image_stream c a" by auto
    then show ?thesis using open_stream_evolves [OF assms(1)] by (intro quiet) (auto simp: l)
  next
    case l: (ApiOpenImage c)
    with assms(2) have "b = open_text_stream c a \<or> b = open_image_stream c a" by auto
    then show ?thesis using open_stream_evolves [OF assms(1)] by (intro quiet) (auto simp: l)
  next
    case (ApiNext i)
    with assms show ?thesis by (intro weak) (auto intro: stream_next_weakens)
  next
    case (ApiImageEnd i)
    with assms show ?thesis by (intro weak) (auto simp: image_stream_end_def end_stream_weakens split: if_splits)
  next
    case (ApiDisconnect i)
    have "weakens c (c\<lparr>api_commands := x\<rparr>)" for c :: "'a api" and x by (simp add: weakens_def queues_of_def)
    with ApiDisconnect assms show ?thesis
      by (intro weak) (auto simp: stream_disconnect_def Let_def split: if_splits intro: weakens_trans [OF end_stream_weakens])
  next
    case (ApiProceed k)
    have "weakens c (c\<lparr>api_waiting := x\<rparr>)" for c :: "'a api" and x by (simp add: weakens_def queues_of_def)
    with ApiProceed assms show ?thesis
      by (intro weak) (auto simp: api_proceed_def split: if_splits intro: weakens_trans [OF _ complete_call_weakens])
  qed (use assms in \<open>intro weak; auto simp: weakens_def queues_of_def cancel_command_def pause_on_new_election_def api_unpause_def
      api_reset_def split: option.splits if_splits\<close>)+
qed

section \<open>Properties\<close>

lemma mk_api_wf: "wf_api (mk_api rx)"
  by (simp add: wf_api_def mk_api_def queues_of_def)

lemma chunks_for_Cons: "chunks_for c (l # ls) = label_chunks c l @ chunks_for c ls"
  by (simp add: chunks_for_def)

lemma dead_run:
  "api_run rx ser a ls b \<Longrightarrow> wf_api a \<Longrightarrow> i < length (api_chans a) \<Longrightarrow> \<not> live a i \<Longrightarrow>
   \<not> live b i \<and> ch_sent (api_chans b ! i) = ch_sent (api_chans a ! i)"
proof (induction rule: api_run.induct)
  case (run_cons l a b ls c)
  from api_next_evolves [OF run_cons.prems(1) run_cons.hyps(1)] run_cons.prems
  have "wf_api b" "i < length (api_chans b)" "\<not> live b i" "ch_sent (api_chans b ! i) = ch_sent (api_chans a ! i)"
    by (auto simp: evolves_def)
  with run_cons.IH show ?case by simp
qed simp

lemma live_run:
  "api_run rx ser a ls b \<Longrightarrow> wf_api a \<Longrightarrow> live a i \<Longrightarrow>
   \<exists>n. ch_sent (api_chans b ! i) = ch_sent (api_chans a ! i) @ take n (chunks_for (ch_command (api_chans a ! i)) ls) \<and>
     (live b i \<longrightarrow> length (chunks_for (ch_command (api_chans a ! i)) ls) \<le> n)"
proof (induction rule: api_run.induct)
  case (run_nil a)
  then show ?case by (intro exI [of _ 0]) (simp add: chunks_for_def)
next
  case (run_cons l a b ls c)
  let ?c = "ch_command (api_chans a ! i)"
  have i: "i < length (api_chans a)" using run_cons.prems(2) by (simp add: live_def)
  from api_next_evolves [OF run_cons.prems(1) run_cons.hyps(1)] run_cons.prems i
  have b: "wf_api b" "i < length (api_chans b)" "ch_sent (api_chans b ! i) = ch_sent (api_chans a ! i) @ label_chunks ?c l"
    "ch_command (api_chans b ! i) = ?c" by (auto simp: evolves_def)
  show ?case
  proof (cases "live b i")
    case True
    from run_cons.IH [OF b(1) True] b(3,4) obtain n where
      n: "ch_sent (api_chans c ! i) = ch_sent (api_chans a ! i) @ label_chunks ?c l @ take n (chunks_for ?c ls)"
      "live c i \<longrightarrow> length (chunks_for ?c ls) \<le> n" by auto
    then show ?thesis
      by (intro exI [of _ "length (label_chunks ?c l) + n"]) (simp add: chunks_for_Cons)
  next
    case False
    from dead_run [OF run_cons.hyps(2) b(1,2) False] b(3) show ?thesis
      by (intro exI [of _ "length (label_chunks ?c l)"]) (simp add: chunks_for_Cons)
  qed
qed

lemma api_run_wf: "api_run rx ser a ls b \<Longrightarrow> wf_api a \<Longrightarrow> wf_api b"
proof (induction rule: api_run.induct)
  case (run_cons l a b ls c)
  with api_next_evolves [OF run_cons.prems run_cons.hyps(1)] show ?case by (simp add: evolves_def)
qed

text \<open>
  C33: a request for generated text gets the chunks of its command, and only those, in the order of
  the events. Whatever else the API does after the request registered its stream (other requests,
  cancellations, disconnects, elections, resets), what was sent to the stream is an initial part of
  the command's chunks among the events applied since, and all of them while the stream is live.
\<close>

theorem stream_gets_commands_chunks:
  assumes "api_run rx ser (mk_api rx) ls0 a" "api_run rx ser (open_text_stream c a) ls b"
  shows "\<exists>n. ch_sent (api_chans b ! length (api_chans a)) = take n (chunks_for c ls) \<and>
    (live b (length (api_chans a)) \<longrightarrow> ch_sent (api_chans b ! length (api_chans a)) = chunks_for c ls)"
proof -
  let ?i = "length (api_chans a)" let ?a = "open_text_stream c a"
  have wf: "wf_api ?a"
    using open_stream_evolves(1) [OF api_run_wf [OF assms(1) mk_api_wf]] by (simp add: evolves_def)
  have new: "live ?a ?i" "ch_sent (api_chans ?a ! ?i) = []" "ch_command (api_chans ?a ! ?i) = c"
    by (simp_all add: live_def open_text_stream_def new_chan_def chan_open_def queues_of_def)
  from live_run [OF assms(2) wf new(1)] new(2,3) show ?thesis by auto
qed

text \<open>A channel that no queue and no waiting cancellation names.\<close>

definition orphan :: "nat \<Rightarrow> chan \<Rightarrow> 'g api \<Rightarrow> bool" where
  "orphan i ch a \<longleftrightarrow> i < length (api_chans a) \<and> api_chans a ! i = ch \<and>
     (\<forall>c. dict_get (api_text_queues a) c \<noteq> Some i) \<and> (\<forall>c. dict_get (api_image_queues a) c \<noteq> Some i) \<and>
     (\<forall>c. CancelCall c i \<notin> set (api_waiting a))"

lemma offer_keeps_orphan: "keeps (orphan i ch) (offer_text c k)" "keeps (orphan i ch) (offer_image c k)"
  unfolding offer_text_def offer_image_def
  by (intro keeps_intros; auto intro!: keeps_intros simp: orphan_def offer_def nth_update_any Let_def split: option.splits)+

lemma close_streams_of_orphan: "orphan i ch a \<Longrightarrow> orphan i ch (close_streams_of c a)"
  by (auto simp: orphan_def close_streams_of_def pop_close_def nth_update_any Let_def split: option.splits)

lemma close_streams_for_instance_orphan: "orphan i ch a \<Longrightarrow> orphan i ch (close_streams_for_instance iid a)"
  unfolding close_streams_for_instance_def
  by (rule foldl_invariant [where P = "orphan i ch"]) (auto split: option.splits intro: close_streams_of_orphan)

lemma api_apply_keeps_orphan: "keeps (orphan i ch) (api_apply rx ser e)"
proof -
  have "keeps (orphan i ch) (case event_body (ie_event e) of
      ChunkGenerated c k \<Rightarrow> sseq [offer_image c k, offer_text c k]
    | InstanceDeleted iid \<Rightarrow> upd (close_streams_for_instance iid) | _ \<Rightarrow> ret ())"
    by (cases "event_body (ie_event e)")
      (auto intro!: keeps_intros offer_keeps_orphan close_streams_for_instance_orphan)
  then show ?thesis unfolding api_apply_def
    by (intro keeps_sseq) (auto intro!: keeps_intros simp: orphan_def)
qed

lemma stream_next_orphan:
  assumes "orphan i ch a" "stream_next j a = Some b" "stream_next i a = None" shows "orphan i ch b"
proof -
  have "j \<noteq> i" using assms(2,3) by auto
  with assms(1,2) show ?thesis
    by (auto simp: orphan_def stream_next_def end_stream_def nth_update_any Let_def split: if_splits)
qed

lemma orphan_next:
  assumes "orphan i ch a" "api_next rx ser l a = Some b" "l \<noteq> ApiDisconnect i" "\<not> ch_image ch" "stream_next i a = None"
  shows "orphan i ch b"
proof (cases l)
  case (ApiEvent e)
  with assms(2) obtain u where "api_apply rx ser e a = (b, Inr u)" by (auto split: prod.splits sum.splits)
  with keepsD [OF api_apply_keeps_orphan assms(1), of rx ser e] show ?thesis by simp
next
  case (ApiNext j)
  with assms stream_next_orphan show ?thesis by simp
next
  case (ApiProceed k)
  obtain q where q: "q \<in> set (api_waiting a)" "b = complete_call q
      (a\<lparr>api_waiting := take k (api_waiting a) @ drop (Suc k) (api_waiting a)\<rparr>)"
    using assms(2) ApiProceed nth_mem by (fastforce simp: api_proceed_def split: if_splits)
  have sub: "CancelCall c i \<notin> set (take k (api_waiting a) @ drop (Suc k) (api_waiting a))" for c
    using assms(1) by (auto simp: orphan_def dest: in_set_takeD in_set_dropD)
  let ?a = "a\<lparr>api_waiting := take k (api_waiting a) @ drop (Suc k) (api_waiting a)\<rparr>"
  have "orphan i ch ?a" using assms(1) sub by (simp add: orphan_def)
  then have "orphan i ch (complete_call q ?a)"
    using q(1) assms(1) by (cases q) (auto simp: orphan_def nth_update_any)
  with q(2) show ?thesis by simp
qed (use assms in \<open>auto simp: orphan_def open_text_stream_def open_image_stream_def image_stream_end_def
    stream_disconnect_def end_stream_def cancel_command_def pause_on_new_election_def api_unpause_def
    api_reset_def nth_append nth_update_any Let_def split: option.splits if_splits\<close>)

lemma orphan_run:
  "api_run rx ser a ls b \<Longrightarrow> orphan i ch a \<Longrightarrow> ApiDisconnect i \<notin> set ls \<Longrightarrow> \<not> ch_image ch \<Longrightarrow>
   ch_sender_open ch \<Longrightarrow> ch_taken ch = length (ch_sent ch) \<Longrightarrow> orphan i ch b"
proof (induction rule: api_run.induct)
  case (run_cons l a b ls c)
  then have "stream_next i a = None" by (auto simp: stream_next_def orphan_def Let_def)
  with run_cons orphan_next show ?case by (metis list.set_intros(1,2))
qed simp

text \<open>
  A reset orphans the requests that wait. When the node follows a new master, the API forgets its
  queues without closing them: a text stream that has taken all it was sent and whose sender is open
  is never sent anything again and never ends, whatever happens afterwards, unless its client
  disconnects.
\<close>

theorem reset_orphans_streams:
  assumes "i < length (api_chans a)" "\<not> ch_image (api_chans a ! i)" "ch_sender_open (api_chans a ! i)"
    and "ch_taken (api_chans a ! i) = length (ch_sent (api_chans a ! i))" "\<forall>c. CancelCall c i \<notin> set (api_waiting a)"
    and "api_run rx ser (api_reset rx clock a) ls b" "ApiDisconnect i \<notin> set ls"
  shows "api_chans b ! i = api_chans a ! i \<and> stream_next i b = None"
proof -
  have "orphan i (api_chans a ! i) (api_reset rx clock a)"
    using assms(1,5) by (simp add: orphan_def api_reset_def api_unpause_def)
  from orphan_run [OF assms(6) this assms(7,2-4)] have o: "orphan i (api_chans a ! i) b" .
  then have "api_chans b ! i = api_chans a ! i" by (simp add: orphan_def)
  with assms(2-4) show ?thesis by (simp add: stream_next_def Let_def)
qed

text \<open>A run that registers a text stream, is sent one chunk of the command and one of another.\<close>

definition demo_token :: "string \<Rightarrow> finish_reason option \<Rightarrow> chunk" where
  "demo_token x f = TokenChunk \<lparr>tk_model = ''m'', tk_text = x, tk_token_id = 0, tk_usage = None, tk_finish_reason = f,
     tk_stats = None, tk_logprob = None, tk_top_logprobs = None, tk_is_thinking = False\<rparr>"

definition demo_chunk_event :: "int \<Rightarrow> command_id \<Rightarrow> chunk \<Rightarrow> indexed_event" where
  "demo_chunk_event i c k = \<lparr>ie_idx = i, ie_event = \<lparr>event_id = ''e'', event_body = ChunkGenerated c k\<rparr>\<rparr>"

lemma run_next: "api_run rx ser a ls b \<Longrightarrow> api_next rx ser l b = Some c \<Longrightarrow> api_run rx ser a (ls @ [l]) c"
  by (induction rule: api_run.induct) (auto intro: api_run.intros)

lemma api_apply_body:
  assumes "log_append ser (ie_event e) (api_event_log a) = Inr l" "apply_event rx (api_state a) e = Inr s"
  shows "api_apply rx ser e a =
    (case event_body (ie_event e) of
       ChunkGenerated c k \<Rightarrow> sseq [offer_image c k, offer_text c k]
     | InstanceDeleted iid \<Rightarrow> upd (close_streams_for_instance iid)
     | _ \<Rightarrow> ret ()) (a\<lparr>api_event_log := l, api_state := s\<rparr>)"
proof -
  have two: "sseq [m1, m2, m3] b = sbind m1 (\<lambda>_. sbind m2 (\<lambda>_. m3)) b" for m1 m2 m3 :: "('a api, unit) action" and b
    by (simp add: sbind_def ret_def split: prod.splits sum.splits)
  show ?thesis unfolding api_apply_def two
    using assms by (simp add: with_state_def sbind_def lift_result_def upd_def)
qed

lemma log_append_ok: "length (ser e) < 256 ^ 4 \<Longrightarrow> \<exists>l'. log_append ser e l = Inr l'"
  by (simp add: log_append_def to_bytes4_def)

lemma apply_chunk_event:
  "event_body (ie_event e) = ChunkGenerated c k \<Longrightarrow> ie_idx e = last_event_applied_idx s + 1 \<Longrightarrow>
   \<exists>s'. apply_event rx s e = Inr s'"
  by (simp add: apply_event_def)

text \<open>
  A runner that fails during an image request takes the API down. The supervisor sends an error
  chunk to every command in progress, image commands included; the API accepts nothing but image
  chunks for a command with an image queue, so the task that applies the events raises.
\<close>

theorem image_failure_kills_api:
  assumes "rc \<noteq> Some 0" "t \<in> set (dict_values (sv_in_progress s))" "task_body t = ImageGeneration c ps"
    and "dict_mem c (api_image_queues a)"
  shows "\<exists>k. ChunkGenerated c k \<in> set (sv_events (check_runner ss ex rc s)) \<and>
    (length (ser \<lparr>event_id = eid, event_body = ChunkGenerated c k\<rparr>) < 256 ^ 4 \<longrightarrow>
     snd (api_apply rx ser \<lparr>ie_idx = last_event_applied_idx (api_state a) + 1,
         ie_event = \<lparr>event_id = eid, event_body = ChunkGenerated c k\<rparr>\<rparr> a) =
       Inl (AssertionError ''isinstance(event.chunk, ImageChunk)''))"
proof -
  let ?ev = "\<lambda>ds cause. error_chunk_event (s\<lparr>sv_watch_cancelled := True\<rparr>) ds cause t"
  obtain ds cause where sub: "set (List.map_filter (error_chunk_event (s\<lparr>sv_watch_cancelled := True\<rparr>) ds cause) (dict_values (sv_in_progress s)))
      \<subseteq> set (sv_events (check_runner ss ex rc s))"
    using assms(1) by (auto simp: check_runner_def Let_def)
  obtain m msg where "?ev ds cause = Some (ChunkGenerated c (ErrorChunk m msg ds))"
    using assms(3) by (simp add: error_chunk_event_def)
  then have mem: "ChunkGenerated c (ErrorChunk m msg ds) \<in> set (sv_events (check_runner ss ex rc s))"
    using sub assms(2) by (force simp: List.map_filter_def image_iff)
  let ?k = "ErrorChunk m msg ds"
  let ?e = "\<lparr>ie_idx = last_event_applied_idx (api_state a) + 1, ie_event = \<lparr>event_id = eid, event_body = ChunkGenerated c ?k\<rparr>\<rparr>"
  have "snd (api_apply rx ser ?e a) = Inl (AssertionError ''isinstance(event.chunk, ImageChunk)'')"
    if "length (ser (ie_event ?e)) < 256 ^ 4"
  proof -
    from log_append_ok [of ser "ie_event ?e", OF that] obtain l
      where l: "log_append ser (ie_event ?e) (api_event_log a) = Inr l" by blast
    obtain s' where s': "apply_event rx (api_state a) ?e = Inr s'" using apply_chunk_event [of ?e] by fastforce
    from assms(4) show ?thesis
      by (simp add: api_apply_body [OF l s'] offer_image_def effect_defs)
  qed
  with mem show ?thesis by auto
qed

definition demo_image_task :: task where
  "demo_image_task = mk_task ''t'' ''i'' (ImageGeneration ''c'' \<lparr>ig_prompt = ''p'', ig_background = None, ig_model = ''m'',
     ig_moderation = None, ig_n = None, ig_output_compression = None, ig_output_format = ''png'', ig_partial_images = None,
     ig_quality = None, ig_response_format = None, ig_size = ''auto'', ig_stream = None, ig_style = None, ig_user = None,
     ig_advanced_params = None, ig_bench = False\<rparr>)"

theorem image_failure_kills_api_witness:
  "\<exists>k. ChunkGenerated ''c'' k \<in> set (sv_events (check_runner (\<lambda>_. Inr None) NoCause (Some (- 9))
       (start_task False demo_image_task (du_supervisor demo_duo0)))) \<and>
     snd (api_apply ref_env (\<lambda>_. []) \<lparr>ie_idx = 0, ie_event = \<lparr>event_id = ''e'', event_body = ChunkGenerated ''c'' k\<rparr>\<rparr>
       (open_image_stream ''c'' (mk_api ref_env))) = Inl (AssertionError ''isinstance(event.chunk, ImageChunk)'')"
proof -
  let ?s = "start_task False demo_image_task (du_supervisor demo_duo0)"
  have mem: "demo_image_task \<in> set (dict_values (sv_in_progress ?s))" by code_simp
  have idx: "last_event_applied_idx (api_state (open_image_stream ''c'' (mk_api ref_env))) + 1 = 0"
    by (simp add: open_image_stream_def mk_api_def init_state_def)
  have rc: "Some (- 9 :: int) \<noteq> Some 0" by simp
  have q: "dict_mem ''c'' (api_image_queues (open_image_stream ''c'' (mk_api ref_env)))"
    by (simp add: open_image_stream_def mk_api_def)
  have "task_body demo_image_task = ImageGeneration ''c'' (case task_body demo_image_task of ImageGeneration _ p \<Rightarrow> p)"
    by (simp add: demo_image_task_def mk_task_def)
  from image_failure_kills_api [OF rc mem this q, of "\<lambda>_. Inr None" NoCause "\<lambda>_. []" "''e''" ref_env]
  show ?thesis unfolding idx by auto
qed

definition demo_stream :: "ref_graph api" where
  "demo_stream = open_text_stream ''c'' (mk_api ref_env)"

lemma demo_stream_step:
  "\<exists>b. api_next ref_env (\<lambda>_. []) (ApiEvent (demo_chunk_event 0 ''c'' (demo_token ''x'' None))) demo_stream = Some b \<and> live b 0"
proof -
  let ?e = "demo_chunk_event 0 ''c'' (demo_token ''x'' None)"
  obtain l where l: "log_append (\<lambda>_. []) (ie_event ?e) (api_event_log demo_stream) = Inr l"
    using log_append_ok [of "\<lambda>_. []" "ie_event ?e"] by auto
  obtain s where s: "apply_event ref_env (api_state demo_stream) ?e = Inr s"
    using apply_chunk_event [of ?e "''c''" "demo_token ''x'' None" "api_state demo_stream" ref_env]
    by (auto simp: demo_chunk_event_def demo_stream_def open_text_stream_def mk_api_def init_state_def)
  show ?thesis
    by (simp add: api_apply_body [OF l s], simp add: demo_chunk_event_def demo_token_def offer_image_def offer_text_def effect_defs
        demo_stream_def open_text_stream_def mk_api_def offer_def new_chan_def chan_open_def live_def queues_of_def)
qed

theorem stream_gets_commands_chunks_witness:
  "\<exists>b. api_run ref_env (\<lambda>_. []) demo_stream [ApiEvent (demo_chunk_event 0 ''c'' (demo_token ''x'' None))] b \<and>
     ch_sent (api_chans b ! 0) = [demo_token ''x'' None]"
proof -
  obtain b where b: "api_next ref_env (\<lambda>_. []) (ApiEvent (demo_chunk_event 0 ''c'' (demo_token ''x'' None))) demo_stream = Some b" "live b 0"
    using demo_stream_step by blast
  have run: "api_run ref_env (\<lambda>_. []) demo_stream [ApiEvent (demo_chunk_event 0 ''c'' (demo_token ''x'' None))] b"
    by (rule run_cons [OF b(1) run_nil])
  have len: "length (api_chans (mk_api ref_env)) = 0" by (simp add: mk_api_def)
  from stream_gets_commands_chunks [OF run_nil run [unfolded demo_stream_def], unfolded len] b(2) run show ?thesis
    by (auto simp: chunks_for_def demo_chunk_event_def)
qed

theorem reset_orphans_streams_witness:
  "\<exists>b. api_run ref_env (\<lambda>_. []) (api_reset ref_env 1 demo_stream) [ApiOpenText ''c'', ApiElection 2] b \<and> stream_next 0 b = None"
proof -
  let ?b = "pause_on_new_election 2 (open_text_stream ''c'' (api_reset ref_env 1 demo_stream))"
  have run: "api_run ref_env (\<lambda>_. []) (api_reset ref_env 1 demo_stream) [ApiOpenText ''c'', ApiElection 2] ?b"
    by (rule run_cons [rotated], rule run_cons [OF _ run_nil]) simp_all
  have "0 < length (api_chans demo_stream)" "\<not> ch_image (api_chans demo_stream ! 0)" "ch_sender_open (api_chans demo_stream ! 0)"
    "ch_taken (api_chans demo_stream ! 0) = length (ch_sent (api_chans demo_stream ! 0))"
    "\<forall>c. CancelCall c 0 \<notin> set (api_waiting demo_stream)"
    by (simp_all add: demo_stream_def open_text_stream_def mk_api_def new_chan_def)
  from reset_orphans_streams [OF this run] run show ?thesis by auto
qed

end
