(* ===== verification/Download_Progress.thy ===== *)
theory Download_Progress
  imports Shared_Types
begin

text \<open>
  The progress of a repository download: \<^verbatim>\<open>src/exo/shared/types/worker/downloads.py\<close> and the functions
  of \<^verbatim>\<open>src/exo/download/download_utils.py\<close> that compute it. A \<^verbatim>\<open>timedelta\<close> is its number of
  microseconds; \<^verbatim>\<open>timedelta(seconds=x)\<close> keeps the whole seconds exactly, rounds the rest to the nearest
  microsecond and raises beyond 999999999 days. The clock is an argument.
\<close>

datatype repo_status = NotStarted | InProgress | RepoComplete

record repo_file_progress =
  rf_repo_id :: string
  rf_revision :: string
  rf_file_path :: string
  rf_downloaded :: memory
  rf_downloaded_this_session :: memory
  rf_total :: memory
  rf_speed :: pyfloat
  rf_eta :: int
  rf_status :: repo_status
  rf_start_time :: pyfloat

record repo_progress =
  rp_repo_id :: string
  rp_revision :: string
  rp_shard :: shard_metadata
  rp_completed_files :: int
  rp_total_files :: int
  rp_downloaded :: memory
  rp_downloaded_this_session :: memory
  rp_total :: memory
  rp_speed :: pyfloat
  rp_eta :: int
  rp_status :: repo_status
  rp_file_progress :: "(string, repo_file_progress) dict"

definition timedelta_seconds :: "pyfloat \<Rightarrow> int result" where
  "timedelta_seconds x =
     (let whole = py_trunc x; us = whole * 1000000 + round_half_even (fl (fl (x - of_int whole) * 1000000))
      in if \<bar>us div 86400000000\<bar> > 999999999 then Inl OverflowError else Inr us)"

text \<open>\<^verbatim>\<open>int(eta.total_seconds() * 1000)\<close>.\<close>

definition eta_ms :: "int \<Rightarrow> int" where
  "eta_ms us = py_trunc (fl (fl (of_int us / 1000000) * 1000))"

definition map_repo_file_progress :: "repo_file_progress \<Rightarrow> download_progress_data" where
  "map_repo_file_progress p =
     DownloadProgressData (rf_total p) (rf_downloaded p) (rf_downloaded_this_session p)
       (if rf_status p = RepoComplete then 1 else 0) 1 (rf_speed p) (eta_ms (rf_eta p)) []"

definition map_repo_progress :: "repo_progress \<Rightarrow> download_progress_data" where
  "map_repo_progress p =
     DownloadProgressData (rp_total p) (rp_downloaded p) (rp_downloaded_this_session p)
       (rp_completed_files p) (rp_total_files p) (rp_speed p) (eta_ms (rp_eta p))
       (map (\<lambda>(path, f). (path, map_repo_file_progress f)) (rp_file_progress p))"

definition calculate_repo_progress ::
  "shard_metadata \<Rightarrow> model_id \<Rightarrow> string \<Rightarrow> (string, repo_file_progress) dict \<Rightarrow> pyfloat \<Rightarrow> pyfloat \<Rightarrow> repo_progress result" where
  "calculate_repo_progress shard mid rv fps all_start now =
     (let ps = dict_values fps;
          tot = sum_list (map rf_total ps);
          downloaded = sum_list (map rf_downloaded ps);
          session = sum_list (map rf_downloaded_this_session ps);
          elapsed = fl (now - all_start);
          speed = (if elapsed > 0 then fl (fl (of_int (in_bytes session)) / elapsed) else 0)
      in rbind (if speed > 0 then timedelta_seconds (fl (fl (of_int (in_bytes (mem_sub tot downloaded))) / speed)) else Inr 0) (\<lambda>eta.
         Inr \<lparr>rp_repo_id = mid, rp_revision = rv, rp_shard = shard,
              rp_completed_files = int (length (filter (\<lambda>p. rf_downloaded p = rf_total p) ps)),
              rp_total_files = int (length fps), rp_downloaded = downloaded, rp_downloaded_this_session = session,
              rp_total = tot, rp_speed = speed, rp_eta = eta,
              rp_status = (if list_all (\<lambda>p. rf_status p = RepoComplete) ps then RepoComplete
                           else if list_ex (\<lambda>p. rf_status p = InProgress) ps then InProgress else NotStarted),
              rp_file_progress = fps\<rparr>))"

section \<open>One file\<close>

text \<open>The entry every file starts with: the bytes found on disk do not count for this session.\<close>

definition initial_file_progress ::
  "model_id \<Rightarrow> string \<Rightarrow> string \<Rightarrow> int \<Rightarrow> int option \<Rightarrow> bool \<Rightarrow> pyfloat \<Rightarrow> repo_file_progress" where
  "initial_file_progress mid rv path on_disk sz final_exists now =
     \<lparr>rf_repo_id = mid, rf_revision = rv, rf_file_path = path, rf_downloaded = Memory on_disk,
      rf_downloaded_this_session = Memory 0, rf_total = Memory (case sz of None \<Rightarrow> 0 | Some n \<Rightarrow> n), rf_speed = 0, rf_eta = 0,
      rf_status = (if final_exists \<and> sz = Some on_disk then RepoComplete else NotStarted), rf_start_time = now\<rparr>"

text \<open>
  The file part of \<^verbatim>\<open>on_progress_wrapper\<close>. \<open>now\<close> is the clock when the entry is reset, \<open>now1\<close> and \<open>now2\<close> the
  readings in the condition and in the divisor of the speed.
\<close>

definition on_file_progress ::
  "model_id \<Rightarrow> string \<Rightarrow> string \<Rightarrow> int \<Rightarrow> int \<Rightarrow> bool \<Rightarrow> pyfloat \<Rightarrow> pyfloat \<Rightarrow> pyfloat \<Rightarrow>
   (string, repo_file_progress) dict \<Rightarrow> (string, repo_file_progress) dict result" where
  "on_file_progress mid rv path cur tot renamed now now1 now2 fps =
     (let (start, session) =
            (case dict_get fps path of
               None \<Rightarrow> (now, cur)
             | Some prev \<Rightarrow>
                 if cur < in_bytes (rf_downloaded prev) then (now, cur)
                 else (rf_start_time prev,
                       in_bytes (rf_downloaded_this_session prev) + (cur - in_bytes (rf_downloaded prev))));
          elapsed = fl (now2 - start)
      in rbind (if fl (now1 - start) > 0
                then if elapsed = 0 then Inl ZeroDivisionError else Inr (fl (fl (of_int session) / elapsed))
                else Inr 0) (\<lambda>speed.
         rbind (if speed > 0 then timedelta_seconds (fl (fl (of_int (tot - cur)) / speed)) else Inr 0) (\<lambda>eta.
         Inr (dict_set fps path
           \<lparr>rf_repo_id = mid, rf_revision = rv, rf_file_path = path, rf_downloaded = Memory cur,
            rf_downloaded_this_session = Memory session, rf_total = Memory tot, rf_speed = speed, rf_eta = eta,
            rf_status = (if cur = tot \<and> renamed then RepoComplete else InProgress), rf_start_time = start\<rparr>))))"

section \<open>Accounting\<close>

text \<open>
  \<open>disk\<close> is what was found on disk for a path when the download started. A file that is downloaded again
  from the start counts in full.
\<close>

definition file_ok :: "(string \<Rightarrow> int) \<Rightarrow> string \<Rightarrow> repo_file_progress \<Rightarrow> bool" where
  "file_ok disk path p \<longleftrightarrow>
     in_bytes (rf_downloaded_this_session p) \<in> {in_bytes (rf_downloaded p) - disk path, in_bytes (rf_downloaded p)} \<and>
     (rf_status p = RepoComplete \<longrightarrow> rf_downloaded p = rf_total p)"

definition files_ok :: "(string \<Rightarrow> int) \<Rightarrow> (string, repo_file_progress) dict \<Rightarrow> bool" where
  "files_ok disk fps \<longleftrightarrow> list_all (\<lambda>(path, p). file_ok disk path p) fps"

lemma files_ok_set: "files_ok disk fps \<Longrightarrow> file_ok disk path p \<Longrightarrow> files_ok disk (dict_set fps path p)"
  by (induction fps) (auto simp: files_ok_def)

lemma files_ok_get: "files_ok disk fps \<Longrightarrow> dict_get fps path = Some p \<Longrightarrow> file_ok disk path p"
  by (auto simp: files_ok_def list_all_iff dest: map_of_SomeD)

lemma initial_file_ok: "file_ok disk path (initial_file_progress mid rv path (disk path) sz ex now)"
  by (cases sz) (auto simp: file_ok_def initial_file_progress_def)

lemma on_file_progress_ok:
  assumes "files_ok disk fps" "on_file_progress mid rv path cur tot renamed now now1 now2 fps = Inr fps'"
  shows "files_ok disk fps'"
proof -
  obtain p where p: "fps' = dict_set fps path p" "in_bytes (rf_downloaded p) = cur"
    "rf_status p = RepoComplete \<longrightarrow> rf_downloaded p = rf_total p"
    "in_bytes (rf_downloaded_this_session p) =
      (case dict_get fps path of None \<Rightarrow> cur
       | Some q \<Rightarrow> if cur < in_bytes (rf_downloaded q) then cur
                   else in_bytes (rf_downloaded_this_session q) + (cur - in_bytes (rf_downloaded q)))"
    using assms(2) by (auto simp: on_file_progress_def Let_def split: option.splits if_splits)
  have "file_ok disk path p"
    using p(2-4) files_ok_get [OF assms(1), of path] by (auto simp: file_ok_def split: option.splits if_splits)
  with p(1) show ?thesis by (simp add: files_ok_set [OF assms(1)])
qed

lemma files_ok_sums:
  "files_ok disk fps \<Longrightarrow> \<forall>x \<in> set (dict_keys fps). 0 \<le> disk x \<Longrightarrow>
   sum_list (map (in_bytes \<circ> rf_downloaded_this_session) (dict_values fps)) \<le> sum_list (map (in_bytes \<circ> rf_downloaded) (dict_values fps)) \<and>
   sum_list (map (in_bytes \<circ> rf_downloaded) (dict_values fps)) - sum_list (map disk (dict_keys fps))
     \<le> sum_list (map (in_bytes \<circ> rf_downloaded_this_session) (dict_values fps))"
  by (induction fps) (auto simp: files_ok_def file_ok_def)

type_synonym file_update = "string \<times> int \<times> int \<times> bool \<times> pyfloat \<times> pyfloat \<times> pyfloat"

definition file_updates :: "model_id \<Rightarrow> string \<Rightarrow> (string, repo_file_progress) dict \<Rightarrow> file_update list \<Rightarrow>
    (string, repo_file_progress) dict result" where
  "file_updates mid rv =
     rfold (\<lambda>fps (path, cur, tot, renamed, t, t1, t2). on_file_progress mid rv path cur tot renamed t t1 t2 fps)"

text \<open>
  The progress reported for a repository is sound. Whatever the callbacks of the files report, in
  whatever order, restarts included: the bytes counted for this session lie between the bytes on
  disk minus those found at the start and all bytes on disk, and a repository is reported complete
  only when every file has all its bytes, so that the totals agree.
\<close>

theorem repo_progress_sound:
  assumes "fps0 = dict_of (map (\<lambda>(path, sz, ex). (path, initial_file_progress mid rv path (disk path) sz ex t0)) files)"
    and "\<forall>path. 0 \<le> disk path" "file_updates mid rv fps0 us = Inr fps"
    and "calculate_repo_progress shard mid rv fps start now = Inr r"
  shows "in_bytes (rp_downloaded_this_session r) \<le> in_bytes (rp_downloaded r) \<and>
    in_bytes (rp_downloaded r) - sum_list (map disk (dict_keys fps)) \<le> in_bytes (rp_downloaded_this_session r) \<and>
    (rp_status r = RepoComplete \<longrightarrow> rp_downloaded r = rp_total r \<and> rp_completed_files r = rp_total_files r)"
proof -
  have "files_ok disk fps0" unfolding assms(1) dict_of_def foldl_map
    by (rule foldl_invariant) (auto intro!: files_ok_set initial_file_ok simp: files_ok_def [of _ "[]"] split: prod.splits)
  then have ok: "files_ok disk fps"
    using assms(3) unfolding file_updates_def
    by (rule rfold_invariant [rotated]) (auto intro: on_file_progress_ok)
  have complete: "rf_downloaded p = rf_total p" if "p \<in> set (dict_values fps)" "rf_status p = RepoComplete" for p
    using ok that by (auto simp: files_ok_def list_all_iff file_ok_def)
  have sums: "sum_list (map rf_downloaded (dict_values fps)) = sum_list (map rf_total (dict_values fps)) \<and>
      filter (\<lambda>p. rf_downloaded p = rf_total p) (dict_values fps) = dict_values fps"
    if "list_all (\<lambda>p. rf_status p = RepoComplete) (dict_values fps)"
  proof -
    have "\<forall>p \<in> set (dict_values fps). rf_downloaded p = rf_total p" using complete that by (simp only: list_all_iff) blast
    then show ?thesis by (intro conjI arg_cong [of _ _ sum_list] map_cong filter_True) auto
  qed
  have r: "rp_downloaded_this_session r = sum_list (map rf_downloaded_this_session (dict_values fps))"
    "rp_downloaded r = sum_list (map rf_downloaded (dict_values fps))" "rp_total r = sum_list (map rf_total (dict_values fps))"
    "rp_completed_files r = int (length (filter (\<lambda>p. rf_downloaded p = rf_total p) (dict_values fps)))"
    "rp_total_files r = int (length fps)"
    "rp_status r = RepoComplete \<longrightarrow> list_all (\<lambda>p. rf_status p = RepoComplete) (dict_values fps)"
    using assms(4) by (auto simp: calculate_repo_progress_def Let_def split: if_splits)
  have "rp_status r = RepoComplete \<longrightarrow> rp_downloaded r = rp_total r \<and> rp_completed_files r = rp_total_files r"
    using sums r by (metis length_map)
  moreover have "in_bytes (rp_downloaded_this_session r) \<le> in_bytes (rp_downloaded r) \<and>
    in_bytes (rp_downloaded r) - sum_list (map disk (dict_keys fps)) \<le> in_bytes (rp_downloaded_this_session r)"
    using files_ok_sums [OF ok] assms(2) r(1,2) by (simp add: in_bytes_sum_list comp_def)
  ultimately show ?thesis by blast
qed

definition demo_files :: "(string \<times> int option \<times> bool) list" where
  "demo_files = [(''a'', Some 10, False), (''b'', Some 5, True)]"

definition demo_disk :: "string \<Rightarrow> int" where
  "demo_disk path = (if path = ''a'' then 4 else if path = ''b'' then 5 else 0)"

text \<open>The second half of the file \<open>a\<close> arrives; the clock does not advance, so speeds are 0.\<close>

definition demo_updates :: "file_update list" where
  "demo_updates = [(''a'', 7, 10, False, 0, 0, 0), (''a'', 10, 10, True, 0, 0, 0)]"

definition demo_fps0 :: "(string, repo_file_progress) dict" where
  "demo_fps0 = dict_of (map (\<lambda>(path, sz, ex). (path, initial_file_progress ''m'' ''main'' path (demo_disk path) sz ex 0)) demo_files)"

theorem repo_progress_sound_witness:
  "\<forall>shard. \<exists>fps r. file_updates ''m'' ''main'' demo_fps0 demo_updates = Inr fps \<and>
     calculate_repo_progress shard ''m'' ''main'' fps 0 0 = Inr r \<and>
     rp_status r = RepoComplete \<and> rp_downloaded r = rp_total r \<and> in_bytes (rp_downloaded_this_session r) = 6"
proof
  fix shard
  let ?fps = "case file_updates ''m'' ''main'' demo_fps0 demo_updates of Inr x \<Rightarrow> x"
  have u: "file_updates ''m'' ''main'' demo_fps0 demo_updates = Inr ?fps"
  proof -
    have "\<not> isl (file_updates ''m'' ''main'' demo_fps0 demo_updates)" by code_simp
    then show ?thesis by (cases "file_updates ''m'' ''main'' demo_fps0 demo_updates") auto
  qed
  have st: "list_all (\<lambda>p. rf_status p = RepoComplete) (dict_values ?fps)" by code_simp
  have se: "in_bytes (sum_list (map rf_downloaded_this_session (dict_values ?fps))) = 6" by code_simp
  obtain r where r: "calculate_repo_progress shard ''m'' ''main'' ?fps 0 0 = Inr r"
    by (auto simp: calculate_repo_progress_def Let_def fl_def)
  have "rp_status r = RepoComplete" "in_bytes (rp_downloaded_this_session r) = 6"
    using r st se by (auto simp: calculate_repo_progress_def Let_def fl_def)
  moreover have "\<forall>path. 0 \<le> demo_disk path" by (simp add: demo_disk_def)
  ultimately show "\<exists>fps r. file_updates ''m'' ''main'' demo_fps0 demo_updates = Inr fps \<and>
     calculate_repo_progress shard ''m'' ''main'' fps 0 0 = Inr r \<and>
     rp_status r = RepoComplete \<and> rp_downloaded r = rp_total r \<and> in_bytes (rp_downloaded_this_session r) = 6"
    using repo_progress_sound [OF demo_fps0_def _ u r] u r by auto
qed

end
