(* ===== verification/Coordinator.thy ===== *)
theory Coordinator
  imports Download_Progress State_Apply Placement_Utils
begin

text \<open>
  The download coordinator of a node (\<^verbatim>\<open>src/exo/download/coordinator.py\<close>): it starts, cancels and
  deletes downloads on command, reports their progress as events, and periodically reports what is
  on disk.

  The command processor, the download tasks, the progress callbacks and the periodic report
  interleave at their waits; \<open>dc_command\<close> and \<open>dc_emit\<close> are the positions of the first and the last at
  such a wait. The callbacks are detached tasks (\<^verbatim>\<open>asyncio.create_task\<close> in \<^verbatim>\<open>download_shard\<close>), so one
  may run at any time. The downloader itself is an input: what it answers, how a download ends, and
  which model directories are complete at the moment a search looks at the disk (\<open>disk\<close>).
\<close>

section \<open>Model directories\<close>

record model_dirs =
  md_read_only :: "string list"
  md_writable :: "string list"
  md_default :: string

definition join_path :: "string \<Rightarrow> string \<Rightarrow> string" where
  "join_path d x = d @ ''/'' @ x"

definition resolve_existing_model :: "model_dirs \<Rightarrow> string list \<Rightarrow> model_id \<Rightarrow> string option" where
  "resolve_existing_model ds disk m =
     List.find (\<lambda>p. p \<in> set disk) (map (\<lambda>d. join_path d (normalize_model_id m)) (md_read_only ds @ md_writable ds))"

definition is_relative_to :: "string \<Rightarrow> string \<Rightarrow> bool" where
  "is_relative_to p d \<longleftrightarrow> p = d \<or> take (length d + 1) p = d @ ''/''"

definition is_read_only_model_dir :: "model_dirs \<Rightarrow> string \<Rightarrow> bool" where
  "is_read_only_model_dir ds p \<longleftrightarrow> list_ex (is_relative_to p) (md_read_only ds)"

section \<open>State\<close>

record dl_task =
  dk_shard :: shard_metadata
  dk_cancelled :: bool
  dk_done :: bool

datatype command_phase =
    CmdIdle
  | CmdResolving shard_metadata
  | CmdAsking shard_metadata
  | CmdConfirming shard_metadata repo_progress
  | CmdDeleting model_id

datatype emit_phase =
    EmitIdle
  | EmitResolving repo_progress
  | EmitScanning model_card

record coordinator =
  dc_node_id :: node_id
  dc_dirs :: model_dirs
  dc_offline :: bool
  dc_status :: "(model_id, download_progress) dict"
  dc_active :: "(model_id, nat) dict"
  dc_last_progress :: "(model_id, pyfloat) dict"
  dc_tasks :: "dl_task list"
  dc_command :: command_phase
  dc_emit :: emit_phase
  dc_events :: "download_progress list"
  dc_delete_calls :: "model_id list"

definition mk_coordinator :: "node_id \<Rightarrow> model_dirs \<Rightarrow> bool \<Rightarrow> coordinator" where
  "mk_coordinator n ds offline =
     \<lparr>dc_node_id = n, dc_dirs = ds, dc_offline = offline, dc_status = [], dc_active = [], dc_last_progress = [],
      dc_tasks = [], dc_command = CmdIdle, dc_emit = EmitIdle, dc_events = [], dc_delete_calls = []\<rparr>"

definition default_model_dir :: "coordinator \<Rightarrow> model_id \<Rightarrow> string" where
  "default_model_dir c m = join_path (md_default (dc_dirs c)) (normalize_model_id m)"

definition progress_of :: "coordinator \<Rightarrow> shard_metadata \<Rightarrow> string \<Rightarrow> download_state \<Rightarrow> download_progress" where
  "progress_of c shard d st = \<lparr>dp_node_id = dc_node_id c, dp_shard_metadata = shard, dp_model_directory = d, dp_state = st\<rparr>"

text \<open>\<^verbatim>\<open>_completed_from_path\<close>, or the default directory when the search found nothing.\<close>

definition completed_progress :: "coordinator \<Rightarrow> string list \<Rightarrow> shard_metadata \<Rightarrow> memory \<Rightarrow> download_progress" where
  "completed_progress c disk shard tot =
     (case resolve_existing_model (dc_dirs c) disk (shard_model_id shard) of
        Some found \<Rightarrow> progress_of c shard found (DownloadCompleted tot (is_read_only_model_dir (dc_dirs c) found))
      | None \<Rightarrow> progress_of c shard (default_model_dir c (shard_model_id shard)) (DownloadCompleted tot False))"

text \<open>Every status is stored and sent at once.\<close>

definition publish :: "download_progress \<Rightarrow> coordinator \<Rightarrow> coordinator" where
  "publish dp c = c\<lparr>dc_status := dict_set (dc_status c) (dp_model_id dp) dp, dc_events := dc_events c @ [dp]\<rparr>"

section \<open>Commands\<close>

definition start_download :: "shard_metadata \<Rightarrow> coordinator \<Rightarrow> coordinator" where
  "start_download shard c =
     (case dict_get (dc_status c) (shard_model_id shard) of
        Some dp \<Rightarrow> if is_ongoing (dp_state dp) \<or> is_completed (dp_state dp) \<or> is_failed (dp_state dp) then c
                   else c\<lparr>dc_command := CmdResolving shard\<rparr>
      | None \<Rightarrow> c\<lparr>dc_command := CmdResolving shard\<rparr>)"

definition start_resolved :: "string list \<Rightarrow> shard_metadata \<Rightarrow> coordinator \<Rightarrow> coordinator" where
  "start_resolved disk shard c =
     (case resolve_existing_model (dc_dirs c) disk (shard_model_id shard) of
        Some found \<Rightarrow>
          publish (progress_of c shard found (DownloadCompleted (mc_storage_size (shard_model_card (shard_base shard)))
            (is_read_only_model_dir (dc_dirs c) found))) (c\<lparr>dc_command := CmdIdle\<rparr>)
      | None \<Rightarrow>
          publish (progress_of c shard (default_model_dir c (shard_model_id shard)) (DownloadPending (Memory 0) (Memory 0)))
            (c\<lparr>dc_command := CmdAsking shard\<rparr>))"

definition start_download_task :: "shard_metadata \<Rightarrow> repo_progress \<Rightarrow> coordinator \<Rightarrow> coordinator" where
  "start_download_task shard rp c =
     (let c' = publish (progress_of c shard (default_model_dir c (shard_model_id shard)) (DownloadOngoing (map_repo_progress rp))) c
      in c'\<lparr>dc_tasks := dc_tasks c' @ [\<lparr>dk_shard = shard, dk_cancelled = False, dk_done = False\<rparr>],
            dc_active := dict_set (dc_active c') (shard_model_id shard) (length (dc_tasks c'))\<rparr>)"

definition start_asked :: "repo_progress \<Rightarrow> shard_metadata \<Rightarrow> coordinator \<Rightarrow> coordinator" where
  "start_asked rp shard c =
     (if rp_status rp = RepoComplete then c\<lparr>dc_command := CmdConfirming shard rp\<rparr>
      else let c' = c\<lparr>dc_command := CmdIdle\<rparr> in
        if dc_offline c
        then publish (progress_of c shard (default_model_dir c (shard_model_id shard))
               (DownloadFailed (''Model files not found locally in offline mode: '' @ shard_model_id shard))) c'
        else start_download_task shard rp c')"

definition start_confirmed :: "string list \<Rightarrow> shard_metadata \<Rightarrow> repo_progress \<Rightarrow> coordinator \<Rightarrow> coordinator" where
  "start_confirmed disk shard rp c =
     publish (completed_progress c disk shard (rp_total rp)) (c\<lparr>dc_command := CmdIdle\<rparr>)"

definition cancel_scope :: "nat \<Rightarrow> coordinator \<Rightarrow> coordinator" where
  "cancel_scope i c = c\<lparr>dc_tasks := (dc_tasks c)[i := (dc_tasks c ! i)\<lparr>dk_cancelled := True\<rparr>]\<rparr>"

definition cancel_download :: "model_id \<Rightarrow> coordinator \<Rightarrow> coordinator" where
  "cancel_download m c =
     (case (dict_get (dc_active c) m, dict_get (dc_status c) m) of
        (Some i, Some dp) \<Rightarrow>
          let (downloaded, tot) = (case dp_state dp of
                 DownloadOngoing d \<Rightarrow> (dpd_downloaded d, dpd_total d) | _ \<Rightarrow> (Memory 0, Memory 0))
          in publish (progress_of c (dp_shard_metadata dp) (default_model_dir c m) (DownloadPending downloaded tot))
               (cancel_scope i c)
      | _ \<Rightarrow> c)"

fun is_read_only_state :: "download_state \<Rightarrow> bool" where
  "is_read_only_state (DownloadCompleted _ ro) = ro"
| "is_read_only_state _ = False"

definition delete_begin :: "model_id \<Rightarrow> coordinator \<Rightarrow> coordinator" where
  "delete_begin m c =
     (if (case dict_get (dc_status c) m of Some dp \<Rightarrow> is_read_only_state (dp_state dp) | None \<Rightarrow> False) then c
      else let c' = (case dict_get (dc_active c) m of Some i \<Rightarrow> cancel_scope i c | None \<Rightarrow> c)
           in c'\<lparr>dc_command := CmdDeleting m, dc_delete_calls := dc_delete_calls c' @ [m]\<rparr>)"

definition delete_end :: "model_id \<Rightarrow> coordinator \<Rightarrow> coordinator" where
  "delete_end m c =
     (let c' = c\<lparr>dc_command := CmdIdle\<rparr>
      in case dict_get (dc_status c) m of
           None \<Rightarrow> c'
         | Some dp \<Rightarrow>
             c'\<lparr>dc_events := dc_events c @ [progress_of c (dp_shard_metadata dp) (default_model_dir c m)
                  (DownloadPending (Memory 0) (Memory 0))],
                dc_status := dict_del (dc_status c) m\<rparr>)"

definition dc_handle :: "download_command \<Rightarrow> coordinator \<Rightarrow> coordinator" where
  "dc_handle cmd c =
     (if target_node_id cmd \<noteq> dc_node_id c then c
      else case cmd of
             StartDownload _ shard \<Rightarrow> start_download shard c
           | DeleteDownload _ m \<Rightarrow> delete_begin m c
           | CancelDownload _ m \<Rightarrow> cancel_download m c)"

section \<open>Download tasks and callbacks\<close>

datatype dl_outcome = DlReturned | DlRaised string | DlCancelled

text \<open>The end of \<^verbatim>\<open>download_wrapper\<close>; its \<^verbatim>\<open>finally\<close> block removes the model's entry, whichever task it names.\<close>

definition task_end :: "nat \<Rightarrow> dl_outcome \<Rightarrow> coordinator \<Rightarrow> coordinator option" where
  "task_end i out c =
     (if length (dc_tasks c) \<le> i \<or> dk_done (dc_tasks c ! i) \<or> (out = DlCancelled \<and> \<not> dk_cancelled (dc_tasks c ! i)) then None
      else let t = dc_tasks c ! i; m = shard_model_id (dk_shard t);
               c1 = c\<lparr>dc_tasks := (dc_tasks c)[i := t\<lparr>dk_done := True\<rparr>]\<rparr>;
               c2 = (case out of
                       DlRaised msg \<Rightarrow> publish (progress_of c (dk_shard t) (default_model_dir c m) (DownloadFailed msg)) c1
                     | _ \<Rightarrow> c1)
           in Some (c2\<lparr>dc_active := dict_del (dc_active c2) m\<rparr>))"

definition progress_callback :: "string list \<Rightarrow> pyfloat \<Rightarrow> pyfloat \<Rightarrow> shard_metadata \<Rightarrow> repo_progress \<Rightarrow> coordinator \<Rightarrow> coordinator" where
  "progress_callback disk now now2 shard rp c =
     (let m = shard_model_id shard in
      if rp_status rp = RepoComplete
      then (publish (completed_progress c disk shard (rp_total rp)) c)\<lparr>dc_last_progress := dict_del (dc_last_progress c) m\<rparr>
      else if rp_status rp = InProgress \<and> fl (now - dict_get_default (dc_last_progress c) m 0) > 1
      then (publish (progress_of c shard (default_model_dir c m) (DownloadOngoing (map_repo_progress rp))) c)
             \<lparr>dc_last_progress := dict_set (dc_last_progress c) m now2\<rparr>
      else c)"

section \<open>The periodic report\<close>

definition emit_begin :: "repo_progress \<Rightarrow> coordinator \<Rightarrow> coordinator" where
  "emit_begin rp c =
     (let m = shard_model_id (rp_shard rp) in
      if dict_mem m (dc_active c) then c
      else if rp_status rp = RepoComplete then c\<lparr>dc_emit := EmitResolving rp\<rparr>
      else case dict_get (dc_status c) m of
             Some dp \<Rightarrow> if is_completed (dp_state dp) then c else c\<lparr>dc_emit := EmitResolving rp\<rparr>
           | None \<Rightarrow> c\<lparr>dc_emit := EmitResolving rp\<rparr>)"

definition emit_end :: "string list \<Rightarrow> repo_progress \<Rightarrow> coordinator \<Rightarrow> coordinator" where
  "emit_end disk rp c =
     (let shard = rp_shard rp; m = shard_model_id shard; d = default_model_dir c m;
          dp = (if rp_status rp = RepoComplete then completed_progress c disk shard (rp_total rp)
                else case resolve_existing_model (dc_dirs c) disk m of
                  Some found \<Rightarrow> progress_of c shard found (DownloadCompleted (rp_total rp) (is_read_only_model_dir (dc_dirs c) found))
                | None \<Rightarrow>
                    if in_bytes (rp_downloaded_this_session rp) = 0
                    then progress_of c shard d (DownloadPending (rp_downloaded rp) (rp_total rp))
                    else progress_of c shard d (DownloadOngoing (map_repo_progress rp)))
      in publish dp (c\<lparr>dc_emit := EmitIdle\<rparr>))"

text \<open>The scan of the read-only directories, for one card.\<close>

definition scan_begin :: "model_card \<Rightarrow> coordinator \<Rightarrow> coordinator" where
  "scan_begin mc c =
     (let m = mc_model_id mc in
      if dict_mem m (dc_active c) then c
      else case dict_get (dc_status c) m of
             Some dp \<Rightarrow> if is_completed (dp_state dp) \<or> is_ongoing (dp_state dp) \<or> is_failed (dp_state dp) then c
                        else c\<lparr>dc_emit := EmitScanning mc\<rparr>
           | None \<Rightarrow> c\<lparr>dc_emit := EmitScanning mc\<rparr>)"

definition scan_end :: "string list \<Rightarrow> model_card \<Rightarrow> coordinator \<Rightarrow> coordinator" where
  "scan_end disk mc c =
     (let c' = c\<lparr>dc_emit := EmitIdle\<rparr>
      in case resolve_existing_model (dc_dirs c) disk (mc_model_id mc) of
           Some found \<Rightarrow>
             if is_read_only_model_dir (dc_dirs c) found
             then publish (progress_of c
                    (PipelineShardMetadata \<lparr>shard_model_card = mc, device_rank = 0, world_size = 1, immediate_exception = False,
                       should_timeout = None, start_layer = 0, end_layer = mc_n_layers mc, n_layers = mc_n_layers mc\<rparr>)
                    found (DownloadCompleted (mc_storage_size mc) True)) c'
             else c'
         | None \<Rightarrow> c')"

section \<open>Steps\<close>

datatype dc_label =
    DcCommand download_command
  | DcContinue "string list" repo_progress
  | DcTaskEnd nat dl_outcome
  | DcCallback "string list" pyfloat pyfloat shard_metadata repo_progress
  | DcEmit repo_progress
  | DcScan model_card
  | DcEmitEnd "string list"

text \<open>The command processor goes on from its wait with what the disk and the downloader answer.\<close>

fun dc_continue :: "string list \<Rightarrow> repo_progress \<Rightarrow> command_phase \<Rightarrow> coordinator \<Rightarrow> coordinator option" where
  "dc_continue disk rp CmdIdle c = None"
| "dc_continue disk rp (CmdResolving shard) c = Some (start_resolved disk shard c)"
| "dc_continue disk rp (CmdAsking shard) c = Some (start_asked rp shard c)"
| "dc_continue disk rp (CmdConfirming shard rp0) c = Some (start_confirmed disk shard rp0 c)"
| "dc_continue disk rp (CmdDeleting m) c = Some (delete_end m c)"

fun dc_next :: "dc_label \<Rightarrow> coordinator \<Rightarrow> coordinator option" where
  "dc_next (DcCommand cmd) c = (if dc_command c = CmdIdle then Some (dc_handle cmd c) else None)"
| "dc_next (DcContinue disk rp) c = dc_continue disk rp (dc_command c) c"
| "dc_next (DcTaskEnd i out) c = task_end i out c"
| "dc_next (DcCallback disk now now2 shard rp) c = Some (progress_callback disk now now2 shard rp c)"
| "dc_next (DcEmit rp) c = (if dc_emit c = EmitIdle then Some (emit_begin rp c) else None)"
| "dc_next (DcScan mc) c = (if dc_emit c = EmitIdle \<and> md_read_only (dc_dirs c) \<noteq> [] then Some (scan_begin mc c) else None)"
| "dc_next (DcEmitEnd disk) c =
     (case dc_emit c of
        EmitIdle \<Rightarrow> None | EmitResolving rp \<Rightarrow> Some (emit_end disk rp c) | EmitScanning mc \<Rightarrow> Some (scan_end disk mc c))"

inductive dc_reach :: "coordinator \<Rightarrow> coordinator \<Rightarrow> bool" for c0 where
  dc_refl: "dc_reach c0 c0"
| dc_step: "dc_reach c0 c \<Longrightarrow> dc_next l c = Some c' \<Longrightarrow> dc_reach c0 c'"

fun dc_exec :: "dc_label list \<Rightarrow> coordinator \<Rightarrow> coordinator option" where
  "dc_exec [] c = Some c"
| "dc_exec (l # ls) c = (case dc_next l c of None \<Rightarrow> None | Some c' \<Rightarrow> dc_exec ls c')"

section \<open>What is published is what is stored\<close>

definition last_for :: "model_id \<Rightarrow> download_progress list \<Rightarrow> download_progress option" where
  "last_for m es = (case filter (\<lambda>dp. dp_model_id dp = m) es of [] \<Rightarrow> None | xs \<Rightarrow> Some (last xs))"

lemma last_for_append [simp]: "last_for m (es @ [dp]) = (if dp_model_id dp = m then Some dp else last_for m es)"
  by (cases "filter (\<lambda>d. dp_model_id d = m) es") (auto simp: last_for_def)

lemma last_for_Nil [simp]: "last_for m [] = None"
  by (simp add: last_for_def)

definition dc_inv :: "node_id \<Rightarrow> coordinator \<Rightarrow> bool" where
  "dc_inv n c \<longleftrightarrow> dc_node_id c = n \<and> (\<forall>dp \<in> set (dc_events c). dp_node_id dp = n) \<and>
     (\<forall>m dp. dict_get (dc_status c) m = Some dp \<longrightarrow> dp_model_id dp = m \<and> last_for m (dc_events c) = Some dp)"

lemma progress_of_simps [simp]:
  "dp_node_id (progress_of c shard d st) = dc_node_id c" "dp_shard_metadata (progress_of c shard d st) = shard"
  "dp_state (progress_of c shard d st) = st" "dp_model_id (progress_of c shard d st) = shard_model_id shard"
  by (simp_all add: progress_of_def dp_model_id_def)

lemma completed_progress_node [simp]: "dp_node_id (completed_progress c disk shard tot) = dc_node_id c"
  by (simp add: completed_progress_def split: option.splits)

lemma publish_inv: "dc_inv n c \<Longrightarrow> dp_node_id dp = n \<Longrightarrow> dc_inv n (publish dp c)"
  by (auto simp: dc_inv_def publish_def)

text \<open>Fields that the invariant does not mention.\<close>

lemma dc_inv_other [simp]:
  "dc_inv n (c\<lparr>dc_command := x1\<rparr>) = dc_inv n c" "dc_inv n (c\<lparr>dc_emit := x2\<rparr>) = dc_inv n c"
  "dc_inv n (c\<lparr>dc_active := x3\<rparr>) = dc_inv n c" "dc_inv n (c\<lparr>dc_tasks := x4\<rparr>) = dc_inv n c"
  "dc_inv n (c\<lparr>dc_last_progress := x5\<rparr>) = dc_inv n c" "dc_inv n (c\<lparr>dc_delete_calls := x6\<rparr>) = dc_inv n c"
  "dc_inv n (cancel_scope i c) = dc_inv n c"
  by (simp_all add: dc_inv_def cancel_scope_def)

lemma dc_inv_node: "dc_inv n c \<Longrightarrow> dc_node_id c = n"
  by (simp add: dc_inv_def)

lemmas dc_step_defs = start_download_def start_resolved_def start_asked_def start_confirmed_def
  cancel_download_def delete_begin_def task_end_def progress_callback_def emit_begin_def emit_end_def
  scan_begin_def scan_end_def

lemma start_download_task_inv: "dc_inv n c \<Longrightarrow> dc_inv n (start_download_task shard rp c)"
  by (simp add: start_download_task_def Let_def publish_inv dc_inv_node)

lemma delete_end_inv: "dc_inv n c \<Longrightarrow> dc_inv n (delete_end m c)"
  by (auto simp: delete_end_def dc_inv_def dp_model_id_def Let_def split: option.splits)

lemma dc_handle_inv: "dc_inv n c \<Longrightarrow> dc_inv n (dc_handle cmd c)"
  by (auto simp: dc_handle_def start_download_def delete_begin_def cancel_download_def Let_def dc_inv_node intro!: publish_inv
      split: download_command.splits option.splits prod.splits)

lemma dc_continue_inv: "dc_inv n c \<Longrightarrow> dc_continue disk rp ph c = Some c' \<Longrightarrow> dc_inv n c'"
  by (cases ph) (auto simp: start_resolved_def start_asked_def start_confirmed_def Let_def dc_inv_node
      intro!: publish_inv start_download_task_inv delete_end_inv split: option.splits)

lemma dc_next_inv: "dc_inv n c \<Longrightarrow> dc_next l c = Some c' \<Longrightarrow> dc_inv n c'"
  by (cases l) (auto simp: dc_handle_inv task_end_def progress_callback_def emit_begin_def emit_end_def scan_begin_def scan_end_def
      Let_def dc_inv_node intro!: publish_inv intro: dc_continue_inv
      split: if_splits option.splits emit_phase.splits dl_outcome.splits)

lemma mk_coordinator_inv: "dc_inv n (mk_coordinator n ds off)"
  by (simp add: dc_inv_def mk_coordinator_def)

lemma dc_reach_inv: "dc_reach (mk_coordinator n ds off) c \<Longrightarrow> dc_inv n c"
  by (induction rule: dc_reach.induct) (auto intro: mk_coordinator_inv dc_next_inv)

section \<open>What the cluster sees\<close>

definition find_download :: "model_id \<Rightarrow> download_progress list \<Rightarrow> download_progress option" where
  "find_download m = List.find (\<lambda>dp. dp_model_id dp = m)"

lemma find_replace_download:
  "find_download m (replace_download dp xs) = (if dp_model_id dp = m then Some dp else find_download m xs)"
  by (induction xs) (auto simp: find_download_def)

text \<open>The progress events of one node among a list of events.\<close>

fun node_progress :: "node_id \<Rightarrow> event_body \<Rightarrow> download_progress option" where
  "node_progress n (NodeDownloadProgress dp) = (if dp_node_id dp = n then Some dp else None)"
| "node_progress n _ = None"

lemma gathered_info_downloads: "gathered_info_update rx k info s = Inr s' \<Longrightarrow> st_downloads s' = st_downloads s"
  by (cases info) (auto simp: Let_def split: if_splits option.splits)

lemma event_apply_downloads:
  assumes "event_apply rx b s = Inr s'" "b \<noteq> NodeTimedOut n"
  shows "dict_get_default (st_downloads s') n [] =
    (case node_progress n b of Some dp \<Rightarrow> replace_download dp (dict_get_default (st_downloads s) n [])
     | None \<Rightarrow> dict_get_default (st_downloads s) n [])"
proof (cases b)
  case (NodeGatheredInfo k w i)
  with assms(1) gathered_info_downloads [of rx k i] show ?thesis by (auto simp: apply_node_gathered_info_def)
next
  case (RunnerStatusUpdated rid st)
  have "st_downloads (apply_runner_status_updated rid st s) = st_downloads s"
    by (cases "(rid, st, s)" rule: apply_runner_status_updated.cases) simp_all
  with RunnerStatusUpdated assms(1) show ?thesis by auto
next
  case (NodeTimedOut k)
  with assms show ?thesis by (auto simp: apply_node_timed_out_def Let_def dict_get_default_def)
qed (use assms in \<open>auto simp: apply_defs dict_get_default_def Let_def split: if_splits option.splits\<close>)

text \<open>
  C16: the cluster sees the coordinator's status. In every reachable state of a coordinator and for every
  model it tracks: any replica that has applied the coordinator's events in their order, among any
  other events and without having seen the node time out, lists for this node and this model exactly
  the status the coordinator holds.
\<close>

theorem download_status_replicated:
  assumes "dc_reach (mk_coordinator n ds off) c" "dict_get (dc_status c) m = Some dp"
    and "rfold (\<lambda>s b. event_apply rx b s) (init_state rx) bs = Inr s" "NodeTimedOut n \<notin> set bs"
    and "List.map_filter (node_progress n) bs = dc_events c"
  shows "find_download m (dict_get_default (st_downloads s) n []) = Some dp"
proof -
  have "find_download m (dict_get_default (st_downloads s) n []) =
      (case last_for m (List.map_filter (node_progress n) bs) of None \<Rightarrow> None | Some x \<Rightarrow> Some x)"
    using assms(3,4)
  proof (induction bs arbitrary: s rule: rev_induct)
    case Nil
    then show ?case by (auto simp: init_state_def dict_get_default_def find_download_def List.map_filter_simps)
  next
    case (snoc b bs)
    then obtain s1 where s1: "rfold (\<lambda>s b. event_apply rx b s) (init_state rx) bs = Inr s1" "event_apply rx b s1 = Inr s"
      by (auto simp: rfold_append)
    from event_apply_downloads [OF s1(2)] snoc.IH [OF s1(1)] snoc.prems(2) show ?case
      by (auto simp: map_filter_def find_replace_download split: option.splits)
  qed
  moreover have "last_for m (dc_events c) = Some dp"
    using dc_reach_inv [OF assms(1)] assms(2) by (simp add: dc_inv_def)
  ultimately show ?thesis using assms(5) by simp
qed

lemma dc_exec_reach: "dc_exec ls c = Some c' \<Longrightarrow> dc_reach c0 c \<Longrightarrow> dc_reach c0 c'"
  by (induction ls arbitrary: c) (auto intro: dc_step split: option.splits)

definition demo_shard :: shard_metadata where
  "demo_shard = TensorShardMetadata \<lparr>shard_model_card = demo_card, device_rank = 0, world_size = 1, immediate_exception = False,
     should_timeout = None, start_layer = 0, end_layer = 10, n_layers = 10\<rparr>"

definition demo_progress :: "repo_status \<Rightarrow> repo_progress" where
  "demo_progress st = \<lparr>rp_repo_id = ''m'', rp_revision = ''main'', rp_shard = demo_shard, rp_completed_files = 0, rp_total_files = 1,
     rp_downloaded = Memory 0, rp_downloaded_this_session = Memory 0, rp_total = Memory 10, rp_speed = 0, rp_eta = 0,
     rp_status = st, rp_file_progress = []\<rparr>"

definition demo_dirs :: model_dirs where
  "demo_dirs = \<lparr>md_read_only = [], md_writable = [''/models''], md_default = ''/models''\<rparr>"

abbreviation demo_begin :: "dc_label list" where
  "demo_begin \<equiv> [DcCommand (StartDownload ''a'' demo_shard), DcContinue [] (demo_progress NotStarted),
     DcContinue [] (demo_progress NotStarted)]"

definition demo_coordinator :: "dc_label list \<Rightarrow> coordinator" where
  "demo_coordinator ls = the (dc_exec ls (mk_coordinator ''a'' demo_dirs False))"

lemma demo_coordinator_reach:
  "dc_exec ls (mk_coordinator ''a'' demo_dirs False) \<noteq> None \<Longrightarrow> dc_reach (mk_coordinator ''a'' demo_dirs False) (demo_coordinator ls)"
  by (auto simp: demo_coordinator_def intro: dc_exec_reach dc_refl)

theorem download_status_replicated_witness:
  "\<exists>s dp. rfold (\<lambda>s b. event_apply ref_env b s) (init_state ref_env) (map NodeDownloadProgress (dc_events (demo_coordinator demo_begin))) = Inr s \<and>
     find_download ''m'' (dict_get_default (st_downloads s) ''a'' []) = Some dp \<and> is_ongoing (dp_state dp)"
proof -
  let ?c = "demo_coordinator demo_begin" let ?bs = "map NodeDownloadProgress (dc_events ?c)"
  have r: "dc_reach (mk_coordinator ''a'' demo_dirs False) ?c" by (rule demo_coordinator_reach) code_simp
  obtain dp where dp: "dict_get (dc_status ?c) ''m'' = Some dp" "is_ongoing (dp_state dp)"
  proof -
    have "(case dict_get (dc_status ?c) ''m'' of None \<Rightarrow> False | Some x \<Rightarrow> is_ongoing (dp_state x))" by code_simp
    then show ?thesis using that by (auto split: option.splits)
  qed
  have node: "\<forall>x \<in> set (dc_events ?c). dp_node_id x = ''a''" using dc_reach_inv [OF r] by (simp add: dc_inv_def)
  then have mf: "List.map_filter (node_progress ''a'') ?bs = dc_events ?c"
    by (induction "dc_events ?c" rule: rev_induct) (auto simp: List.map_filter_def map_idI filter_True comp_def)
  obtain s where s: "rfold (\<lambda>s b. event_apply ref_env b s) (init_state ref_env) ?bs = Inr s"
  proof -
    have "\<exists>t. rfold (\<lambda>s b. event_apply ref_env b s) s0 (map NodeDownloadProgress es) = Inr t" for s0 es
      by (induction es arbitrary: s0) auto
    then show ?thesis using that by blast
  qed
  have "NodeTimedOut ''a'' \<notin> set ?bs" by auto
  from download_status_replicated [OF r dp(1) s this mf] s dp(2) show ?thesis by blast
qed

text \<open>
  A download that is cancelled and started again can escape its cancel scope. The task of the first
  download, when it has wound down, removes the model's entry in \<^verbatim>\<open>active_downloads\<close>, which by then
  names the second: the second download runs on, and a cancel command for it does nothing.
\<close>

theorem restarted_download_escapes_cancel:
  "\<exists>c. dc_reach (mk_coordinator ''a'' demo_dirs False) c \<and> dc_command c = CmdIdle \<and>
     \<not> dk_done (dc_tasks c ! 1) \<and> \<not> dk_cancelled (dc_tasks c ! 1) \<and>
     dc_handle (CancelDownload ''a'' (shard_model_id (dk_shard (dc_tasks c ! 1)))) c = c"
proof -
  let ?ls = "demo_begin @ [DcCommand (CancelDownload ''a'' ''m'')] @ demo_begin @ [DcTaskEnd 0 DlCancelled]"
  let ?c = "demo_coordinator ?ls"
  have r: "dc_reach (mk_coordinator ''a'' demo_dirs False) ?c" by (rule demo_coordinator_reach) code_simp
  have "dc_command ?c = CmdIdle \<and> \<not> dk_done (dc_tasks ?c ! 1) \<and> \<not> dk_cancelled (dc_tasks ?c ! 1) \<and>
      dict_get (dc_active ?c) (shard_model_id (dk_shard (dc_tasks ?c ! 1))) = None" by code_simp
  with r show ?thesis
    by (intro exI [of _ ?c]) (simp add: dc_handle_def cancel_download_def split: option.splits)
qed

text \<open>
  A late progress callback blocks a model. The callbacks run as detached tasks, so one can report
  progress after its download was cancelled and has ended: the model is then listed as ongoing while
  no download runs, and commands to start it or to cancel it do nothing.
\<close>

theorem late_progress_blocks_model:
  "\<exists>c. dc_reach (mk_coordinator ''a'' demo_dirs False) c \<and> dc_command c = CmdIdle \<and>
     list_all dk_done (dc_tasks c) \<and> list_ex (\<lambda>dp. is_ongoing (dp_state dp)) (dict_values (dc_status c)) \<and>
     dc_handle (StartDownload ''a'' demo_shard) c = c \<and> dc_handle (CancelDownload ''a'' (shard_model_id demo_shard)) c = c"
proof -
  let ?ls = "demo_begin @ [DcCommand (CancelDownload ''a'' ''m''), DcTaskEnd 0 DlCancelled,
    DcCallback [] 5 5 demo_shard (demo_progress InProgress)]"
  let ?c = "demo_coordinator ?ls"
  have r: "dc_reach (mk_coordinator ''a'' demo_dirs False) ?c" by (rule demo_coordinator_reach) code_simp
  have f: "dc_command ?c = CmdIdle \<and> list_all dk_done (dc_tasks ?c) \<and>
      list_ex (\<lambda>dp. is_ongoing (dp_state dp)) (dict_values (dc_status ?c)) \<and>
      dict_get (dc_active ?c) (shard_model_id demo_shard) = None \<and>
      (case dict_get (dc_status ?c) (shard_model_id demo_shard) of None \<Rightarrow> False | Some dp \<Rightarrow> is_ongoing (dp_state dp)) \<and>
      dc_node_id ?c = ''a''" by code_simp
  then have "dc_handle (StartDownload ''a'' demo_shard) ?c = ?c \<and> dc_handle (CancelDownload ''a'' (shard_model_id demo_shard)) ?c = ?c"
    by (auto simp: dc_handle_def start_download_def cancel_download_def split: option.splits)
  with f r show ?thesis by (intro exI [of _ ?c]) simp
qed

end
