(* ===== verification/Node.thy ===== *)
theory Node
  imports Election Event_Router Master Worker Api Coordinator
begin

text \<open>
  The node (\<^verbatim>\<open>src/exo/main.py\<close>): it creates the components and, in \<^verbatim>\<open>_elect_loop\<close>, replaces them when the
  election reports a new master. \<open>system\<close> puts a node next to its election: the results the election
  sends are taken by the loop in order; between two results the components go on with their own
  work, which keeps the sessions they were created for. The network router, which only hands out
  channel ends here, is not part of the state.
\<close>

record 'g node =
  nd_node_id :: node_id
  nd_api_port :: int
  nd_offline :: bool
  nd_dirs :: model_dirs
  nd_event_router :: router
  nd_master :: "'g master option"
  nd_worker :: "'g worker option"
  nd_api :: "'g api option"
  nd_download_coordinator :: "coordinator option"

record args =
  ar_spawn_api :: bool
  ar_api_port :: int
  ar_no_worker :: bool
  ar_no_downloads :: bool
  ar_offline :: bool
  ar_force_master :: bool

definition receiver_count :: "'w option \<Rightarrow> 'a option \<Rightarrow> nat" where
  "receiver_count w a = (if w = None then 0 else 1) + (if a = None then 0 else 1)"

definition node_create :: "'g env \<Rightarrow> node_id \<Rightarrow> model_dirs \<Rightarrow> args \<Rightarrow> 'g node" where
  "node_create rx n ds ar =
     (let sid = \<lparr>master_node_id = n, election_clock = 0\<rparr>;
          w = (if ar_no_worker ar then None else Some (mk_worker rx n (ar_api_port ar)));
          a = (if ar_spawn_api ar then Some (mk_api rx) else None)
      in \<lparr>nd_node_id = n, nd_api_port = ar_api_port ar, nd_offline = ar_offline ar, nd_dirs = ds,
          nd_event_router = mk_router sid (receiver_count w a), nd_master = Some (mk_master rx n sid),
          nd_worker = w, nd_api = a,
          nd_download_coordinator = (if ar_no_downloads ar then None else Some (mk_coordinator n ds (ar_offline ar)))\<rparr>)"

text \<open>The election of a node: a forced master starts with a seniority no vote can reach.\<close>

definition node_election :: "node_id \<Rightarrow> args \<Rightarrow> el_state" where
  "node_election n ar = el_run n True (if ar_force_master ar then 1000000 else 0)"

text \<open>One round of \<^verbatim>\<open>_elect_loop\<close>. The event router of a new session serves the new worker and the API.\<close>

definition update_master :: "'g env \<Rightarrow> session_id \<Rightarrow> 'g node \<Rightarrow> 'g node" where
  "update_master rx sid nd =
     (if master_node_id sid = nd_node_id nd
      then case nd_master nd of
             Some _ \<Rightarrow> nd
           | None \<Rightarrow> nd\<lparr>nd_master := Some (mk_master rx (nd_node_id nd) sid)\<rparr>
      else nd\<lparr>nd_master := None\<rparr>)"

definition elect_loop :: "'g env \<Rightarrow> election_result \<Rightarrow> 'g node \<Rightarrow> 'g node" where
  "elect_loop rx r nd =
     (let sid = Election.er_session_id r;
          nd1 = (if is_new_master r
                 then nd\<lparr>nd_event_router := mk_router sid (receiver_count (nd_worker nd) (nd_api nd))\<rparr> else nd);
          nd2 = update_master rx sid nd1
      in if is_new_master r
         then nd2\<lparr>nd_download_coordinator :=
                    map_option (\<lambda>_. mk_coordinator (nd_node_id nd) (nd_dirs nd) (nd_offline nd)) (nd_download_coordinator nd2),
                  nd_worker := map_option (\<lambda>_. mk_worker rx (nd_node_id nd) (nd_api_port nd)) (nd_worker nd2),
                  nd_api := map_option (api_reset rx (won_clock r)) (nd_api nd2)\<rparr>
         else nd2\<lparr>nd_api := map_option (api_unpause (won_clock r)) (nd_api nd2)\<rparr>)"

section \<open>Node and election together\<close>

record 'g system =
  sy_election :: el_state
  sy_taken :: nat
  sy_node :: "'g node"

text \<open>The components work on; no component changes its session, none starts or stops a master.\<close>

definition works_on :: "'g node \<Rightarrow> 'g node \<Rightarrow> bool" where
  "works_on nd nd' \<longleftrightarrow> nd_node_id nd' = nd_node_id nd \<and>
     Event_Router.er_session_id (nd_event_router nd') = Event_Router.er_session_id (nd_event_router nd) \<and>
     map_option ma_session_id (nd_master nd') = map_option ma_session_id (nd_master nd) \<and>
     (nd_worker nd' = None \<longleftrightarrow> nd_worker nd = None) \<and> (nd_api nd' = None \<longleftrightarrow> nd_api nd = None)"

inductive sys_step :: "'g env \<Rightarrow> 'g system \<Rightarrow> 'g system \<Rightarrow> bool" for rx where
  sys_election: "el_next l (sy_election s) = Some e \<Longrightarrow> sys_step rx s (s\<lparr>sy_election := e\<rparr>)"
| sys_result: "sy_taken s < length (el_results (sy_election s)) \<Longrightarrow>
    sys_step rx s (s\<lparr>sy_taken := Suc (sy_taken s),
      sy_node := elect_loop rx (el_results (sy_election s) ! sy_taken s) (sy_node s)\<rparr>)"
| sys_work: "works_on (sy_node s) nd \<Longrightarrow> sys_step rx s (s\<lparr>sy_node := nd\<rparr>)"

definition sys_init :: "'g env \<Rightarrow> node_id \<Rightarrow> model_dirs \<Rightarrow> args \<Rightarrow> 'g system" where
  "sys_init rx n ds ar = \<lparr>sy_election = node_election n ar, sy_taken = 0, sy_node = node_create rx n ds ar\<rparr>"

text \<open>At most one campaign is under way.\<close>

definition active_phase :: "campaign_phase \<Rightarrow> bool" where
  "active_phase p \<longleftrightarrow> (case p of Announced _ \<Rightarrow> True | Woken _ \<Rightarrow> True | _ \<Rightarrow> False)"

definition el_serial :: "el_state \<Rightarrow> bool" where
  "el_serial s \<longleftrightarrow> length (filter (\<lambda>g. active_phase (cg_phase g)) (el_campaigns s)) \<le> 1"

text \<open>The states reachable through states that satisfy \<open>P\<close>.\<close>

inductive sys_reach :: "('g system \<Rightarrow> bool) \<Rightarrow> 'g env \<Rightarrow> 'g system \<Rightarrow> 'g system \<Rightarrow> bool" for P rx s0 where
  sys_refl: "P s0 \<Longrightarrow> sys_reach P rx s0 s0"
| sys_more: "sys_reach P rx s0 s \<Longrightarrow> sys_step rx s s' \<Longrightarrow> P s' \<Longrightarrow> sys_reach P rx s0 s'"

section \<open>The results of an election\<close>

text \<open>
  What the loop relies on: each result says whether its session differs from the one before, and a
  node that stays master keeps its session.
\<close>

fun results_ok :: "node_id \<Rightarrow> session_id \<Rightarrow> election_result list \<Rightarrow> bool" where
  "results_ok n cur [] = True"
| "results_ok n cur (r # rs) =
     (is_new_master r = (Election.er_session_id r \<noteq> cur) \<and>
      (master_node_id cur = n \<and> master_node_id (Election.er_session_id r) = n \<longrightarrow> Election.er_session_id r = cur) \<and>
      results_ok n (Election.er_session_id r) rs)"

definition session_after :: "session_id \<Rightarrow> election_result list \<Rightarrow> session_id" where
  "session_after cur rs = (if rs = [] then cur else Election.er_session_id (last rs))"

lemma results_ok_append:
  "results_ok n cur (rs @ [r]) \<longleftrightarrow> results_ok n cur rs \<and>
     is_new_master r = (Election.er_session_id r \<noteq> session_after cur rs) \<and>
     (master_node_id (session_after cur rs) = n \<and> master_node_id (Election.er_session_id r) = n \<longrightarrow>
        Election.er_session_id r = session_after cur rs)"
  by (induction rs arbitrary: cur) (auto simp: session_after_def)

lemma results_ok_nth:
  assumes "results_ok n cur rs" "k < length rs"
  shows "is_new_master (rs ! k) = (Election.er_session_id (rs ! k) \<noteq> session_after cur (take k rs)) \<and>
     (master_node_id (session_after cur (take k rs)) = n \<and> master_node_id (Election.er_session_id (rs ! k)) = n \<longrightarrow>
        Election.er_session_id (rs ! k) = session_after cur (take k rs))"
proof -
  have "results_ok n cur (take (Suc k) rs)" using assms(1)
  proof (induction rs arbitrary: cur k)
    case (Cons r rs)
    then show ?case by (cases k) auto
  qed simp
  with assms(2) show ?thesis by (simp add: take_Suc_conv_app_nth results_ok_append)
qed

section \<open>One campaign at a time\<close>

text \<open>
  The messages of a campaign's list that name the node itself: none before the campaign announces
  itself, then only its own status, which proposes the current session while the node is master.
\<close>

definition own_in :: "el_state \<Rightarrow> nat \<Rightarrow> election_message set" where
  "own_in s c = {m \<in> set (el_lists s ! Suc c). master_node_id (proposed_session m) = el_node_id s}"

fun campaign_own :: "el_state \<Rightarrow> nat \<Rightarrow> campaign_phase \<Rightarrow> bool" where
  "campaign_own s c Finished = True"
| "campaign_own s c (Announced st) =
     (own_in s c \<subseteq> {st} \<and> (master_node_id (el_current_session s) = el_node_id s \<longrightarrow> proposed_session st = el_current_session s))"
| "campaign_own s c (Woken st) =
     (own_in s c \<subseteq> {st} \<and> (master_node_id (el_current_session s) = el_node_id s \<longrightarrow> proposed_session st = el_current_session s))"
| "campaign_own s c _ = (own_in s c = {})"

definition el_own :: "el_state \<Rightarrow> bool" where
  "el_own s \<longleftrightarrow> length (el_lists s) = Suc (length (el_campaigns s)) \<and> el_candidates s < length (el_lists s) \<and>
     (\<forall>d. el_scope s = Some d \<longrightarrow> d < length (el_campaigns s)) \<and>
     (\<forall>c < length (el_campaigns s). cg_list (el_campaigns s ! c) = Suc c \<and> campaign_own s c (cg_phase (el_campaigns s ! c)))"

lemma el_ownD:
  assumes "el_own s" "c < length (el_campaigns s)"
  shows "cg_list (el_campaigns s ! c) = Suc c" "campaign_own s c (cg_phase (el_campaigns s ! c))"
  using assms by (auto simp: el_own_def)

lemma campaign_own_cong:
  assumes "own_in s' c \<subseteq> own_in s c" "el_node_id s' = el_node_id s" "el_current_session s' = el_current_session s"
    "campaign_own s c p"
  shows "campaign_own s' c p"
  using assms by (cases p) auto

text \<open>A step that adds no message of the node itself and touches no phase.\<close>

lemma el_own_update:
  assumes "el_own s" "el_node_id s' = el_node_id s" "el_current_session s' = el_current_session s"
    "el_campaigns s' = el_campaigns s" "length (el_lists s') = length (el_lists s)" "el_candidates s' = el_candidates s"
    "\<forall>d. el_scope s' = Some d \<longrightarrow> d < length (el_campaigns s)"
    "\<And>c. c < length (el_campaigns s) \<Longrightarrow> own_in s' c \<subseteq> own_in s c"
  shows "el_own s'"
  using assms campaign_own_cong [OF assms(8,2,3)] by (auto simp: el_own_def)

lemma schedule_own:
  assumes "el_own s" "\<forall>m \<in> set cands. master_node_id (proposed_session m) \<noteq> el_node_id s"
  shows "el_own (schedule_campaign cands s)"
proof -
  let ?s = "schedule_campaign cands s"
  have len: "length (el_lists s) = Suc (length (el_campaigns s))" using assms(1) by (simp add: el_own_def)
  have old: "own_in ?s c = own_in s c" if "c < length (el_campaigns s)" for c
    using that len by (simp add: own_in_def schedule_campaign_def nth_append)
  have new: "own_in ?s (length (el_campaigns s)) = {}"
    using assms(2) len by (auto simp: own_in_def schedule_campaign_def nth_append)
  have "campaign_own ?s c p = campaign_own s c p" if "c < length (el_campaigns s)" for c p
    using old [OF that] by (cases p) (auto simp: schedule_campaign_def)
  with assms(1) len new show ?thesis
    by (auto simp: el_own_def schedule_campaign_def nth_append less_Suc_eq split: if_splits)
qed

lemma set_phase_own:
  assumes "el_own s" "c < length (el_campaigns s)" "campaign_own s c p" "cg_list g = Suc c" "cg_phase g = p"
  shows "el_own (set_campaign c g s)"
proof -
  have "campaign_own (set_campaign c g s) d q = campaign_own s d q" for d q
    by (cases q) (auto simp: own_in_def set_campaign_def)
  with assms show ?thesis
    by (auto simp: el_own_def set_campaign_def nth_list_update)
qed

lemma campaign_begin_own:
  assumes "el_own s" "c < length (el_campaigns s)" "own_in s c = {}"
  shows "el_own (campaign_begin c s)"
proof -
  let ?g = "el_campaigns s ! c" let ?st = "election_status (cg_clock ?g) s"
  let ?s = "s\<lparr>el_done := Some c, el_scope := Some c, el_lists := (el_lists s)[cg_list ?g := el_lists s ! cg_list ?g @ [?st]],
      el_sent := el_sent s @ [?st]\<rparr>"
  have cl: "cg_list ?g = Suc c" and len: "length (el_lists s) = Suc (length (el_campaigns s))"
    using assms(1,2) by (auto simp: el_own_def)
  have other: "own_in ?s d = own_in s d" if "d \<noteq> c" for d using that by (simp add: own_in_def cl)
  have mine: "own_in ?s c \<subseteq> {?st}" using assms(2,3) len by (auto simp: own_in_def cl)
  have own: "campaign_own ?s c (Announced ?st)"
    using mine by (auto simp: election_status_def)
  have rest: "campaign_own ?s d (cg_phase (el_campaigns s ! d))" if "d < length (el_campaigns s)" "d \<noteq> c" for d
    using el_ownD(2) [OF assms(1) that(1)] other [OF that(2)] by (cases "cg_phase (el_campaigns s ! d)") auto
  define t where "t = campaign_begin c s"
  have t: "t = set_campaign c (?g\<lparr>cg_phase := Announced ?st\<rparr>) ?s" by (simp add: t_def campaign_begin_def Let_def)
  have same: "campaign_own t d q = campaign_own ?s d q" for d q
    unfolding t by (cases q) (auto simp: own_in_def set_campaign_def)
  have phase: "cg_phase (el_campaigns t ! d) = (if d = c then Announced ?st else cg_phase (el_campaigns s ! d))"
    if "d < length (el_campaigns s)" for d using that by (simp add: t)
  have co: "campaign_own t d (cg_phase (el_campaigns t ! d))" if "d < length (el_campaigns s)" for d
    unfolding same phase [OF that] using own rest [OF that] by (cases "d = c") (simp_all only: if_True if_False simp_thms)
  have fields: "length (el_campaigns t) = length (el_campaigns s)" "length (el_lists t) = length (el_lists s)"
    "el_scope t = Some c" "el_candidates t = el_candidates s"
    by (simp_all add: t set_campaign_def)
  have lists: "cg_list (el_campaigns t ! d) = cg_list (el_campaigns s ! d)" if "d < length (el_campaigns s)" for d
    using that assms(2) by (simp add: t nth_list_update)
  have "el_own t" unfolding el_own_def
    using assms(1,2) co fields lists el_ownD(1) [OF assms(1)] by (simp add: el_own_def)
  then show ?thesis by (simp add: t_def)
qed

lemma mark_cancelled_own: "el_own s \<Longrightarrow> d < length (el_campaigns s) \<Longrightarrow> el_own (set_campaign d ((el_campaigns s ! d)\<lparr>cg_cancelled := x\<rparr>) s)"
  by (rule set_phase_own) (auto simp: el_ownD)

lemma campaign_start_own:
  assumes "el_own s" "phase_of s c = Some Scheduled"
  shows "el_own (campaign_start c s)"
proof -
  have c: "c < length (el_campaigns s)" "cg_phase (el_campaigns s ! c) = Scheduled" using phase_of_Some [OF assms(2)] by auto
  define s1 where "s1 = set_campaign c ((el_campaigns s ! c)\<lparr>cg_clock := el_clock s\<rparr>) s"
  have s1: "el_own s1" unfolding s1_def
    by (rule set_phase_own [OF assms(1) c(1)]) (use el_ownD [OF assms(1) c(1)] in auto)
  define s2 where "s2 = (case el_scope s1 of None \<Rightarrow> s1
      | Some d \<Rightarrow> set_campaign d ((el_campaigns s1 ! d)\<lparr>cg_cancelled := True\<rparr>) s1)"
  have s2: "el_own s2"
    using s1 mark_cancelled_own [OF s1] by (auto simp: s2_def el_own_def [of s1] split: option.splits)
  have c2: "c < length (el_campaigns s2)" "cg_phase (el_campaigns s2 ! c) = Scheduled"
    using c by (auto simp: s2_def s1_def nth_list_update split: option.splits)
  have none: "own_in s2 c = {}" using el_ownD(2) [OF s2 c2(1)] c2(2) by simp
  have "el_own (set_campaign c ((el_campaigns s2 ! c)\<lparr>cg_phase := Waiting d\<rparr>) s2)" for d
    by (rule set_phase_own [OF s2 c2(1)]) (use none el_ownD(1) [OF s2 c2(1)] in auto)
  with campaign_begin_own [OF s2 c2(1) none] show ?thesis
    by (auto simp: campaign_start_def Let_def s1_def [symmetric] s2_def [symmetric] split: option.splits)
qed

lemma campaign_wake_own:
  assumes "el_own s" "phase_of s c = Some (Announced st)"
  shows "el_own (campaign_wake c st s)"
proof -
  have c: "c < length (el_campaigns s)" "cg_phase (el_campaigns s ! c) = Announced st" using phase_of_Some [OF assms(2)] by auto
  let ?s = "s\<lparr>el_sent := el_sent s @ [st]\<rparr>"
  have "el_own ?s" by (rule el_own_update [OF assms(1)]) (use assms(1) in \<open>auto simp: own_in_def el_own_def\<close>)
  moreover have "campaign_own ?s c (Woken st)" using el_ownD(2) [OF assms(1) c(1)] c(2) by (simp add: own_in_def)
  ultimately show ?thesis unfolding campaign_wake_def
    by (rule_tac set_phase_own [where p = "Woken st"]) (use c el_ownD(1) [OF assms(1) c(1)] in auto)
qed

lemma campaign_finally_own:
  assumes "el_own s" "c < length (el_campaigns s)" shows "el_own (campaign_finally c s)"
proof -
  let ?s = "if el_scope s = Some c then s\<lparr>el_scope := None\<rparr> else s"
  have "el_own ?s"
    by (cases "el_scope s = Some c") (simp_all add: assms(1) el_own_update [OF assms(1)] own_in_def)
  then show ?thesis unfolding campaign_finally_def
    by (rule set_phase_own [where p = Finished]) (use assms el_ownD(1) [OF assms] in auto)
qed

text \<open>The decision of the only campaign under way.\<close>

lemma el_serial_other:
  assumes "el_serial s" "c < length (el_campaigns s)" "d < length (el_campaigns s)" "c \<noteq> d"
    and "active_phase (cg_phase (el_campaigns s ! c))"
  shows "\<not> active_phase (cg_phase (el_campaigns s ! d))"
proof
  assume d: "active_phase (cg_phase (el_campaigns s ! d))"
  let ?I = "{i. i < length (el_campaigns s) \<and> active_phase (cg_phase (el_campaigns s ! i))}"
  have "card {c, d} \<le> card ?I" by (rule card_mono) (use assms(2,3,5) d in auto)
  moreover have "card ?I \<le> 1" using assms(1) by (simp add: el_serial_def length_filter_conv_card)
  ultimately show False using assms(4) by simp
qed

lemma campaign_decide_own:
  assumes "el_own s" "el_serial s" "phase_of s c = Some (Woken st)" "campaign_decide c s = Inr s'"
  shows "el_own s' \<and> (\<exists>r. el_results s' = el_results s @ [r] \<and> el_current_session s' = Election.er_session_id r \<and>
    is_new_master r = (Election.er_session_id r \<noteq> el_current_session s) \<and>
    (master_node_id (el_current_session s) = el_node_id s \<and> master_node_id (Election.er_session_id r) = el_node_id s \<longrightarrow>
       Election.er_session_id r = el_current_session s))"
proof -
  have c: "c < length (el_campaigns s)" "cg_phase (el_campaigns s ! c) = Woken st" using phase_of_Some [OF assms(3)] by auto
  note o = el_ownD [OF assms(1) c(1)]
  obtain em t where em: "py_max_by em_lt (el_lists s ! Suc c) = Inr em" "s' = campaign_finally c (elect em t)"
    "t = s \<or> (\<exists>x. t = s\<lparr>el_seniority := x\<rparr>)"
    using assms(4) o(1) by (auto simp: campaign_decide_def Let_def split: if_splits)
  have tf: "el_campaigns t = el_campaigns s" "el_current_session t = el_current_session s" "el_results t = el_results s"
    "el_node_id t = el_node_id s" "el_lists t = el_lists s" "el_scope t = el_scope s" "el_candidates t = el_candidates s"
    using em(3) by auto
  have keep: "proposed_session em = el_current_session s"
    if "master_node_id (el_current_session s) = el_node_id s" "master_node_id (proposed_session em) = el_node_id s"
  proof -
    have "em \<in> own_in s c" using that py_max_by_mem [OF em(1)] by (simp add: own_in_def)
    then have "em = st" using o(2) c(2) by auto
    with o(2) c(2) that show ?thesis by simp
  qed
  let ?e = "elect em t"
  have fin: "campaign_own ?e d (cg_phase (el_campaigns s ! d))" if "d < length (el_campaigns s)" "d \<noteq> c" for d
    using el_ownD(2) [OF assms(1) that(1)] el_serial_other [OF assms(2) c(1) that(1)] that(2) c(2)
    by (cases "cg_phase (el_campaigns s ! d)") (auto simp: elect_def own_in_def tf active_phase_def)
  define e' where "e' = (if el_scope ?e = Some c then ?e\<lparr>el_scope := None\<rparr> else ?e)"
  have e': "el_campaigns e' = el_campaigns s" "el_lists e' = el_lists s" "el_candidates e' = el_candidates s"
    "\<forall>d. el_scope e' = Some d \<longrightarrow> el_scope s = Some d" "campaign_own e' d p = campaign_own ?e d p" for d p
    by (auto simp: e'_def elect_def tf own_in_def) (cases p; auto simp: own_in_def)+
  have s': "s' = set_campaign c ((el_campaigns s ! c)\<lparr>cg_phase := Finished\<rparr>) e'"
    by (simp add: em(2) campaign_finally_def e'_def elect_def tf)
  have same: "campaign_own s' d p = campaign_own e' d p" for d p
    unfolding s' by (cases p) (auto simp: own_in_def set_campaign_def)
  have camps: "el_campaigns s' = (el_campaigns s)[c := (el_campaigns s ! c)\<lparr>cg_phase := Finished\<rparr>]" by (simp add: s' e')
  have co: "campaign_own s' d (cg_phase (el_campaigns s' ! d))" if "d < length (el_campaigns s)" for d
    using fin [OF that] that c(1) unfolding same e'(5) camps by (cases "d = c") (simp_all add: nth_list_update)
  have "el_lists s' = el_lists s" "el_candidates s' = el_candidates s" "\<forall>d. el_scope s' = Some d \<longrightarrow> el_scope s = Some d"
    using e'(2-4) by (simp_all add: s' set_campaign_def)
  then have "el_own s'"
    using assms(1) co c(1) el_ownD(1) [OF assms(1)]
    by (auto simp: el_own_def camps nth_list_update)
  then show ?thesis using keep by (simp add: em(2) campaign_finally_def elect_def tf)
qed

text \<open>The initial session of a node is its own.\<close>

abbreviation first_session :: "node_id \<Rightarrow> session_id" where
  "first_session n \<equiv> \<lparr>master_node_id = n, election_clock = 0\<rparr>"

definition el_chain :: "node_id \<Rightarrow> el_state \<Rightarrow> bool" where
  "el_chain n s \<longleftrightarrow> el_own s \<and> el_node_id s = n \<and> results_ok n (first_session n) (el_results s) \<and>
     el_current_session s = session_after (first_session n) (el_results s)"

lemma el_own_current:
  "el_own s \<Longrightarrow> el_own (s\<lparr>el_clock := x\<rparr>)" "el_own s \<Longrightarrow> el_own (s\<lparr>el_commands_seen := y\<rparr>)"
  by (rule el_own_update; auto simp: own_in_def el_own_def)+

lemma campaign_fields_chain:
  "el_results (campaign_begin c s) = el_results s" "el_current_session (campaign_begin c s) = el_current_session s"
  "el_results (campaign_start c s) = el_results s" "el_current_session (campaign_start c s) = el_current_session s"
  "el_results (campaign_wake c st s) = el_results s" "el_current_session (campaign_wake c st s) = el_current_session s"
  "el_results (campaign_finally c s) = el_results s" "el_current_session (campaign_finally c s) = el_current_session s"
  by (simp_all add: campaign_begin_def campaign_start_def campaign_wake_def campaign_finally_def Let_def split: option.splits)

lemma el_next_own:
  assumes "el_own s" "el_serial s" "el_next l s = Some s'"
  shows "el_own s'"
proof (cases l)
  case (RecvElection m)
  have "el_own (s\<lparr>el_lists := (el_lists s)[el_candidates s := el_lists s ! el_candidates s @ [m]]\<rparr>)"
    if "master_node_id (proposed_session m) \<noteq> el_node_id s"
    by (rule el_own_update [OF assms(1)])
      (use assms(1) that in \<open>auto simp: el_own_def own_in_def nth_list_update split: if_splits\<close>)
  with RecvElection assms(1,3) show ?thesis
    by (auto simp: election_receiver_def intro!: schedule_own el_own_current split: if_splits)
next
  case (Start c)
  with assms show ?thesis by (auto simp: campaign_start_own split: if_splits)
next
  case (Begin c)
  then obtain d where d: "phase_of s c = Some (Waiting d)" "s' = campaign_begin c s"
    using assms(3) by (auto split: option.splits campaign_phase.splits if_splits)
  from phase_of_Some [OF d(1)] el_ownD(2) [OF assms(1), of c] have "own_in s c = {}" by auto
  with d phase_of_Some [OF d(1)] show ?thesis by (auto intro: campaign_begin_own [OF assms(1)])
next
  case (Wake c)
  with assms show ?thesis by (auto intro: campaign_wake_own split: option.splits campaign_phase.splits if_splits)
next
  case (Decide c)
  with assms show ?thesis
    by (auto dest: campaign_decide_own split: option.splits campaign_phase.splits if_splits sum.splits)
next
  case (Cancel c)
  with assms(1,3) show ?thesis
    by (auto intro!: campaign_finally_own dest: phase_of_Some split: option.splits if_splits)
qed (use assms in \<open>auto simp: connection_receiver_def command_counter_def intro!: schedule_own el_own_current\<close>)

lemma el_next_results:
  assumes "el_next l s = Some s'" "\<nexists>c. l = Decide c"
  shows "el_results s' = el_results s \<and> el_current_session s' = el_current_session s"
  using assms
  by (cases l)
    (auto simp: election_receiver_def connection_receiver_def command_counter_def schedule_campaign_def campaign_fields_chain
      split: if_splits option.splits campaign_phase.splits)

lemma el_next_chain:
  assumes "el_chain n s" "el_serial s" "el_next l s = Some s'"
  shows "el_chain n s'"
proof -
  have own: "el_own s'" using el_next_own assms by (auto simp: el_chain_def)
  have node: "el_node_id s' = n" using el_next_monotone [OF assms(3)] assms(1) by (simp add: el_chain_def)
  show ?thesis
  proof (cases "\<exists>c. l = Decide c")
    case True
    then obtain c st where l: "l = Decide c" "phase_of s c = Some (Woken st)" "campaign_decide c s = Inr s'"
      using assms(3) by (auto split: option.splits campaign_phase.splits if_splits sum.splits)
    from campaign_decide_own [OF _ assms(2) l(2,3)] assms(1) obtain r where
      "el_results s' = el_results s @ [r]" "el_current_session s' = Election.er_session_id r"
      "is_new_master r = (Election.er_session_id r \<noteq> el_current_session s)"
      "master_node_id (el_current_session s) = n \<and> master_node_id (Election.er_session_id r) = n \<longrightarrow>
         Election.er_session_id r = el_current_session s"
      by (auto simp: el_chain_def)
    with assms(1) own node show ?thesis by (auto simp: el_chain_def results_ok_append session_after_def)
  next
    case False
    with el_next_results [OF assms(3)] assms(1) own node show ?thesis by (simp add: el_chain_def)
  qed
qed

lemma el_run_chain: "el_chain n (el_run n b k)"
proof -
  have "el_own (el_init n b k)" by (simp add: el_own_def el_init_def)
  then have "el_own (schedule_campaign [] (el_init n b k))" by (rule schedule_own) simp
  then have "el_own (el_run n b k)" unfolding el_run_def
    by (rule campaign_start_own) (simp add: schedule_campaign_def el_init_def phase_of_def)
  then show ?thesis
    by (simp add: el_chain_def el_run_def campaign_fields_chain schedule_campaign_def el_init_def session_after_def)
qed

section \<open>The node follows its election\<close>

text \<open>The roles of a node in the session \<open>sid\<close>.\<close>

definition in_session :: "session_id \<Rightarrow> 'g node \<Rightarrow> bool" where
  "in_session sid nd \<longleftrightarrow> Event_Router.er_session_id (nd_event_router nd) = sid \<and>
     map_option ma_session_id (nd_master nd) = (if master_node_id sid = nd_node_id nd then Some sid else None)"

lemma update_master_fields [simp]:
  "nd_node_id (update_master rx sid nd) = nd_node_id nd" "nd_event_router (update_master rx sid nd) = nd_event_router nd"
  by (auto simp: update_master_def split: option.splits)

lemma elect_loop_fields:
  "nd_node_id (elect_loop rx r nd) = nd_node_id nd"
  "nd_master (elect_loop rx r nd) = nd_master (update_master rx (Election.er_session_id r) nd)"
  "nd_event_router (elect_loop rx r nd) =
    (if is_new_master r then mk_router (Election.er_session_id r) (receiver_count (nd_worker nd) (nd_api nd)) else nd_event_router nd)"
  by (auto simp: elect_loop_def update_master_def Let_def split: option.splits)

lemma elect_loop_in_session:
  assumes "in_session cur nd" "is_new_master r = (Election.er_session_id r \<noteq> cur)"
    and "master_node_id cur = nd_node_id nd \<and> master_node_id (Election.er_session_id r) = nd_node_id nd \<longrightarrow>
      Election.er_session_id r = cur"
  shows "in_session (Election.er_session_id r) (elect_loop rx r nd)"
proof -
  have "nd_master nd \<noteq> None \<longleftrightarrow> master_node_id cur = nd_node_id nd"
    using assms(1) by (auto simp: in_session_def split: if_splits)
  then show ?thesis
    using assms unfolding in_session_def elect_loop_fields
    by (auto simp: update_master_def mk_router_def mk_master_def split: option.splits if_splits)
qed

definition sys_inv :: "node_id \<Rightarrow> 'g system \<Rightarrow> bool" where
  "sys_inv n s \<longleftrightarrow> el_chain n (sy_election s) \<and> nd_node_id (sy_node s) = n \<and>
     sy_taken s \<le> length (el_results (sy_election s)) \<and>
     in_session (session_after (first_session n) (take (sy_taken s) (el_results (sy_election s)))) (sy_node s)"

lemma el_next_prefix:
  assumes "el_next l s = Some s'" shows "\<exists>rs. el_results s' = el_results s @ rs"
proof (cases "\<exists>c. l = Decide c")
  case True
  then show ?thesis using assms
    by (auto simp: campaign_decide_def Let_def campaign_fields_chain elect_def
        split: option.splits campaign_phase.splits if_splits sum.splits)
next
  case False
  with el_next_results [OF assms] show ?thesis by auto
qed

lemma sys_step_inv:
  assumes "sys_step rx s s'" "sys_inv n s" "el_serial (sy_election s)"
  shows "sys_inv n s'"
  using assms(1)
proof cases
  case (sys_election l e)
  from el_next_prefix [OF this(2)] obtain rs where rs: "el_results e = el_results (sy_election s) @ rs" by blast
  have "el_chain n e" using el_next_chain [OF _ assms(3) sys_election(2)] assms(2) by (simp add: sys_inv_def)
  with assms(2) rs show ?thesis by (simp add: sys_inv_def sys_election(1))
next
  case sys_result
  let ?rs = "el_results (sy_election s)" let ?k = "sy_taken s"
  have ok: "results_ok n (first_session n) ?rs" using assms(2) by (simp add: sys_inv_def el_chain_def)
  note r = results_ok_nth [OF ok sys_result(2)]
  have "in_session (Election.er_session_id (?rs ! ?k)) (elect_loop rx (?rs ! ?k) (sy_node s))"
    by (rule elect_loop_in_session [of "session_after (first_session n) (take ?k ?rs)"])
      (use assms(2) r in \<open>auto simp: sys_inv_def\<close>)
  with assms(2) sys_result show ?thesis
    by (simp add: sys_inv_def elect_loop_fields take_Suc_conv_app_nth session_after_def)
next
  case (sys_work nd)
  with assms(2) show ?thesis by (auto simp: sys_inv_def works_on_def in_session_def)
qed

lemma sys_init_inv: "sys_inv n (sys_init rx n ds ar)"
  by (simp add: sys_inv_def sys_init_def node_election_def el_run_chain node_create_def Let_def in_session_def
      session_after_def mk_router_def mk_master_def)

lemma sys_reach_inv: "sys_reach (\<lambda>s. el_serial (sy_election s)) rx (sys_init rx n ds ar) s \<Longrightarrow> sys_inv n s \<and> el_serial (sy_election s)"
  by (induction rule: sys_reach.induct) (auto simp: sys_init_inv intro: sys_step_inv)

text \<open>
  C9: a node follows its election. As long as no two campaigns of the node overlap, after any number of
  results taken, with the components at work in between: the event router is in the session of the
  last result, a master runs on the node exactly when that session names the node, and it runs in
  that very session. Once all results are taken this is the election's current session.
\<close>

theorem node_follows_election:
  assumes "sys_reach (\<lambda>s. el_serial (sy_election s)) rx (sys_init rx n ds ar) s"
  shows "\<exists>sid. Event_Router.er_session_id (nd_event_router (sy_node s)) = sid \<and>
    map_option ma_session_id (nd_master (sy_node s)) = (if master_node_id sid = n then Some sid else None) \<and>
    (sy_taken s = length (el_results (sy_election s)) \<longrightarrow> sid = el_current_session (sy_election s))"
proof -
  have inv: "sys_inv n s" using sys_reach_inv [OF assms] by simp
  let ?sid = "session_after (first_session n) (take (sy_taken s) (el_results (sy_election s)))"
  have "in_session ?sid (sy_node s)" "nd_node_id (sy_node s) = n" using inv by (simp_all add: sys_inv_def)
  moreover have "sy_taken s = length (el_results (sy_election s)) \<longrightarrow> ?sid = el_current_session (sy_election s)"
    using inv by (auto simp: sys_inv_def el_chain_def)
  ultimately show ?thesis by (intro exI [of _ ?sid]) (simp add: in_session_def)
qed

section \<open>Runs\<close>

text \<open>Executing the election step by step through states that satisfy \<open>Q\<close>, with every result taken at once.\<close>

fun sys_exec :: "(el_state \<Rightarrow> bool) \<Rightarrow> 'g env \<Rightarrow> el_label list \<Rightarrow> 'g system \<Rightarrow> 'g system option" where
  "sys_exec Q rx [] s = Some s"
| "sys_exec Q rx (l # ls) s =
     (case el_next l (sy_election s) of
        None \<Rightarrow> None
      | Some e \<Rightarrow>
          if Q e
          then sys_exec Q rx ls
            (if sy_taken s < length (el_results e)
             then s\<lparr>sy_election := e, sy_taken := Suc (sy_taken s), sy_node := elect_loop rx (el_results e ! sy_taken s) (sy_node s)\<rparr>
             else s\<lparr>sy_election := e\<rparr>)
          else None)"

lemma sys_exec_reach:
  "sys_exec Q rx ls s = Some s' \<Longrightarrow> sys_reach (\<lambda>s. Q (sy_election s)) rx s0 s \<Longrightarrow> sys_reach (\<lambda>s. Q (sy_election s)) rx s0 s'"
proof (induction ls arbitrary: s)
  case (Cons l ls)
  then obtain e where e: "el_next l (sy_election s) = Some e" "Q e" by (auto split: option.splits if_splits)
  let ?s = "s\<lparr>sy_election := e\<rparr>"
  have s: "sys_reach (\<lambda>s. Q (sy_election s)) rx s0 ?s"
    using sys_more [OF Cons.prems(2) sys_election [OF e(1)]] e(2) by simp
  let ?t = "?s\<lparr>sy_taken := Suc (sy_taken ?s), sy_node := elect_loop rx (el_results (sy_election ?s) ! sy_taken ?s) (sy_node ?s)\<rparr>"
  have t: "sys_reach (\<lambda>s. Q (sy_election s)) rx s0 ?t" if "sy_taken s < length (el_results e)"
    using sys_more [OF s sys_result] that e(2) by simp
  show ?case
  proof (cases "sy_taken s < length (el_results e)")
    case True
    with Cons.prems(1) e have "sys_exec Q rx ls ?t = Some s'" by simp
    from Cons.IH [OF this t [OF True]] show ?thesis .
  next
    case False
    with Cons.prems(1) e have "sys_exec Q rx ls ?s = Some s'" by simp
    from Cons.IH [OF this s] show ?thesis .
  qed
qed simp

definition demo_args :: args where
  "demo_args = \<lparr>ar_spawn_api = True, ar_api_port = 52415, ar_no_worker = False, ar_no_downloads = False, ar_offline = False,
     ar_force_master = False\<rparr>"

definition demo_system :: "(el_state \<Rightarrow> bool) \<Rightarrow> el_label list \<Rightarrow> ref_graph system" where
  "demo_system Q ls = the (sys_exec Q ref_env ls (sys_init ref_env ''a'' demo_dirs demo_args))"

lemma demo_system_reach:
  assumes "Q (node_election ''a'' demo_args)" "sys_exec Q ref_env ls (sys_init ref_env ''a'' demo_dirs demo_args) \<noteq> None"
  shows "sys_reach (\<lambda>s. Q (sy_election s)) ref_env (sys_init ref_env ''a'' demo_dirs demo_args) (demo_system Q ls)"
proof -
  obtain s where s: "sys_exec Q ref_env ls (sys_init ref_env ''a'' demo_dirs demo_args) = Some s" using assms(2) by blast
  have "Q (sy_election (sys_init ref_env ''a'' demo_dirs demo_args))" using assms(1) by (simp add: sys_init_def)
  from sys_exec_reach [OF s sys_refl, OF this] s show ?thesis by (simp add: demo_system_def)
qed

text \<open>The node \<open>a\<close> loses the mastership to \<open>z\<close>, which has more seniority.\<close>

definition demo_senior :: election_message where
  "demo_senior = (demo_em ''z'' 1)\<lparr>em_seniority := 7\<rparr>"

abbreviation demo_demoted :: "el_label list" where
  "demo_demoted \<equiv> [Wake 0, Decide 0, RecvElection demo_senior, Start 1, Begin 1, Wake 1, Decide 1]"

theorem node_follows_election_witness:
  "nd_master (sy_node (demo_system el_serial demo_demoted)) = None \<and>
   Event_Router.er_session_id (nd_event_router (sy_node (demo_system el_serial demo_demoted))) = \<lparr>master_node_id = ''z'', election_clock = 1\<rparr>"
proof -
  let ?s = "demo_system el_serial demo_demoted"
  have "sys_reach (\<lambda>s. el_serial (sy_election s)) ref_env (sys_init ref_env ''a'' demo_dirs demo_args) ?s"
    by (rule demo_system_reach) code_simp+
  from node_follows_election [OF this] obtain sid where sid:
    "Event_Router.er_session_id (nd_event_router (sy_node ?s)) = sid"
    "map_option ma_session_id (nd_master (sy_node ?s)) = (if master_node_id sid = ''a'' then Some sid else None)"
    "sy_taken ?s = length (el_results (sy_election ?s)) \<longrightarrow> sid = el_current_session (sy_election ?s)" by blast
  have "sy_taken ?s = length (el_results (sy_election ?s)) \<and> el_current_session (sy_election ?s) = \<lparr>master_node_id = ''z'', election_clock = 1\<rparr>"
    by code_simp
  with sid show ?thesis by auto
qed

text \<open>
  Overlapping campaigns strand the master. When two campaigns of a node that is not master overlap
  and both elect it, the node starts a master in the session of the first and, because one runs
  already, keeps it when the second reports a new session: the event router, the worker and the other
  nodes are in the new session, the master answers in the old one.
\<close>

theorem overlapping_campaigns_strand_master:
  "\<exists>s m. sys_reach (\<lambda>_. True) ref_env (sys_init ref_env ''a'' demo_dirs demo_args) s \<and>
     sy_taken s = length (el_results (sy_election s)) \<and> nd_master (sy_node s) = Some m \<and>
     Event_Router.er_session_id (nd_event_router (sy_node s)) = el_current_session (sy_election s) \<and>
     master_node_id (el_current_session (sy_election s)) = nd_node_id (sy_node s) \<and>
     ma_session_id m \<noteq> el_current_session (sy_election s)"
proof -
  let ?ls = "demo_demoted @ [RecvConnection, Start 2, Begin 2, RecvConnection, Start 3, RecvConnection, Start 4, Cancel 2,
    Begin 3, Begin 4, Wake 3, Decide 3, Wake 4, Decide 4]"
  let ?s = "demo_system (\<lambda>_. True) ?ls"
  have r: "sys_reach (\<lambda>_. True) ref_env (sys_init ref_env ''a'' demo_dirs demo_args) ?s"
    using demo_system_reach [of "\<lambda>_. True" ?ls] by (rule meta_mp) code_simp+
  have "sy_taken ?s = length (el_results (sy_election ?s)) \<and>
      map_option ma_session_id (nd_master (sy_node ?s)) = Some \<lparr>master_node_id = ''a'', election_clock = 3\<rparr> \<and>
      Event_Router.er_session_id (nd_event_router (sy_node ?s)) = \<lparr>master_node_id = ''a'', election_clock = 4\<rparr> \<and>
      el_current_session (sy_election ?s) = \<lparr>master_node_id = ''a'', election_clock = 4\<rparr> \<and> nd_node_id (sy_node ?s) = ''a''"
    by code_simp
  with r show ?thesis by (intro exI [of _ ?s]) auto
qed

end
