(* ===== verification/Llama_Router.thy ===== *)
theory Llama_Router
  imports Py_Float "HOL-Library.Product_Lexorder"
begin

text \<open>
  The request router for independent llama.cpp replicas (\<^verbatim>\<open>src/exo/api/llama_router.py\<close>). A request takes
  a lease on a replica that serves its model and has capacity, or waits for one in a bounded queue.

  The router's lock is held between two waits, so what lies between them is one step; a request is
  its position at such a wait. The monotonic clock is read by the steps (\<open>lr_now\<close> is the latest
  reading); what the replica answers, and a task that is cancelled or a response that is never read, are
  inputs.
\<close>

section \<open>State\<close>

record llama_replica =
  replica_id :: string
  node_name :: string
  base_url :: string
  replica_models :: "(string, string) dict"
  max_concurrency :: int

text \<open>The field constraints of \<^verbatim>\<open>LlamaReplica\<close>.\<close>

definition valid_replica :: "llama_replica \<Rightarrow> bool" where
  "valid_replica r \<longleftrightarrow> replica_id r \<noteq> [] \<and> node_name r \<noteq> [] \<and> base_url r \<noteq> [] \<and> replica_models r \<noteq> [] \<and> 0 < max_concurrency r"

record replica_runtime =
  rt_replica :: llama_replica
  rt_active :: int
  rt_completed :: int
  rt_failed :: int
  rt_unavailable_until :: pyfloat

datatype llama_outcome = QueueFull | QueueTimeout | Cancelled | BadGateway | Answered int

datatype llama_phase =
    Entering pyfloat
  | Waiting pyfloat pyfloat pyfloat bool
  | Sending nat pyfloat
  | Streaming nat int
  | Releasing nat bool llama_outcome
  | Lost nat
  | Finished llama_outcome

record llama_request =
  lq_model :: string
  lq_stream :: bool
  lq_phase :: llama_phase

record llama_router =
  lr_runtimes :: "replica_runtime list"
  lr_maximum_queue_size :: int
  lr_queue_timeout :: pyfloat
  lr_failure_cooldown :: pyfloat
  lr_waiting :: int
  lr_requests :: "llama_request list"
  lr_now :: pyfloat

definition mk_llama_router :: "llama_replica list \<Rightarrow> int \<Rightarrow> pyfloat \<Rightarrow> pyfloat \<Rightarrow> llama_router result" where
  "mk_llama_router replicas queue_size timeout cooldown =
     (if replicas = [] then Inl (ValueError ''at least one llama replica is required'')
      else if queue_size < 1 then Inl (ValueError ''maximum_queue_size must be positive'')
      else Inr \<lparr>lr_runtimes = map (\<lambda>r. \<lparr>rt_replica = r, rt_active = 0, rt_completed = 0, rt_failed = 0, rt_unavailable_until = 0\<rparr>) replicas,
                lr_maximum_queue_size = queue_size, lr_queue_timeout = timeout, lr_failure_cooldown = cooldown,
                lr_waiting = 0, lr_requests = [], lr_now = 0\<rparr>)"

definition supports :: "string \<Rightarrow> llama_router \<Rightarrow> bool" where
  "supports model lr \<longleftrightarrow> list_ex (\<lambda>rt. dict_mem model (replica_models (rt_replica rt))) (lr_runtimes lr)"

section \<open>Taking a lease\<close>

definition eligible :: "string \<Rightarrow> pyfloat \<Rightarrow> replica_runtime \<Rightarrow> bool" where
  "eligible model now rt \<longleftrightarrow>
     dict_mem model (replica_models (rt_replica rt)) \<and> rt_unavailable_until rt \<le> now \<and>
     rt_active rt < max_concurrency (rt_replica rt)"

definition load_key :: "replica_runtime \<Rightarrow> pyfloat \<times> int \<times> string" where
  "load_key rt =
     (fl (of_int (rt_active rt) / of_int (max_concurrency (rt_replica rt))), rt_completed rt, replica_id (rt_replica rt))"

definition candidates :: "string \<Rightarrow> pyfloat \<Rightarrow> llama_router \<Rightarrow> nat list" where
  "candidates model now lr = filter (\<lambda>i. eligible model now (lr_runtimes lr ! i)) [0..<length (lr_runtimes lr)]"

definition cooldowns :: "string \<Rightarrow> pyfloat \<Rightarrow> llama_router \<Rightarrow> pyfloat list" where
  "cooldowns model now lr =
     map (\<lambda>rt. fl (rt_unavailable_until rt - now))
       (filter (\<lambda>rt. dict_mem model (replica_models (rt_replica rt)) \<and> now < rt_unavailable_until rt) (lr_runtimes lr))"

definition wait_seconds :: "string \<Rightarrow> pyfloat \<Rightarrow> pyfloat \<Rightarrow> llama_router \<Rightarrow> pyfloat" where
  "wait_seconds model now remaining lr =
     (let cs = cooldowns model now lr in min remaining (if cs = [] then remaining else Min (set cs)))"

definition set_phase :: "nat \<Rightarrow> llama_phase \<Rightarrow> llama_router \<Rightarrow> llama_router" where
  "set_phase j p lr = lr\<lparr>lr_requests := (lr_requests lr)[j := (lr_requests lr ! j)\<lparr>lq_phase := p\<rparr>]\<rparr>"

definition set_runtime :: "nat \<Rightarrow> (replica_runtime \<Rightarrow> replica_runtime) \<Rightarrow> llama_router \<Rightarrow> llama_router" where
  "set_runtime i f lr = lr\<lparr>lr_runtimes := (lr_runtimes lr)[i := f (lr_runtimes lr ! i)]\<rparr>"

text \<open>The request leaves the queue, however its \<^verbatim>\<open>_acquire\<close> ends (the \<^verbatim>\<open>finally\<close> block).\<close>

definition leave_queue :: "nat \<Rightarrow> llama_phase \<Rightarrow> llama_router \<Rightarrow> llama_router" where
  "leave_queue j p lr = (set_phase j p lr)\<lparr>lr_waiting := lr_waiting lr - 1\<rparr>"

text \<open>One round of the loop; \<open>t\<close> is the clock when the lease is made.\<close>

definition acquire_round :: "nat \<Rightarrow> pyfloat \<Rightarrow> pyfloat \<Rightarrow> pyfloat \<Rightarrow> llama_router \<Rightarrow> llama_router" where
  "acquire_round j started now t lr =
     (let model = lq_model (lr_requests lr ! j) in
      case py_min_key (\<lambda>i. load_key (lr_runtimes lr ! i)) (candidates model now lr) of
        Inr i \<Rightarrow> leave_queue j (Sending i (fl (t - started))) (set_runtime i (rt_active_update (\<lambda>n. n + 1)) lr)
      | Inl _ \<Rightarrow>
          let remaining = fl (fl (started + lr_queue_timeout lr) - now) in
          if remaining \<le> 0 then leave_queue j (Finished QueueTimeout) lr
          else set_phase j (Waiting started now (wait_seconds model now remaining lr) False) lr)"

definition acquire_enter :: "nat \<Rightarrow> pyfloat \<Rightarrow> pyfloat \<Rightarrow> pyfloat \<Rightarrow> llama_router \<Rightarrow> llama_router" where
  "acquire_enter j started now t lr =
     (if lr_maximum_queue_size lr \<le> lr_waiting lr then set_phase j (Finished QueueFull) lr
      else acquire_round j started now t (lr\<lparr>lr_waiting := lr_waiting lr + 1\<rparr>))"

section \<open>Using and releasing it\<close>

text \<open>What \<^verbatim>\<open>send\<close> gives: an \<^verbatim>\<open>HTTPError\<close>, another exception (a cancelled task), or a response.\<close>

datatype upstream_answer = UpHttpError | UpRaised | UpStatus int

definition upstream_answered :: "nat \<Rightarrow> nat \<Rightarrow> upstream_answer \<Rightarrow> llama_router \<Rightarrow> llama_router" where
  "upstream_answered j i a lr =
     set_phase j
       (case a of
          UpHttpError \<Rightarrow> Releasing i True BadGateway
        | UpRaised \<Rightarrow> Lost i
        | UpStatus st \<Rightarrow> if lq_stream (lr_requests lr ! j) then Streaming i st else Releasing i (500 \<le> st) (Answered st)) lr"

text \<open>The \<^verbatim>\<open>finally\<close> of \<^verbatim>\<open>generate\<close>.\<close>

definition stream_end :: "nat \<Rightarrow> nat \<Rightarrow> int \<Rightarrow> bool \<Rightarrow> llama_router \<Rightarrow> llama_router" where
  "stream_end j i st http_error lr = set_phase j (Releasing i (500 \<le> st \<or> http_error) (Answered st)) lr"

fun notified :: "llama_phase \<Rightarrow> llama_phase" where
  "notified (Waiting started since w _) = Waiting started since w True"
| "notified p = p"

definition release_runtime :: "nat \<Rightarrow> bool \<Rightarrow> pyfloat \<Rightarrow> llama_router \<Rightarrow> llama_router" where
  "release_runtime i failed now lr =
     (set_runtime i (\<lambda>rt. if failed
        then rt\<lparr>rt_active := rt_active rt - 1, rt_failed := rt_failed rt + 1, rt_unavailable_until := fl (now + lr_failure_cooldown lr)\<rparr>
        else rt\<lparr>rt_active := rt_active rt - 1, rt_completed := rt_completed rt + 1\<rparr>) lr)
      \<lparr>lr_requests := map (\<lambda>q. q\<lparr>lq_phase := notified (lq_phase q)\<rparr>) (lr_requests lr)\<rparr>"

section \<open>Steps\<close>

datatype llama_label =
    LrRequest string bool pyfloat
  | LrEnter nat pyfloat pyfloat
  | LrWake nat pyfloat pyfloat
  | LrCancel nat
  | LrUpstream nat upstream_answer
  | LrStreamEnd nat bool
  | LrAbandon nat
  | LrRelease nat pyfloat

definition phase_at :: "llama_router \<Rightarrow> nat \<Rightarrow> llama_phase option" where
  "phase_at lr j = (if j < length (lr_requests lr) then Some (lq_phase (lr_requests lr ! j)) else None)"

definition advance :: "pyfloat \<Rightarrow> llama_router \<Rightarrow> llama_router option" where
  "advance t lr = (if lr_now lr \<le> t then Some (lr\<lparr>lr_now := t\<rparr>) else None)"

fun llama_next :: "llama_label \<Rightarrow> llama_router \<Rightarrow> llama_router option" where
  "llama_next (LrRequest model stream t) lr =
     map_option (\<lambda>lr. lr\<lparr>lr_requests := lr_requests lr @ [\<lparr>lq_model = model, lq_stream = stream, lq_phase = Entering t\<rparr>]\<rparr>) (advance t lr)"
| "llama_next (LrEnter j now t) lr =
     (case (phase_at lr j, advance now lr) of
        (Some (Entering started), Some lr) \<Rightarrow> map_option (acquire_enter j started now t) (if now \<le> t then Some lr else None)
      | _ \<Rightarrow> None)"
| "llama_next (LrWake j now t) lr =
     (case (phase_at lr j, advance now lr) of
        (Some (Waiting started _ _ _), Some lr) \<Rightarrow> map_option (acquire_round j started now t) (if now \<le> t then Some lr else None)
      | _ \<Rightarrow> None)"
| "llama_next (LrCancel j) lr =
     (case phase_at lr j of
        Some (Entering _) \<Rightarrow> Some (set_phase j (Finished Cancelled) lr)
      | Some (Waiting _ _ _ _) \<Rightarrow> Some (leave_queue j (Finished Cancelled) lr)
      | Some (Releasing i _ _) \<Rightarrow> Some (set_phase j (Lost i) lr)
      | _ \<Rightarrow> None)"
| "llama_next (LrUpstream j a) lr =
     (case phase_at lr j of Some (Sending i _) \<Rightarrow> Some (upstream_answered j i a lr) | _ \<Rightarrow> None)"
| "llama_next (LrStreamEnd j http_error) lr =
     (case phase_at lr j of Some (Streaming i st) \<Rightarrow> Some (stream_end j i st http_error lr) | _ \<Rightarrow> None)"
| "llama_next (LrAbandon j) lr =
     (case phase_at lr j of Some (Streaming i _) \<Rightarrow> Some (set_phase j (Lost i) lr) | _ \<Rightarrow> None)"
| "llama_next (LrRelease j t) lr =
     (case (phase_at lr j, advance t lr) of
        (Some (Releasing i failed out), Some lr) \<Rightarrow> Some (set_phase j (Finished out) (release_runtime i failed t lr))
      | _ \<Rightarrow> None)"

fun llama_exec :: "llama_label list \<Rightarrow> llama_router \<Rightarrow> llama_router option" where
  "llama_exec [] lr = Some lr"
| "llama_exec (l # ls) lr = Option.bind (llama_next l lr) (llama_exec ls)"


section \<open>Counting requests\<close>

fun is_waiting :: "llama_phase \<Rightarrow> bool" where
  "is_waiting (Waiting _ _ _ _) = True"
| "is_waiting _ = False"

fun holds_lease :: "nat \<Rightarrow> llama_phase \<Rightarrow> bool" where
  "holds_lease i (Sending k _) = (k = i)"
| "holds_lease i (Streaming k _) = (k = i)"
| "holds_lease i (Releasing k _ _) = (k = i)"
| "holds_lease i (Lost k) = (k = i)"
| "holds_lease i _ = False"

definition count_phase :: "(llama_phase \<Rightarrow> bool) \<Rightarrow> llama_router \<Rightarrow> int" where
  "count_phase P lr = int (length (filter (\<lambda>q. P (lq_phase q)) (lr_requests lr)))"

lemma count_update:
  "j < length xs \<Longrightarrow> int (length (filter P (xs[j := y]))) = int (length (filter P xs)) - of_bool (P (xs ! j)) + of_bool (P y)"
proof (induction xs arbitrary: j)
  case (Cons x xs)
  then show ?case by (cases j) auto
qed simp

lemma count_set_phase:
  "phase_at lr j = Some q \<Longrightarrow> count_phase P (set_phase j p lr) = count_phase P lr - of_bool (P q) + of_bool (P p)"
  using count_update [of j "lr_requests lr" "\<lambda>q. P (lq_phase q)" "(lr_requests lr ! j)\<lparr>lq_phase := p\<rparr>"]
  by (cases "P q"; cases "P p") (auto simp: count_phase_def set_phase_def phase_at_def split: if_splits)

lemma count_other [simp]:
  "count_phase P (set_runtime i f lr) = count_phase P lr" "count_phase P (lr\<lparr>lr_waiting := n\<rparr>) = count_phase P lr"
  "count_phase P (lr\<lparr>lr_now := t\<rparr>) = count_phase P lr"
  by (simp_all add: count_phase_def set_runtime_def)

lemma phase_at_other [simp]:
  "phase_at (set_runtime i f lr) j = phase_at lr j" "phase_at (lr\<lparr>lr_waiting := n\<rparr>) j = phase_at lr j"
  "phase_at (lr\<lparr>lr_now := t\<rparr>) j = phase_at lr j"
  by (simp_all add: phase_at_def set_runtime_def)

lemma notified_holds [simp]: "holds_lease i (notified p) = holds_lease i p" "is_waiting (notified p) = is_waiting p"
  by (cases p; simp)+

lemma count_release [simp]:
  "count_phase (holds_lease k) (release_runtime i failed t lr) = count_phase (holds_lease k) lr"
  "count_phase is_waiting (release_runtime i failed t lr) = count_phase is_waiting lr"
  by (simp_all add: count_phase_def release_runtime_def filter_map comp_def)

lemma phase_at_release: "phase_at (release_runtime i failed t lr) j = map_option notified (phase_at lr j)"
  by (simp add: phase_at_def release_runtime_def set_runtime_def)

lemma phase_at_set_phase: "phase_at (set_phase j p lr) k = (if k = j \<and> phase_at lr j \<noteq> None then Some p else phase_at lr k)"
  by (auto simp: phase_at_def set_phase_def)

section \<open>Capacity\<close>

definition lr_inv :: "llama_router \<Rightarrow> bool" where
  "lr_inv lr \<longleftrightarrow> lr_waiting lr = count_phase is_waiting lr \<and> lr_waiting lr \<le> lr_maximum_queue_size lr \<and>
     (\<forall>i < length (lr_runtimes lr). rt_active (lr_runtimes lr ! i) = count_phase (holds_lease i) lr \<and>
        rt_active (lr_runtimes lr ! i) \<le> max_concurrency (rt_replica (lr_runtimes lr ! i))) \<and>
     (\<forall>j p i. phase_at lr j = Some p \<and> holds_lease i p \<longrightarrow> i < length (lr_runtimes lr))"

text \<open>A request moves on: it leaves the queue exactly when the counter goes down, and keeps its lease.\<close>

lemma move_inv:
  assumes "lr_inv lr" "phase_at lr j = Some q" "\<And>i. holds_lease i p = holds_lease i q" "is_waiting p = is_waiting q"
  shows "lr_inv (set_phase j p lr)"
proof -
  have "count_phase (holds_lease i) (set_phase j p lr) = count_phase (holds_lease i) lr"
    "count_phase is_waiting (set_phase j p lr) = count_phase is_waiting lr" for i
    using count_set_phase [OF assms(2)] assms(3,4) by simp_all
  moreover have "phase_at (set_phase j p lr) k = Some p' \<Longrightarrow> holds_lease i p' \<Longrightarrow> i < length (lr_runtimes lr)" for k p' i
    using assms(1-3) by (auto simp: phase_at_set_phase lr_inv_def split: if_splits)
  ultimately show ?thesis using assms(1) by (auto simp: lr_inv_def set_phase_def)
qed

lemma now_inv [simp]: "lr_inv (lr\<lparr>lr_now := t\<rparr>) = lr_inv lr"
  by (simp add: lr_inv_def)

lemma leave_inv:
  assumes "lr_inv lr" "phase_at lr j = Some q" "is_waiting q" "\<not> is_waiting p" "\<And>i. \<not> holds_lease i p"
  shows "lr_inv (leave_queue j p lr)"
proof -
  have "\<not> holds_lease i q" for i using assms(3) by (cases q) auto
  then have "count_phase (holds_lease i) (set_phase j p lr) = count_phase (holds_lease i) lr"
    "count_phase is_waiting (set_phase j p lr) = count_phase is_waiting lr - 1" for i
    using count_set_phase [OF assms(2)] assms(3-5) by simp_all
  moreover have "phase_at (set_phase j p lr) k = Some p' \<Longrightarrow> holds_lease i p' \<Longrightarrow> i < length (lr_runtimes lr)" for k p' i
    using assms by (auto simp: phase_at_set_phase lr_inv_def split: if_splits)
  ultimately show ?thesis using assms(1) by (auto simp: lr_inv_def leave_queue_def set_phase_def)
qed

text \<open>A round starts with its request counted in the queue.\<close>

lemma candidates_mem: "i \<in> set (candidates model now lr) \<longleftrightarrow> i < length (lr_runtimes lr) \<and> eligible model now (lr_runtimes lr ! i)"
  by (auto simp: candidates_def)

lemma candidates_nonempty: "candidates model now lr \<noteq> [] \<longleftrightarrow> (\<exists>rt \<in> set (lr_runtimes lr). eligible model now rt)"
proof -
  have "candidates model now lr \<noteq> [] \<longleftrightarrow> (\<exists>i. i \<in> set (candidates model now lr))"
    by (metis list.set_intros(1) list.exhaust empty_iff empty_set)
  then show ?thesis unfolding candidates_mem by (metis in_set_conv_nth)
qed

lemma fl_pos_iff: "0 < fl x \<longleftrightarrow> 0 < x"
proof
  assume "0 < x"
  then have "0 < x - x / 2 ^ 53" by (simp add: field_simps)
  with fl_ge [of x] \<open>0 < x\<close> show "0 < fl x" by simp
next
  assume *: "0 < fl x"
  have "\<bar>fl x - x\<bar> \<le> \<bar>x\<bar> / 2 ^ 53" by (rule fl_error)
  moreover have "\<bar>x\<bar> / 2 ^ 53 \<le> \<bar>x\<bar>" by (simp add: field_simps mult_le_cancel_left1)
  ultimately show "0 < x" using * by linarith
qed

lemma lease_inv:
  assumes "lr_inv lr" "phase_at lr j = Some q" "is_waiting q"
    and "i \<in> set (candidates model now lr)"
  shows "lr_inv (leave_queue j (Sending i w) (set_runtime i (rt_active_update (\<lambda>n. n + 1)) lr))"
proof -
  let ?lr = "set_runtime i (rt_active_update (\<lambda>n. n + 1)) lr" let ?lr' = "leave_queue j (Sending i w) ?lr"
  have i: "i < length (lr_runtimes lr)" "rt_active (lr_runtimes lr ! i) < max_concurrency (rt_replica (lr_runtimes lr ! i))"
    using assms(4) by (auto simp: candidates_mem eligible_def)
  have p: "phase_at ?lr j = Some q" using assms(2) by simp
  have "\<not> holds_lease k q" for k using assms(3) by (cases q) auto
  then have c: "count_phase (holds_lease k) ?lr' = count_phase (holds_lease k) lr + of_bool (k = i)"
    "count_phase is_waiting ?lr' = count_phase is_waiting lr - 1" for k
    using count_set_phase [OF p] assms(3) by (auto simp: leave_queue_def)
  have "phase_at ?lr' k = Some p' \<Longrightarrow> holds_lease m p' \<Longrightarrow> m < length (lr_runtimes lr)" for k p' m
    using assms(1) i(1) by (auto simp: phase_at_set_phase leave_queue_def lr_inv_def split: if_splits)
  moreover have "lr_runtimes ?lr' ! k = (if k = i then rt_active_update (\<lambda>n. n + 1) (lr_runtimes lr ! i) else lr_runtimes lr ! k)"
    "length (lr_runtimes ?lr') = length (lr_runtimes lr)" "lr_waiting ?lr' = lr_waiting lr - 1"
    "lr_maximum_queue_size ?lr' = lr_maximum_queue_size lr" for k
    using i(1) by (auto simp: leave_queue_def set_phase_def set_runtime_def)
  ultimately show ?thesis using assms(1) i c by (auto simp: lr_inv_def)
qed


lemma round_inv:
  assumes "lr_inv lr" "phase_at lr j = Some q" "is_waiting q"
  shows "lr_inv (acquire_round j started now t lr)"
proof (cases "py_min_key (\<lambda>i. load_key (lr_runtimes lr ! i)) (candidates (lq_model (lr_requests lr ! j)) now lr)")
  case (Inr i)
  from lease_inv [OF assms py_min_key_mem [OF Inr]] show ?thesis by (simp add: acquire_round_def Inr)
next
  case (Inl e)
  have "\<not> holds_lease i q" for i using assms(3) by (cases q) auto
  with assms show ?thesis by (auto simp: acquire_round_def Inl Let_def intro!: leave_inv [OF assms] move_inv [OF assms(1,2)])
qed

text \<open>A request that enters the loop is one that has just joined the queue.\<close>

definition join_queue :: "nat \<Rightarrow> pyfloat \<Rightarrow> llama_router \<Rightarrow> llama_router" where
  "join_queue j started lr = (set_phase j (Waiting started started 0 True) lr)\<lparr>lr_waiting := lr_waiting lr + 1\<rparr>"

lemma lq_model_set_phase: "lq_model (lr_requests (set_phase j p lr) ! k) = lq_model (lr_requests lr ! k)"
  by (cases "j < length (lr_requests lr)") (auto simp: set_phase_def nth_list_update list_update_beyond)

lemma acquire_round_join:
  assumes "phase_at lr j \<noteq> None"
  shows "acquire_round j started now t (lr\<lparr>lr_waiting := lr_waiting lr + 1\<rparr>) = acquire_round j started now t (join_queue j started lr)"
proof -
  let ?lr = "lr\<lparr>lr_waiting := lr_waiting lr + 1\<rparr>" let ?jq = "join_queue j started lr"
  have rts: "lr_runtimes ?jq = lr_runtimes ?lr" "lr_queue_timeout ?jq = lr_queue_timeout ?lr"
    by (simp_all add: join_queue_def set_phase_def)
  have model: "lq_model (lr_requests ?jq ! j) = lq_model (lr_requests ?lr ! j)"
    using lq_model_set_phase [of j _ lr j] by (simp add: join_queue_def)
  have phase: "set_phase j p ?jq = set_phase j p ?lr" for p
    using assms by (simp add: join_queue_def set_phase_def phase_at_def split: if_splits)
  have set_rt: "set_phase j p (set_runtime i f ?jq) = set_phase j p (set_runtime i f ?lr)" for i f p
    using assms by (simp add: join_queue_def set_runtime_def set_phase_def phase_at_def split: if_splits)
  have leave: "leave_queue j p ?jq = leave_queue j p ?lr"
    "leave_queue j p (set_runtime i f ?jq) = leave_queue j p (set_runtime i f ?lr)" for p i f
    unfolding leave_queue_def phase set_rt by (simp_all add: join_queue_def set_runtime_def set_phase_def)
  have same: "candidates m now ?jq = candidates m now ?lr" "wait_seconds m now r ?jq = wait_seconds m now r ?lr" for m r
    by (simp_all add: candidates_def wait_seconds_def cooldowns_def rts)
  show ?thesis unfolding acquire_round_def model same rts leave phase ..
qed

lemma join_inv:
  assumes "lr_inv lr" "phase_at lr j = Some (Entering started')" "lr_waiting lr < lr_maximum_queue_size lr"
  shows "lr_inv (join_queue j started lr)" "phase_at (join_queue j started lr) j = Some (Waiting started started 0 True)"
proof -
  have "count_phase (holds_lease i) (join_queue j started lr) = count_phase (holds_lease i) lr"
    "count_phase is_waiting (join_queue j started lr) = count_phase is_waiting lr + 1" for i
    using count_set_phase [OF assms(2)] by (simp_all add: join_queue_def)
  moreover have "phase_at (join_queue j started lr) k = Some p' \<Longrightarrow> holds_lease i p' \<Longrightarrow> i < length (lr_runtimes lr)" for k p' i
    using assms by (auto simp: phase_at_set_phase join_queue_def lr_inv_def split: if_splits)
  ultimately show "lr_inv (join_queue j started lr)" using assms by (auto simp: lr_inv_def join_queue_def set_phase_def)
  show "phase_at (join_queue j started lr) j = Some (Waiting started started 0 True)"
    using assms(2) by (simp add: join_queue_def phase_at_set_phase)
qed

lemma enter_inv:
  assumes "lr_inv lr" "phase_at lr j = Some (Entering started')"
  shows "lr_inv (acquire_enter j started now t lr)"
proof (cases "lr_maximum_queue_size lr \<le> lr_waiting lr")
  case True
  then show ?thesis by (simp add: acquire_enter_def move_inv [OF assms])
next
  case False
  then show ?thesis using round_inv [OF join_inv [OF assms]] assms(2) by (simp add: acquire_enter_def acquire_round_join)
qed

lemma release_inv:
  assumes "lr_inv lr" "phase_at lr j = Some (Releasing i failed out)"
  shows "lr_inv (set_phase j (Finished out) (release_runtime i failed t lr))"
proof -
  let ?lr = "release_runtime i failed t lr" let ?lr' = "set_phase j (Finished out) ?lr"
  have i: "i < length (lr_runtimes lr)" using assms unfolding lr_inv_def by (metis holds_lease.simps(3))
  have p: "phase_at ?lr j = Some (Releasing i failed out)" using assms(2) by (simp add: phase_at_release)
  have c: "count_phase (holds_lease k) ?lr' = count_phase (holds_lease k) lr - of_bool (k = i)"
    "count_phase is_waiting ?lr' = count_phase is_waiting lr" for k
    using count_set_phase [OF p] by auto
  have "phase_at ?lr' k = Some p' \<Longrightarrow> holds_lease m p' \<Longrightarrow> m < length (lr_runtimes lr)" for k p' m
    using assms(1) by (fastforce simp: phase_at_set_phase phase_at_release lr_inv_def split: if_splits)
  moreover have "rt_active (lr_runtimes ?lr' ! k) = rt_active (lr_runtimes lr ! k) - of_bool (k = i)"
    "rt_replica (lr_runtimes ?lr' ! k) = rt_replica (lr_runtimes lr ! k)"
    "length (lr_runtimes ?lr') = length (lr_runtimes lr)" "lr_waiting ?lr' = lr_waiting lr"
    "lr_maximum_queue_size ?lr' = lr_maximum_queue_size lr" if "k < length (lr_runtimes lr)" for k
    using i that by (auto simp: set_phase_def release_runtime_def set_runtime_def nth_list_update)
  ultimately show ?thesis using assms(1) i c by (auto simp: lr_inv_def)
qed

lemma advance_Some: "advance t lr = Some lr' \<longleftrightarrow> lr_now lr \<le> t \<and> lr' = lr\<lparr>lr_now := t\<rparr>"
  by (auto simp: advance_def)

lemma request_inv:
  assumes "lr_inv lr"
  shows "lr_inv (lr\<lparr>lr_now := now, lr_requests := lr_requests lr @ [\<lparr>lq_model = m, lq_stream = b, lq_phase = Entering t\<rparr>]\<rparr>)"
  using assms by (auto simp: lr_inv_def count_phase_def phase_at_def nth_append less_Suc_eq split: if_splits)

lemma llama_next_inv:
  assumes "llama_next l lr = Some lr'" "lr_inv lr"
  shows "lr_inv lr'"
  using assms
  by (cases l)
    (auto simp: advance_Some upstream_answered_def stream_end_def intro: request_inv enter_inv round_inv release_inv move_inv leave_inv
      split: option.splits llama_phase.splits if_splits upstream_answer.splits)


lemma llama_exec_inv: "llama_exec ls lr = Some lr' \<Longrightarrow> lr_inv lr \<Longrightarrow> lr_inv lr'"
  by (induction ls arbitrary: lr) (auto simp: bind_eq_Some_conv dest: llama_next_inv)

lemma mk_inv:
  assumes "mk_llama_router replicas n timeout cooldown = Inr lr" "list_all valid_replica replicas"
  shows "lr_inv lr"
  using assms
  by (auto simp: mk_llama_router_def lr_inv_def count_phase_def phase_at_def list_all_iff valid_replica_def less_imp_le split: if_splits)

section \<open>No missed wake-up\<close>

text \<open>
  A request that waits and has not been notified since: at no time before its timer runs out does a
  replica of its model have capacity. The factor is the rounding of the one subtraction that computed
  the timer.
\<close>

definition sleeps_soundly :: "llama_router \<Rightarrow> string \<Rightarrow> llama_phase \<Rightarrow> bool" where
  "sleeps_soundly lr model p \<longleftrightarrow>
     (\<forall>started since w. p = Waiting started since w False \<longrightarrow>
       (\<forall>t rt. since \<le> t \<and> (t - since) * (1 + 1 / 2 ^ 53) < w \<and> rt \<in> set (lr_runtimes lr) \<longrightarrow> \<not> eligible model t rt))"

definition all_sleep :: "llama_router \<Rightarrow> bool" where
  "all_sleep lr \<longleftrightarrow> (\<forall>q \<in> set (lr_requests lr). sleeps_soundly lr (lq_model q) (lq_phase q))"

lemma notified_sleeps [simp]: "sleeps_soundly lr m (notified p)"
  by (cases p) (auto simp: sleeps_soundly_def)

lemma awake_sleeps [simp]: "\<not> is_waiting p \<Longrightarrow> sleeps_soundly lr m p"
  by (auto simp: sleeps_soundly_def)

lemma sleeps_cong: "lr_runtimes lr' = lr_runtimes lr \<Longrightarrow> sleeps_soundly lr' m p = sleeps_soundly lr m p"
  by (simp add: sleeps_soundly_def)

lemma all_sleep_set_phase:
  assumes "all_sleep lr" "sleeps_soundly lr (lq_model (lr_requests lr ! j)) p"
  shows "all_sleep (set_phase j p lr)"
proof (cases "j < length (lr_requests lr)")
  case True
  with assms show ?thesis
    by (auto simp: all_sleep_def set_phase_def sleeps_soundly_def dest!: set_update_subset_insert [THEN subsetD])
qed (use assms in \<open>simp add: set_phase_def list_update_beyond\<close>)

lemma all_sleep_waiting [simp]: "all_sleep (lr\<lparr>lr_waiting := n\<rparr>) = all_sleep lr" "all_sleep (lr\<lparr>lr_now := t\<rparr>) = all_sleep lr"
  by (simp_all add: all_sleep_def sleeps_soundly_def)

text \<open>One more active request on a replica only takes capacity away.\<close>

lemma all_sleep_taken:
  assumes "all_sleep lr"
  shows "all_sleep (set_runtime i (rt_active_update (\<lambda>n. n + 1)) lr)"
proof (cases "i < length (lr_runtimes lr)")
  case True
  have "\<not> eligible m t rt'"
    if "\<forall>rt \<in> set (lr_runtimes lr). \<not> eligible m t rt"
      "rt' \<in> set ((lr_runtimes lr)[i := rt_active_update (\<lambda>n. n + 1) (lr_runtimes lr ! i)])" for m t rt'
    using that nth_mem [OF True] by (auto simp: eligible_def dest!: set_update_subset_insert [THEN subsetD])
  with assms show ?thesis unfolding all_sleep_def sleeps_soundly_def set_runtime_def by simp
qed (use assms in \<open>simp add: set_runtime_def list_update_beyond\<close>)

lemma all_sleep_leave:
  "all_sleep lr \<Longrightarrow> \<not> is_waiting p \<Longrightarrow> all_sleep (leave_queue j p lr)"
  by (simp add: leave_queue_def all_sleep_set_phase)

lemma cooldown_bound:
  assumes "rt \<in> set (lr_runtimes lr)" "dict_mem m (replica_models (rt_replica rt))" "now < rt_unavailable_until rt"
    "now \<le> t" "(t - now) * (1 + 1 / 2 ^ 53) < wait_seconds m now remaining lr"
  shows "t < rt_unavailable_until rt"
proof -
  let ?d = "rt_unavailable_until rt - now"
  have mem: "fl ?d \<in> set (cooldowns m now lr)" using assms(1-3) by (auto simp: cooldowns_def)
  then have "cooldowns m now lr \<noteq> []" by auto
  then have "wait_seconds m now remaining lr \<le> Min (set (cooldowns m now lr))" by (simp add: wait_seconds_def Let_def)
  also have "\<dots> \<le> fl ?d" using mem by simp
  also have "\<dots> \<le> ?d * (1 + 1 / 2 ^ 53)" using fl_le [of ?d] assms(3) by (simp add: field_simps)
  finally have "(t - now) * (1 + 1 / 2 ^ 53) < ?d * (1 + 1 / 2 ^ 53)" using assms(5) by linarith
  then show ?thesis by simp
qed

lemma round_sleeps:
  assumes "all_sleep lr"
  shows "all_sleep (acquire_round j started now t lr)"
proof (cases "py_min_key (\<lambda>i. load_key (lr_runtimes lr ! i)) (candidates (lq_model (lr_requests lr ! j)) now lr)")
  case (Inr i)
  with assms show ?thesis by (simp add: acquire_round_def all_sleep_leave all_sleep_taken)
next
  case (Inl e)
  let ?m = "lq_model (lr_requests lr ! j)" let ?r = "fl (fl (started + lr_queue_timeout lr) - now)"
  have none: "candidates ?m now lr = []" using Inl py_min_key_total by (metis sum.distinct(1))
  have "\<not> eligible ?m t' rt" if "now \<le> t'" "(t' - now) * (1 + 1 / 2 ^ 53) < wait_seconds ?m now ?r lr" "rt \<in> set (lr_runtimes lr)" for t' rt
  proof
    assume el: "eligible ?m t' rt"
    have "\<not> eligible ?m now rt" using none that(3) by (auto simp: candidates_def filter_empty_conv in_set_conv_nth)
    then have "now < rt_unavailable_until rt" using el by (auto simp: eligible_def)
    from cooldown_bound [OF that(3) _ this that(1,2)] el show False by (auto simp: eligible_def)
  qed
  then have "sleeps_soundly lr ?m (Waiting started now (wait_seconds ?m now ?r lr) False)" by (auto simp: sleeps_soundly_def)
  with assms show ?thesis by (simp add: acquire_round_def Inl Let_def all_sleep_leave all_sleep_set_phase)
qed

lemma release_sleeps: "all_sleep (release_runtime i failed t lr)"
  by (auto simp: all_sleep_def release_runtime_def)

lemma request_sleeps:
  "all_sleep lr \<Longrightarrow> all_sleep (lr\<lparr>lr_now := now, lr_requests := lr_requests lr @ [\<lparr>lq_model = m, lq_stream = b, lq_phase = Entering t\<rparr>]\<rparr>)"
  by (auto simp: all_sleep_def sleeps_soundly_def)

lemma llama_next_sleeps:
  assumes "llama_next l lr = Some lr'" "all_sleep lr"
  shows "all_sleep lr'"
  using assms
  by (cases l)
    (auto simp: advance_Some upstream_answered_def stream_end_def acquire_enter_def
      intro!: request_sleeps round_sleeps all_sleep_set_phase all_sleep_leave release_sleeps
      split: option.splits llama_phase.splits if_splits upstream_answer.splits)


lemma cooldown_pos: "c \<in> set (cooldowns model now lr) \<Longrightarrow> 0 < c"
  by (auto simp: cooldowns_def fl_pos_iff)

lemma wait_bounds: "wait_seconds model now r lr \<le> r" "0 < r \<Longrightarrow> 0 < wait_seconds model now r lr"
proof -
  show "wait_seconds model now r lr \<le> r" by (simp add: wait_seconds_def Let_def)
  have "0 < Min (set (cooldowns model now lr))" if "cooldowns model now lr \<noteq> []"
    using Min_in [of "set (cooldowns model now lr)"] that cooldown_pos by simp
  then show "0 < r \<Longrightarrow> 0 < wait_seconds model now r lr" by (simp add: wait_seconds_def Let_def)
qed

lemma wait_seconds_now: "wait_seconds model now r (lr\<lparr>lr_now := t\<rparr>) = wait_seconds model now r lr"
  by (simp add: wait_seconds_def cooldowns_def)

lemma round_with_candidate:
  assumes "phase_at lr j \<noteq> None"
    "py_min_key (\<lambda>i. load_key (lr_runtimes lr ! i)) (candidates (lq_model (lr_requests lr ! j)) now lr) = Inr i"
  shows "phase_at (acquire_round j started now t lr) j = Some (Sending i (fl (t - started)))"
  using assms by (simp add: acquire_round_def leave_queue_def phase_at_set_phase)

lemma round_without_candidates:
  assumes "phase_at lr j \<noteq> None" "candidates (lq_model (lr_requests lr ! j)) now lr = []"
  shows "phase_at (acquire_round j started now t lr) j =
    Some (let remaining = fl (fl (started + lr_queue_timeout lr) - now) in
      if remaining \<le> 0 then Finished QueueTimeout
      else Waiting started now (wait_seconds (lq_model (lr_requests lr ! j)) now remaining lr) False)"
  using assms by (simp add: acquire_round_def Let_def leave_queue_def phase_at_set_phase)

lemma llama_exec_sleeps: "llama_exec ls lr = Some lr' \<Longrightarrow> all_sleep lr \<Longrightarrow> all_sleep lr'"
  by (induction ls arbitrary: lr) (auto simp: bind_eq_Some_conv dest: llama_next_sleeps)

section \<open>Lost leases\<close>

lemma round_other: "k \<noteq> j \<Longrightarrow> phase_at (acquire_round j started now t lr) k = phase_at lr k"
  by (simp add: acquire_round_def leave_queue_def phase_at_set_phase Let_def split: sum.split)

lemma round_lost:
  "phase_at lr k = Some p \<Longrightarrow> phase_at lr j = Some (Lost i) \<Longrightarrow> p \<noteq> Lost i \<Longrightarrow>
   phase_at (acquire_round k started now t lr) j = Some (Lost i)"
  using round_other [of j k started now t lr] by (cases "k = j") auto

lemma lost_stays:
  assumes "llama_next l lr = Some lr'" "phase_at lr j = Some (Lost i)"
  shows "phase_at lr' j = Some (Lost i)"
proof -
  have new: "phase_at (lr\<lparr>lr_now := now, lr_requests := lr_requests lr @ [q]\<rparr>) j = Some (Lost i)" for now q
    using assms(2) by (auto simp: phase_at_def nth_append split: if_splits)
  show ?thesis
    using assms new
    by (cases l)
      (auto simp: advance_Some upstream_answered_def stream_end_def acquire_enter_def phase_at_set_phase phase_at_release
        leave_queue_def intro!: round_lost
        split: option.splits llama_phase.splits if_splits)
qed

lemma rt_replica_set:
  "rt_replica (f (lr_runtimes lr ! i)) = rt_replica (lr_runtimes lr ! i) \<Longrightarrow>
   map rt_replica (lr_runtimes (set_runtime i f lr)) = map rt_replica (lr_runtimes lr)"
  by (cases "i < length (lr_runtimes lr)") (auto simp: set_runtime_def map_update list_update_beyond nth_list_update intro!: nth_equalityI)

lemma replicas_fixed:
  assumes "llama_next l lr = Some lr'"
  shows "map rt_replica (lr_runtimes lr') = map rt_replica (lr_runtimes lr)"
proof -
  have phase: "lr_runtimes (set_phase j p x) = lr_runtimes x" "lr_runtimes (leave_queue j p x) = lr_runtimes x" for j p x
    by (simp_all add: set_phase_def leave_queue_def)
  have round_same: "map rt_replica (lr_runtimes (acquire_round j started now t x)) = map rt_replica (lr_runtimes x)" for j started now t x
    by (simp add: acquire_round_def Let_def phase rt_replica_set split: sum.split)
  have release_same: "map rt_replica (lr_runtimes (release_runtime i failed t x)) = map rt_replica (lr_runtimes x)" for i failed t x
    by (simp add: release_runtime_def rt_replica_set)
  show ?thesis
    using assms
    by (cases l) (auto simp: advance_Some upstream_answered_def stream_end_def acquire_enter_def phase round_same release_same
        split: option.splits llama_phase.splits if_splits)
qed

lemma exec_lost:
  "llama_exec ls lr = Some lr' \<Longrightarrow> phase_at lr j = Some (Lost i) \<Longrightarrow>
   phase_at lr' j = Some (Lost i) \<and> map rt_replica (lr_runtimes lr') = map rt_replica (lr_runtimes lr)"
proof (induction ls arbitrary: lr)
  case (Cons l ls)
  then obtain x where x: "llama_next l lr = Some x" "llama_exec ls x = Some lr'" by (auto simp: bind_eq_Some_conv)
  from Cons.IH [OF x(2) lost_stays [OF x(1) Cons.prems(2)]] replicas_fixed [OF x(1)] show ?case by simp
qed simp

lemma lost_counts:
  assumes "phase_at lr j = Some (Lost i)"
  shows "1 \<le> count_phase (holds_lease i) lr"
proof -
  have "lr_requests lr ! j \<in> set (filter (\<lambda>q. holds_lease i (lq_phase q)) (lr_requests lr))"
    using assms by (auto simp: phase_at_def split: if_splits)
  then show ?thesis unfolding count_phase_def by (cases "filter (\<lambda>q. holds_lease i (lq_phase q)) (lr_requests lr)") auto
qed

section \<open>Properties\<close>

text \<open>
  C20: the router never exceeds its limits. However requests, releases, cancellations and failures
  interleave, the queue counter is the number of waiting requests and stays within the queue's size, and
  every replica's counter is the number of leases held on it and stays within its concurrency.
\<close>

theorem llama_router_within_capacity:
  assumes "mk_llama_router replicas n timeout cooldown = Inr lr0" "list_all valid_replica replicas"
    and "llama_exec ls lr0 = Some lr" "i < length (lr_runtimes lr)"
  shows "lr_waiting lr = count_phase is_waiting lr \<and> lr_waiting lr \<le> lr_maximum_queue_size lr \<and>
    rt_active (lr_runtimes lr ! i) = count_phase (holds_lease i) lr \<and>
    rt_active (lr_runtimes lr ! i) \<le> max_concurrency (rt_replica (lr_runtimes lr ! i))"
  using llama_exec_inv [OF assms(3) mk_inv [OF assms(1,2)]] assms(4) unfolding lr_inv_def by blast

text \<open>
  C29: no request sleeps through free capacity. While a request waits and has not been notified, no
  replica of its model can take it at any time before its timer runs out.
\<close>

theorem llama_no_missed_wakeup:
  assumes "mk_llama_router replicas n timeout cooldown = Inr lr0" "llama_exec ls lr0 = Some lr"
    and "q \<in> set (lr_requests lr)" "lq_phase q = Waiting started since w False"
    and "since \<le> t" "(t - since) * (1 + 1 / 2 ^ 53) < w" "rt \<in> set (lr_runtimes lr)"
  shows "\<not> eligible (lq_model q) t rt"
proof -
  have "all_sleep lr0" using assms(1) by (auto simp: mk_llama_router_def all_sleep_def split: if_splits)
  from llama_exec_sleeps [OF assms(2) this] assms(3-7) show ?thesis by (auto simp: all_sleep_def sleeps_soundly_def)
qed

text \<open>
  C30: a round of the loop of \<^verbatim>\<open>_acquire\<close> settles the request unless nothing is free and time is left. With a
  replica that can take it, the request gets a lease on one with the least load; else, from its
  deadline on, it is rejected; else it waits for a positive time that ends by the deadline, so that no
  request waits for ever.
\<close>

theorem llama_acquire_settles:
  assumes "phase_at lr j = Some (Waiting started since w b)" "llama_next (LrWake j now t) lr = Some lr'"
    and "model = lq_model (lr_requests lr ! j)" "deadline = fl (started + lr_queue_timeout lr)"
  shows "if \<exists>rt \<in> set (lr_runtimes lr). eligible model now rt
    then \<exists>i < length (lr_runtimes lr). phase_at lr' j = Some (Sending i (fl (t - started))) \<and> eligible model now (lr_runtimes lr ! i) \<and>
      (\<forall>rt \<in> set (lr_runtimes lr). eligible model now rt \<longrightarrow> load_key (lr_runtimes lr ! i) \<le> load_key rt)
    else if deadline \<le> now then phase_at lr' j = Some (Finished QueueTimeout)
    else \<exists>w'. phase_at lr' j = Some (Waiting started now w' False) \<and> 0 < w' \<and> w' \<le> fl (deadline - now)"
proof -
  let ?lr = "lr\<lparr>lr_now := now\<rparr>"
  have lr': "lr' = acquire_round j started now t ?lr"
    using assms(1,2) by (simp add: advance_def split: if_splits)
  have j: "phase_at ?lr j \<noteq> None" using assms(1) by simp
  have ex: "(\<exists>rt \<in> set (lr_runtimes lr). eligible model now rt) \<longleftrightarrow> candidates model now ?lr \<noteq> []"
    using candidates_nonempty [of model now ?lr] by simp
  note pos = fl_pos_iff
  show ?thesis
  proof (cases "py_min_key (\<lambda>i. load_key (lr_runtimes ?lr ! i)) (candidates model now ?lr)")
    case (Inr i)
    then have i: "i \<in> set (candidates model now ?lr)" by (rule py_min_key_mem)
    then have "candidates model now ?lr \<noteq> []" by auto
    then have "\<exists>rt \<in> set (lr_runtimes lr). eligible model now rt" using ex by blast
    moreover have "phase_at lr' j = Some (Sending i (fl (t - started)))"
      unfolding lr' using round_with_candidate [OF j, of now i started t] Inr assms(3) by simp
    moreover have "load_key (lr_runtimes lr ! i) \<le> load_key rt" if rt: "rt \<in> set (lr_runtimes lr)" "eligible model now rt" for rt
    proof -
      obtain k where k: "k < length (lr_runtimes lr)" "rt = lr_runtimes lr ! k" using rt(1) by (metis in_set_conv_nth)
      then have "k \<in> set (candidates model now ?lr)" using rt(2) by (simp add: candidates_mem)
      from py_min_key_le [OF Inr this] k show ?thesis by simp
    qed
    moreover have "i < length (lr_runtimes lr)" "eligible model now (lr_runtimes lr ! i)" using i by (simp_all add: candidates_mem)
    ultimately show ?thesis by (simp only: if_True) blast
  next
    case (Inl e)
    then have none: "candidates model now ?lr = []" using py_min_key_total by (metis sum.distinct(1))
    let ?w = "wait_seconds model now (fl (deadline - now)) lr"
    have bound: "?w \<le> fl (deadline - now)" "\<not> deadline \<le> now \<Longrightarrow> 0 < ?w"
      using wait_bounds(1) [of model now "fl (deadline - now)" lr] wait_bounds(2) [of "fl (deadline - now)" model now lr] pos [of "deadline - now"] by simp_all
    have "phase_at lr' j = Some (if deadline \<le> now then Finished QueueTimeout else Waiting started now ?w False)"
      using round_without_candidates [OF j, of now started t] none pos [of "deadline - now"] assms(3,4)
      by (simp add: lr' Let_def wait_seconds_now flip: not_less)
    moreover have "\<not> (\<exists>rt \<in> set (lr_runtimes lr). eligible model now rt)" using ex none by blast
    ultimately show ?thesis using bound by (simp only: if_False) simp
  qed
qed

text \<open>
  A lease that is lost is lost for ever. When a request ends without releasing its lease - its task
  is cancelled while it waits for the replica's answer, or its response is never read - a replica that
  serves one request at a time never takes another one.
\<close>

theorem lost_lease_blocks_replica:
  assumes "mk_llama_router replicas n timeout cooldown = Inr lr0" "list_all valid_replica replicas"
    and "llama_exec ls lr0 = Some lr" "phase_at lr j = Some (Lost i)"
    and "max_concurrency (rt_replica (lr_runtimes lr ! i)) = 1" "llama_exec ls' lr = Some lr'"
  shows "\<not> eligible model t (lr_runtimes lr' ! i)"
proof -
  have inv: "lr_inv lr" using llama_exec_inv [OF assms(3) mk_inv [OF assms(1,2)]] .
  have i: "i < length (lr_runtimes lr)" using inv assms(4) unfolding lr_inv_def by (metis holds_lease.simps(4))
  have fixed: "phase_at lr' j = Some (Lost i)" "map rt_replica (lr_runtimes lr') = map rt_replica (lr_runtimes lr)"
    using exec_lost [OF assms(6,4)] by auto
  then have "length (lr_runtimes lr') = length (lr_runtimes lr)" "rt_replica (lr_runtimes lr' ! i) = rt_replica (lr_runtimes lr ! i)"
    using i by (metis length_map, metis length_map nth_map)
  then have "1 \<le> rt_active (lr_runtimes lr' ! i)"
    using llama_exec_inv [OF assms(6) inv] i lost_counts [OF fixed(1)] by (simp add: lr_inv_def)
  then show ?thesis using assms(5) \<open>rt_replica (lr_runtimes lr' ! i) = _\<close> by (simp add: eligible_def)
qed


section \<open>A small router\<close>

definition demo_replica :: llama_replica where
  "demo_replica = \<lparr>replica_id = ''r'', node_name = ''n'', base_url = ''u'', replica_models = [(''m'', ''f'')], max_concurrency = 1\<rparr>"

definition demo_llama_start :: llama_router where
  "demo_llama_start = (case mk_llama_router [demo_replica] 1 8 4 of Inr lr \<Rightarrow> lr)"

abbreviation demo_queue :: "llama_label list" where
  "demo_queue \<equiv> [LrRequest ''m'' True 1, LrEnter 0 1 1, LrRequest ''m'' False 2, LrEnter 1 2 2]"

lemma fl_small: "(numeral k :: int) \<le> 2 ^ 53 \<Longrightarrow> fl (numeral k) = numeral k" "fl 1 = 1"
  using fl_of_int [of "numeral k"] fl_of_int [of 1] by simp_all

lemmas llama_exec_simps = mk_llama_router_def demo_replica_def advance_def phase_at_def acquire_enter_def acquire_round_def
  candidates_def eligible_def leave_queue_def set_phase_def set_runtime_def wait_seconds_def cooldowns_def upstream_answered_def
  release_runtime_def fl_small Let_def

lemma demo_start: "mk_llama_router [demo_replica] 1 8 4 = Inr demo_llama_start"
  by (simp add: demo_llama_start_def mk_llama_router_def)

lemma demo_queue_run:
  "\<exists>lr q. llama_exec demo_queue demo_llama_start = Some lr \<and> lr_runtimes lr = [\<lparr>rt_replica = demo_replica, rt_active = 1, rt_completed = 0, rt_failed = 0, rt_unavailable_until = 0\<rparr>] \<and>
     lr_requests lr ! 1 = q \<and> length (lr_requests lr) = 2 \<and> lq_model q = ''m'' \<and> lq_phase q = Waiting 2 2 8 False \<and> lr_waiting lr = 1"
  by (simp add: demo_llama_start_def llama_exec_simps)


theorem llama_router_within_capacity_witness:
  "\<exists>lr. llama_exec demo_queue demo_llama_start = Some lr \<and> lr_waiting lr = 1 \<and> lr_waiting lr \<le> lr_maximum_queue_size lr \<and>
     rt_active (lr_runtimes lr ! 0) = count_phase (holds_lease 0) lr \<and> rt_active (lr_runtimes lr ! 0) = 1"
proof -
  obtain lr where lr: "llama_exec demo_queue demo_llama_start = Some lr" "rt_active (lr_runtimes lr ! 0) = 1" "lr_waiting lr = 1"
    "0 < length (lr_runtimes lr)" using demo_queue_run by auto
  have "list_all valid_replica [demo_replica]" by (simp add: valid_replica_def demo_replica_def)
  from llama_router_within_capacity [OF demo_start this lr(1,4)] lr show ?thesis by auto
qed

theorem llama_no_missed_wakeup_witness:
  "\<exists>lr q rt. llama_exec demo_queue demo_llama_start = Some lr \<and> lr_requests lr ! 1 = q \<and> lq_phase q = Waiting 2 2 8 False \<and>
     rt = lr_runtimes lr ! 0 \<and> \<not> eligible (lq_model q) 5 rt"
proof -
  obtain lr q where lr: "llama_exec demo_queue demo_llama_start = Some lr" "lr_requests lr ! 1 = q" "length (lr_requests lr) = 2"
    "lq_phase q = Waiting 2 2 8 False" "length (lr_runtimes lr) = 1" using demo_queue_run by auto
  have q: "q \<in> set (lr_requests lr)" using lr(2,3) by (metis nth_mem one_less_numeral_iff semiring_norm(76))
  have rt: "lr_runtimes lr ! 0 \<in> set (lr_runtimes lr)" using lr(5) by simp
  have "\<not> eligible (lq_model q) 5 (lr_runtimes lr ! 0)"
    by (rule llama_no_missed_wakeup [OF demo_start lr(1) q lr(4) _ _ rt]) simp_all
  with lr show ?thesis by blast
qed

theorem llama_acquire_settles_witness:
  "\<exists>lr lr'. llama_exec demo_queue demo_llama_start = Some lr \<and> llama_next (LrWake 1 10 10) lr = Some lr' \<and>
     phase_at lr' 1 = Some (Finished QueueTimeout)"
proof -
  obtain lr q where lr: "llama_exec demo_queue demo_llama_start = Some lr" "lr_requests lr ! 1 = q" "length (lr_requests lr) = 2"
    "lq_phase q = Waiting 2 2 8 False" "lq_model q = ''m''" "lr_queue_timeout lr = 8" "lr_now lr = 2"
    "lr_runtimes lr = [\<lparr>rt_replica = demo_replica, rt_active = 1, rt_completed = 0, rt_failed = 0, rt_unavailable_until = 0\<rparr>]"
    by (simp add: demo_llama_start_def llama_exec_simps)
  have p: "phase_at lr 1 = Some (Waiting 2 2 8 False)" using lr by (simp add: phase_at_def)
  then obtain lr' where lr': "llama_next (LrWake 1 10 10) lr = Some lr'" using lr(7) by (simp add: advance_def)
  have "fl (2 + lr_queue_timeout lr) = 10" using fl_small(1) [of "Num.Bit0 (Num.Bit1 (Num.Bit0 Num.One))"] lr(6) by simp
  moreover have "\<not> (\<exists>rt \<in> set (lr_runtimes lr). eligible ''m'' 10 rt)" by (simp add: lr(8) eligible_def demo_replica_def)
  ultimately have "phase_at lr' 1 = Some (Finished QueueTimeout)"
    using llama_acquire_settles [OF p lr' refl refl] lr(2,5) by simp
  with lr(1) lr' show ?thesis by blast
qed

theorem lost_lease_blocks_replica_witness:
  "\<exists>lr lr'. llama_exec [LrRequest ''m'' True 1, LrEnter 0 1 1, LrUpstream 0 (UpStatus 200), LrAbandon 0] demo_llama_start = Some lr \<and>
     llama_exec [LrRequest ''m'' True 9] lr = Some lr' \<and> \<not> eligible ''m'' 100 (lr_runtimes lr' ! 0)"
proof -
  let ?ls = "[LrRequest ''m'' True 1, LrEnter 0 1 1, LrUpstream 0 (UpStatus 200), LrAbandon 0]"
  obtain lr where lr: "llama_exec ?ls demo_llama_start = Some lr" "phase_at lr 0 = Some (Lost 0)"
    "max_concurrency (rt_replica (lr_runtimes lr ! 0)) = 1" "lr_now lr = 1"
    by (simp add: demo_llama_start_def llama_exec_simps)
  then obtain lr' where lr': "llama_exec [LrRequest ''m'' True 9] lr = Some lr'" by (simp add: advance_def)
  have "list_all valid_replica [demo_replica]" by (simp add: valid_replica_def demo_replica_def)
  from lost_lease_blocks_replica [OF demo_start this lr(1-3) lr'] lr(1) lr' show ?thesis by blast
qed

end
