(* ===== verification/Output_Parsers.thy ===== *)
theory Output_Parsers
  imports Py_String Shared_Types "HOL-Library.Sublist"
begin

text \<open>
  The parsers between an engine's tokens and the chunks a client receives
  (\<^verbatim>\<open>src/exo/worker/runner/llm_inference/model_output_parsers.py\<close>). Each is a generator over generators;
  here a generator is the list of what it yields, \<open>None\<close> included (nothing to report yet), and a
  parser's local variables are the arguments of a recursion over its input.

  Parameters: the tool parser and the parser of a DSML block (a text gives tool calls or nothing),
  and the Harmony parser of the \<^verbatim>\<open>openai_harmony\<close> package, whose answer is a function of the tokens it has
  processed, and the random id of a tool call (\<open>new_id\<close>).
\<close>

section \<open>Responses\<close>

record gen_response =
  gr_text :: string
  gr_token :: int
  gr_logprob :: "pyfloat option"
  gr_top_logprobs :: "top_logprob_item list option"
  gr_finish_reason :: "finish_reason option"
  gr_stats :: "generation_stats option"
  gr_usage :: "usage option"
  gr_is_thinking :: bool

record tool_response =
  tr_tool_calls :: "tool_call_item list"
  tr_usage :: "usage option"
  tr_stats :: "generation_stats option"

datatype response = GenerationResponse gen_response | ToolCallResponse tool_response

fun response_usage :: "response \<Rightarrow> usage option" where
  "response_usage (GenerationResponse r) = gr_usage r"
| "response_usage (ToolCallResponse t) = tr_usage t"

fun with_usage :: "usage \<Rightarrow> response \<Rightarrow> response" where
  "with_usage u (GenerationResponse r) = GenerationResponse (r\<lparr>gr_usage := Some u\<rparr>)"
| "with_usage u (ToolCallResponse t) = ToolCallResponse (t\<lparr>tr_usage := Some u\<rparr>)"

fun is_thinking_response :: "response \<Rightarrow> bool" where
  "is_thinking_response (GenerationResponse r) = gr_is_thinking r"
| "is_thinking_response (ToolCallResponse _) = False"

section \<open>Counting and chunks\<close>

fun count_reasoning_tokens :: "int \<Rightarrow> response option list \<Rightarrow> response option list" where
  "count_reasoning_tokens n [] = []"
| "count_reasoning_tokens n (None # rs) = None # count_reasoning_tokens n rs"
| "count_reasoning_tokens n (Some r # rs) =
     (let n' = (if is_thinking_response r then n + 1 else n)
      in Some (case response_usage r of
                 Some u \<Rightarrow> if n' > 0 then with_usage (u\<lparr>us_reasoning_tokens := n'\<rparr>) r else r
               | None \<Rightarrow> r) # count_reasoning_tokens n' rs)"

fun map_responses_to_chunks :: "model_id \<Rightarrow> response option \<Rightarrow> chunk option result" where
  "map_responses_to_chunks m None = Inr None"
| "map_responses_to_chunks m (Some (GenerationResponse r)) =
     (if gr_finish_reason r = Some FinishError then Inr (Some (ErrorChunk m (gr_text r) []))
      else rbind (rassert ''finish_reason'' (gr_finish_reason r \<notin> {Some FinishToolCalls, Some FinishFunctionCall})) (\<lambda>_.
        Inr (Some (TokenChunk \<lparr>tk_model = m, tk_text = gr_text r, tk_token_id = gr_token r, tk_usage = gr_usage r,
          tk_finish_reason = gr_finish_reason r, tk_stats = gr_stats r, tk_logprob = gr_logprob r,
          tk_top_logprobs = gr_top_logprobs r, tk_is_thinking = gr_is_thinking r\<rparr>))))"
| "map_responses_to_chunks m (Some (ToolCallResponse t)) =
     Inr (Some (ToolCallChunk \<lparr>tcc_model = m, tcc_tool_calls = tr_tool_calls t, tcc_usage = tr_usage t, tcc_stats = tr_stats t\<rparr>))"

section \<open>Thinking\<close>

text \<open>\<^verbatim>\<open>tag and text == tag[:len(text)]\<close>\<close>

definition tag_prefix :: "string option \<Rightarrow> string \<Rightarrow> bool" where
  "tag_prefix tag x \<longleftrightarrow> (case tag of None \<Rightarrow> False | Some t \<Rightarrow> t \<noteq> [] \<and> x = take (length x) t)"

definition set_thinking :: "bool \<Rightarrow> gen_response \<Rightarrow> gen_response" where
  "set_thinking b r = r\<lparr>gr_is_thinking := b\<rparr>"

fun parse_thinking_models ::
  "string option \<Rightarrow> string option \<Rightarrow> bool \<Rightarrow> string \<Rightarrow> gen_response list \<Rightarrow> gen_response option list \<Rightarrow> gen_response option list" where
  "parse_thinking_models ts te th acc pending [] = []"
| "parse_thinking_models ts te th acc pending (None # rs) = None # parse_thinking_models ts te th acc pending rs"
| "parse_thinking_models ts te th acc pending (Some r # rs) =
     (let acc' = acc @ gr_text r; drained = map (Some \<circ> set_thinking th) pending in
      if gr_finish_reason r \<noteq> None
      then drained @ Some (set_thinking False r) # parse_thinking_models ts te th acc' [] rs
      else if Some acc' = ts \<and> \<not> th then parse_thinking_models ts te True [] [] rs
      else if Some acc' = te \<and> th then parse_thinking_models ts te False [] [] rs
      else if tag_prefix ts acc' \<or> tag_prefix te acc' then parse_thinking_models ts te th acc' (pending @ [r]) rs
      else drained @ Some (set_thinking th r) # parse_thinking_models ts te th [] [] rs)"

section \<open>Tool calls\<close>

record tool_parser =
  start_parsing :: string
  end_parsing :: string
  parse_calls :: "string \<Rightarrow> tool_call_item list option"

definition tool_calls_of :: "tool_call_item list \<Rightarrow> gen_response \<Rightarrow> response" where
  "tool_calls_of calls r = ToolCallResponse \<lparr>tr_tool_calls = calls, tr_usage = gr_usage r, tr_stats = gr_stats r\<rparr>"

definition error_text :: "string \<Rightarrow> gen_response \<Rightarrow> response" where
  "error_text t r = GenerationResponse (r\<lparr>gr_text := t, gr_token := 0, gr_finish_reason := Some FinishError\<rparr>)"

fun parse_tool_calls :: "tool_parser \<Rightarrow> bool \<Rightarrow> string list \<Rightarrow> tool_call_item list \<Rightarrow> gen_response option list \<Rightarrow> response option list" where
  "parse_tool_calls tp inside parts calls [] = []"
| "parse_tool_calls tp inside parts calls (None # rs) = None # parse_tool_calls tp inside parts calls rs"
| "parse_tool_calls tp inside parts calls (Some r # rs) =
     (let inside' = (inside \<or> prefix (start_parsing tp) (gr_text r)); last_one = (gr_stats r \<noteq> None \<or> gr_finish_reason r \<noteq> None) in
      if \<not> inside' \<and> calls \<noteq> [] \<and> last_one then Some (tool_calls_of calls r) # parse_tool_calls tp False parts [] rs
      else if \<not> inside' then Some (GenerationResponse r) # parse_tool_calls tp False parts calls rs
      else let parts' = parts @ [gr_text r]; combined = concat parts' in
        if suffix (end_parsing tp) (gr_text r)
        then case parse_calls tp (py_strip combined) of
               None \<Rightarrow> [Some (error_text combined r)]
             | Some parsed \<Rightarrow>
                 let calls' = calls @ parsed in
                 if calls' \<noteq> [] \<and> last_one then Some (tool_calls_of calls' r) # parse_tool_calls tp False [] [] rs
                 else parse_tool_calls tp False [] calls' rs
        else if gr_finish_reason r \<noteq> None then Some (error_text combined r) # parse_tool_calls tp True parts' calls rs
        else parse_tool_calls tp True parts' calls rs)"

section \<open>DSML blocks\<close>

text \<open>\<^verbatim>\<open>text.index(marker)\<close>, if there.\<close>

fun find_sub :: "string \<Rightarrow> string \<Rightarrow> nat option" where
  "find_sub m [] = (if m = [] then Some 0 else None)"
| "find_sub m (c # cs) = (if prefix m (c # cs) then Some 0 else map_option Suc (find_sub m cs))"

abbreviation contains :: "string \<Rightarrow> string \<Rightarrow> bool" where
  "contains m x \<equiv> find_sub m x \<noteq> None"

definition could_be_marker_prefix :: "string \<Rightarrow> string \<Rightarrow> bool" where
  "could_be_marker_prefix x marker =
     (let tail = drop (length x - length marker) x in list_ex (\<lambda>i. prefix (drop i tail) marker) [0..<length tail])"

definition try_parse_tool_call :: "(string \<Rightarrow> tool_call_item list option) \<Rightarrow> string \<Rightarrow> gen_response \<Rightarrow> response" where
  "try_parse_tool_call parse_body x r =
     (case parse_body x of Some calls \<Rightarrow> tool_calls_of calls r | None \<Rightarrow> GenerationResponse (r\<lparr>gr_text := x\<rparr>))"

text \<open>The tokens that were held back and lie before the marker.\<close>

fun flush_before :: "string \<Rightarrow> gen_response list \<Rightarrow> gen_response list" where
  "flush_before pre [] = []"
| "flush_before pre (b # bs) =
     (if pre = [] then []
      else if length (gr_text b) \<le> length pre then b # flush_before (drop (length (gr_text b)) pre) bs
      else b\<lparr>gr_text := pre\<rparr> # flush_before [] bs)"

abbreviation gens :: "gen_response list \<Rightarrow> response option list" where
  "gens rs \<equiv> map (\<lambda>r. Some (GenerationResponse r)) rs"

definition dsml_final :: "string \<Rightarrow> string \<Rightarrow> (string \<Rightarrow> tool_call_item list option) \<Rightarrow> bool \<Rightarrow> string \<Rightarrow> gen_response \<Rightarrow> response list" where
  "dsml_final start stop parse_body inside block r =
     (if inside
      then let block' = block @ gr_text r
           in [if contains stop block' then try_parse_tool_call parse_body block' r else GenerationResponse (r\<lparr>gr_text := block'\<rparr>)]
      else case find_sub start (gr_text r) of
             Some i \<Rightarrow>
               if contains stop (gr_text r)
               then (if i > 0 then [GenerationResponse (r\<lparr>gr_text := take i (gr_text r)\<rparr>)] else []) @
                    [try_parse_tool_call parse_body (drop i (gr_text r)) r]
               else [GenerationResponse r]
           | None \<Rightarrow> [GenerationResponse r])"

fun parse_dsml_stream ::
  "string \<Rightarrow> string \<Rightarrow> (string \<Rightarrow> tool_call_item list option) \<Rightarrow> string \<Rightarrow> bool \<Rightarrow> gen_response list \<Rightarrow> string \<Rightarrow>
   gen_response option list \<Rightarrow> response option list" where
  "parse_dsml_stream start stop parse_body acc inside pending block [] = gens pending"
| "parse_dsml_stream start stop parse_body acc inside pending block (None # rs) =
     None # parse_dsml_stream start stop parse_body acc inside pending block rs"
| "parse_dsml_stream start stop parse_body acc inside pending block (Some r # rs) =
     (if gr_finish_reason r \<noteq> None then gens pending @ map Some (dsml_final start stop parse_body inside block r)
      else if inside
      then let block' = block @ gr_text r in
           if contains stop block'
           then Some (try_parse_tool_call parse_body block' r) # parse_dsml_stream start stop parse_body acc False pending [] rs
           else parse_dsml_stream start stop parse_body acc True pending block' rs
      else let acc' = acc @ gr_text r in
           case find_sub start acc' of
             Some i \<Rightarrow>
               let block' = drop i acc' in
               gens (flush_before (take i acc') pending) @
               (if contains stop block'
                then Some (try_parse_tool_call parse_body block' r) # parse_dsml_stream start stop parse_body [] False [] [] rs
                else parse_dsml_stream start stop parse_body [] True [] block' rs)
           | None \<Rightarrow>
               if could_be_marker_prefix acc' start
               then parse_dsml_stream start stop parse_body acc' False (pending @ [r]) [] rs
               else gens pending @ Some (GenerationResponse r) # parse_dsml_stream start stop parse_body [] False [] [] rs)"

section \<open>Harmony\<close>

record harmony_answer =
  ha_delta :: string
  ha_channel :: "string option"
  ha_recipient :: "string option"

definition remove_functions :: "string \<Rightarrow> string" where
  "remove_functions x = (if prefix ''functions.'' x then drop (length ''functions.'') x else x)"

fun parse_gpt_oss ::
  "(int list \<Rightarrow> harmony_answer option) \<Rightarrow> (int list \<Rightarrow> string) \<Rightarrow> int list \<Rightarrow> string option \<Rightarrow> string list \<Rightarrow> gen_response option list \<Rightarrow> response option list" where
  "parse_gpt_oss hp new_id toks tool parts [] = []"
| "parse_gpt_oss hp new_id toks tool parts (None # rs) = None # parse_gpt_oss hp new_id toks tool parts rs"
| "parse_gpt_oss hp new_id toks tool parts (Some r # rs) =
     (let toks' = toks @ [gr_token r] in
      case hp toks' of
        None \<Rightarrow> []
      | Some a \<Rightarrow>
          let changed = (ha_recipient a \<noteq> tool);
              called = (case tool of
                 Some name \<Rightarrow> if changed
                   then [ToolCallResponse \<lparr>tr_tool_calls = [\<lparr>tc_id = new_id toks', tc_name = remove_functions name, tc_arguments = py_strip (concat parts)\<rparr>],
                           tr_usage = gr_usage r, tr_stats = None\<rparr>] else []
               | None \<Rightarrow> []);
              parts1 = (if changed \<and> tool \<noteq> None then [] else parts);
              tool' = ha_recipient a;
              parts2 = (if tool' \<noteq> None \<and> ha_delta a \<noteq> [] then parts1 @ [ha_delta a] else parts1)
          in if tool' \<noteq> None
             then map Some called @
               (if gr_finish_reason r \<noteq> None
                then Some (GenerationResponse (r\<lparr>gr_text := concat parts2\<rparr>)) # parse_gpt_oss hp new_id toks' tool' [] rs
                else parse_gpt_oss hp new_id toks' tool' parts2 rs)
             else map Some called @
               (if ha_delta a \<noteq> []
                then [Some (GenerationResponse (r\<lparr>gr_text := ha_delta a, gr_is_thinking := ha_channel a = Some ''analysis''\<rparr>))] else []) @
               (if gr_finish_reason r \<noteq> None then [Some (GenerationResponse r)] else []) @
               parse_gpt_oss hp new_id toks' tool' parts2 rs)"


section \<open>The pipeline\<close>

text \<open>The parser of \<^verbatim>\<open>make_json_parser\<close>; \<open>load\<close> is \<^verbatim>\<open>json.loads\<close> and the validation of the one call it holds.\<close>

definition removeprefix :: "string \<Rightarrow> string \<Rightarrow> string" where
  "removeprefix p x = (if prefix p x then drop (length p) x else x)"

definition removesuffix :: "string \<Rightarrow> string \<Rightarrow> string" where
  "removesuffix p x = (if p \<noteq> [] \<and> suffix p x then take (length x - length p) x else x)"

definition make_json_parser :: "(string \<Rightarrow> tool_call_item option) \<Rightarrow> tool_parser" where
  "make_json_parser load =
     \<lparr>start_parsing = ''<tool_call>'', end_parsing = ''</tool_call>'',
      parse_calls = (\<lambda>x. map_option (\<lambda>c. [c]) (load (removesuffix ''</tool_call>'' (removeprefix ''<tool_call>'' x))))\<rparr>"

text \<open>
  What \<^verbatim>\<open>apply_all_parsers\<close> is given besides the stream: the class of the model, the tokenizer's thinking tags, if it
  has any, and whether the prompt already opened one, and the parsers that are parameters. The DSML
  markers contain a character beyond the \<open>char\<close> type and are arguments too.
\<close>

datatype model_class = GptOssModel | DeepseekV32Model | DeepseekV4Model | OtherModel

record parser_env =
  pe_class :: model_class
  pe_tags :: "(string option \<times> string option \<times> bool) option"
  pe_tool_parser :: "tool_parser option"
  pe_harmony :: "int list \<Rightarrow> harmony_answer option"
  pe_new_id :: "int list \<Rightarrow> string"
  pe_v32_markers :: "string \<times> string"
  pe_v4_markers :: "string \<times> string"
  pe_dsml_body :: "string \<Rightarrow> tool_call_item list option"

definition apply_thinking :: "parser_env \<Rightarrow> gen_response option list \<Rightarrow> gen_response option list" where
  "apply_thinking pe rs = (case pe_tags pe of Some (ts, te, th) \<Rightarrow> parse_thinking_models ts te th [] [] rs | None \<Rightarrow> rs)"

definition parsed_responses :: "parser_env \<Rightarrow> model_id \<Rightarrow> gen_response option list \<Rightarrow> response option list" where
  "parsed_responses pe m rs =
     (let normalized_id = py_lower (normalize_model_id m) in
      if pe_class pe = GptOssModel then parse_gpt_oss (pe_harmony pe) (pe_new_id pe) [] None [] rs
      else if pe_class pe = DeepseekV32Model \<and> contains ''deepseek'' normalized_id
      then parse_dsml_stream (fst (pe_v32_markers pe)) (snd (pe_v32_markers pe)) (pe_dsml_body pe) [] False [] [] (apply_thinking pe rs)
      else if pe_class pe = DeepseekV4Model \<and> contains ''deepseek-v4'' normalized_id
      then parse_dsml_stream (fst (pe_v4_markers pe)) (snd (pe_v4_markers pe)) (pe_dsml_body pe) [] False [] [] (apply_thinking pe rs)
      else case pe_tool_parser pe of
             Some p \<Rightarrow> parse_tool_calls p False [] [] (apply_thinking pe rs)
           | None \<Rightarrow> map (map_option GenerationResponse) (apply_thinking pe rs))"

definition apply_all_parsers :: "parser_env \<Rightarrow> model_id \<Rightarrow> gen_response option list \<Rightarrow> chunk option list result" where
  "apply_all_parsers pe m rs = rmap (map_responses_to_chunks m) (count_reasoning_tokens 0 (parsed_responses pe m rs))"

definition somes :: "'a option list \<Rightarrow> 'a list" where
  "somes xs = map the (filter (\<lambda>x. x \<noteq> None) xs)"

lemma somes_simps [simp]:
  "somes [] = []" "somes (None # xs) = somes xs" "somes (Some x # xs) = x # somes xs" "somes (xs @ ys) = somes xs @ somes ys"
  "somes (map (\<lambda>x. Some (f x)) us) = map f us" "somes (map Some vs) = vs" "somes (map (map_option g) ws) = map g (somes ws)"
proof -
  show "somes (map (map_option g) ws) = map g (somes ws)" by (induction ws) (auto simp: somes_def)
qed (simp_all add: somes_def filter_map comp_def)

section \<open>Streams that end once\<close>

text \<open>All items but the last satisfy \<open>mid\<close>, and the last one \<open>fin\<close>.\<close>

definition ends_once :: "('a \<Rightarrow> bool) \<Rightarrow> ('a \<Rightarrow> bool) \<Rightarrow> 'a option list \<Rightarrow> bool" where
  "ends_once mid fin xs \<longleftrightarrow> somes xs \<noteq> [] \<and> list_all mid (butlast (somes xs)) \<and> fin (last (somes xs))"

lemma ends_once_simps [simp]:
  "\<not> ends_once mid fin []" "ends_once mid fin (None # xs) = ends_once mid fin xs"
  "ends_once mid fin (Some x # xs) \<longleftrightarrow> (if somes xs = [] then fin x else mid x \<and> ends_once mid fin xs)"
  by (auto simp: ends_once_def)

text \<open>A stage of the pipeline hands the end of its input on.\<close>

locale stream_stage =
  fixes stage :: "'a option list \<Rightarrow> 'b option list" and mid_in fin_in mid_out fin_out
  assumes hands_on: "ends_once mid_in fin_in xs \<Longrightarrow> ends_once mid_out fin_out (stage xs)"

locale stage_pair = first: stream_stage f m1 f1 m2 f2 + second: stream_stage g m2 f2 m3 f3
  for f :: "'a option list \<Rightarrow> 'b option list" and g :: "'b option list \<Rightarrow> 'c option list" and m1 f1 m2 f2 m3 f3
begin

lemma both: "ends_once m1 f1 xs \<Longrightarrow> ends_once m3 f3 (g (f xs))"
  by (rule second.hands_on [OF first.hands_on])

end

sublocale stage_pair \<subseteq> piped: stream_stage "\<lambda>xs. g (f xs)" m1 f1 m3 f3
  by unfold_locales (rule both)

text \<open>What engines produce: no finish reason and no statistics before the last token.\<close>

definition gen_mid :: "gen_response \<Rightarrow> bool" where
  "gen_mid r \<longleftrightarrow> gr_finish_reason r = None \<and> gr_stats r = None"

definition gen_final :: "gen_response \<Rightarrow> bool" where
  "gen_final r \<longleftrightarrow> gr_finish_reason r \<in> {Some FinishStop, Some FinishLength, Some FinishContentFilter, Some FinishError}"

fun resp_mid :: "response \<Rightarrow> bool" where
  "resp_mid (GenerationResponse r) = gen_mid r"
| "resp_mid (ToolCallResponse _) = False"

fun resp_final :: "response \<Rightarrow> bool" where
  "resp_final (GenerationResponse r) = gen_final r"
| "resp_final (ToolCallResponse _) = True"

abbreviation chunk_mid :: "chunk \<Rightarrow> bool" where
  "chunk_mid c \<equiv> chunk_finish_reason c = None"

lemma set_thinking_simps [simp]:
  "gen_mid (set_thinking b r) = gen_mid r" "gen_final (set_thinking b r) = gen_final r" "gr_text (set_thinking b r) = gr_text r"
  "gr_finish_reason (set_thinking b r) = gr_finish_reason r"
  by (simp_all add: set_thinking_def gen_mid_def gen_final_def)

lemma mid_not_final: "gen_mid r \<Longrightarrow> gr_finish_reason r = None" "gen_final r \<Longrightarrow> gr_finish_reason r \<noteq> None"
  by (auto simp: gen_mid_def gen_final_def)

lemma ends_once_append_mid:
  "list_all mid (somes ys) \<Longrightarrow> ends_once mid fin xs \<Longrightarrow> ends_once mid fin (ys @ xs)"
  by (auto simp: ends_once_def butlast_append)

lemma ends_once_nonempty: "ends_once mid fin xs \<Longrightarrow> somes xs \<noteq> []"
  by (simp add: ends_once_def)

lemma ends_once_Cons: "mid x \<Longrightarrow> ends_once mid fin xs \<Longrightarrow> ends_once mid fin (Some x # xs)"
  by (auto simp: ends_once_def)

lemma thinking_keeps_end:
  "ends_once gen_mid (\<lambda>r. gen_final r \<and> P (gr_text r)) rs \<Longrightarrow> list_all gen_mid pending \<Longrightarrow>
   ends_once gen_mid (\<lambda>r. gen_final r \<and> P (gr_text r)) (parse_thinking_models ts te th acc pending rs)"
proof (induction ts te th acc pending rs rule: parse_thinking_models.induct)
  case (3 ts te th acc pending r rs)
  let ?drained = "map (Some \<circ> set_thinking th) pending"
  have drained: "list_all gen_mid (somes ?drained)" using "3.prems"(2) by (simp add: comp_def list_all_iff)
  have nil: "parse_thinking_models ts te th x [] rs = rs" if "somes rs = []" for x
    using that by (induction rs) (auto simp: somes_def split: if_splits)
  show ?case
  proof (cases "gr_finish_reason r = None")
    case True
    then have r: "gen_mid r" "somes rs \<noteq> []" "ends_once gen_mid (\<lambda>r. gen_final r \<and> P (gr_text r)) rs"
      using "3.prems"(1) by (auto dest: mid_not_final split: if_splits)
    then have ne: "ends_once gen_mid (\<lambda>r. gen_final r \<and> P (gr_text r)) xs \<Longrightarrow>
        ends_once gen_mid (\<lambda>r. gen_final r \<and> P (gr_text r)) (?drained @ Some (set_thinking th r) # xs)" for xs
      using drained by (intro ends_once_append_mid ends_once_Cons) simp_all
    show ?thesis using r "3.IH" "3.prems"(2) True ne by (auto simp: Let_def)
  next
    case False
    then have "somes rs = []" "gen_final r \<and> P (gr_text r)" using "3.prems"(1) by (auto dest: mid_not_final split: if_splits)
    then show ?thesis using False drained nil by (auto intro!: ends_once_append_mid)
  qed
qed simp_all

lemma thinking_hands_on: "ends_once gen_mid gen_final rs \<Longrightarrow> ends_once gen_mid gen_final (parse_thinking_models ts te th [] [] rs)"
  using thinking_keeps_end [of "\<lambda>_. True" rs "[]"] by simp

interpretation thinking: stream_stage "parse_thinking_models ts te th [] []" gen_mid gen_final gen_mid gen_final for ts te th
  by unfold_locales (rule thinking_hands_on)


text \<open>
  The tool call parser hands the end on, or the stream ends without a last response: then the last token completes a tool call
  and some text parses to no call at all.
\<close>

lemma tools_nil: "somes rs = [] \<Longrightarrow> somes (parse_tool_calls tp inside parts cs rs) = []"
  by (induction rs) (auto simp: somes_def split: if_splits)

definition ends_unless_empty :: "tool_parser \<Rightarrow> (string \<Rightarrow> bool) \<Rightarrow> response option list \<Rightarrow> bool" where
  "ends_unless_empty tp P xs \<longleftrightarrow> ends_once resp_mid resp_final xs \<or>
     list_all resp_mid (somes xs) \<and> (\<exists>t. suffix (end_parsing tp) t \<and> P t) \<and> (\<exists>x. parse_calls tp x = Some [])"

lemma ends_unless_empty_simps [simp]:
  "ends_unless_empty tp P (None # xs) = ends_unless_empty tp P xs"
  "resp_mid x \<Longrightarrow> ends_unless_empty tp P xs \<Longrightarrow> ends_unless_empty tp P (Some x # xs)"
  "resp_final x \<Longrightarrow> somes xs = [] \<Longrightarrow> ends_unless_empty tp P (Some x # xs)"
  by (auto simp: ends_unless_empty_def dest: ends_once_nonempty)

lemma tools_end:
  "ends_once gen_mid (\<lambda>r. gen_final r \<and> P (gr_text r)) rs \<Longrightarrow> ends_unless_empty tp P (parse_tool_calls tp inside parts cs rs)"
proof (induction rs arbitrary: inside parts cs)
  case (Cons x rs)
  show ?case
  proof (cases x)
    case (Some r)
    show ?thesis
    proof (cases "gr_finish_reason r = None")
      case True
      then have r: "gen_mid r" "ends_once gen_mid (\<lambda>r. gen_final r \<and> P (gr_text r)) rs"
        using Cons.prems by (auto simp: Some dest: mid_not_final split: if_splits)
      moreover have "gr_stats r = None" using r(1) by (simp add: gen_mid_def)
      moreover have "resp_final (error_text y r)" for y by (simp add: error_text_def gen_final_def)
      ultimately show ?thesis using True Cons.IH [OF r(2)]
        by (simp add: Some Let_def split: option.split)
    next
      case False
      then have nil: "somes rs = []" and r: "gen_final r" "P (gr_text r)" using Cons.prems by (auto simp: Some dest: mid_not_final split: if_splits)
      moreover have "resp_final (error_text y r)" for y by (simp add: error_text_def gen_final_def)
      moreover have "resp_final (tool_calls_of y r)" for y by (simp add: tool_calls_of_def)
      moreover have "ends_unless_empty tp P []" if "suffix (end_parsing tp) (gr_text r)" "parse_calls tp y = Some []" for y
        using that r(2) by (auto simp: ends_unless_empty_def)
      moreover have "ends_unless_empty tp P xs" if "ends_unless_empty tp P []" "somes xs = []" for xs
        using that by (simp add: ends_unless_empty_def ends_once_def)
      ultimately show ?thesis using False tools_nil [OF nil]
        by (auto simp: Some Let_def split: option.split)
    qed
  qed (use Cons in simp)
qed simp

locale calling_parser =
  fixes tp :: tool_parser
  assumes calls: "parse_calls tp x \<noteq> Some []"
begin

lemma tools_hand_on:
  "ends_once gen_mid gen_final rs \<Longrightarrow> ends_once resp_mid resp_final (parse_tool_calls tp inside parts cs rs)"
  using tools_end [of "\<lambda>_. True" rs tp] calls by (simp add: ends_unless_empty_def)

end

sublocale calling_parser \<subseteq> tools: stream_stage "parse_tool_calls tp False [] []" gen_mid gen_final resp_mid resp_final
  by unfold_locales (rule tools_hand_on)

interpretation json_parser: calling_parser "make_json_parser load" for load
  by unfold_locales (simp add: make_json_parser_def)

text \<open>Counting keeps every response's place and end.\<close>

lemma with_usage_simps [simp]: "resp_mid (with_usage u r) = resp_mid r" "resp_final (with_usage u r) = resp_final r"
  by (cases r; simp add: gen_mid_def gen_final_def)+

lemma count_somes_nil: "somes rs = [] \<Longrightarrow> somes (count_reasoning_tokens n rs) = []"
  by (induction rs) (auto simp: somes_def split: if_splits)

lemma count_hands_on: "ends_once resp_mid resp_final rs \<Longrightarrow> ends_once resp_mid resp_final (count_reasoning_tokens n rs)"
  by (induction n rs rule: count_reasoning_tokens.induct)
    (auto simp: Let_def count_somes_nil dest: ends_once_nonempty split: option.split if_splits)

lemma count_keeps_mid: "list_all resp_mid (somes rs) \<Longrightarrow> list_all resp_mid (somes (count_reasoning_tokens n rs))"
  by (induction n rs rule: count_reasoning_tokens.induct) (auto simp: Let_def split: option.split)

interpretation counting: stream_stage "count_reasoning_tokens n" resp_mid resp_final resp_mid resp_final for n
  by unfold_locales (rule count_hands_on)

interpretation untooled: stream_stage "map (map_option GenerationResponse)" gen_mid gen_final resp_mid resp_final
  by unfold_locales (auto simp: ends_once_def list_all_iff last_map simp flip: map_butlast)

interpretation think_then_plain: stage_pair "parse_thinking_models ts te th [] []" "map (map_option GenerationResponse)"
    gen_mid gen_final gen_mid gen_final resp_mid resp_final for ts te th ..

text \<open>The last stage turns responses into chunks.\<close>

lemma chunk_of_mid: "resp_mid r \<Longrightarrow> \<exists>c. map_responses_to_chunks m (Some r) = Inr (Some c) \<and> chunk_finish_reason c = None"
  by (cases r) (auto simp: gen_mid_def)

lemma chunk_of_final: "resp_final r \<Longrightarrow> \<exists>c. map_responses_to_chunks m (Some r) = Inr (Some c) \<and> chunk_finish_reason c \<noteq> None"
  by (cases r) (auto simp: gen_final_def)

lemma chunks_of_none: "somes rs = [] \<Longrightarrow> \<exists>cs. rmap (map_responses_to_chunks m) rs = Inr cs \<and> somes cs = []"
  by (induction rs) (auto simp: somes_def split: if_splits)

lemma chunks_hand_on:
  "ends_once resp_mid resp_final rs \<Longrightarrow>
   \<exists>cs. rmap (map_responses_to_chunks m) rs = Inr cs \<and> ends_once chunk_mid (\<lambda>c. \<not> chunk_mid c) cs"
proof (induction rs)
  case (Cons x rs)
  show ?case
  proof (cases x)
    case (Some r)
    show ?thesis
    proof (cases "somes rs = []")
      case True
      with Cons.prems chunk_of_final [of r m] chunks_of_none [of rs m] show ?thesis by (fastforce simp: Some)
    next
      case False
      then have "resp_mid r" "ends_once resp_mid resp_final rs" using Cons.prems by (auto simp: Some)
      with Cons.IH chunk_of_mid [of r m] show ?thesis by (fastforce simp: Some intro: ends_once_Cons)
    qed
  qed (use Cons in auto)
qed simp

lemma chunks_keep_mid:
  "list_all resp_mid (somes rs) \<Longrightarrow> \<exists>cs. rmap (map_responses_to_chunks m) rs = Inr cs \<and> list_all chunk_mid (somes cs)"
proof (induction rs)
  case (Cons x rs)
  then show ?case using chunk_of_mid [of _ m] by (cases x) fastforce+
qed simp


section \<open>What the thinking parser keeps\<close>

text \<open>
  The specification reads a stream run by run. A run that so far spells the beginning of a tag, and
  not the tag the mode waits for (the opening tag outside thinking, the closing tag inside), is undecided and takes one more
  token. Once decided, a run that spells the tag is swallowed and changes the mode; any other is kept, marked with the mode. The
  finishing token ends the stream as an answer, after the run it interrupts.
\<close>

definition awaited_tag :: "string option \<Rightarrow> string option \<Rightarrow> bool \<Rightarrow> string option" where
  "awaited_tag ts te th = (if th then te else ts)"

definition spelled :: "gen_response list \<Rightarrow> string" where
  "spelled run = concat (map gr_text run)"

definition undecided :: "string option \<Rightarrow> string option \<Rightarrow> bool \<Rightarrow> gen_response list \<Rightarrow> bool" where
  "undecided ts te th run \<longleftrightarrow> Some (spelled run) \<noteq> awaited_tag ts te th \<and> (tag_prefix ts (spelled run) \<or> tag_prefix te (spelled run))"

definition open_run :: "string option \<Rightarrow> string option \<Rightarrow> bool \<Rightarrow> gen_response list \<Rightarrow> bool" where
  "open_run ts te th run \<longleftrightarrow> list_all (\<lambda>r. gr_finish_reason r = None) run \<and> (\<forall>k. 0 < k \<and> k \<le> length run \<longrightarrow> undecided ts te th (take k run))"

definition decided_run :: "string option \<Rightarrow> string option \<Rightarrow> bool \<Rightarrow> gen_response list \<Rightarrow> bool" where
  "decided_run ts te th run \<longleftrightarrow> run \<noteq> [] \<and> open_run ts te th (butlast run) \<and> gr_finish_reason (last run) = None \<and> \<not> undecided ts te th run"

inductive tagged :: "string option \<Rightarrow> string option \<Rightarrow> bool \<Rightarrow> gen_response list \<Rightarrow> gen_response list \<Rightarrow> bool" for ts te where
  tagged_nil: "tagged ts te th [] []"
| tagged_tag: "decided_run ts te th run \<Longrightarrow> Some (spelled run) = awaited_tag ts te th \<Longrightarrow> tagged ts te (\<not> th) rs out \<Longrightarrow>
    tagged ts te th (run @ rs) out"
| tagged_keep: "decided_run ts te th run \<Longrightarrow> Some (spelled run) \<noteq> awaited_tag ts te th \<Longrightarrow> tagged ts te th rs out \<Longrightarrow>
    tagged ts te th (run @ rs) (map (set_thinking th) run @ out)"
| tagged_final: "open_run ts te th run \<Longrightarrow> gr_finish_reason f \<noteq> None \<Longrightarrow>
    tagged ts te th (run @ [f]) (map (set_thinking th) run @ [set_thinking False f])"

lemma open_run_snoc: "open_run ts te th run \<Longrightarrow> gr_finish_reason r = None \<Longrightarrow> undecided ts te th (run @ [r]) \<Longrightarrow> open_run ts te th (run @ [r])"
  by (auto simp: open_run_def le_Suc_eq)

lemma decided_run_snoc: "open_run ts te th run \<Longrightarrow> gr_finish_reason r = None \<Longrightarrow> \<not> undecided ts te th (run @ [r]) \<Longrightarrow> decided_run ts te th (run @ [r])"
  by (simp add: decided_run_def)

lemma open_run_take: "open_run ts te th run \<Longrightarrow> 0 < k \<Longrightarrow> k \<le> length run \<Longrightarrow> undecided ts te th (take k run)"
  by (simp add: open_run_def)

lemma thinking_nil: "somes rs = [] \<Longrightarrow> somes (parse_thinking_models ts te th acc [] rs) = []"
  by (induction rs) (auto simp: somes_def split: if_splits)

lemma thinking_tagged:
  "somes rs = ms @ [f] \<Longrightarrow> list_all (\<lambda>r. gr_finish_reason r = None) ms \<Longrightarrow> gr_finish_reason f \<noteq> None \<Longrightarrow>
   open_run ts te th pending \<Longrightarrow> acc = spelled pending \<Longrightarrow>
   tagged ts te th (pending @ ms @ [f]) (somes (parse_thinking_models ts te th acc pending rs))"
proof (induction ts te th acc pending rs arbitrary: ms rule: parse_thinking_models.induct)
  case (3 ts te th acc pending r rs)
  show ?case
  proof (cases ms)
    case Nil
    then have r: "r = f" "somes rs = []" using "3.prems"(1) by simp_all
    then show ?thesis
      using "3.prems"(3) Nil thinking_nil [OF r(2)] tagged_final [OF "3.prems"(4,3)] by (simp add: comp_def)
  next
    case (Cons r' ms')
    then have r: "r' = r" "somes rs = ms' @ [f]" "gr_finish_reason r = None"
      "list_all (\<lambda>r. gr_finish_reason r = None) ms'" using "3.prems"(1,2) by auto
    let ?acc = "acc @ gr_text r"
    have run: "?acc = spelled (pending @ [r])" "[] = spelled []" and empty: "open_run ts te b []" for b
      using "3.prems"(5) by (simp_all add: spelled_def open_run_def)
    note decided = decided_run_snoc [OF "3.prems"(4) r(3)]
    consider (tag) "Some ?acc = awaited_tag ts te th" | (wait) "undecided ts te th (pending @ [r])"
      | (keep) "Some ?acc \<noteq> awaited_tag ts te th" "\<not> undecided ts te th (pending @ [r])" by blast
    then show ?thesis
    proof cases
      case tag
      then have "\<not> undecided ts te th (pending @ [r])" by (simp add: undecided_def run)
      note swallow = tagged_tag [OF decided [OF this], of "ms' @ [f]"]
      show ?thesis
      proof (cases th)
        case True
        then have "tagged ts te False (ms' @ [f]) (somes (parse_thinking_models ts te False [] [] rs))"
          using "3.IH"(3) [OF refl refl] r "3.prems"(3) empty run(2) tag True by (auto simp: awaited_tag_def)
        then show ?thesis using swallow tag run(1) True r(1,3) Cons by (simp add: awaited_tag_def)
      next
        case False
        then have "tagged ts te True (ms' @ [f]) (somes (parse_thinking_models ts te True [] [] rs))"
          using "3.IH"(2) [OF refl refl] r "3.prems"(3) empty run(2) tag by (auto simp: awaited_tag_def)
        then show ?thesis using swallow tag run(1) False r(1,3) Cons by (simp add: awaited_tag_def)
      qed
    next
      case wait
      from open_run_snoc [OF "3.prems"(4) r(3) wait] wait
      show ?thesis using "3.IH"(4) [OF refl refl] r "3.prems"(3) run Cons by (auto simp: undecided_def awaited_tag_def split: if_splits)
    next
      case keep
      from tagged_keep [OF decided [OF keep(2)], of "ms' @ [f]"] keep
      show ?thesis using "3.IH"(5) [OF refl refl] r "3.prems"(3) run empty Cons
        by (auto simp: undecided_def awaited_tag_def comp_def Let_def split: if_splits)
    qed
  qed
qed auto

text \<open>A stream is read in one way only: where its first run ends is settled by the tokens.\<close>

lemma decided_run_unique:
  assumes "decided_run ts te th run" "decided_run ts te th run'" "run @ rs = run' @ rs'"
  shows "run = run' \<and> rs = rs'"
proof -
  have no: "\<not> length u < length v" if "decided_run ts te th u" "decided_run ts te th v" "u @ us = v @ vs" for u v us vs
  proof
    assume len: "length u < length v"
    then have "u = take (length u) v" using that(3) by (metis append_eq_append_conv_if less_imp_le_nat append_eq_conv_conj nat_less_le)
    then have "u = take (length u) (butlast v)" using len by (simp add: take_butlast)
    moreover have "undecided ts te th (take (length u) (butlast v))"
      using that(1,2) len by (intro open_run_take) (auto simp: decided_run_def)
    ultimately show False using that(1) by (simp add: decided_run_def)
  qed
  from no [OF assms] no [OF assms(2,1) assms(3) [symmetric]] have "length run = length run'" by simp
  then show ?thesis using assms(3) by simp
qed

lemma decided_not_open:
  assumes "decided_run ts te th run" "open_run ts te th run'" "gr_finish_reason f \<noteq> None" "run @ rs = run' @ [f]"
  shows False
proof (cases "length run \<le> length run'")
  case True
  then have "run = take (length run) run'" using assms(4) by (metis append_eq_append_conv_if append_eq_conv_conj)
  then have "undecided ts te th run" using open_run_take [OF assms(2), of "length run"] assms(1) True by (auto simp: decided_run_def)
  then show False using assms(1) by (simp add: decided_run_def)
next
  case False
  moreover have "length run + length rs = length run' + 1" using arg_cong [OF assms(4), of length] by simp
  ultimately have "rs = []" by (cases rs) simp_all
  then have "last run = f" using assms(4) by (metis append_Nil2 last_snoc)
  then show False using assms(1,3) by (simp add: decided_run_def)
qed

lemma tagged_unique: "tagged ts te th rs out \<Longrightarrow> tagged ts te th rs out' \<Longrightarrow> out = out'"
proof (induction th rs out arbitrary: out' rule: tagged.induct)
  case (tagged_nil th)
  then show ?case by (cases rule: tagged.cases) (auto simp: decided_run_def)
next
  case (tagged_tag th run rs out)
  from tagged_tag.prems show ?case
  proof (cases rule: tagged.cases)
    case (tagged_tag run' rs')
    with decided_run_unique [OF \<open>decided_run ts te th run\<close> this(2), of rs rs'] show ?thesis using local.tagged_tag.IH by auto
  next
    case (tagged_keep run' rs' out1)
    with decided_run_unique [OF \<open>decided_run ts te th run\<close> this(3), of rs rs'] show ?thesis using \<open>Some (spelled run) = awaited_tag ts te th\<close> by auto
  next
    case (tagged_final run' f)
    with decided_not_open [OF \<open>decided_run ts te th run\<close>] show ?thesis by blast
  qed (use \<open>decided_run ts te th run\<close> in \<open>simp add: decided_run_def\<close>)
next
  case (tagged_keep th run rs out)
  from tagged_keep.prems show ?case
  proof (cases rule: tagged.cases)
    case (tagged_tag run' rs')
    with decided_run_unique [OF \<open>decided_run ts te th run\<close> this(2), of rs rs'] show ?thesis using \<open>Some (spelled run) \<noteq> awaited_tag ts te th\<close> by auto
  next
    case (tagged_keep run' rs' out1)
    with decided_run_unique [OF \<open>decided_run ts te th run\<close> this(3), of rs rs'] show ?thesis using local.tagged_keep.IH by auto
  next
    case (tagged_final run' f)
    with decided_not_open [OF \<open>decided_run ts te th run\<close>] show ?thesis by blast
  qed (use \<open>decided_run ts te th run\<close> in \<open>simp add: decided_run_def\<close>)
next
  case (tagged_final th run f)
  from tagged_final.prems show ?case
  proof (cases rule: tagged.cases)
    case (tagged_tag run' rs')
    with decided_not_open [OF this(2) \<open>open_run ts te th run\<close> \<open>gr_finish_reason f \<noteq> None\<close>, of rs'] show ?thesis by auto
  next
    case (tagged_keep run' rs' out1)
    with decided_not_open [OF this(3) \<open>open_run ts te th run\<close> \<open>gr_finish_reason f \<noteq> None\<close>, of rs'] show ?thesis by auto
  qed auto
qed



section \<open>DSML streams\<close>

lemma contains_iff: "contains m x \<longleftrightarrow> sublist m x"
  by (induction m x rule: find_sub.induct) (auto simp: sublist_Cons_right)

lemma find_sub_Some: "find_sub m x = Some i \<Longrightarrow> prefix m (drop i x)"
  by (induction m x arbitrary: i rule: find_sub.induct) (auto split: if_splits)

lemma find_sub_prefix: "prefix m x \<Longrightarrow> find_sub m x = Some 0"
  by (cases x) auto

lemma no_marker_part: "find_sub m (x @ y @ z) = None \<Longrightarrow> find_sub m y = None"
  using contains_iff [of m y] contains_iff [of m "x @ y @ z"] by (metis sublist_append sublist_appendI sublist_order.order_trans)

lemma dsml_plain:
  "somes rs = ms @ [f] \<Longrightarrow> list_all (\<lambda>r. gr_finish_reason r = None) ms \<Longrightarrow> gr_finish_reason f \<noteq> None \<Longrightarrow>
   acc = concat (map gr_text pending) \<Longrightarrow> find_sub start (acc @ concat (map gr_text (ms @ [f]))) = None \<Longrightarrow>
   somes (parse_dsml_stream start stop parse_body acc False pending [] rs) = map GenerationResponse (pending @ ms @ [f])"
proof (induction rs arbitrary: ms acc pending)
  case (Cons x rs)
  show ?case
  proof (cases x)
    case (Some r)
    show ?thesis
    proof (cases ms)
      case Nil
      then have "r = f" "find_sub start (gr_text f) = None"
        using Cons.prems(1,5) Some no_marker_part [of start acc "gr_text f" "[]"] by simp_all
      then show ?thesis using Cons.prems(3) Nil Some by (simp add: dsml_final_def)
    next
      case (Cons r' ms')
      then have r: "r' = r" "somes rs = ms' @ [f]" "gr_finish_reason r = None" "list_all (\<lambda>r. gr_finish_reason r = None) ms'"
        using Cons.prems(1,2) Some by auto
      have none: "find_sub start (acc @ gr_text r) = None" "find_sub start (concat (map gr_text (ms' @ [f]))) = None"
        using Cons.prems(5) r(1) Cons no_marker_part [of start "[]" "acc @ gr_text r" "concat (map gr_text (ms' @ [f]))"]
          no_marker_part [of start "acc @ gr_text r" "concat (map gr_text (ms' @ [f]))" "[]"] by simp_all
      then show ?thesis
        using Cons.IH [OF r(2,4) Cons.prems(3), of "acc @ gr_text r" "pending @ [r]"] Cons.IH [OF r(2,4) Cons.prems(3), of "[]" "[]"]
          Cons.prems(4,5) r Cons Some by (simp add: Let_def)
    qed
  qed (use Cons in simp)
qed simp

text \<open>
  A stream without tool calls passes the DSML parser unchanged: when the text of the whole stream does
  not contain the opening marker, every token comes out once, as it was and in order, even those held back
  because they looked like the beginning of a marker.
\<close>

theorem dsml_transparent_without_marker:
  assumes "somes rs = ms @ [f]" "list_all (\<lambda>r. gr_finish_reason r = None) ms" "gr_finish_reason f \<noteq> None"
    and "find_sub start (concat (map gr_text (ms @ [f]))) = None"
  shows "somes (parse_dsml_stream start stop parse_body [] False [] [] rs) = map GenerationResponse (ms @ [f])"
  using dsml_plain [OF assms(1-3), of "[]" "[]"] assms(4) by simp

text \<open>
  Text in front of a marker is lost when it arrives in the same token as the marker: the output is the
  one for the token without that text.
\<close>

theorem dsml_drops_text_before_marker:
  assumes "find_sub start (pre @ x) = Some (length pre)" "gr_finish_reason r = None"
  shows "parse_dsml_stream start stop parse_body [] False [] [] (Some (r\<lparr>gr_text := pre @ x\<rparr>) # rs) =
    parse_dsml_stream start stop parse_body [] False [] [] (Some (r\<lparr>gr_text := x\<rparr>) # rs)"
proof -
  have "find_sub start x = Some 0" using find_sub_prefix find_sub_Some [OF assms(1)] by simp
  then show ?thesis using assms by (simp add: Let_def try_parse_tool_call_def tool_calls_of_def split: option.split)
qed

section \<open>Streams that never end\<close>

text \<open>
  A generation whose last token completes an empty list of tool calls yields nothing: no chunk with a finish
  reason reaches the client.
\<close>

theorem empty_tool_call_list_never_ends:
  assumes "prefix (start_parsing tp) (gr_text r)" "suffix (end_parsing tp) (gr_text r)" "parse_calls tp (py_strip (gr_text r)) = Some []"
  shows "parse_tool_calls tp False [] [] [Some r] = []"
  using assms by simp

lemma harmony_no_end:
  "k < length (somes rs) \<Longrightarrow> hp (toks @ map gr_token (take (Suc k) (somes rs))) = None \<Longrightarrow>
   \<forall>j < k. gr_finish_reason (somes rs ! j) = None \<and> (\<exists>a. hp (toks @ map gr_token (take (Suc j) (somes rs))) = Some a \<and> ha_recipient a = None) \<Longrightarrow>
   list_all (\<lambda>x. \<not> resp_final x) (somes (parse_gpt_oss hp new_id toks None [] rs))"
proof (induction rs arbitrary: k toks)
  case (Cons x rs)
  show ?case
  proof (cases x)
    case (Some r)
    show ?thesis
    proof (cases k)
      case 0
      then show ?thesis using Cons.prems(2) by (simp add: Some)
    next
      case (Suc k')
      then obtain a where a: "hp (toks @ [gr_token r]) = Some a" "ha_recipient a = None" "gr_finish_reason r = None"
        using Cons.prems(3) by (auto simp: Some)
      have "list_all (\<lambda>x. \<not> resp_final x) (somes (parse_gpt_oss hp new_id (toks @ [gr_token r]) None [] rs))"
      proof (rule Cons.IH)
        show "\<forall>j < k'. gr_finish_reason (somes rs ! j) = None \<and>
            (\<exists>a. hp ((toks @ [gr_token r]) @ map gr_token (take (Suc j) (somes rs))) = Some a \<and> ha_recipient a = None)"
        proof (intro allI impI)
          fix j assume "j < k'"
          then show "gr_finish_reason (somes rs ! j) = None \<and>
            (\<exists>a. hp ((toks @ [gr_token r]) @ map gr_token (take (Suc j) (somes rs))) = Some a \<and> ha_recipient a = None)"
            using Cons.prems(3) [rule_format, of "Suc j"] Suc by (simp add: Some)
        qed
      qed (use Cons.prems(1,2) Suc in \<open>simp_all add: Some\<close>)
      then show ?thesis using a by (simp add: Some Let_def gen_final_def)
    qed
  qed (use Cons in simp)
qed simp

text \<open>
  An error of the Harmony parser ends the stream of a GPT-OSS model without a last chunk: when the error
  comes before a finishing token and outside a tool call, no response that is yielded ends the stream for the
  client.
\<close>

theorem harmony_error_never_ends:
  assumes "k < length (somes rs)" "hp (map gr_token (take (Suc k) (somes rs))) = None"
    and "\<forall>j < k. gr_finish_reason (somes rs ! j) = None \<and> (\<exists>a. hp (map gr_token (take (Suc j) (somes rs))) = Some a \<and> ha_recipient a = None)"
  shows "list_all (\<lambda>x. \<not> resp_final x) (somes (parse_gpt_oss hp new_id [] None [] rs))"
  using harmony_no_end [of k rs hp "[]"] assms by simp


section \<open>Small streams\<close>

definition demo_gen :: "string \<Rightarrow> finish_reason option \<Rightarrow> gen_response" where
  "demo_gen t fin = \<lparr>gr_text = t, gr_token = 1, gr_logprob = None, gr_top_logprobs = None, gr_finish_reason = fin,
     gr_stats = None, gr_usage = None, gr_is_thinking = False\<rparr>"

abbreviation demo_thoughts :: "gen_response option list" where
  "demo_thoughts \<equiv> [Some (demo_gen ''<t'' None), None, Some (demo_gen ''>'' None), Some (demo_gen ''hm'' None), Some (demo_gen ''</t>'' None),
     Some (demo_gen ''<'' None), None, Some (demo_gen ''ok'' (Some FinishStop))]"

definition demo_parsers :: parser_env where
  "demo_parsers = \<lparr>pe_class = OtherModel, pe_tags = Some (Some ''<t>'', Some ''</t>'', False), pe_tool_parser = Some (make_json_parser (\<lambda>_. None)),
     pe_harmony = (\<lambda>_. None), pe_new_id = (\<lambda>_. []), pe_v32_markers = ([], []), pe_v4_markers = ([], []), pe_dsml_body = (\<lambda>_. None)\<rparr>"



theorem dsml_transparent_without_marker_witness:
  "somes (parse_dsml_stream ''<m>'' ''</m>'' (\<lambda>_. None) [] False [] [] [Some (demo_gen ''a<'' None), None, Some (demo_gen ''b'' (Some FinishStop))]) =
     map GenerationResponse [demo_gen ''a<'' None, demo_gen ''b'' (Some FinishStop)]"
  using dsml_transparent_without_marker
    [of "[Some (demo_gen ''a<'' None), None, Some (demo_gen ''b'' (Some FinishStop))]" "[demo_gen ''a<'' None]" "demo_gen ''b'' (Some FinishStop)"
      "''<m>''" "''</m>''" "\<lambda>_. None"]
  by (simp add: demo_gen_def)

theorem dsml_drops_text_before_marker_witness:
  "parse_dsml_stream ''<m>'' ''</m>'' (\<lambda>_. None) [] False [] [] [Some ((demo_gen [] None)\<lparr>gr_text := ''hi'' @ ''<m>''\<rparr>)] =
   parse_dsml_stream ''<m>'' ''</m>'' (\<lambda>_. None) [] False [] [] [Some ((demo_gen [] None)\<lparr>gr_text := ''<m>''\<rparr>)]"
  by (rule dsml_drops_text_before_marker) (simp_all add: demo_gen_def)

theorem empty_tool_call_list_never_ends_witness:
  "parse_tool_calls \<lparr>start_parsing = ''['', end_parsing = '']'', parse_calls = (\<lambda>_. Some [])\<rparr> False [] [] [Some (demo_gen ''[]'' (Some FinishStop))] = []"
  by (rule empty_tool_call_list_never_ends) (simp_all add: demo_gen_def suffix_def)

theorem harmony_error_never_ends_witness:
  "list_all (\<lambda>x. \<not> resp_final x) (somes (parse_gpt_oss (\<lambda>_. None) (\<lambda>_. []) [] None [] [Some (demo_gen ''a'' None), Some (demo_gen [] (Some FinishStop))]))"
  by (rule harmony_error_never_ends [of 0]) (simp_all add: demo_gen_def)

end
