(* ===== verification/Stream_Adapters.thy ===== *)
theory Stream_Adapters
  imports Shared_Types
begin

text \<open>
  The adapters that turn a command's chunks into the answers of two HTTP interfaces: Chat Completions
  (\<^verbatim>\<open>src/exo/api/adapters/chat_completions.py\<close>) and Claude Messages (\<^verbatim>\<open>src/exo/api/adapters/claude.py\<close>), each as a
  stream of events and as one collected response. An event stands for the line of text that carries it; the
  serialisation to JSON is not modelled. The chunk stream is a list; an image chunk cannot occur in it by its type, and
  ends the Claude adapters (their attribute access raises). The clock is read once per chunk of a stream.
\<close>

definition option_or :: "'a option \<Rightarrow> 'a option \<Rightarrow> 'a option" where
  "option_or x y = (if x = None then y else x)"

section \<open>Chat Completions\<close>

record logprob_item =
  lp_token :: string
  lp_logprob :: pyfloat
  lp_top_logprobs :: "top_logprob_item list"

record chat_message =
  cm_content :: "string option"
  cm_reasoning :: "string option"
  cm_tool_calls :: "(int \<times> tool_call_item) list option"

record chat_response =
  cr_id :: command_id
  cr_created :: int
  cr_model :: model_id
  cr_message :: chat_message
  cr_logprobs :: "logprob_item list option"
  cr_finish_reason :: "finish_reason option"
  cr_usage :: "usage option"

datatype chat_event =
    ChatData chat_response
  | ChatError string
  | ChatPrefill int int
  | ChatStats generation_stats
  | ChatDone

definition logprobs_of :: "token_chunk \<Rightarrow> logprob_item list" where
  "logprobs_of t =
     (case tk_logprob t of
        None \<Rightarrow> []
      | Some p \<Rightarrow> [\<lparr>lp_token = tk_text t, lp_logprob = p, lp_top_logprobs = (case tk_top_logprobs t of None \<Rightarrow> [] | Some l \<Rightarrow> l)\<rparr>])"

definition some_list :: "'a list \<Rightarrow> 'a list option" where
  "some_list xs = (if xs = [] then None else Some xs)"

definition chunk_to_response :: "command_id \<Rightarrow> int \<Rightarrow> token_chunk \<Rightarrow> chat_response" where
  "chunk_to_response cmd now t =
     \<lparr>cr_id = cmd, cr_created = now, cr_model = tk_model t,
      cr_message = (if tk_is_thinking t then \<lparr>cm_content = None, cm_reasoning = Some (tk_text t), cm_tool_calls = None\<rparr>
                    else \<lparr>cm_content = Some (tk_text t), cm_reasoning = None, cm_tool_calls = None\<rparr>),
      cr_logprobs = some_list (logprobs_of t), cr_finish_reason = tk_finish_reason t, cr_usage = None\<rparr>"

definition tool_calls_indexed :: "tool_call_item list \<Rightarrow> (int \<times> tool_call_item) list" where
  "tool_calls_indexed ts = zip (map int [0..<length ts]) ts"

definition error_message_of :: "string \<Rightarrow> string" where
  "error_message_of m = (if m = [] then ''Internal server error'' else m)"

definition stats_events :: "generation_stats option \<Rightarrow> chat_event list" where
  "stats_events s = (case s of None \<Rightarrow> [] | Some x \<Rightarrow> [ChatStats x])"

fun generate_chat_stream :: "command_id \<Rightarrow> usage option \<Rightarrow> (int \<times> chunk) list \<Rightarrow> chat_event list" where
  "generate_chat_stream cmd last_usage [] = []"
| "generate_chat_stream cmd last_usage ((now, PrefillProgressChunk _ done_tokens total_tokens) # cs) =
     ChatPrefill done_tokens total_tokens # generate_chat_stream cmd last_usage cs"
| "generate_chat_stream cmd last_usage ((now, ErrorChunk _ m _) # cs) = [ChatError (error_message_of m), ChatDone]"
| "generate_chat_stream cmd last_usage ((now, ToolCallChunk t) # cs) =
     (let u = option_or (tcc_usage t) last_usage in
      ChatData \<lparr>cr_id = cmd, cr_created = now, cr_model = tcc_model t,
        cr_message = \<lparr>cm_content = None, cm_reasoning = None, cm_tool_calls = Some (tool_calls_indexed (tcc_tool_calls t))\<rparr>,
        cr_logprobs = None, cr_finish_reason = Some FinishToolCalls, cr_usage = u\<rparr> # stats_events (tcc_stats t) @ [ChatDone])"
| "generate_chat_stream cmd last_usage ((now, TokenChunk t) # cs) =
     (let u = option_or (tk_usage t) last_usage; r = chunk_to_response cmd now t in
      if tk_finish_reason t = None then ChatData r # generate_chat_stream cmd u cs
      else ChatData (r\<lparr>cr_usage := u\<rparr>) # stats_events (tk_stats t) @ [ChatDone])"
| "generate_chat_stream cmd last_usage ((now, ImageChunk _) # cs) = generate_chat_stream cmd last_usage cs"

record chat_collect =
  cc_text :: string
  cc_thinking :: "string list"
  cc_tools :: "(int \<times> tool_call_item) list"
  cc_logprobs :: "logprob_item list"
  cc_model :: "model_id option"
  cc_finish :: "finish_reason option"
  cc_usage :: "usage option"

definition chat_collect_start :: chat_collect where
  "chat_collect_start = \<lparr>cc_text = [], cc_thinking = [], cc_tools = [], cc_logprobs = [], cc_model = None, cc_finish = None, cc_usage = None\<rparr>"

fun chat_collect_loop :: "chat_collect \<Rightarrow> chunk list \<Rightarrow> chat_collect result" where
  "chat_collect_loop s [] = Inr s"
| "chat_collect_loop s (PrefillProgressChunk _ _ _ # cs) = chat_collect_loop s cs"
| "chat_collect_loop s (ErrorChunk _ m _ # cs) = Inl (ValueError (error_message_of m))"
| "chat_collect_loop s (TokenChunk t # cs) =
     chat_collect_loop (s\<lparr>cc_model := option_or (cc_model s) (Some (tk_model t)), cc_usage := option_or (tk_usage t) (cc_usage s),
       cc_thinking := (if tk_is_thinking t then cc_thinking s @ [tk_text t] else cc_thinking s),
       cc_text := (if tk_is_thinking t then cc_text s else cc_text s @ tk_text t),
       cc_logprobs := cc_logprobs s @ logprobs_of t,
       cc_finish := option_or (tk_finish_reason t) (cc_finish s)\<rparr>) cs"
| "chat_collect_loop s (ToolCallChunk t # cs) =
     chat_collect_loop (s\<lparr>cc_model := option_or (cc_model s) (Some (tcc_model t)), cc_usage := option_or (tcc_usage t) (cc_usage s),
       cc_tools := cc_tools s @ tool_calls_indexed (tcc_tool_calls t), cc_finish := Some FinishToolCalls\<rparr>) cs"
| "chat_collect_loop s (ImageChunk _ # cs) = chat_collect_loop s cs"

definition collect_chat_response :: "command_id \<Rightarrow> int \<Rightarrow> chunk list \<Rightarrow> chat_response result" where
  "collect_chat_response cmd now cs =
     rbind (chat_collect_loop chat_collect_start cs) (\<lambda>s.
     rbind (of_option (AssertionError ''model is not None'') (cc_model s)) (\<lambda>model.
     Inr \<lparr>cr_id = cmd, cr_created = now, cr_model = model,
       cr_message = \<lparr>cm_content = Some (cc_text s),
         cm_reasoning = (if cc_thinking s = [] then None else Some (concat (cc_thinking s))),
         cm_tool_calls = some_list (cc_tools s)\<rparr>,
       cr_logprobs = some_list (cc_logprobs s), cr_finish_reason = cc_finish s, cr_usage = cc_usage s\<rparr>))"

section \<open>Claude Messages\<close>

datatype claude_stop_reason = EndTurn | MaxTokens | ToolUse

fun finish_reason_to_claude :: "finish_reason \<Rightarrow> claude_stop_reason" where
  "finish_reason_to_claude FinishLength = MaxTokens"
| "finish_reason_to_claude FinishToolCalls = ToolUse"
| "finish_reason_to_claude FinishFunctionCall = ToolUse"
| "finish_reason_to_claude _ = EndTurn"

datatype claude_block = ThinkingBlock | TextBlock | ToolUseBlock string string

datatype claude_delta = ThinkingDelta string | TextDelta string | InputJsonDelta string

datatype claude_event =
    MessageStart string string
  | ContentBlockStart int claude_block
  | ContentBlockDelta int claude_delta
  | ContentBlockStop int
  | MessageDelta "claude_stop_reason option" int
  | MessageStop

record claude_state =
  ck_output_tokens :: int
  ck_stop :: "claude_stop_reason option"
  ck_usage :: "usage option"
  ck_next :: int
  ck_thinking_started :: bool
  ck_thinking_index :: int
  ck_text_started :: bool
  ck_text_index :: int

definition claude_start :: claude_state where
  "claude_start = \<lparr>ck_output_tokens = 0, ck_stop = None, ck_usage = None, ck_next = 0, ck_thinking_started = False,
     ck_thinking_index = -1, ck_text_started = False, ck_text_index = -1\<rparr>"

fun tool_use_events :: "int \<Rightarrow> tool_call_item list \<Rightarrow> claude_event list" where
  "tool_use_events i [] = []"
| "tool_use_events i (t # ts) =
     ContentBlockStart i (ToolUseBlock (''toolu_'' @ tc_id t) (tc_name t)) # ContentBlockDelta i (InputJsonDelta (tc_arguments t)) #
     ContentBlockStop i # tool_use_events (i + 1) ts"

definition claude_thinking :: "string \<Rightarrow> claude_state \<Rightarrow> claude_state \<times> claude_event list" where
  "claude_thinking x s =
     (let s1 = (if ck_thinking_started s then s
                else s\<lparr>ck_thinking_started := True, ck_thinking_index := ck_next s, ck_next := ck_next s + 1\<rparr>)
      in (s1, (if ck_thinking_started s then [] else [ContentBlockStart (ck_thinking_index s1) ThinkingBlock]) @
              [ContentBlockDelta (ck_thinking_index s1) (ThinkingDelta x)]))"

definition claude_text :: "string \<Rightarrow> claude_state \<Rightarrow> claude_state \<times> claude_event list" where
  "claude_text x s =
     (let s1 = (if ck_text_started s then s
                else s\<lparr>ck_text_started := True, ck_text_index := ck_next s, ck_next := ck_next s + 1\<rparr>)
      in (s1, (if ck_thinking_started s \<and> ck_text_index s = -1 then [ContentBlockStop (ck_thinking_index s)] else []) @
              (if ck_text_started s then [] else [ContentBlockStart (ck_text_index s1) TextBlock]) @
              [ContentBlockDelta (ck_text_index s1) (TextDelta x)]))"

definition claude_token :: "token_chunk \<Rightarrow> claude_state \<Rightarrow> claude_state \<times> claude_event list" where
  "claude_token t s =
     (let s0 = s\<lparr>ck_usage := option_or (tk_usage t) (ck_usage s), ck_output_tokens := ck_output_tokens s + 1\<rparr>;
          (s1, evs) = (if tk_is_thinking t then claude_thinking (tk_text t) s0 else claude_text (tk_text t) s0)
      in (case tk_finish_reason t of None \<Rightarrow> s1 | Some f \<Rightarrow> s1\<lparr>ck_stop := Some (finish_reason_to_claude f)\<rparr>, evs))"

definition claude_tools :: "tool_call_chunk \<Rightarrow> claude_state \<Rightarrow> claude_state \<times> claude_event list" where
  "claude_tools t s =
     (s\<lparr>ck_usage := option_or (tcc_usage t) (ck_usage s), ck_stop := Some ToolUse, ck_next := ck_next s + int (length (tcc_tool_calls t))\<rparr>,
      tool_use_events (ck_next s) (tcc_tool_calls t))"

definition claude_close :: "claude_state \<Rightarrow> claude_event list" where
  "claude_close s =
     (if ck_thinking_started s \<and> ck_text_index s = -1 then [ContentBlockStop (ck_thinking_index s)] else []) @
     (if ck_text_started s then [ContentBlockStop (ck_text_index s)] else []) @
     (if \<not> ck_thinking_started s \<and> \<not> ck_text_started s then [ContentBlockStart 0 TextBlock, ContentBlockStop 0] else []) @
     [MessageDelta (ck_stop s) (case ck_usage s of None \<Rightarrow> ck_output_tokens s | Some u \<Rightarrow> us_completion_tokens u), MessageStop]"

fun claude_loop :: "claude_state \<Rightarrow> chunk list \<Rightarrow> claude_event list" where
  "claude_loop s [] = claude_close s"
| "claude_loop s (PrefillProgressChunk _ _ _ # cs) = claude_loop s cs"
| "claude_loop s (ErrorChunk _ _ _ # cs) = claude_close s"
| "claude_loop s (ToolCallChunk t # cs) = snd (claude_tools t s) @ claude_loop (fst (claude_tools t s)) cs"
| "claude_loop s (TokenChunk t # cs) = snd (claude_token t s) @ claude_loop (fst (claude_token t s)) cs"
| "claude_loop s (ImageChunk _ # cs) = []"

definition generate_claude_stream :: "command_id \<Rightarrow> string \<Rightarrow> chunk list \<Rightarrow> claude_event list" where
  "generate_claude_stream cmd model cs = MessageStart (''msg_'' @ cmd) model # claude_loop claude_start cs"

datatype claude_content =
    ThinkingContent string
  | TextContent string
  | ToolUseContent string string json

record claude_response =
  cl_id :: string
  cl_model :: string
  cl_content :: "claude_content list"
  cl_stop_reason :: "claude_stop_reason option"
  cl_input_tokens :: int
  cl_output_tokens :: int

record claude_collect =
  cq_text :: string
  cq_thinking :: string
  cq_tools :: "claude_content list"
  cq_stop :: "claude_stop_reason option"
  cq_usage :: "usage option"

fun claude_collect_loop :: "(string \<Rightarrow> json result) \<Rightarrow> claude_collect \<Rightarrow> chunk list \<Rightarrow> claude_collect result" where
  "claude_collect_loop loads s [] = Inr s"
| "claude_collect_loop loads s (PrefillProgressChunk _ _ _ # cs) = claude_collect_loop loads s cs"
| "claude_collect_loop loads s (ErrorChunk _ m _ # cs) = Inl (ValueError (error_message_of m))"
| "claude_collect_loop loads s (ToolCallChunk t # cs) =
     rbind (rmap (\<lambda>c. rbind (loads (tc_arguments c)) (\<lambda>j. Inr (ToolUseContent (''toolu_'' @ tc_id c) (tc_name c) j))) (tcc_tool_calls t)) (\<lambda>bs.
     claude_collect_loop loads (s\<lparr>cq_usage := option_or (tcc_usage t) (cq_usage s), cq_tools := cq_tools s @ bs, cq_stop := Some ToolUse\<rparr>) cs)"
| "claude_collect_loop loads s (TokenChunk t # cs) =
     claude_collect_loop loads (s\<lparr>cq_usage := option_or (tk_usage t) (cq_usage s),
       cq_thinking := (if tk_is_thinking t then cq_thinking s @ tk_text t else cq_thinking s),
       cq_text := (if tk_is_thinking t then cq_text s else cq_text s @ tk_text t),
       cq_stop := (case tk_finish_reason t of None \<Rightarrow> cq_stop s | Some f \<Rightarrow> Some (finish_reason_to_claude f))\<rparr>) cs"
| "claude_collect_loop loads s (ImageChunk _ # cs) = Inl (OtherError ''AttributeError'')"

definition collect_claude_response :: "(string \<Rightarrow> json result) \<Rightarrow> command_id \<Rightarrow> string \<Rightarrow> chunk list \<Rightarrow> claude_response result" where
  "collect_claude_response loads cmd model cs =
     rbind (claude_collect_loop loads \<lparr>cq_text = [], cq_thinking = [], cq_tools = [], cq_stop = None, cq_usage = None\<rparr> cs) (\<lambda>s.
     let content = (if cq_thinking s = [] then [] else [ThinkingContent (cq_thinking s)]) @
                   (if cq_text s = [] then [] else [TextContent (cq_text s)]) @ cq_tools s
     in Inr \<lparr>cl_id = ''msg_'' @ cmd, cl_model = model,
          cl_content = (if content = [] then [TextContent []] else content), cl_stop_reason = cq_stop s,
          cl_input_tokens = (case cq_usage s of None \<Rightarrow> 0 | Some u \<Rightarrow> us_prompt_tokens u),
          cl_output_tokens = (case cq_usage s of None \<Rightarrow> 0 | Some u \<Rightarrow> us_completion_tokens u)\<rparr>)"


section \<open>What a client of the chat stream puts together\<close>

fun event_data :: "chat_event \<Rightarrow> chat_response list" where
  "event_data (ChatData r) = [r]"
| "event_data _ = []"

fun event_errors :: "chat_event \<Rightarrow> string list" where
  "event_errors (ChatError m) = [m]"
| "event_errors _ = []"

definition stream_data :: "chat_event list \<Rightarrow> chat_response list" where
  "stream_data evs = concat (map event_data evs)"

definition stream_errors :: "chat_event list \<Rightarrow> string list" where
  "stream_errors evs = concat (map event_errors evs)"

lemma stream_simps [simp]:
  "stream_data [] = []" "stream_data (e # es) = event_data e @ stream_data es" "stream_data (es @ es') = stream_data es @ stream_data es'"
  "stream_errors [] = []" "stream_errors (e # es) = event_errors e @ stream_errors es"
  "stream_errors (es @ es') = stream_errors es @ stream_errors es'"
  by (simp_all add: stream_data_def stream_errors_def)

definition opt_list :: "'a option \<Rightarrow> 'a list" where
  "opt_list x = (case x of None \<Rightarrow> [] | Some y \<Rightarrow> [y])"

lemma opt_list_simps [simp]: "opt_list None = []" "opt_list (Some x) = [x]"
  by (simp_all add: opt_list_def)

definition reassemble :: "command_id \<Rightarrow> int \<Rightarrow> chat_event list \<Rightarrow> chat_response result" where
  "reassemble cmd now evs =
     (case stream_errors evs of
        m # _ \<Rightarrow> Inl (ValueError m)
      | [] \<Rightarrow>
          let ds = stream_data evs; ms = map cr_message ds; thoughts = concat (map (opt_list \<circ> cm_reasoning) ms) in
          if ds = [] then Inl (AssertionError ''model is not None'')
          else Inr \<lparr>cr_id = cmd, cr_created = now, cr_model = cr_model (hd ds),
            cr_message = \<lparr>cm_content = Some (concat (concat (map (opt_list \<circ> cm_content) ms))),
              cm_reasoning = (if thoughts = [] then None else Some (concat thoughts)),
              cm_tool_calls = some_list (concat (concat (map (opt_list \<circ> cm_tool_calls) ms)))\<rparr>,
            cr_logprobs = some_list (concat (concat (map (opt_list \<circ> cr_logprobs) ds))),
            cr_finish_reason = cr_finish_reason (last ds), cr_usage = cr_usage (last ds)\<rparr>)"

text \<open>A chunk stream that ends once: finish reasons only in the last chunk, which is not an image.\<close>

definition finishes_once :: "chunk list \<Rightarrow> bool" where
  "finishes_once cs \<longleftrightarrow> cs \<noteq> [] \<and> list_all (\<lambda>c. chunk_finish_reason c = None) (butlast cs) \<and> chunk_finish_reason (last cs) \<noteq> None \<and>
     (\<forall>i. last cs \<noteq> ImageChunk i)"

lemma finishes_once_Cons:
  "finishes_once (c # cs) \<longleftrightarrow> (if cs = [] then chunk_finish_reason c \<noteq> None \<and> (\<forall>i. c \<noteq> ImageChunk i)
     else chunk_finish_reason c = None \<and> finishes_once cs)"
  by (auto simp: finishes_once_def)

lemma some_list_opt [simp]: "concat (opt_list (some_list xs)) = xs"
  by (simp add: some_list_def)

text \<open>The collecting loop adds what the data events of the stream carry.\<close>

definition collected :: "chat_collect \<Rightarrow> chat_response list \<Rightarrow> chat_collect" where
  "collected s ds =
     (let ms = map cr_message ds in
      s\<lparr>cc_text := cc_text s @ concat (concat (map (opt_list \<circ> cm_content) ms)),
        cc_thinking := cc_thinking s @ concat (map (opt_list \<circ> cm_reasoning) ms),
        cc_tools := cc_tools s @ concat (concat (map (opt_list \<circ> cm_tool_calls) ms)),
        cc_logprobs := cc_logprobs s @ concat (concat (map (opt_list \<circ> cr_logprobs) ds)),
        cc_model := option_or (cc_model s) (Some (cr_model (hd ds))),
        cc_finish := cr_finish_reason (last ds), cc_usage := cr_usage (last ds)\<rparr>)"

lemma stats_no_data [simp]: "stream_data (stats_events x) = []" "stream_errors (stats_events x) = []"
  by (auto simp: stats_events_def split: option.splits)

lemma chat_loop_collects:
  assumes "finishes_once (map snd cs)" "cc_finish s = None"
  shows "(\<exists>m. chat_collect_loop s (map snd cs) = Inl (ValueError m) \<and> stream_errors (generate_chat_stream cmd (cc_usage s) cs) = [m]) \<or>
    (\<exists>ds. stream_data (generate_chat_stream cmd (cc_usage s) cs) = ds \<and> ds \<noteq> [] \<and>
      stream_errors (generate_chat_stream cmd (cc_usage s) cs) = [] \<and> chat_collect_loop s (map snd cs) = Inr (collected s ds))"
  using assms
proof (induction cs arbitrary: s)
  case (Cons nc cs)
  obtain now c where nc: "nc = (now, c)" by force
  show ?case
  proof (cases c)
    case (TokenChunk t)
    let ?s = "s\<lparr>cc_model := option_or (cc_model s) (Some (tk_model t)), cc_usage := option_or (tk_usage t) (cc_usage s),
       cc_thinking := (if tk_is_thinking t then cc_thinking s @ [tk_text t] else cc_thinking s),
       cc_text := (if tk_is_thinking t then cc_text s else cc_text s @ tk_text t),
       cc_logprobs := cc_logprobs s @ logprobs_of t, cc_finish := option_or (tk_finish_reason t) (cc_finish s)\<rparr>"
    show ?thesis
    proof (cases "tk_finish_reason t")
      case None
      then have rest: "finishes_once (map snd cs)" "cc_finish ?s = None"
        using Cons.prems by (auto simp: nc TokenChunk finishes_once_Cons option_or_def split: if_splits)
      have add: "collected ?s ds = collected s (chunk_to_response cmd now t # ds)" if "ds \<noteq> []" for ds
        using that by (auto simp: collected_def Let_def chunk_to_response_def option_or_def)
      have loop: "chat_collect_loop s (map snd (nc # cs)) = chat_collect_loop ?s (map snd cs)" by (simp add: nc TokenChunk)
      have events: "generate_chat_stream cmd (cc_usage s) (nc # cs) =
          ChatData (chunk_to_response cmd now t) # generate_chat_stream cmd (cc_usage ?s) cs"
        using None by (simp add: nc TokenChunk Let_def)
      from Cons.IH [OF rest] show ?thesis unfolding loop events by (elim disjE exE conjE) (auto simp: add)
    next
      case (Some f)
      then have "cs = []" using Cons.prems by (auto simp: nc TokenChunk finishes_once_Cons split: if_splits)
      then show ?thesis
        by (auto simp: nc TokenChunk Some Let_def collected_def chunk_to_response_def option_or_def)
    qed
  next
    case (ToolCallChunk t)
    then have "cs = []" using Cons.prems by (auto simp: nc finishes_once_Cons split: if_splits)
    then show ?thesis by (auto simp: nc ToolCallChunk Let_def collected_def option_or_def)
  next
    case (ImageChunk i)
    then have "finishes_once (map snd cs)" using Cons.prems by (auto simp: nc finishes_once_Cons split: if_splits)
    from Cons.IH [OF this Cons.prems(2)] show ?thesis by (simp add: nc ImageChunk)
  next
    case (PrefillProgressChunk a b d)
    then have "finishes_once (map snd cs)" using Cons.prems by (auto simp: nc finishes_once_Cons split: if_splits)
    from Cons.IH [OF this Cons.prems(2)] show ?thesis by (simp add: nc PrefillProgressChunk)
  qed (simp add: nc)
qed (simp add: finishes_once_def)

text \<open>
  C24: the streamed and the collected answer of the Chat Completions interface agree. For a stream whose last chunk and no
  other has a finish reason, and is not an image, a client that puts the stream's events together has exactly the response the
  collecting adapter returns - text, reasoning, tool calls, log probabilities, finish reason and usage -, and an error is the
  same error.
\<close>

theorem chat_stream_equals_collected:
  assumes "finishes_once (map snd cs)"
  shows "collect_chat_response cmd now (map snd cs) = reassemble cmd now (generate_chat_stream cmd None cs)"
proof -
  have "cc_finish chat_collect_start = None" "cc_usage chat_collect_start = None" by (simp_all add: chat_collect_start_def)
  from chat_loop_collects [OF assms this(1), of cmd, unfolded this(2)] show ?thesis
    by (elim disjE exE conjE) (auto simp: collect_chat_response_def reassemble_def Let_def collected_def chat_collect_start_def option_or_def)
qed


section \<open>A client of the Claude stream\<close>

text \<open>
  The protocol of the stream: blocks are numbered in the order they are opened, a delta or a stop names an open
  block, and the message ends with no block open.
\<close>

datatype client_block = ClThinking string | ClText string | ClTool string string string

fun client_open :: "claude_block \<Rightarrow> client_block" where
  "client_open ThinkingBlock = ClThinking []"
| "client_open TextBlock = ClText []"
| "client_open (ToolUseBlock i n) = ClTool i n []"

fun client_add :: "client_block \<Rightarrow> claude_delta \<Rightarrow> client_block option" where
  "client_add (ClThinking x) (ThinkingDelta y) = Some (ClThinking (x @ y))"
| "client_add (ClText x) (TextDelta y) = Some (ClText (x @ y))"
| "client_add (ClTool i n x) (InputJsonDelta y) = Some (ClTool i n (x @ y))"
| "client_add _ _ = None"

record client =
  ci_open :: "int list"
  ci_blocks :: "client_block list"
  ci_stop :: "claude_stop_reason option"
  ci_tokens :: int

definition new_client :: client where
  "new_client = \<lparr>ci_open = [], ci_blocks = [], ci_stop = None, ci_tokens = 0\<rparr>"

fun client_step :: "client \<Rightarrow> claude_event \<Rightarrow> client option" where
  "client_step c (MessageStart _ _) = Some c"
| "client_step c (ContentBlockStart i b) =
     (if i = int (length (ci_blocks c)) then Some (c\<lparr>ci_open := ci_open c @ [i], ci_blocks := ci_blocks c @ [client_open b]\<rparr>) else None)"
| "client_step c (ContentBlockDelta i d) =
     (if i \<in> set (ci_open c)
      then map_option (\<lambda>b. c\<lparr>ci_blocks := (ci_blocks c)[nat i := b]\<rparr>) (client_add (ci_blocks c ! nat i) d) else None)"
| "client_step c (ContentBlockStop i) = (if i \<in> set (ci_open c) then Some (c\<lparr>ci_open := removeAll i (ci_open c)\<rparr>) else None)"
| "client_step c (MessageDelta st n) = (if ci_open c = [] then Some (c\<lparr>ci_stop := st, ci_tokens := n\<rparr>) else None)"
| "client_step c MessageStop = Some c"

fun client_run :: "client \<Rightarrow> claude_event list \<Rightarrow> client option" where
  "client_run c [] = Some c"
| "client_run c (e # es) = Option.bind (client_step c e) (\<lambda>c'. client_run c' es)"

lemma client_run_append: "client_run c (es @ es') = Option.bind (client_run c es) (\<lambda>c'. client_run c' es')"
  by (induction es arbitrary: c) (auto split: Option.bind_split)

text \<open>Tokens and progress only, and no thinking token after a text token.\<close>

fun thinking_first :: "bool \<Rightarrow> chunk list \<Rightarrow> bool" where
  "thinking_first seen [] = True"
| "thinking_first seen (TokenChunk t # cs) = ((tk_is_thinking t \<longrightarrow> \<not> seen) \<and> thinking_first (seen \<or> \<not> tk_is_thinking t) cs)"
| "thinking_first seen (PrefillProgressChunk _ _ _ # cs) = thinking_first seen cs"
| "thinking_first seen _ = False"

text \<open>The adapter and the client in step; \<open>q\<close> is what the collecting adapter has gathered.\<close>

definition in_step :: "claude_state \<Rightarrow> claude_collect \<Rightarrow> client \<Rightarrow> bool" where
  "in_step s q c \<longleftrightarrow>
     (let th = ck_thinking_started s; tx = ck_text_started s; k = of_bool th in
      ck_thinking_index s = (if th then 0 else -1) \<and> ck_text_index s = (if tx then k else -1) \<and> ck_next s = k + of_bool tx \<and>
      ci_open c = (if tx then [k] else if th then [0] else []) \<and>
      ci_blocks c = (if th then [ClThinking (cq_thinking q)] else []) @ (if tx then [ClText (cq_text q)] else []) \<and>
      (\<not> th \<longrightarrow> cq_thinking q = []) \<and> (\<not> tx \<longrightarrow> cq_text q = []) \<and>
      ck_stop s = cq_stop q \<and> ck_usage s = cq_usage q \<and> cq_tools q = [])"

definition collect_token :: "token_chunk \<Rightarrow> claude_collect \<Rightarrow> claude_collect" where
  "collect_token t q = q\<lparr>cq_usage := option_or (tk_usage t) (cq_usage q),
     cq_thinking := (if tk_is_thinking t then cq_thinking q @ tk_text t else cq_thinking q),
     cq_text := (if tk_is_thinking t then cq_text q else cq_text q @ tk_text t),
     cq_stop := (case tk_finish_reason t of None \<Rightarrow> cq_stop q | Some f \<Rightarrow> Some (finish_reason_to_claude f))\<rparr>"

lemma token_in_step:
  assumes "in_step s q c" "tk_is_thinking t \<longrightarrow> \<not> ck_text_started s"
  shows "\<exists>c'. client_run c (snd (claude_token t s)) = Some c' \<and> in_step (fst (claude_token t s)) (collect_token t q) c' \<and>
    ck_text_started (fst (claude_token t s)) = (ck_text_started s \<or> \<not> tk_is_thinking t)"
proof (cases "tk_is_thinking t")
  case True
  then show ?thesis using assms
    by (cases "ck_thinking_started s"; cases "tk_finish_reason t")
      (auto simp: in_step_def claude_token_def claude_thinking_def collect_token_def Let_def)
next
  case False
  then show ?thesis using assms
    by (cases "ck_thinking_started s"; cases "ck_text_started s"; cases "tk_finish_reason t")
      (auto simp: in_step_def claude_token_def claude_text_def collect_token_def Let_def)
qed


fun is_token :: "chunk \<Rightarrow> bool" where
  "is_token (TokenChunk _) = True"
| "is_token _ = False"

lemma tokens_in_step:
  assumes "in_step s q c" "thinking_first (ck_text_started s) ms"
  obtains evs s' q' c' where "\<And>cs. claude_loop s (ms @ cs) = evs @ claude_loop s' cs"
    "\<And>cs. claude_collect_loop loads q (ms @ cs) = claude_collect_loop loads q' cs" "client_run c evs = Some c'" "in_step s' q' c'"
    "(ck_thinking_started s' \<or> ck_text_started s') = (ck_thinking_started s \<or> ck_text_started s \<or> list_ex is_token ms)"
    "ck_text_started s' = (ck_text_started s \<or> list_ex (\<lambda>x. \<exists>t. x = TokenChunk t \<and> \<not> tk_is_thinking t) ms)"
  using assms
proof (induction ms arbitrary: s q c thesis)
  case Nil
  show ?case by (rule Nil.prems(1) [of "[]" s q c]) (use Nil.prems in simp_all)
next
  case (Cons x ms)
  show ?case
  proof (cases x)
    case (TokenChunk t)
    have tf: "tk_is_thinking t \<longrightarrow> \<not> ck_text_started s" using Cons.prems(3) by (simp add: TokenChunk)
    let ?s = "fst (claude_token t s)"
    obtain c1 where c1: "client_run c (snd (claude_token t s)) = Some c1" "in_step ?s (collect_token t q) c1"
      "ck_text_started ?s = (ck_text_started s \<or> \<not> tk_is_thinking t)" using token_in_step [OF Cons.prems(2) tf] by blast
    have th: "ck_thinking_started ?s \<or> ck_text_started ?s"
      by (auto simp: claude_token_def claude_thinking_def claude_text_def Let_def split: option.split)
    have tf': "thinking_first (ck_text_started ?s) ms" using Cons.prems(3) by (simp add: TokenChunk c1(3))
    show ?thesis
    proof (rule Cons.IH [OF _ c1(2) tf'])
      fix evs s' q' c'
      assume *: "\<And>cs. claude_loop ?s (ms @ cs) = evs @ claude_loop s' cs"
        "\<And>cs. claude_collect_loop loads (collect_token t q) (ms @ cs) = claude_collect_loop loads q' cs" "client_run c1 evs = Some c'" "in_step s' q' c'"
        "(ck_thinking_started s' \<or> ck_text_started s') = (ck_thinking_started ?s \<or> ck_text_started ?s \<or> list_ex is_token ms)"
        "ck_text_started s' = (ck_text_started ?s \<or> list_ex (\<lambda>x. \<exists>t. x = TokenChunk t \<and> \<not> tk_is_thinking t) ms)"
      show thesis
      proof (rule Cons.prems(1) [of "snd (claude_token t s) @ evs" s' q' c'])
        show "claude_collect_loop loads q ((x # ms) @ cs) = claude_collect_loop loads q' cs" for cs
          using *(2) [of cs] by (simp add: TokenChunk collect_token_def)
      qed (use * th c1 in \<open>auto simp: TokenChunk client_run_append\<close>)
    qed
  next
    case (PrefillProgressChunk a b d)
    show ?thesis by (rule Cons.IH [OF _ Cons.prems(2)])
      (use Cons.prems(3) in \<open>auto simp: PrefillProgressChunk intro!: Cons.prems(1)\<close>)
  qed (use Cons.prems(3) in simp_all)
qed

lemma start_in_step: "in_step claude_start \<lparr>cq_text = [], cq_thinking = [], cq_tools = [], cq_stop = None, cq_usage = None\<rparr> new_client"
  by (simp add: in_step_def claude_start_def new_client_def)

text \<open>The blocks of a tool chunk are opened, filled and closed one after the other.\<close>

lemma tool_events_run:
  "i = int (length (ci_blocks c)) \<Longrightarrow> \<forall>k \<in> set (ci_open c). k < i \<Longrightarrow>
   client_run c (tool_use_events i ts) =
     Some (c\<lparr>ci_blocks := ci_blocks c @ map (\<lambda>t. ClTool (''toolu_'' @ tc_id t) (tc_name t) (tc_arguments t)) ts\<rparr>)"
proof (induction i ts arbitrary: c rule: tool_use_events.induct)
  case (2 i t ts)
  let ?b = "ClTool (''toolu_'' @ tc_id t) (tc_name t) (tc_arguments t)"
  have "removeAll i (ci_open c) = ci_open c" using "2.prems"(2) by (auto simp: removeAll_id)
  then have step: "client_run c (tool_use_events i (t # ts)) =
      client_run (c\<lparr>ci_blocks := ci_blocks c @ [?b]\<rparr>) (tool_use_events (i + 1) ts)"
    using "2.prems"(1) by (simp add: nat_int list_update_append)
  show ?case unfolding step using "2.IH" [of "c\<lparr>ci_blocks := ci_blocks c @ [?b]\<rparr>"] "2.prems" by (simp add: less_Suc_eq) fastforce
qed simp

lemma close_run:
  assumes "in_step s q c" "c' = c\<lparr>ci_blocks := ci_blocks c @ bs\<rparr>" "bs = [] \<or> ck_thinking_started s \<or> ck_text_started s"
    "ck_thinking_started s' = ck_thinking_started s" "ck_text_started s' = ck_text_started s"
    "ck_thinking_index s' = ck_thinking_index s" "ck_text_index s' = ck_text_index s"
  shows "\<exists>k. client_run c' (claude_close s') = Some k \<and> ci_open k = [] \<and> ci_stop k = ck_stop s' \<and>
    ci_blocks k = (if ck_thinking_started s \<or> ck_text_started s then ci_blocks c @ bs else [ClText []])"
  using assms by (cases "ck_thinking_started s"; cases "ck_text_started s") (auto simp: in_step_def claude_close_def Let_def)

fun client_content :: "(string \<Rightarrow> json result) \<Rightarrow> client_block \<Rightarrow> claude_content" where
  "client_content loads (ClThinking x) = ThinkingContent x"
| "client_content loads (ClText x) = TextContent x"
| "client_content loads (ClTool i n x) = ToolUseContent i n (case loads x of Inr j \<Rightarrow> j | Inl _ \<Rightarrow> JNull)"

fun has_content :: "claude_content \<Rightarrow> bool" where
  "has_content (ThinkingContent x) = (x \<noteq> [])"
| "has_content (TextContent x) = (x \<noteq> [])"
| "has_content (ToolUseContent _ _ _) = True"

lemma tool_contents:
  "rmap (\<lambda>c. rbind (loads (tc_arguments c)) (\<lambda>j. Inr (ToolUseContent (''toolu_'' @ tc_id c) (tc_name c) j))) ts = Inr bs \<Longrightarrow>
   bs = map (\<lambda>t. client_content loads (ClTool (''toolu_'' @ tc_id t) (tc_name t) (tc_arguments t))) ts"
  by (induction ts arbitrary: bs) auto

lemma filter_tools: "filter has_content (map (\<lambda>t. client_content loads (ClTool (f t) (g t) (h t))) ts) = map (\<lambda>t. client_content loads (ClTool (f t) (g t) (h t))) ts"
  by (induction ts) auto

lemma in_step_contents:
  "in_step s q c \<Longrightarrow> filter has_content (map (client_content loads) (ci_blocks c)) =
     (if cq_thinking q = [] then [] else [ThinkingContent (cq_thinking q)]) @ (if cq_text q = [] then [] else [TextContent (cq_text q)])"
  by (auto simp: in_step_def Let_def)

text \<open>
  C25: the Claude stream follows its protocol and carries the collected answer. When no thinking token comes after a
  text token and tool calls, which end a stream, come after some token, a client accepts the stream: blocks are numbered as
  they are opened, every delta and stop names an open block and all blocks are closed; its non-empty blocks and its
  stop reason are those of the response the collecting adapter returns.
\<close>

theorem claude_stream_follows_protocol:
  assumes "thinking_first False ms" "tools = [] \<or> tools = [ToolCallChunk t] \<and> list_ex is_token ms"
    and "collect_claude_response loads cmd model (ms @ tools) = Inr r"
  shows "\<exists>k. client_run new_client (generate_claude_stream cmd model (ms @ tools)) = Some k \<and> ci_open k = [] \<and> ci_stop k = cl_stop_reason r \<and>
    filter has_content (map (client_content loads) (ci_blocks k)) = filter has_content (cl_content r)"
proof -
  let ?q0 = "\<lparr>cq_text = [], cq_thinking = [], cq_tools = [], cq_stop = None, cq_usage = None\<rparr>"
  have tf: "thinking_first (ck_text_started claude_start) ms" using assms(1) by (simp add: claude_start_def)
  obtain evs s q c where run: "\<And>cs. claude_loop claude_start (ms @ cs) = evs @ claude_loop s cs"
    "\<And>cs. claude_collect_loop loads ?q0 (ms @ cs) = claude_collect_loop loads q cs" "client_run new_client evs = Some c" "in_step s q c"
    "(ck_thinking_started s \<or> ck_text_started s) = (ck_thinking_started claude_start \<or> ck_text_started claude_start \<or> list_ex is_token ms)"
    by (rule tokens_in_step [OF start_in_step tf, where loads = loads]) blast
  have next_ok: "ck_next s = int (length (ci_blocks c))" "\<forall>k \<in> set (ci_open c). k < ck_next s"
    and q: "ck_stop s = cq_stop q" "cq_tools q = []"
    using run(4) by (auto simp: in_step_def Let_def)
  have client: "client_run new_client (generate_claude_stream cmd model (ms @ tools)) = client_run c (claude_loop s tools)"
    by (simp add: generate_claude_stream_def run(1) client_run_append run(3))
  have idle: "cq_thinking q = [] \<and> cq_text q = []" if "\<not> (ck_thinking_started s \<or> ck_text_started s)"
    using run(4) that by (auto simp: in_step_def Let_def)
  show ?thesis
  proof (cases "tools = []")
    case True
    obtain k where k: "client_run c (claude_close s) = Some k" "ci_open k = []" "ci_stop k = ck_stop s"
      "ci_blocks k = (if ck_thinking_started s \<or> ck_text_started s then ci_blocks c @ [] else [ClText []])"
      using close_run [OF run(4), where bs = "[]" and s' = s] by auto
    have r: "cl_stop_reason r = cq_stop q" "filter has_content (cl_content r) = filter has_content (map (client_content loads) (ci_blocks c))"
      using assms(3) run(2) [of "[]"] q(2) in_step_contents [OF run(4)] by (auto simp: True collect_claude_response_def Let_def)
    show ?thesis using k r client q(1) idle in_step_contents [OF run(4)] by (auto simp: True)
  next
    case False
    then have t: "tools = [ToolCallChunk t]" "ck_thinking_started s \<or> ck_text_started s" using assms(2) run(5) by auto
    let ?bs = "map (\<lambda>t. ClTool (''toolu_'' @ tc_id t) (tc_name t) (tc_arguments t)) (tcc_tool_calls t)"
    obtain k where k: "client_run (c\<lparr>ci_blocks := ci_blocks c @ ?bs\<rparr>) (claude_close (fst (claude_tools t s))) = Some k" "ci_open k = []"
      "ci_stop k = Some ToolUse" "ci_blocks k = ci_blocks c @ ?bs"
      using close_run [OF run(4) refl, where bs = ?bs and s' = "fst (claude_tools t s)"] t(2) by (auto simp: claude_tools_def)
    have "client_run c (claude_loop s tools) = Some k"
      using tool_events_run [OF next_ok] k(1) by (simp add: t(1) client_run_append claude_tools_def)
    moreover obtain bs where "rmap (\<lambda>c. rbind (loads (tc_arguments c)) (\<lambda>j. Inr (ToolUseContent (''toolu_'' @ tc_id c) (tc_name c) j))) (tcc_tool_calls t) = Inr bs"
      and r: "cl_stop_reason r = Some ToolUse" "filter has_content (cl_content r) = filter has_content
        ((if cq_thinking q = [] then [] else [ThinkingContent (cq_thinking q)]) @ (if cq_text q = [] then [] else [TextContent (cq_text q)]) @ bs)"
      using assms(3) run(2) [of tools] q(2) by (auto simp: t(1) collect_claude_response_def Let_def)
    moreover from tool_contents [OF this(1)] have "bs = map (client_content loads) ?bs" by simp
    ultimately show ?thesis using k client in_step_contents [OF run(4), of loads] by (auto simp: filter_tools)
  qed
qed


section \<open>Streams that break the protocol\<close>

lemma claude_prefill: "list_all (\<lambda>c. \<exists>a b d. c = PrefillProgressChunk a b d) ps \<Longrightarrow> claude_loop s (ps @ cs) = claude_loop s cs"
  by (induction ps) auto

text \<open>
  An answer that consists of tool calls only breaks the protocol: after the tool blocks an empty text block is
  opened with the number 0, which the first tool block already has.
\<close>

theorem claude_tool_only_reuses_index:
  assumes "list_all (\<lambda>c. \<exists>a b d. c = PrefillProgressChunk a b d) ps" "tcc_tool_calls t \<noteq> []"
  shows "client_run new_client (generate_claude_stream cmd model (ps @ [ToolCallChunk t])) = None"
  using assms(2) tool_events_run [of 0 new_client "tcc_tool_calls t"]
  by (simp add: generate_claude_stream_def claude_prefill [OF assms(1)] client_run_append claude_tools_def claude_close_def claude_start_def
      new_client_def)

text \<open>The thinking block is open, and nothing that follows closes it.\<close>

definition stuck :: "claude_state \<Rightarrow> client \<Rightarrow> bool" where
  "stuck s c \<longleftrightarrow> ck_thinking_started s \<and> ck_text_started s \<and> 0 \<le> ck_text_index s \<and> ck_thinking_index s \<noteq> ck_text_index s \<and>
     ck_thinking_index s < ck_next s \<and> ck_thinking_index s \<in> set (ci_open c)"

lemma tool_events_keep_open:
  "client_run c (tool_use_events i ts) = Some c' \<Longrightarrow> k \<in> set (ci_open c) \<Longrightarrow> k < i \<Longrightarrow> k \<in> set (ci_open c')"
  by (induction i ts arbitrary: c rule: tool_use_events.induct) (auto split: if_splits simp: bind_eq_Some_conv)

lemma removeAll_Nil: "removeAll x xs = [] \<Longrightarrow> y \<in> set xs \<Longrightarrow> y = x"
  by (metis DiffI empty_iff empty_set set_removeAll singletonD)

lemma stuck_never_ends:
  "stuck s c \<Longrightarrow> list_all (\<lambda>x. \<forall>i. x \<noteq> ImageChunk i) cs \<Longrightarrow> client_run c (claude_loop s cs) = None"
proof (induction s cs arbitrary: c rule: claude_loop.induct)
  case (4 s t cs)
  have keep: "stuck (fst (claude_tools t s)) c'" if "client_run c (snd (claude_tools t s)) = Some c'" for c'
    using that "4.prems"(1) tool_events_keep_open by (auto simp: stuck_def claude_tools_def)
  show ?case using "4.IH" [OF keep] "4.prems"(2) by (auto simp: client_run_append split: Option.bind_split)
next
  case (5 s t cs)
  have keep: "stuck (fst (claude_token t s)) c'" if "client_run c (snd (claude_token t s)) = Some c'" for c'
    using that "5.prems"(1)
    by (cases "tk_finish_reason t")
      (auto simp: stuck_def claude_token_def claude_thinking_def claude_text_def Let_def split: if_splits option.splits)
  show ?case using "5.IH" [OF keep] "5.prems"(2) by (auto simp: client_run_append split: Option.bind_split)
qed (auto simp: stuck_def claude_close_def dest: removeAll_Nil)

text \<open>
  Thinking after text breaks the protocol. Whatever follows, the thinking token is either added to a block that was
  closed when the text began, or opens a block that is never closed.
\<close>

theorem claude_thinking_after_text_rejected:
  assumes "thinking_first False ms" "list_ex (\<lambda>x. \<exists>t. x = TokenChunk t \<and> \<not> tk_is_thinking t) ms" "tk_is_thinking t"
    and "list_all (\<lambda>x. \<forall>i. x \<noteq> ImageChunk i) cs"
  shows "client_run new_client (generate_claude_stream cmd model (ms @ TokenChunk t # cs)) = None"
proof -
  have tf: "thinking_first (ck_text_started claude_start) ms" using assms(1) by (simp add: claude_start_def)
  obtain evs s q c where run: "\<And>cs. claude_loop claude_start (ms @ cs) = evs @ claude_loop s cs" "client_run new_client evs = Some c" "in_step s q c"
    "ck_text_started s = (ck_text_started claude_start \<or> list_ex (\<lambda>x. \<exists>t. x = TokenChunk t \<and> \<not> tk_is_thinking t) ms)"
    by (rule tokens_in_step [OF start_in_step tf]) blast
  have tx: "ck_text_started s" using run(4) assms(2) by simp
  have "client_run c (snd (claude_token t s)) = None \<or>
      (\<exists>c'. client_run c (snd (claude_token t s)) = Some c' \<and> stuck (fst (claude_token t s)) c')"
    using run(3) tx assms(3)
    by (cases "ck_thinking_started s"; cases "tk_finish_reason t")
      (auto simp: in_step_def claude_token_def claude_thinking_def stuck_def Let_def)
  then have "client_run c (snd (claude_token t s) @ claude_loop (fst (claude_token t s)) cs) = None"
    using stuck_never_ends [OF _ assms(4)] by (auto simp: client_run_append)
  then show ?thesis by (simp add: generate_claude_stream_def run(1) client_run_append run(2))
qed

text \<open>
  The Claude stream hides errors: a generation that fails gives the stream of one that stopped before the failure,
  while the collecting adapter raises the error.
\<close>

theorem claude_stream_hides_errors:
  assumes "list_all (\<lambda>x. (\<forall>i. x \<noteq> ImageChunk i) \<and> (\<forall>a b d. x \<noteq> ErrorChunk a b d)) cs" "\<forall>x. \<exists>j. loads x = Inr j"
  shows "generate_claude_stream cmd model (cs @ ErrorChunk m e ds # rest) = generate_claude_stream cmd model cs \<and>
    collect_claude_response loads cmd model (cs @ ErrorChunk m e ds # rest) = Inl (ValueError (error_message_of e))"
proof -
  have "claude_loop s (cs @ ErrorChunk m e ds # rest) = claude_loop s cs" for s
    using assms(1) by (induction s cs rule: claude_loop.induct) auto
  moreover obtain j where j: "\<And>x. loads x = Inr (j x)" using assms(2) by metis
  have calls: "rmap (\<lambda>c. rbind (loads (tc_arguments c)) (\<lambda>j. Inr (ToolUseContent (''toolu_'' @ tc_id c) (tc_name c) j))) ts =
      Inr (map (\<lambda>c. ToolUseContent (''toolu_'' @ tc_id c) (tc_name c) (j (tc_arguments c))) ts)" for ts
    by (rule rmap_total) (simp add: j)
  have "claude_collect_loop loads q (cs @ ErrorChunk m e ds # rest) = Inl (ValueError (error_message_of e))" for q
    using assms(1)
  proof (induction cs arbitrary: q)
    case (Cons x cs)
    show ?case
    proof (cases x)
      case (ToolCallChunk t)
      show ?thesis using Cons calls [of "tcc_tool_calls t"] by (simp add: ToolCallChunk)
    qed (use Cons in auto)
  qed simp
  ultimately show ?thesis by (simp add: generate_claude_stream_def collect_claude_response_def)
qed


section \<open>Small answers\<close>

definition demo_said :: "bool \<Rightarrow> string \<Rightarrow> finish_reason option \<Rightarrow> chunk" where
  "demo_said th x f = TokenChunk \<lparr>tk_model = ''m'', tk_text = x, tk_token_id = 1, tk_usage = None, tk_finish_reason = f, tk_stats = None,
     tk_logprob = None, tk_top_logprobs = None, tk_is_thinking = th\<rparr>"

definition demo_call :: tool_call_chunk where
  "demo_call = \<lparr>tcc_model = ''m'', tcc_tool_calls = [\<lparr>tc_id = ''1'', tc_name = ''f'', tc_arguments = ''{}''\<rparr>], tcc_usage = None, tcc_stats = None\<rparr>"

theorem chat_stream_equals_collected_witness:
  "collect_chat_response ''c'' 7 (map snd [(5::int, demo_said True ''hm'' None), (6, demo_said False ''ok'' (Some FinishStop))]) =
   reassemble ''c'' 7 (generate_chat_stream ''c'' None [(5::int, demo_said True ''hm'' None), (6, demo_said False ''ok'' (Some FinishStop))])"
  by (rule chat_stream_equals_collected) (simp add: finishes_once_def demo_said_def)

theorem claude_stream_follows_protocol_witness:
  "\<exists>k r. collect_claude_response (\<lambda>_. Inr JNull) ''c'' ''m'' ([demo_said True ''hm'' None, demo_said False ''ok'' None] @ [ToolCallChunk demo_call]) = Inr r \<and>
     client_run new_client (generate_claude_stream ''c'' ''m'' ([demo_said True ''hm'' None, demo_said False ''ok'' None] @ [ToolCallChunk demo_call])) = Some k \<and>
     ci_open k = [] \<and> ci_stop k = Some ToolUse \<and>
     filter has_content (map (client_content (\<lambda>_. Inr JNull)) (ci_blocks k)) = filter has_content (cl_content r)"
proof -
  let ?ms = "[demo_said True ''hm'' None, demo_said False ''ok'' None]"
  obtain r where r: "collect_claude_response (\<lambda>_. Inr JNull) ''c'' ''m'' (?ms @ [ToolCallChunk demo_call]) = Inr r" "cl_stop_reason r = Some ToolUse"
    by (simp add: collect_claude_response_def demo_said_def demo_call_def Let_def)
  have "thinking_first False ?ms" "list_ex is_token ?ms" by (simp_all add: demo_said_def)
  then show ?thesis using claude_stream_follows_protocol [OF _ _ r(1), of demo_call] r by auto
qed

theorem claude_tool_only_reuses_index_witness:
  "client_run new_client (generate_claude_stream ''c'' ''m'' ([PrefillProgressChunk ''m'' 1 1] @ [ToolCallChunk demo_call])) = None"
  by (rule claude_tool_only_reuses_index) (simp_all add: demo_call_def)

theorem claude_thinking_after_text_rejected_witness:
  "client_run new_client (generate_claude_stream ''c'' ''m'' ([demo_said False ''ok'' None] @
     TokenChunk \<lparr>tk_model = ''m'', tk_text = ''hm'', tk_token_id = 1, tk_usage = None, tk_finish_reason = None, tk_stats = None,
       tk_logprob = None, tk_top_logprobs = None, tk_is_thinking = True\<rparr> # [demo_said False ''end'' (Some FinishStop)])) = None"
  by (rule claude_thinking_after_text_rejected) (simp_all add: demo_said_def)

theorem claude_stream_hides_errors_witness:
  "generate_claude_stream ''c'' ''m'' ([demo_said False ''ok'' None] @ ErrorChunk ''m'' ''out of memory'' [] # []) =
     generate_claude_stream ''c'' ''m'' [demo_said False ''ok'' None] \<and>
   collect_claude_response (\<lambda>_. Inr JNull) ''c'' ''m'' ([demo_said False ''ok'' None] @ ErrorChunk ''m'' ''out of memory'' [] # []) =
     Inl (ValueError (error_message_of ''out of memory''))"
  by (rule claude_stream_hides_errors) (simp_all add: demo_said_def)

end
