(* ===== verification/Prefill_Protocol.thy ===== *)
theory Prefill_Protocol
  imports Event_Log
begin

text \<open>
  The protocol of a remote prefill: framing and messages (\<^verbatim>\<open>src/exo/worker/disaggregated/protocol.py\<close>), the
  server's request handling (\<^verbatim>\<open>src/exo/worker/disaggregated/server.py\<close>) and the client's loop
  (\<^verbatim>\<open>remote_prefill_fetch\<close> in \<^verbatim>\<open>src/exo/worker/engines/mlx/disaggregated/client.py\<close>).

  A stream being read is the list of the pieces in which its bytes arrive; a read returns at least one byte
  unless the other side has closed, and at most what was asked for. The msgpack codecs of the
  \<^verbatim>\<open>msgspec\<close> package are arguments, with \<open>codec\<close> as what is relied on. Callbacks of the client and the arrays
  it builds from the received bytes are not modelled.
\<close>

section \<open>Frames\<close>

fun sread :: "nat \<Rightarrow> byte list list \<Rightarrow> byte list \<times> byte list list" where
  "sread k [] = ([], [])"
| "sread k (c # cs) = (if c = [] then sread k cs else (take k c, drop k c # cs))"

function read_exactly :: "nat \<Rightarrow> byte list \<Rightarrow> byte list list \<Rightarrow> (byte list \<times> byte list list) result" where
  "read_exactly n buf segs =
     (if length buf < n
      then let (chunk, rest) = sread (n - length buf) segs in
           if chunk = [] then if buf = [] then Inr ([], rest) else Inl (OtherError ''ConnectionError'')
           else read_exactly n (buf @ chunk) rest
      else Inr (buf, segs))"
  by pat_completeness auto

termination by (relation "measure (\<lambda>(n, buf, _). n - length buf)") (auto simp: diff_less_mono2)

declare read_exactly.simps [simp del]

definition write_frame :: "byte list \<Rightarrow> byte list \<Rightarrow> byte list result" where
  "write_frame out payload = rbind (to_bytes4 (length payload)) (\<lambda>h. Inr (out @ h @ payload))"

definition read_frame :: "byte list list \<Rightarrow> (byte list \<times> byte list list) result" where
  "read_frame segs =
     rbind (read_exactly 4 [] segs) (\<lambda>(raw, rest). if raw = [] then Inr ([], rest) else read_exactly (unpack_header raw) [] rest)"

section \<open>Messages\<close>

record prefill_header =
  ph_request_id :: string
  ph_model_id :: string
  ph_num_layers :: int
  ph_dtype :: string
  ph_start_pos :: int

record tensor_blob =
  tb_dtype :: string
  tb_shape :: "int list"
  tb_data :: "byte list"

record kv_chunk =
  kv_layer_idx :: int
  kv_num_tokens :: int
  kv_n_heads :: int
  kv_head_dim :: int
  kv_dtype :: string
  kv_keys :: "byte list"
  kv_values :: "byte list"

datatype prefill_message =
    KVChunk kv_chunk
  | ArraysState int "tensor_blob list"
  | PrefillDone int
  | PrefillError int string

definition write_item :: "('m \<Rightarrow> byte list) \<Rightarrow> byte list \<Rightarrow> 'm \<Rightarrow> byte list result" where
  "write_item enc out m = write_frame out (enc m)"

definition protocol_error :: "'m result \<Rightarrow> 'm result" where
  "protocol_error r = (case r of Inl _ \<Rightarrow> Inl (OtherError ''ProtocolError'') | Inr m \<Rightarrow> Inr m)"

definition read_header :: "(byte list \<Rightarrow> prefill_header result) \<Rightarrow> byte list list \<Rightarrow> (prefill_header \<times> byte list list) result" where
  "read_header dec segs =
     rbind (read_frame segs) (\<lambda>(payload, rest).
       if payload = [] then Inl (OtherError ''ConnectionError'')
       else rbind (protocol_error (dec payload)) (\<lambda>h. Inr (h, rest)))"

definition read_message :: "(byte list \<Rightarrow> prefill_message result) \<Rightarrow> byte list list \<Rightarrow> (prefill_message option \<times> byte list list) result" where
  "read_message dec segs =
     rbind (read_frame segs) (\<lambda>(payload, rest).
       if payload = [] then Inr (None, rest)
       else rbind (protocol_error (dec payload)) (\<lambda>m. Inr (Some m, rest)))"

section \<open>Lemmas on reading\<close>

lemma sread_concat: "sread k segs = (chunk, rest) \<Longrightarrow> concat segs = chunk @ concat rest"
  by (induction k segs rule: sread.induct) (auto split: if_splits simp: append_take_drop_id [symmetric] simp del: append_take_drop_id)

lemma sread_length: "sread k segs = (chunk, rest) \<Longrightarrow> length chunk \<le> k"
  by (induction k segs rule: sread.induct) (auto split: if_splits)

lemma sread_empty: "0 < k \<Longrightarrow> sread k segs = ([], rest) \<Longrightarrow> concat segs = []"
  by (induction k segs rule: sread.induct) (auto split: if_splits)

lemma read_exactly_spec:
  assumes "length buf \<le> n"
  shows "let data = buf @ concat segs in
    if n \<le> length data then \<exists>rest. read_exactly n buf segs = Inr (take n data, rest) \<and> concat rest = drop n data
    else if data = [] then \<exists>rest. read_exactly n buf segs = Inr ([], rest) \<and> concat rest = []
    else read_exactly n buf segs = Inl (OtherError ''ConnectionError'')"
  using assms
proof (induction n buf segs rule: read_exactly.induct)
  case (1 n buf segs)
  show ?case
  proof (cases "length buf < n")
    case True
    obtain chunk rest where r: "sread (n - length buf) segs = (chunk, rest)" by fastforce
    note d = sread_concat [OF r] sread_length [OF r]
    show ?thesis
    proof (cases "chunk = []")
      case empty: True
      then have none: "concat segs = []" "concat rest = []"
        using sread_empty [of "n - length buf" segs rest] r True d by (simp_all del: concat_eq_Nil_conv)
      have "read_exactly n buf segs = (if buf = [] then Inr ([], rest) else Inl (OtherError ''ConnectionError''))"
        using True r empty by (simp add: read_exactly.simps [of n])
      with none True show ?thesis by (auto simp: Let_def simp del: concat_eq_Nil_conv)
    next
      case False
      then have eq: "read_exactly n buf segs = read_exactly n (buf @ chunk) rest" using True r by (simp add: read_exactly.simps [of n buf])
      have "length (buf @ chunk) \<le> n" using d(2) True by simp
      from "1.IH" [OF True r [symmetric] refl False this] show ?thesis unfolding eq d(1) append_assoc .
    qed
  qed (use "1.prems" in \<open>simp add: read_exactly.simps Let_def\<close>)
qed

lemma read_exactly_all:
  assumes "concat segs = xs @ ys"
  obtains rest where "read_exactly (length xs) [] segs = Inr (xs, rest)" "concat rest = ys"
  using read_exactly_spec [of "[]" "length xs" segs] assms by (auto simp: Let_def)

text \<open>A frame is read whole, however its bytes arrive.\<close>

lemma read_frame_whole:
  assumes "concat segs = header_of (length p) @ p @ ys" "length p < 256 ^ 4"
  obtains rest where "read_frame segs = Inr (p, rest)" "concat rest = ys"
proof -
  obtain r1 where r1: "read_exactly 4 [] segs = Inr (header_of (length p), r1)" "concat r1 = p @ ys"
    using read_exactly_all [OF assms(1)] by auto
  obtain r2 where r2: "read_exactly (length p) [] r1 = Inr (p, r2)" "concat r2 = ys" using read_exactly_all [OF r1(2)] .
  have "header_of (length p) \<noteq> []" by (simp add: header_of_def)
  then have "read_frame segs = Inr (p, r2)" using r1(1) r2(1) assms(2) by (simp add: read_frame_def unpack_header_of)
  from that [OF this r2(2)] show thesis .
qed

lemma write_frame_ok: "write_frame out p = Inr out' \<longleftrightarrow> length p < 256 ^ 4 \<and> out' = out @ header_of (length p) @ p"
  by (auto simp: write_frame_def to_bytes4_def header_of_def)

lemma write_frame_fits: "length p < 256 ^ 4 \<Longrightarrow> write_frame out p = Inr (out @ header_of (length p) @ p)"
  by (simp only: write_frame_ok)

lemma read_frame_end: "concat segs = [] \<Longrightarrow> \<exists>rest. read_frame segs = Inr ([], rest)"
  using read_exactly_spec [of "[]" 4 segs] by (auto simp: read_frame_def Let_def simp del: concat_eq_Nil_conv)


section \<open>The client's loop\<close>

record prefill_result =
  pr_header :: prefill_header
  pr_kv_chunks :: "(int, kv_chunk list) dict"
  pr_arrays :: "(int, tensor_blob list) dict"
  pr_total_tokens :: int

definition add_kv :: "kv_chunk \<Rightarrow> prefill_result \<Rightarrow> prefill_result" where
  "add_kv c r = r\<lparr>pr_kv_chunks := dict_set (pr_kv_chunks r) (kv_layer_idx c) (dict_get_default (pr_kv_chunks r) (kv_layer_idx c) [] @ [c])\<rparr>"

lemma read_frame_consumes:
  assumes "read_frame segs = Inr (p, rest)" "p \<noteq> []"
  shows "length (concat rest) < length (concat segs)"
proof -
  obtain raw r1 where r1: "read_exactly 4 [] segs = Inr (raw, r1)" "raw \<noteq> []" "read_exactly (unpack_header raw) [] r1 = Inr (p, rest)"
    using assms by (auto simp: read_frame_def split: if_splits)
  have "4 \<le> length (concat segs)" "concat r1 = drop 4 (concat segs)"
    using read_exactly_spec [of "[]" 4 segs] r1(1,2) by (auto simp: Let_def simp del: concat_eq_Nil_conv split: if_splits)
  moreover have "length (concat rest) \<le> length (concat r1)"
    using read_exactly_spec [of "[]" "unpack_header raw" r1] r1(3) by (auto simp: Let_def simp del: concat_eq_Nil_conv split: if_splits)
  ultimately show ?thesis by simp
qed

lemma read_message_consumes: "read_message dec segs = Inr (Some m, rest) \<Longrightarrow> length (concat rest) < length (concat segs)"
  using read_frame_consumes by (auto simp: read_message_def split: if_splits)

function prefill_loop :: "(byte list \<Rightarrow> prefill_message result) \<Rightarrow> prefill_result \<Rightarrow> byte list list \<Rightarrow> prefill_result result" where
  "prefill_loop dec r segs =
     (case read_message dec segs of
        Inl e \<Rightarrow> Inl e
      | Inr (None, _) \<Rightarrow> Inr r
      | Inr (Some m, rest) \<Rightarrow>
          (case m of
             KVChunk c \<Rightarrow> prefill_loop dec (add_kv c r) rest
           | ArraysState i bs \<Rightarrow> prefill_loop dec (r\<lparr>pr_arrays := dict_set (pr_arrays r) i bs\<rparr>) rest
           | PrefillDone n \<Rightarrow> Inr (r\<lparr>pr_total_tokens := n\<rparr>)
           | PrefillError code _ \<Rightarrow> Inl (RuntimeError ''Prefill server error'')))"
  by pat_completeness auto

termination
  by (relation "measure (\<lambda>(_, _, segs). length (concat segs))") (auto dest: read_message_consumes)

declare prefill_loop.simps [simp del]

definition remote_prefill_fetch ::
  "(byte list \<Rightarrow> prefill_header result) \<Rightarrow> (byte list \<Rightarrow> prefill_message result) \<Rightarrow> byte list list \<Rightarrow> prefill_result result" where
  "remote_prefill_fetch dec_header dec segs =
     rbind (read_header dec_header segs) (\<lambda>(h, rest).
       prefill_loop dec \<lparr>pr_header = h, pr_kv_chunks = [], pr_arrays = [], pr_total_tokens = 0\<rparr> rest)"

section \<open>What the server writes\<close>

text \<open>The bytes of a header and messages, one frame each (\<open>write_header\<close>, \<open>write_message\<close>).\<close>

definition write_answer ::
  "(prefill_header \<Rightarrow> byte list) \<Rightarrow> (prefill_message \<Rightarrow> byte list) \<Rightarrow> prefill_header \<Rightarrow> prefill_message list \<Rightarrow> byte list result" where
  "write_answer enc_header enc h ms = rbind (write_item enc_header [] h) (\<lambda>out. rfold (write_item enc) out ms)"

text \<open>What the client should have gathered from the messages.\<close>

fun gather :: "prefill_result \<Rightarrow> prefill_message list \<Rightarrow> prefill_result" where
  "gather r [] = r"
| "gather r (KVChunk c # ms) = gather (add_kv c r) ms"
| "gather r (ArraysState i bs # ms) = gather (r\<lparr>pr_arrays := dict_set (pr_arrays r) i bs\<rparr>) ms"
| "gather r (_ # ms) = gather r ms"

text \<open>Of a layer the client has its chunks, all of them, in the order they were sent.\<close>

fun layer_chunks :: "int \<Rightarrow> prefill_message list \<Rightarrow> kv_chunk list" where
  "layer_chunks l [] = []"
| "layer_chunks l (KVChunk c # ms) = (if kv_layer_idx c = l then c # layer_chunks l ms else layer_chunks l ms)"
| "layer_chunks l (_ # ms) = layer_chunks l ms"

lemma gather_layer:
  "dict_get_default (pr_kv_chunks (gather r ms)) l [] = dict_get_default (pr_kv_chunks r) l [] @ layer_chunks l ms"
  by (induction r ms rule: gather.induct) (auto simp: add_kv_def dict_get_default_def)

fun is_data :: "prefill_message \<Rightarrow> bool" where
  "is_data (KVChunk _) = True"
| "is_data (ArraysState _ _) = True"
| "is_data _ = False"

lemma write_items_ok:
  "rfold (write_item enc) out ms = Inr bytes \<longleftrightarrow>
     (\<forall>m \<in> set ms. length (enc m) < 256 ^ 4) \<and> bytes = out @ file_of enc ms"
  by (induction ms arbitrary: out) (auto simp: write_item_def write_frame_ok file_of_def record_of_def)

lemma write_answer_ok:
  "write_answer enc_header enc h ms = Inr bytes \<longleftrightarrow> length (enc_header h) < 256 ^ 4 \<and> (\<forall>m \<in> set ms. length (enc m) < 256 ^ 4) \<and>
     bytes = record_of enc_header h @ file_of enc ms"
  by (auto simp: write_answer_def write_items_ok) (auto simp: write_item_def write_frame_ok record_of_def)

text \<open>A codec whose encodings are never empty.\<close>

definition frame_codec :: "('m \<Rightarrow> bool) \<Rightarrow> ('m \<Rightarrow> byte list) \<Rightarrow> (byte list \<Rightarrow> 'm result) \<Rightarrow> bool" where
  "frame_codec ok enc dec \<longleftrightarrow> codec ok enc dec \<and> (\<forall>m. ok m \<longrightarrow> enc m \<noteq> [])"

lemma read_message_written:
  assumes "frame_codec ok enc dec" "ok m" "length (enc m) < 256 ^ 4" "concat segs = record_of enc m @ ys"
  obtains rest where "read_message dec segs = Inr (Some m, rest)" "concat rest = ys"
proof -
  obtain rest where r: "read_frame segs = Inr (enc m, rest)" "concat rest = ys"
    using read_frame_whole [of segs "enc m" ys] assms(3,4) by (auto simp: record_of_def)
  have "read_message dec segs = Inr (Some m, rest)"
    using r(1) assms(1,2) by (simp add: read_message_def protocol_error_def frame_codec_def codec_def)
  from that [OF this r(2)] show thesis .
qed

text \<open>The loop over a sequence of data messages, up to whatever follows them.\<close>

lemma prefill_loop_data:
  assumes "frame_codec ok enc dec" "list_all is_data ms" "list_all ok ms" "\<forall>m \<in> set ms. length (enc m) < 256 ^ 4"
    "concat segs = file_of enc ms @ ys"
  obtains rest where "prefill_loop dec r segs = prefill_loop dec (gather r ms) rest" "concat rest = ys"
  using assms
proof (induction ms arbitrary: segs r thesis)
  case Nil
  then show ?case by (auto simp: file_of_def)
next
  case (Cons m ms)
  have "concat segs = record_of enc m @ file_of enc ms @ ys" using Cons.prems(6) by (simp add: file_of_def)
  then obtain r1 where r1: "read_message dec segs = Inr (Some m, r1)" "concat r1 = file_of enc ms @ ys"
    using read_message_written [OF Cons.prems(2)] Cons.prems(4,5) by (metis list.set_intros(1) list.pred_inject(2))
  define r' where "r' = gather r [m]"
  have step: "prefill_loop dec r segs = prefill_loop dec r' r1" "gather r (m # ms) = gather r' ms"
    using Cons.prems(3) r1(1) by (cases m; simp add: r'_def prefill_loop.simps [of dec r])+
  show ?case
    by (rule Cons.IH [where r = r' and segs = r1]) (use Cons.prems r1(2) step in auto)
qed


text \<open>
  C28: a remote prefill gives the client what the server wrote. Whatever pieces the bytes arrive in, after a header, data
  messages and the final message the client returns the header, every layer's chunks in order, the last arrays of every
  layer and the token count.
\<close>

theorem remote_prefill_roundtrip:
  assumes "frame_codec ok_header enc_header dec_header" "frame_codec ok enc dec" "ok_header h" "list_all ok (ms @ [PrefillDone n])"
    and "list_all is_data ms" "write_answer enc_header enc h (ms @ [PrefillDone n]) = Inr bytes" "concat segs = bytes"
  shows "remote_prefill_fetch dec_header dec segs =
    Inr ((gather \<lparr>pr_header = h, pr_kv_chunks = [], pr_arrays = [], pr_total_tokens = 0\<rparr> ms)\<lparr>pr_total_tokens := n\<rparr>)"
proof -
  let ?r = "\<lparr>pr_header = h, pr_kv_chunks = [], pr_arrays = [], pr_total_tokens = 0\<rparr>"
  have w: "length (enc_header h) < 256 ^ 4" "\<forall>m \<in> set ms. length (enc m) < 256 ^ 4" "length (enc (PrefillDone n)) < 256 ^ 4"
    "concat segs = header_of (length (enc_header h)) @ enc_header h @ file_of enc ms @ record_of enc (PrefillDone n) @ []"
    using assms(6,7) by (auto simp: write_answer_ok record_of_def file_of_def)
  obtain r1 where r1: "read_frame segs = Inr (enc_header h, r1)" "concat r1 = file_of enc ms @ record_of enc (PrefillDone n) @ []"
    using read_frame_whole [OF w(4,1)] .
  obtain r2 where r2: "prefill_loop dec ?r r1 = prefill_loop dec (gather ?r ms) r2" "concat r2 = record_of enc (PrefillDone n) @ []"
    using prefill_loop_data [OF assms(2,5) _ w(2) r1(2)] assms(4) by auto
  obtain r3 where "read_message dec r2 = Inr (Some (PrefillDone n), r3)"
    using read_message_written [OF assms(2) _ w(3) r2(2)] assms(4) by auto
  then have "prefill_loop dec (gather ?r ms) r2 = Inr ((gather ?r ms)\<lparr>pr_total_tokens := n\<rparr>)"
    by (simp add: prefill_loop.simps [of dec "gather ?r ms"])
  moreover have "dec_header (enc_header h) = Inr h" "enc_header h \<noteq> []" using assms(1,3) by (auto simp: frame_codec_def codec_def)
  ultimately show ?thesis using r1(1) r2(1) by (simp add: remote_prefill_fetch_def read_header_def protocol_error_def)
qed

text \<open>
  An answer that breaks off is taken for a complete one. When the connection closes after any number of data messages,
  or after the length of the next frame, the client returns what it has as its result, with a token count of 0, and
  raises nothing.
\<close>

theorem truncated_prefill_accepted:
  assumes "frame_codec ok_header enc_header dec_header" "frame_codec ok enc dec" "ok_header h" "list_all ok (ms @ rest)"
    and "list_all is_data ms" "write_answer enc_header enc h (ms @ m # rest) = Inr bytes"
    and "concat segs = record_of enc_header h @ file_of enc ms @ tail" "tail = [] \<or> tail = header_of (length (enc m))"
  shows "remote_prefill_fetch dec_header dec segs =
    Inr (gather \<lparr>pr_header = h, pr_kv_chunks = [], pr_arrays = [], pr_total_tokens = 0\<rparr> ms)"
proof -
  let ?r = "\<lparr>pr_header = h, pr_kv_chunks = [], pr_arrays = [], pr_total_tokens = 0\<rparr>"
  have w: "length (enc_header h) < 256 ^ 4" "\<forall>m \<in> set ms. length (enc m) < 256 ^ 4" "length (enc m) < 256 ^ 4"
    "concat segs = header_of (length (enc_header h)) @ enc_header h @ file_of enc ms @ tail"
    using assms(6,7) by (auto simp: write_answer_ok record_of_def)
  obtain r1 where r1: "read_frame segs = Inr (enc_header h, r1)" "concat r1 = file_of enc ms @ tail"
    using read_frame_whole [OF w(4,1)] .
  obtain r2 where r2: "prefill_loop dec ?r r1 = prefill_loop dec (gather ?r ms) r2" "concat r2 = tail"
    using prefill_loop_data [OF assms(2,5) _ w(2) r1(2)] assms(4) by auto
  have "\<exists>r3. read_frame r2 = Inr ([], r3)"
  proof (cases "tail = []")
    case True
    with r2(2) show ?thesis by (simp only: read_frame_end)
  next
    case False
    then have t: "concat r2 = header_of (length (enc m)) @ []" using assms(8) r2(2) by simp
    obtain r3 where r3: "read_exactly 4 [] r2 = Inr (header_of (length (enc m)), r3)" "concat r3 = []"
      using read_exactly_all [OF t] by auto
    obtain r4 where "read_exactly (length (enc m)) [] r3 = Inr ([], r4)"
      using read_exactly_spec [of "[]" "length (enc m)" r3] r3(2) by (cases "enc m") (auto simp: Let_def simp del: concat_eq_Nil_conv)
    moreover have "header_of (length (enc m)) \<noteq> []" by (simp add: header_of_def)
    ultimately show ?thesis using r3(1) w(3) by (auto simp: read_frame_def unpack_header_of)
  qed
  then have "prefill_loop dec (gather ?r ms) r2 = Inr (gather ?r ms)"
    by (auto simp: prefill_loop.simps [of dec "gather ?r ms"] read_message_def)
  moreover have "dec_header (enc_header h) = Inr h" "enc_header h \<noteq> []" using assms(1,3) by (auto simp: frame_codec_def codec_def)
  ultimately show ?thesis using r1(1) r2(1) by (simp add: remote_prefill_fetch_def read_header_def protocol_error_def)
qed


section \<open>The server's request handler\<close>

record prefill_request =
  pq_request_id :: string
  pq_model_id :: string
  pq_token_ids :: "int list"
  pq_start_pos :: int

definition read_request :: "(byte list \<Rightarrow> prefill_request result) \<Rightarrow> byte list list \<Rightarrow> prefill_request result" where
  "read_request dec segs =
     rbind (read_frame segs) (\<lambda>(payload, _). if payload = [] then Inl (OtherError ''ConnectionError'') else dec payload)"

definition error_header :: prefill_header where
  "error_header = \<lparr>ph_request_id = [], ph_model_id = [], ph_num_layers = 0, ph_dtype = ''float32'', ph_start_pos = 0\<rparr>"

text \<open>\<^verbatim>\<open>_send_error\<close>: what cannot be written is given up.\<close>

definition send_error ::
  "(prefill_header \<Rightarrow> byte list) \<Rightarrow> (prefill_message \<Rightarrow> byte list) \<Rightarrow> int \<Rightarrow> string \<Rightarrow> byte list \<Rightarrow> byte list" where
  "send_error enc_header enc code msg out =
     (case write_item enc_header out error_header of
        Inl _ \<Rightarrow> out
      | Inr out1 \<Rightarrow> (case write_item enc out1 (PrefillError code msg) of Inl _ \<Rightarrow> out1 | Inr out2 \<Rightarrow> out2))"

text \<open>
  \<^verbatim>\<open>handle\<close>: what is written for a request. \<open>resolve\<close> is the server's handler: what it has written and whether it picked the
  request up, or its exception; \<open>text_of\<close> is the text of the message that goes with a code.
\<close>

definition handle_request ::
  "(byte list \<Rightarrow> prefill_request result) \<Rightarrow> (prefill_header \<Rightarrow> byte list) \<Rightarrow> (prefill_message \<Rightarrow> byte list) \<Rightarrow> (int \<Rightarrow> string) \<Rightarrow>
   (prefill_request \<Rightarrow> byte list \<times> bool result) \<Rightarrow> byte list list \<Rightarrow> byte list" where
  "handle_request dec enc_header enc text_of resolve segs =
     (case read_request dec segs of
        Inl e \<Rightarrow> if e = OtherError ''ConnectionError'' then [] else send_error enc_header enc 400 (text_of 400) []
      | Inr job \<Rightarrow>
          (case resolve job of
             (out, Inl _) \<Rightarrow> send_error enc_header enc 500 (text_of 500) out
           | (out, Inr picked_up) \<Rightarrow> if picked_up then out else send_error enc_header enc 503 (text_of 503) out))"

text \<open>
  A request the server cannot serve is reported to its client. When the request cannot be decoded, is not picked
  up, or its handler fails before it has written anything, the client raises the server's error instead of returning a result.
\<close>

theorem prefill_failure_reported:
  assumes "frame_codec ok_header enc_header dec_header" "frame_codec ok enc dec" "ok_header error_header"
    and "\<forall>c \<in> {400, 500, 503}. ok (PrefillError c (text_of c)) \<and> length (enc (PrefillError c (text_of c))) < 256 ^ 4"
    and "length (enc_header error_header) < 256 ^ 4"
    and "read_frame segs = Inr (payload, rest)" "payload \<noteq> []"
    and "\<forall>job. dec_request payload = Inr job \<longrightarrow> fst (resolve job) = [] \<and> snd (resolve job) \<noteq> Inr True"
    and "dec_request payload \<noteq> Inl (OtherError ''ConnectionError'')"
    and "concat answer = handle_request dec_request enc_header enc text_of resolve segs"
  shows "remote_prefill_fetch dec_header dec answer = Inl (RuntimeError ''Prefill server error'')"
proof -
  have req: "read_request dec_request segs = dec_request payload" using assms(6,7) by (simp add: read_request_def)
  have "\<exists>code \<in> {400, 500, 503}. handle_request dec_request enc_header enc text_of resolve segs = send_error enc_header enc code (text_of code) []"
  proof (cases "dec_request payload")
    case (Inl e)
    then show ?thesis using assms(9) by (auto simp: handle_request_def req)
  next
    case (Inr job)
    obtain out x where x: "resolve job = (out, x)" by fastforce
    then have "out = []" "x \<noteq> Inr True" using assms(8) Inr by fastforce+
    then show ?thesis by (cases x) (auto simp: handle_request_def req Inr x)
  qed
  then obtain code where code: "code \<in> {400, 500, 503}"
    "handle_request dec_request enc_header enc text_of resolve segs = send_error enc_header enc code (text_of code) []" by blast
  then have ok: "ok (PrefillError code (text_of code))" "length (enc (PrefillError code (text_of code))) < 256 ^ 4" using assms(4) by blast+
  have "send_error enc_header enc code (text_of code) [] = record_of enc_header error_header @ record_of enc (PrefillError code (text_of code)) @ []"
    by (simp add: send_error_def write_item_def record_of_def write_frame_fits [OF assms(5)] write_frame_fits [OF ok(2)])
  then have bytes: "concat answer = header_of (length (enc_header error_header)) @ enc_header error_header @
      record_of enc (PrefillError code (text_of code)) @ []" using assms(10) code(2) by (simp add: record_of_def)
  obtain r1 where r1: "read_frame answer = Inr (enc_header error_header, r1)" "concat r1 = record_of enc (PrefillError code (text_of code)) @ []"
    using read_frame_whole [OF bytes assms(5)] .
  obtain r2 where "read_message dec r1 = Inr (Some (PrefillError code (text_of code)), r2)"
    using read_message_written [OF assms(2) ok r1(2)] .
  then have "prefill_loop dec r r1 = Inl (RuntimeError ''Prefill server error'')" for r
    by (simp add: prefill_loop.simps [of dec r])
  moreover have "dec_header (enc_header error_header) = Inr error_header" "enc_header error_header \<noteq> []"
    using assms(1,3) by (auto simp: frame_codec_def codec_def)
  ultimately show ?thesis using r1(1) by (simp add: remote_prefill_fetch_def read_header_def protocol_error_def)
qed

section \<open>A small exchange\<close>

definition demo_header :: prefill_header where
  "demo_header = \<lparr>ph_request_id = ''r'', ph_model_id = ''m'', ph_num_layers = 1, ph_dtype = ''float32'', ph_start_pos = 0\<rparr>"

definition demo_kv :: prefill_message where
  "demo_kv = KVChunk \<lparr>kv_layer_idx = 0, kv_num_tokens = 1, kv_n_heads = 1, kv_head_dim = 1, kv_dtype = ''float32'', kv_keys = [7], kv_values = [8]\<rparr>"

text \<open>Codecs for the messages of the exchange.\<close>

definition demo_dec_header :: "byte list \<Rightarrow> prefill_header result" where
  "demo_dec_header bs = (if bs = [1] then Inr demo_header else if bs = [2] then Inr error_header else Inl (OtherError ''DecodeError''))"

definition demo_enc_header :: "prefill_header \<Rightarrow> byte list" where
  "demo_enc_header h = (if h = demo_header then [1] else [2])"

fun demo_enc_message :: "prefill_message \<Rightarrow> byte list" where
  "demo_enc_message (PrefillDone _) = [3]"
| "demo_enc_message (PrefillError _ _) = [4]"
| "demo_enc_message _ = [5, 6]"

definition demo_dec_message :: "byte list \<Rightarrow> prefill_message result" where
  "demo_dec_message bs = (if bs = [3] then Inr (PrefillDone 1) else if bs = [5, 6] then Inr demo_kv else Inl (OtherError ''DecodeError''))"

lemma demo_frame_codecs:
  "frame_codec (\<lambda>h. h = demo_header) demo_enc_header demo_dec_header"
  "frame_codec (\<lambda>m. m = demo_kv \<or> m = PrefillDone 1) demo_enc_message demo_dec_message"
  by (auto simp: frame_codec_def codec_def demo_enc_header_def demo_dec_header_def demo_dec_message_def demo_kv_def)

lemma demo_written:
  "write_answer demo_enc_header demo_enc_message demo_header [demo_kv, PrefillDone 1] =
     Inr (record_of demo_enc_header demo_header @ file_of demo_enc_message [demo_kv, PrefillDone 1])"
  by (subst write_answer_ok) (simp add: demo_enc_header_def demo_kv_def)

theorem remote_prefill_roundtrip_witness:
  "remote_prefill_fetch demo_dec_header demo_dec_message
     [[0], [0, 0], [1, 1, 0, 0], [0, 2, 5], [6, 0, 0, 0, 1], [3]] =
   Inr \<lparr>pr_header = demo_header, pr_kv_chunks = [(0, [case demo_kv of KVChunk c \<Rightarrow> c])], pr_arrays = [], pr_total_tokens = 1\<rparr>"
proof -
  have bytes: "concat [[0], [0, 0], [1, 1, 0, 0], [0, 2, 5], [6, 0, 0, 0, 1], [3]] =
      record_of demo_enc_header demo_header @ file_of demo_enc_message [demo_kv, PrefillDone 1]"
    by (simp add: record_of_def file_of_def header_of_def demo_enc_header_def demo_kv_def)
  have w: "write_answer demo_enc_header demo_enc_message demo_header ([demo_kv] @ [PrefillDone 1]) =
      Inr (record_of demo_enc_header demo_header @ file_of demo_enc_message [demo_kv, PrefillDone 1])" using demo_written by simp
  show ?thesis
    using remote_prefill_roundtrip [OF demo_frame_codecs refl _ _ w bytes]
    by (simp add: demo_kv_def add_kv_def dict_get_default_def)
qed

theorem truncated_prefill_accepted_witness:
  "remote_prefill_fetch demo_dec_header demo_dec_message [[0, 0, 0, 1, 1, 0, 0], [0, 2, 5, 6, 0, 0, 0, 1]] =
   Inr \<lparr>pr_header = demo_header, pr_kv_chunks = [(0, [case demo_kv of KVChunk c \<Rightarrow> c])], pr_arrays = [], pr_total_tokens = 0\<rparr>"
proof -
  have bytes: "concat [[0, 0, 0, 1, 1, 0, 0], [0, 2, 5, 6, 0, 0, 0, 1]] =
      record_of demo_enc_header demo_header @ file_of demo_enc_message [demo_kv] @ header_of (length (demo_enc_message (PrefillDone 1)))"
    by (simp add: record_of_def file_of_def header_of_def demo_enc_header_def demo_kv_def)
  have w: "write_answer demo_enc_header demo_enc_message demo_header ([demo_kv] @ PrefillDone 1 # []) =
      Inr (record_of demo_enc_header demo_header @ file_of demo_enc_message [demo_kv, PrefillDone 1])" using demo_written by simp
  show ?thesis
    using truncated_prefill_accepted [OF demo_frame_codecs refl _ _ w bytes]
    by (simp add: demo_kv_def add_kv_def dict_get_default_def)
qed

definition demo_dec_error :: "byte list \<Rightarrow> prefill_message result" where
  "demo_dec_error bs = (if bs = [4] then Inr (PrefillError 503 []) else if bs = [5] then Inr (PrefillError 400 [])
     else if bs = [6] then Inr (PrefillError 500 []) else Inl (OtherError ''DecodeError''))"

fun demo_enc_error :: "prefill_message \<Rightarrow> byte list" where
  "demo_enc_error (PrefillError c _) = [if c = 503 then 4 else if c = 400 then 5 else 6]"
| "demo_enc_error _ = [7]"

theorem prefill_failure_reported_witness:
  "remote_prefill_fetch demo_dec_header demo_dec_error
     [handle_request (\<lambda>_. Inr \<lparr>pq_request_id = ''r'', pq_model_id = ''m'', pq_token_ids = [1], pq_start_pos = 0\<rparr>)
       demo_enc_header demo_enc_error (\<lambda>_. []) (\<lambda>_. ([], Inr False)) [[0, 0, 0, 1, 9]]] = Inl (RuntimeError ''Prefill server error'')"
proof -
  have codecs: "frame_codec (\<lambda>h. h = error_header) demo_enc_header demo_dec_header"
    "frame_codec (\<lambda>m. m \<in> {PrefillError 400 [], PrefillError 500 [], PrefillError 503 []}) demo_enc_error demo_dec_error"
    by (auto simp: frame_codec_def codec_def demo_enc_header_def demo_dec_header_def demo_dec_error_def demo_header_def error_header_def)
  have c: "concat [[0, 0, 0, 1, 9]] = header_of (length [9 :: byte]) @ [9] @ []" by (simp add: header_of_def)
  obtain rest where r: "read_frame [[0, 0, 0, 1, 9]] = Inr ([9], rest)" using read_frame_whole [OF c] by auto
  show ?thesis
    by (rule prefill_failure_reported [OF codecs refl _ _ r]) (simp_all add: demo_enc_header_def)
qed

end
