(* ===== verification/Task_Agreement.thy ===== *)
theory Task_Agreement
  imports Shared_Types
begin

text \<open>
  How the ranks of a distributed instance agree on the order of their tasks and on cancellations:
  \<^verbatim>\<open>mx_all_gather_tasks\<close> and \<^verbatim>\<open>mx_any\<close> (\<^verbatim>\<open>src/exo/worker/engines/mlx/utils_mlx.py\<close>) and the task handling of the
  generators (\<^verbatim>\<open>src/exo/worker/runner/llm_inference/batch_generator.py\<close>).

  Tasks reach the ranks one by one, in any order, and each rank starts tasks at its own pace; the
  collective operations are steps of the whole group. What \<^verbatim>\<open>mx.distributed\<close> is relied on for is in
  \<open>group_agree_tasks\<close> and \<open>group_agree_cancellations\<close>: \<^verbatim>\<open>all_gather\<close> gives every rank the contributions of all ranks in the
  order of the ranks, \<^verbatim>\<open>all_sum\<close> the sum of the contributions.
\<close>

section \<open>Gathering tasks\<close>

text \<open>UTF-8, for the characters the \<open>char\<close> type has.\<close>

definition utf8_char :: "char \<Rightarrow> nat list" where
  "utf8_char c = (let n = of_char c :: nat in if n < 128 then [n] else [192 + n div 64, 128 + n mod 64])"

definition encode_task_id :: "task_id \<Rightarrow> nat list" where
  "encode_task_id tid = concat (map utf8_char tid)"

fun decode_task_id :: "nat list \<Rightarrow> task_id result" where
  "decode_task_id [] = Inr []"
| "decode_task_id [n] = (if n < 128 then Inr [char_of n] else Inl (ValueError ''UnicodeDecodeError''))"
| "decode_task_id (n # m # ns) =
     (if n < 128 then rbind (decode_task_id (m # ns)) (\<lambda>cs. Inr (char_of n # cs))
      else if 194 \<le> n \<and> n < 196 \<and> 128 \<le> m \<and> m < 192
      then rbind (decode_task_id ns) (\<lambda>cs. Inr (char_of ((n - 192) * 64 + (m - 128)) # cs))
      else Inl (ValueError ''UnicodeDecodeError''))"

definition pad_tasks :: "nat \<Rightarrow> task list \<Rightarrow> nat list list" where
  "pad_tasks max_tasks tasks = map (encode_task_id \<circ> task_id) tasks @ replicate (max_tasks - length tasks) (replicate 36 0)"

definition common_ids :: "task_id list list \<Rightarrow> task_id list" where
  "common_ids tids = (case tids of [] \<Rightarrow> [] | l # ls \<Rightarrow> filter (\<lambda>x. list_all (\<lambda>l'. x \<in> set l') ls) l)"

definition mx_all_gather_tasks :: "nat list \<Rightarrow> nat list list list \<Rightarrow> task list \<Rightarrow> (task list \<times> task list) result" where
  "mx_all_gather_tasks all_counts gathered tasks =
     (let max_tasks = Max (set all_counts) in
      if max_tasks = 0 then Inr ([], [])
      else
        rbind (rassert ''uuid_byte_length'' (list_all (\<lambda>e. length e = 36) (pad_tasks max_tasks tasks))) (\<lambda>_.
        rbind (rassert ''zip strict'' (length gathered = length all_counts)) (\<lambda>_.
        rbind (rmap (\<lambda>(rank_tasks, count). rmap decode_task_id (take count rank_tasks)) (zip gathered all_counts)) (\<lambda>all_task_ids.
        let agreed_ids = common_ids all_task_ids; local_tasks = dict_of (map (\<lambda>t. (task_id t, t)) tasks) in
        rbind (rmap (\<lambda>tid. of_option KeyError (dict_get local_tasks tid)) (sort (remdups agreed_ids))) (\<lambda>agreed.
        Inr (agreed, filter (\<lambda>t. task_id t \<notin> set agreed_ids) tasks))))))"

section \<open>Ranks\<close>

definition cancel_all_tasks :: task_id where
  "cancel_all_tasks = ''CANCEL_ALL_TASKS''"

record rank =
  rk_all_tasks :: "(task_id, task) dict"
  rk_maybe_queue :: "task list"
  rk_queue :: "task list"
  rk_started :: "task list"
  rk_cancel_receiver :: "task_id list"
  rk_maybe_cancel :: "task list"
  rk_cancelled :: "task_id list"

definition new_rank :: rank where
  "new_rank = \<lparr>rk_all_tasks = [], rk_maybe_queue = [], rk_queue = [], rk_started = [], rk_cancel_receiver = [], rk_maybe_cancel = [],
     rk_cancelled = []\<rparr>"

fun is_text_generation :: "task_body \<Rightarrow> bool" where
  "is_text_generation (TextGeneration _ _) = True"
| "is_text_generation _ = False"

definition submit :: "task \<Rightarrow> rank \<Rightarrow> rank result" where
  "submit t rk =
     rbind (rassert ''TextGeneration'' (is_text_generation (task_body t))) (\<lambda>_.
     Inr (rk\<lparr>rk_cancelled := filter (\<lambda>x. x \<noteq> cancel_all_tasks) (rk_cancelled rk),
       rk_all_tasks := dict_set (rk_all_tasks rk) (task_id t) t, rk_maybe_queue := rk_maybe_queue rk @ [t]\<rparr>))"

text \<open>The first half of \<^verbatim>\<open>agree_on_cancellations\<close>: what the rank has received.\<close>

definition collect_cancels :: "rank \<Rightarrow> bool \<times> rank" where
  "collect_cancels rk =
     (cancel_all_tasks \<in> set (rk_cancel_receiver rk),
      rk\<lparr>rk_cancel_receiver := [],
         rk_maybe_cancel := rk_maybe_cancel rk @
           List.map_filter (\<lambda>tid. if tid = cancel_all_tasks then None else dict_get (rk_all_tasks rk) tid) (rk_cancel_receiver rk)\<rparr>)"

text \<open>Whether the rank gives a task up (\<^verbatim>\<open>Engine.should_cancel\<close>): the task is cancelled, or everything is.\<close>

definition should_cancel :: "rank \<Rightarrow> task_id \<Rightarrow> bool" where
  "should_cancel rk tid \<longleftrightarrow> tid \<in> set (rk_cancelled rk) \<or> cancel_all_tasks \<in> set (rk_cancelled rk)"

definition start_next :: "rank \<Rightarrow> rank option" where
  "start_next rk = (case rk_queue rk of [] \<Rightarrow> None | t # ts \<Rightarrow> Some (rk\<lparr>rk_queue := ts, rk_started := rk_started rk @ [t]\<rparr>))"

section \<open>The group\<close>

text \<open>The collective part of both: the ranks' lists are exchanged and each rank works on the result.\<close>

definition all_gather :: "task list list \<Rightarrow> task list \<Rightarrow> (task list \<times> task list) result" where
  "all_gather tss mine =
     (let counts = map length tss in mx_all_gather_tasks counts (map (pad_tasks (Max (set counts))) tss) mine)"

definition group_agree_tasks :: "rank list \<Rightarrow> rank list result" where
  "group_agree_tasks g =
     rmap (\<lambda>rk. rbind (all_gather (map rk_maybe_queue g) (rk_maybe_queue rk)) (\<lambda>(agreed, different).
       Inr (rk\<lparr>rk_queue := rk_queue rk @ agreed, rk_maybe_queue := different\<rparr>))) g"

definition group_agree_cancellations :: "rank list \<Rightarrow> rank list result" where
  "group_agree_cancellations g =
     (let collected = map collect_cancels g; cancel_all = list_ex fst collected; g1 = map snd collected in
      rmap (\<lambda>rk. rbind (all_gather (map rk_maybe_cancel g1) (rk_maybe_cancel rk)) (\<lambda>(agreed, different).
        Inr (rk\<lparr>rk_cancelled := foldl oset_add (if cancel_all then oset_add (rk_cancelled rk) cancel_all_tasks else rk_cancelled rk) (map task_id agreed),
          rk_maybe_cancel := different\<rparr>))) g1)"

datatype group_label =
    GSubmit nat task
  | GCancelMessage nat task_id
  | GAgreeTasks
  | GAgreeCancellations
  | GStart nat

fun group_next :: "group_label \<Rightarrow> rank list \<Rightarrow> rank list result" where
  "group_next (GSubmit r t) g = (if r < length g then rbind (submit t (g ! r)) (\<lambda>rk. Inr (g[r := rk])) else Inr g)"
| "group_next (GCancelMessage r tid) g =
     (if r < length g then Inr (g[r := (g ! r)\<lparr>rk_cancel_receiver := rk_cancel_receiver (g ! r) @ [tid]\<rparr>]) else Inr g)"
| "group_next GAgreeTasks g = group_agree_tasks g"
| "group_next GAgreeCancellations g = group_agree_cancellations g"
| "group_next (GStart r) g =
     (if r < length g then (case start_next (g ! r) of Some rk \<Rightarrow> Inr (g[r := rk]) | None \<Rightarrow> Inr g) else Inr g)"

section \<open>Encoding\<close>

lemma utf8_char_decode: "decode_task_id (utf8_char c @ ns) = rbind (decode_task_id ns) (\<lambda>cs. Inr (c # cs))"
proof -
  define n where "n = (of_char c :: nat)"
  have n: "n < 256" "char_of n = c" by (simp_all add: n_def)
  show ?thesis
  proof (cases "n < 128")
    case True
    then show ?thesis using n by (cases ns) (simp_all add: utf8_char_def n_def [symmetric])
  next
    case False
    define q r where "q = n div 64" and "r = n mod 64"
    have "q < 4" "2 \<le> q" "r < 64" and sum: "q * 64 + r = n" using n(1) False by (auto simp: q_def r_def)
    then show ?thesis using n(2) False by (simp add: utf8_char_def n_def [symmetric] q_def [symmetric] r_def [symmetric])
  qed
qed

lemma decode_encode [simp]: "decode_task_id (encode_task_id tid) = Inr tid"
  by (induction tid) (simp_all add: encode_task_id_def utf8_char_decode)


section \<open>What a rank gets\<close>

definition task_ids :: "task list \<Rightarrow> task_id list" where
  "task_ids ts = map task_id ts"

lemma rmap_map: "rmap f (map g xs) = rmap (\<lambda>x. f (g x)) xs"
  by (induction xs) auto

lemma gathered_ids:
  "rmap (\<lambda>(rank_tasks, count). rmap decode_task_id (take count rank_tasks)) (zip (map (pad_tasks m) tss) (map length tss)) = Inr (map task_ids tss)"
proof -
  have "rmap decode_task_id (take (length ts) (pad_tasks m ts)) = Inr (task_ids ts)" for ts
    by (simp add: pad_tasks_def rmap_map rmap_total task_ids_def)
  then show ?thesis by (induction tss) auto
qed

lemma set_common_ids: "tids \<noteq> [] \<Longrightarrow> set (common_ids tids) = (\<Inter>l \<in> set tids. set l)"
  by (cases tids) (auto simp: common_ids_def list_all_iff)

lemma dict_of_tasks:
  "tid \<in> set (task_ids ts) \<Longrightarrow> \<exists>t \<in> set ts. task_id t = tid \<and> dict_get (dict_of (map (\<lambda>t. (task_id t, t)) ts)) tid = Some t"
proof (induction ts rule: rev_induct)
  case (snoc t ts)
  then show ?case by (cases "tid = task_id t") (auto simp: dict_of_def task_ids_def)
qed (simp add: task_ids_def)

text \<open>
  The lists two ranks agree on have the same ids in the same order, whatever else the ranks hold; what is not common
  to all ranks stays where it was.
\<close>

lemma all_gather_spec:
  assumes "all_gather tss ts = Inr (agreed, different)" "ts \<in> set tss"
  shows "task_ids agreed = sort (remdups (common_ids (map task_ids tss)))" "set agreed \<subseteq> set ts"
    "different = filter (\<lambda>t. task_id t \<notin> set (common_ids (map task_ids tss))) ts"
proof -
  let ?m = "Max (set (map length tss))" let ?c = "common_ids (map task_ids tss)"
  have ne: "tss \<noteq> []" using assms(2) by auto
  have sub: "set ?c \<subseteq> set (task_ids ts)" using assms(2) set_common_ids [of "map task_ids tss"] ne by auto
  have "task_ids agreed = sort (remdups ?c) \<and> set agreed \<subseteq> set ts \<and> different = filter (\<lambda>t. task_id t \<notin> set ?c) ts"
  proof (cases "?m = 0")
    case True
    have "length ts \<le> ?m" using assms(2) by (intro Max_ge) auto
    then have "ts = []" using True by simp
    moreover have "agreed = []" "different = []" using assms(1) True by (simp_all add: all_gather_def mx_all_gather_tasks_def)
    ultimately show ?thesis using sub by (simp add: task_ids_def)
  next
    case False
    then have r: "rmap (\<lambda>tid. of_option KeyError (dict_get (dict_of (map (\<lambda>t. (task_id t, t)) ts)) tid)) (sort (remdups ?c)) = Inr agreed"
      and d: "different = filter (\<lambda>t. task_id t \<notin> set ?c) ts"
      using assms(1) by (auto simp: all_gather_def mx_all_gather_tasks_def Let_def gathered_ids simp del: Max_eq_iff)
    have el: "task_id (agreed ! i) = sort (remdups ?c) ! i \<and> agreed ! i \<in> set ts" if i: "i < length (sort (remdups ?c))" for i
    proof -
      have "dict_get (dict_of (map (\<lambda>t. (task_id t, t)) ts)) (sort (remdups ?c) ! i) = Some (agreed ! i)" using rmap_nth [OF r i] by simp
      moreover have "sort (remdups ?c) ! i \<in> set (task_ids ts)" using nth_mem [OF i] sub by auto
      ultimately show ?thesis using dict_of_tasks by fastforce
    qed
    have "length agreed = length (sort (remdups ?c))" using rmap_length [OF r] .
    then have "task_ids agreed = sort (remdups ?c)" "set agreed \<subseteq> set ts"
      using el by (auto simp: task_ids_def in_set_conv_nth intro!: nth_equalityI)
    then show ?thesis using d by simp
  qed
  then show "task_ids agreed = sort (remdups ?c)" "set agreed \<subseteq> set ts" "different = filter (\<lambda>t. task_id t \<notin> set ?c) ts" by auto
qed


section \<open>The same order on every rank\<close>

text \<open>What a rank has enqueued so far.\<close>

definition enqueued :: "rank \<Rightarrow> task_id list" where
  "enqueued rk = task_ids (rk_started rk @ rk_queue rk)"

definition in_agreement :: "rank list \<Rightarrow> bool" where
  "in_agreement g \<longleftrightarrow> (\<forall>rk \<in> set g. \<forall>rk' \<in> set g. enqueued rk = enqueued rk')"

lemma in_agreementD: "in_agreement g \<Longrightarrow> rk \<in> set g \<Longrightarrow> rk' \<in> set g \<Longrightarrow> enqueued rk = enqueued rk'"
  unfolding in_agreement_def by blast

lemma in_agreement_via:
  assumes "in_agreement g" "\<And>x. x \<in> set g' \<Longrightarrow> \<exists>y \<in> set g. enqueued x = enqueued y @ es"
  shows "in_agreement g'"
  unfolding in_agreement_def
proof (intro ballI)
  fix x x' assume "x \<in> set g'" "x' \<in> set g'"
  then obtain y y' where y: "y \<in> set g" "enqueued x = enqueued y @ es" "y' \<in> set g" "enqueued x' = enqueued y' @ es"
    using assms(2) by metis
  then show "enqueued x = enqueued x'" using in_agreementD [OF assms(1) y(1,3)] by simp
qed

lemma in_agreement_update:
  assumes "in_agreement g" "r < length g" "enqueued rk = enqueued (g ! r)"
  shows "in_agreement (g[r := rk])"
proof (rule in_agreement_via [OF assms(1), where es = "[]"])
  fix x assume "x \<in> set (g[r := rk])"
  then have "x = rk \<or> x \<in> set g" using set_update_subset_insert [of g r rk] by blast
  then show "\<exists>y \<in> set g. enqueued x = enqueued y @ []" using assms(3) nth_mem [OF assms(2)] by auto
qed

lemma in_agreement_map:
  assumes "in_agreement g" "rmap f g = Inr g'" and "\<And>rk rk'. rk \<in> set g \<Longrightarrow> f rk = Inr rk' \<Longrightarrow> enqueued rk' = enqueued rk @ es"
  shows "in_agreement g'"
proof (rule in_agreement_via [OF assms(1), where es = es])
  fix rk' assume "rk' \<in> set g'"
  then obtain i where i: "i < length g'" "g' ! i = rk'" by (metis in_set_conv_nth)
  then have "f (g ! i) = Inr rk'" "g ! i \<in> set g" using rmap_nth [OF assms(2)] rmap_length [OF assms(2)] by auto
  with assms(3) show "\<exists>rk \<in> set g. enqueued rk' = enqueued rk @ es" by blast
qed

lemma agree_tasks_keeps:
  assumes "in_agreement g" "group_agree_tasks g = Inr g'"
  shows "in_agreement g'"
proof (rule in_agreement_map [OF assms(1) assms(2) [unfolded group_agree_tasks_def]])
  fix rk rk' assume rk: "rk \<in> set g" and "rbind (all_gather (map rk_maybe_queue g) (rk_maybe_queue rk))
      (\<lambda>(agreed, different). Inr (rk\<lparr>rk_queue := rk_queue rk @ agreed, rk_maybe_queue := different\<rparr>)) = Inr rk'"
  then obtain a d where ad: "all_gather (map rk_maybe_queue g) (rk_maybe_queue rk) = Inr (a, d)"
    "rk' = rk\<lparr>rk_queue := rk_queue rk @ a, rk_maybe_queue := d\<rparr>" by auto
  have "task_ids a = sort (remdups (common_ids (map task_ids (map rk_maybe_queue g))))" using all_gather_spec(1) [OF ad(1)] rk by simp
  then show "enqueued rk' = enqueued rk @ sort (remdups (common_ids (map task_ids (map rk_maybe_queue g))))"
    by (simp add: ad(2) enqueued_def task_ids_def)
qed

lemma set_foldl_oset: "set (foldl oset_add xs ys) = set xs \<union> set ys"
  by (induction ys arbitrary: xs) auto

text \<open>What the agreement on cancellations makes of each rank.\<close>

definition collected :: "rank list \<Rightarrow> rank list" where
  "collected g = map (snd \<circ> collect_cancels) g"

definition common_cancels :: "rank list \<Rightarrow> task_id set" where
  "common_cancels g = set (common_ids (map task_ids (map rk_maybe_cancel (collected g))))"

lemma cancel_all_encoding: "length (encode_task_id cancel_all_tasks) \<noteq> 36"
  by code_simp

lemma all_gather_no_cancel_all:
  assumes "all_gather tss ts = Inr (agreed, different)" "ts \<in> set tss"
  shows "cancel_all_tasks \<notin> set (task_ids ts)"
proof
  assume "cancel_all_tasks \<in> set (task_ids ts)"
  then obtain t where t: "t \<in> set ts" "task_id t = cancel_all_tasks" by (auto simp: task_ids_def)
  let ?m = "Max (set (map length tss))"
  have "length ts \<le> ?m" using assms(2) by (intro Max_ge) auto
  then have "?m \<noteq> 0" using length_pos_if_in_set [OF t(1)] by linarith
  then have "list_all (\<lambda>e. length e = 36) (pad_tasks ?m ts)"
    using assms(1) by (auto simp: all_gather_def mx_all_gather_tasks_def Let_def rassert_def simp del: Max_eq_iff split: if_splits)
  then have "length (encode_task_id (task_id t)) = 36" using t(1) by (auto simp: pad_tasks_def list_all_iff)
  then show False using t(2) cancel_all_encoding by simp
qed

lemma agree_cancellations_rank:
  assumes "group_agree_cancellations g = Inr g'" "r < length g"
  shows "\<exists>cs. g' ! r = (snd (collect_cancels (g ! r)))\<lparr>rk_cancelled := cs,
      rk_maybe_cancel := filter (\<lambda>t. task_id t \<notin> common_cancels g) (rk_maybe_cancel (snd (collect_cancels (g ! r))))\<rparr> \<and>
    set cs = set (rk_cancelled (g ! r)) \<union> common_cancels g \<union> (if \<exists>rk \<in> set g. cancel_all_tasks \<in> set (rk_cancel_receiver rk) then {cancel_all_tasks} else {}) \<and>
    cancel_all_tasks \<notin> common_cancels g"
proof -
  let ?rk = "collected g ! r" let ?ca = "list_ex fst (map collect_cancels g)"
  have rk: "?rk = snd (collect_cancels (g ! r))" "?rk \<in> set (collected g)" "length (collected g) = length g"
    using assms(2) by (auto simp: collected_def)
  have run: "rmap (\<lambda>rk. rbind (all_gather (map rk_maybe_cancel (collected g)) (rk_maybe_cancel rk)) (\<lambda>(agreed, different).
      Inr (rk\<lparr>rk_cancelled := foldl oset_add (if ?ca then oset_add (rk_cancelled rk) cancel_all_tasks else rk_cancelled rk) (map task_id agreed),
        rk_maybe_cancel := different\<rparr>))) (collected g) = Inr g'"
    using assms(1) by (simp add: group_agree_cancellations_def Let_def collected_def o_assoc)
  obtain a d where ad: "all_gather (map rk_maybe_cancel (collected g)) (rk_maybe_cancel ?rk) = Inr (a, d)"
    "g' ! r = ?rk\<lparr>rk_cancelled := foldl oset_add (if ?ca then oset_add (rk_cancelled ?rk) cancel_all_tasks else rk_cancelled ?rk) (map task_id a),
      rk_maybe_cancel := d\<rparr>"
    using rmap_nth [OF run, of r] assms(2) rk(3) by auto
  have mine: "rk_maybe_cancel ?rk \<in> set (map rk_maybe_cancel (collected g))" using rk(2) by simp
  note spec = all_gather_spec [OF ad(1) mine]
  have "set (map task_id a) = common_cancels g" using spec(1) by (metis common_cancels_def set_remdups set_sort task_ids_def)
  moreover have "common_cancels g \<subseteq> set (task_ids (rk_maybe_cancel ?rk))"
    using rk(2) set_common_ids [of "map task_ids (map rk_maybe_cancel (collected g))"] by (fastforce simp: common_cancels_def)
  then have "cancel_all_tasks \<notin> common_cancels g" using all_gather_no_cancel_all [OF ad(1) mine] by blast
  moreover have "?ca \<longleftrightarrow> (\<exists>rk \<in> set g. cancel_all_tasks \<in> set (rk_cancel_receiver rk))"
    by (auto simp: list_ex_iff collect_cancels_def)
  moreover have "rk_cancelled ?rk = rk_cancelled (g ! r)" by (simp add: rk(1) collect_cancels_def)
  moreover have "d = filter (\<lambda>t. task_id t \<notin> common_cancels g) (rk_maybe_cancel ?rk)" using spec(3) by (simp add: common_cancels_def)
  ultimately show ?thesis using ad(2) unfolding rk(1) by (auto simp: set_foldl_oset)
qed

lemma agree_cancellations_length: "group_agree_cancellations g = Inr g' \<Longrightarrow> length g' = length g"
  using rmap_length by (fastforce simp: group_agree_cancellations_def Let_def)

lemma agree_cancellations_keeps:
  assumes "in_agreement g" "group_agree_cancellations g = Inr g'"
  shows "in_agreement g'"
proof (rule in_agreement_via [OF assms(1), where es = "[]"])
  fix x assume "x \<in> set g'"
  then obtain i where i: "i < length g" "g' ! i = x" using agree_cancellations_length [OF assms(2)] by (metis in_set_conv_nth)
  then have "enqueued x = enqueued (g ! i) @ []"
    using agree_cancellations_rank [OF assms(2) i(1)] by (auto simp: enqueued_def collect_cancels_def)
  then show "\<exists>y \<in> set g. enqueued x = enqueued y @ []" using i(1) by auto
qed

lemma group_next_keeps:
  assumes "in_agreement g" "group_next l g = Inr g'"
  shows "in_agreement g'"
proof (cases l)
  case (GSubmit r t)
  then show ?thesis using assms in_agreement_update [OF assms(1), of r]
    by (auto simp: submit_def enqueued_def split: if_splits)
next
  case (GCancelMessage r tid)
  then show ?thesis using assms in_agreement_update [OF assms(1), of r] by (auto simp: enqueued_def split: if_splits)
next
  case (GStart r)
  have "enqueued rk = enqueued (g ! r)" if "start_next (g ! r) = Some rk" for rk
    using that by (auto simp: start_next_def enqueued_def task_ids_def split: list.splits)
  then show ?thesis
    using assms(1,2) in_agreement_update [OF assms(1), of r]
    by (cases "start_next (g ! r)") (auto simp: GStart split: if_splits)
next
  case GAgreeTasks
  then show ?thesis using agree_tasks_keeps [OF assms(1)] assms(2) by simp
next
  case GAgreeCancellations
  then show ?thesis using agree_cancellations_keeps [OF assms(1)] assms(2) by simp
qed

section \<open>The same cancellations on every rank\<close>

text \<open>
  The history of a group, latest step first, says what each rank gives up. A cancellation waits at a rank until the next
  agreement; it is requested by the rank when it arrives there for a task the rank has received. An agreed cancel-all is live on
  a rank until that rank receives another task.
\<close>

fun received :: "nat \<Rightarrow> task_id \<Rightarrow> group_label list \<Rightarrow> bool" where
  "received r tid [] = False"
| "received r tid (GSubmit r' t # h) = (r' = r \<and> task_id t = tid \<or> received r tid h)"
| "received r tid (_ # h) = received r tid h"

fun cancel_waiting :: "nat \<Rightarrow> task_id \<Rightarrow> group_label list \<Rightarrow> bool" where
  "cancel_waiting r tid [] = False"
| "cancel_waiting r tid (GCancelMessage r' tid' # h) = (r' = r \<and> tid' = tid \<or> cancel_waiting r tid h)"
| "cancel_waiting r tid (GAgreeCancellations # h) = False"
| "cancel_waiting r tid (_ # h) = cancel_waiting r tid h"

fun cancel_requested :: "nat \<Rightarrow> task_id \<Rightarrow> group_label list \<Rightarrow> bool" where
  "cancel_requested r tid [] = False"
| "cancel_requested r tid (GAgreeCancellations # h) =
     (tid \<noteq> cancel_all_tasks \<and> cancel_waiting r tid h \<and> received r tid h \<or> cancel_requested r tid h)"
| "cancel_requested r tid (_ # h) = cancel_requested r tid h"

fun cancel_all_live :: "nat \<Rightarrow> nat \<Rightarrow> group_label list \<Rightarrow> bool" where
  "cancel_all_live n r [] = False"
| "cancel_all_live n r (GSubmit r' t # h) = (r' \<noteq> r \<and> cancel_all_live n r h)"
| "cancel_all_live n r (GAgreeCancellations # h) = (list_ex (\<lambda>r'. cancel_waiting r' cancel_all_tasks h) [0..<n] \<or> cancel_all_live n r h)"
| "cancel_all_live n r (_ # h) = cancel_all_live n r h"

definition all_requested :: "nat \<Rightarrow> task_id \<Rightarrow> group_label list \<Rightarrow> bool" where
  "all_requested n tid h \<longleftrightarrow> list_all (\<lambda>r. cancel_requested r tid h) [0..<n]"

lemma requested_not_cancel_all: "cancel_requested r tid h \<Longrightarrow> tid \<noteq> cancel_all_tasks"
  by (induction r tid h rule: cancel_requested.induct) auto

text \<open>What each rank's fields say of the history.\<close>

definition rank_follows :: "nat \<Rightarrow> group_label list \<Rightarrow> nat \<Rightarrow> rank \<Rightarrow> bool" where
  "rank_follows n h r rk \<longleftrightarrow>
     (\<forall>tid. (dict_get (rk_all_tasks rk) tid \<noteq> None \<longleftrightarrow> received r tid h) \<and> (\<forall>t. dict_get (rk_all_tasks rk) tid = Some t \<longrightarrow> task_id t = tid)) \<and>
     (\<forall>tid. tid \<in> set (rk_cancel_receiver rk) \<longleftrightarrow> cancel_waiting r tid h) \<and>
     (cancel_all_tasks \<in> set (rk_cancelled rk) \<longleftrightarrow> cancel_all_live n r h) \<and>
     (\<forall>tid. tid \<noteq> cancel_all_tasks \<longrightarrow> (tid \<in> set (rk_cancelled rk) \<longleftrightarrow> all_requested n tid h)) \<and>
     (\<forall>tid. tid \<in> set (task_ids (rk_maybe_cancel rk)) \<longrightarrow> cancel_requested r tid h) \<and>
     (\<forall>tid. cancel_requested r tid h \<longrightarrow> tid \<in> set (task_ids (rk_maybe_cancel rk)) \<or> all_requested n tid h)"

definition group_follows :: "nat \<Rightarrow> group_label list \<Rightarrow> rank list \<Rightarrow> bool" where
  "group_follows n h g \<longleftrightarrow> length g = n \<and> (\<forall>r < n. rank_follows n h r (g ! r))"

lemma rank_followsD:
  assumes "rank_follows n h r rk"
  shows "dict_get (rk_all_tasks rk) tid \<noteq> None \<longleftrightarrow> received r tid h" "dict_get (rk_all_tasks rk) tid = Some t \<Longrightarrow> task_id t = tid"
    "tid \<in> set (rk_cancel_receiver rk) \<longleftrightarrow> cancel_waiting r tid h"
    "tid \<in> set (task_ids (rk_maybe_cancel rk)) \<Longrightarrow> cancel_requested r tid h"
    "cancel_requested r tid h \<Longrightarrow> tid \<in> set (task_ids (rk_maybe_cancel rk)) \<or> all_requested n tid h"
    "cancel_all_tasks \<in> set (rk_cancelled rk) \<longleftrightarrow> cancel_all_live n r h"
    "tid \<noteq> cancel_all_tasks \<Longrightarrow> tid \<in> set (rk_cancelled rk) \<longleftrightarrow> all_requested n tid h"
  using assms unfolding rank_follows_def by simp_all

lemma rank_followsI:
  assumes "\<And>tid. dict_get (rk_all_tasks rk) tid \<noteq> None \<longleftrightarrow> received r tid h" "\<And>tid t. dict_get (rk_all_tasks rk) tid = Some t \<Longrightarrow> task_id t = tid"
    "\<And>tid. tid \<in> set (rk_cancel_receiver rk) \<longleftrightarrow> cancel_waiting r tid h"
    "\<And>tid. tid \<in> set (task_ids (rk_maybe_cancel rk)) \<Longrightarrow> cancel_requested r tid h"
    "\<And>tid. cancel_requested r tid h \<Longrightarrow> tid \<in> set (task_ids (rk_maybe_cancel rk)) \<or> all_requested n tid h"
    "cancel_all_tasks \<in> set (rk_cancelled rk) \<longleftrightarrow> cancel_all_live n r h"
    "\<And>tid. tid \<noteq> cancel_all_tasks \<Longrightarrow> tid \<in> set (rk_cancelled rk) \<longleftrightarrow> all_requested n tid h"
  shows "rank_follows n h r rk"
  unfolding rank_follows_def using assms by blast

lemma collected_follows:
  assumes "rank_follows n h r rk"
  shows "tid \<in> set (task_ids (rk_maybe_cancel (snd (collect_cancels rk)))) \<Longrightarrow> cancel_requested r tid (GAgreeCancellations # h)"
    and "cancel_requested r tid (GAgreeCancellations # h) \<Longrightarrow>
      tid \<in> set (task_ids (rk_maybe_cancel (snd (collect_cancels rk)))) \<or> all_requested n tid h"
proof -
  let ?new = "List.map_filter (\<lambda>tid. if tid = cancel_all_tasks then None else dict_get (rk_all_tasks rk) tid) (rk_cancel_receiver rk)"
  have new: "tid \<in> set (task_ids ?new) \<longleftrightarrow> tid \<noteq> cancel_all_tasks \<and> cancel_waiting r tid h \<and> received r tid h" for tid
  proof -
    have "tid \<in> set (task_ids ?new) \<longleftrightarrow>
        (\<exists>tid'. tid' \<noteq> cancel_all_tasks \<and> tid' \<in> set (rk_cancel_receiver rk) \<and> (\<exists>t. dict_get (rk_all_tasks rk) tid' = Some t \<and> task_id t = tid))"
      by (force simp: task_ids_def List.map_filter_def)
    also have "\<dots> \<longleftrightarrow> tid \<noteq> cancel_all_tasks \<and> tid \<in> set (rk_cancel_receiver rk) \<and> dict_get (rk_all_tasks rk) tid \<noteq> None"
      using rank_followsD(2) [OF assms] by blast
    finally show ?thesis by (simp only: rank_followsD(1,3) [OF assms])
  qed
  have ids: "set (task_ids (rk_maybe_cancel (snd (collect_cancels rk)))) = set (task_ids (rk_maybe_cancel rk)) \<union> set (task_ids ?new)"
    by (simp add: collect_cancels_def task_ids_def image_Un)
  show "tid \<in> set (task_ids (rk_maybe_cancel (snd (collect_cancels rk)))) \<Longrightarrow> cancel_requested r tid (GAgreeCancellations # h)"
    "cancel_requested r tid (GAgreeCancellations # h) \<Longrightarrow>
      tid \<in> set (task_ids (rk_maybe_cancel (snd (collect_cancels rk)))) \<or> all_requested n tid h"
    using rank_followsD(4,5) [OF assms, of tid] new [of tid] by (auto simp: ids)
qed

lemma all_requested_agree:
  assumes "group_follows n h g" "0 < n"
  shows "all_requested n tid (GAgreeCancellations # h) \<longleftrightarrow> all_requested n tid h \<or> tid \<in> common_cancels g"
proof -
  have follows: "rank_follows n h r (g ! r)" if "r < n" for r using assms(1) that by (simp add: group_follows_def)
  have ne: "collected g \<noteq> []" and set_g: "set (collected g) = (\<lambda>r. snd (collect_cancels (g ! r))) ` {0..<n}"
    using assms by (force simp: collected_def group_follows_def set_conv_nth)+
  have common: "tid \<in> common_cancels g \<longleftrightarrow> (\<forall>r \<in> {0..<n}. tid \<in> set (task_ids (rk_maybe_cancel (snd (collect_cancels (g ! r))))))"
    using set_common_ids [of "map task_ids (map rk_maybe_cancel (collected g))"] ne by (simp add: common_cancels_def set_g)
  have up: "all_requested n tid h \<Longrightarrow> all_requested n tid (GAgreeCancellations # h)" by (simp add: all_requested_def list_all_iff)
  have "all_requested n tid (GAgreeCancellations # h)" if "tid \<in> common_cancels g"
    unfolding all_requested_def list_all_iff
  proof
    fix r assume "r \<in> set [0..<n]"
    then show "cancel_requested r tid (GAgreeCancellations # h)" using that collected_follows(1) [OF follows] by (simp add: common)
  qed
  moreover have "tid \<in> common_cancels g" if "all_requested n tid (GAgreeCancellations # h)" "\<not> all_requested n tid h"
    unfolding common
  proof
    fix r assume r: "r \<in> {0..<n}"
    then have "cancel_requested r tid (GAgreeCancellations # h)" using that(1) by (simp only: all_requested_def list_all_iff set_upt)
    then show "tid \<in> set (task_ids (rk_maybe_cancel (snd (collect_cancels (g ! r)))))"
      using collected_follows(2) [OF follows] r that(2) by fastforce
  qed
  ultimately show ?thesis using up by blast
qed

lemma agree_follows:
  assumes "group_follows n h g" "group_agree_cancellations g = Inr g'" "r < n"
  shows "rank_follows n (GAgreeCancellations # h) r (g' ! r)"
proof -
  have g: "length g = n" "rank_follows n h r (g ! r)" using assms by (auto simp: group_follows_def)
  note req = all_requested_agree [OF assms(1)]
  obtain cs where cs: "g' ! r = (snd (collect_cancels (g ! r)))\<lparr>rk_cancelled := cs,
      rk_maybe_cancel := filter (\<lambda>t. task_id t \<notin> common_cancels g) (rk_maybe_cancel (snd (collect_cancels (g ! r))))\<rparr>"
    "set cs = set (rk_cancelled (g ! r)) \<union> common_cancels g \<union> (if \<exists>rk \<in> set g. cancel_all_tasks \<in> set (rk_cancel_receiver rk) then {cancel_all_tasks} else {})"
    "cancel_all_tasks \<notin> common_cancels g"
    using agree_cancellations_rank [OF assms(2), of r] assms(3) g(1) by auto
  have fields: "rk_cancelled (g' ! r) = cs" "rk_cancel_receiver (g' ! r) = []" "rk_all_tasks (g' ! r) = rk_all_tasks (g ! r)"
    by (simp_all add: cs(1) collect_cancels_def)
  have ids: "tid \<in> set (task_ids (rk_maybe_cancel (g' ! r))) \<longleftrightarrow>
      tid \<in> set (task_ids (rk_maybe_cancel (snd (collect_cancels (g ! r))))) \<and> tid \<notin> common_cancels g" for tid
    by (auto simp: cs(1) task_ids_def)
  have "rank_follows n h i (g ! i)" if "i < n" for i using assms(1) that by (simp add: group_follows_def)
  then have ca: "(\<exists>rk \<in> set g. cancel_all_tasks \<in> set (rk_cancel_receiver rk)) \<longleftrightarrow> list_ex (\<lambda>r'. cancel_waiting r' cancel_all_tasks h) [0..<n]"
    unfolding list_ex_iff set_upt using rank_followsD(3) g(1) by (fastforce simp: in_set_conv_nth)
  show ?thesis
  proof (rule rank_followsI)
    show "cancel_all_tasks \<in> set (rk_cancelled (g' ! r)) \<longleftrightarrow> cancel_all_live n r (GAgreeCancellations # h)"
      unfolding fields cs(2) ca using cs(3) rank_followsD(6) [OF g(2)] by auto
    fix tid
    show "dict_get (rk_all_tasks (g' ! r)) tid \<noteq> None \<longleftrightarrow> received r tid (GAgreeCancellations # h)"
      "\<And>t. dict_get (rk_all_tasks (g' ! r)) tid = Some t \<Longrightarrow> task_id t = tid"
      "tid \<in> set (rk_cancel_receiver (g' ! r)) \<longleftrightarrow> cancel_waiting r tid (GAgreeCancellations # h)"
      using rank_followsD(1,2) [OF g(2)] by (simp_all add: fields)
    show "cancel_requested r tid (GAgreeCancellations # h)" if "tid \<in> set (task_ids (rk_maybe_cancel (g' ! r)))"
      using collected_follows(1) [OF g(2)] that ids by blast
    show "tid \<in> set (task_ids (rk_maybe_cancel (g' ! r))) \<or> all_requested n tid (GAgreeCancellations # h)"
      if "cancel_requested r tid (GAgreeCancellations # h)"
      using collected_follows(2) [OF g(2) that] ids req [of tid] assms(3) by auto
    show "tid \<in> set (rk_cancelled (g' ! r)) \<longleftrightarrow> all_requested n tid (GAgreeCancellations # h)" if "tid \<noteq> cancel_all_tasks"
      unfolding fields cs(2) using that rank_followsD(7) [OF g(2) that] req [of tid] assms(3) by auto
  qed
qed

text \<open>The steps of one rank, and the agreement on tasks, which touches no cancellation.\<close>

lemma all_requested_other: "l \<noteq> GAgreeCancellations \<Longrightarrow> all_requested n tid (l # h) = all_requested n tid h"
  by (cases l) (simp_all add: all_requested_def)

lemma rank_follows_other:
  assumes "rank_follows n h r rk" "l = GAgreeTasks \<or> (\<exists>r'. l = GStart r') \<or> (\<exists>r' t. l = GSubmit r' t \<and> r' \<noteq> r) \<or> (\<exists>r' tid. l = GCancelMessage r' tid \<and> r' \<noteq> r)"
    "rk_all_tasks rk' = rk_all_tasks rk" "rk_cancel_receiver rk' = rk_cancel_receiver rk" "rk_cancelled rk' = rk_cancelled rk"
    "rk_maybe_cancel rk' = rk_maybe_cancel rk"
  shows "rank_follows n (l # h) r rk'"
  using assms(2)
  by (elim disjE exE conjE) (use assms(1,3-) in \<open>simp_all add: rank_follows_def all_requested_other\<close>)

lemma submit_follows:
  assumes "rank_follows n h r rk" "submit t rk = Inr rk'"
  shows "rank_follows n (GSubmit r t # h) r rk'"
proof -
  have rk': "rk' = rk\<lparr>rk_cancelled := filter (\<lambda>x. x \<noteq> cancel_all_tasks) (rk_cancelled rk),
      rk_all_tasks := dict_set (rk_all_tasks rk) (task_id t) t, rk_maybe_queue := rk_maybe_queue rk @ [t]\<rparr>"
    using assms(2) by (auto simp: submit_def)
  have "(dict_get (rk_all_tasks rk') tid \<noteq> None \<longleftrightarrow> received r tid (GSubmit r t # h)) \<and>
      (\<forall>t'. dict_get (rk_all_tasks rk') tid = Some t' \<longrightarrow> task_id t' = tid)" for tid
    using rank_followsD(1,2) [OF assms(1), of tid] by (cases "tid = task_id t") (simp_all add: rk')
  note tasks = this
  show ?thesis
  proof (rule rank_followsI)
    fix tid
    show "dict_get (rk_all_tasks rk') tid \<noteq> None \<longleftrightarrow> received r tid (GSubmit r t # h)"
      "\<And>t'. dict_get (rk_all_tasks rk') tid = Some t' \<Longrightarrow> task_id t' = tid" using tasks [of tid] by blast+
    show "cancel_requested r tid (GSubmit r t # h)" if "tid \<in> set (task_ids (rk_maybe_cancel rk'))"
      using that rank_followsD(4) [OF assms(1), of tid] by (simp add: rk')
    show "tid \<in> set (task_ids (rk_maybe_cancel rk')) \<or> all_requested n tid (GSubmit r t # h)" if "cancel_requested r tid (GSubmit r t # h)"
      using that rank_followsD(5) [OF assms(1), of tid] by (simp add: rk' all_requested_other)
  qed (use rank_followsD(3,7) [OF assms(1)] in \<open>simp_all add: rk' all_requested_other\<close>)
qed

lemma group_follows_rank:
  assumes "group_follows n h g" "\<And>r. r \<noteq> r0 \<Longrightarrow> r < n \<Longrightarrow> rank_follows n (l # h) r (g ! r)" "r0 < n \<Longrightarrow> rank_follows n (l # h) r0 rk"
  shows "group_follows n (l # h) (g[r0 := rk])"
proof -
  have "rank_follows n (l # h) r (g[r0 := rk] ! r)" if "r < n" for r
    using that assms by (cases "r = r0") (simp_all add: group_follows_def)
  then show ?thesis using assms(1) by (simp add: group_follows_def)
qed

lemma group_next_follows:
  assumes "group_follows n h g" "group_next l g = Inr g'"
  shows "group_follows n (l # h) g'"
proof -
  have g: "length g = n" "\<And>r. r < n \<Longrightarrow> rank_follows n h r (g ! r)" using assms(1) by (auto simp: group_follows_def)
  show ?thesis
  proof (cases l)
    case (GSubmit r t)
    have other: "rank_follows n (l # h) r' (g ! r')" if "r' \<noteq> r" "r' < n" for r'
      using that by (intro rank_follows_other [OF g(2)]) (auto simp: GSubmit)
    show ?thesis
    proof (cases "r < n")
      case True
      then obtain rk where rk: "submit t (g ! r) = Inr rk" "g' = g[r := rk]" using assms(2) g(1) by (auto simp: GSubmit)
      then show ?thesis using group_follows_rank [OF assms(1) other] submit_follows [OF g(2) rk(1)] by (simp add: GSubmit)
    qed (use assms other g(1) in \<open>auto simp: GSubmit group_follows_def\<close>)
  next
    case (GCancelMessage r tid)
    have other: "rank_follows n (l # h) r' (g ! r')" if "r' \<noteq> r" "r' < n" for r'
      using that by (intro rank_follows_other [OF g(2)]) (auto simp: GCancelMessage)
    have "rank_follows n (l # h) r ((g ! r)\<lparr>rk_cancel_receiver := rk_cancel_receiver (g ! r) @ [tid]\<rparr>)" if "r < n"
      using g(2) [OF that] by (auto simp: rank_follows_def all_requested_other GCancelMessage)
    then show ?thesis
      using assms group_follows_rank [OF assms(1) other] other g(1)
      by (cases "r < n") (auto simp: GCancelMessage group_follows_def)
  next
    case (GStart r)
    have st: "rk_all_tasks rk = rk_all_tasks (g ! r) \<and> rk_cancel_receiver rk = rk_cancel_receiver (g ! r) \<and>
        rk_cancelled rk = rk_cancelled (g ! r) \<and> rk_maybe_cancel rk = rk_maybe_cancel (g ! r)" if "start_next (g ! r) = Some rk" for rk
      using that by (auto simp: start_next_def split: list.splits)
    have same: "rank_follows n (l # h) r' (g ! r')" if "r' < n" for r'
      using that by (intro rank_follows_other [OF g(2)]) (auto simp: GStart)
    have "rank_follows n (l # h) r rk" if "r < n" "start_next (g ! r) = Some rk" for rk
      using that st by (intro rank_follows_other [OF g(2)]) (auto simp: GStart)
    then show ?thesis using assms(2) g(1) same group_follows_rank [OF assms(1), of r l]
      by (cases "start_next (g ! r)") (auto simp: GStart group_follows_def nth_list_update split: if_splits)
  next
    case GAgreeTasks
    have len: "length g' = length g" using rmap_length assms(2) by (fastforce simp: GAgreeTasks group_agree_tasks_def)
    have "rank_follows n (l # h) r (g' ! r)" if "r < n" for r
    proof (rule rank_follows_other [OF g(2) [OF that]])
      have "r < length g" using that g(1) by simp
      from rmap_nth [OF assms(2) [unfolded GAgreeTasks group_next.simps group_agree_tasks_def] this]
      show "rk_all_tasks (g' ! r) = rk_all_tasks (g ! r)" "rk_cancel_receiver (g' ! r) = rk_cancel_receiver (g ! r)"
        "rk_cancelled (g' ! r) = rk_cancelled (g ! r)" "rk_maybe_cancel (g' ! r) = rk_maybe_cancel (g ! r)"
        by (auto dest!: sym [of _ "g' ! r"])
    qed (simp add: GAgreeTasks)
    then show ?thesis using len g(1) by (simp add: group_follows_def)
  next
    case GAgreeCancellations
    then show ?thesis
      using agree_follows [OF assms(1)] agree_cancellations_length [of g g'] assms(2) g(1) by (simp add: group_follows_def)
  qed
qed

lemma run_follows:
  assumes "group_follows n h g0" "rfold (\<lambda>g l. group_next l g) g0 ls = Inr g"
  shows "group_follows n (rev ls @ h) g"
  using assms
proof (induction ls arbitrary: g0 h)
  case (Cons l ls)
  then obtain g1 where g1: "group_next l g0 = Inr g1" "rfold (\<lambda>g l. group_next l g) g1 ls = Inr g" by auto
  from Cons.IH [OF group_next_follows [OF Cons.prems(1) g1(1)] g1(2)] show ?case by simp
qed simp

lemma new_group_follows: "0 < n \<Longrightarrow> group_follows n [] (replicate n new_rank)"
  by (auto simp: group_follows_def rank_follows_def new_rank_def task_ids_def all_requested_def list_all_iff)


text \<open>
  An agreement loses no task. A task every rank has received is enqueued by every rank at the next agreement; any other task
  stays with the rank until then.
\<close>

theorem agreement_enqueues_common_tasks:
  assumes "group_agree_tasks g = Inr g'" "r < length g" "t \<in> set (rk_maybe_queue (g ! r))"
  shows "if \<forall>rk \<in> set g. task_id t \<in> set (task_ids (rk_maybe_queue rk))
    then \<forall>rk \<in> set g'. task_id t \<in> set (enqueued rk) else t \<in> set (rk_maybe_queue (g' ! r))"
proof -
  let ?c = "common_ids (map task_ids (map rk_maybe_queue g))"
  have ne: "g \<noteq> []" using assms(2) by auto
  have mem: "task_id t \<in> set ?c \<longleftrightarrow> (\<forall>rk \<in> set g. task_id t \<in> set (task_ids (rk_maybe_queue rk)))"
    using set_common_ids [of "map task_ids (map rk_maybe_queue g)"] ne by simp
  have step: "\<exists>a. g' ! i = (g ! i)\<lparr>rk_queue := rk_queue (g ! i) @ a, rk_maybe_queue := filter (\<lambda>t. task_id t \<notin> set ?c) (rk_maybe_queue (g ! i))\<rparr> \<and>
      set (task_ids a) = set ?c" if i: "i < length g" for i
  proof -
    obtain a d where ad: "all_gather (map rk_maybe_queue g) (rk_maybe_queue (g ! i)) = Inr (a, d)"
      "g' ! i = (g ! i)\<lparr>rk_queue := rk_queue (g ! i) @ a, rk_maybe_queue := d\<rparr>"
      using rmap_nth [OF assms(1) [unfolded group_agree_tasks_def] i] by auto
    then show ?thesis using all_gather_spec [OF ad(1)] i by auto
  qed
  have len: "length g' = length g" using rmap_length [OF assms(1) [unfolded group_agree_tasks_def]] .
  show ?thesis
  proof (cases "task_id t \<in> set ?c")
    case True
    have "task_id t \<in> set (enqueued rk)" if rk: "rk \<in> set g'" for rk
    proof -
      obtain i where i: "i < length g" "g' ! i = rk" using rk len by (metis in_set_conv_nth)
      from step [OF i(1)] obtain a where a: "rk_queue rk = rk_queue (g ! i) @ a" "set (task_ids a) = set ?c" using i(2) by auto
      have "set (task_ids a) \<subseteq> set (enqueued rk)" by (auto simp: enqueued_def task_ids_def a(1))
      then show ?thesis using a(2) True by blast
    qed
    then show ?thesis using True mem by simp
  next
    case False
    then show ?thesis using step [OF assms(2)] assms(3) mem by auto
  qed
qed

definition demo_prompt :: text_generation_task_params where
  "demo_prompt = \<lparr>tg_model = ''m'', tg_input = [], tg_instructions = None, tg_max_output_tokens = None, tg_temperature = None, tg_top_p = None,
     tg_stream = True, tg_tools = None, tg_bench = False, tg_use_prefix_cache = True, tg_top_k = None, tg_stop = None, tg_seed = None,
     tg_chat_template_messages = None, tg_reasoning_effort = None, tg_enable_thinking = None, tg_logprobs = False, tg_top_logprobs = None,
     tg_min_p = None, tg_repetition_penalty = None, tg_repetition_context_size = None, tg_presence_penalty = None, tg_frequency_penalty = None,
     tg_images = [], tg_image_hashes = [], tg_prefill_endpoint = None\<rparr>"

definition demo_request :: "string \<Rightarrow> task" where
  "demo_request n = mk_task (replicate 35 (CHR ''0'') @ n) ''i'' (TextGeneration ''c'' demo_prompt)"

definition demo_received :: "rank list result" where
  "demo_received = rfold (\<lambda>g l. group_next l g) (replicate 2 new_rank)
     [GSubmit 0 (demo_request ''b''), GSubmit 0 (demo_request ''a''), GSubmit 1 (demo_request ''a''), GSubmit 1 (demo_request ''b'')]"

definition demo_steps :: "group_label list" where
  "demo_steps = [GAgreeTasks, GStart 0, GCancelMessage 0 (task_id (demo_request ''a'')), GCancelMessage 1 (task_id (demo_request ''a'')), GAgreeCancellations]"

definition demo_history :: "group_label list" where
  "demo_history = [GSubmit 0 (demo_request ''b''), GSubmit 0 (demo_request ''a''), GSubmit 1 (demo_request ''a''), GSubmit 1 (demo_request ''b'')] @ demo_steps"


text \<open>
  A cancel-all the group has agreed on ends on one rank before the others: the rank that has received another task goes on with
  a task that the rank beside it gives up.
\<close>

definition demo_cancel_all :: "group_label list" where
  "demo_cancel_all = [GSubmit 0 (demo_request ''a''), GSubmit 1 (demo_request ''a''), GAgreeTasks, GCancelMessage 0 cancel_all_tasks,
     GAgreeCancellations, GSubmit 1 (demo_request ''b''), GAgreeCancellations]"

lemma cancel_all_ends_on_one_rank:
  "case rfold (\<lambda>g l. group_next l g) (replicate 2 new_rank) demo_cancel_all of
     Inr g \<Rightarrow> should_cancel (g ! 0) (task_id (demo_request ''a'')) \<and> \<not> should_cancel (g ! 1) (task_id (demo_request ''a''))
   | Inl _ \<Rightarrow> False"
  by code_simp

theorem agreement_enqueues_common_tasks_witness:
  "\<exists>g g'. demo_received = Inr g \<and> group_agree_tasks g = Inr g' \<and> task_id (demo_request ''a'') \<in> set (enqueued (g' ! 1))"
proof -
  have "case demo_received of Inr g \<Rightarrow> length g = 2 \<and> demo_request ''a'' \<in> set (rk_maybe_queue (g ! 0)) \<and>
      list_all (\<lambda>rk. task_id (demo_request ''a'') \<in> set (task_ids (rk_maybe_queue rk))) g \<and>
      (case group_agree_tasks g of Inr g' \<Rightarrow> length g' = 2 | Inl _ \<Rightarrow> False) | Inl _ \<Rightarrow> False"
    by code_simp
  then obtain g g' where g: "demo_received = Inr g" "length g = 2" "demo_request ''a'' \<in> set (rk_maybe_queue (g ! 0))"
    "\<forall>rk \<in> set g. task_id (demo_request ''a'') \<in> set (task_ids (rk_maybe_queue rk))" "group_agree_tasks g = Inr g'" "length g' = 2"
    by (auto simp: list_all_iff split: sum.splits)
  have "\<forall>rk \<in> set g'. task_id (demo_request ''a'') \<in> set (enqueued rk)"
    using agreement_enqueues_common_tasks [OF g(5) _ g(3)] g(2,4) by simp
  then have "task_id (demo_request ''a'') \<in> set (enqueued (g' ! 1))" using g(6) by simp
  with g(1,5) show ?thesis by blast
qed

end
