(* ===== verification/Auth.thy ===== *)
theory Auth
  imports Effects Py_String Py_Float
begin

text \<open>
  Accounts of the agent server (\<^verbatim>\<open>tools/src/exo_tools/agent_core/auth.py\<close>, \<^verbatim>\<open>accounts.py\<close>): users with roles and
  permissions, login sessions, OAuth states, and the limiter of failed logins.

  The SQLite tables are lists of rows in insertion order; the constraints the schema declares (unique
  user names and Google subjects, primary keys, foreign keys) are checked where a statement could break
  them. A statement that fails changes nothing, and a method with several transactions keeps the earlier
  ones. \<^verbatim>\<open>hashlib.scrypt\<close> and \<^verbatim>\<open>hashlib.sha256\<close> are parameters, random tokens and the clock are arguments. Times are
  numbers: the ISO texts the code compares are of one format and zone and order like the times they name.
\<close>

section \<open>Tables\<close>

type_synonym bytes = "nat list"

datatype role = RoleUser | RoleAdmin | RoleMaster

definition role_rank :: "role \<Rightarrow> int" where
  "role_rank r = (case r of RoleUser \<Rightarrow> 1 | RoleAdmin \<Rightarrow> 2 | RoleMaster \<Rightarrow> 3)"

definition role_permissions :: "role \<Rightarrow> string list" where
  "role_permissions r =
     (case r of
        RoleUser \<Rightarrow> [''chat:read'', ''chat:write'', ''resources:read'', ''resources:update'', ''account:password'']
      | RoleAdmin \<Rightarrow> [''users:read'', ''users:create'', ''users:update'', ''permissions:update'', ''cluster:manage'']
      | RoleMaster \<Rightarrow> [''admins:create'', ''admins:update'', ''system:manage''])"

record user_row =
  ur_user_id :: int
  ur_username :: string
  ur_password_hash :: "bytes option"
  ur_password_salt :: "bytes option"
  ur_role :: role
  ur_google_sub :: "string option"
  ur_google_email :: "string option"
  ur_disabled :: bool
  ur_created_at :: int
  ur_password_changed_at :: "int option"

record session_row =
  sr_token_hash :: bytes
  sr_user_id :: int
  sr_csrf_token :: string
  sr_expires_at :: int

record state_row =
  or_state_hash :: bytes
  or_user_id :: "int option"
  or_expires_at :: int

record auth_db =
  db_users :: "user_row list"
  db_last_id :: int
  db_overrides :: "(int \<times> string, bool) dict"
  db_sessions :: "session_row list"
  db_states :: "state_row list"

definition new_db :: auth_db where
  "new_db = \<lparr>db_users = [], db_last_id = 0, db_overrides = [], db_sessions = [], db_states = []\<rparr>"

record auth_user =
  au_user_id :: int
  au_username :: string
  au_role :: role
  au_google_email :: "string option"
  au_disabled :: bool

record login_session =
  lg_token :: string
  lg_csrf_token :: string
  lg_expires_at :: int

record crypto =
  scrypt :: "string \<Rightarrow> bytes \<Rightarrow> bytes"
  sha256 :: "string \<Rightarrow> bytes"

abbreviation permission_error :: py_error where
  "permission_error \<equiv> OtherError ''PermissionError''"

abbreviation integrity_error :: py_error where
  "integrity_error \<equiv> OtherError ''IntegrityError''"

definition user_from_row :: "user_row \<Rightarrow> auth_user" where
  "user_from_row r = \<lparr>au_user_id = ur_user_id r, au_username = ur_username r, au_role = ur_role r,
     au_google_email = ur_google_email r, au_disabled = ur_disabled r\<rparr>"

definition row_of :: "auth_db \<Rightarrow> int \<Rightarrow> user_row option" where
  "row_of db uid = find (\<lambda>r. ur_user_id r = uid) (db_users db)"

definition row_named :: "auth_db \<Rightarrow> string \<Rightarrow> user_row option" where
  "row_named db n = find (\<lambda>r. ur_username r = n) (db_users db)"

text \<open>\<^verbatim>\<open>UPDATE users SET ... WHERE user_id = ?\<close>\<close>

definition update_user :: "int \<Rightarrow> (user_row \<Rightarrow> user_row) \<Rightarrow> auth_db \<Rightarrow> auth_db" where
  "update_user uid f db = db\<lparr>db_users := map (\<lambda>r. if ur_user_id r = uid then f r else r) (db_users db)\<rparr>"

text \<open>\<^verbatim>\<open>DELETE FROM login_sessions WHERE user_id = ?\<close>\<close>

definition drop_sessions :: "int \<Rightarrow> auth_db \<Rightarrow> auth_db" where
  "drop_sessions uid db = db\<lparr>db_sessions := filter (\<lambda>s. sr_user_id s \<noteq> uid) (db_sessions db)\<rparr>"

section \<open>Users\<close>

definition validate_username :: "string \<Rightarrow> string result" where
  "validate_username username =
     (let normalized = py_lower (py_strip username) in
      if \<not> (3 \<le> length normalized \<and> length normalized \<le> 32) then Inl (ValueError ''username must be 3-32 characters'')
      else if \<not> list_all (\<lambda>c. is_alnum c \<or> c \<in> set ''_-'') normalized
      then Inl (ValueError ''username may only contain letters, numbers, _ and -'')
      else Inr normalized)"

definition validate_password :: "string \<Rightarrow> unit result" where
  "validate_password p =
     (if length p < 12 then Inl (ValueError ''password must be at least 12 characters'')
      else if 256 < utf8_length p then Inl (ValueError ''password is too long'')
      else Inr ())"

definition get_user :: "int \<Rightarrow> auth_db \<Rightarrow> auth_user result" where
  "get_user uid db = rbind (of_option KeyError (row_of db uid)) (\<lambda>r. Inr (user_from_row r))"

definition insert_user :: "string \<Rightarrow> (bytes \<times> bytes) option \<Rightarrow> role \<Rightarrow> int \<Rightarrow> int option \<Rightarrow> (auth_db, int) action" where
  "insert_user n secret rl now changed db =
     (if row_named db n \<noteq> None then (db, Inl integrity_error)
      else let uid = db_last_id db + 1 in
        (db\<lparr>db_users := db_users db @ [\<lparr>ur_user_id = uid, ur_username = n, ur_password_hash = map_option fst secret,
              ur_password_salt = map_option snd secret, ur_role = rl, ur_google_sub = None, ur_google_email = None,
              ur_disabled = False, ur_created_at = now, ur_password_changed_at = changed\<rparr>],
            db_last_id := uid\<rparr>, Inr uid))"

definition create_user :: "crypto \<Rightarrow> string \<Rightarrow> string option \<Rightarrow> role \<Rightarrow> bytes \<Rightarrow> int \<Rightarrow> (auth_db, auth_user) action" where
  "create_user cr username password rl salt now =
     sbind (lift_result (validate_username username)) (\<lambda>normalized.
     sbind (lift_result (case password of
         None \<Rightarrow> Inr None
       | Some p \<Rightarrow> rbind (validate_password p) (\<lambda>_. Inr (Some (scrypt cr p salt, salt))))) (\<lambda>secret.
     sbind (insert_user normalized secret rl now (if password = None \<or> password = Some [] then None else Some now)) (\<lambda>uid.
     with_state (\<lambda>db. lift_result (get_user uid db)))))"

definition authenticate :: "crypto \<Rightarrow> string \<Rightarrow> string \<Rightarrow> auth_db \<Rightarrow> auth_user option" where
  "authenticate cr username password db =
     (case row_named db (py_lower (py_strip username)) of
        None \<Rightarrow> None
      | Some r \<Rightarrow>
          (case (ur_disabled r, ur_password_hash r, ur_password_salt r) of
             (False, Some h, Some salt) \<Rightarrow> if scrypt cr password salt = h then Some (user_from_row r) else None
           | _ \<Rightarrow> None))"

definition change_password :: "crypto \<Rightarrow> int \<Rightarrow> string option \<Rightarrow> string \<Rightarrow> bool \<Rightarrow> bytes \<Rightarrow> int \<Rightarrow> (auth_db, unit) action" where
  "change_password cr uid current_password new_password force salt now =
     with_state (\<lambda>db.
     sbind (lift_result (get_user uid db)) (\<lambda>user.
     let has_password = (case row_of db uid of Some r \<Rightarrow> ur_password_hash r \<noteq> None | None \<Rightarrow> False) in
     if \<not> force \<and> has_password \<and> (case current_password of None \<Rightarrow> True | Some p \<Rightarrow> authenticate cr (au_username user) p db = None)
     then raises permission_error
     else sbind (lift_result (validate_password new_password)) (\<lambda>_.
       upd (\<lambda>db. drop_sessions uid (update_user uid (\<lambda>r. r\<lparr>ur_password_hash := Some (scrypt cr new_password salt),
         ur_password_salt := Some salt, ur_password_changed_at := Some now\<rparr>) db)))))"

definition list_users :: "auth_db \<Rightarrow> auth_user list" where
  "list_users db = map user_from_row (sort_key ur_user_id (db_users db))"

section \<open>Sessions\<close>

definition create_session :: "crypto \<Rightarrow> int \<Rightarrow> int \<Rightarrow> string \<Rightarrow> string \<Rightarrow> int \<Rightarrow> (auth_db, login_session) action" where
  "create_session cr uid hours token csrf_token now db =
     (let expires_at = now + hours * 3600000000 in
      if row_of db uid = None \<or> sha256 cr token \<in> sr_token_hash ` set (db_sessions db) then (db, Inl integrity_error)
      else (db\<lparr>db_sessions := db_sessions db @ [\<lparr>sr_token_hash = sha256 cr token, sr_user_id = uid, sr_csrf_token = csrf_token,
                sr_expires_at = expires_at\<rparr>]\<rparr>,
            Inr \<lparr>lg_token = token, lg_csrf_token = csrf_token, lg_expires_at = expires_at\<rparr>))"

text \<open>The join of the two tables has at most one row: \<^verbatim>\<open>token_hash\<close> and \<^verbatim>\<open>user_id\<close> are primary keys.\<close>

definition user_for_session :: "crypto \<Rightarrow> string option \<Rightarrow> int \<Rightarrow> auth_db \<Rightarrow> (auth_user \<times> string) option" where
  "user_for_session cr token now db =
     (case token of
        None \<Rightarrow> None
      | Some t \<Rightarrow>
          if t = [] then None
          else case find (\<lambda>s. sr_token_hash s = sha256 cr t) (db_sessions db) of
            None \<Rightarrow> None
          | Some s \<Rightarrow>
              (case row_of db (sr_user_id s) of
                 None \<Rightarrow> None
               | Some r \<Rightarrow> if now < sr_expires_at s \<and> \<not> ur_disabled r then Some (user_from_row r, sr_csrf_token s) else None))"

definition logout :: "crypto \<Rightarrow> string option \<Rightarrow> auth_db \<Rightarrow> auth_db" where
  "logout cr token db =
     (case token of
        None \<Rightarrow> db
      | Some t \<Rightarrow> if t = [] then db else db\<lparr>db_sessions := filter (\<lambda>s. sr_token_hash s \<noteq> sha256 cr t) (db_sessions db)\<rparr>)"

section \<open>Roles and permissions\<close>

definition set_role :: "auth_user \<Rightarrow> int \<Rightarrow> role \<Rightarrow> (auth_db, auth_user) action" where
  "set_role actor target_user_id rl =
     with_state (\<lambda>db.
     sbind (lift_result (get_user target_user_id db)) (\<lambda>target.
     if role_rank (au_role actor) \<le> role_rank (au_role target) \<or> role_rank (au_role actor) \<le> role_rank rl
     then raises permission_error
     else sbind (upd (update_user target_user_id (\<lambda>r. r\<lparr>ur_role := rl\<rparr>))) (\<lambda>_.
       with_state (\<lambda>db. lift_result (get_user target_user_id db)))))"

definition set_disabled :: "auth_user \<Rightarrow> int \<Rightarrow> bool \<Rightarrow> (auth_db, auth_user) action" where
  "set_disabled actor target_user_id disabled =
     with_state (\<lambda>db.
     sbind (lift_result (get_user target_user_id db)) (\<lambda>target.
     if role_rank (au_role actor) \<le> role_rank (au_role target) then raises permission_error
     else sbind (upd (\<lambda>db.
         let db' = update_user target_user_id (\<lambda>r. r\<lparr>ur_disabled := disabled\<rparr>) db
         in if disabled then drop_sessions target_user_id db' else db')) (\<lambda>_.
       with_state (\<lambda>db. lift_result (get_user target_user_id db)))))"

definition set_permission :: "auth_user \<Rightarrow> int \<Rightarrow> string \<Rightarrow> bool \<Rightarrow> (auth_db, unit) action" where
  "set_permission actor target_user_id permission allowed =
     with_state (\<lambda>db.
     sbind (lift_result (get_user target_user_id db)) (\<lambda>target.
     if role_rank (au_role actor) \<le> role_rank (au_role target) then raises permission_error
     else upd (\<lambda>db. db\<lparr>db_overrides := dict_set (db_overrides db) (target_user_id, permission) allowed\<rparr>)))"

definition permissions :: "auth_user \<Rightarrow> auth_db \<Rightarrow> string list" where
  "permissions user db =
     foldl (\<lambda>ps ((uid, p), allowed). if uid \<noteq> au_user_id user then ps else if allowed then oset_add ps p else filter (\<lambda>q. q \<noteq> p) ps)
       (concat (map role_permissions (filter (\<lambda>r. role_rank r \<le> role_rank (au_role user)) [RoleUser, RoleAdmin, RoleMaster])))
       (db_overrides db)"

definition require_permission :: "auth_user \<Rightarrow> string \<Rightarrow> auth_db \<Rightarrow> unit result" where
  "require_permission user permission db = (if permission \<in> set (permissions user db) then Inr () else Inl permission_error)"

section \<open>OAuth\<close>

definition create_oauth_state :: "crypto \<Rightarrow> int option \<Rightarrow> string \<Rightarrow> int \<Rightarrow> (auth_db, string) action" where
  "create_oauth_state cr uid state now db =
     (if (case uid of None \<Rightarrow> False | Some u \<Rightarrow> row_of db u = None) \<or> sha256 cr state \<in> or_state_hash ` set (db_states db)
      then (db, Inl integrity_error)
      else (db\<lparr>db_states := db_states db @ [\<lparr>or_state_hash = sha256 cr state, or_user_id = uid, or_expires_at = now + 600000000\<rparr>]\<rparr>, Inr state))"

definition consume_oauth_state :: "crypto \<Rightarrow> string \<Rightarrow> int \<Rightarrow> (auth_db, int option) action" where
  "consume_oauth_state cr state now db =
     (db\<lparr>db_states := filter (\<lambda>o'. or_state_hash o' \<noteq> sha256 cr state) (db_states db)\<rparr>,
      case find (\<lambda>o'. or_state_hash o' = sha256 cr state \<and> now < or_expires_at o') (db_states db) of
        None \<Rightarrow> Inl permission_error | Some o' \<Rightarrow> Inr (or_user_id o'))"

definition get_user_by_google_sub :: "string \<Rightarrow> auth_db \<Rightarrow> auth_user option" where
  "get_user_by_google_sub google_sub db = map_option user_from_row (find (\<lambda>r. ur_google_sub r = Some google_sub) (db_users db))"

definition link_google :: "int \<Rightarrow> string \<Rightarrow> string \<Rightarrow> (auth_db, auth_user) action" where
  "link_google uid google_sub google_email =
     with_state (\<lambda>db.
     if row_of db uid \<noteq> None \<and> (\<exists>r \<in> set (db_users db). ur_google_sub r = Some google_sub \<and> ur_user_id r \<noteq> uid)
     then raises integrity_error
     else sbind (upd (update_user uid (\<lambda>r. r\<lparr>ur_google_sub := Some google_sub, ur_google_email := Some google_email\<rparr>))) (\<lambda>_.
       with_state (\<lambda>db. lift_result (get_user uid db))))"

definition google_base :: "string \<Rightarrow> string" where
  "google_base google_email =
     (let base = filter (\<lambda>c. is_alnum c \<or> c \<in> set ''_-'') (py_lower (takeWhile (\<lambda>c. c \<noteq> CHR ''@'') google_email)) in
      take 24 (if base = [] then ''google-user'' else base))"

definition suffixed :: "string \<Rightarrow> nat \<Rightarrow> string" where
  "suffixed base suffix = take 20 base @ CHR ''-'' # show_int (int suffix)"

section \<open>The search for a free name\<close>

lemma show_nonneg_inj: "0 \<le> m \<Longrightarrow> 0 \<le> n \<Longrightarrow> show_nonneg m = show_nonneg n \<Longrightarrow> m = n"
proof (induction m arbitrary: n rule: show_nonneg.induct)
  case (1 m)
  have d: "x = y" if "0 \<le> x" "x < 10" "0 \<le> y" "y < 10" "''0123456789'' ! nat x = ''0123456789'' ! nat y" for x y :: int
    using that nth_eq_iff_index_eq [of "''0123456789''" "nat x" "nat y"] by auto
  have u: "show_nonneg k = (if k < 10 then [''0123456789'' ! nat k] else show_nonneg (k div 10) @ [''0123456789'' ! nat (k mod 10)])" for k
    by (rule show_nonneg.simps)
  show ?case
  proof (cases "m < 10"; cases "n < 10")
    assume "m < 10" "n < 10"
    then show ?thesis using "1.prems" d [of m n] by (simp add: u [of m] u [of n])
  next
    assume a: "\<not> m < 10" "\<not> n < 10"
    then have "show_nonneg (m div 10) = show_nonneg (n div 10)" "m mod 10 = n mod 10"
      using "1.prems" d [of "m mod 10" "n mod 10"] by (auto simp: u [of m] u [of n])
    with 1 a have "m div 10 = n div 10" by simp
    with \<open>m mod 10 = n mod 10\<close> show ?thesis by (metis div_mult_mod_eq)
  qed (use "1.prems" in \<open>auto simp: u [of m] u [of n] eq_commute [of "[]"]\<close>)
qed

lemma suffixed_inj: "suffixed base j = suffixed base k \<Longrightarrow> j = k"
  using show_nonneg_inj [of "int j" "int k"] by (auto simp: suffixed_def show_int_def)

lemma finite_taken: "finite {j. suffixed base j \<in> set names}"
proof -
  have "inj_on (suffixed base) {j. suffixed base j \<in> set names}" by (auto intro: inj_onI suffixed_inj)
  moreover have "suffixed base ` {j. suffixed base j \<in> set names} \<subseteq> set names" by auto
  ultimately show ?thesis using finite_subset finite_imageD by blast
qed

text \<open>The loop of \<^verbatim>\<open>create_google_user\<close> when the current name is taken; it ends because only finitely many names are.\<close>

function free_username :: "string list \<Rightarrow> string \<Rightarrow> nat \<Rightarrow> string" where
  "free_username names base suffix =
     (let suffix' = suffix + 1; username = suffixed base suffix' in
      if username \<in> set names then free_username names base suffix' else username)"
  by pat_completeness auto
termination
proof (relation "measure (\<lambda>(names, base, suffix). card {j. suffix < j \<and> suffixed base j \<in> set names})")
  fix names :: "string list" and base and suffix suffix' :: nat and username
  assume s: "suffix' = suffix + 1" "username = suffixed base suffix'" "username \<in> set names"
  have "{j. suffix' < j \<and> suffixed base j \<in> set names} \<subset> {j. suffix < j \<and> suffixed base j \<in> set names}"
    using s by auto
  moreover have "finite {j. suffix < j \<and> suffixed base j \<in> set names}"
    by (rule finite_subset [OF _ finite_taken [of base names]]) auto
  ultimately show "((names, base, suffix'), names, base, suffix)
      \<in> measure (\<lambda>(names, base, suffix). card {j. suffix < j \<and> suffixed base j \<in> set names})"
    by (simp add: psubset_card_mono)
qed simp

declare free_username.simps [simp del]

definition create_google_user :: "crypto \<Rightarrow> string \<Rightarrow> string \<Rightarrow> int \<Rightarrow> (auth_db, auth_user) action" where
  "create_google_user cr google_sub google_email now =
     with_state (\<lambda>db.
     let base = google_base google_email; names = map ur_username (db_users db);
         username = (if base \<in> set names then free_username names base 1 else base)
     in sbind (create_user cr username None RoleUser [] now) (\<lambda>user.
        link_google (au_user_id user) google_sub google_email))"

section \<open>Failed logins\<close>

record limiter =
  li_max_failures :: nat
  li_window_seconds :: rat
  li_failures :: "(string, pyfloat list) dict"

definition new_limiter :: limiter where
  "new_limiter = \<lparr>li_max_failures = 5, li_window_seconds = 300, li_failures = []\<rparr>"

definition discard_expired :: "rat \<Rightarrow> pyfloat \<Rightarrow> pyfloat list \<Rightarrow> pyfloat list" where
  "discard_expired window_seconds now failures = dropWhile (\<lambda>t. t < fl (now - window_seconds)) failures"

definition limiter_check :: "string \<Rightarrow> pyfloat \<Rightarrow> (limiter, unit) action" where
  "limiter_check key now li =
     (let failures = discard_expired (li_window_seconds li) now (dict_get_default (li_failures li) key []) in
      (li\<lparr>li_failures := dict_set (li_failures li) key failures\<rparr>,
       if li_max_failures li \<le> length failures then Inl permission_error else Inr ()))"

definition limiter_failed :: "string \<Rightarrow> pyfloat \<Rightarrow> pyfloat \<Rightarrow> limiter \<Rightarrow> limiter" where
  "limiter_failed key now now' li =
     (let failures = discard_expired (li_window_seconds li) now (dict_get_default (li_failures li) key []) in
      li\<lparr>li_failures := dict_set (li_failures li) key (failures @ [now'])\<rparr>)"

definition limiter_success :: "string \<Rightarrow> limiter \<Rightarrow> limiter" where
  "limiter_success key li = li\<lparr>li_failures := dict_del (li_failures li) key\<rparr>"

section \<open>Accounts from the command line\<close>

definition create_account :: "crypto \<Rightarrow> string \<Rightarrow> string \<Rightarrow> string \<Rightarrow> string \<Rightarrow> string \<Rightarrow> bytes \<Rightarrow> int \<Rightarrow> (auth_db, auth_user) action" where
  "create_account cr username password rl actor_username actor_password salt now =
     (if rl \<notin> {''user'', ''admin''} then raises (ValueError ''role must be user or admin'')
      else with_state (\<lambda>db. case authenticate cr actor_username actor_password db of
        None \<Rightarrow> raises permission_error
      | Some actor \<Rightarrow>
          sbind (lift_result (require_permission actor ''users:create'' db)) (\<lambda>_.
          if rl = ''admin'' \<and> au_role actor \<noteq> RoleMaster then raises permission_error
          else (\<lambda>db. case create_user cr username (Some password) (if rl = ''admin'' then RoleAdmin else RoleUser) salt now db of
              (db', Inl e) \<Rightarrow> (db', Inl (if e = integrity_error then ValueError ''username already exists'' else e))
            | r \<Rightarrow> r))))"

definition bootstrap_accounts :: "crypto \<Rightarrow> string \<Rightarrow> string \<Rightarrow> bytes \<Rightarrow> bytes \<Rightarrow> int \<Rightarrow> (auth_db, auth_user \<times> auth_user) action" where
  "bootstrap_accounts cr master_password admin_password salt salt' now =
     with_state (\<lambda>db.
     if list_users db \<noteq> [] then raises (RuntimeError ''accounts already exist'')
     else sbind (create_user cr ''master'' (Some master_password) RoleMaster salt now) (\<lambda>master.
          sbind (create_user cr ''admin'' (Some admin_password) RoleAdmin salt' now) (\<lambda>admin. ret (master, admin))))"

end
