(* ===== verification/Auth_Routes.thy ===== *)
theory Auth_Routes
  imports Auth
begin

text \<open>
  The account routes of the agent server (\<^verbatim>\<open>create_app\<close> in \<^verbatim>\<open>tools/src/exo_tools/agent_server.py\<close>): who a request comes from,
  login and logout, changing a password, signing in with Google, and administration. A route answers \<open>Inl\<close> a
  status code or \<open>Inr\<close> its result; an exception the route does not handle is answered with 500. The answers of Google
  are arguments.
\<close>

section \<open>Requests\<close>

record http_request =
  rq_cookie :: "string option"
  rq_authorization :: string
  rq_api_key :: "string option"
  rq_csrf :: string
  rq_client :: string

record auth_server =
  as_db :: auth_db
  as_limiter :: limiter
  as_auth_disabled :: bool

type_synonym 'a answer = "nat + 'a"

definition mk_auth_server :: "auth_db \<Rightarrow> bool \<Rightarrow> auth_server" where
  "mk_auth_server db disabled = \<lparr>as_db = db, as_limiter = new_limiter, as_auth_disabled = disabled\<rparr>"

text \<open>The token of a request: the cookie, else a bearer token, else the API key.\<close>

definition or_token :: "string option \<Rightarrow> string option \<Rightarrow> string option" where
  "or_token x y = (if x = None \<or> x = Some [] then y else x)"

definition bearer_token :: "http_request \<Rightarrow> string option" where
  "bearer_token rq =
     (if take 7 (py_lower (rq_authorization rq)) = ''bearer '' then Some (py_strip (drop 7 (rq_authorization rq))) else None)"

definition session_token :: "http_request \<Rightarrow> string option" where
  "session_token rq = or_token (or_token (rq_cookie rq) (bearer_token rq)) (rq_api_key rq)"

definition request_identity :: "crypto \<Rightarrow> int \<Rightarrow> http_request \<Rightarrow> auth_server \<Rightarrow> (auth_user \<times> string) answer" where
  "request_identity cr now rq srv =
     (if as_auth_disabled srv
      then Inr (\<lparr>au_user_id = 0, au_username = ''test-master'', au_role = RoleMaster, au_google_email = None, au_disabled = False\<rparr>, ''test-csrf'')
      else case user_for_session cr (session_token rq) now (as_db srv) of None \<Rightarrow> Inl 401 | Some identity \<Rightarrow> Inr identity)"

text \<open>\<^verbatim>\<open>hmac.compare_digest\<close> on texts raises when one is not ASCII.\<close>

definition is_ascii :: "string \<Rightarrow> bool" where
  "is_ascii x = list_all (\<lambda>c. (of_char c :: nat) < 128) x"

definition require :: "crypto \<Rightarrow> int \<Rightarrow> http_request \<Rightarrow> string \<Rightarrow> bool \<Rightarrow> auth_server \<Rightarrow> auth_user answer" where
  "require cr now rq permission csrf srv =
     (case request_identity cr now rq srv of
        Inl code \<Rightarrow> Inl code
      | Inr (user, csrf_token) \<Rightarrow>
          if csrf \<and> \<not> as_auth_disabled srv \<and> rq_csrf rq \<noteq> [] \<and> \<not> (is_ascii (rq_csrf rq) \<and> is_ascii csrf_token) then Inl 500
          else if csrf \<and> \<not> as_auth_disabled srv \<and> (rq_csrf rq = [] \<or> rq_csrf rq \<noteq> csrf_token) then Inl 403
          else case require_permission user permission (as_db srv) of Inl _ \<Rightarrow> Inl 403 | Inr _ \<Rightarrow> Inr user)"

text \<open>A call of the account service whose exceptions the route turns into status codes.\<close>

definition service_call :: "(py_error \<Rightarrow> nat) \<Rightarrow> (auth_db, 'a) action \<Rightarrow> auth_server \<Rightarrow> auth_server \<times> 'a answer" where
  "service_call code m srv =
     (case m (as_db srv) of (db', Inl e) \<Rightarrow> (srv\<lparr>as_db := db'\<rparr>, Inl (code e)) | (db', Inr x) \<Rightarrow> (srv\<lparr>as_db := db'\<rparr>, Inr x))"

fun value_error_raised :: "py_error \<Rightarrow> bool" where
  "value_error_raised (ValueError _) = True"
| "value_error_raised _ = False"

section \<open>Login\<close>

definition limiter_key :: "http_request \<Rightarrow> string \<Rightarrow> string" where
  "limiter_key rq username = rq_client rq @ CHR '':'' # py_lower username"

text \<open>The route reads the clock several times: for the check, for discarding old failures, for the new one.\<close>

definition login_check :: "http_request \<Rightarrow> string \<Rightarrow> pyfloat \<Rightarrow> auth_server \<Rightarrow> auth_server \<times> unit answer" where
  "login_check rq username t srv =
     (case limiter_check (limiter_key rq username) t (as_limiter srv) of
        (li, Inl _) \<Rightarrow> (srv\<lparr>as_limiter := li\<rparr>, Inl 429)
      | (li, Inr _) \<Rightarrow> (srv\<lparr>as_limiter := li\<rparr>, Inr ()))"

definition login_rest ::
    "crypto \<Rightarrow> http_request \<Rightarrow> string \<Rightarrow> string \<Rightarrow> string \<Rightarrow> string \<Rightarrow> int \<Rightarrow> pyfloat \<Rightarrow> pyfloat \<Rightarrow> auth_server \<Rightarrow> auth_server \<times> unit answer" where
  "login_rest cr rq username password token csrf now t t' srv =
     (case authenticate cr username password (as_db srv) of
        None \<Rightarrow> (srv\<lparr>as_limiter := limiter_failed (limiter_key rq username) t t' (as_limiter srv)\<rparr>, Inl 401)
      | Some user \<Rightarrow>
          (case service_call (\<lambda>_. 500) (create_session cr (au_user_id user) 24 token csrf now)
              (srv\<lparr>as_limiter := limiter_success (limiter_key rq username) (as_limiter srv)\<rparr>) of
             (srv', Inl code) \<Rightarrow> (srv', Inl code)
           | (srv', Inr _) \<Rightarrow> (srv', Inr ())))"

section \<open>Sign-in with Google\<close>

text \<open>What Google answers: an error of the exchange, or whether the email is verified, the subject and the email.\<close>

type_synonym userinfo = "(bool \<times> string \<times> string) result"

definition google_code :: "py_error \<Rightarrow> nat" where
  "google_code e = (if e = KeyError \<or> e = permission_error \<or> e = OtherError ''OSError'' \<or> value_error_raised e then 400 else 500)"

definition google_user :: "crypto \<Rightarrow> string \<Rightarrow> userinfo \<Rightarrow> int \<Rightarrow> (auth_db, auth_user) action" where
  "google_user cr state info now =
     sbind (consume_oauth_state cr state now) (\<lambda>link_user_id.
     sbind (lift_result info) (\<lambda>(verified, google_sub, google_email).
     if \<not> verified then raises permission_error
     else case link_user_id of
        Some uid \<Rightarrow> link_google uid google_sub google_email
      | None \<Rightarrow> with_state (\<lambda>db. case get_user_by_google_sub google_sub db of
            Some user \<Rightarrow> ret user
          | None \<Rightarrow> create_google_user cr google_sub google_email now)))"

definition google_callback :: "crypto \<Rightarrow> string \<Rightarrow> userinfo \<Rightarrow> string \<Rightarrow> string \<Rightarrow> int \<Rightarrow> auth_server \<Rightarrow> auth_server \<times> unit answer" where
  "google_callback cr state info token csrf now srv =
     (case service_call google_code (google_user cr state info now) srv of
        (srv', Inl code) \<Rightarrow> (srv', Inl code)
      | (srv', Inr user) \<Rightarrow>
          (case service_call (\<lambda>_. 500) (create_session cr (au_user_id user) 24 token csrf now) srv' of
             (srv'', Inl code) \<Rightarrow> (srv'', Inl code)
           | (srv'', Inr _) \<Rightarrow> (srv'', Inr ())))"

definition google_start :: "crypto \<Rightarrow> http_request \<Rightarrow> bool \<Rightarrow> string \<Rightarrow> int \<Rightarrow> auth_server \<Rightarrow> auth_server \<times> unit answer" where
  "google_start cr rq link state now srv =
     (case (if link then map_sum id (\<lambda>(user, _). Some (au_user_id user)) (request_identity cr now rq srv) else Inr None) of
        Inl code \<Rightarrow> (srv, Inl code)
      | Inr uid \<Rightarrow> (case service_call (\<lambda>_. 500) (create_oauth_state cr uid state now) srv of
            (srv', Inl code) \<Rightarrow> (srv', Inl code) | (srv', Inr _) \<Rightarrow> (srv', Inr ())))"

section \<open>Routes\<close>

datatype auth_call =
    LoginCheck http_request string pyfloat
  | LoginRest http_request string string string string pyfloat pyfloat
  | Logout http_request
  | ChangePassword http_request string string bytes
  | GoogleStart http_request bool string
  | GoogleCallback string userinfo string string
  | CreateUser http_request string string string bytes
  | UpdateRole http_request int string
  | UpdatePermission http_request int string bool
  | UpdateStatus http_request int bool
  | CreateAccount string string string string string bytes
  | BootstrapAccounts string string bytes bytes

definition answer_unit :: "auth_server \<times> 'a answer \<Rightarrow> auth_server \<times> unit answer" where
  "answer_unit r = (fst r, map_sum id (\<lambda>_. ()) (snd r))"

definition forbidden_code :: "py_error \<Rightarrow> nat" where
  "forbidden_code e = (if e = KeyError \<or> e = permission_error then 403 else 500)"

definition required :: "crypto \<Rightarrow> int \<Rightarrow> http_request \<Rightarrow> string \<Rightarrow> (auth_user \<Rightarrow> auth_server \<Rightarrow> auth_server \<times> unit answer) \<Rightarrow>
    auth_server \<Rightarrow> auth_server \<times> unit answer" where
  "required cr now rq permission f srv =
     (case require cr now rq permission True srv of Inl code \<Rightarrow> (srv, Inl code) | Inr user \<Rightarrow> f user srv)"

fun auth_route :: "crypto \<Rightarrow> int \<Rightarrow> auth_call \<Rightarrow> auth_server \<Rightarrow> auth_server \<times> unit answer" where
  "auth_route cr now (LoginCheck rq username t) srv = login_check rq username t srv"
| "auth_route cr now (LoginRest rq username password token csrf t t') srv = login_rest cr rq username password token csrf now t t' srv"
| "auth_route cr now (Logout rq) srv =
     required cr now rq ''chat:read'' (\<lambda>_ srv. (srv\<lparr>as_db := logout cr (rq_cookie rq) (as_db srv)\<rparr>, Inr ())) srv"
| "auth_route cr now (ChangePassword rq current new salt) srv =
     required cr now rq ''account:password'' (\<lambda>user srv.
       service_call (\<lambda>e. if e = permission_error \<or> value_error_raised e then 400 else 500)
         (change_password cr (au_user_id user) (Some current) new False salt now) srv) srv"
| "auth_route cr now (GoogleStart rq link state) srv = google_start cr rq link state now srv"
| "auth_route cr now (GoogleCallback state info token csrf) srv = google_callback cr state info token csrf now srv"
| "auth_route cr now (CreateUser rq username password rl salt) srv =
     required cr now rq ''users:create'' (\<lambda>actor srv.
       if rl \<notin> {''user'', ''admin''} then (srv, Inl 400)
       else if rl = ''admin'' \<and> au_role actor \<noteq> RoleMaster then (srv, Inl 403)
       else answer_unit (service_call (\<lambda>e. if value_error_raised e \<or> e = integrity_error then 400 else 500)
              (create_user cr username (Some password) (if rl = ''admin'' then RoleAdmin else RoleUser) salt now) srv)) srv"
| "auth_route cr now (UpdateRole rq uid rl) srv =
     required cr now rq ''users:update'' (\<lambda>actor srv.
       if rl \<notin> {''user'', ''admin''} then (srv, Inl 400)
       else answer_unit (service_call forbidden_code (set_role actor uid (if rl = ''admin'' then RoleAdmin else RoleUser)) srv)) srv"
| "auth_route cr now (UpdatePermission rq uid permission allowed) srv =
     required cr now rq ''permissions:update'' (\<lambda>actor srv. service_call forbidden_code (set_permission actor uid permission allowed) srv) srv"
| "auth_route cr now (UpdateStatus rq uid disabled) srv =
     required cr now rq ''users:update'' (\<lambda>actor srv. answer_unit (service_call forbidden_code (set_disabled actor uid disabled) srv)) srv"
| "auth_route cr now (CreateAccount username password rl actor_username actor_password salt) srv =
     answer_unit (service_call (\<lambda>_. 500) (create_account cr username password rl actor_username actor_password salt now) srv)"
| "auth_route cr now (BootstrapAccounts master_password admin_password salt salt') srv =
     answer_unit (service_call (\<lambda>_. 500) (bootstrap_accounts cr master_password admin_password salt salt' now) srv)"

text \<open>A history of requests, each with the time it is handled at.\<close>

definition auth_run :: "crypto \<Rightarrow> auth_server \<Rightarrow> (int \<times> auth_call) list \<Rightarrow> auth_server" where
  "auth_run cr srv ls = foldl (\<lambda>srv (now, l). fst (auth_route cr now l srv)) srv ls"

section \<open>How the table of users changes\<close>

text \<open>What administration is about: a user's name, role and whether the account is disabled.\<close>

definition same_standing :: "user_row \<Rightarrow> user_row \<Rightarrow> bool" where
  "same_standing r r' \<longleftrightarrow> ur_username r' = ur_username r \<and> ur_role r' = ur_role r \<and> ur_disabled r' = ur_disabled r"

definition users_step :: "(user_row \<Rightarrow> user_row \<Rightarrow> bool) \<Rightarrow> auth_db \<Rightarrow> auth_db \<Rightarrow> bool" where
  "users_step R db db' \<longleftrightarrow>
     (\<forall>uid r. row_of db uid = Some r \<longrightarrow> (\<exists>r'. row_of db' uid = Some r' \<and> R r r')) \<and>
     (\<forall>uid r'. row_of db uid = None \<longrightarrow> row_of db' uid = Some r' \<longrightarrow> ur_role r' \<noteq> RoleMaster)"

lemma row_of_update:
  assumes "\<And>r. ur_user_id (f r) = ur_user_id r"
  shows "row_of (update_user u f db) uid = (if uid = u then map_option f (row_of db uid) else row_of db uid)"
proof -
  have "find (\<lambda>r. ur_user_id r = uid) (map (\<lambda>r. if ur_user_id r = u then f r else r) rs) =
      (if uid = u then map_option f (find (\<lambda>r. ur_user_id r = uid) rs) else find (\<lambda>r. ur_user_id r = uid) rs)" for rs
    by (induction rs) (auto simp: assms)
  then show ?thesis by (simp add: row_of_def update_user_def)
qed

lemma row_of_id: "row_of db u = Some r \<Longrightarrow> ur_user_id r = u"
  by (auto simp: row_of_def find_Some_iff)

lemma row_of_same [simp]:
  "row_of (drop_sessions u db) uid = row_of db uid" "row_of (logout cr t db) uid = row_of db uid"
  "row_of (db\<lparr>db_overrides := ov\<rparr>) uid = row_of db uid" "row_of (db\<lparr>db_sessions := ss\<rparr>) uid = row_of db uid"
  "row_of (db\<lparr>db_states := st\<rparr>) uid = row_of db uid"
  by (auto simp: row_of_def drop_sessions_def logout_def split: option.splits)

lemma find_append: "find P (xs @ ys) = (case find P xs of None \<Rightarrow> find P ys | Some x \<Rightarrow> Some x)"
  by (induction xs) auto

lemma same_standing_refl [simp]: "same_standing r r"
  by (simp add: same_standing_def)

lemma users_step_refl [simp]: "users_step same_standing db db"
  by (simp add: users_step_def same_standing_def)

lemma users_step_same:
  "users_step same_standing db0 db \<Longrightarrow> (\<And>uid. row_of db' uid = row_of db uid) \<Longrightarrow> users_step same_standing db0 db'"
  by (simp add: users_step_def)

lemma users_step_update:
  assumes "users_step same_standing db0 db" "\<And>r. ur_user_id (f r) = ur_user_id r" "\<And>r. same_standing r (f r)"
  shows "users_step same_standing db0 (update_user u f db)"
proof -
  have here: "(\<forall>r. row_of db uid = Some r \<longrightarrow> (\<exists>r'. row_of (update_user u f db) uid = Some r' \<and> same_standing r r')) \<and>
      (\<forall>r'. row_of (update_user u f db) uid = Some r' \<longrightarrow> (\<exists>r. row_of db uid = Some r \<and> same_standing r r'))" for uid
    unfolding row_of_update [OF assms(2)] using assms(3) by (cases "row_of db uid") auto
  have trans: "same_standing a b \<Longrightarrow> same_standing b c \<Longrightarrow> same_standing a c" for a b c by (simp add: same_standing_def)
  show ?thesis unfolding users_step_def
  proof (intro conjI allI impI)
    fix uid r assume "row_of db0 uid = Some r"
    then obtain r1 where "row_of db uid = Some r1" "same_standing r r1" using assms(1) unfolding users_step_def by blast
    then show "\<exists>r'. row_of (update_user u f db) uid = Some r' \<and> same_standing r r'" using here trans by blast
  next
    fix uid r' assume a: "row_of db0 uid = None" "row_of (update_user u f db) uid = Some r'"
    then obtain r where "row_of db uid = Some r" "same_standing r r'" using here by blast
    then show "ur_role r' \<noteq> RoleMaster" using assms(1) a(1) unfolding users_step_def same_standing_def by metis
  qed
qed

text \<open>Actions that leave the standing of every account as it is and create no master.\<close>

abbreviation keeps_standing :: "(auth_db, 'a) action \<Rightarrow> bool" where
  "keeps_standing m \<equiv> \<forall>db0. keeps (users_step same_standing db0) m"

lemma keeps_if: "keeps P m \<Longrightarrow> keeps P n \<Longrightarrow> keeps P (if b then m else n)"
  by simp

lemma quiet_insert: "rl \<noteq> RoleMaster \<Longrightarrow> keeps (users_step same_standing db0) (insert_user n secret rl now changed)"
proof (rule keepsI)
  fix db assume rl: "rl \<noteq> RoleMaster" and step: "users_step same_standing db0 db"
  let ?db' = "fst (insert_user n secret rl now changed db)"
  have "row_of ?db' uid = row_of db uid \<or> row_of db uid = None \<and> (\<forall>r. row_of ?db' uid = Some r \<longrightarrow> ur_role r \<noteq> RoleMaster)" for uid
    using rl by (auto simp: insert_user_def row_of_def Let_def find_append split: option.splits)
  then show "users_step same_standing db0 ?db'" using step unfolding users_step_def by (metis option.distinct(1))
qed

lemma quiet_create_user: "rl \<noteq> RoleMaster \<Longrightarrow> keeps (users_step same_standing db0) (create_user cr n p rl salt now)"
  unfolding create_user_def by (intro keeps_intros quiet_insert)

lemma quiet_create_session: "keeps (users_step same_standing db0) (create_session cr u h t c now)"
  by (rule keepsI) (auto simp: create_session_def Let_def elim: users_step_same)

lemma quiet_change_password: "keeps (users_step same_standing db0) (change_password cr u p q b salt now)"
  unfolding change_password_def Let_def
  by (intro keeps_intros keeps_if) (rule users_step_same [OF users_step_update], auto simp: same_standing_def)

lemma quiet_set_permission: "keeps (users_step same_standing db0) (set_permission actor u p a)"
  unfolding set_permission_def
  by (intro keeps_intros keeps_if) (auto elim: users_step_same)

lemma quiet_oauth:
  "keeps (users_step same_standing db0) (create_oauth_state cr u st now)" "keeps (users_step same_standing db0) (consume_oauth_state cr st now)"
  by (auto intro!: keepsI simp: create_oauth_state_def consume_oauth_state_def elim: users_step_same)

lemma quiet_link_google: "keeps (users_step same_standing db0) (link_google u gs ge)"
  unfolding link_google_def
  by (intro keeps_intros keeps_if) (auto simp: same_standing_def intro!: users_step_update)

lemma quiet_google_user: "keeps (users_step same_standing db0) (google_user cr st info now)"
  unfolding google_user_def create_google_user_def Let_def
  by (intro keeps_intros quiet_oauth) (auto split: prod.split option.split intro!: keeps_intros quiet_link_google quiet_create_user)

text \<open>What an actor may do to others: change the standing of accounts below its own rank, to a rank below its own.\<close>

definition governed :: "auth_user \<Rightarrow> user_row \<Rightarrow> user_row \<Rightarrow> bool" where
  "governed actor r r' \<longleftrightarrow>
     same_standing r r' \<or>
     ur_username r' = ur_username r \<and> role_rank (ur_role r) < role_rank (au_role actor) \<and> role_rank (ur_role r') < role_rank (au_role actor)"

lemma users_stepI:
  assumes "\<And>uid r. row_of db uid = Some r \<Longrightarrow> \<exists>r'. row_of db' uid = Some r' \<and> R r r'" "\<And>uid. row_of db uid = None \<Longrightarrow> row_of db' uid = None"
  shows "users_step R db db'"
  using assms unfolding users_step_def by (metis option.distinct(1))

lemma users_step_mono: "users_step R db db' \<Longrightarrow> (\<And>r r'. R r r' \<Longrightarrow> S r r') \<Longrightarrow> users_step S db db'"
  unfolding users_step_def by blast

lemma fst_set_role:
  "fst (set_role actor u rl db) =
     (case row_of db u of Some r \<Rightarrow> if role_rank (ur_role r) < role_rank (au_role actor) \<and> role_rank rl < role_rank (au_role actor)
        then update_user u (\<lambda>r. r\<lparr>ur_role := rl\<rparr>) db else db | None \<Rightarrow> db)"
  by (auto simp: set_role_def effect_defs get_user_def user_from_row_def of_option_def split: option.splits)

lemma fst_set_disabled:
  "fst (set_disabled actor u b db) =
     (case row_of db u of Some r \<Rightarrow> if role_rank (ur_role r) < role_rank (au_role actor)
        then (let db' = update_user u (\<lambda>r. r\<lparr>ur_disabled := b\<rparr>) db in if b then drop_sessions u db' else db') else db | None \<Rightarrow> db)"
  by (auto simp: set_disabled_def effect_defs get_user_def user_from_row_def of_option_def Let_def split: option.splits)

lemma set_role_governed: "users_step (governed actor) db (fst (set_role actor u rl db))"
  by (rule users_stepI) (auto simp: fst_set_role row_of_update governed_def split: option.splits)

lemma set_disabled_governed: "users_step (governed actor) db (fst (set_disabled actor u b db))"
  by (rule users_stepI) (auto simp: fst_set_disabled row_of_update governed_def Let_def split: option.splits)

fun call_request :: "auth_call \<Rightarrow> http_request option" where
  "call_request (UpdateRole rq _ _) = Some rq"
| "call_request (UpdateStatus rq _ _) = Some rq"
| "call_request _ = None"

lemma service_call_db: "as_db (fst (service_call code m srv)) = fst (m (as_db srv))"
  by (auto simp: service_call_def split: prod.splits sum.splits)

lemma fst_answer_unit [simp]: "fst (answer_unit r) = fst r"
  by (simp add: answer_unit_def)

lemma required_db: "as_db (fst (required cr now rq p f srv)) =
    (case require cr now rq p True srv of Inl _ \<Rightarrow> as_db srv | Inr user \<Rightarrow> as_db (fst (f user srv)))"
  by (simp add: required_def split: sum.splits)

lemma quiet_call: "keeps (users_step same_standing (as_db srv)) m \<Longrightarrow> users_step same_standing (as_db srv) (as_db (fst (service_call code m srv)))"
  unfolding service_call_db by (rule keepsD) simp_all

lemma quiet_create_account: "keeps (users_step same_standing db0) (create_account cr n p rl an ap salt now)"
proof (rule keepsI)
  fix db assume db: "users_step same_standing db0 db"
  let ?m = "create_user cr n (Some p) (if rl = ''admin'' then RoleAdmin else RoleUser) salt now"
  have "users_step same_standing db0 (fst (?m db))" by (rule keepsD [OF quiet_create_user db]) simp
  moreover have "fst (create_account cr n p rl an ap salt now db) \<in> {db, fst (?m db)}"
    by (auto simp: create_account_def effect_defs split: option.splits sum.splits prod.splits)
  ultimately show "users_step same_standing db0 (fst (create_account cr n p rl an ap salt now db))" using db by auto
qed

lemma login_db: "as_db (fst (login_rest cr rq n p t c now a b srv)) \<in>
    insert (as_db srv) {fst (create_session cr u 24 t c now (as_db srv)) | u. True}"
  by (auto simp: login_rest_def service_call_def split: option.splits prod.splits sum.splits) (metis fst_conv)+

lemma google_callback_quiet: "users_step same_standing (as_db srv) (as_db (fst (google_callback cr st info t c now srv)))"
proof -
  let ?g = "service_call google_code (google_user cr st info now) srv"
  have g: "users_step same_standing (as_db srv) (as_db (fst ?g))" by (rule quiet_call) (rule quiet_google_user)
  show ?thesis
  proof (cases "snd ?g")
    case (Inl code)
    then show ?thesis using g by (auto simp: google_callback_def split: prod.splits)
  next
    case (Inr user)
    have "as_db (fst (google_callback cr st info t c now srv)) = fst (create_session cr (au_user_id user) 24 t c now (as_db (fst ?g)))"
      using Inr service_call_db [of "\<lambda>_. 500" "create_session cr (au_user_id user) 24 t c now" "fst ?g"]
      by (auto simp: google_callback_def split: prod.splits sum.splits)
    then show ?thesis using keepsD [OF quiet_create_session g] by simp
  qed
qed

lemma google_start_quiet: "users_step same_standing (as_db srv) (as_db (fst (google_start cr rq link st now srv)))"
proof -
  have "as_db (fst (google_start cr rq link st now srv)) \<in> insert (as_db srv) {fst (create_oauth_state cr u st now (as_db srv)) | u. True}"
    by (auto simp: google_start_def service_call_def split: option.splits prod.splits sum.splits) (metis fst_conv)+
  then show ?thesis using keepsD [OF quiet_oauth(1) users_step_refl] by auto
qed

lemma auth_route_users:
  assumes "db_users (as_db srv) \<noteq> []"
  shows "users_step same_standing (as_db srv) (as_db (fst (auth_route cr now l srv))) \<or>
    (\<exists>rq actor. call_request l = Some rq \<and> require cr now rq ''users:update'' True srv = Inr actor \<and>
      users_step (governed actor) (as_db srv) (as_db (fst (auth_route cr now l srv))))"
proof (cases l)
  case (LoginCheck rq n t)
  then show ?thesis by (simp add: login_check_def split: prod.splits sum.splits)
next
  case (LoginRest rq n p t c a b)
  then show ?thesis using login_db [of cr rq n p t c now a b srv] keepsD [OF quiet_create_session users_step_refl] by auto
next
  case (GoogleStart rq link st)
  then show ?thesis using google_start_quiet by simp
next
  case (GoogleCallback st info t c)
  then show ?thesis using google_callback_quiet by simp
next
  case (UpdateRole rq u rl)
  then show ?thesis
    using set_role_governed by (cases "require cr now rq ''users:update'' True srv") (auto simp: required_db service_call_db)
next
  case (UpdateStatus rq u b)
  then show ?thesis
    using set_disabled_governed by (cases "require cr now rq ''users:update'' True srv") (auto simp: required_db service_call_db)
next
  case (CreateAccount n p rl an ap salt)
  then show ?thesis using quiet_call [OF quiet_create_account] by simp
next
  case (BootstrapAccounts mp ap s s')
  moreover have "sort_key ur_user_id (db_users (as_db srv)) \<noteq> []" using assms by (metis length_0_conv length_sort)
  ultimately show ?thesis by (simp add: service_call_db bootstrap_accounts_def list_users_def with_state_def raises_def)
next
  case (Logout rq)
  then show ?thesis by (auto simp: required_db intro: users_step_same [OF users_step_refl] split: sum.splits)
next
  case (ChangePassword rq p q salt)
  then show ?thesis using quiet_call [OF quiet_change_password] by (auto simp: required_db split: sum.splits)
next
  case (CreateUser rq n p rl salt)
  then show ?thesis using quiet_call [OF quiet_create_user] by (auto simp: required_db split: sum.splits)
next
  case (UpdatePermission rq u p a)
  then show ?thesis using quiet_call [OF quiet_set_permission] by (auto simp: required_db split: sum.splits)
qed

section \<open>Properties\<close>

text \<open>
  C27: the standing of an account is changed only from above. When a request changes the role of an existing account or
  disables or enables it, it is an administration request. On a server that authenticates, it carries the session of an enabled
  account with the permission \<^verbatim>\<open>users:update\<close> and that session's CSRF token, and the account acting has a rank above the old and
  the new rank of the account changed. Where authentication is switched off for tests (\<^verbatim>\<open>AGENTIC_AUTH_DISABLED\<close>, \<^verbatim>\<open>EXO_TESTS\<close>) anybody
  can make the request, and all that is left is that the old and the new rank lie below the master's.
\<close>

theorem standing_changed_from_above:
  assumes "row_of (as_db srv) uid = Some r" "row_of (as_db (fst (auth_route cr now l srv))) uid = Some r'" "\<not> same_standing r r'"
  shows "\<exists>rq. call_request l = Some rq \<and>
    (if as_auth_disabled srv then role_rank (ur_role r) < role_rank RoleMaster \<and> role_rank (ur_role r') < role_rank RoleMaster
     else \<exists>ra csrf. user_for_session cr (session_token rq) now (as_db srv) = Some (user_from_row ra, csrf) \<and>
       row_of (as_db srv) (ur_user_id ra) = Some ra \<and> \<not> ur_disabled ra \<and> rq_csrf rq = csrf \<and>
       ''users:update'' \<in> set (permissions (user_from_row ra) (as_db srv)) \<and>
       role_rank (ur_role r) < role_rank (ur_role ra) \<and> role_rank (ur_role r') < role_rank (ur_role ra))"
proof -
  have ne: "db_users (as_db srv) \<noteq> []" using assms(1) by (auto simp: row_of_def)
  have "\<not> users_step same_standing (as_db srv) (as_db (fst (auth_route cr now l srv)))"
    using assms(1-3) unfolding users_step_def by (metis option.inject)
  then obtain rq actor where rq: "call_request l = Some rq" "require cr now rq ''users:update'' True srv = Inr actor"
    and gov: "users_step (governed actor) (as_db srv) (as_db (fst (auth_route cr now l srv)))"
    using auth_route_users [OF ne, of cr now l] by blast
  have "governed actor r r'" using gov assms(1,2) unfolding users_step_def by (metis option.inject)
  then have rank: "role_rank (ur_role r) < role_rank (au_role actor)" "role_rank (ur_role r') < role_rank (au_role actor)"
    using assms(3) by (auto simp: governed_def)
  show ?thesis
  proof (cases "as_auth_disabled srv")
    case True
    have "role_rank (au_role actor) \<le> role_rank RoleMaster" by (simp add: role_rank_def split: role.splits)
    then show ?thesis using rq(1) rank True by auto
  next
    case False
    then obtain csrf where id: "user_for_session cr (session_token rq) now (as_db srv) = Some (actor, csrf)" "rq_csrf rq = csrf"
      "''users:update'' \<in> set (permissions actor (as_db srv))"
      using rq(2) by (auto simp: require_def request_identity_def require_permission_def split: option.splits sum.splits if_splits)
    then obtain u ra where ra: "row_of (as_db srv) u = Some ra" "actor = user_from_row ra" "\<not> ur_disabled ra"
      by (auto simp: user_for_session_def split: option.splits if_splits)
    moreover from ra(1) have "ur_user_id ra = u" by (rule row_of_id)
    ultimately show ?thesis using rq(1) id rank False by (auto simp: user_from_row_def)
  qed
qed

text \<open>
  C7: nobody becomes master, and no master is demoted or disabled. Once an account exists, whatever requests come in - from
  whomever, also with authentication turned off for tests -, the master accounts stay the same and keep their standing.
\<close>

theorem masters_are_fixed:
  assumes "db_users (as_db srv) \<noteq> []"
  shows "(\<exists>r'. row_of (as_db (auth_run cr srv ls)) uid = Some r' \<and> ur_role r' = RoleMaster \<and> ur_disabled r' = d \<and> ur_username r' = n) \<longleftrightarrow>
    (\<exists>r. row_of (as_db srv) uid = Some r \<and> ur_role r = RoleMaster \<and> ur_disabled r = d \<and> ur_username r = n)"
  using assms
proof (induction ls arbitrary: srv)
  case (Cons x ls)
  obtain now l where x: "x = (now, l)" by (cases x)
  let ?srv = "fst (auth_route cr now l srv)"
  have "users_step (\<lambda>r r'. same_standing r r' \<or> ur_role r \<noteq> RoleMaster \<and> ur_role r' \<noteq> RoleMaster) (as_db srv) (as_db ?srv)"
    using auth_route_users [OF Cons.prems, of cr now l]
  proof (elim disjE exE conjE)
    fix rq actor assume "users_step (governed actor) (as_db srv) (as_db ?srv)"
    moreover have "\<not> role_rank RoleMaster < role_rank (au_role actor)" by (simp add: role_rank_def split: role.splits)
    ultimately show ?thesis by (auto simp: governed_def elim!: users_step_mono)
  qed (auto elim!: users_step_mono)
  note step = this
  obtain r rs where "db_users (as_db srv) = r # rs" using Cons.prems by (cases "db_users (as_db srv)") auto
  then have "row_of (as_db srv) (ur_user_id r) = Some r" by (simp add: row_of_def)
  then have ne: "db_users (as_db ?srv) \<noteq> []" using step unfolding users_step_def by (metis find.simps(1) option.distinct(1) row_of_def)
  have "(\<exists>r'. row_of (as_db ?srv) uid = Some r' \<and> ur_role r' = RoleMaster \<and> ur_disabled r' = d \<and> ur_username r' = n) \<longleftrightarrow>
      (\<exists>r. row_of (as_db srv) uid = Some r \<and> ur_role r = RoleMaster \<and> ur_disabled r = d \<and> ur_username r = n)"
    using step unfolding users_step_def same_standing_def by (cases "row_of (as_db srv) uid") (fastforce)+
  with Cons.IH [OF ne] show ?case by (simp add: auth_run_def x)
qed (simp add: auth_run_def)

definition demo_crypto :: crypto where
  "demo_crypto = \<lparr>scrypt = (\<lambda>p s. map of_char p @ s), sha256 = map of_char\<rparr>"

definition demo_accounts :: auth_db where
  "demo_accounts = fst (bootstrap_accounts demo_crypto ''master-password'' ''admin-password'' [1] [2] 0 new_db)"

definition demo_browser :: "string \<Rightarrow> http_request" where
  "demo_browser token = \<lparr>rq_cookie = Some token, rq_authorization = [], rq_api_key = None, rq_csrf = ''csrf'', rq_client = ''host''\<rparr>"

definition demo_auth_server :: auth_server where
  "demo_auth_server = auth_run demo_crypto (mk_auth_server demo_accounts False)
     [(1, LoginRest (demo_browser []) ''Master'' ''master-password'' ''token'' ''csrf'' 0 0)]"

theorem standing_changed_from_above_witness:
  "\<exists>ra. row_of (as_db demo_auth_server) (ur_user_id ra) = Some ra \<and> \<not> ur_disabled ra \<and> role_rank RoleAdmin < role_rank (ur_role ra) \<and>
    user_for_session demo_crypto (Some ''token'') 2 (as_db demo_auth_server) = Some (user_from_row ra, ''csrf'')"
proof -
  let ?l = "UpdateStatus (demo_browser ''token'') 2 True"
  have "row_of (as_db demo_auth_server) 2 \<noteq> None" "row_of (as_db (fst (auth_route demo_crypto 2 ?l demo_auth_server))) 2 \<noteq> None"
    "map_option ur_role (row_of (as_db demo_auth_server) 2) = Some RoleAdmin"
    "map_option ur_disabled (row_of (as_db demo_auth_server) 2) = Some False" "\<not> as_auth_disabled demo_auth_server"
    "map_option ur_disabled (row_of (as_db (fst (auth_route demo_crypto 2 ?l demo_auth_server))) 2) = Some True"
    by code_simp+
  then obtain r r' where r: "row_of (as_db demo_auth_server) 2 = Some r" "ur_role r = RoleAdmin"
    "row_of (as_db (fst (auth_route demo_crypto 2 ?l demo_auth_server))) 2 = Some r'" "\<not> same_standing r r'" "\<not> as_auth_disabled demo_auth_server"
    by (auto simp: same_standing_def)
  from standing_changed_from_above [OF r(1,3,4)] show ?thesis
    using r(2,5) by (auto simp: demo_browser_def session_token_def or_token_def)
qed

theorem masters_are_fixed_witness:
  "\<exists>r. row_of (as_db (auth_run demo_crypto demo_auth_server [(2, UpdateRole (demo_browser ''token'') 1 ''user''), (3, UpdateStatus (demo_browser ''token'') 1 True)])) 1 =
    Some r \<and> ur_role r = RoleMaster \<and> ur_disabled r = False \<and> ur_username r = ''master''"
proof -
  have ne: "db_users (as_db demo_auth_server) \<noteq> []" by code_simp
  have "map_option (\<lambda>r. (ur_role r, ur_disabled r, ur_username r)) (row_of (as_db demo_auth_server) 1) = Some (RoleMaster, False, ''master'')"
    by code_simp
  then show ?thesis unfolding masters_are_fixed [OF ne] by auto
qed

end
