(* ===== verification/Auth_Safety.thy ===== *)
theory Auth_Safety
  imports Auth_Routes
begin

text \<open>
  What the account routes guarantee beyond single requests: the limit on failed logins, the single use of OAuth
  states, the sign-up with Google; and where they fall short: names padded with spaces escape the limit, administrators
  grant permissions they do not have, logging out with a bearer token leaves the token valid.
\<close>

section \<open>Failed logins are limited\<close>

record attempt =
  at_request :: http_request
  at_username :: string
  at_password :: string
  at_token :: string
  at_csrf :: string
  at_now :: int
  at_check :: pyfloat
  at_discard :: pyfloat
  at_append :: pyfloat

definition at_key :: "attempt \<Rightarrow> string" where
  "at_key a = limiter_key (at_request a) (at_username a)"

definition login :: "crypto \<Rightarrow> attempt \<Rightarrow> auth_server \<Rightarrow> auth_server \<times> unit answer" where
  "login cr a srv =
     (case login_check (at_request a) (at_username a) (at_check a) srv of
        (srv', Inl code) \<Rightarrow> (srv', Inl code)
      | (srv', Inr _) \<Rightarrow> login_rest cr (at_request a) (at_username a) (at_password a) (at_token a) (at_csrf a) (at_now a) (at_discard a) (at_append a) srv')"

definition login_run :: "crypto \<Rightarrow> auth_server \<Rightarrow> attempt list \<Rightarrow> auth_server \<times> (attempt \<times> unit answer) list" where
  "login_run cr srv as = foldl (\<lambda>(srv, out) a. case login cr a srv of (srv', r) \<Rightarrow> (srv', out @ [(a, r)])) (srv, []) as"

text \<open>
  When the attempts for a key failed since the last one whose password was right. An attempt that is answered 401 failed, one that
  is answered 429 was not looked at, any other had the right password.
\<close>

definition count_failure :: "string \<Rightarrow> pyfloat list \<Rightarrow> attempt \<times> unit answer \<Rightarrow> pyfloat list" where
  "count_failure k fs x = (case x of (a, r) \<Rightarrow>
     if at_key a \<noteq> k \<or> r = Inl 429 then fs else if r = Inl 401 then fs @ [at_append a] else [])"

definition failed_times :: "string \<Rightarrow> (attempt \<times> unit answer) list \<Rightarrow> pyfloat list" where
  "failed_times k out = foldl (count_failure k) [] out"

definition clock_runs :: "attempt list \<Rightarrow> bool" where
  "clock_runs as \<longleftrightarrow> sorted (concat (map (\<lambda>a. [at_check a, at_discard a, at_append a]) as))"

text \<open>What the limiter still holds for a key is the part of the failures that may matter.\<close>

definition tracks :: "string \<Rightarrow> pyfloat \<Rightarrow> limiter \<Rightarrow> pyfloat list \<Rightarrow> bool" where
  "tracks k now li fs \<longleftrightarrow>
     li_max_failures li = 5 \<and> li_window_seconds li = 300 \<and> sorted fs \<and> (\<forall>t \<in> set fs. t \<le> now) \<and>
     (\<exists>old. fs = old @ dict_get_default (li_failures li) k [] \<and> (\<forall>t \<in> set old. t < fl (now - 300)))"

lemma dropWhile_sorted: "sorted xs \<Longrightarrow> dropWhile (\<lambda>t. t < c) xs = filter (\<lambda>t. c \<le> t) (xs :: rat list)"
  by (induction xs) (auto simp: filter_id_conv [THEN iffD2] intro!: filter_True [symmetric])

lemma tracks_later: "tracks k now li fs \<Longrightarrow> now \<le> now' \<Longrightarrow> tracks k now' li fs"
  unfolding tracks_def using fl_mono [of "now - 300" "now' - 300"] by (auto 0 3 intro: order_trans less_le_trans)

lemma tracks_discard:
  assumes "tracks k now li fs" "now \<le> t" "fs' = discard_expired (li_window_seconds li) t (dict_get_default (li_failures li) k [])"
  shows "tracks k t (li\<lparr>li_failures := dict_set (li_failures li) k fs'\<rparr>) fs \<and> fs' = filter (\<lambda>u. fl (t - 300) \<le> u) fs"
proof -
  obtain old where old: "fs = old @ dict_get_default (li_failures li) k []" "\<forall>u \<in> set old. u < fl (t - 300)"
    and par: "li_max_failures li = 5" "li_window_seconds li = 300" "sorted fs" "\<forall>u \<in> set fs. u \<le> t"
    using tracks_later [OF assms(1,2)] by (auto simp: tracks_def)
  let ?L = "dict_get_default (li_failures li) k []"
  have fs': "fs' = filter (\<lambda>u. fl (t - 300) \<le> u) ?L"
    using assms(3) par old(1) by (simp add: discard_expired_def dropWhile_sorted sorted_append)
  have "fs' = filter (\<lambda>u. fl (t - 300) \<le> u) fs" using fs' old by (auto simp: filter_empty_conv)
  moreover have "fs = (old @ takeWhile (\<lambda>u. u < fl (t - 300)) ?L) @ fs'"
    using old(1) assms(3) par(2) by (simp add: discard_expired_def)
  moreover have "\<forall>u \<in> set (old @ takeWhile (\<lambda>u. u < fl (t - 300)) ?L). u < fl (t - 300)"
    using old(2) by (auto dest: set_takeWhileD)
  ultimately show ?thesis using par by (auto simp: tracks_def dict_get_default_def)
qed

lemma tracks_other:
  "k' \<noteq> k \<Longrightarrow> tracks k now (li\<lparr>li_failures := dict_set (li_failures li) k' v\<rparr>) fs = tracks k now li fs"
  "k' \<noteq> k \<Longrightarrow> tracks k now (li\<lparr>li_failures := dict_del (li_failures li) k'\<rparr>) fs = tracks k now li fs"
  by (simp_all add: tracks_def dict_get_default_def)

lemma tracks_fail:
  assumes "tracks k now li fs" "now \<le> t" "t \<le> t'"
  shows "tracks k t' (limiter_failed k t t' li) (fs @ [t'])"
proof -
  let ?fs' = "discard_expired (li_window_seconds li) t (dict_get_default (li_failures li) k [])"
  have d: "tracks k t' (li\<lparr>li_failures := dict_set (li_failures li) k ?fs'\<rparr>) fs"
    using tracks_discard [OF assms(1,2) refl] tracks_later [OF _ assms(3)] by blast
  then show ?thesis by (auto simp: tracks_def limiter_failed_def Let_def dict_get_default_def sorted_append)
qed

lemma tracks_success: "tracks k now li fs \<Longrightarrow> tracks k now (limiter_success k li) []"
  by (simp add: tracks_def limiter_success_def dict_get_default_def)

lemma login_rest_limiter:
  "login_rest cr rq n p tk c now t t' srv = (srv', r) \<Longrightarrow>
     if r = Inl 401 then as_limiter srv' = limiter_failed (limiter_key rq n) t t' (as_limiter srv)
     else as_limiter srv' = limiter_success (limiter_key rq n) (as_limiter srv) \<and> r \<noteq> Inl 429"
  by (auto simp: login_rest_def service_call_def split: option.splits prod.splits sum.splits)

lemma login_tracks:
  assumes "tracks k now (as_limiter srv) fs" "now \<le> at_check a" "at_check a \<le> at_discard a" "at_discard a \<le> at_append a"
    and "login cr a srv = (srv', r)"
  shows "tracks k (at_append a) (as_limiter srv') (count_failure k fs (a, r)) \<and>
    (at_key a = k \<longrightarrow> (r = Inl 429 \<longleftrightarrow> 5 \<le> length (filter (\<lambda>u. fl (at_check a - 300) \<le> u) fs)))"
proof -
  let ?li = "as_limiter srv" let ?t = "at_check a" let ?k = "at_key a"
  define fs' where "fs' = discard_expired (li_window_seconds ?li) ?t (dict_get_default (li_failures ?li) ?k [])"
  define srv1 where "srv1 = srv\<lparr>as_limiter := ?li\<lparr>li_failures := dict_set (li_failures ?li) ?k fs'\<rparr>\<rparr>"
  have chk: "login_check (at_request a) (at_username a) ?t srv = (srv1, if li_max_failures ?li \<le> length fs' then Inl 429 else Inr ())"
    by (simp add: login_check_def limiter_check_def Let_def at_key_def [symmetric] fs'_def [symmetric] srv1_def)
  have later: "tracks k (at_append a) li gs" if "tracks k ?t li gs" for li gs
    using tracks_later [OF that] assms(3,4) by simp
  show ?thesis
  proof (cases "?k = k")
    case True
    have par: "li_max_failures ?li = 5" using assms(1) by (simp add: tracks_def)
    have "fs' = discard_expired (li_window_seconds ?li) ?t (dict_get_default (li_failures ?li) k [])" by (simp add: fs'_def True)
    moreover have l1: "as_limiter srv1 = ?li\<lparr>li_failures := dict_set (li_failures ?li) k fs'\<rparr>" by (simp add: srv1_def True)
    ultimately have d: "tracks k ?t (as_limiter srv1) fs" "fs' = filter (\<lambda>u. fl (?t - 300) \<le> u) fs"
      using tracks_discard [OF assms(1,2)] by (simp_all only:)
    show ?thesis
    proof (cases "5 \<le> length fs'")
      case big: True
      then have "srv' = srv1" "r = Inl 429" using assms(5) chk par by (simp_all add: login_def)
      then show ?thesis using later [OF d(1)] big d(2) True by (simp add: count_failure_def)
    next
      case False
      then have rest: "login_rest cr (at_request a) (at_username a) (at_password a) (at_token a) (at_csrf a) (at_now a) (at_discard a) (at_append a) srv1 = (srv', r)"
        using assms(5) chk par by (simp add: login_def)
      note lim = login_rest_limiter [OF this, folded at_key_def, unfolded True]
      show ?thesis
      proof (cases "r = Inl 401")
        case failed: True
        then show ?thesis using tracks_fail [OF d(1) assms(3,4)] lim False d(2) True by (simp add: count_failure_def)
      next
        case False
        with lim have "as_limiter srv' = limiter_success k (as_limiter srv1)" "r \<noteq> Inl 429" by simp_all
        then show ?thesis using tracks_success [OF later [OF d(1)]] False \<open>\<not> 5 \<le> length fs'\<close> d(2) True by (simp add: count_failure_def)
      qed
    qed
  next
    case False
    have d: "tracks k ?t (as_limiter srv1) fs" using tracks_later [OF assms(1,2)] False by (simp add: srv1_def tracks_other)
    have "as_limiter srv' = as_limiter srv1 \<or> as_limiter srv' = limiter_failed ?k (at_discard a) (at_append a) (as_limiter srv1) \<or>
        as_limiter srv' = limiter_success ?k (as_limiter srv1)"
      using assms(5) chk login_rest_limiter unfolding login_def at_key_def by (fastforce split: if_splits)
    then have "tracks k ?t (as_limiter srv') fs"
      using d False by (auto simp: limiter_failed_def limiter_success_def Let_def tracks_other)
    then show ?thesis using later False by (simp add: count_failure_def)
  qed
qed

lemma login_run_snoc:
  "login_run cr srv (as @ [a]) = (let (srv', out) = login_run cr srv as; (srv'', r) = login cr a srv' in (srv'', out @ [(a, r)]))"
  by (auto simp: login_run_def split: prod.splits)

lemma login_run_tracks:
  assumes "clock_runs as" "login_run cr (mk_auth_server db d) as = (srv, out)" "\<forall>b \<in> set as. at_append b \<le> t"
  shows "tracks k t (as_limiter srv) (failed_times k out)"
  using assms
proof (induction as arbitrary: srv out t rule: rev_induct)
  case Nil
  then show ?case by (auto simp: login_run_def tracks_def mk_auth_server_def new_limiter_def failed_times_def dict_get_default_def)
next
  case (snoc a as)
  obtain srv1 out1 where run: "login_run cr (mk_auth_server db d) as = (srv1, out1)" by fastforce
  obtain r where r: "login cr a srv1 = (srv, r)" "out = out1 @ [(a, r)]"
    using snoc.prems(2) by (auto simp: login_run_snoc run split: prod.splits)
  have t: "at_check a \<le> at_discard a" "at_discard a \<le> at_append a" "\<forall>b \<in> set as. at_append b \<le> at_check a" "clock_runs as"
    using snoc.prems(1) by (auto simp: clock_runs_def sorted_append)
  from snoc.IH [OF t(4) run t(3)] have "tracks k (at_check a) (as_limiter srv1) (failed_times k out1)" .
  from login_tracks [OF this order_refl t(1,2) r(1)]
  have "tracks k (at_append a) (as_limiter srv) (failed_times k out)" by (simp add: r(2) failed_times_def)
  then show ?case using tracks_later snoc.prems(3) by simp
qed

text \<open>A refused attempt is refused whatever its password.\<close>

lemma login_rest_looked_at: "snd (login_rest cr rq n p tk c now t t' srv) \<noteq> Inl 429"
  using login_rest_limiter [of cr rq n p tk c now t t' srv "fst (login_rest cr rq n p tk c now t t' srv)" "snd (login_rest cr rq n p tk c now t t' srv)"]
  by (auto split: if_splits)

lemma refused_unread: "snd (login cr a srv) = Inl 429 \<Longrightarrow> login cr (a\<lparr>at_password := pw\<rparr>) srv = login cr a srv"
  by (auto simp: login_def login_rest_looked_at split: prod.splits sum.splits)

text \<open>
  C26: passwords cannot be tried without limit. When logins are handled one after the other, whatever they were answered before,
  an attempt is refused with 429 exactly when five or more attempts of the same client with the same name have failed within
  the last 300 seconds and since the last attempt of theirs with the right password; then the password is not looked at: with
  any other password, the right one too, the answer and what the server keeps would be the same.
\<close>

theorem login_failures_bounded:
  assumes "clock_runs (as @ [a])" "login_run cr (mk_auth_server db d) as = (srv, out)"
  shows "(snd (login cr a srv) = Inl 429 \<longleftrightarrow> 5 \<le> length (filter (\<lambda>u. fl (at_check a - 300) \<le> u) (failed_times (at_key a) out))) \<and>
    (snd (login cr a srv) = Inl 429 \<longrightarrow> login cr (a\<lparr>at_password := pw\<rparr>) srv = login cr a srv)"
proof -
  have t: "at_check a \<le> at_discard a" "at_discard a \<le> at_append a" "\<forall>b \<in> set as. at_append b \<le> at_check a" "clock_runs as"
    using assms(1) by (auto simp: clock_runs_def sorted_append)
  have tr: "tracks (at_key a) (at_check a) (as_limiter srv) (failed_times (at_key a) out)"
    by (rule login_run_tracks [OF t(4) assms(2) t(3)])
  obtain srv' r where "login cr a srv = (srv', r)" by fastforce
  from login_tracks [OF tr order_refl t(1,2) this] this refused_unread [of cr a srv pw] show ?thesis by simp
qed

text \<open>
  The limit can be walked around: the limiter's key keeps the spaces around a name which authentication strips. Any number of
  passwords is tried for one account when every attempt pads the name differently.
\<close>

definition padded_attempt :: "http_request \<Rightarrow> string \<Rightarrow> (nat \<Rightarrow> string) \<Rightarrow> (nat \<Rightarrow> pyfloat) \<Rightarrow> nat \<Rightarrow> attempt" where
  "padded_attempt rq n pw clock i = \<lparr>at_request = rq, at_username = replicate i (CHR '' '') @ n, at_password = pw i, at_token = ''t'', at_csrf = ''c'',
     at_now = 0, at_check = clock i, at_discard = clock i, at_append = clock i\<rparr>"

lemma authenticate_padded: "authenticate cr (replicate i (CHR '' '') @ n) p db = authenticate cr n p db"
  using py_strip_padded [of "replicate i (CHR '' '')" "[]" n] by (simp add: authenticate_def is_space_def list_all_iff)

lemma limiter_key_padded: "limiter_key rq (replicate i (CHR '' '') @ n) = limiter_key rq (replicate j (CHR '' '') @ n) \<Longrightarrow> i = j"
  by (auto simp: limiter_key_def py_lower_def dest: arg_cong [of _ _ length])

lemma dict_get_failed: "dict_get (li_failures (limiter_failed k t t' li)) k' = (if k' = k
    then Some (discard_expired (li_window_seconds li) t (dict_get_default (li_failures li) k []) @ [t']) else dict_get (li_failures li) k')"
  by (simp add: limiter_failed_def Let_def)

lemma padded_names_escape_limiter:
  assumes "\<And>i. authenticate cr n (pw i) db = None"
  shows "map snd (snd (login_run cr (mk_auth_server db d) (map (padded_attempt rq n pw clock) [0..<m]))) = replicate m (Inl 401)"
proof -
  let ?key = "\<lambda>i. limiter_key rq (replicate i (CHR '' '') @ n)"
  have "\<exists>srv out. login_run cr (mk_auth_server db d) (map (padded_attempt rq n pw clock) [0..<m]) = (srv, out) \<and>
      map snd out = replicate m (Inl 401) \<and> as_db srv = db \<and> li_max_failures (as_limiter srv) = 5 \<and>
      (\<forall>j \<ge> m. dict_get (li_failures (as_limiter srv)) (?key j) = None)"
  proof (induction m)
    case 0
    then show ?case by (simp add: login_run_def mk_auth_server_def new_limiter_def)
  next
    case (Suc m)
    then obtain srv out where run: "login_run cr (mk_auth_server db d) (map (padded_attempt rq n pw clock) [0..<m]) = (srv, out)"
      "map snd out = replicate m (Inl 401)" "as_db srv = db" "li_max_failures (as_limiter srv) = 5"
      "\<forall>j \<ge> m. dict_get (li_failures (as_limiter srv)) (?key j) = None" by blast
    let ?a = "padded_attempt rq n pw clock m"
    let ?srv1 = "srv\<lparr>as_limiter := (as_limiter srv)\<lparr>li_failures := dict_set (li_failures (as_limiter srv)) (?key m) []\<rparr>\<rparr>"
    have chk: "login_check rq (replicate m (CHR '' '') @ n) (clock m) srv = (?srv1, Inr ())"
      using run(4,5) by (simp add: login_check_def limiter_check_def dict_get_default_def discard_expired_def Let_def)
    have "login cr ?a srv = (?srv1\<lparr>as_limiter := limiter_failed (?key m) (clock m) (clock m) (as_limiter ?srv1)\<rparr>, Inl 401)"
      using assms run(3) chk by (simp add: login_def padded_attempt_def login_rest_def authenticate_padded)
    moreover have "\<forall>j \<ge> Suc m. dict_get (li_failures (limiter_failed (?key m) (clock m) (clock m) (as_limiter ?srv1))) (?key j) = None"
      using run(5) by (auto simp: dict_get_failed dest: limiter_key_padded)
    ultimately show ?case using run by (simp add: login_run_snoc replicate_append_same limiter_failed_def Let_def)
  qed
  then show ?thesis by auto
qed

section \<open>OAuth states\<close>

fun issues_state :: "crypto \<Rightarrow> bytes \<Rightarrow> auth_call \<Rightarrow> bool" where
  "issues_state cr h (GoogleStart _ _ st) = (sha256 cr st = h)"
| "issues_state cr h _ = False"

definition state_absent :: "bytes \<Rightarrow> auth_db \<Rightarrow> bool" where
  "state_absent h db \<longleftrightarrow> (\<forall>s \<in> set (db_states db). or_state_hash s \<noteq> h)"

lemma absent_update [simp]:
  "state_absent h (update_user u f db) = state_absent h db" "state_absent h (drop_sessions u db) = state_absent h db"
  "state_absent h (db\<lparr>db_overrides := ov\<rparr>) = state_absent h db" "state_absent h (logout cr t db) = state_absent h db"
  by (auto simp: state_absent_def update_user_def drop_sessions_def logout_def split: option.splits)

lemma absent_keeps [keeps_intros]:
  "keeps (state_absent h) (insert_user n s rl now changed)" "keeps (state_absent h) (create_session cr u hr t c now)"
  "keeps (state_absent h) (consume_oauth_state cr st now)"
  by (auto intro!: keepsI simp: insert_user_def create_session_def consume_oauth_state_def state_absent_def Let_def)

lemma absent_service:
  "keeps (state_absent h) (create_user cr n p rl salt now)" "keeps (state_absent h) (change_password cr u p q b salt now)"
  "keeps (state_absent h) (set_role actor u rl)" "keeps (state_absent h) (set_disabled actor u b)"
  "keeps (state_absent h) (set_permission actor u q a)" "keeps (state_absent h) (link_google u gs ge)"
  unfolding create_user_def change_password_def set_role_def set_disabled_def set_permission_def link_google_def Let_def
  by (intro keeps_intros keeps_if; simp)+

lemma absent_google_user: "keeps (state_absent h) (google_user cr st info now)"
  unfolding google_user_def create_google_user_def Let_def
  by (intro keeps_intros) (auto split: prod.split option.split intro!: keeps_intros absent_service)

lemma google_user_consumes: "state_absent (sha256 cr st) (fst (google_user cr st info now db))"
proof -
  have c: "state_absent (sha256 cr st) (fst (consume_oauth_state cr st now db))" by (simp add: consume_oauth_state_def state_absent_def)
  define m where "m = (\<lambda>link_user_id. sbind (lift_result info) (\<lambda>(verified, google_sub, google_email).
     if \<not> verified then raises permission_error
     else case link_user_id of
        Some uid \<Rightarrow> link_google uid google_sub google_email
      | None \<Rightarrow> with_state (\<lambda>db. case get_user_by_google_sub google_sub db of
            Some user \<Rightarrow> ret user
          | None \<Rightarrow> create_google_user cr google_sub google_email now)))"
  have "keeps (state_absent (sha256 cr st)) (m u)" for u
    unfolding m_def create_google_user_def Let_def
    by (intro keeps_intros) (auto split: prod.split option.split intro!: keeps_intros absent_service)
  then show ?thesis
    using c unfolding google_user_def m_def [symmetric] by (auto simp: sbind_def intro: keepsD split: prod.splits sum.splits)
qed

lemma absent_create_account: "keeps (state_absent h) (create_account cr n p rl an ap salt now)"
proof (rule keepsI)
  fix db assume db: "state_absent h db"
  let ?m = "create_user cr n (Some p) (if rl = ''admin'' then RoleAdmin else RoleUser) salt now"
  have "state_absent h (fst (?m db))" by (rule keepsD [OF absent_service(1) db])
  moreover have "fst (create_account cr n p rl an ap salt now db) \<in> {db, fst (?m db)}"
    by (auto simp: create_account_def effect_defs split: option.splits sum.splits prod.splits)
  ultimately show "state_absent h (fst (create_account cr n p rl an ap salt now db))" using db by auto
qed

lemma absent_bootstrap: "keeps (state_absent h) (bootstrap_accounts cr mp ap s s' now)"
  unfolding bootstrap_accounts_def by (intro keeps_intros keeps_if absent_service)

lemma absent_call: "keeps (state_absent h) m \<Longrightarrow> state_absent h (as_db srv) \<Longrightarrow> state_absent h (as_db (fst (service_call code m srv)))"
  unfolding service_call_db by (rule keepsD)

lemma absent_callback:
  assumes "state_absent h (fst (google_user cr st info now (as_db srv)))"
  shows "state_absent h (as_db (fst (google_callback cr st info t c now srv)))"
proof -
  let ?g = "service_call google_code (google_user cr st info now) srv"
  have g: "state_absent h (as_db (fst ?g))" using assms by (simp add: service_call_db)
  show ?thesis
  proof (cases "snd ?g")
    case (Inr user)
    have "as_db (fst (google_callback cr st info t c now srv)) = fst (create_session cr (au_user_id user) 24 t c now (as_db (fst ?g)))"
      using Inr service_call_db [of "\<lambda>_. 500" "create_session cr (au_user_id user) 24 t c now" "fst ?g"]
      by (auto simp: google_callback_def split: prod.splits sum.splits)
    then show ?thesis using keepsD [OF absent_keeps(2) g] by simp
  qed (use g in \<open>auto simp: google_callback_def split: prod.splits\<close>)
qed

lemma absent_start:
  assumes "state_absent h (as_db srv)" "sha256 cr st \<noteq> h"
  shows "state_absent h (as_db (fst (google_start cr rq link st now srv)))"
proof -
  have "as_db (fst (google_start cr rq link st now srv)) \<in> insert (as_db srv) {fst (create_oauth_state cr u st now (as_db srv)) | u. True}"
    by (auto simp: google_start_def service_call_def split: option.splits prod.splits sum.splits) (metis fst_conv)+
  then show ?thesis using assms by (auto simp: create_oauth_state_def state_absent_def split: if_splits)
qed

lemma auth_route_absent:
  assumes "state_absent h (as_db srv)" "\<not> issues_state cr h l"
  shows "state_absent h (as_db (fst (auth_route cr now l srv)))"
proof (cases l)
  case (LoginCheck rq n t)
  then show ?thesis using assms(1) by (simp add: login_check_def split: prod.splits sum.splits)
next
  case (LoginRest rq n p t c a b)
  then show ?thesis using login_db [of cr rq n p t c now a b srv] keepsD [OF absent_keeps(2) assms(1)] assms(1) by auto
next
  case (GoogleStart rq link st)
  then show ?thesis using absent_start [OF assms(1)] assms(2) by simp
next
  case (GoogleCallback st info t c)
  then show ?thesis using absent_callback [OF keepsD [OF absent_google_user assms(1)]] by simp
qed (use assms(1) in \<open>auto simp: required_db split: sum.splits intro!: absent_call absent_service absent_create_account absent_bootstrap\<close>)

text \<open>
  An OAuth state is good for one sign-in. After a callback with a state, however it ended, and whatever requests follow, a second
  callback with the same state is refused, unless the server issued the same state again.
\<close>

theorem oauth_state_used_once:
  assumes "list_all (\<lambda>(_, l). \<not> issues_state cr (sha256 cr st) l) ls"
  shows "snd (google_callback cr st info' t' c' now' (auth_run cr (fst (google_callback cr st info t c now srv)) ls)) = Inl 400"
proof -
  have run: "state_absent h (as_db (auth_run cr s ls))" if "state_absent h (as_db s)" "list_all (\<lambda>(_, l). \<not> issues_state cr h l) ls" for h s
    using that unfolding auth_run_def by (induction ls arbitrary: s) (auto simp: auth_route_absent)
  define s where "s = auth_run cr (fst (google_callback cr st info t c now srv)) ls"
  have "state_absent (sha256 cr st) (as_db s)"
    unfolding s_def by (rule run [OF absent_callback [OF google_user_consumes] assms])
  then have "find (\<lambda>o'. or_state_hash o' = sha256 cr st \<and> now' < or_expires_at o') (db_states (as_db s)) = None"
    by (auto simp: find_None_iff state_absent_def)
  then show ?thesis unfolding s_def [symmetric]
    by (simp add: google_callback_def service_call_def google_user_def sbind_def consume_oauth_state_def google_code_def)
qed

section \<open>Sign-up with Google\<close>

definition plain_name :: "string \<Rightarrow> bool" where
  "plain_name n \<longleftrightarrow> list_all (\<lambda>c. (is_alnum c \<or> c \<in> set ''_-'') \<and> to_lower c = c) n"

lemma validate_plain: "plain_name n \<Longrightarrow> 3 \<le> length n \<Longrightarrow> length n \<le> 32 \<Longrightarrow> validate_username n = Inr n"
proof -
  assume n: "plain_name n" "3 \<le> length n" "length n \<le> 32"
  have sp: "\<not> is_space c" if "c \<in> set n" for c
    using n(1) that is_alnum_not_space by (auto simp: plain_name_def list_all_iff is_space_def)
  have "dropWhile is_space n = n" using sp by (cases n) auto
  moreover have "dropWhile is_space (rev n) = rev n" using sp by (cases n rule: rev_cases) auto
  moreover have "py_lower n = n" using n(1) unfolding py_lower_def plain_name_def by (auto simp: list_all_iff intro: map_idI)
  ultimately show ?thesis using n by (auto simp: validate_username_def py_strip_def plain_name_def list_all_iff)
qed

lemma length_show_nonneg: "0 \<le> n \<Longrightarrow> n < 10 ^ Suc k \<Longrightarrow> length (show_nonneg n) \<le> Suc k"
proof (induction k arbitrary: n)
  case (Suc k)
  have "n < 10 * 10 ^ Suc k" using Suc.prems(2) by simp
  then have "n div 10 < 10 ^ Suc k" by linarith
  then have "length (show_nonneg (n div 10)) \<le> Suc k" using Suc.prems(1) by (intro Suc.IH) auto
  then show ?case by (subst show_nonneg.simps) simp
qed (subst show_nonneg.simps, simp)

lemma plain_digits: "0 \<le> n \<Longrightarrow> plain_name (show_nonneg n)"
proof -
  assume n: "0 \<le> n"
  have "is_alnum c \<and> to_lower c = c" if "is_digit c" for c using that by (auto simp: is_digit_def is_alnum_def to_lower_def)
  then show ?thesis using show_nonneg_digits [OF n] by (auto simp: plain_name_def list_all_iff)
qed

lemma plain_base: "plain_name (google_base email)"
proof -
  have "plain_name (filter (\<lambda>c. is_alnum c \<or> c \<in> set ''_-'') (py_lower x))" for x
    by (auto simp: plain_name_def list_all_iff py_lower_def) (auto simp: to_lower_def)
  moreover have "plain_name ''google-user''" by (simp add: plain_name_def is_alnum_def to_lower_def)
  moreover have "plain_name n \<Longrightarrow> plain_name (take k n)" for n k by (auto simp: plain_name_def list_all_iff dest: in_set_takeD)
  ultimately show ?thesis by (simp add: google_base_def Let_def)
qed

lemma plain_suffixed: "plain_name base \<Longrightarrow> plain_name (suffixed base k)"
  using plain_digits [of "int k"]
  by (auto simp: plain_name_def suffixed_def show_int_def list_all_iff is_alnum_def to_lower_def dest: in_set_takeD)

lemma free_username_spec:
  "\<exists>j > k. free_username names base k = suffixed base j \<and> suffixed base j \<notin> set names \<and> (\<forall>i. k < i \<and> i < j \<longrightarrow> suffixed base i \<in> set names)"
proof (induction names base k rule: free_username.induct)
  case (1 names base k)
  show ?case
  proof (cases "suffixed base (k + 1) \<in> set names")
    case True
    from 1 [OF refl refl True] obtain j where j: "j > k + 1" "free_username names base (k + 1) = suffixed base j" "suffixed base j \<notin> set names"
      "\<forall>i. k + 1 < i \<and> i < j \<longrightarrow> suffixed base i \<in> set names" by blast
    have "\<forall>i. k < i \<and> i < j \<longrightarrow> suffixed base i \<in> set names"
      using j(4) True by (metis Suc_eq_plus1 less_antisym not_less_eq)
    moreover have "free_username names base k = suffixed base j" using True j(2) by (subst free_username.simps) (simp add: Let_def)
    ultimately show ?thesis using j by (intro exI [of _ j]) auto
  next
    case False
    then have "free_username names base k = suffixed base (k + 1)" by (subst free_username.simps) (simp add: Let_def)
    then show ?thesis using False by (intro exI [of _ "k + 1"]) auto
  qed
qed

lemma free_username_bound:
  assumes "j > k" "\<forall>i. k < i \<and> i < j \<longrightarrow> suffixed base i \<in> set names"
  shows "j \<le> k + length names + 1"
proof -
  have "suffixed base ` {k<..<j} \<subseteq> set names" using assms(2) by auto
  moreover have "inj_on (suffixed base) {k<..<j}" by (auto intro: inj_onI suffixed_inj)
  ultimately have "card {k<..<j} \<le> card (set names)" by (metis List.finite_set card_image card_mono)
  also have "\<dots> \<le> length names" by (rule card_length)
  finally show ?thesis using assms(1) by simp
qed

text \<open>
  C31: A first sign-in with Google ends and creates an account. When the email's name has at least three usable characters,
  the search for a free user name ends, and the sign-in creates exactly one account: an enabled user, not
  an administrator, with a name nobody has, linked to the Google subject.
\<close>

theorem google_user_created:
  assumes "3 \<le> length (google_base email)" "\<forall>r \<in> set (db_users db). ur_google_sub r \<noteq> Some gsub \<and> ur_user_id r \<le> db_last_id db"
    and "length (db_users db) < 10 ^ 9"
  shows "\<exists>r. create_google_user cr gsub email now db = (db\<lparr>db_last_id := db_last_id db + 1, db_users := db_users db @ [r]\<rparr>, Inr (user_from_row r)) \<and>
    ur_role r = RoleUser \<and> \<not> ur_disabled r \<and> ur_username r \<notin> ur_username ` set (db_users db) \<and> ur_google_sub r = Some gsub"
proof -
  let ?base = "google_base email" let ?names = "map ur_username (db_users db)"
  define n where "n = (if ?base \<in> set ?names then free_username ?names ?base 1 else ?base)"
  have len: "length ?base \<le> 24" by (simp add: google_base_def Let_def)
  have "n \<notin> set ?names \<and> plain_name n \<and> 3 \<le> length n \<and> length n \<le> 32"
  proof (cases "?base \<in> set ?names")
    case True
    obtain j where j: "1 < j" "free_username ?names ?base 1 = suffixed ?base j" "suffixed ?base j \<notin> set ?names"
      "\<forall>i. 1 < i \<and> i < j \<longrightarrow> suffixed ?base i \<in> set ?names" using free_username_spec [of 1 ?names ?base] by blast
    have "j \<le> 1 + length ?names + 1" by (rule free_username_bound [OF j(1,4)])
    then have "int j < 10 ^ Suc 9" using assms(3) by simp
    then have "length (show_nonneg (int j)) \<le> 10" using length_show_nonneg [of "int j" 9] by simp
    moreover have "0 < length (show_nonneg (int j))" by simp
    ultimately have "3 \<le> length (suffixed ?base j)" "length (suffixed ?base j) \<le> 32"
      using assms(1) by (auto simp: suffixed_def show_int_def)
    then show ?thesis using True j(2,3) plain_suffixed [OF plain_base] by (simp add: n_def)
  next
    case False
    then show ?thesis using assms(1) len plain_base by (simp add: n_def)
  qed
  then have n: "n \<notin> set ?names" "validate_username n = Inr n" using validate_plain by auto
  have "row_named db n = None" using n(1) by (auto simp: row_named_def find_None_iff)
  moreover have fresh: "find (\<lambda>r. ur_user_id r = db_last_id db + 1) (db_users db) = None" using assms(2) by (force simp: find_None_iff)
  moreover have "map (\<lambda>r. if ur_user_id r = db_last_id db + 1 then f r else r) (db_users db) = db_users db" for f
    using assms(2) by (intro map_idI) force
  moreover define r where "r = \<lparr>ur_user_id = db_last_id db + 1, ur_username = n, ur_password_hash = None, ur_password_salt = None,
    ur_role = RoleUser, ur_google_sub = Some gsub, ur_google_email = Some email, ur_disabled = False, ur_created_at = now,
    ur_password_changed_at = None\<rparr>"
  ultimately have "create_google_user cr gsub email now db = (db\<lparr>db_last_id := db_last_id db + 1, db_users := db_users db @ [r]\<rparr>, Inr (user_from_row r))"
    using n assms(2) unfolding create_google_user_def Let_def n_def [symmetric] with_state_def
    by (simp add: create_user_def insert_user_def link_google_def effect_defs get_user_def row_of_def find_append update_user_def
        user_from_row_def Let_def)
  moreover have "ur_role r = RoleUser" "\<not> ur_disabled r" "ur_username r \<notin> ur_username ` set (db_users db)" "ur_google_sub r = Some gsub"
    using n(1) by (simp_all add: r_def)
  ultimately show ?thesis by blast
qed

section \<open>Two gaps\<close>

text \<open>The permissions of a user: an override decides, else the roles up to the user's own.\<close>

lemma mem_permissions:
  assumes "wf_dict (db_overrides db)"
  shows "p \<in> set (permissions user db) \<longleftrightarrow>
    (case dict_get (db_overrides db) (au_user_id user, p) of Some allowed \<Rightarrow> allowed
     | None \<Rightarrow> \<exists>r. role_rank r \<le> role_rank (au_role user) \<and> p \<in> set (role_permissions r))"
proof -
  let ?F = "\<lambda>ps ((uid, q), allowed). if uid \<noteq> au_user_id user then ps else if allowed then oset_add ps q else filter (\<lambda>x. x \<noteq> q) ps"
  have "p \<in> set (foldl ?F ps ov) \<longleftrightarrow> (case dict_get ov (au_user_id user, p) of Some allowed \<Rightarrow> allowed | None \<Rightarrow> p \<in> set ps)"
    if "wf_dict ov" for ps ov
    using that
  proof (induction ov arbitrary: ps)
    case (Cons x ov)
    obtain u q b where x: "x = ((u, q), b)" by (metis prod.collapse)
    have "dict_get ov (u, q) = None" "wf_dict ov" using Cons.prems by (auto simp: wf_dict_def x map_of_eq_None_iff)
    then show ?case using Cons.IH by (auto simp: x split: option.splits)
  qed simp
  moreover have "p \<in> set (concat (map role_permissions (filter (\<lambda>r. role_rank r \<le> k) [RoleUser, RoleAdmin, RoleMaster]))) \<longleftrightarrow>
      (\<exists>r. role_rank r \<le> k \<and> p \<in> set (role_permissions r))" for k
  proof -
    define rs where "rs = [RoleUser, RoleAdmin, RoleMaster]"
    have "r \<in> set rs" for r by (cases r) (simp_all add: rs_def)
    then show ?thesis unfolding rs_def [symmetric] by auto
  qed
  ultimately show ?thesis using assms by (simp only: permissions_def)
qed

text \<open>
  An administrator can grant a user permissions it does not have itself, such as those of a master: \<^verbatim>\<open>set_permission\<close> compares the
  ranks of the two accounts, not the permission with those of the actor.
\<close>

lemma admin_grants_any_permission:
  assumes "wf_dict (db_overrides db)" "au_role actor = RoleAdmin" "row_of db u = Some r" "ur_role r = RoleUser"
  shows "p \<in> set (permissions (user_from_row r) (fst (set_permission actor u p True db)))"
proof -
  have "ur_user_id r = u" using assms(3) by (rule row_of_id)
  moreover have "fst (set_permission actor u p True db) = db\<lparr>db_overrides := dict_set (db_overrides db) (u, p) True\<rparr>"
    using assms(2-4) by (simp add: set_permission_def effect_defs get_user_def user_from_row_def role_rank_def)
  ultimately show ?thesis using assms(1) by (subst mem_permissions) (auto simp: user_from_row_def)
qed

text \<open>
  Logging out does nothing for a client that identifies itself by a bearer token or an API key: the route deletes the session of the
  cookie, so the token goes on being accepted.
\<close>

lemma bearer_logout_keeps_session:
  assumes "rq_cookie rq = None"
  shows "request_identity cr now' rq (fst (auth_route cr now (Logout rq) srv)) = request_identity cr now' rq srv"
  using assms by (simp add: required_def logout_def split: sum.splits)

section \<open>Witnesses\<close>

definition demo_attempt :: "nat \<Rightarrow> attempt" where
  "demo_attempt i = \<lparr>at_request = demo_browser [], at_username = ''master'', at_password = ''guess'', at_token = ''t'', at_csrf = ''c'', at_now = 0,
     at_check = of_nat i, at_discard = of_nat i, at_append = of_nat i\<rparr>"

theorem login_failures_bounded_witness:
  "\<exists>srv out. login_run demo_crypto (mk_auth_server demo_accounts False) (map demo_attempt [0, 1, 2, 3, 4]) = (srv, out) \<and>
    snd (login demo_crypto (demo_attempt 5) srv) = Inl 429 \<and>
    snd (login demo_crypto ((demo_attempt 5)\<lparr>at_password := ''master-password''\<rparr>) srv) = Inl 429"
proof -
  let ?run = "login_run demo_crypto (mk_auth_server demo_accounts False) (map demo_attempt [0, 1, 2, 3, 4])"
  have five: "5 \<le> length (filter (\<lambda>u. fl (at_check (demo_attempt 5) - 300) \<le> u) (failed_times (at_key (demo_attempt 5)) (snd ?run)))"
    by code_simp
  have clock: "clock_runs (map demo_attempt [0, 1, 2, 3, 4] @ [demo_attempt 5])" by (simp add: clock_runs_def demo_attempt_def)
  obtain srv out where r: "?run = (srv, out)" by fastforce
  from login_failures_bounded [OF clock r, of "''master-password''"] five r show ?thesis by simp
qed

theorem oauth_state_used_once_witness:
  "snd (google_callback demo_crypto ''s'' (Inr (True, ''sub'', ''jane@x'')) ''t2'' ''c2'' 3
     (fst (google_callback demo_crypto ''s'' (Inr (True, ''sub'', ''jane@x'')) ''t'' ''c'' 2
       (auth_run demo_crypto demo_auth_server [(1, GoogleStart (demo_browser []) False ''s'')])))) = Inl 400"
  using oauth_state_used_once [of demo_crypto "''s''" "[]"] by (simp add: auth_run_def)

theorem google_user_created_witness:
  "\<exists>r. create_google_user demo_crypto ''sub'' ''Admin@x'' 1 demo_accounts =
      (demo_accounts\<lparr>db_last_id := db_last_id demo_accounts + 1, db_users := db_users demo_accounts @ [r]\<rparr>, Inr (user_from_row r)) \<and>
    ur_role r = RoleUser"
proof -
  have "3 \<le> length (google_base ''Admin@x'')" "list_all (\<lambda>r. ur_google_sub r \<noteq> Some ''sub'' \<and> ur_user_id r \<le> db_last_id demo_accounts) (db_users demo_accounts)"
    "length (db_users demo_accounts) = 2" by code_simp+
  then show ?thesis using google_user_created [of "''Admin@x''" demo_accounts "''sub''" demo_crypto 1] by (auto simp: list_all_iff)
qed

end
