(* ===== verification/Agent_Jobs.thy ===== *)
theory Agent_Jobs
  imports Prelude
begin

text \<open>
  Background chat jobs of the agent server (\<^verbatim>\<open>tools/src/exo_tools/agent_core/jobs.py\<close>): \<^verbatim>\<open>ChatJobManager\<close> with one queue and one
  worker thread per session and a semaphore over all sessions, and the readers of a job's events. The threads are cut
  where they wait or take a lock; \<open>jobs_next\<close> is one such step. What a turn generates - its events and the exception it
  ends with, if any - is an argument of the step that starts it.
\<close>

section \<open>State\<close>

type_synonym job_event = "string \<times> string"

record chat_job =
  jb_session :: string
  jb_message_id :: string
  jb_events :: "job_event list"
  jb_done :: bool

text \<open>
  A worker thread waits for a job, waits for the semaphore with its job, runs the job's turn, publishes the exception that ended
  it, if one did, marks the job done, and takes its message from the pending ones.
\<close>

datatype job_worker =
    Idle
  | Blocked nat
  | Running nat "job_event list" "string option"
  | Reporting nat string
  | Finishing nat
  | Discarding nat

record job_reader =
  rd_job :: nat
  rd_index :: nat
  rd_yielded :: "job_event list"
  rd_returned :: bool

record jobs_state =
  js_jobs :: "chat_job list"
  js_queues :: "(string, nat list) dict"
  js_workers :: "(string, job_worker) dict"
  js_pending :: "(string, string list) dict"
  js_inference_sem :: nat
  js_readers :: "job_reader list"

definition mk_jobs :: "nat \<Rightarrow> jobs_state" where
  "mk_jobs max_inference = \<lparr>js_jobs = [], js_queues = [], js_workers = [], js_pending = [], js_inference_sem = max_inference, js_readers = []\<rparr>"

section \<open>Jobs\<close>

definition on_job :: "nat \<Rightarrow> (chat_job \<Rightarrow> chat_job) \<Rightarrow> jobs_state \<Rightarrow> jobs_state" where
  "on_job i f s = (if i < length (js_jobs s) then s\<lparr>js_jobs := (js_jobs s)[i := f (js_jobs s ! i)]\<rparr> else s)"

definition publish_event :: "job_event \<Rightarrow> chat_job \<Rightarrow> chat_job" where
  "publish_event e j = j\<lparr>jb_events := jb_events j @ [e]\<rparr>"

definition finish_job :: "chat_job \<Rightarrow> chat_job" where
  "finish_job j = j\<lparr>jb_done := True\<rparr>"

text \<open>\<^verbatim>\<open>submit\<close>, after the turn was prepared: the block under the lock.\<close>

definition submit_job :: "string \<Rightarrow> string \<Rightarrow> jobs_state \<Rightarrow> jobs_state" where
  "submit_job sid mid s =
     (let i = length (js_jobs s) in
      s\<lparr>js_jobs := js_jobs s @ [\<lparr>jb_session = sid, jb_message_id = mid, jb_events = [], jb_done = False\<rparr>],
        js_queues := dict_set (js_queues s) sid (dict_get_default (js_queues s) sid [] @ [i]),
        js_pending := dict_set (js_pending s) sid (oset_add (dict_get_default (js_pending s) sid []) mid),
        js_workers := (if dict_mem sid (js_workers s) then js_workers s else dict_set (js_workers s) sid Idle)\<rparr>)"

definition pending_message_ids :: "string \<Rightarrow> jobs_state \<Rightarrow> string list" where
  "pending_message_ids sid s = sort (dict_get_default (js_pending s) sid [])"

definition has_pending :: "string \<Rightarrow> jobs_state \<Rightarrow> bool" where
  "has_pending sid s \<longleftrightarrow> dict_get_default (js_pending s) sid [] \<noteq> []"

definition discard_pending :: "string \<Rightarrow> string \<Rightarrow> jobs_state \<Rightarrow> jobs_state" where
  "discard_pending sid mid s =
     (case dict_get (js_pending s) sid of
        None \<Rightarrow> s
      | Some pending \<Rightarrow>
          (let pending' = filter (\<lambda>m. m \<noteq> mid) pending in
           s\<lparr>js_pending := (if pending' = [] then dict_del (js_pending s) sid else dict_set (js_pending s) sid pending')\<rparr>))"

section \<open>Workers\<close>

definition set_worker :: "string \<Rightarrow> job_worker \<Rightarrow> jobs_state \<Rightarrow> jobs_state" where
  "set_worker sid w s = s\<lparr>js_workers := dict_set (js_workers s) sid w\<rparr>"

definition take_job :: "string \<Rightarrow> jobs_state \<Rightarrow> jobs_state option" where
  "take_job sid s =
     (case (dict_get (js_workers s) sid, dict_get_default (js_queues s) sid []) of
        (Some Idle, i # q) \<Rightarrow> Some (set_worker sid (Blocked i) (s\<lparr>js_queues := dict_set (js_queues s) sid q\<rparr>))
      | _ \<Rightarrow> None)"

definition start_job :: "string \<Rightarrow> job_event list \<Rightarrow> string option \<Rightarrow> jobs_state \<Rightarrow> jobs_state option" where
  "start_job sid evs err s =
     (case dict_get (js_workers s) sid of
        Some (Blocked i) \<Rightarrow>
          if js_inference_sem s = 0 then None
          else Some (set_worker sid (Running i evs err) (s\<lparr>js_inference_sem := js_inference_sem s - 1\<rparr>))
      | _ \<Rightarrow> None)"

text \<open>
  One turn of the loop over the generator; at its end the semaphore is released. An exception is published after that.
\<close>

definition run_job :: "string \<Rightarrow> jobs_state \<Rightarrow> jobs_state option" where
  "run_job sid s =
     (case dict_get (js_workers s) sid of
        Some (Running i (e # evs) err) \<Rightarrow> Some (set_worker sid (Running i evs err) (on_job i (publish_event e) s))
      | Some (Running i [] err) \<Rightarrow>
          Some (set_worker sid (case err of None \<Rightarrow> Finishing i | Some msg \<Rightarrow> Reporting i msg)
            (s\<lparr>js_inference_sem := js_inference_sem s + 1\<rparr>))
      | Some (Reporting i msg) \<Rightarrow> Some (set_worker sid (Finishing i) (on_job i (publish_event (''error'', msg)) s))
      | _ \<Rightarrow> None)"

text \<open>
  The \<^verbatim>\<open>finally\<close> block: under the job's own lock the job is marked done, later, under the manager's lock, its message is taken
  from the pending ones; then the worker is ready for the next job.
\<close>

definition end_job :: "string \<Rightarrow> jobs_state \<Rightarrow> jobs_state option" where
  "end_job sid s =
     (case dict_get (js_workers s) sid of
        Some (Finishing i) \<Rightarrow>
          Some (set_worker sid (Discarding i) (on_job i finish_job s))
      | _ \<Rightarrow> None)"

definition leave_job :: "string \<Rightarrow> jobs_state \<Rightarrow> jobs_state option" where
  "leave_job sid s =
     (case dict_get (js_workers s) sid of
        Some (Discarding i) \<Rightarrow> Some (set_worker sid Idle (discard_pending sid (jb_message_id (js_jobs s ! i)) s))
      | _ \<Rightarrow> None)"

section \<open>Readers\<close>

text \<open>
  One turn of the loop of \<^verbatim>\<open>ChatJob.stream\<close>: with new events or at the end, or, after 15 seconds without either, for a
  heartbeat. The comparison after the lock was released is part of the step: a job that is done gets no more events.
\<close>

definition open_reader :: "nat \<Rightarrow> jobs_state \<Rightarrow> jobs_state" where
  "open_reader i s = s\<lparr>js_readers := js_readers s @ [\<lparr>rd_job = i, rd_index = 0, rd_yielded = [], rd_returned = False\<rparr>]\<rparr>"

definition read_events :: "nat \<Rightarrow> bool \<Rightarrow> jobs_state \<Rightarrow> jobs_state option" where
  "read_events k timed_out s =
     (let r = js_readers s ! k; j = js_jobs s ! rd_job r in
      if length (js_readers s) \<le> k \<or> length (js_jobs s) \<le> rd_job r \<or> rd_returned r then None
      else if length (jb_events j) \<le> rd_index r \<and> \<not> jb_done j
      then if timed_out then Some (s\<lparr>js_readers := (js_readers s)[k := r\<lparr>rd_yielded := rd_yielded r @ [(''heartbeat'', [])]\<rparr>]\<rparr>) else None
      else Some (s\<lparr>js_readers := (js_readers s)[k := r\<lparr>rd_yielded := rd_yielded r @ drop (rd_index r) (jb_events j),
             rd_index := length (jb_events j), rd_returned := jb_done j\<rparr>]\<rparr>))"

section \<open>Steps\<close>

datatype jobs_label =
    JSubmit string string
  | JTake string
  | JStart string "job_event list" "string option"
  | JRun string
  | JEnd string
  | JLeave string
  | JOpen nat
  | JRead nat bool

fun jobs_next :: "jobs_label \<Rightarrow> jobs_state \<Rightarrow> jobs_state option" where
  "jobs_next (JSubmit sid mid) s = Some (submit_job sid mid s)"
| "jobs_next (JTake sid) s = take_job sid s"
| "jobs_next (JStart sid evs err) s = start_job sid evs err s"
| "jobs_next (JRun sid) s = run_job sid s"
| "jobs_next (JEnd sid) s = end_job sid s"
| "jobs_next (JLeave sid) s = leave_job sid s"
| "jobs_next (JOpen i) s = (if i < length (js_jobs s) then Some (open_reader i s) else None)"
| "jobs_next (JRead k timed_out) s = read_events k timed_out s"

fun jobs_exec :: "jobs_label list \<Rightarrow> jobs_state \<Rightarrow> jobs_state option" where
  "jobs_exec [] s = Some s"
| "jobs_exec (l # ls) s = Option.bind (jobs_next l s) (jobs_exec ls)"

lemma jobs_exec_append: "jobs_exec (ls @ ls') s = Option.bind (jobs_exec ls s) (jobs_exec ls')"
proof (induction ls arbitrary: s)
  case (Cons l ls)
  then show ?case by (cases "jobs_next l s") simp_all
qed simp

section \<open>Invariant\<close>

definition worker_of :: "string \<Rightarrow> jobs_state \<Rightarrow> job_worker" where
  "worker_of sid s = dict_get_default (js_workers s) sid Idle"

definition queue_of :: "string \<Rightarrow> jobs_state \<Rightarrow> nat list" where
  "queue_of sid s = dict_get_default (js_queues s) sid []"

fun current_job :: "job_worker \<Rightarrow> nat list" where
  "current_job Idle = []"
| "current_job (Blocked i) = [i]"
| "current_job (Running i _ _) = [i]"
| "current_job (Reporting i _) = [i]"
| "current_job (Finishing i) = [i]"
| "current_job (Discarding i) = []"

text \<open>The job that is done while its message is still pending.\<close>

fun discarding :: "job_worker \<Rightarrow> nat list" where
  "discarding (Discarding i) = [i]"
| "discarding _ = []"

fun is_running :: "job_worker \<Rightarrow> bool" where
  "is_running (Running _ _ _) = True"
| "is_running _ = False"

definition undone :: "string \<Rightarrow> chat_job list \<Rightarrow> nat list" where
  "undone sid js = filter (\<lambda>i. jb_session (js ! i) = sid \<and> \<not> jb_done (js ! i)) [0..<length js]"

definition real_events :: "job_event list \<Rightarrow> job_event list" where
  "real_events evs = filter (\<lambda>e. fst e \<noteq> ''heartbeat'') evs"

definition reader_ok :: "chat_job list \<Rightarrow> job_reader \<Rightarrow> bool" where
  "reader_ok js r \<longleftrightarrow>
     rd_job r < length js \<and> rd_index r \<le> length (jb_events (js ! rd_job r)) \<and>
     real_events (rd_yielded r) = real_events (take (rd_index r) (jb_events (js ! rd_job r))) \<and>
     (rd_returned r \<longrightarrow> jb_done (js ! rd_job r) \<and> rd_index r = length (jb_events (js ! rd_job r)))"

definition jobs_inv :: "nat \<Rightarrow> jobs_state \<Rightarrow> bool" where
  "jobs_inv n s \<longleftrightarrow>
     (\<forall>sid. undone sid (js_jobs s) = current_job (worker_of sid s) @ queue_of sid s) \<and>
     (\<forall>i j. i < j \<and> j < length (js_jobs s) \<and> jb_session (js_jobs s ! i) = jb_session (js_jobs s ! j) \<and> jb_done (js_jobs s ! j) \<longrightarrow> jb_done (js_jobs s ! i)) \<and>
     (\<forall>sid. set (dict_get_default (js_pending s) sid []) = (\<lambda>i. jb_message_id (js_jobs s ! i)) ` set (undone sid (js_jobs s) @ discarding (worker_of sid s))) \<and>
     distinct (map jb_message_id (js_jobs s)) \<and>
     wf_dict (js_workers s) \<and> js_inference_sem s + length (filter is_running (dict_values (js_workers s))) = n \<and>
     list_all (reader_ok (js_jobs s)) (js_readers s) \<and>
     (\<forall>sid. \<forall>i \<in> set (discarding (worker_of sid s)). i < length (js_jobs s) \<and> jb_session (js_jobs s ! i) = sid \<and> jb_done (js_jobs s ! i))"

lemma jobs_invD:
  assumes "jobs_inv n s"
  shows "undone sid (js_jobs s) = current_job (worker_of sid s) @ queue_of sid s"
    "i < j \<Longrightarrow> j < length (js_jobs s) \<Longrightarrow> jb_session (js_jobs s ! i) = jb_session (js_jobs s ! j) \<Longrightarrow> jb_done (js_jobs s ! j) \<Longrightarrow> jb_done (js_jobs s ! i)"
    "set (dict_get_default (js_pending s) sid []) = (\<lambda>i. jb_message_id (js_jobs s ! i)) ` set (undone sid (js_jobs s) @ discarding (worker_of sid s))"
    "distinct (map jb_message_id (js_jobs s))" "wf_dict (js_workers s)"
    "js_inference_sem s + length (filter is_running (dict_values (js_workers s))) = n" "list_all (reader_ok (js_jobs s)) (js_readers s)"
    "i \<in> set (discarding (worker_of sid s)) \<Longrightarrow> i < length (js_jobs s) \<and> jb_session (js_jobs s ! i) = sid \<and> jb_done (js_jobs s ! i)"
  using assms unfolding jobs_inv_def by blast+

lemma jobs_invI:
  assumes "\<And>sid. undone sid (js_jobs s) = current_job (worker_of sid s) @ queue_of sid s"
    "\<And>i j. i < j \<Longrightarrow> j < length (js_jobs s) \<Longrightarrow> jb_session (js_jobs s ! i) = jb_session (js_jobs s ! j) \<Longrightarrow> jb_done (js_jobs s ! j) \<Longrightarrow> jb_done (js_jobs s ! i)"
    "\<And>sid. set (dict_get_default (js_pending s) sid []) = (\<lambda>i. jb_message_id (js_jobs s ! i)) ` set (undone sid (js_jobs s) @ discarding (worker_of sid s))"
    "distinct (map jb_message_id (js_jobs s))" "wf_dict (js_workers s)"
    "js_inference_sem s + length (filter is_running (dict_values (js_workers s))) = n" "list_all (reader_ok (js_jobs s)) (js_readers s)"
    "\<And>sid i. i \<in> set (discarding (worker_of sid s)) \<Longrightarrow> i < length (js_jobs s) \<and> jb_session (js_jobs s ! i) = sid \<and> jb_done (js_jobs s ! i)"
  shows "jobs_inv n s"
  using assms unfolding jobs_inv_def by blast

lemma mem_undone: "i \<in> set (undone sid js) \<longleftrightarrow> i < length js \<and> jb_session (js ! i) = sid \<and> \<not> jb_done (js ! i)"
  by (auto simp: undone_def)

lemma distinct_undone: "distinct (undone sid js)" "sorted (undone sid js)"
  by (simp_all add: undone_def sorted_wrt_filter)

lemma undone_snoc: "undone sid (js @ [j]) = undone sid js @ (if jb_session j = sid \<and> \<not> jb_done j then [length js] else [])"
  by (auto simp: undone_def nth_append intro: filter_cong)

lemma undone_update: "i < length js \<Longrightarrow> jb_session j = jb_session (js ! i) \<Longrightarrow> jb_done j = jb_done (js ! i) \<Longrightarrow> undone sid (js[i := j]) = undone sid js"
  by (auto simp: undone_def nth_list_update intro!: filter_cong)

lemma undone_finish: "i < length js \<Longrightarrow> undone sid (js[i := finish_job (js ! i)]) = filter (\<lambda>k. k \<noteq> i) (undone sid js)"
  by (auto simp: undone_def finish_job_def nth_list_update filter_filter intro!: filter_cong)

lemma count_values_update:
  "wf_dict d \<Longrightarrow> dict_get d k = Some v \<Longrightarrow>
     length (filter P (dict_values (dict_set d k v'))) + (if P v then 1 else 0) = length (filter P (dict_values d)) + (if P v' then 1 else 0)"
proof (induction d)
  case (Cons x d)
  then show ?case by (cases x) (auto simp: wf_dict_def)
qed simp

lemma reader_snoc: "reader_ok js r \<Longrightarrow> reader_ok (js @ [j]) r"
  by (auto simp: reader_ok_def nth_append)

lemma reader_publish:
  "reader_ok js r \<Longrightarrow> i < length js \<Longrightarrow> \<not> jb_done (js ! i) \<Longrightarrow> reader_ok (js[i := publish_event e (js ! i)]) r"
  by (cases "rd_job r = i") (auto simp: reader_ok_def publish_event_def)

lemma reader_finish: "reader_ok js r \<Longrightarrow> i < length js \<Longrightarrow> reader_ok (js[i := finish_job (js ! i)]) r"
  by (cases "rd_job r = i") (auto simp: reader_ok_def finish_job_def)

lemma worker_set [simp]: "worker_of sid' (set_worker sid w s) = (if sid' = sid then w else worker_of sid' s)"
  "queue_of sid' (set_worker sid w s) = queue_of sid' s" "js_jobs (set_worker sid w s) = js_jobs s" "js_pending (set_worker sid w s) = js_pending s"
  "js_inference_sem (set_worker sid w s) = js_inference_sem s" "js_readers (set_worker sid w s) = js_readers s"
  "js_workers (set_worker sid w s) = dict_set (js_workers s) sid w"
  by (simp_all add: worker_of_def queue_of_def set_worker_def dict_get_default_def)

lemma on_job_simps [simp]: "worker_of sid (on_job i f s) = worker_of sid s" "queue_of sid (on_job i f s) = queue_of sid s"
  "js_pending (on_job i f s) = js_pending s" "js_workers (on_job i f s) = js_workers s" "js_inference_sem (on_job i f s) = js_inference_sem s"
  "js_readers (on_job i f s) = js_readers s"
  by (simp_all add: on_job_def worker_of_def queue_of_def)

text \<open>A worker that changes its phase, keeping its job or taking it from the queue.\<close>

lemma inv_worker:
  assumes "jobs_inv n s" "dict_get (js_workers s) sid = Some w" "\<And>sid'. queue_of sid' s' = (if sid' = sid then q else queue_of sid' s)"
    and "current_job w' @ q = current_job w @ queue_of sid s" "js_workers s' = dict_set (js_workers s) sid w'" "js_jobs s' = js_jobs s" "js_pending s' = js_pending s"
    and "js_readers s' = js_readers s" "js_inference_sem s' + (if is_running w' then 1 else 0) = js_inference_sem s + (if is_running w then 1 else 0)"
    and "discarding w' = discarding w"
  shows "jobs_inv n s'"
proof -
  have w: "worker_of sid' s' = (if sid' = sid then w' else worker_of sid' s)" "worker_of sid s = w" for sid'
    using assms(2,5) by (simp_all add: worker_of_def dict_get_default_def)
  have disc: "discarding (worker_of sid' s') = discarding (worker_of sid' s)" for sid' using w assms(10) by simp
  have "undone sid' (js_jobs s) = current_job (worker_of sid' s') @ queue_of sid' s'" for sid'
    using jobs_invD(1) [OF assms(1), of sid'] assms(3,4) w by auto
  moreover have "wf_dict (js_workers s')" using jobs_invD(5) [OF assms(1)] assms(5) by auto
  moreover have "js_inference_sem s' + length (filter is_running (dict_values (js_workers s'))) = n"
    using count_values_update [OF jobs_invD(5) [OF assms(1)] assms(2), of is_running w'] jobs_invD(6) [OF assms(1)] assms(5,9) by simp
  ultimately show ?thesis using assms(1) unfolding jobs_inv_def assms(6-8) disc by blast
qed

lemma inv_submit:
  assumes "jobs_inv n s" "mid \<notin> jb_message_id ` set (js_jobs s)"
  shows "jobs_inv n (submit_job sid mid s)"
proof -
  let ?s = "submit_job sid mid s" let ?j = "\<lparr>jb_session = sid, jb_message_id = mid, jb_events = [], jb_done = False\<rparr>"
  note inv = jobs_invD [OF assms(1)]
  have js: "js_jobs ?s = js_jobs s @ [?j]" by (simp add: submit_job_def Let_def)
  have wk: "worker_of sid' ?s = worker_of sid' s" for sid'
    by (auto simp: submit_job_def Let_def worker_of_def dict_get_default_def split: option.splits)
  have q: "queue_of sid' ?s = queue_of sid' s @ (if sid' = sid then [length (js_jobs s)] else [])" for sid'
    by (simp add: submit_job_def Let_def queue_of_def dict_get_default_def)
  have "undone sid' (js_jobs ?s) = current_job (worker_of sid' ?s) @ queue_of sid' ?s" for sid'
    by (simp add: js undone_snoc wk q inv(1))
  moreover have "jb_done (js_jobs ?s ! i)"
    if "i < j" "j < length (js_jobs ?s)" "jb_session (js_jobs ?s ! i) = jb_session (js_jobs ?s ! j)" "jb_done (js_jobs ?s ! j)" for i j
    using that inv(2) [of i j] by (auto simp: js nth_append less_Suc_eq)
  moreover have "set (dict_get_default (js_pending ?s) sid' []) = (\<lambda>i. jb_message_id (js_jobs ?s ! i)) ` set (undone sid' (js_jobs ?s) @ discarding (worker_of sid' ?s))"
    for sid'
  proof -
    have "(\<lambda>i. jb_message_id (js_jobs ?s ! i)) ` set (undone sid' (js_jobs s) @ discarding (worker_of sid' s)) =
        (\<lambda>i. jb_message_id (js_jobs s ! i)) ` set (undone sid' (js_jobs s) @ discarding (worker_of sid' s))"
      by (rule image_cong) (use inv(8) in \<open>auto simp: js nth_append mem_undone\<close>)
    moreover have "set (dict_get_default (js_pending ?s) sid' []) = set (dict_get_default (js_pending s) sid' []) \<union> (if sid' = sid then {mid} else {})"
      by (auto simp: submit_job_def Let_def dict_get_default_def)
    ultimately show ?thesis using inv(3) [of sid'] by (auto simp: js undone_snoc nth_append wk)
  qed
  moreover have "distinct (map jb_message_id (js_jobs ?s))" using inv(4) assms(2) by (auto simp: js)
  moreover have "wf_dict (js_workers ?s)" using inv(5) by (auto simp: submit_job_def Let_def)
  moreover have "js_inference_sem ?s + length (filter is_running (dict_values (js_workers ?s))) = n"
    using inv(6) by (auto simp: submit_job_def Let_def dict_keys_set_absent)
  moreover have "list_all (reader_ok (js_jobs ?s)) (js_readers ?s)"
    using inv(7) by (auto simp: js list_all_iff intro: reader_snoc) (auto simp: submit_job_def Let_def intro: reader_snoc)
  moreover have "i < length (js_jobs ?s) \<and> jb_session (js_jobs ?s ! i) = sid' \<and> jb_done (js_jobs ?s ! i)" if "i \<in> set (discarding (worker_of sid' ?s))" for sid' i
    using inv(8) [of i sid'] that by (simp add: wk js nth_append)
  ultimately show ?thesis unfolding jobs_inv_def by blast
qed

lemma inv_publish:
  assumes "jobs_inv n s" "i < length (js_jobs s)" "\<not> jb_done (js_jobs s ! i)"
  shows "jobs_inv n (on_job i (publish_event e) s)"
proof -
  let ?s = "on_job i (publish_event e) s"
  note inv = jobs_invD [OF assms(1)]
  have js: "js_jobs ?s = (js_jobs s)[i := publish_event e (js_jobs s ! i)]" using assms(2) by (simp add: on_job_def)
  have same: "jb_session (js_jobs ?s ! k) = jb_session (js_jobs s ! k) \<and> jb_done (js_jobs ?s ! k) = jb_done (js_jobs s ! k) \<and>
      jb_message_id (js_jobs ?s ! k) = jb_message_id (js_jobs s ! k)" for k
    using assms(2) by (cases "k = i") (auto simp: js publish_event_def)
  have u: "undone sid (js_jobs ?s) = undone sid (js_jobs s)" for sid using assms(2) by (simp add: js undone_update publish_event_def)
  have ids: "map jb_message_id (js_jobs ?s) = map jb_message_id (js_jobs s)" using same by (intro nth_equalityI) (auto simp: js)
  show ?thesis
  proof (rule jobs_invI)
    show "list_all (reader_ok (js_jobs ?s)) (js_readers ?s)" using inv(7) assms(2,3) by (auto simp: js list_all_iff intro: reader_publish)
    show "jb_done (js_jobs ?s ! a)"
      if "a < b" "b < length (js_jobs ?s)" "jb_session (js_jobs ?s ! a) = jb_session (js_jobs ?s ! b)" "jb_done (js_jobs ?s ! b)" for a b
      using that inv(2) [of a b] same by (simp add: js)
    show "set (dict_get_default (js_pending ?s) sid []) = (\<lambda>k. jb_message_id (js_jobs ?s ! k)) ` set (undone sid (js_jobs ?s) @ discarding (worker_of sid ?s))" for sid
      using inv(3) [of sid] same by (simp add: u)
    show "k < length (js_jobs ?s) \<and> jb_session (js_jobs ?s ! k) = sid \<and> jb_done (js_jobs ?s ! k)" if "k \<in> set (discarding (worker_of sid ?s))" for sid k
      using inv(8) [of k sid] that same by (simp add: js)
    show "distinct (map jb_message_id (js_jobs ?s))" using inv(4) by (simp only: ids)
    show "undone sid (js_jobs ?s) = current_job (worker_of sid ?s) @ queue_of sid ?s" for sid using inv(1) [of sid] by (simp add: u)
    show "js_inference_sem ?s + length (filter is_running (dict_values (js_workers ?s))) = n" using inv(6) by simp
  qed (use inv(5) in simp)
qed

lemma current_undone: "jobs_inv n s \<Longrightarrow> dict_get (js_workers s) sid = Some w \<Longrightarrow> i \<in> set (current_job w) \<Longrightarrow> i \<in> set (undone sid (js_jobs s))"
  using jobs_invD(1) [of n s sid] by (simp add: worker_of_def dict_get_default_def)

lemma inv_end:
  assumes "jobs_inv n s" "end_job sid s = Some s'"
  shows "jobs_inv n s'"
proof -
  note inv = jobs_invD [OF assms(1)]
  obtain i where i: "dict_get (js_workers s) sid = Some (Finishing i)"
    and s': "s' = set_worker sid (Discarding i) (on_job i finish_job s)"
    using assms(2) by (auto simp: end_job_def split: option.splits job_worker.splits)
  have u: "undone sid (js_jobs s) = i # queue_of sid s" using inv(1) [of sid] i by (simp add: worker_of_def dict_get_default_def)
  then have mem: "i < length (js_jobs s)" "jb_session (js_jobs s ! i) = sid" "\<not> jb_done (js_jobs s ! i)"
    using mem_undone [of i sid "js_jobs s"] by auto
  have js: "js_jobs s' = (js_jobs s)[i := finish_job (js_jobs s ! i)]" using mem(1) by (simp add: s' on_job_def)
  have und: "undone sid' (js_jobs s') = (if sid' = sid then queue_of sid s else undone sid' (js_jobs s))" for sid'
  proof (cases "sid' = sid")
    case True
    then show ?thesis using distinct_undone(1) [of sid "js_jobs s"] unfolding js undone_finish [OF mem(1)] u True by (auto simp: filter_id_conv)
  next
    case False
    then have "i \<notin> set (undone sid' (js_jobs s))" using mem(2) by (auto simp: mem_undone)
    then show ?thesis using False unfolding js undone_finish [OF mem(1)] by (auto simp: filter_id_conv)
  qed
  have same: "jb_session (js_jobs s' ! k) = jb_session (js_jobs s ! k) \<and> jb_message_id (js_jobs s' ! k) = jb_message_id (js_jobs s ! k) \<and>
      (jb_done (js_jobs s' ! k) \<longleftrightarrow> k = i \<or> jb_done (js_jobs s ! k))" for k
    using mem(1) by (cases "k = i") (auto simp: js finish_job_def)
  have 1: "undone sid' (js_jobs s') = current_job (worker_of sid' s') @ queue_of sid' s'" for sid'
    unfolding und using inv(1) [of sid'] by (simp add: s')
  have 2: "jb_done (js_jobs s' ! a)" if "a < b" "b < length (js_jobs s')" "jb_session (js_jobs s' ! a) = jb_session (js_jobs s' ! b)" "jb_done (js_jobs s' ! b)" for a b
  proof (cases "b = i")
    case True
    have "jb_done (js_jobs s ! a)"
    proof (rule ccontr)
      assume "\<not> jb_done (js_jobs s ! a)"
      then have "a \<in> set (undone sid (js_jobs s))" using that same mem True by (auto simp: mem_undone js finish_job_def)
      then show False using u distinct_undone(2) [of sid "js_jobs s"] that(1) True by auto
    qed
    then show ?thesis using same by blast
  next
    case False
    then show ?thesis using that same inv(2) [of a b] by (auto simp: js)
  qed
  have idle: "discarding (worker_of sid s) = []" using i by (simp add: worker_of_def dict_get_default_def)
  have 3: "set (dict_get_default (js_pending s') sid' []) = (\<lambda>k. jb_message_id (js_jobs s' ! k)) ` set (undone sid' (js_jobs s') @ discarding (worker_of sid' s'))" for sid'
  proof -
    have "js_pending s' = js_pending s" "discarding (worker_of sid' s') = (if sid' = sid then [i] else discarding (worker_of sid' s))"
      by (simp_all add: s')
    moreover have "jb_message_id (js_jobs s' ! k) = jb_message_id (js_jobs s ! k)" for k using same by simp
    ultimately show ?thesis using inv(3) [of sid'] u idle by (simp add: und)
  qed
  have 8: "k < length (js_jobs s') \<and> jb_session (js_jobs s' ! k) = sid' \<and> jb_done (js_jobs s' ! k)" if "k \<in> set (discarding (worker_of sid' s'))" for sid' k
    using that inv(8) [of k sid'] mem same by (auto simp: s' split: if_splits) (auto simp: on_job_def)
  have 4: "map jb_message_id (js_jobs s') = map jb_message_id (js_jobs s)" using same by (intro nth_equalityI) (auto simp: js)
  have 5: "js_inference_sem s' + length (filter is_running (dict_values (js_workers s'))) = n"
    using count_values_update [OF inv(5) i, of is_running "Discarding i"] inv(6) by (simp add: s')
  have rd: "js_readers s' = js_readers s" by (simp add: s')
  have 6: "list_all (reader_ok (js_jobs s')) (js_readers s')" using inv(7) reader_finish [OF _ mem(1)] rd by (simp add: list_all_iff js)
  have 7: "wf_dict (js_workers s')" using inv(5) by (auto simp: s')
  show ?thesis by (rule jobs_invI) (fact 1, fact 2, fact 3, use 4 inv(4) in simp, fact 7, fact 5, fact 6, fact 8)
qed

lemma discard_pending_simps [simp]: "js_jobs (discard_pending a b t) = js_jobs t" "js_workers (discard_pending a b t) = js_workers t"
  "queue_of c (discard_pending a b t) = queue_of c t" "js_readers (discard_pending a b t) = js_readers t"
  "js_inference_sem (discard_pending a b t) = js_inference_sem t" "worker_of c (discard_pending a b t) = worker_of c t"
  by (auto simp: discard_pending_def Let_def queue_of_def worker_of_def split: option.splits)

lemma pending_discard: "set (dict_get_default (js_pending (discard_pending sid m s)) sid' []) =
    set (dict_get_default (js_pending s) sid' []) - (if sid' = sid then {m} else {})"
  by (auto simp: discard_pending_def Let_def dict_get_default_def filter_empty_conv split: option.splits)

lemma inv_leave:
  assumes "jobs_inv n s" "leave_job sid s = Some s'"
  shows "jobs_inv n s'"
proof -
  note inv = jobs_invD [OF assms(1)]
  obtain i where i: "dict_get (js_workers s) sid = Some (Discarding i)"
    and s': "s' = set_worker sid Idle (discard_pending sid (jb_message_id (js_jobs s ! i)) s)"
    using assms(2) by (auto simp: leave_job_def split: option.splits job_worker.splits)
  have w: "worker_of sid s = Discarding i" using i by (simp add: worker_of_def dict_get_default_def)
  have dn: "i < length (js_jobs s)" "jb_done (js_jobs s ! i)" using inv(8) [of i sid] by (simp_all add: w)
  have "jb_message_id (js_jobs s ! k) \<noteq> jb_message_id (js_jobs s ! i)" if "k \<in> set (undone sid (js_jobs s))" for k
  proof -
    have "k \<noteq> i" "k < length (js_jobs s)" using that dn mem_undone [of k sid "js_jobs s"] by auto
    then show ?thesis using inv(4) dn(1) by (auto simp: distinct_conv_nth)
  qed
  then have 3: "set (dict_get_default (js_pending s') sid' []) = (\<lambda>k. jb_message_id (js_jobs s' ! k)) ` set (undone sid' (js_jobs s') @ discarding (worker_of sid' s'))" for sid'
    using inv(3) [of sid'] by (auto simp: s' pending_discard w)
  have 1: "undone sid' (js_jobs s') = current_job (worker_of sid' s') @ queue_of sid' s'" for sid'
    using inv(1) [of sid'] by (auto simp: s' w)
  have 5: "js_inference_sem s' + length (filter is_running (dict_values (js_workers s'))) = n"
    using count_values_update [OF inv(5) i, of is_running Idle] inv(6) by (simp add: s')
  have 8: "k < length (js_jobs s') \<and> jb_session (js_jobs s' ! k) = sid' \<and> jb_done (js_jobs s' ! k)" if "k \<in> set (discarding (worker_of sid' s'))" for sid' k
    using that inv(8) [of k sid'] by (simp add: s' split: if_splits)
  have js: "js_jobs s' = js_jobs s" "js_readers s' = js_readers s" by (simp_all add: s')
  show ?thesis
  proof (rule jobs_invI)
    show "wf_dict (js_workers s')" using inv(5) by (auto simp: s')
    show "jb_done (js_jobs s' ! a)"
      if "a < b" "b < length (js_jobs s')" "jb_session (js_jobs s' ! a) = jb_session (js_jobs s' ! b)" "jb_done (js_jobs s' ! b)" for a b
      using inv(2) [of a b] that by (simp add: js)
  qed (fact 1, fact 3, use inv(4) in \<open>simp add: js\<close>, fact 5, use inv(7) in \<open>simp add: js\<close>, fact 8)
qed

lemma inv_readers: "jobs_inv n s \<Longrightarrow> list_all (reader_ok (js_jobs s)) rs \<Longrightarrow> jobs_inv n (s\<lparr>js_readers := rs\<rparr>)"
  using jobs_invD [of n s] by (intro jobs_invI) (auto simp: worker_of_def queue_of_def)

lemma inv_read:
  assumes "jobs_inv n s" "read_events k timed_out s = Some s'"
  shows "jobs_inv n s'"
proof -
  let ?r = "js_readers s ! k"
  have k: "k < length (js_readers s)" "\<not> rd_returned ?r" using assms(2) by (auto simp: read_events_def Let_def split: if_splits)
  have ok: "reader_ok (js_jobs s) ?r" using jobs_invD(7) [OF assms(1)] k(1) by (simp add: list_all_length)
  obtain r' where r': "s' = s\<lparr>js_readers := (js_readers s)[k := r']\<rparr>" "reader_ok (js_jobs s) r'"
  proof (cases "length (jb_events (js_jobs s ! rd_job ?r)) \<le> rd_index ?r \<and> \<not> jb_done (js_jobs s ! rd_job ?r)")
    case True
    then have "s' = s\<lparr>js_readers := (js_readers s)[k := ?r\<lparr>rd_yielded := rd_yielded ?r @ [(''heartbeat'', [])]\<rparr>]\<rparr>"
      using assms(2) by (auto simp: read_events_def Let_def split: if_splits)
    moreover have "reader_ok (js_jobs s) (?r\<lparr>rd_yielded := rd_yielded ?r @ [(''heartbeat'', [])]\<rparr>)"
      using ok by (simp add: reader_ok_def real_events_def)
    ultimately show ?thesis by (rule that)
  next
    case False
    let ?j = "js_jobs s ! rd_job ?r"
    let ?r' = "?r\<lparr>rd_yielded := rd_yielded ?r @ drop (rd_index ?r) (jb_events ?j), rd_index := length (jb_events ?j), rd_returned := jb_done ?j\<rparr>"
    have "s' = s\<lparr>js_readers := (js_readers s)[k := ?r']\<rparr>"
      using assms(2) False by (auto simp: read_events_def Let_def split: if_splits)
    moreover have "real_events (jb_events ?j) = real_events (take (rd_index ?r) (jb_events ?j)) @ real_events (drop (rd_index ?r) (jb_events ?j))"
      unfolding real_events_def filter_append [symmetric] by simp
    then have "reader_ok (js_jobs s) ?r'" using ok by (simp add: reader_ok_def real_events_def)
    ultimately show ?thesis by (rule that)
  qed
  then have "list_all (reader_ok (js_jobs s)) (js_readers s')"
    using jobs_invD(7) [OF assms(1)] by (auto simp: list_all_iff dest!: set_update_subset_insert [THEN subsetD])
  then show ?thesis using inv_readers [OF assms(1), of "js_readers s'"] r'(1) by simp
qed

fun fresh_label :: "jobs_state \<Rightarrow> jobs_label \<Rightarrow> bool" where
  "fresh_label s (JSubmit sid mid) = (mid \<notin> jb_message_id ` set (js_jobs s))"
| "fresh_label s _ = True"

lemma inv_next:
  assumes "jobs_inv n s" "jobs_next l s = Some s'" "fresh_label s l"
  shows "jobs_inv n s'"
proof (cases l)
  case (JSubmit sid mid)
  then show ?thesis using inv_submit assms by auto
next
  case (JTake sid)
  then obtain i q where w: "dict_get (js_workers s) sid = Some Idle" "dict_get_default (js_queues s) sid [] = i # q"
    and s': "s' = set_worker sid (Blocked i) (s\<lparr>js_queues := dict_set (js_queues s) sid q\<rparr>)"
    using assms(2) by (auto simp: take_job_def split: option.splits job_worker.splits list.splits)
  show ?thesis
    by (rule inv_worker [OF assms(1) w(1), where q = q and w' = "Blocked i"])
      (use w(2) in \<open>simp_all add: s' queue_of_def dict_get_default_def set_worker_def\<close>)
next
  case (JStart sid evs err)
  then obtain i where w: "dict_get (js_workers s) sid = Some (Blocked i)" "js_inference_sem s \<noteq> 0"
    and s': "s' = set_worker sid (Running i evs err) (s\<lparr>js_inference_sem := js_inference_sem s - 1\<rparr>)"
    using assms(2) by (auto simp: start_job_def split: option.splits job_worker.splits if_splits)
  show ?thesis
    by (rule inv_worker [OF assms(1) w(1), where q = "queue_of sid s" and w' = "Running i evs err"])
      (use w(2) in \<open>simp_all add: s' queue_of_def set_worker_def\<close>)
next
  case (JRun sid)
  then consider (run) i e evs err where "dict_get (js_workers s) sid = Some (Running i (e # evs) err)" "s' = set_worker sid (Running i evs err) (on_job i (publish_event e) s)"
    | (ran) i err w' where "dict_get (js_workers s) sid = Some (Running i [] err)" "w' = (case err of None \<Rightarrow> Finishing i | Some msg \<Rightarrow> Reporting i msg)"
        "s' = set_worker sid w' (s\<lparr>js_inference_sem := js_inference_sem s + 1\<rparr>)"
    | (report) i msg where "dict_get (js_workers s) sid = Some (Reporting i msg)" "s' = set_worker sid (Finishing i) (on_job i (publish_event (''error'', msg)) s)"
    using assms(2) by (auto simp: run_job_def split: option.splits job_worker.splits list.splits)
  then show ?thesis
  proof cases
    case run
    then have "i < length (js_jobs s)" "\<not> jb_done (js_jobs s ! i)" using current_undone [OF assms(1) run(1), of i] by (auto simp: mem_undone)
    then show ?thesis
      by (rule inv_worker [OF inv_publish [OF assms(1)], where sid = sid and w = "Running i (e # evs) err" and q = "queue_of sid s" and w' = "Running i evs err"])
        (use run in simp_all)
  next
    case ran
    then show ?thesis
      by (intro inv_worker [OF assms(1) ran(1), where q = "queue_of sid s" and w' = w']) (auto simp: queue_of_def set_worker_def split: option.splits)
  next
    case report
    then have "i < length (js_jobs s)" "\<not> jb_done (js_jobs s ! i)" using current_undone [OF assms(1) report(1), of i] by (auto simp: mem_undone)
    then show ?thesis
      by (rule inv_worker [OF inv_publish [OF assms(1)], where sid = sid and w = "Reporting i msg" and q = "queue_of sid s" and w' = "Finishing i"])
        (use report in simp_all)
  qed
next
  case (JEnd sid)
  then show ?thesis using inv_end [OF assms(1)] assms(2) by simp
next
  case (JLeave sid)
  then show ?thesis using inv_leave [OF assms(1)] assms(2) by simp
next
  case (JOpen i)
  then have i: "i < length (js_jobs s)" "s' = open_reader i s" using assms(2) by (auto split: if_splits)
  have "reader_ok (js_jobs s) \<lparr>rd_job = i, rd_index = 0, rd_yielded = [], rd_returned = False\<rparr>"
    using i(1) by (simp add: reader_ok_def real_events_def)
  then show ?thesis unfolding i(2) open_reader_def using jobs_invD(7) [OF assms(1)] by (intro inv_readers [OF assms(1)]) simp
next
  case (JRead k b)
  then show ?thesis using inv_read [OF assms(1)] assms(2) by simp
qed

fun fresh_ids :: "jobs_label list \<Rightarrow> jobs_state \<Rightarrow> bool" where
  "fresh_ids [] s = True"
| "fresh_ids (l # ls) s = (fresh_label s l \<and> (case jobs_next l s of None \<Rightarrow> True | Some s' \<Rightarrow> fresh_ids ls s'))"

lemma inv_exec: "jobs_exec ls s = Some s' \<Longrightarrow> fresh_ids ls s \<Longrightarrow> jobs_inv n s \<Longrightarrow> jobs_inv n s'"
proof (induction ls arbitrary: s)
  case (Cons l ls)
  then obtain s1 where s1: "jobs_next l s = Some s1" "jobs_exec ls s1 = Some s'" by (auto simp: bind_eq_Some_conv)
  with Cons inv_next [of n s l s1] show ?case by simp
qed simp

lemma inv_mk: "jobs_inv n (mk_jobs n)"
  by (simp add: jobs_inv_def mk_jobs_def undone_def worker_of_def queue_of_def dict_get_default_def)

text \<open>A job that waits in a queue has no events yet.\<close>

definition quiet_queues :: "jobs_state \<Rightarrow> bool" where
  "quiet_queues s \<longleftrightarrow> (\<forall>sid. \<forall>i \<in> set (queue_of sid s). jb_events (js_jobs s ! i) = [])"

lemma quiet_on_job:
  assumes "jobs_inv n s" "quiet_queues s" "dict_get (js_workers s) sid = Some w" "i \<in> set (current_job w)"
  shows "quiet_queues (on_job i f s)"
proof -
  have "i \<notin> set (queue_of sid' s)" for sid'
  proof -
    have u: "i \<in> set (undone sid (js_jobs s))" by (rule current_undone [OF assms(1,3,4)])
    have d: "distinct (undone sid (js_jobs s))" by (rule distinct_undone)
    then have "i \<notin> set (queue_of sid s)" using assms(3,4) unfolding jobs_invD(1) [OF assms(1)] by (auto simp: worker_of_def dict_get_default_def)
    moreover have "queue_of sid' s = [] \<or> set (queue_of sid' s) \<subseteq> set (undone sid' (js_jobs s))" by (simp add: jobs_invD(1) [OF assms(1)])
    ultimately show ?thesis using u by (cases "sid' = sid") (auto simp: mem_undone)
  qed
  then have "jb_events (js_jobs (on_job i f s) ! k) = []" if "k \<in> set (queue_of sid' s)" for k sid'
    using that assms(2) by (cases "k = i") (auto simp: quiet_queues_def on_job_def)
  then show ?thesis by (simp add: quiet_queues_def)
qed

lemma quiet_worker:
  assumes "quiet_queues s" "\<And>sid. set (queue_of sid s') \<subseteq> set (queue_of sid s)" "js_jobs s' = js_jobs s"
  shows "quiet_queues s'"
  using assms unfolding quiet_queues_def by auto

lemma quiet_next:
  assumes "jobs_inv n s" "quiet_queues s" "jobs_next l s = Some s'"
  shows "quiet_queues s'"
proof (cases l)
  case (JSubmit sid mid)
  have "k < length (js_jobs s)" if "k \<in> set (queue_of sid' s)" for k sid'
    using that mem_undone [of k sid' "js_jobs s"] by (auto simp: jobs_invD(1) [OF assms(1)])
  then have "jb_events (js_jobs s' ! k) = []" if "k \<in> set (queue_of sid' s) \<or> k = length (js_jobs s)" for k sid'
    using that assms(2,3) JSubmit unfolding quiet_queues_def by (auto simp: submit_job_def Let_def nth_append)
  moreover have "set (queue_of sid' s') \<subseteq> insert (length (js_jobs s)) (set (queue_of sid' s))" for sid'
    using assms(3) JSubmit by (auto simp: submit_job_def queue_of_def dict_get_default_def Let_def split: if_splits)
  ultimately show ?thesis unfolding quiet_queues_def by blast
next
  case (JTake sid)
  then obtain i q where "dict_get_default (js_queues s) sid [] = i # q"
    "s' = set_worker sid (Blocked i) (s\<lparr>js_queues := dict_set (js_queues s) sid q\<rparr>)"
    using assms(3) by (auto simp: take_job_def split: option.splits job_worker.splits list.splits)
  then show ?thesis by (intro quiet_worker [OF assms(2)]) (auto simp: queue_of_def set_worker_def dict_get_default_def split: option.splits)
next
  case (JStart sid evs err)
  then show ?thesis
    using assms(3) by (intro quiet_worker [OF assms(2)]) (auto simp: start_job_def queue_of_def set_worker_def split: option.splits job_worker.splits if_splits)
next
  case (JRun sid)
  then consider (publish) w i f w' where "dict_get (js_workers s) sid = Some w" "i \<in> set (current_job w)" "s' = set_worker sid w' (on_job i f s)"
    | (ran) w' where "s' = set_worker sid w' (s\<lparr>js_inference_sem := js_inference_sem s + 1\<rparr>)"
    using assms(3) by (fastforce simp: run_job_def split: option.splits job_worker.splits list.splits)
  then show ?thesis
  proof cases
    case publish
    show ?thesis by (rule quiet_worker [OF quiet_on_job [OF assms(1,2) publish(1,2), of f]]) (simp_all add: publish(3))
  next
    case ran
    then show ?thesis by (intro quiet_worker [OF assms(2)]) (simp_all add: queue_of_def set_worker_def)
  qed
next
  case (JEnd sid)
  then obtain i where w: "dict_get (js_workers s) sid = Some (Finishing i)" and s': "s' = set_worker sid (Discarding i) (on_job i finish_job s)"
    using assms(3) by (auto simp: end_job_def split: option.splits job_worker.splits)
  show ?thesis by (rule quiet_worker [OF quiet_on_job [OF assms(1,2) w, of i finish_job]]) (simp_all add: s')
next
  case (JLeave sid)
  then show ?thesis
    using assms(3) by (intro quiet_worker [OF assms(2)]) (auto simp: leave_job_def split: option.splits job_worker.splits)
next
  case (JOpen i)
  then show ?thesis using assms(2,3) by (auto simp: open_reader_def quiet_queues_def queue_of_def split: if_splits)
next
  case (JRead k b)
  then show ?thesis
    using assms(2,3) by (auto simp: read_events_def quiet_queues_def queue_of_def Let_def split: if_splits)
qed

lemma quiet_exec: "jobs_exec ls s = Some s' \<Longrightarrow> fresh_ids ls s \<Longrightarrow> jobs_inv n s \<Longrightarrow> quiet_queues s \<Longrightarrow> quiet_queues s'"
proof (induction ls arbitrary: s)
  case (Cons l ls)
  then obtain s1 where s1: "jobs_next l s = Some s1" "jobs_exec ls s1 = Some s'" by (auto simp: bind_eq_Some_conv)
  with Cons inv_next [of n s l s1] quiet_next [of n s l s1] show ?case by simp
qed simp

section \<open>Properties\<close>

text \<open>
  C19: the jobs of a session are processed one at a time in the order they were submitted, however the threads interleave: no
  event of a job is published, and no job is done, before all earlier jobs of the session are done. The ids shown as pending are
  those of the session's jobs that are not done, and, from the moment a job is done until its worker has taken the manager's lock,
  the id of that one job too. Over all sessions, at most as many turns run as the semaphore allows.
\<close>

theorem session_jobs_in_order:
  assumes "jobs_exec ls (mk_jobs n) = Some s" "fresh_ids ls (mk_jobs n)"
  shows "(i < j \<and> j < length (js_jobs s) \<and> jb_session (js_jobs s ! i) = jb_session (js_jobs s ! j) \<and>
      (jb_events (js_jobs s ! j) \<noteq> [] \<or> jb_done (js_jobs s ! j)) \<longrightarrow> jb_done (js_jobs s ! i)) \<and>
    set (pending_message_ids sid s) =
      {jb_message_id b | b. b \<in> set (js_jobs s) \<and> jb_session b = sid \<and> \<not> jb_done b} \<union>
      {jb_message_id (js_jobs s ! k) | k. worker_of sid s = Discarding k} \<and>
    length (filter is_running (dict_values (js_workers s))) \<le> n"
proof (intro conjI impI)
  have inv: "jobs_inv n s" by (rule inv_exec [OF assms inv_mk])
  have quiet: "quiet_queues s" by (rule quiet_exec [OF assms inv_mk]) (simp add: quiet_queues_def mk_jobs_def queue_of_def dict_get_default_def)
  note d = jobs_invD [OF inv]
  show "length (filter is_running (dict_values (js_workers s))) \<le> n" using d(6) by simp
  have "set (pending_message_ids sid s) = (\<lambda>i. jb_message_id (js_jobs s ! i)) ` set (undone sid (js_jobs s) @ discarding (worker_of sid s))"
    using d(3) by (simp add: pending_message_ids_def)
  moreover have "set (discarding (worker_of sid s)) = {k. worker_of sid s = Discarding k}" by (cases "worker_of sid s") auto
  moreover have und: "set (undone sid (js_jobs s)) = {i. i < length (js_jobs s) \<and> jb_session (js_jobs s ! i) = sid \<and> \<not> jb_done (js_jobs s ! i)}"
    by (auto simp: mem_undone)
  ultimately show "set (pending_message_ids sid s) =
      {jb_message_id b | b. b \<in> set (js_jobs s) \<and> jb_session b = sid \<and> \<not> jb_done b} \<union>
      {jb_message_id (js_jobs s ! k) | k. worker_of sid s = Discarding k}"
    unfolding set_append und by (auto simp: in_set_conv_nth)
  assume ij: "i < j \<and> j < length (js_jobs s) \<and> jb_session (js_jobs s ! i) = jb_session (js_jobs s ! j) \<and> (jb_events (js_jobs s ! j) \<noteq> [] \<or> jb_done (js_jobs s ! j))"
  show "jb_done (js_jobs s ! i)"
  proof (cases "jb_done (js_jobs s ! j)")
    case True
    then show ?thesis using d(2) [of i j] ij by simp
  next
    case False
    let ?sid = "jb_session (js_jobs s ! j)"
    have j: "j \<in> set (undone ?sid (js_jobs s))" "j \<notin> set (queue_of ?sid s)" using ij False quiet by (auto simp: mem_undone quiet_queues_def)
    then have "j \<in> set (current_job (worker_of ?sid s))" using d(1) [of ?sid] by simp
    then have "current_job (worker_of ?sid s) = [j]" by (cases "worker_of ?sid s") auto
    then have "undone ?sid (js_jobs s) = j # queue_of ?sid s" using d(1) [of ?sid] by simp
    then have "\<forall>k \<in> set (undone ?sid (js_jobs s)). j \<le> k" using distinct_undone(2) [of ?sid "js_jobs s"] by simp
    then show ?thesis using ij mem_undone [of i ?sid "js_jobs s"] by fastforce
  qed
qed

text \<open>
  C34: every reader of a job sees the job's events, each once and in order, whenever it starts reading; its stream ends only when the
  job is done and everything was read, and while something is left to read a step is possible.
\<close>

theorem job_reader_sees_all_events:
  assumes "jobs_exec ls (mk_jobs n) = Some s" "fresh_ids ls (mk_jobs n)" "k < length (js_readers s)"
    and "r = js_readers s ! k" "b = js_jobs s ! rd_job r"
  shows "real_events (rd_yielded r) = real_events (take (rd_index r) (jb_events b)) \<and>
    (rd_returned r \<longrightarrow> jb_done b \<and> real_events (rd_yielded r) = real_events (jb_events b)) \<and>
    (\<not> rd_returned r \<and> (rd_index r < length (jb_events b) \<or> jb_done b) \<longrightarrow> read_events k False s \<noteq> None)"
proof -
  have "reader_ok (js_jobs s) r"
    using jobs_invD(7) [OF inv_exec [OF assms(1,2) inv_mk]] assms(3) unfolding assms(4) by (simp add: list_all_length)
  then show ?thesis using assms(3) unfolding assms(4,5) by (auto simp: reader_ok_def read_events_def Let_def)
qed

definition demo_jobs :: "jobs_label list" where
  "demo_jobs = [JSubmit ''s'' ''m1'', JSubmit ''s'' ''m2'', JOpen 0, JTake ''s'', JStart ''s'' [(''content'', ''hi'')] (Some ''boom''), JRun ''s'', JRead 0 False,
     JRun ''s'', JRun ''s'', JEnd ''s'', JRead 0 False]"

theorem session_jobs_in_order_witness:
  "\<exists>s. jobs_exec demo_jobs (mk_jobs 1) = Some s \<and> set (pending_message_ids ''s'' s) = {''m1'', ''m2''} \<and>
     (\<exists>s'. jobs_next (JLeave ''s'') s = Some s' \<and> set (pending_message_ids ''s'' s') = {''m2''})"
proof -
  have ok: "jobs_exec demo_jobs (mk_jobs 1) \<noteq> None" "fresh_ids (demo_jobs @ [JLeave ''s'']) (mk_jobs 1)" by code_simp+
  have later: "case jobs_exec (demo_jobs @ [JLeave ''s'']) (mk_jobs 1) of
      Some s \<Rightarrow> worker_of ''s'' s = Idle \<and> map (\<lambda>b. (jb_message_id b, jb_session b, jb_done b)) (js_jobs s) = [(''m1'', ''s'', True), (''m2'', ''s'', False)]
    | None \<Rightarrow> False" by code_simp
  have now: "case jobs_exec demo_jobs (mk_jobs 1) of Some s \<Rightarrow> set (pending_message_ids ''s'' s) = {''m1'', ''m2''} | None \<Rightarrow> False" by code_simp
  obtain s' where s': "jobs_exec (demo_jobs @ [JLeave ''s'']) (mk_jobs 1) = Some s'" "worker_of ''s'' s' = Idle"
    "map (\<lambda>b. (jb_message_id b, jb_session b, jb_done b)) (js_jobs s') = [(''m1'', ''s'', True), (''m2'', ''s'', False)]"
    using later by (auto split: option.splits)
  then have "set (pending_message_ids ''s'' s') = {jb_message_id b | b. b \<in> set (js_jobs s') \<and> jb_session b = ''s'' \<and> \<not> jb_done b}"
    using session_jobs_in_order [OF s'(1) ok(2), of 0 0 "''s''"] by simp
  also have "\<dots> = {''m2''}"
  proof -
    obtain b b' where b: "js_jobs s' = [b, b']" "jb_done b" "jb_message_id b' = ''m2''" "jb_session b' = ''s''" "\<not> jb_done b'"
      using s'(3) by (auto simp: map_eq_Cons_conv)
    then have "{c. c \<in> set (js_jobs s') \<and> jb_session c = ''s'' \<and> \<not> jb_done c} = {b'}" by auto
    with b(3) show ?thesis unfolding setcompr_eq_image by simp
  qed
  finally have p': "set (pending_message_ids ''s'' s') = {''m2''}" .
  obtain s where s: "jobs_exec demo_jobs (mk_jobs 1) = Some s" using ok(1) by blast
  then have "jobs_next (JLeave ''s'') s = Some s'" using s'(1) by (simp add: jobs_exec_append bind_eq_Some_conv)
  moreover have "set (pending_message_ids ''s'' s) = {''m1'', ''m2''}" using now unfolding s by simp
  ultimately show ?thesis using s p' by blast
qed

theorem job_reader_sees_all_events_witness:
  "\<exists>s. jobs_exec demo_jobs (mk_jobs 1) = Some s \<and> real_events (rd_yielded (js_readers s ! 0)) = [(''content'', ''hi''), (''error'', ''boom'')]"
proof -
  have ok: "case jobs_exec demo_jobs (mk_jobs 1) of Some s \<Rightarrow> length (js_readers s) = 1 \<and> rd_returned (js_readers s ! 0) \<and>
      real_events (jb_events (js_jobs s ! rd_job (js_readers s ! 0))) = [(''content'', ''hi''), (''error'', ''boom'')] | None \<Rightarrow> False"
    "fresh_ids demo_jobs (mk_jobs 1)" by code_simp+
  then obtain s where s: "jobs_exec demo_jobs (mk_jobs 1) = Some s" "length (js_readers s) = 1" "rd_returned (js_readers s ! 0)"
    "real_events (jb_events (js_jobs s ! rd_job (js_readers s ! 0))) = [(''content'', ''hi''), (''error'', ''boom'')]"
    by (auto split: option.splits)
  from job_reader_sees_all_events [OF s(1) ok(2), of 0, OF _ refl refl] s show ?thesis by auto
qed

end
