(* ===== verification/Agent_Store.thy ===== *)
theory Agent_Store
  imports Effects Py_String
begin

text \<open>
  The store of chat sessions (\<^verbatim>\<open>tools/src/exo_tools/agent_core/store.py\<close>, \<^verbatim>\<open>schemas.py\<close>): a directory per session with its
  record, the messages as lines of JSON and the chat as Markdown. The texts of the two message files are modelled as the
  code writes them; \<^verbatim>\<open>json.loads\<close> with \<^verbatim>\<open>Message.from_dict\<close> and the regular expression that reads old Markdown chats are
  parameters. The Git history the store keeps beside the files is never read back and not modelled.
\<close>

section \<open>Data\<close>

datatype chat_role = ChatSystem | ChatUser | ChatAssistant | ChatTool

fun role_text :: "chat_role \<Rightarrow> string" where
  "role_text ChatSystem = ''system''"
| "role_text ChatUser = ''user''"
| "role_text ChatAssistant = ''assistant''"
| "role_text ChatTool = ''tool''"

record stored_message =
  cm_role :: chat_role
  cm_content :: string
  cm_reasoning :: "string option"
  cm_created_at :: string
  cm_message_id :: string

record session_record =
  se_session_id :: string
  se_title :: string
  se_created_at :: string
  se_updated_at :: string
  se_metadata :: "(string, json) dict"

record session_dir =
  sd_session :: session_record
  sd_chat :: "string option"
  sd_lines :: "string option"

record agent_store =
  ag_sessions :: "(string, session_dir) dict"
  ag_max_messages :: int

record store_env =
  en_loads :: "string \<Rightarrow> stored_message result"
  en_parse_chat :: "string \<Rightarrow> (chat_role \<times> string \<times> string) list"
  en_new_id :: "nat \<Rightarrow> string"

abbreviation file_not_found :: py_error where
  "file_not_found \<equiv> OtherError ''FileNotFoundError''"

section \<open>Texts\<close>

text \<open>\<^verbatim>\<open>json.dumps(..., ensure_ascii=False)\<close> escapes quotes, backslashes and the characters below 32.\<close>

definition hex_digit :: "nat \<Rightarrow> char" where
  "hex_digit n = ''0123456789abcdef'' ! n"

definition json_char :: "char \<Rightarrow> string" where
  "json_char c =
     (let n = of_char c :: nat in
      if n = 34 \<or> n = 92 then [CHR 0x5C, c]
      else if n = 10 then [CHR 0x5C, CHR ''n'']
      else if n = 13 then [CHR 0x5C, CHR ''r'']
      else if n = 9 then [CHR 0x5C, CHR ''t'']
      else if n = 8 then [CHR 0x5C, CHR ''b'']
      else if n = 12 then [CHR 0x5C, CHR ''f'']
      else if n < 32 then [CHR 0x5C, CHR ''u'', CHR ''0'', CHR ''0'', hex_digit (n div 16), hex_digit (n mod 16)]
      else [c])"

definition json_text :: "string \<Rightarrow> string" where
  "json_text x = CHR 0x22 # concat (map json_char x) @ [CHR 0x22]"

definition json_field :: "string \<Rightarrow> string \<Rightarrow> string" where
  "json_field key v = json_text key @ '': '' @ v"

definition message_line :: "stored_message \<Rightarrow> string" where
  "message_line m =
     ''{'' @ json_field ''role'' (json_text (role_text (cm_role m))) @ '', '' @ json_field ''content'' (json_text (cm_content m)) @ '', '' @
     json_field ''reasoning'' (case cm_reasoning m of None \<Rightarrow> ''null'' | Some r \<Rightarrow> json_text r) @ '', '' @
     json_field ''created_at'' (json_text (cm_created_at m)) @ '', '' @ json_field ''message_id'' (json_text (cm_message_id m)) @ ''}''"

text \<open>\<^verbatim>\<open>str.splitlines\<close> ends a line at more characters than the newline.\<close>

definition line_break :: "char \<Rightarrow> bool" where
  "line_break c \<longleftrightarrow> (of_char c :: nat) \<in> {10, 11, 12, 13, 28, 29, 30, 133}"

abbreviation newline :: char where
  "newline \<equiv> CHR 0x0A"

definition after_break :: "char \<Rightarrow> string \<Rightarrow> string" where
  "after_break c cs = (if c = CHR 0x0D \<and> cs \<noteq> [] \<and> hd cs = newline then tl cs else cs)"

lemma length_after_break [termination_simp]: "length (after_break c cs) < Suc (length cs)"
  by (simp add: after_break_def less_Suc_eq_le)

fun splitlines :: "string \<Rightarrow> string list" where
  "splitlines [] = []"
| "splitlines (c # cs) = (if line_break c then [] # splitlines (after_break c cs) else case splitlines cs of [] \<Rightarrow> [[c]] | l # ls \<Rightarrow> (c # l) # ls)"

definition file_of_messages :: "stored_message list \<Rightarrow> string" where
  "file_of_messages ms = concat (map (\<lambda>m. message_line m @ [newline]) ms)"

definition chat_entry :: "stored_message \<Rightarrow> string" where
  "chat_entry m = ''## '' @ role_text (cm_role m) @ '' - '' @ cm_created_at m @ [newline, newline] @ cm_content m @ [newline, newline]"

text \<open>\<^verbatim>\<open>" ".join(text.split())\<close>\<close>

fun py_words :: "string \<Rightarrow> string list" where
  "py_words [] = []"
| "py_words (c # cs) =
     (if is_space c then py_words cs
      else case cs of
        [] \<Rightarrow> [[c]]
      | d # _ \<Rightarrow> if is_space d then [c] # py_words cs else case py_words cs of [] \<Rightarrow> [[c]] | w # ws \<Rightarrow> (c # w) # ws)"

fun join_words :: "string list \<Rightarrow> string" where
  "join_words [] = []"
| "join_words [w] = w"
| "join_words (w # ws) = w @ CHR '' '' # join_words ws"

section \<open>Operations\<close>

definition on_session :: "string \<Rightarrow> (session_dir \<Rightarrow> session_dir) \<Rightarrow> agent_store \<Rightarrow> agent_store" where
  "on_session sid f st =
     (case dict_get (ag_sessions st) sid of None \<Rightarrow> st | Some d \<Rightarrow> st\<lparr>ag_sessions := dict_set (ag_sessions st) sid (f d)\<rparr>)"

definition session_of :: "string \<Rightarrow> agent_store \<Rightarrow> session_dir result" where
  "session_of sid st = of_option file_not_found (dict_get (ag_sessions st) sid)"

definition store_create_session :: "string \<Rightarrow> string \<Rightarrow> (string, json) dict \<Rightarrow> string \<Rightarrow> (agent_store, session_record) action" where
  "store_create_session sid title metadata now =
     with_state (\<lambda>st.
     if dict_mem sid (ag_sessions st) then raises (OtherError ''FileExistsError'')
     else let session = \<lparr>se_session_id = sid, se_title = title, se_created_at = now, se_updated_at = now, se_metadata = metadata\<rparr> in
       sbind (upd (\<lambda>st. st\<lparr>ag_sessions := dict_set (ag_sessions st) sid
         \<lparr>sd_session = session, sd_chat = Some (''# '' @ title @ [newline, newline]), sd_lines = None\<rparr>\<rparr>)) (\<lambda>_. ret session))"

definition get_session :: "string \<Rightarrow> (agent_store, session_record) action" where
  "get_session sid = with_state (\<lambda>st. lift_result (rbind (session_of sid st) (\<lambda>d. Inr (sd_session d))))"

definition list_sessions :: "agent_store \<Rightarrow> session_record list" where
  "list_sessions st = rev (sort_key se_updated_at (rev (map (\<lambda>(_, d). sd_session d) (sort_key fst (ag_sessions st)))))"

definition delete_session :: "string \<Rightarrow> (agent_store, unit) action" where
  "delete_session sid =
     with_state (\<lambda>st. if dict_mem sid (ag_sessions st) then upd (\<lambda>st. st\<lparr>ag_sessions := dict_del (ag_sessions st) sid\<rparr>) else raises file_not_found)"

definition migrated :: "store_env \<Rightarrow> session_dir \<Rightarrow> session_dir" where
  "migrated env d =
     (case sd_lines d of
        Some _ \<Rightarrow> d
      | None \<Rightarrow>
          (let found = (case sd_chat d of None \<Rightarrow> [] | Some chat \<Rightarrow> en_parse_chat env chat);
               messages = map (\<lambda>(i, rl, created_at, content). \<lparr>cm_role = rl, cm_content = py_strip content, cm_reasoning = None,
                 cm_created_at = created_at, cm_message_id = en_new_id env i\<rparr>) (zip [0..<length found] found)
           in d\<lparr>sd_lines := Some (file_of_messages messages)\<rparr>))"

definition migrate_messages :: "store_env \<Rightarrow> string \<Rightarrow> (agent_store, string) action" where
  "migrate_messages env sid =
     with_state (\<lambda>st.
     sbind (lift_result (session_of sid st)) (\<lambda>d.
     sbind (upd (on_session sid (migrated env))) (\<lambda>_. ret (case sd_lines (migrated env d) of Some t \<Rightarrow> t | None \<Rightarrow> []))))"

definition list_messages :: "store_env \<Rightarrow> string \<Rightarrow> (agent_store, stored_message list) action" where
  "list_messages env sid =
     sbind (migrate_messages env sid) (\<lambda>text'. lift_result (rmap (en_loads env) (filter (\<lambda>l. py_strip l \<noteq> []) (splitlines text'))))"

definition write_messages :: "string \<Rightarrow> stored_message list \<Rightarrow> (agent_store, unit) action" where
  "write_messages sid ms = upd (on_session sid (\<lambda>d. d\<lparr>sd_lines := Some (file_of_messages ms)\<rparr>))"

definition rebuild_chat_markdown :: "string \<Rightarrow> stored_message list \<Rightarrow> (agent_store, unit) action" where
  "rebuild_chat_markdown sid ms =
     sbind (get_session sid) (\<lambda>session.
     upd (on_session sid (\<lambda>d. d\<lparr>sd_chat := Some (''# '' @ se_title session @ [newline, newline] @ concat (map chat_entry ms))\<rparr>)))"

definition retention_notice :: "int \<Rightarrow> string \<Rightarrow> string \<Rightarrow> stored_message" where
  "retention_notice removed now mid = \<lparr>cm_role = ChatSystem, cm_content = show_int removed @ '' older messages were removed by the retention policy.'',
     cm_reasoning = None, cm_created_at = now, cm_message_id = mid\<rparr>"

definition compacted :: "int \<Rightarrow> string \<Rightarrow> string \<Rightarrow> stored_message list \<Rightarrow> stored_message list" where
  "compacted max_messages now mid ms =
     (if int (length ms) \<le> max_messages then ms
      else let retained_count = nat (max 1 (max_messages - 1)); removed = int (length ms) - int retained_count
        in retention_notice removed now mid # drop (length ms - retained_count) ms)"

definition compact_session :: "store_env \<Rightarrow> string \<Rightarrow> string \<Rightarrow> string \<Rightarrow> (agent_store, unit) action" where
  "compact_session env sid now mid =
     sbind (list_messages env sid) (\<lambda>ms.
     with_state (\<lambda>st.
     if int (length ms) \<le> ag_max_messages st then ret ()
     else let ms' = compacted (ag_max_messages st) now mid ms in
       sbind (write_messages sid ms') (\<lambda>_. rebuild_chat_markdown sid ms')))"

definition append_message :: "store_env \<Rightarrow> string \<Rightarrow> stored_message \<Rightarrow> string \<Rightarrow> string \<Rightarrow> (agent_store, unit) action" where
  "append_message env sid m now mid =
     sbind (get_session sid) (\<lambda>session.
     sbind (migrate_messages env sid) (\<lambda>_.
     sbind (upd (on_session sid (\<lambda>d. d\<lparr>sd_session := session\<lparr>se_updated_at := now\<rparr>,
         sd_chat := Some ((case sd_chat d of Some c \<Rightarrow> c | None \<Rightarrow> []) @ chat_entry m),
         sd_lines := Some ((case sd_lines d of Some t \<Rightarrow> t | None \<Rightarrow> []) @ message_line m @ [newline])\<rparr>))) (\<lambda>_.
     compact_session env sid now mid)))"

fun replace_message :: "string \<Rightarrow> (stored_message \<Rightarrow> stored_message) \<Rightarrow> stored_message list \<Rightarrow> stored_message list option" where
  "replace_message mid f [] = None"
| "replace_message mid f (m # ms) = (if cm_message_id m = mid then Some (f m # ms) else map_option (\<lambda>ms'. m # ms') (replace_message mid f ms))"

definition update_message :: "store_env \<Rightarrow> string \<Rightarrow> string \<Rightarrow> string \<Rightarrow> string option \<Rightarrow> (agent_store, unit) action" where
  "update_message env sid mid content reasoning =
     sbind (list_messages env sid) (\<lambda>ms.
     case replace_message mid (\<lambda>m. m\<lparr>cm_content := content, cm_reasoning := reasoning\<rparr>) ms of
       None \<Rightarrow> raises file_not_found
     | Some ms' \<Rightarrow> sbind (write_messages sid ms') (\<lambda>_. rebuild_chat_markdown sid ms'))"

definition clean_title :: "string \<Rightarrow> string" where
  "clean_title title = join_words (py_words (py_strip title))"

definition rename_session :: "store_env \<Rightarrow> string \<Rightarrow> string \<Rightarrow> bool \<Rightarrow> string \<Rightarrow> (agent_store, session_record) action" where
  "rename_session env sid title user_edited now =
     (if clean_title title = [] then raises (ValueError ''session title cannot be empty'')
      else sbind (get_session sid) (\<lambda>session.
        let session' = session\<lparr>se_title := take 120 (clean_title title), se_updated_at := now,
          se_metadata := dict_set (dict_set (se_metadata session) ''title_user_edited'' (JBool user_edited)) ''title_auto_generated'' (JBool (\<not> user_edited))\<rparr> in
        sbind (upd (on_session sid (\<lambda>d. d\<lparr>sd_session := session'\<rparr>))) (\<lambda>_.
        sbind (list_messages env sid) (\<lambda>ms.
        sbind (rebuild_chat_markdown sid ms) (\<lambda>_. ret session')))))"

section \<open>Lines\<close>

definition plain_message :: "stored_message \<Rightarrow> bool" where
  "plain_message m \<longleftrightarrow> CHR 0x85 \<notin> set (cm_content m) \<union> (case cm_reasoning m of None \<Rightarrow> {} | Some r \<Rightarrow> set r) \<union> set (cm_created_at m) \<union> set (cm_message_id m)"

definition unbroken :: "string \<Rightarrow> bool" where
  "unbroken x = list_all (\<lambda>c. \<not> line_break c) x"

lemma unbroken_simps [simp]: "unbroken []" "unbroken (c # x) \<longleftrightarrow> \<not> line_break c \<and> unbroken x" "unbroken (x @ y) \<longleftrightarrow> unbroken x \<and> unbroken y"
  by (simp_all add: unbroken_def)

lemma hex_digit_unbroken: "k < 16 \<Longrightarrow> \<not> line_break (hex_digit k)"
proof -
  assume "k < 16"
  then have "hex_digit k \<in> set ''0123456789abcdef''" unfolding hex_digit_def by (intro nth_mem) simp
  then show ?thesis by (auto simp: line_break_def)
qed

lemma json_char_unbroken: "c \<noteq> CHR 0x85 \<Longrightarrow> unbroken (json_char c)"
proof -
  assume c: "c \<noteq> CHR 0x85"
  define n where "n = (of_char c :: nat)"
  have "char_of n = c" by (simp add: n_def)
  moreover have "char_of (133 :: nat) = CHR 0x85" by code_simp
  ultimately have n: "n \<noteq> 133" using c by metis
  show ?thesis
    using n hex_digit_unbroken [of "n div 16"] hex_digit_unbroken [of "n mod 16"]
    by (auto simp: json_char_def n_def [symmetric] Let_def line_break_def)
qed

lemma json_text_unbroken: "CHR 0x85 \<notin> set x \<Longrightarrow> unbroken (json_text x)"
proof -
  assume "CHR 0x85 \<notin> set x"
  then have "unbroken (concat (map json_char x))" by (induction x) (auto intro: json_char_unbroken)
  then show ?thesis by (simp add: json_text_def line_break_def)
qed

lemma message_line_unbroken: "plain_message m \<Longrightarrow> unbroken (message_line m)"
proof -
  assume m: "plain_message m"
  have k: "unbroken (json_field key v) = unbroken v" if "CHR 0x85 \<notin> set key" for key v
    using json_text_unbroken [OF that] by (simp add: json_field_def line_break_def)
  have "CHR 0x85 \<notin> set (role_text r)" for r by (cases r) simp_all
  then show ?thesis
    using m unfolding message_line_def plain_message_def
    by (auto simp: k line_break_def split: option.splits intro: json_text_unbroken)
qed

lemma splitlines_line: "unbroken l \<Longrightarrow> splitlines (l @ newline # r) = l # splitlines r"
  by (induction l) (auto simp: line_break_def after_break_def)

lemma splitlines_file: "list_all plain_message ms \<Longrightarrow> splitlines (file_of_messages ms @ r) = map message_line ms @ splitlines r"
  by (induction ms) (auto simp: file_of_messages_def splitlines_line message_line_unbroken)

lemma message_line_visible: "py_strip (message_line m) \<noteq> []"
proof -
  have "message_line m = CHR ''{'' # tl (message_line m)" by (simp add: message_line_def)
  moreover have "\<not> is_space (CHR ''{'')" by (simp add: is_space_def)
  ultimately show ?thesis unfolding py_strip_def
    by (metis dropWhile.simps(2) dropWhile_eq_Nil_conv list.set_intros(1) rev_is_Nil_conv set_rev)
qed

section \<open>The session as a titled list of messages\<close>

text \<open>
  What the store promises of a session: a title and a list of messages. An append adds a message and cuts the list
  to the retention bound, an update replaces the first message with the given id, a rename sets the cleaned title.
  An operation that raises is \<open>None\<close> and leaves the session as it was.
\<close>

datatype session_op =
    AppendMessage stored_message string string
  | UpdateMessage string string "string option"
  | RenameSession string bool string

fun spec_op :: "int \<Rightarrow> session_op \<Rightarrow> string \<times> stored_message list \<Rightarrow> (string \<times> stored_message list) option" where
  "spec_op k (AppendMessage m now mid) (title, ms) = Some (title, compacted k now mid (ms @ [m]))"
| "spec_op k (UpdateMessage mid content reasoning) (title, ms) =
     map_option (\<lambda>ms'. (title, ms')) (replace_message mid (\<lambda>m. m\<lparr>cm_content := content, cm_reasoning := reasoning\<rparr>) ms)"
| "spec_op k (RenameSession new edited now) (title, ms) =
     (if clean_title new = [] then None else Some (take 120 (clean_title new), ms))"

fun run_op :: "store_env \<Rightarrow> string \<Rightarrow> session_op \<Rightarrow> (agent_store, unit) action" where
  "run_op env sid (AppendMessage m now mid) = append_message env sid m now mid"
| "run_op env sid (UpdateMessage mid content reasoning) = update_message env sid mid content reasoning"
| "run_op env sid (RenameSession new edited now) = sbind (rename_session env sid new edited now) (\<lambda>_. ret ())"

text \<open>A run of operations, with what each of them reports: \<open>True\<close> when it returned.\<close>

fun spec_run :: "int \<Rightarrow> session_op list \<Rightarrow> string \<times> stored_message list \<Rightarrow> bool list \<times> string \<times> stored_message list" where
  "spec_run k [] v = ([], v)"
| "spec_run k (op # ops) v =
     (case spec_op k op v of
        None \<Rightarrow> (case spec_run k ops v of (bs, v') \<Rightarrow> (False # bs, v'))
      | Some v1 \<Rightarrow> (case spec_run k ops v1 of (bs, v') \<Rightarrow> (True # bs, v')))"

fun run_ops :: "store_env \<Rightarrow> string \<Rightarrow> session_op list \<Rightarrow> agent_store \<Rightarrow> bool list \<times> agent_store" where
  "run_ops env sid [] st = ([], st)"
| "run_ops env sid (op # ops) st =
     (case run_op env sid op st of (st1, r) \<Rightarrow> (case run_ops env sid ops st1 of (bs, st') \<Rightarrow> ((r = Inr ()) # bs, st')))"

definition stored :: "store_env \<Rightarrow> stored_message \<Rightarrow> bool" where
  "stored env m \<longleftrightarrow> plain_message m \<and> en_loads env (message_line m) = Inr m"

definition markdown :: "string \<Rightarrow> stored_message list \<Rightarrow> string" where
  "markdown title ms = ''# '' @ title @ [newline, newline] @ concat (map chat_entry ms)"

definition holds_session :: "store_env \<Rightarrow> string \<Rightarrow> int \<Rightarrow> string \<times> stored_message list \<Rightarrow> agent_store \<Rightarrow> bool" where
  "holds_session env sid k v st \<longleftrightarrow>
     ag_max_messages st = k \<and> list_all (stored env) (snd v) \<and>
     (\<exists>d. dict_get (ag_sessions st) sid = Some d \<and> se_title (sd_session d) = fst v \<and> sd_chat d = Some (markdown (fst v) (snd v)) \<and>
        sd_lines (migrated env d) = Some (file_of_messages (snd v)))"

lemma migrated_simps [simp]:
  "sd_session (migrated env d) = sd_session d" "sd_chat (migrated env d) = sd_chat d" "migrated env (migrated env d) = migrated env d"
  "sd_lines d = Some t \<Longrightarrow> migrated env d = d" "migrated env (d\<lparr>sd_session := x\<rparr>) = (migrated env d)\<lparr>sd_session := x\<rparr>"
  by (simp_all add: migrated_def Let_def split: option.splits)

lemma on_session_hit: "dict_get (ag_sessions st) sid = Some d \<Longrightarrow> on_session sid f st = st\<lparr>ag_sessions := dict_set (ag_sessions st) sid (f d)\<rparr>"
  by (simp add: on_session_def)

lemma holdsE:
  assumes "holds_session env sid k (title, ms) st"
  obtains d where "dict_get (ag_sessions st) sid = Some d" "se_title (sd_session d) = title" "sd_chat d = Some (markdown title ms)"
    "sd_lines (migrated env d) = Some (file_of_messages ms)" "ag_max_messages st = k" "list_all (stored env) ms"
  using assms by (auto simp: holds_session_def)

lemma read_messages: "list_all (stored env) ms \<Longrightarrow> rmap (en_loads env) (filter (\<lambda>l. py_strip l \<noteq> []) (splitlines (file_of_messages ms))) = Inr ms"
proof -
  assume ms: "list_all (stored env) ms"
  then have "splitlines (file_of_messages ms) = map message_line ms"
    using splitlines_file [of ms "[]"] by (simp add: list_all_iff stored_def)
  moreover have "filter (\<lambda>l. py_strip l \<noteq> []) (map message_line ms) = map message_line ms"
    by (simp add: filter_map comp_def message_line_visible)
  moreover have "rmap (en_loads env) (map message_line ms) = Inr ms"
    using ms by (induction ms) (auto simp: stored_def)
  ultimately show ?thesis by simp
qed

lemma list_messages_hit:
  assumes "dict_get (ag_sessions st) sid = Some d" "sd_lines (migrated env d) = Some (file_of_messages ms)" "list_all (stored env) ms"
  shows "list_messages env sid st = (st\<lparr>ag_sessions := dict_set (ag_sessions st) sid (migrated env d)\<rparr>, Inr ms)"
  using assms read_messages [OF assms(3)]
  by (simp add: list_messages_def migrate_messages_def effect_defs session_of_def on_session_hit)

lemma holds_update:
  assumes "dict_get (ag_sessions st) sid = Some d" "ag_max_messages st = k" "list_all (stored env) ms"
    and "se_title (sd_session (f d)) = title" "sd_chat (f d) = Some (markdown title ms)" "sd_lines (f d) = Some (file_of_messages ms)"
  shows "holds_session env sid k (title, ms) (on_session sid f st)"
  using assms by (simp add: holds_session_def on_session_hit)

lemma rewrite_session:
  assumes "dict_get (ag_sessions st) sid = Some d" "ag_max_messages st = k" "list_all (stored env) ms"
  shows "\<exists>st'. sbind (write_messages sid ms) (\<lambda>_. rebuild_chat_markdown sid ms) st = (st', Inr ()) \<and>
    holds_session env sid k (se_title (sd_session d), ms) st'"
  using assms
  by (simp add: write_messages_def rebuild_chat_markdown_def get_session_def effect_defs session_of_def on_session_hit holds_session_def markdown_def)

lemma compact_session_step:
  assumes v: "holds_session env sid k (title, ms) st" and c: "list_all (stored env) (compacted k now mid ms)"
  shows "\<exists>st'. compact_session env sid now mid st = (st', Inr ()) \<and> holds_session env sid k (title, compacted k now mid ms) st'"
proof -
  obtain d where d: "dict_get (ag_sessions st) sid = Some d" "se_title (sd_session d) = title" "sd_chat d = Some (markdown title ms)"
    "sd_lines (migrated env d) = Some (file_of_messages ms)" "ag_max_messages st = k" "list_all (stored env) ms" by (rule holdsE [OF v])
  define st1 where "st1 = st\<lparr>ag_sessions := dict_set (ag_sessions st) sid (migrated env d)\<rparr>"
  have st1: "dict_get (ag_sessions st1) sid = Some (migrated env d)" "ag_max_messages st1 = k" by (simp_all add: st1_def d)
  have run: "compact_session env sid now mid st = (if int (length ms) \<le> k then (st1, Inr ())
      else sbind (write_messages sid (compacted k now mid ms)) (\<lambda>_. rebuild_chat_markdown sid (compacted k now mid ms)) st1)"
    using list_messages_hit [OF d(1,4,6)] st1(2) unfolding compact_session_def sbind_def [of "list_messages env sid"]
    by (simp add: with_state_def ret_def Let_def st1_def [symmetric])
  have "compacted k now mid ms = ms" if "int (length ms) \<le> k" using that by (simp add: compacted_def)
  moreover have "holds_session env sid k (title, ms) st1" using d st1 by (simp add: holds_session_def)
  ultimately show ?thesis using run rewrite_session [OF st1 c] d(2) by (cases "int (length ms) \<le> k") auto
qed

lemma append_message_step:
  assumes v: "holds_session env sid k (title, ms) st" and m: "stored env m" and c: "list_all (stored env) (compacted k now mid (ms @ [m]))"
  shows "\<exists>st'. append_message env sid m now mid st = (st', Inr ()) \<and> holds_session env sid k (title, compacted k now mid (ms @ [m])) st'"
proof -
  obtain d where d: "dict_get (ag_sessions st) sid = Some d" "se_title (sd_session d) = title" "sd_chat d = Some (markdown title ms)"
    "sd_lines (migrated env d) = Some (file_of_messages ms)" "ag_max_messages st = k" "list_all (stored env) ms" by (rule holdsE [OF v])
  define d' where "d' = (migrated env d)\<lparr>sd_session := (sd_session d)\<lparr>se_updated_at := now\<rparr>, sd_chat := Some (markdown title (ms @ [m])),
    sd_lines := Some (file_of_messages (ms @ [m]))\<rparr>"
  define st1 where "st1 = st\<lparr>ag_sessions := dict_set (dict_set (ag_sessions st) sid (migrated env d)) sid d'\<rparr>"
  have "holds_session env sid k (title, ms @ [m]) st1" using d m by (simp add: holds_session_def st1_def d'_def)
  moreover have "append_message env sid m now mid st = compact_session env sid now mid st1"
    using d by (simp add: append_message_def get_session_def migrate_messages_def effect_defs session_of_def on_session_hit
        st1_def d'_def markdown_def file_of_messages_def)
  ultimately show ?thesis using compact_session_step [OF _ c] by simp
qed

lemma update_message_step:
  assumes v: "holds_session env sid k (title, ms) st"
    and r: "replace_message mid (\<lambda>m. m\<lparr>cm_content := content, cm_reasoning := reasoning\<rparr>) ms = r" and c: "\<And>ms'. r = Some ms' \<Longrightarrow> list_all (stored env) ms'"
  shows "\<exists>st'. update_message env sid mid content reasoning st = (st', if r = None then Inl file_not_found else Inr ()) \<and>
    holds_session env sid k (title, case r of None \<Rightarrow> ms | Some ms' \<Rightarrow> ms') st'"
proof -
  obtain d where d: "dict_get (ag_sessions st) sid = Some d" "se_title (sd_session d) = title" "sd_chat d = Some (markdown title ms)"
    "sd_lines (migrated env d) = Some (file_of_messages ms)" "ag_max_messages st = k" "list_all (stored env) ms" by (rule holdsE [OF v])
  define st1 where "st1 = st\<lparr>ag_sessions := dict_set (ag_sessions st) sid (migrated env d)\<rparr>"
  have st1: "dict_get (ag_sessions st1) sid = Some (migrated env d)" "ag_max_messages st1 = k" by (simp_all add: st1_def d)
  have run: "update_message env sid mid content reasoning st = (case r of None \<Rightarrow> raises file_not_found
      | Some ms' \<Rightarrow> sbind (write_messages sid ms') (\<lambda>_. rebuild_chat_markdown sid ms')) st1"
    using list_messages_hit [OF d(1,4,6)] r unfolding update_message_def sbind_def [of "list_messages env sid"]
    by (simp add: st1_def [symmetric])
  have "holds_session env sid k (title, ms) st1" using d st1 by (simp add: holds_session_def)
  then show ?thesis using run rewrite_session [OF st1 c] d(2) by (cases r) (auto simp: raises_def)
qed

lemma rename_session_step:
  assumes v: "holds_session env sid k (title, ms) st"
  shows "\<exists>st' r. sbind (rename_session env sid new edited now) (\<lambda>_. ret ()) st = (st', r) \<and>
    (r = Inr () \<longleftrightarrow> clean_title new \<noteq> []) \<and> holds_session env sid k (if clean_title new = [] then title else take 120 (clean_title new), ms) st'"
proof (cases "clean_title new = []")
  case True
  then show ?thesis using v by (simp add: rename_session_def effect_defs)
next
  case False
  obtain d where d: "dict_get (ag_sessions st) sid = Some d" "se_title (sd_session d) = title" "sd_chat d = Some (markdown title ms)"
    "sd_lines (migrated env d) = Some (file_of_messages ms)" "ag_max_messages st = k" "list_all (stored env) ms" by (rule holdsE [OF v])
  show ?thesis
    using False d read_messages [OF d(6)]
    by (simp add: rename_session_def get_session_def list_messages_def migrate_messages_def rebuild_chat_markdown_def effect_defs session_of_def
        on_session_hit holds_session_def markdown_def Let_def)
qed

lemma compacted_bound: "int (length (compacted k now mid ms)) \<le> max 2 k"
  by (auto simp: compacted_def Let_def)

fun ops_stored :: "store_env \<Rightarrow> int \<Rightarrow> session_op list \<Rightarrow> string \<times> stored_message list \<Rightarrow> bool" where
  "ops_stored env k [] v = True"
| "ops_stored env k (op # ops) v =
     ((case op of AppendMessage m _ _ \<Rightarrow> stored env m | _ \<Rightarrow> True) \<and>
      (case spec_op k op v of None \<Rightarrow> ops_stored env k ops v | Some v1 \<Rightarrow> list_all (stored env) (snd v1) \<and> ops_stored env k ops v1))"

lemma op_step:
  assumes "holds_session env sid k v st" "ops_stored env k (op # ops) v"
  shows "\<exists>st' r. run_op env sid op st = (st', r) \<and> (r = Inr () \<longleftrightarrow> spec_op k op v \<noteq> None) \<and>
    holds_session env sid k (case spec_op k op v of None \<Rightarrow> v | Some v1 \<Rightarrow> v1) st'"
proof (cases v)
  case (Pair title ms)
  show ?thesis
  proof (cases op)
    case (AppendMessage m now mid)
    then show ?thesis using assms append_message_step [of env sid k title ms st m now mid] by (auto simp: Pair)
  next
    case (UpdateMessage mid content reasoning)
    then show ?thesis using assms update_message_step [where content = content and reasoning = reasoning and mid = mid and ms = ms, OF _ refl]
      by (fastforce simp: Pair split: option.splits)
  next
    case (RenameSession new edited now)
    then show ?thesis using assms rename_session_step [of env sid k title ms st new edited now] by (auto simp: Pair)
  qed
qed

lemma run_ops_refine:
  "holds_session env sid k v st \<Longrightarrow> ops_stored env k ops v \<Longrightarrow>
   fst (run_ops env sid ops st) = fst (spec_run k ops v) \<and> holds_session env sid k (snd (spec_run k ops v)) (snd (run_ops env sid ops st))"
proof (induction ops arbitrary: v st)
  case (Cons op ops)
  obtain st' r where r: "run_op env sid op st = (st', r)" "r = Inr () \<longleftrightarrow> spec_op k op v \<noteq> None"
    "holds_session env sid k (case spec_op k op v of None \<Rightarrow> v | Some v1 \<Rightarrow> v1) st'"
    using op_step [OF Cons.prems] by blast
  have "ops_stored env k ops (case spec_op k op v of None \<Rightarrow> v | Some v1 \<Rightarrow> v1)" using Cons.prems(2) by (auto split: option.splits)
  from Cons.IH [OF r(3) this] show ?case using r(1,2) by (cases "spec_op k op v") (auto split: prod.splits)
qed simp

lemma spec_op_bound: "spec_op k op v = Some v' \<Longrightarrow> int (length (snd v)) \<le> max 2 k \<Longrightarrow> int (length (snd v')) \<le> max 2 k"
proof -
  have "replace_message mid f ms = Some ms' \<Longrightarrow> length ms' = length ms" for mid f ms ms'
    by (induction ms arbitrary: ms') (auto split: if_splits)
  then show "spec_op k op v = Some v' \<Longrightarrow> int (length (snd v)) \<le> max 2 k \<Longrightarrow> int (length (snd v')) \<le> max 2 k"
    by (cases op; cases v) (auto simp: compacted_bound split: if_splits)
qed

lemma spec_run_bound: "int (length (snd v)) \<le> max 2 k \<Longrightarrow> int (length (snd (snd (spec_run k ops v)))) \<le> max 2 k"
proof (induction ops arbitrary: v)
  case (Cons op ops)
  then show ?case using spec_op_bound [of k op v]
    by (cases "spec_op k op v") (auto simp: case_prod_unfold)
qed simp

lemma created_session_holds:
  assumes "dict_get (ag_sessions st) sid = None" "en_parse_chat env (markdown title []) = []"
  shows "holds_session env sid (ag_max_messages st) (title, []) (fst (store_create_session sid title metadata now st))"
  using assms by (simp add: holds_session_def store_create_session_def effect_defs migrated_def file_of_messages_def markdown_def Let_def)

text \<open>
  C17: A new session implements a titled list of messages: after any sequence of appends, updates and renames each call returns
  or raises as the list specification says, reading the session gives the messages of the specification, their number
  is bounded by the retention limit (by 2 when the limit is smaller), and the session record and the Markdown chat show the same
  title and messages. The hypotheses: the new chat contains no message heading, and each message that is written
  is read back by \<^verbatim>\<open>json.loads\<close> and has no U+0085, at which \<^verbatim>\<open>splitlines\<close> would break its line.
\<close>

theorem store_implements_message_list:
  assumes "dict_get (ag_sessions st) sid = None" "en_parse_chat env (markdown title []) = []"
    and "ops_stored env (ag_max_messages st) ops (title, [])"
    and "run_ops env sid ops (fst (store_create_session sid title metadata now st)) = (bs, st')"
    and "spec_run (ag_max_messages st) ops (title, []) = (bs', title', ms)"
  shows "bs = bs' \<and> snd (list_messages env sid st') = Inr ms \<and> int (length ms) \<le> max 2 (ag_max_messages st) \<and>
    (\<exists>d. dict_get (ag_sessions st') sid = Some d \<and> se_title (sd_session d) = title' \<and> sd_chat d = Some (markdown title' ms))"
proof -
  have h: "bs = bs'" "holds_session env sid (ag_max_messages st) (title', ms) st'"
    using run_ops_refine [OF created_session_holds [OF assms(1,2), where metadata = metadata and now = now] assms(3)] assms(4,5) by simp_all
  from h(2) obtain d where d: "dict_get (ag_sessions st') sid = Some d" "se_title (sd_session d) = title'" "sd_chat d = Some (markdown title' ms)"
    "sd_lines (migrated env d) = Some (file_of_messages ms)" "list_all (stored env) ms" by (auto elim: holdsE)
  have "int (length ms) \<le> max 2 (ag_max_messages st)" using spec_run_bound [of "(title, [])" "ag_max_messages st" ops] assms(5) by simp
  then show ?thesis using h(1) d list_messages_hit [OF d(1,4,5)] by simp
qed

definition example_message :: "string \<Rightarrow> string \<Rightarrow> stored_message" where
  "example_message content mid = \<lparr>cm_role = ChatUser, cm_content = content, cm_reasoning = None, cm_created_at = ''t'', cm_message_id = mid\<rparr>"

definition example_messages :: "stored_message list" where
  "example_messages = [example_message (''say '' @ [CHR 0x22] @ ''hi'' @ [CHR 0x22, newline]) ''a'', example_message ''two'' ''b'', example_message ''three'' ''c'',
     example_message ''edited'' ''c'', retention_notice 2 ''n'' ''x'']"

definition example_env :: store_env where
  "example_env = \<lparr>en_loads = (\<lambda>l. of_option (ValueError ''json'') (find (\<lambda>m. message_line m = l) example_messages)),
     en_parse_chat = (\<lambda>_. []), en_new_id = (\<lambda>_. ''id'')\<rparr>"

definition example_ops :: "session_op list" where
  "example_ops = [AppendMessage (example_messages ! 0) ''n'' ''x'', RenameSession '' a  plan '' True ''n'', AppendMessage (example_messages ! 1) ''n'' ''x'',
     UpdateMessage ''z'' ''w'' None, AppendMessage (example_messages ! 2) ''n'' ''x'', UpdateMessage ''c'' ''edited'' None, RenameSession ''  '' True ''n'']"

text \<open>Three messages under a limit of two, a rename, an update, and two calls that raise.\<close>

theorem store_implements_message_list_witness:
  "\<exists>bs st'. run_ops example_env ''s'' example_ops (fst (store_create_session ''s'' ''new'' [] ''t'' \<lparr>ag_sessions = [], ag_max_messages = 2\<rparr>)) = (bs, st') \<and>
     bs = [True, True, True, False, True, True, False] \<and>
     snd (list_messages example_env ''s'' st') = Inr [retention_notice 2 ''n'' ''x'', example_message ''edited'' ''c'']"
proof -
  let ?st = "\<lparr>ag_sessions = [], ag_max_messages = 2\<rparr> :: agent_store"
  obtain bs st' where run: "run_ops example_env ''s'' example_ops (fst (store_create_session ''s'' ''new'' [] ''t'' ?st)) = (bs, st')" by fastforce
  have 1: "dict_get (ag_sessions ?st) ''s'' = None" by simp
  have 2: "en_parse_chat example_env (markdown ''new'' []) = []" by (simp add: example_env_def)
  have 3: "ops_stored example_env (ag_max_messages ?st) example_ops (''new'', [])" by code_simp
  have 4: "spec_run (ag_max_messages ?st) example_ops (''new'', []) =
    ([True, True, True, False, True, True, False], ''a plan'', [retention_notice 2 ''n'' ''x'', example_message ''edited'' ''c''])" by code_simp
  show ?thesis using store_implements_message_list [OF 1 2 3 run 4] run by blast
qed

text \<open>A content with U+0085 makes \<^verbatim>\<open>splitlines\<close> cut its line of JSON: the reader gets two pieces.\<close>

lemma next_line_breaks_session:
  "splitlines (file_of_messages [example_message [CHR 0x85] ''a'']) \<noteq> [message_line (example_message [CHR 0x85] ''a'')] \<and>
   length (splitlines (file_of_messages [example_message [CHR 0x85] ''a''])) = 2"
  by code_simp

end
