(* ===== verification/Agent_Tools.thy ===== *)
theory Agent_Tools
  imports Py_String Py_Float "HOL-Library.Sublist"
begin

text \<open>
  The tools a chat model can call (\<^verbatim>\<open>tools/src/exo_tools/agent_core/tools.py\<close>): listing, searching, reading and writing
  files, patching, running Python in a sandbox, searching the web. A tool maps its arguments to the effects it has outside - in
  order - and its result. A program that is started is an effect as it is started: command line, directory, environment, input
  and time limit; what the program then does is outside the model. The file system, in particular what \<^verbatim>\<open>Path.resolve\<close> makes of
  symbolic links, the server's environment variables, the outcome of a subprocess and the answer of the web are arguments; so is
  \<^verbatim>\<open>str\<close> of a JSON value that is neither text nor integer.
\<close>

section \<open>Paths\<close>

type_synonym path = "string list"

record file_system =
  fs_resolve :: "path \<Rightarrow> path"
  fs_home :: "string \<Rightarrow> path option"
  fs_exists :: "path \<Rightarrow> bool"
  fs_is_dir :: "path \<Rightarrow> bool"
  fs_is_file :: "path \<Rightarrow> bool"
  fs_writable :: "path \<Rightarrow> bool"
  fs_children :: "path \<Rightarrow> string list"
  fs_text :: "path \<Rightarrow> string"

fun split_on :: "char \<Rightarrow> string \<Rightarrow> string list" where
  "split_on c [] = [[]]"
| "split_on c (x # xs) = (if x = c then [] # split_on c xs else case split_on c xs of [] \<Rightarrow> [[x]] | p # ps \<Rightarrow> (x # p) # ps)"

text \<open>
  \<^verbatim>\<open>Path(text).expanduser()\<close>: whether the path is absolute, and its parts. \<open>fs_home\<close> gives the home of a user, for no name that of
  the server; without one \<^verbatim>\<open>expanduser\<close> raises.
\<close>

definition path_parts :: "string \<Rightarrow> path" where
  "path_parts x = filter (\<lambda>p. p \<noteq> [] \<and> p \<noteq> ''.'') (split_on (CHR ''/'') x)"

definition expand_path :: "file_system \<Rightarrow> string \<Rightarrow> (bool \<times> path) result" where
  "expand_path fs x =
     (if take 1 x = ''/'' then Inr (True, path_parts x)
      else case path_parts x of
        (CHR ''~'' # u) # ps \<Rightarrow>
          (case fs_home fs u of Some home \<Rightarrow> Inr (True, home @ ps) | None \<Rightarrow> Inl (RuntimeError ''Could not determine home directory.''))
      | ps \<Rightarrow> Inr (False, ps))"

record tool_executor =
  te_enabled :: bool
  te_web_search_enabled :: bool
  te_write_enabled :: bool
  te_python_enabled :: bool
  te_allowed_roots :: "path list"
  te_sandbox_root :: path
  te_use_macos_sandbox :: bool

text \<open>\<^verbatim>\<open>resolved == base or base in resolved.parents\<close>\<close>

definition is_under :: "path \<Rightarrow> path \<Rightarrow> bool" where
  "is_under base p = prefix base p"

definition resolve_allowed :: "tool_executor \<Rightarrow> file_system \<Rightarrow> string \<Rightarrow> path result" where
  "resolve_allowed te fs supplied =
     (if supplied = [] then Inl (ValueError ''path is required'')
      else rbind (expand_path fs supplied) (\<lambda>(absolute, raw).
      rbind (if absolute then Inr raw else case te_allowed_roots te of [] \<Rightarrow> Inl IndexError | base # _ \<Rightarrow> Inr (base @ raw)) (\<lambda>raw.
      let resolved = fs_resolve fs raw in
      if list_ex (\<lambda>base. is_under base resolved) (te_allowed_roots te) then Inr resolved
      else Inl (OtherError ''PermissionError''))))"

definition resolve_under :: "file_system \<Rightarrow> path \<Rightarrow> string \<Rightarrow> path result" where
  "resolve_under fs base supplied =
     rbind (expand_path fs supplied) (\<lambda>(absolute, raw).
     if absolute \<and> \<not> prefix base raw then Inl (OtherError ''PermissionError'')
     else let resolved = fs_resolve fs (if absolute then raw else base @ raw) in
       if is_under base resolved then Inr resolved else Inl (OtherError ''PermissionError''))"

definition safe_sandbox_id :: "string \<Rightarrow> string" where
  "safe_sandbox_id x =
     (let cleaned = map (\<lambda>c. if is_alnum c \<or> c \<in> set ''._-'' then c else CHR ''_'') x;
          stripped = rev (dropWhile (\<lambda>c. c \<in> set ''._-'') (rev (dropWhile (\<lambda>c. c \<in> set ''._-'') cleaned)))
      in if take 80 stripped = [] then ''default'' else take 80 stripped)"

fun path_text :: "path \<Rightarrow> string" where
  "path_text [] = []"
| "path_text [p] = p"
| "path_text (p # ps) = p @ CHR ''/'' # path_text ps"

definition display_path :: "tool_executor \<Rightarrow> file_system \<Rightarrow> path \<Rightarrow> string" where
  "display_path te fs p =
     (let resolved = fs_resolve fs p in
      case find (\<lambda>base. is_under base resolved) (te_allowed_roots te) of
        Some base \<Rightarrow> if resolved = base then ''.'' else path_text (drop (length base) resolved)
      | None \<Rightarrow> CHR ''/'' # path_text resolved)"

section \<open>Arguments\<close>

type_synonym tool_arguments = "(string, json) dict"

fun truthy :: "json \<Rightarrow> bool" where
  "truthy JNull = False"
| "truthy (JBool b) = b"
| "truthy (JInt n) = (n \<noteq> 0)"
| "truthy (JFloat x) = (x \<noteq> 0)"
| "truthy (JStr t) = (t \<noteq> [])"
| "truthy (JList l) = (l \<noteq> [])"
| "truthy (JObj o') = (o' \<noteq> [])"

fun py_str :: "(json \<Rightarrow> string) \<Rightarrow> json \<Rightarrow> string" where
  "py_str other (JStr t) = t"
| "py_str other (JInt n) = show_int n"
| "py_str other v = other v"

text \<open>\<^verbatim>\<open>str(arguments.get(key) or default)\<close>\<close>

definition text_argument :: "(json \<Rightarrow> string) \<Rightarrow> tool_arguments \<Rightarrow> string \<Rightarrow> string \<Rightarrow> string" where
  "text_argument other args key dflt = (case dict_get args key of Some v \<Rightarrow> if truthy v then py_str other v else dflt | None \<Rightarrow> dflt)"

fun parse_digits :: "string \<Rightarrow> int option" where
  "parse_digits ds = (if ds = [] \<or> \<not> list_all is_digit ds then None else Some (foldl (\<lambda>n c. n * 10 + int (of_char c) - 48) 0 ds))"

text \<open>\<^verbatim>\<open>int(text)\<close>: spaces around, a sign, digits with single underscores between them.\<close>

definition parse_int :: "string \<Rightarrow> int option" where
  "parse_int x =
     (let t = py_strip x; neg = take 1 t = ''-''; ds = (if take 1 t \<in> {''-'', ''+''} then drop 1 t else t); parts = split_on (CHR ''_'') ds in
      if list_all (\<lambda>p. p \<noteq> []) parts then map_option (\<lambda>n. if neg then - n else n) (parse_digits (concat parts)) else None)"

fun py_int :: "json option \<Rightarrow> int option" where
  "py_int (Some (JBool b)) = Some (if b then 1 else 0)"
| "py_int (Some (JInt n)) = Some n"
| "py_int (Some (JFloat x)) = Some (py_trunc x)"
| "py_int (Some (JStr t)) = parse_int t"
| "py_int _ = None"

definition bounded_int :: "json option \<Rightarrow> int \<Rightarrow> int \<Rightarrow> int \<Rightarrow> int" where
  "bounded_int v dflt minimum maximum =
     (let parsed = (case py_int v of Some n \<Rightarrow> n | None \<Rightarrow> dflt) in max minimum (min maximum parsed))"

section \<open>Tools\<close>

text \<open>
  A directory listed, the status of a path asked for (links followed), a file read, directories made, a file written; a program
  started with its command line, directory, environment, input and seconds, each \<open>None\<close> where the server's own is inherited; a
  query sent to the search engine.
\<close>

datatype tool_effect =
    Listed path
  | Stated path
  | FileRead path
  | MadeDirectories path
  | Written path string
  | Ran "string list" "path option" "(string \<times> string) list option" "string option" int
  | WebSearched string

text \<open>A subprocess ends with a code and its outputs, runs out of time, or cannot be started.\<close>

datatype process_outcome = Completed int string string | TimedOut | NotInstalled

type_synonym tool_result = "(string \<times> json) list"

text \<open>What a call did before it returned or raised, and the result or the exception.\<close>

type_synonym tool_run = "tool_effect list \<times> tool_result result"

definition with_path :: "path result \<Rightarrow> (path \<Rightarrow> tool_run) \<Rightarrow> tool_run" where
  "with_path r f = (case r of Inl e \<Rightarrow> ([], Inl e) | Inr p \<Rightarrow> f p)"

definition failure :: "string \<Rightarrow> tool_result" where
  "failure msg = [(''ok'', JBool False), (''error'', JStr msg)]"

definition last_chars :: "nat \<Rightarrow> string \<Rightarrow> string" where
  "last_chars n x = drop (length x - n) x"

definition entry :: "tool_executor \<Rightarrow> file_system \<Rightarrow> path \<Rightarrow> json" where
  "entry te fs p = JObj [(''path'', JStr (display_path te fs p)), (''type'', JStr (if fs_is_dir fs p then ''dir'' else ''file'')),
     (''bytes'', JInt (int (utf8_length (fs_text fs p))))]"

definition list_files :: "(json \<Rightarrow> string) \<Rightarrow> tool_executor \<Rightarrow> file_system \<Rightarrow> tool_arguments \<Rightarrow> tool_run" where
  "list_files other te fs args =
     with_path (resolve_allowed te fs (text_argument other args ''path'' ''.'')) (\<lambda>p.
     if \<not> fs_exists fs p then ([], Inr (failure ''path does not exist''))
     else if \<not> fs_is_dir fs p
     then ([Stated p], Inr [(''ok'', JBool True), (''path'', JStr (display_path te fs p)), (''entries'', JList [entry te fs p])])
     else let max_entries = bounded_int (dict_get args ''max_entries'') 100 1 500;
            children = map (\<lambda>c. p @ [c]) (take (nat max_entries) (sort (fs_children fs p)));
            entries = map (entry te fs) children
       in (Listed p # map Stated children, Inr [(''ok'', JBool True), (''path'', JStr (display_path te fs p)), (''entries'', JList entries)]))"

definition rg_command :: "string \<Rightarrow> path \<Rightarrow> string list" where
  "rg_command query p = [''rg'', ''--line-number'', ''--no-heading'', ''--color=never'', query, CHR ''/'' # path_text p]"

definition search_files ::
    "(json \<Rightarrow> string) \<Rightarrow> tool_executor \<Rightarrow> file_system \<Rightarrow> process_outcome \<Rightarrow> (string \<Rightarrow> string list) \<Rightarrow> tool_arguments \<Rightarrow> tool_run" where
  "search_files other te fs proc splitlines args =
     (let query = text_argument other args ''query'' [] in
      if query = [] then ([], Inr (failure ''search_files.query is required''))
      else with_path (resolve_allowed te fs (text_argument other args ''path'' ''.'')) (\<lambda>p.
        let max_results = bounded_int (dict_get args ''max_results'') 50 1 200 in
        case proc of
          NotInstalled \<Rightarrow> ([], Inr (failure ''rg is not installed''))
        | TimedOut \<Rightarrow> ([Ran (rg_command query p) None None None 15], Inr (failure ''search timed out''))
        | Completed code out err \<Rightarrow>
            ([Ran (rg_command query p) None None None 15],
             Inr [(''ok'', JBool (code \<in> {0, 1})), (''query'', JStr query), (''path'', JStr (display_path te fs p)),
               (''matches'', JList (map JStr (take (nat max_results) (splitlines out)))), (''stderr'', JStr (last_chars 2000 err))])))"

definition read_file :: "(json \<Rightarrow> string) \<Rightarrow> tool_executor \<Rightarrow> file_system \<Rightarrow> (nat \<Rightarrow> string \<Rightarrow> string) \<Rightarrow> tool_arguments \<Rightarrow> tool_run" where
  "read_file other te fs decode args =
     with_path (resolve_allowed te fs (text_argument other args ''path'' [])) (\<lambda>p.
     if \<not> fs_is_file fs p then ([], Inr (failure ''not a file''))
     else let max_bytes = bounded_int (dict_get args ''max_bytes'') 80000 1 200000 in
       ([FileRead p],
         Inr [(''ok'', JBool True), (''path'', JStr (display_path te fs p)), (''truncated'', JBool (int (utf8_length (fs_text fs p)) > max_bytes)),
          (''content'', JStr (decode (nat max_bytes) (fs_text fs p)))]))"

definition write_file :: "(json \<Rightarrow> string) \<Rightarrow> tool_executor \<Rightarrow> file_system \<Rightarrow> tool_arguments \<Rightarrow> tool_run" where
  "write_file other te fs args =
     with_path (resolve_allowed te fs (text_argument other args ''path'' [])) (\<lambda>p.
     let content = text_argument other args ''content'' [] in
     if \<not> fs_writable fs p then ([MadeDirectories (butlast p)], Inl (OtherError ''OSError''))
     else ([MadeDirectories (butlast p), Written p content],
       Inr [(''ok'', JBool True), (''path'', JStr (display_path te fs p)), (''bytes'', JInt (int (utf8_length content)))]))"

definition apply_patch :: "(json \<Rightarrow> string) \<Rightarrow> tool_executor \<Rightarrow> file_system \<Rightarrow> process_outcome \<Rightarrow> tool_arguments \<Rightarrow> tool_run" where
  "apply_patch other te fs proc args =
     (let patch = text_argument other args ''patch'' [] in
      if py_strip patch = [] then ([], Inr (failure ''patch is required''))
      else with_path (resolve_allowed te fs (text_argument other args ''cwd'' ''.'')) (\<lambda>cwd0.
        let cwd = (if fs_is_dir fs cwd0 then cwd0 else butlast cwd0) in
        case proc of
          NotInstalled \<Rightarrow> ([], Inl (OtherError ''FileNotFoundError''))
        | TimedOut \<Rightarrow> ([Ran [''patch'', ''-p0''] (Some cwd) None (Some patch) 30], Inr (failure ''patch timed out''))
        | Completed code out err \<Rightarrow>
            ([Ran [''patch'', ''-p0''] (Some cwd) None (Some patch) 30],
              Inr [(''ok'', JBool (code = 0)), (''cwd'', JStr (display_path te fs cwd)), (''stdout'', JStr (last_chars 8000 out)),
               (''stderr'', JStr (last_chars 8000 err)), (''returncode'', JInt code)])))"

text \<open>\<open>env\<close> holds the server's environment variables, \<open>executable\<close> its Python.\<close>

definition sandbox_quote :: "string \<Rightarrow> string" where
  "sandbox_quote x = concat (map (\<lambda>c. if c = CHR 0x5C \<or> c = CHR 0x22 then [CHR 0x5C, c] else [c]) x)"

definition macos_python_profile :: "path \<Rightarrow> string" where
  "macos_python_profile sandbox_dir =
     CHR 0x0A # concat (map (\<lambda>l. l @ [CHR 0x0A])
       [''(version 1)'', ''(deny default)'', ''(allow process*)'', ''(allow sysctl-read)'', ''(allow mach-lookup)'',
        ''(allow file-read-metadata)'', ''(allow file-read*)'', ''(allow file-write*'',
        ''  (subpath '' @ [CHR 0x22] @ sandbox_quote (CHR ''/'' # path_text sandbox_dir) @ [CHR 0x22] @ '')'',
        ''  (literal '' @ [CHR 0x22] @ ''/dev/null'' @ [CHR 0x22] @ ''))''])"

definition python_command :: "tool_executor \<Rightarrow> (string \<Rightarrow> string option) \<Rightarrow> string \<Rightarrow> path \<Rightarrow> string \<Rightarrow> string list" where
  "python_command te env executable sandbox_dir code =
     (if te_use_macos_sandbox te then [''sandbox-exec'', ''-p'', macos_python_profile sandbox_dir] else []) @
     [case env ''AGENTIC_PYTHON_BIN'' of Some bin \<Rightarrow> bin | None \<Rightarrow> executable, ''-I'', ''-c'', code]"

definition python_env :: "(string \<Rightarrow> string option) \<Rightarrow> path \<Rightarrow> (string \<times> string) list" where
  "python_env env sandbox_dir =
     map (\<lambda>k. (k, case env k of Some v \<Rightarrow> v | None \<Rightarrow> [])) [''PATH'', ''HOME'', ''PYTHONPATH''] @
     [(''PYTHONIOENCODING'', ''utf-8''), (''AGENTIC_SANDBOX_DIR'', CHR ''/'' # path_text sandbox_dir)]"

definition python_shell ::
    "(json \<Rightarrow> string) \<Rightarrow> tool_executor \<Rightarrow> file_system \<Rightarrow> (string \<Rightarrow> string option) \<Rightarrow> string \<Rightarrow> process_outcome \<Rightarrow> tool_arguments \<Rightarrow> tool_run" where
  "python_shell other te fs env executable proc args =
     (let code = text_argument other args ''code'' [] in
      if py_strip code = [] then ([], Inr (failure ''code is required''))
      else let sandbox_id = safe_sandbox_id (text_argument other args ''sandbox_id'' ''default'');
             sandbox_dir = fs_resolve fs (te_sandbox_root te @ [sandbox_id, ''python'']) in
        (case resolve_under fs sandbox_dir (text_argument other args ''cwd'' ''.'') of
           Inl e \<Rightarrow> ([MadeDirectories sandbox_dir], Inl e)
         | Inr cwd \<Rightarrow>
             let timeout_s = bounded_int (dict_get args ''timeout_s'') 20 1 60;
                 effs = [MadeDirectories sandbox_dir, MadeDirectories cwd,
                   Ran (python_command te env executable sandbox_dir code) (Some cwd) (Some (python_env env sandbox_dir)) None timeout_s] in
             (case proc of
                NotInstalled \<Rightarrow> ([MadeDirectories sandbox_dir, MadeDirectories cwd], Inl (OtherError ''FileNotFoundError''))
              | TimedOut \<Rightarrow> (effs, Inr (failure ''python timed out''))
              | Completed rc out err \<Rightarrow>
                  (effs, Inr [(''ok'', JBool (rc = 0)),
                    (''cwd'', JStr (if cwd = sandbox_dir then ''.'' else path_text (drop (length sandbox_dir) cwd))),
                    (''sandbox'', JStr (CHR ''/'' # path_text sandbox_dir)), (''sandboxed'', JBool (te_use_macos_sandbox te)),
                    (''stdout'', JStr (last_chars 20000 out)), (''stderr'', JStr (last_chars 20000 err)), (''returncode'', JInt rc)]))))"

section \<open>Searching the web\<close>

text \<open>\<^verbatim>\<open>_DuckDuckGoHTMLParser\<close>: the callbacks of the HTML parser; \<open>clean_url\<close> and \<open>unescape\<close> stand for the URL and entity functions used.\<close>

record search_hit =
  sh_title :: string
  sh_url :: string
  sh_snippet :: string

record ddg_parser =
  dp_results :: "search_hit list"
  dp_current :: "search_hit option"
  dp_capture_title :: bool
  dp_capture_snippet :: bool

definition new_ddg :: ddg_parser where
  "new_ddg = \<lparr>dp_results = [], dp_current = None, dp_capture_title = False, dp_capture_snippet = False\<rparr>"

datatype html_event = StartTag string "(string, string) dict" | EndTag string | HtmlText string

definition add_text :: "string \<Rightarrow> string \<Rightarrow> string" where
  "add_text old new = py_strip (old @ CHR '' '' # new)"

fun ddg_handle :: "(string \<Rightarrow> string) \<Rightarrow> (string \<Rightarrow> string) \<Rightarrow> html_event \<Rightarrow> ddg_parser \<Rightarrow> ddg_parser" where
  "ddg_handle clean_url unescape (StartTag tag attrs) p =
     (let css = dict_get_default attrs ''class'' [] in
      if tag = ''a'' \<and> sublist ''result__a'' css
      then p\<lparr>dp_current := Some \<lparr>sh_title = [], sh_url = clean_url (dict_get_default attrs ''href'' []), sh_snippet = []\<rparr>, dp_capture_title := True\<rparr>
      else if dp_current p \<noteq> None \<and> tag \<in> {''a'', ''div''} \<and> sublist ''result__snippet'' css then p\<lparr>dp_capture_snippet := True\<rparr>
      else p)"
| "ddg_handle clean_url unescape (EndTag tag) p =
     (let p' = (case dp_current p of
          Some hit \<Rightarrow>
            if tag = ''a'' \<and> dp_capture_title p
            then p\<lparr>dp_capture_title := False, dp_results := (if sh_title hit \<noteq> [] \<and> sh_url hit \<noteq> [] then dp_results p @ [hit] else dp_results p), dp_current := None\<rparr>
            else p
        | None \<Rightarrow> p)
      in if tag \<in> {''a'', ''div''} \<and> dp_capture_snippet p' then p'\<lparr>dp_capture_snippet := False\<rparr> else p')"
| "ddg_handle clean_url unescape (HtmlText data) p =
     (case dp_current p of
        None \<Rightarrow> p
      | Some hit \<Rightarrow>
          let text' = py_strip (unescape data) in
          if text' = [] then p
          else if dp_capture_title p then p\<lparr>dp_current := Some (hit\<lparr>sh_title := add_text (sh_title hit) text'\<rparr>)\<rparr>
          else if dp_capture_snippet p then p\<lparr>dp_current := Some (hit\<lparr>sh_snippet := add_text (sh_snippet hit) text'\<rparr>)\<rparr>
          else p)"

definition ddg_feed :: "(string \<Rightarrow> string) \<Rightarrow> (string \<Rightarrow> string) \<Rightarrow> html_event list \<Rightarrow> ddg_parser" where
  "ddg_feed clean_url unescape evs = foldl (\<lambda>p e. ddg_handle clean_url unescape e p) new_ddg evs"

text \<open>The events of the page the search engine answered with, or nothing when the request failed.\<close>

definition web_search :: "(json \<Rightarrow> string) \<Rightarrow> (string \<Rightarrow> string) \<Rightarrow> (string \<Rightarrow> string) \<Rightarrow> html_event list option \<Rightarrow> tool_arguments \<Rightarrow> tool_run" where
  "web_search other clean_url unescape page args =
     (let query = py_strip (text_argument other args ''query'' []) in
      if query = [] then ([], Inr (failure ''web_search.query is required''))
      else let max_results = bounded_int (dict_get args ''max_results'') 5 1 8 in
        case page of
          None \<Rightarrow> ([WebSearched query], Inr (failure ''web_search failed''))
        | Some evs \<Rightarrow>
            ([WebSearched query],
              Inr [(''ok'', JBool True), (''query'', JStr query),
               (''results'', JList (map (\<lambda>h. JObj [(''title'', JStr (sh_title h)), (''url'', JStr (sh_url h)), (''snippet'', JStr (sh_snippet h))])
                  (take (nat max_results) (dp_results (ddg_feed clean_url unescape evs))))),
               (''source'', JStr ''duckduckgo_html'')]))"

section \<open>Execution\<close>

record tool_world =
  tw_fs :: file_system
  tw_env :: "string \<Rightarrow> string option"
  tw_executable :: string
  tw_process :: process_outcome
  tw_page :: "html_event list option"
  tw_str :: "json \<Rightarrow> string"
  tw_splitlines :: "string \<Rightarrow> string list"
  tw_decode :: "nat \<Rightarrow> string \<Rightarrow> string"
  tw_clean_url :: "string \<Rightarrow> string"
  tw_error :: "py_error \<Rightarrow> string"
  tw_unescape :: "string \<Rightarrow> string"

definition tool_specs :: "tool_executor \<Rightarrow> string list" where
  "tool_specs te =
     (if \<not> te_enabled te then []
      else (if te_web_search_enabled te then [''web_search''] else []) @ [''list_files'', ''search_files'', ''read_file''] @
        (if te_write_enabled te then [''write_file'', ''apply_patch''] else []) @ (if te_python_enabled te then [''python_shell''] else []))"

definition dispatch :: "tool_executor \<Rightarrow> tool_world \<Rightarrow> string \<Rightarrow> tool_arguments \<Rightarrow> tool_run" where
  "dispatch te w name args =
     (if \<not> te_enabled te then ([], Inr (failure ''tools are disabled''))
      else if name = ''web_search'' \<and> te_web_search_enabled te then web_search (tw_str w) (tw_clean_url w) (tw_unescape w) (tw_page w) args
      else if name = ''list_files'' then list_files (tw_str w) te (tw_fs w) args
      else if name = ''search_files'' then search_files (tw_str w) te (tw_fs w) (tw_process w) (tw_splitlines w) args
      else if name = ''read_file'' then read_file (tw_str w) te (tw_fs w) (tw_decode w) args
      else if name = ''write_file'' \<and> te_write_enabled te then write_file (tw_str w) te (tw_fs w) args
      else if name = ''apply_patch'' \<and> te_write_enabled te then apply_patch (tw_str w) te (tw_fs w) (tw_process w) args
      else if name = ''python_shell'' \<and> te_python_enabled te then python_shell (tw_str w) te (tw_fs w) (tw_env w) (tw_executable w) (tw_process w) args
      else ([], Inr (failure (''unknown or disabled tool: '' @ name))))"

definition execute :: "tool_executor \<Rightarrow> tool_world \<Rightarrow> string \<Rightarrow> tool_arguments \<Rightarrow> tool_effect list \<times> tool_result" where
  "execute te w name args =
     (case dispatch te w name args of
        (effs, Inr r) \<Rightarrow> (effs, r)
      | (effs, Inl e) \<Rightarrow> (effs, [(''ok'', JBool False), (''error'', JStr (tw_error w e)), (''tool'', JStr name)]))"

section \<open>Confinement\<close>

definition sandbox_name :: "string \<Rightarrow> bool" where
  "sandbox_name x \<longleftrightarrow> x \<noteq> [] \<and> is_alnum (hd x) \<and> CHR ''/'' \<notin> set x \<and> length x \<le> 80"

definition allowed_path :: "tool_executor \<Rightarrow> path \<Rightarrow> bool" where
  "allowed_path te p \<longleftrightarrow> (\<exists>base \<in> set (te_allowed_roots te). is_under base p)"

definition is_sandbox :: "tool_executor \<Rightarrow> file_system \<Rightarrow> path \<Rightarrow> bool" where
  "is_sandbox te fs d \<longleftrightarrow> (\<exists>x. sandbox_name x \<and> d = fs_resolve fs (te_sandbox_root te @ [x, ''python'']))"

text \<open>
  Which effects stay where they belong. Files are listed, read and written, and their status asked for, under an allowed
  directory; directories are made there, the parent of an allowed directory included, which exists, and under the Python
  sandbox of a well-formed name. A program is started only in one of three ways: \<^verbatim>\<open>rg\<close> with fixed options, a query and a path
  under an allowed directory; \<^verbatim>\<open>patch\<close> in a directory under an allowed one; Python in a directory under the sandbox, told
  where that is, for at most a minute.
\<close>

definition search_ran :: "tool_executor \<Rightarrow> tool_effect \<Rightarrow> bool" where
  "search_ran te eff \<longleftrightarrow> (\<exists>query p. eff = Ran (rg_command query p) None None None 15 \<and> allowed_path te p)"

definition patch_ran :: "tool_executor \<Rightarrow> tool_effect \<Rightarrow> bool" where
  "patch_ran te eff \<longleftrightarrow> (\<exists>d patch. eff = Ran [''patch'', ''-p0''] (Some d) None (Some patch) 30 \<and> allowed_path te d)"

definition python_ran :: "tool_executor \<Rightarrow> tool_world \<Rightarrow> tool_effect \<Rightarrow> bool" where
  "python_ran te w eff \<longleftrightarrow>
     (\<exists>d cwd code t. eff = Ran (python_command te (tw_env w) (tw_executable w) d code) (Some cwd) (Some (python_env (tw_env w) d)) None t \<and>
        is_sandbox te (tw_fs w) d \<and> is_under d cwd \<and> 1 \<le> t \<and> t \<le> 60)"

fun confined :: "tool_executor \<Rightarrow> tool_world \<Rightarrow> tool_effect \<Rightarrow> bool" where
  "confined te w (Listed p) = allowed_path te p"
| "confined te w (Stated p) = allowed_path te p"
| "confined te w (FileRead p) = allowed_path te p"
| "confined te w (Written p _) = (allowed_path te p \<and> te_write_enabled te)"
| "confined te w (MadeDirectories p) =
     ((allowed_path te p \<or> p \<in> butlast ` set (te_allowed_roots te)) \<and> te_write_enabled te \<or>
      (\<exists>d. is_sandbox te (tw_fs w) d \<and> is_under d p) \<and> te_python_enabled te)"
| "confined te w (Ran argv cwd env inp t) =
     (search_ran te (Ran argv cwd env inp t) \<or> te_write_enabled te \<and> patch_ran te (Ran argv cwd env inp t) \<or>
      te_python_enabled te \<and> python_ran te w (Ran argv cwd env inp t))"
| "confined te w (WebSearched _) = te_web_search_enabled te"

lemma bounded_int_bounds: "a \<le> b \<Longrightarrow> a \<le> bounded_int v d a b \<and> bounded_int v d a b \<le> b"
  by (simp add: bounded_int_def Let_def)

lemma safe_sandbox_id_name: "sandbox_name (safe_sandbox_id x)"
proof -
  define cleaned where "cleaned = map (\<lambda>c. if is_alnum c \<or> c \<in> set ''._-'' then c else CHR ''_'') x"
  define front where "front = dropWhile (\<lambda>c. c \<in> set ''._-'') cleaned"
  define stripped where "stripped = rev (dropWhile (\<lambda>c. c \<in> set ''._-'') (rev front))"
  have ok: "is_alnum c \<or> c \<in> set ''._-''" if "c \<in> set cleaned" for c using that by (auto simp: cleaned_def)
  have sub: "set front \<subseteq> set cleaned" "set stripped \<subseteq> set front"
    by (auto simp: front_def stripped_def dest: set_dropWhileD)
  have slash: "CHR ''/'' \<notin> set stripped" 
  proof -
    have "\<not> is_alnum (CHR ''/'')" by (simp add: is_alnum_def)
    then show ?thesis using ok [of "CHR ''/''"] sub by auto
  qed
  have hd: "is_alnum (hd stripped)" if "stripped \<noteq> []"
  proof -
    have "prefix stripped front" unfolding stripped_def
      by (metis prefixI rev_append rev_rev_ident takeWhile_dropWhile_id)
    then have "front \<noteq> []" "hd stripped = hd front" using that by (auto simp: prefix_def)
    moreover have "hd front \<notin> set ''._-''" using hd_dropWhile [of "\<lambda>c. c \<in> set ''._-''" cleaned] \<open>front \<noteq> []\<close> by (simp add: front_def)
    moreover have "hd front \<in> set cleaned" using hd_in_set [OF \<open>front \<noteq> []\<close>] sub(1) by blast
    ultimately show ?thesis using ok [of "hd front"] by auto
  qed
  have "safe_sandbox_id x = (if take 80 stripped = [] then ''default'' else take 80 stripped)"
    by (simp only: safe_sandbox_id_def Let_def cleaned_def front_def stripped_def)
  moreover have "sandbox_name ''default''" by (simp add: sandbox_name_def is_alnum_def)
  moreover have "sandbox_name (take 80 stripped)" if "take 80 stripped \<noteq> []"
    using that hd slash by (auto simp: sandbox_name_def hd_take dest: in_set_takeD)
  ultimately show ?thesis by auto
qed

lemma resolve_allowed_allowed: "resolve_allowed te fs x = Inr p \<Longrightarrow> allowed_path te p"
  by (auto simp: resolve_allowed_def Let_def allowed_path_def list_ex_iff split: if_splits)

lemma resolve_under_under: "resolve_under fs d x = Inr p \<Longrightarrow> is_under d p"
  by (auto simp: resolve_under_def Let_def split: if_splits)

lemma butlast_under: "is_under base p \<Longrightarrow> p = base \<or> is_under base (butlast p)"
  by (auto simp: is_under_def prefix_def butlast_append)

lemma with_path_effects: "eff \<in> set (fst (with_path r f)) \<Longrightarrow> \<exists>p. r = Inr p \<and> eff \<in> set (fst (f p))"
  by (auto simp: with_path_def split: sum.splits)

lemma child_allowed: "allowed_path te p \<Longrightarrow> allowed_path te (p @ [c])"
  by (auto simp: allowed_path_def is_under_def intro: prefix_prefix)

lemma list_files_confined: "eff \<in> set (fst (list_files other te (tw_fs w) args)) \<Longrightarrow> confined te w eff"
  by (auto simp: list_files_def Let_def child_allowed dest!: with_path_effects resolve_allowed_allowed split: if_splits)

lemma search_files_confined: "eff \<in> set (fst (search_files other te (tw_fs w) proc sl args)) \<Longrightarrow> confined te w eff"
  by (auto simp: search_files_def search_ran_def Let_def dest!: with_path_effects resolve_allowed_allowed split: if_splits process_outcome.splits)

lemma read_file_confined: "eff \<in> set (fst (read_file other te (tw_fs w) dec args)) \<Longrightarrow> confined te w eff"
  by (auto simp: read_file_def Let_def dest!: with_path_effects resolve_allowed_allowed split: if_splits)

lemma write_file_confined:
  assumes "eff \<in> set (fst (write_file other te (tw_fs w) args))" "te_write_enabled te"
  shows "confined te w eff"
proof -
  obtain p where p: "allowed_path te p" "eff = MadeDirectories (butlast p) \<or> (\<exists>c. eff = Written p c)"
    using assms(1) by (auto simp: write_file_def Let_def dest!: with_path_effects resolve_allowed_allowed split: if_splits)
  obtain base where "base \<in> set (te_allowed_roots te)" "is_under base p" using p(1) by (auto simp: allowed_path_def)
  then have "allowed_path te (butlast p) \<or> butlast p \<in> butlast ` set (te_allowed_roots te)"
    using butlast_under [of base p] by (auto simp: allowed_path_def)
  then show ?thesis using p assms(2) by auto
qed

lemma apply_patch_confined:
  assumes "eff \<in> set (fst (apply_patch other te (tw_fs w) proc args))" "te_write_enabled te"
    and "\<forall>base \<in> set (te_allowed_roots te). fs_is_dir (tw_fs w) base"
  shows "confined te w eff"
proof -
  obtain p c where p: "allowed_path te p"
    "eff = Ran [''patch'', ''-p0''] (Some (if fs_is_dir (tw_fs w) p then p else butlast p)) None (Some c) 30"
    using assms(1) by (auto simp: apply_patch_def Let_def dest!: with_path_effects resolve_allowed_allowed split: if_splits process_outcome.splits)
  obtain base where b: "base \<in> set (te_allowed_roots te)" "is_under base p" using p(1) by (auto simp: allowed_path_def)
  have "allowed_path te (if fs_is_dir (tw_fs w) p then p else butlast p)"
    using b butlast_under [OF b(2)] assms(3) p(1) by (auto simp: allowed_path_def)
  then have "patch_ran te eff" unfolding patch_ran_def using p(2) by blast
  then show ?thesis using assms(2) p(2) by simp
qed

lemma python_shell_confined:
  assumes "eff \<in> set (fst (python_shell other te (tw_fs w) (tw_env w) (tw_executable w) proc args))" "te_python_enabled te"
  shows "confined te w eff"
proof -
  define d where "d = fs_resolve (tw_fs w) (te_sandbox_root te @ [safe_sandbox_id (text_argument other args ''sandbox_id'' ''default''), ''python''])"
  have sb: "is_sandbox te (tw_fs w) d" "is_under d d" using safe_sandbox_id_name by (auto simp: is_sandbox_def d_def is_under_def)
  consider "eff = MadeDirectories d" | cwd where "is_under d cwd" "eff = MadeDirectories cwd"
    | cwd c where "is_under d cwd" "eff = Ran (python_command te (tw_env w) (tw_executable w) d c) (Some cwd) (Some (python_env (tw_env w) d)) None
          (bounded_int (dict_get args ''timeout_s'') 20 1 60)"
    using assms(1) by (auto simp: python_shell_def Let_def d_def [symmetric] dest: resolve_under_under split: if_splits sum.splits process_outcome.splits)
  then show ?thesis
  proof cases
    case (3 cwd c)
    have "1 \<le> bounded_int (dict_get args ''timeout_s'') 20 1 60 \<and> bounded_int (dict_get args ''timeout_s'') 20 1 60 \<le> 60"
      by (rule bounded_int_bounds) simp
    with 3 sb(1) have "python_ran te w eff"
      unfolding python_ran_def by (intro exI [of _ d] exI [of _ cwd] exI [of _ c] exI [of _ "bounded_int (dict_get args ''timeout_s'') 20 1 60"]) simp
    then show ?thesis using 3(2) assms(2) by simp
  qed (use sb assms(2) in auto)
qed

lemma execute_confined:
  assumes "eff \<in> set (fst (execute te w name args))" "\<forall>base \<in> set (te_allowed_roots te). fs_is_dir (tw_fs w) base"
  shows "confined te w eff \<and> name \<in> set (tool_specs te)"
proof -
  have eff: "eff \<in> set (fst (dispatch te w name args))" using assms(1) by (auto simp: execute_def split: prod.splits sum.splits)
  have web: "confined te w eff" if "eff \<in> set (fst (web_search other cl un pg args))" "te_web_search_enabled te" for other cl un pg
    using that by (auto simp: web_search_def Let_def split: if_splits option.splits)
  have "confined te w eff"
    using eff assms(2) unfolding dispatch_def
    by (auto split: if_splits intro: web list_files_confined search_files_confined read_file_confined write_file_confined
        apply_patch_confined python_shell_confined)
  moreover have "name \<in> set (tool_specs te)" using eff unfolding dispatch_def tool_specs_def by (auto split: if_splits)
  ultimately show ?thesis by blast
qed

text \<open>
  C8: the tools themselves stay where they belong. Whatever tool the model calls with whatever arguments - absolute paths, parent
  directories, links, homes of other users, invented sandbox names -, the server lists, reads and writes files only under the
  allowed directories, makes directories only there and in the sandbox that a single well-formed name has below the sandbox
  root, and starts no other program than \<^verbatim>\<open>rg\<close> on a path under an allowed directory, \<^verbatim>\<open>patch\<close> in such a directory, and Python in
  the sandbox for at most a minute, under the macOS profile of that sandbox where one is used; a tool that is switched off
  does nothing. What a program does once it is started is not covered: \<^verbatim>\<open>rg\<close> takes a query that begins with a dash as an option
  (\<open>search_query_is_option\<close>), \<^verbatim>\<open>patch\<close> takes the names of the files from the patch, and Python code without the profile can do what
  the server can. The allowed directories are taken to exist.
\<close>

theorem tools_are_confined:
  assumes "eff \<in> set (fst (execute te w name args))" "\<forall>base \<in> set (te_allowed_roots te). fs_is_dir (tw_fs w) base"
  shows "confined te w eff \<and> name \<in> set (tool_specs te)"
  by (rule execute_confined [OF assms])

text \<open>The options a search runs with are the fixed ones unless the query begins with a dash: then the query is one more.\<close>

definition rg_options :: "string list \<Rightarrow> string list" where
  "rg_options argv = filter (\<lambda>a. take 1 a = ''-'') (drop 1 argv)"

lemma search_query_is_option:
  "rg_options (rg_command query p) = [''--line-number'', ''--no-heading'', ''--color=never''] @ (if take 1 query = ''-'' then [query] else [])"
  by (simp add: rg_options_def rg_command_def)

text \<open>
  The snippets of search results are always empty: the current result is given up when its title ends, before the snippet begins.
\<close>

definition snippetless :: "ddg_parser \<Rightarrow> bool" where
  "snippetless p \<longleftrightarrow> (dp_current p \<noteq> None \<longrightarrow> dp_capture_title p) \<and> (\<forall>h \<in> set (dp_results p) \<union> set_option (dp_current p). sh_snippet h = [])"

lemma ddg_snippetless: "snippetless p \<Longrightarrow> snippetless (ddg_handle cl un e p)"
  by (cases e) (auto simp: snippetless_def Let_def split: option.splits if_splits)

lemma search_snippets_always_empty: "h \<in> set (dp_results (ddg_feed cl un evs)) \<Longrightarrow> sh_snippet h = []"
proof -
  have "snippetless (ddg_feed cl un evs)" unfolding ddg_feed_def
    by (rule foldl_invariant) (auto intro: ddg_snippetless, simp add: new_ddg_def snippetless_def)
  then show "h \<in> set (dp_results (ddg_feed cl un evs)) \<Longrightarrow> sh_snippet h = []" by (auto simp: snippetless_def)
qed

definition demo_fs :: file_system where
  "demo_fs = \<lparr>fs_resolve = (\<lambda>p. p), fs_home = (\<lambda>u. if u = [] then Some [''home''] else None), fs_exists = (\<lambda>_. True), fs_is_dir = (\<lambda>p. p = [''work'']), fs_is_file = (\<lambda>_. True),
     fs_writable = (\<lambda>_. True), fs_children = (\<lambda>_. []), fs_text = (\<lambda>_. [])\<rparr>"

definition demo_tools :: tool_executor where
  "demo_tools = \<lparr>te_enabled = True, te_web_search_enabled = False, te_write_enabled = True, te_python_enabled = False,
     te_allowed_roots = [[''work'']], te_sandbox_root = [''boxes''], te_use_macos_sandbox = False\<rparr>"

definition demo_world :: tool_world where
  "demo_world = \<lparr>tw_fs = demo_fs, tw_env = (\<lambda>_. None), tw_executable = ''python3'', tw_process = TimedOut, tw_page = None, tw_str = (\<lambda>_. []), tw_splitlines = (\<lambda>x. [x]), tw_decode = take,
     tw_clean_url = (\<lambda>x. x), tw_error = (\<lambda>_. []), tw_unescape = (\<lambda>x. x)\<rparr>"

theorem tools_are_confined_witness:
  "Written [''work'', ''a''] ''x'' \<in> set (fst (execute demo_tools demo_world ''write_file'' [(''path'', JStr ''a''), (''content'', JStr ''x'')])) \<and>
   allowed_path demo_tools [''work'', ''a'']"
proof -
  have e: "Written [''work'', ''a''] ''x'' \<in> set (fst (execute demo_tools demo_world ''write_file'' [(''path'', JStr ''a''), (''content'', JStr ''x'')]))"
    by code_simp
  moreover have "\<forall>base \<in> set (te_allowed_roots demo_tools). fs_is_dir (tw_fs demo_world) base" by (simp add: demo_tools_def demo_world_def demo_fs_def)
  ultimately show ?thesis using tools_are_confined [OF e] by simp
qed

text \<open>A query that names a file of patterns outside every allowed directory reaches \<^verbatim>\<open>rg\<close> as an option.\<close>

lemma search_outside_allowed:
  "case execute demo_tools demo_world ''search_files'' [(''query'', JStr ''-f/etc/passwd'')] of
     (effs, _) \<Rightarrow> effs = [Ran (rg_command ''-f/etc/passwd'' [''work'']) None None None 15] \<and>
       ''-f/etc/passwd'' \<in> set (rg_options (rg_command ''-f/etc/passwd'' [''work'']))"
  by code_simp

end
