(* ===== verification/Agent_Resources.thy ===== *)
theory Agent_Resources
  imports Effects Agent_Tools
begin

text \<open>
  Resource allocations of chat sessions (\<^verbatim>\<open>tools/src/exo_tools/agent_core/resources.py\<close>, \<^verbatim>\<open>ResourceAllocation\<close> of \<^verbatim>\<open>schemas.py\<close>):
  the allocation file of each session, the disk quota, and the semaphores of the compute slots. A semaphore is an object of its
  own that its holders keep when the manager forgets it. The size of a session's directory is an argument.
\<close>

section \<open>Allocations\<close>

record allocation =
  al_session_id :: string
  al_compute_slots :: int
  al_compute_nodes :: "string list"
  al_disk_quota_bytes :: int
  al_memory_message_limit :: int
  al_memory_char_limit :: int
  al_created_at :: string
  al_updated_at :: string

record semaphore =
  sm_slots :: int
  sm_free :: int

record resources =
  rm_files :: "(string, allocation) dict"
  rm_semaphores :: "(string, int \<times> nat) dict"
  rm_objects :: "semaphore list"

definition mk_resources :: resources where
  "mk_resources = \<lparr>rm_files = [], rm_semaphores = [], rm_objects = []\<rparr>"

definition allocation_dict :: "allocation \<Rightarrow> (string, json) dict" where
  "allocation_dict a = [(''session_id'', JStr (al_session_id a)), (''compute_slots'', JInt (al_compute_slots a)),
     (''compute_nodes'', JList (map JStr (al_compute_nodes a))), (''disk_quota_bytes'', JInt (al_disk_quota_bytes a)),
     (''memory_message_limit'', JInt (al_memory_message_limit a)), (''memory_char_limit'', JInt (al_memory_char_limit a)),
     (''created_at'', JStr (al_created_at a)), (''updated_at'', JStr (al_updated_at a))]"

definition dict_union :: "('k, 'v) dict \<Rightarrow> ('k, 'v) dict \<Rightarrow> ('k, 'v) dict" where
  "dict_union d e = foldl (\<lambda>d p. dict_set d (fst p) (snd p)) d e"

definition int_of_json :: "json \<Rightarrow> int result" where
  "int_of_json v =
     (case py_int (Some v) of
        Some n \<Rightarrow> Inr n
      | None \<Rightarrow> Inl (case v of JStr _ \<Rightarrow> ValueError ''invalid literal for int()'' | _ \<Rightarrow> OtherError ''TypeError''))"

definition positive_int :: "json \<Rightarrow> string \<Rightarrow> int result" where
  "positive_int v name = rbind (int_of_json v) (\<lambda>n. if n < 1 then Inl (ValueError (name @ '' must be positive'')) else Inr n)"

definition default_nodes :: "string list" where
  "default_nodes = [''node2'', ''node3'', ''node4'']"

text \<open>\<^verbatim>\<open>list(value)\<close>, and the check that it has texts only.\<close>

fun json_list :: "json \<Rightarrow> json list result" where
  "json_list (JList l) = Inr l"
| "json_list (JStr t) = Inr (map (\<lambda>c. JStr [c]) t)"
| "json_list (JObj o') = Inr (map (\<lambda>p. JStr (fst p)) o')"
| "json_list _ = Inl (OtherError ''TypeError'')"

fun node_name :: "json \<Rightarrow> string result" where
  "node_name (JStr t) = (if t = [] then Inl (ValueError ''compute_nodes must contain node names'') else Inr t)"
| "node_name _ = Inl (ValueError ''compute_nodes must contain node names'')"

definition compute_nodes :: "json option \<Rightarrow> string list result" where
  "compute_nodes v =
     (case v of
        Some j \<Rightarrow> if truthy j
          then rbind (json_list j) (\<lambda>nodes. if nodes = [] then Inl (ValueError ''compute_nodes must contain node names'') else rmap node_name nodes)
          else Inr default_nodes
      | None \<Rightarrow> Inr default_nodes)"

definition allocation_of :: "string \<Rightarrow> (string, json) dict \<Rightarrow> string \<Rightarrow> allocation result" where
  "allocation_of sid values now =
     rbind (positive_int (dict_get_default values ''compute_slots'' (JInt 1)) ''compute_slots'') (\<lambda>slots.
     rbind (compute_nodes (dict_get values ''compute_nodes'')) (\<lambda>nodes.
     rbind (positive_int (dict_get_default values ''disk_quota_bytes'' (JInt 5000000000)) ''disk_quota_bytes'') (\<lambda>quota.
     rbind (positive_int (dict_get_default values ''memory_message_limit'' (JInt 24)) ''memory_message_limit'') (\<lambda>messages.
     rbind (positive_int (dict_get_default values ''memory_char_limit'' (JInt 48000)) ''memory_char_limit'') (\<lambda>chars.
     Inr \<lparr>al_session_id = sid, al_compute_slots = slots, al_compute_nodes = nodes, al_disk_quota_bytes = quota,
       al_memory_message_limit = messages, al_memory_char_limit = chars, al_created_at = now, al_updated_at = now\<rparr>)))))"

definition allocate :: "int \<Rightarrow> string \<Rightarrow> (string, json) dict \<Rightarrow> string \<Rightarrow> string \<Rightarrow> (resources, allocation) action" where
  "allocate used sid overrides now now' =
     with_state (\<lambda>rm.
     let values = dict_union (case dict_get (rm_files rm) sid of None \<Rightarrow> [] | Some a \<Rightarrow> allocation_dict a) overrides in
     sbind (lift_result (allocation_of sid (dict_set values ''session_id'' (JStr sid)) now)) (\<lambda>a.
     if used > al_disk_quota_bytes a then raises (ValueError ''disk_quota_bytes is below current usage'')
     else let a' = (case dict_get (rm_files rm) sid of None \<Rightarrow> a | Some c \<Rightarrow> a\<lparr>al_created_at := al_created_at c, al_updated_at := now'\<rparr>) in
       sbind (upd (\<lambda>rm. rm\<lparr>rm_files := dict_set (rm_files rm) sid a'\<rparr>)) (\<lambda>_.
       sbind (upd (\<lambda>rm. rm\<lparr>rm_semaphores := dict_del (rm_semaphores rm) sid\<rparr>)) (\<lambda>_. ret a'))))"

definition get_allocation :: "int \<Rightarrow> string \<Rightarrow> string \<Rightarrow> (resources, allocation) action" where
  "get_allocation used sid now =
     with_state (\<lambda>rm. case dict_get (rm_files rm) sid of None \<Rightarrow> allocate used sid [] now now | Some a \<Rightarrow> ret a)"

definition session_usage :: "int \<Rightarrow> string \<Rightarrow> string \<Rightarrow> (resources, int \<times> int \<times> int) action" where
  "session_usage used sid now =
     sbind (get_allocation used sid now) (\<lambda>a. ret (used, used, max 0 (al_disk_quota_bytes a - used)))"

definition ensure_disk_available :: "int \<Rightarrow> string \<Rightarrow> int \<Rightarrow> string \<Rightarrow> (resources, unit) action" where
  "ensure_disk_available used sid requested now =
     sbind (get_allocation used sid now) (\<lambda>a.
     sbind (session_usage used sid now) (\<lambda>(_, used_bytes, _).
     if used_bytes + requested > al_disk_quota_bytes a then raises (RuntimeError ''session disk quota exceeded'') else ret ()))"

section \<open>Compute slots\<close>

definition semaphore_of :: "string \<Rightarrow> int \<Rightarrow> (resources, nat) action" where
  "semaphore_of sid slots =
     with_state (\<lambda>rm.
     case dict_get (rm_semaphores rm) sid of
       Some (n, i) \<Rightarrow>
         if n = slots then ret i
         else sbind (upd (\<lambda>rm. rm\<lparr>rm_semaphores := dict_set (rm_semaphores rm) sid (slots, length (rm_objects rm)),
                rm_objects := rm_objects rm @ [\<lparr>sm_slots = slots, sm_free = slots\<rparr>]\<rparr>)) (\<lambda>_. ret (length (rm_objects rm)))
     | None \<Rightarrow> sbind (upd (\<lambda>rm. rm\<lparr>rm_semaphores := dict_set (rm_semaphores rm) sid (slots, length (rm_objects rm)),
                rm_objects := rm_objects rm @ [\<lparr>sm_slots = slots, sm_free = slots\<rparr>]\<rparr>)) (\<lambda>_. ret (length (rm_objects rm))))"

text \<open>
  \<^verbatim>\<open>compute_slot\<close> in three steps: the holder finds its semaphore (the allocation is read just before, without the lock), acquires it when a slot is free (after the timeout it
  raises instead), and releases it. A \<^verbatim>\<open>BoundedSemaphore\<close> raises when it is released too often.
\<close>

definition compute_slot_enter :: "int \<Rightarrow> string \<Rightarrow> string \<Rightarrow> (resources, nat) action" where
  "compute_slot_enter used sid now = sbind (get_allocation used sid now) (\<lambda>a. semaphore_of sid (al_compute_slots a))"

definition acquire_slot :: "nat \<Rightarrow> (resources, unit) action" where
  "acquire_slot i =
     with_state (\<lambda>rm.
     if sm_free (rm_objects rm ! i) < 1 then raises (RuntimeError ''session compute allocation is busy'')
     else upd (\<lambda>rm. rm\<lparr>rm_objects := (rm_objects rm)[i := (rm_objects rm ! i)\<lparr>sm_free := sm_free (rm_objects rm ! i) - 1\<rparr>]\<rparr>))"

definition release_slot :: "nat \<Rightarrow> (resources, unit) action" where
  "release_slot i =
     with_state (\<lambda>rm.
     if sm_free (rm_objects rm ! i) \<ge> sm_slots (rm_objects rm ! i) then raises (ValueError ''Semaphore released too many times'')
     else upd (\<lambda>rm. rm\<lparr>rm_objects := (rm_objects rm)[i := (rm_objects rm ! i)\<lparr>sm_free := sm_free (rm_objects rm ! i) + 1\<rparr>]\<rparr>))"

section \<open>Allocations are sound\<close>

definition sound_allocation :: "string \<Rightarrow> allocation \<Rightarrow> bool" where
  "sound_allocation sid a \<longleftrightarrow> al_session_id a = sid \<and> 1 \<le> al_compute_slots a \<and> 1 \<le> al_disk_quota_bytes a \<and> 1 \<le> al_memory_message_limit a \<and>
     1 \<le> al_memory_char_limit a \<and> al_compute_nodes a \<noteq> [] \<and> [] \<notin> set (al_compute_nodes a)"

definition sound_files :: "resources \<Rightarrow> bool" where
  "sound_files rm \<longleftrightarrow> (\<forall>sid a. dict_get (rm_files rm) sid = Some a \<longrightarrow> sound_allocation sid a)"

lemma positive_int_pos: "positive_int v name = Inr n \<Longrightarrow> 1 \<le> n"
  by (auto simp: positive_int_def split: if_splits)

lemma node_name_nonempty: "node_name v = Inr t \<Longrightarrow> t \<noteq> []"
  by (cases v) (auto split: if_splits)

lemma compute_nodes_sound: "compute_nodes v = Inr ns \<Longrightarrow> ns \<noteq> [] \<and> [] \<notin> set ns"
proof -
  have "rmap node_name js = Inr ns \<Longrightarrow> [] \<notin> set ns" for js ns
    by (induction js arbitrary: ns) (auto dest: node_name_nonempty)
  then show "compute_nodes v = Inr ns \<Longrightarrow> ns \<noteq> [] \<and> [] \<notin> set ns"
    by (auto simp: compute_nodes_def default_nodes_def split: option.splits if_splits dest: rmap_length)
qed

lemma allocation_of_sound: "allocation_of sid values now = Inr a \<Longrightarrow> sound_allocation sid a"
  by (auto simp: allocation_of_def sound_allocation_def dest: positive_int_pos compute_nodes_sound)

lemma allocate_returns:
  assumes "allocate used sid overrides now now' rm = (rm', Inr a)"
  shows "sound_allocation sid a \<and> used \<le> al_disk_quota_bytes a \<and> rm_files rm' = dict_set (rm_files rm) sid a \<and> rm_objects rm' = rm_objects rm"
  using assms by (auto simp: allocate_def effect_defs Let_def sound_allocation_def split: if_splits option.splits sum.splits
      dest!: allocation_of_sound)

lemma allocate_raises: "allocate used sid overrides now now' rm = (rm', Inl e) \<Longrightarrow> rm' = rm"
  by (auto simp: allocate_def effect_defs Let_def split: if_splits option.splits sum.splits)

lemma get_allocation_hit: "dict_get (rm_files rm) sid = Some a \<Longrightarrow> get_allocation used sid now rm = (rm, Inr a)"
  by (simp add: get_allocation_def effect_defs)

lemma get_allocation_keeps: "keeps sound_files (get_allocation used sid now)"
proof (rule keepsI)
  fix rm assume rm: "sound_files rm"
  obtain rm' r where r: "allocate used sid [] now now rm = (rm', r)" by fastforce
  show "sound_files (fst (get_allocation used sid now rm))"
  proof (cases r)
    case (Inl e)
    then show ?thesis using rm allocate_raises [of used sid "[]" now now rm rm' e] r by (auto simp: get_allocation_def effect_defs split: option.splits)
  next
    case (Inr a)
    then show ?thesis using rm allocate_returns [of used sid "[]" now now rm rm' a] r
      by (auto simp: get_allocation_def effect_defs sound_files_def split: option.splits)
  qed
qed

text \<open>
  A message is accepted exactly when it fits under the disk quota of its session, and asking changes nothing.
\<close>

theorem disk_quota_enforced:
  assumes "dict_get (rm_files rm) sid = Some a"
  shows "ensure_disk_available used sid requested now rm =
    (rm, if used + requested \<le> al_disk_quota_bytes a then Inr () else Inl (RuntimeError ''session disk quota exceeded''))"
  by (simp add: ensure_disk_available_def session_usage_def effect_defs get_allocation_hit [OF assms])

section \<open>Compute slots are bounded\<close>

text \<open>
  The holders of the slots: those that found their semaphore and wait for it, and those that hold it.
\<close>

record slot_world =
  sw_resources :: resources
  sw_waiting :: "(string \<times> nat) list"
  sw_holding :: "(string \<times> nat) list"

datatype slot_label =
    SlotEnter string int string
  | SlotAcquire nat
  | SlotTimeout nat
  | SlotRelease nat
  | SlotAllocate string "(string, json) dict" int string string

definition remove_nth :: "nat \<Rightarrow> 'a list \<Rightarrow> 'a list" where
  "remove_nth k xs = take k xs @ drop (Suc k) xs"

fun slot_next :: "slot_label \<Rightarrow> slot_world \<Rightarrow> slot_world" where
  "slot_next (SlotEnter sid used now) w =
     (case compute_slot_enter used sid now (sw_resources w) of
        (rm, Inr i) \<Rightarrow> w\<lparr>sw_resources := rm, sw_waiting := sw_waiting w @ [(sid, i)]\<rparr>
      | (rm, Inl _) \<Rightarrow> w\<lparr>sw_resources := rm\<rparr>)"
| "slot_next (SlotAcquire k) w =
     (if length (sw_waiting w) \<le> k then w
      else case acquire_slot (snd (sw_waiting w ! k)) (sw_resources w) of
        (rm, Inr _) \<Rightarrow> w\<lparr>sw_resources := rm, sw_waiting := remove_nth k (sw_waiting w), sw_holding := sw_holding w @ [sw_waiting w ! k]\<rparr>
      | (rm, Inl _) \<Rightarrow> w\<lparr>sw_resources := rm\<rparr>)"
| "slot_next (SlotTimeout k) w = w\<lparr>sw_waiting := remove_nth k (sw_waiting w)\<rparr>"
| "slot_next (SlotRelease k) w =
     (if length (sw_holding w) \<le> k then w
      else w\<lparr>sw_resources := fst (release_slot (snd (sw_holding w ! k)) (sw_resources w)), sw_holding := remove_nth k (sw_holding w)\<rparr>)"
| "slot_next (SlotAllocate sid overrides used now now') w = w\<lparr>sw_resources := fst (allocate used sid overrides now now' (sw_resources w))\<rparr>"

definition slot_run :: "slot_world \<Rightarrow> slot_label list \<Rightarrow> slot_world" where
  "slot_run w ls = foldl (\<lambda>w l. slot_next l w) w ls"

definition holders :: "string \<Rightarrow> slot_world \<Rightarrow> int" where
  "holders sid w = int (length (filter (\<lambda>h. fst h = sid) (sw_holding w)))"

definition held :: "nat \<Rightarrow> (string \<times> nat) list \<Rightarrow> int" where
  "held i hs = int (length (filter (\<lambda>h. snd h = i) hs))"

definition clients_ok :: "string \<Rightarrow> allocation \<Rightarrow> semaphore list \<Rightarrow> (int \<times> nat) option \<Rightarrow> (string \<times> nat) set \<Rightarrow> bool" where
  "clients_ok sid a os current clients \<longleftrightarrow>
     (case current of
        None \<Rightarrow> \<forall>h \<in> clients. fst h \<noteq> sid
      | Some (n, i) \<Rightarrow> n = al_compute_slots a \<and> sm_slots (os ! i) = n \<and> (\<forall>h \<in> clients. fst h = sid \<longrightarrow> snd h = i))"

definition slots_inv :: "string \<Rightarrow> allocation \<Rightarrow> slot_world \<Rightarrow> bool" where
  "slots_inv sid a w \<longleftrightarrow>
     (let rm = sw_resources w; clients = set (sw_waiting w) \<union> set (sw_holding w) in
      dict_get (rm_files rm) sid = Some a \<and> (\<forall>h \<in> clients. snd h < length (rm_objects rm)) \<and>
      (\<forall>n i s'. dict_get (rm_semaphores rm) s' = Some (n, i) \<longrightarrow> i < length (rm_objects rm)) \<and>
      (\<forall>i < length (rm_objects rm). 0 \<le> sm_free (rm_objects rm ! i) \<and> sm_free (rm_objects rm ! i) + held i (sw_holding w) = sm_slots (rm_objects rm ! i)) \<and>
      clients_ok sid a (rm_objects rm) (dict_get (rm_semaphores rm) sid) clients)"

lemma slots_invI:
  assumes "dict_get (rm_files (sw_resources w)) sid = Some a"
    "\<And>h. h \<in> set (sw_waiting w) \<union> set (sw_holding w) \<Longrightarrow> snd h < length (rm_objects (sw_resources w))"
    "\<And>n i s'. dict_get (rm_semaphores (sw_resources w)) s' = Some (n, i) \<Longrightarrow> i < length (rm_objects (sw_resources w))"
    "\<And>i. i < length (rm_objects (sw_resources w)) \<Longrightarrow>
       0 \<le> sm_free (rm_objects (sw_resources w) ! i) \<and> sm_free (rm_objects (sw_resources w) ! i) + held i (sw_holding w) = sm_slots (rm_objects (sw_resources w) ! i)"
    "clients_ok sid a (rm_objects (sw_resources w)) (dict_get (rm_semaphores (sw_resources w)) sid) (set (sw_waiting w) \<union> set (sw_holding w))"
  shows "slots_inv sid a w"
  using assms unfolding slots_inv_def Let_def by blast

lemma slots_invD:
  assumes "slots_inv sid a w"
  shows "dict_get (rm_files (sw_resources w)) sid = Some a" "h \<in> set (sw_waiting w) \<union> set (sw_holding w) \<Longrightarrow> snd h < length (rm_objects (sw_resources w))"
    "dict_get (rm_semaphores (sw_resources w)) s' = Some (n, i) \<Longrightarrow> i < length (rm_objects (sw_resources w))"
    "i < length (rm_objects (sw_resources w)) \<Longrightarrow> 0 \<le> sm_free (rm_objects (sw_resources w) ! i)"
    "i < length (rm_objects (sw_resources w)) \<Longrightarrow> sm_free (rm_objects (sw_resources w) ! i) + held i (sw_holding w) = sm_slots (rm_objects (sw_resources w) ! i)"
    "clients_ok sid a (rm_objects (sw_resources w)) (dict_get (rm_semaphores (sw_resources w)) sid) (set (sw_waiting w) \<union> set (sw_holding w))"
  using assms unfolding slots_inv_def Let_def by blast+

lemma clients_ok_mono: "clients_ok sid a os cur C \<Longrightarrow> C' \<subseteq> C \<Longrightarrow> clients_ok sid a os cur C'"
  by (auto simp: clients_ok_def split: option.splits)

lemma clients_ok_objects:
  "clients_ok sid a os cur C \<Longrightarrow> (\<And>n i. cur = Some (n, i) \<Longrightarrow> sm_slots (os' ! i) = sm_slots (os ! i)) \<Longrightarrow> clients_ok sid a os' cur C"
  by (auto simp: clients_ok_def split: option.splits)

lemma set_remove_nth: "set (remove_nth k xs) \<subseteq> set xs"
  by (auto simp: remove_nth_def dest: in_set_takeD in_set_dropD)

lemma held_simps [simp]: "held i [] = 0" "held i (xs @ ys) = held i xs + held i ys" "held i [h] = of_bool (snd h = i)"
  by (simp_all add: held_def)

lemma held_remove_nth: "k < length hs \<Longrightarrow> held i (remove_nth k hs) = held i hs - of_bool (snd (hs ! k) = i)"
  using id_take_nth_drop [of k hs] held_simps(2) [of i "take k hs" "hs ! k # drop (Suc k) hs"] held_simps(2) [of i "[hs ! k]" "drop (Suc k) hs"]
  by (simp add: remove_nth_def)

lemma held_nonneg [simp]: "0 \<le> held i hs"
  by (simp add: held_def)

lemma holders_bounded: "slots_inv sid a w \<Longrightarrow> 0 \<le> al_compute_slots a \<Longrightarrow> holders sid w \<le> al_compute_slots a"
proof -
  assume inv: "slots_inv sid a w" and pos: "0 \<le> al_compute_slots a"
  show ?thesis
  proof (cases "dict_get (rm_semaphores (sw_resources w)) sid")
    case None
    then have "filter (\<lambda>h. fst h = sid) (sw_holding w) = []" using slots_invD(6) [OF inv] by (auto simp: clients_ok_def filter_empty_conv)
    then show ?thesis using pos by (simp add: holders_def)
  next
    case (Some ni)
    obtain i where i: "ni = (al_compute_slots a, i)" "sm_slots (rm_objects (sw_resources w) ! i) = al_compute_slots a"
      "\<forall>h \<in> set (sw_holding w). fst h = sid \<longrightarrow> snd h = i" using slots_invD(6) [OF inv] Some by (cases ni) (auto simp: clients_ok_def)
    have len: "i < length (rm_objects (sw_resources w))" using slots_invD(3) [OF inv] Some i(1) by blast
    have "length (filter (\<lambda>h. fst h = sid) hs) \<le> length (filter (\<lambda>h. snd h = i) hs)" if "\<forall>h \<in> set hs. fst h = sid \<longrightarrow> snd h = i" for hs :: "(string \<times> nat) list"
      using that by (induction hs) auto
    then have "holders sid w \<le> held i (sw_holding w)" using i(3) by (simp add: holders_def held_def)
    then show ?thesis using slots_invD(4,5) [OF inv len] i(2) by linarith
  qed
qed

lemma allocate_effect:
  "allocate used s overrides now now' rm = (rm', r) \<Longrightarrow>
   rm' = rm \<or> (\<exists>b. rm' = rm\<lparr>rm_files := dict_set (rm_files rm) s b, rm_semaphores := dict_del (rm_semaphores rm) s\<rparr>)"
  by (auto simp: allocate_def effect_defs Let_def split: if_splits option.splits sum.splits)

lemma slots_inv_allocate:
  assumes inv: "slots_inv sid a w" and s: "s \<noteq> sid"
  shows "slots_inv sid a (w\<lparr>sw_resources := fst (allocate used s overrides now now' (sw_resources w))\<rparr>)"
proof -
  obtain rm r where al: "allocate used s overrides now now' (sw_resources w) = (rm, r)" by fastforce
  have rm: "rm_objects rm = rm_objects (sw_resources w)" "dict_get (rm_files rm) sid = dict_get (rm_files (sw_resources w)) sid"
    "dict_get (rm_semaphores rm) sid = dict_get (rm_semaphores (sw_resources w)) sid"
    "\<And>s' x. dict_get (rm_semaphores rm) s' = Some x \<Longrightarrow> dict_get (rm_semaphores (sw_resources w)) s' = Some x"
    using allocate_effect [OF al] s by (auto split: if_splits)
  have "clients_ok sid a (rm_objects rm) (dict_get (rm_semaphores rm) sid) (set (sw_waiting w) \<union> set (sw_holding w))"
    using slots_invD(6) [OF inv] unfolding rm(1,3) .
  moreover have "\<And>n i s'. dict_get (rm_semaphores rm) s' = Some (n, i) \<Longrightarrow> i < length (rm_objects (sw_resources w))"
    using slots_invD(3) [OF inv] rm(4) by blast
  ultimately show ?thesis using slots_invD(1,2,4,5) [OF inv] rm(2) unfolding al fst_conv
    by (intro slots_invI) (simp_all add: rm(1))
qed

lemma slots_inv_same: "slots_inv sid a w \<Longrightarrow> slots_inv sid a (w\<lparr>sw_resources := sw_resources w\<rparr>)"
  by (auto simp: slots_inv_def Let_def)

lemma slots_inv_get:
  assumes "slots_inv sid a w" "get_allocation used s now (sw_resources w) = (rm, r)"
  shows "slots_inv sid a (w\<lparr>sw_resources := rm\<rparr>)"
proof (cases "dict_get (rm_files (sw_resources w)) s")
  case None
  then have "s \<noteq> sid" using slots_invD(1) [OF assms(1)] by auto
  then show ?thesis using slots_inv_allocate [OF assms(1), of s used "[]" now now] None assms(2) by (simp add: get_allocation_def effect_defs)
next
  case (Some b)
  then have "rm = sw_resources w" using assms(2) get_allocation_hit [OF Some, of used now] by simp
  then show ?thesis using slots_inv_same [OF assms(1)] by simp
qed

lemma semaphore_of_returns: "\<exists>rm' i. semaphore_of s n rm = (rm', Inr i)"
  by (auto simp: semaphore_of_def effect_defs split: option.splits)

lemma slots_inv_semaphore:
  assumes inv: "slots_inv sid a w" and sem: "semaphore_of s slots (sw_resources w) = (rm, Inr i)" and slots: "0 \<le> slots" "s = sid \<Longrightarrow> slots = al_compute_slots a"
  shows "slots_inv sid a (w\<lparr>sw_resources := rm, sw_waiting := sw_waiting w @ [(s, i)]\<rparr>)"
proof (cases "dict_get (rm_semaphores (sw_resources w)) s = Some (slots, i) \<and> rm = sw_resources w")
  case True
  have "clients_ok sid a (rm_objects (sw_resources w)) (dict_get (rm_semaphores (sw_resources w)) sid) (insert (s, i) (set (sw_waiting w) \<union> set (sw_holding w)))"
    using slots_invD(6) [OF inv] True by (auto simp: clients_ok_def split: option.splits)
  moreover have "i < length (rm_objects (sw_resources w))" using slots_invD(3) [OF inv] True by blast
  ultimately show ?thesis using True slots_invD [OF inv] by (intro slots_invI) auto
next
  case False
  let ?n = "length (rm_objects (sw_resources w))" let ?os = "rm_objects (sw_resources w)"
  have rm: "rm = (sw_resources w)\<lparr>rm_semaphores := dict_set (rm_semaphores (sw_resources w)) s (slots, ?n),
      rm_objects := ?os @ [\<lparr>sm_slots = slots, sm_free = slots\<rparr>]\<rparr>" "i = ?n" "\<And>j. dict_get (rm_semaphores (sw_resources w)) s \<noteq> Some (slots, j)"
    using sem False by (auto simp: semaphore_of_def effect_defs split: option.splits if_splits)
  have none: "dict_get (rm_semaphores (sw_resources w)) sid = None" if "s = sid"
    using slots_invD(6) [OF inv] rm(3) slots(2) that by (auto simp: clients_ok_def split: option.splits)
  have held: "held ?n (sw_holding w) = 0" using slots_invD(2) [OF inv] by (fastforce simp: held_def filter_empty_conv)
  have "clients_ok sid a (?os @ [\<lparr>sm_slots = slots, sm_free = slots\<rparr>]) (dict_get (rm_semaphores rm) sid) (insert (s, i) (set (sw_waiting w) \<union> set (sw_holding w)))"
  proof (cases "s = sid")
    case True
    then show ?thesis using slots_invD(6) [OF inv] none slots(2) rm(1,2) by (auto simp: clients_ok_def nth_append)
  next
    case False
    then show ?thesis using slots_invD(3,6) [OF inv] rm(1) by (auto simp: clients_ok_def nth_append split: option.splits)
  qed
  then show ?thesis using rm slots(1) held slots_invD [OF inv]
    by (intro slots_invI) (auto simp: nth_append less_Suc_eq split: if_splits)
qed

lemma slots_inv_enter:
  assumes inv: "slots_inv sid a w" and sf: "sound_files (sw_resources w)"
  shows "slots_inv sid a (slot_next (SlotEnter s used now) w)"
proof -
  obtain rm r where g: "get_allocation used s now (sw_resources w) = (rm, r)" by fastforce
  let ?w = "w\<lparr>sw_resources := rm\<rparr>"
  have inv1: "slots_inv sid a ?w" by (rule slots_inv_get [OF inv g])
  show ?thesis
  proof (cases r)
    case (Inl e)
    then show ?thesis using inv1 g by (simp add: compute_slot_enter_def sbind_def)
  next
    case (Inr b)
    have rm: "sound_files rm" using keepsD [OF get_allocation_keeps sf, of used s now] g by simp
    have b: "dict_get (rm_files rm) s = Some b" using g Inr
      by (auto simp: get_allocation_def effect_defs split: option.splits dest: allocate_returns)
    obtain rm' i where i: "semaphore_of s (al_compute_slots b) rm = (rm', Inr i)" using semaphore_of_returns by blast
    have pos: "0 \<le> al_compute_slots b" using rm b by (fastforce simp: sound_files_def sound_allocation_def)
    have same: "s = sid \<Longrightarrow> al_compute_slots b = al_compute_slots a" using slots_invD(1) [OF inv1] b by auto
    have "slots_inv sid a (?w\<lparr>sw_resources := rm', sw_waiting := sw_waiting ?w @ [(s, i)]\<rparr>)"
      by (rule slots_inv_semaphore [OF inv1, where slots = "al_compute_slots b"]) (use i pos same in simp_all)
    then show ?thesis using g Inr i by (simp add: compute_slot_enter_def sbind_def)
  qed
qed

lemma slots_inv_move:
  assumes inv: "slots_inv sid a w" and i: "i < length (rm_objects (sw_resources w))"
    and clients: "set ws \<union> set hs \<subseteq> set (sw_waiting w) \<union> set (sw_holding w)"
    and d: "\<And>j. held j hs = held j (sw_holding w) + of_bool (j = i) * d" "0 \<le> sm_free (rm_objects (sw_resources w) ! i) - d"
  shows "slots_inv sid a (w\<lparr>sw_resources := (sw_resources w)\<lparr>rm_objects := (rm_objects (sw_resources w))[i := (rm_objects (sw_resources w) ! i)\<lparr>sm_free := sm_free (rm_objects (sw_resources w) ! i) - d\<rparr>]\<rparr>,
    sw_waiting := ws, sw_holding := hs\<rparr>)"
proof -
  define os where "os = rm_objects (sw_resources w)"
  define os' where "os' = os[i := (os ! i)\<lparr>sm_free := sm_free (os ! i) - d\<rparr>]"
  have len: "length os' = length os" by (simp add: os'_def)
  have slots: "sm_slots (os' ! j) = sm_slots (os ! j)" for j
    using i by (cases "j = i") (simp_all add: os'_def os_def)
  have free: "0 \<le> sm_free (os' ! j) \<and> sm_free (os' ! j) + held j hs = sm_slots (os' ! j)" if "j < length os" for j
    using slots_invD(4,5) [OF inv, of j] that d i by (cases "j = i") (simp_all add: os'_def os_def)
  have cl: "clients_ok sid a os' (dict_get (rm_semaphores (sw_resources w)) sid) (set ws \<union> set hs)"
    by (rule clients_ok_mono [OF clients_ok_objects [OF slots_invD(6) [OF inv]] clients]) (simp add: slots os_def)
  have idx: "\<And>h. h \<in> set ws \<union> set hs \<Longrightarrow> snd h < length os" using slots_invD(2) [OF inv] clients unfolding os_def by blast
  show ?thesis unfolding os_def [symmetric] os'_def [symmetric]
    using slots_invD(1) [OF inv] slots_invD(3) [OF inv] cl idx free by (intro slots_invI) (simp_all add: len os_def)
qed

lemma slots_inv_leave: "slots_inv sid a w \<Longrightarrow> slots_inv sid a (w\<lparr>sw_waiting := remove_nth k (sw_waiting w)\<rparr>)"
  using set_remove_nth [of k "sw_waiting w"] slots_invD [of sid a w]
  by (intro slots_invI) (auto intro: clients_ok_mono)

lemma slots_inv_step:
  assumes inv: "slots_inv sid a w" and sf: "sound_files (sw_resources w)" and l: "\<forall>overrides used now now'. l \<noteq> SlotAllocate sid overrides used now now'"
  shows "slots_inv sid a (slot_next l w)"
proof (cases l)
  case (SlotAcquire k)
  show ?thesis
  proof (cases "k < length (sw_waiting w) \<and> 1 \<le> sm_free (rm_objects (sw_resources w) ! snd (sw_waiting w ! k))")
    case True
    let ?i = "snd (sw_waiting w ! k)"
    have i: "?i < length (rm_objects (sw_resources w))" using slots_invD(2) [OF inv, of "sw_waiting w ! k"] True by simp
    have "slots_inv sid a (w\<lparr>sw_resources := (sw_resources w)\<lparr>rm_objects := (rm_objects (sw_resources w))[?i := (rm_objects (sw_resources w) ! ?i)\<lparr>sm_free := sm_free (rm_objects (sw_resources w) ! ?i) - 1\<rparr>]\<rparr>,
        sw_waiting := remove_nth k (sw_waiting w), sw_holding := sw_holding w @ [sw_waiting w ! k]\<rparr>)"
      by (rule slots_inv_move [OF inv i]) (use True set_remove_nth [of k "sw_waiting w"] in auto)
    then show ?thesis using True by (simp add: SlotAcquire acquire_slot_def effect_defs)
  next
    case False
    then show ?thesis using inv by (auto simp: SlotAcquire acquire_slot_def effect_defs)
  qed
next
  case (SlotTimeout k)
  then show ?thesis using slots_inv_leave [OF inv] by simp
next
  case (SlotRelease k)
  show ?thesis
  proof (cases "k < length (sw_holding w)")
    case True
    let ?i = "snd (sw_holding w ! k)"
    have i: "?i < length (rm_objects (sw_resources w))" using slots_invD(2) [OF inv, of "sw_holding w ! k"] True by simp
    have "held ?i (sw_holding w) \<ge> 1" using True held_remove_nth [OF True, of ?i] held_nonneg [of ?i "remove_nth k (sw_holding w)"] by simp
    then have f: "sm_free (rm_objects (sw_resources w) ! ?i) < sm_slots (rm_objects (sw_resources w) ! ?i)" "0 \<le> sm_free (rm_objects (sw_resources w) ! ?i)"
      using slots_invD(4,5) [OF inv i] by linarith+
    have "slots_inv sid a (w\<lparr>sw_resources := (sw_resources w)\<lparr>rm_objects := (rm_objects (sw_resources w))[?i := (rm_objects (sw_resources w) ! ?i)\<lparr>sm_free := sm_free (rm_objects (sw_resources w) ! ?i) - (- 1)\<rparr>]\<rparr>,
        sw_waiting := sw_waiting w, sw_holding := remove_nth k (sw_holding w)\<rparr>)"
      by (rule slots_inv_move [OF inv i]) (use f(2) set_remove_nth [of k "sw_holding w"] in \<open>auto simp: held_remove_nth [OF True]\<close>)
    then show ?thesis using True f by (simp add: SlotRelease release_slot_def effect_defs)
  qed (use inv in \<open>simp add: SlotRelease\<close>)
next
  case (SlotAllocate s overrides used now now')
  then show ?thesis using slots_inv_allocate [OF inv, of s used overrides now now'] l by auto
qed (use slots_inv_enter [OF inv sf] in simp)

lemma semaphore_of_files: "rm_files (fst (semaphore_of s n rm)) = rm_files rm"
  by (auto simp: semaphore_of_def effect_defs split: option.splits)

lemma allocate_keeps: "keeps sound_files (allocate used s overrides now now')"
proof (rule keepsI)
  fix rm assume rm: "sound_files rm"
  obtain rm' r where r: "allocate used s overrides now now' rm = (rm', r)" by fastforce
  show "sound_files (fst (allocate used s overrides now now' rm))"
  proof (cases r)
    case (Inl e)
    then show ?thesis using allocate_raises [of used s overrides now now' rm rm' e] rm r by simp
  next
    case (Inr a)
    then show ?thesis using allocate_returns [of used s overrides now now' rm rm' a] rm r by (auto simp: sound_files_def)
  qed
qed

lemma slot_next_sound:
  assumes sf: "sound_files (sw_resources w)"
  shows "sound_files (sw_resources (slot_next l w))"
proof -
  have same: "rm_files rm = rm_files (sw_resources w) \<Longrightarrow> sound_files rm" for rm using sf by (simp add: sound_files_def)
  have ac: "rm_files (fst (acquire_slot i rm)) = rm_files rm" "rm_files (fst (release_slot i rm)) = rm_files rm" for i rm
    by (simp_all add: acquire_slot_def release_slot_def effect_defs)
  show ?thesis
  proof (cases l)
    case (SlotEnter s used now)
    obtain rm r where g: "get_allocation used s now (sw_resources w) = (rm, r)" by fastforce
    have rm: "sound_files rm" using keepsD [OF get_allocation_keeps sf, of used s now] g by simp
    have "rm_files (fst (compute_slot_enter used s now (sw_resources w))) = rm_files rm"
      using g semaphore_of_files by (cases r) (simp_all add: compute_slot_enter_def sbind_def)
    then have "sound_files (fst (compute_slot_enter used s now (sw_resources w)))" using rm by (simp add: sound_files_def)
    then show ?thesis by (cases "compute_slot_enter used s now (sw_resources w)") (auto simp: SlotEnter split: sum.splits)
  next
    case (SlotAcquire k)
    then show ?thesis using sf same [OF ac(1) [of "snd (sw_waiting w ! k)"]]
      by (cases "acquire_slot (snd (sw_waiting w ! k)) (sw_resources w)") (auto split: sum.splits)
  next
    case (SlotRelease k)
    then show ?thesis using sf same [OF ac(2)] by simp
  next
    case (SlotAllocate s overrides used now now')
    then show ?thesis using keepsD [OF allocate_keeps sf] by simp
  qed (use sf in simp)
qed

text \<open>
  C38: the compute slots of a session bound its turns: as long as the session is not allocated anew, no more holders than
  its allocation has slots are inside \<^verbatim>\<open>compute_slot\<close>, whatever holders of this and other sessions enter, acquire, time out and
  release in whatever order.
\<close>

theorem compute_slots_bounded:
  assumes "sound_files rm" "dict_get (rm_files rm) sid = Some a" "rm_semaphores rm = []" "rm_objects rm = []"
    and "\<forall>l \<in> set ls. \<forall>overrides used now now'. l \<noteq> SlotAllocate sid overrides used now now'"
  shows "holders sid (slot_run \<lparr>sw_resources = rm, sw_waiting = [], sw_holding = []\<rparr> ls) \<le> al_compute_slots a"
proof -
  have run: "slots_inv sid a w \<Longrightarrow> sound_files (sw_resources w) \<Longrightarrow> slots_inv sid a (slot_run w ls)" for w
    using assms(5)
  proof (induction ls arbitrary: w)
    case (Cons l ls)
    have "slots_inv sid a (slot_next l w)" by (rule slots_inv_step [OF Cons.prems(1,2)]) (use Cons.prems(3) in simp)
    then show ?case using Cons.IH [of "slot_next l w"] slot_next_sound [OF Cons.prems(2)] Cons.prems(3) by (simp add: slot_run_def)
  qed (simp add: slot_run_def)
  have "slots_inv sid a \<lparr>sw_resources = rm, sw_waiting = [], sw_holding = []\<rparr>"
    using assms(2-4) by (intro slots_invI) (simp_all add: clients_ok_def)
  moreover have "0 \<le> al_compute_slots a" using assms(1,2) by (fastforce simp: sound_files_def sound_allocation_def)
  ultimately show ?thesis using holders_bounded [OF run] assms(1) by simp
qed

definition demo_allocation :: allocation where
  "demo_allocation = \<lparr>al_session_id = ''s'', al_compute_slots = 1, al_compute_nodes = [''node2''], al_disk_quota_bytes = 100, al_memory_message_limit = 24,
     al_memory_char_limit = 100, al_created_at = ''t'', al_updated_at = ''t''\<rparr>"

definition demo_resources :: resources where
  "demo_resources = \<lparr>rm_files = [(''s'', demo_allocation)], rm_semaphores = [], rm_objects = []\<rparr>"

theorem compute_slots_bounded_witness:
  "holders ''s'' (slot_run \<lparr>sw_resources = demo_resources, sw_waiting = [], sw_holding = []\<rparr>
     [SlotEnter ''s'' 0 ''t'', SlotEnter ''s'' 0 ''t'', SlotEnter ''r'' 0 ''t'', SlotAcquire 0, SlotAcquire 0, SlotAcquire 1]) \<le> 1 \<and>
   sound_files demo_resources"
proof -
  have sf: "sound_files demo_resources" by (auto simp: sound_files_def demo_resources_def demo_allocation_def sound_allocation_def split: if_splits)
  have "dict_get (rm_files demo_resources) ''s'' = Some demo_allocation" "rm_semaphores demo_resources = []" "rm_objects demo_resources = []"
    by (simp_all add: demo_resources_def)
  from compute_slots_bounded [OF sf this, of "[SlotEnter ''s'' 0 ''t'', SlotEnter ''s'' 0 ''t'', SlotEnter ''r'' 0 ''t'', SlotAcquire 0, SlotAcquire 0, SlotAcquire 1]"]
  show ?thesis using sf by (simp add: demo_allocation_def)
qed

theorem disk_quota_enforced_witness:
  "ensure_disk_available 90 ''s'' 20 ''t'' demo_resources = (demo_resources, Inl (RuntimeError ''session disk quota exceeded''))"
proof -
  have "dict_get (rm_files demo_resources) ''s'' = Some demo_allocation" by (simp add: demo_resources_def)
  from disk_quota_enforced [OF this, of 90 20 "''t''"] show ?thesis by (simp add: demo_allocation_def)
qed

text \<open>
  Allocating anew while a slot is held forgets the semaphore of the holder: with one slot, two holders are inside.
\<close>

lemma reallocation_exceeds_slots:
  "holders ''s'' (slot_run \<lparr>sw_resources = demo_resources, sw_waiting = [], sw_holding = []\<rparr>
     [SlotEnter ''s'' 0 ''t'', SlotAcquire 0, SlotAllocate ''s'' [(''compute_slots'', JInt 1)] 0 ''t'' ''t'', SlotEnter ''s'' 0 ''t'', SlotAcquire 0]) = 2"
  by code_simp

end
