(* ===== verification/Agent_Runner.thy ===== *)
theory Agent_Runner
  imports Agent_Jobs Agent_Store Agent_Resources
begin

text \<open>
  The chat loop of the agent server (\<^verbatim>\<open>tools/src/exo_tools/agent_core/runner.py\<close>) and the stream of its language model client
  (\<^verbatim>\<open>llm.py\<close>): the messages a turn sends, the rounds of tool calls, and the persistence of the answer while it
  is streamed, over the models of the store, the tools and the jobs. Lines of the model's answer, clock readings and the state of the
  world at each tool call are arguments, so are \<^verbatim>\<open>json.loads\<close> and \<^verbatim>\<open>json.dumps\<close> of tool arguments and results, the system
  prompt, and the two Korean texts the code stores.
\<close>

section \<open>The stream of the language model\<close>

record tool_call =
  tc_id :: string
  tc_type :: string
  tc_name :: string
  tc_arguments :: string

record raw_tool =
  rt_index :: int
  rt_id :: string
  rt_type :: string
  rt_name :: string
  rt_arguments :: string

text \<open>A line of the answer: the end, the first choice's delta (absent parts are empty), or a line that is skipped.\<close>

datatype sse_line = SseDone | SseDelta string string "raw_tool list" | SseIgnored

datatype llm_event = LReasoning string | LContent string | LToolCall tool_call

record llm_answer =
  la_lines :: "sse_line list"
  la_error :: "py_error option"

definition text_or :: "string \<Rightarrow> string \<Rightarrow> string" where
  "text_or x y = (if x = [] then y else x)"

definition add_raw_tool :: "(int, tool_call) dict \<Rightarrow> raw_tool \<Rightarrow> (int, tool_call) dict" where
  "add_raw_tool calls rt =
     (let current = dict_get_default calls (rt_index rt)
        \<lparr>tc_id = text_or (rt_id rt) (''call_'' @ show_int (rt_index rt)), tc_type = text_or (rt_type rt) ''function'', tc_name = [], tc_arguments = []\<rparr>
      in dict_set calls (rt_index rt)
        (current\<lparr>tc_id := text_or (rt_id rt) (tc_id current), tc_type := text_or (rt_type rt) (tc_type current),
           tc_name := tc_name current @ rt_name rt, tc_arguments := tc_arguments current @ rt_arguments rt\<rparr>))"

fun read_lines :: "sse_line list \<Rightarrow> (int, tool_call) dict \<Rightarrow> llm_event list \<times> (int, tool_call) dict" where
  "read_lines [] calls = ([], calls)"
| "read_lines (SseDone # ls) calls = ([], calls)"
| "read_lines (SseIgnored # ls) calls = read_lines ls calls"
| "read_lines (SseDelta reasoning content raw # ls) calls =
     (case read_lines ls (foldl add_raw_tool calls raw) of
        (evs, calls') \<Rightarrow> ((if reasoning = [] then [] else [LReasoning reasoning]) @ (if content = [] then [] else [LContent content]) @ evs, calls'))"

definition complete_stream_events :: "llm_answer \<Rightarrow> llm_event list \<times> unit result" where
  "complete_stream_events a =
     (case read_lines (la_lines a) [] of
        (evs, calls) \<Rightarrow>
          (case la_error a of
             Some e \<Rightarrow> (evs, Inl e)
           | None \<Rightarrow> (evs @ map LToolCall (filter (\<lambda>t. tc_name t \<noteq> []) (map snd (sort_key fst calls))), Inr ())))"

section \<open>The messages of a turn\<close>

datatype api_content = PlainText string | WithImages "string list" string

datatype api_message =
    ApiSystem string
  | ApiChat chat_role api_content "string option"
  | ApiToolCalls string "string option" "tool_call list"
  | ApiToolResult string string string

fun through_message :: "string \<Rightarrow> stored_message list \<Rightarrow> stored_message list option" where
  "through_message mid [] = None"
| "through_message mid (m # ms) = (if cm_message_id m = mid then Some [m] else map_option (\<lambda>ms'. m # ms') (through_message mid ms))"

text \<open>The loop over the messages from the newest on.\<close>

fun select_recent :: "int \<Rightarrow> int \<Rightarrow> stored_message list \<Rightarrow> stored_message list \<Rightarrow> int \<Rightarrow> stored_message list" where
  "select_recent message_limit char_limit [] selected chars = selected"
| "select_recent message_limit char_limit (m # ms) selected chars =
     (let sz = int (length (cm_content m)) in
      if selected \<noteq> [] \<and> (message_limit \<le> int (length selected) \<or> char_limit < chars + sz) then selected
      else select_recent message_limit char_limit ms (m # selected) (chars + sz))"

fun api_message_of :: "stored_message \<Rightarrow> api_message list" where
  "api_message_of m =
     (if cm_role m = ChatSystem then []
      else [ApiChat (cm_role m) (PlainText (cm_content m)) (if cm_role m = ChatAssistant \<and> cm_reasoning m \<noteq> Some [] then cm_reasoning m else None)])"

fun attach_images :: "string list \<Rightarrow> api_message list \<Rightarrow> api_message list" where
  "attach_images images [] = []"
| "attach_images images (ApiChat ChatUser (PlainText t) r # ms) = ApiChat ChatUser (WithImages images t) r # ms"
| "attach_images images (m # ms) = m # attach_images images ms"

definition chat_messages :: "store_env \<Rightarrow> allocation \<Rightarrow> string \<Rightarrow> string \<Rightarrow> string list \<Rightarrow> string option \<Rightarrow> (agent_store, api_message list) action" where
  "chat_messages env a system_content sid images through =
     sbind (list_messages env sid) (\<lambda>available.
     sbind (lift_result (case through of None \<Rightarrow> Inr available | Some mid \<Rightarrow> of_option file_not_found (through_message mid available))) (\<lambda>available.
     let selected = select_recent (al_memory_message_limit a) (al_memory_char_limit a) (rev available) [] 0;
         messages = ApiSystem system_content # concat (map api_message_of selected)
     in ret (if images = [] then messages else rev (attach_images images (rev messages)))))"

section \<open>A turn\<close>

record turn =
  tn_session_id :: string
  tn_user_message_id :: string
  tn_assistant_message_id :: string
  tn_images :: "string list"

record turn_state =
  ts_store :: agent_store
  ts_content :: "string list"
  ts_reasoning :: "string list"
  ts_last_persisted :: pyfloat
  ts_messages :: "api_message list"
  ts_yielded :: "job_event list"
  ts_effects :: "tool_effect list"
  ts_requests :: nat

record turn_env =
  tv_store :: store_env
  tv_llm :: "nat \<Rightarrow> json option \<Rightarrow> api_message list \<Rightarrow> llm_answer"
  tv_clock :: "nat \<Rightarrow> nat \<Rightarrow> pyfloat"
  tv_tools :: tool_executor
  tv_world :: "nat \<Rightarrow> nat \<Rightarrow> tool_world"
  tv_loads :: "string \<Rightarrow> json option"
  tv_result_text :: "tool_result \<Rightarrow> string"
  tv_error_text :: "py_error \<Rightarrow> string"
  tv_error_type :: "py_error \<Rightarrow> string"
  tv_limit_notice :: string
  tv_error_prefix :: string
  tv_max_tool_rounds :: int

definition mk_turn_state :: "agent_store \<Rightarrow> turn_state" where
  "mk_turn_state st = \<lparr>ts_store = st, ts_content = [], ts_reasoning = [], ts_last_persisted = 0, ts_messages = [], ts_yielded = [], ts_effects = [], ts_requests = 0\<rparr>"

definition on_store :: "(agent_store, 'a) action \<Rightarrow> (turn_state, 'a) action" where
  "on_store m s = (case m (ts_store s) of (st, r) \<Rightarrow> (s\<lparr>ts_store := st\<rparr>, r))"

definition yield_event :: "string \<Rightarrow> string \<Rightarrow> turn_state \<Rightarrow> turn_state" where
  "yield_event kind delta s = s\<lparr>ts_yielded := ts_yielded s @ [(kind, delta)]\<rparr>"

definition persist :: "turn_env \<Rightarrow> turn \<Rightarrow> (turn_state, unit) action" where
  "persist tv tn =
     with_state (\<lambda>s. on_store (update_message (tv_store tv) (tn_session_id tn) (tn_assistant_message_id tn) (concat (ts_content s))
       (if concat (ts_reasoning s) = [] then None else Some (concat (ts_reasoning s)))))"

fun take_event :: "llm_event \<Rightarrow> turn_state \<Rightarrow> turn_state" where
  "take_event (LReasoning d) s = yield_event ''reasoning'' d (s\<lparr>ts_reasoning := ts_reasoning s @ [d]\<rparr>)"
| "take_event (LContent d) s = yield_event ''content'' d (s\<lparr>ts_content := ts_content s @ [d]\<rparr>)"
| "take_event (LToolCall t) s = s"

fun read_answer :: "turn_env \<Rightarrow> turn \<Rightarrow> nat \<Rightarrow> nat \<Rightarrow> llm_event list \<Rightarrow> (turn_state, unit) action" where
  "read_answer tv tn i k [] = ret ()"
| "read_answer tv tn i k (e # evs) =
     sbind (upd (take_event e)) (\<lambda>_.
     sbind (with_state (\<lambda>s. swhen (1 / 4 \<le> fl (tv_clock tv i k - ts_last_persisted s))
       (sbind (persist tv tn) (\<lambda>_. upd (\<lambda>s. s\<lparr>ts_last_persisted := tv_clock tv i k\<rparr>))))) (\<lambda>_.
     read_answer tv tn i (Suc k) evs))"

definition round_content :: "llm_event list \<Rightarrow> string" where
  "round_content evs = concat (map (\<lambda>e. case e of LContent d \<Rightarrow> d | _ \<Rightarrow> []) evs)"

definition round_reasoning :: "llm_event list \<Rightarrow> string list" where
  "round_reasoning evs = concat (map (\<lambda>e. case e of LReasoning d \<Rightarrow> [d] | _ \<Rightarrow> []) evs)"

definition round_tool_calls :: "llm_event list \<Rightarrow> tool_call list" where
  "round_tool_calls evs = concat (map (\<lambda>e. case e of LToolCall t \<Rightarrow> [t] | _ \<Rightarrow> []) evs)"

definition parse_arguments :: "turn_env \<Rightarrow> tool_call \<Rightarrow> tool_arguments" where
  "parse_arguments tv t =
     (let raw = text_or (tc_arguments t) ''{}'' in
      case tv_loads tv raw of
        None \<Rightarrow> [(''raw'', JStr raw)]
      | Some (JObj o') \<Rightarrow> o'
      | Some v \<Rightarrow> [(''value'', v)])"

definition call_arguments :: "turn_env \<Rightarrow> turn \<Rightarrow> tool_call \<Rightarrow> tool_arguments" where
  "call_arguments tv tn t =
     (let args = parse_arguments tv t in
      if tc_name t = ''python_shell'' \<and> \<not> dict_mem ''sandbox_id'' args then dict_set args ''sandbox_id'' (JStr (tn_session_id tn)) else args)"

definition result_ok :: "tool_result \<Rightarrow> bool" where
  "result_ok r = (case map_of r ''ok'' of Some v \<Rightarrow> truthy v | None \<Rightarrow> False)"

definition run_tool :: "turn_env \<Rightarrow> turn \<Rightarrow> nat \<Rightarrow> nat \<Rightarrow> tool_call \<Rightarrow> turn_state \<Rightarrow> turn_state" where
  "run_tool tv tn i k t s =
     (case execute (tv_tools tv) (tv_world tv i k) (tc_name t) (call_arguments tv tn t) of
        (effs, result) \<Rightarrow>
          (yield_event ''tool'' (tc_name t @ '': '' @ (if result_ok result then ''ok'' else ''error'')) (s\<lparr>ts_effects := ts_effects s @ effs\<rparr>))
            \<lparr>ts_messages := ts_messages s @ [ApiToolResult (tc_id t) (tc_name t) (tv_result_text tv result)]\<rparr>)"

fun run_tools :: "turn_env \<Rightarrow> turn \<Rightarrow> nat \<Rightarrow> nat \<Rightarrow> tool_call list \<Rightarrow> turn_state \<Rightarrow> turn_state" where
  "run_tools tv tn i k [] s = s"
| "run_tools tv tn i k (t # ts) s = run_tools tv tn i (Suc k) ts (run_tool tv tn i k t s)"

text \<open>One request of the loop: the events up to an error, then the error.\<close>

definition request_round :: "turn_env \<Rightarrow> turn \<Rightarrow> json option \<Rightarrow> nat \<Rightarrow> (turn_state, llm_event list) action" where
  "request_round tv tn model i =
     with_state (\<lambda>s.
     case complete_stream_events (tv_llm tv i model (ts_messages s)) of
       (evs, outcome) \<Rightarrow>
         sbind (upd (\<lambda>s. s\<lparr>ts_requests := Suc (ts_requests s)\<rparr>)) (\<lambda>_.
         sbind (read_answer tv tn i 0 evs) (\<lambda>_.
         sbind (lift_result outcome) (\<lambda>_. ret evs))))"

fun tool_rounds :: "turn_env \<Rightarrow> turn \<Rightarrow> json option \<Rightarrow> nat \<Rightarrow> nat \<Rightarrow> (turn_state, unit) action" where
  "tool_rounds tv tn model 0 i = ret ()"
| "tool_rounds tv tn model (Suc n) i =
     sbind (request_round tv tn model i) (\<lambda>evs.
     if round_tool_calls evs = [] then ret ()
     else if tv_max_tool_rounds tv \<le> int i then upd (\<lambda>s. s\<lparr>ts_content := ts_content s @ [tv_limit_notice tv]\<rparr>)
     else sbind (upd (\<lambda>s. s\<lparr>ts_messages := ts_messages s @ [ApiToolCalls (round_content evs)
            (if round_reasoning evs = [] then None else Some (concat (round_reasoning evs))) (round_tool_calls evs)]\<rparr>)) (\<lambda>_.
          sbind (upd (run_tools tv tn i 0 (round_tool_calls evs))) (\<lambda>_. tool_rounds tv tn model n (Suc i))))"

definition error_message :: "turn_env \<Rightarrow> py_error \<Rightarrow> string" where
  "error_message tv e = text_or (take 1000 (tv_error_text tv e)) (tv_error_type tv e)"

definition report_error :: "turn_env \<Rightarrow> turn \<Rightarrow> py_error \<Rightarrow> (turn_state, unit) action" where
  "report_error tv tn e =
     sbind (upd (\<lambda>s. if ts_content s = [] then s\<lparr>ts_content := [tv_error_prefix tv @ error_message tv e]\<rparr> else s)) (\<lambda>_.
     sbind (persist tv tn) (\<lambda>_.
     upd (yield_event ''error'' (error_message tv e))))"

definition try_except :: "('s, 'a) action \<Rightarrow> (py_error \<Rightarrow> ('s, 'a) action) \<Rightarrow> ('s, 'a) action" where
  "try_except m h s = (case m s of (s', Inl e) \<Rightarrow> h e s' | (s', Inr x) \<Rightarrow> (s', Inr x))"

definition try_finally :: "('s, 'a) action \<Rightarrow> ('s, unit) action \<Rightarrow> ('s, 'a) action" where
  "try_finally m f s = (case m s of (s', r) \<Rightarrow> (case f s' of (s'', Inl e) \<Rightarrow> (s'', Inl e) | (s'', Inr _) \<Rightarrow> (s'', r)))"

text \<open>\<open>slot\<close> is the outcome of waiting for a compute slot.\<close>

definition stream_prepared_turn :: "turn_env \<Rightarrow> allocation \<Rightarrow> string \<Rightarrow> unit result \<Rightarrow> turn \<Rightarrow> (turn_state, unit) action" where
  "stream_prepared_turn tv a system_content slot tn =
     sbind (on_store (get_session (tn_session_id tn))) (\<lambda>session.
     sbind (on_store (chat_messages (tv_store tv) a system_content (tn_session_id tn) (tn_images tn) (Some (tn_user_message_id tn)))) (\<lambda>messages.
     sbind (upd (\<lambda>s. s\<lparr>ts_messages := messages\<rparr>)) (\<lambda>_.
     try_finally
       (try_except
         (sbind (lift_result slot) (\<lambda>_. tool_rounds tv tn (dict_get (se_metadata session) ''model'') (nat (tv_max_tool_rounds tv + 1)) 0))
         (report_error tv tn))
       (persist tv tn))))"

section \<open>Titles\<close>

text \<open>The Korean default title is a parameter; so is what the title model answers, \<open>None\<close> when it is switched off.\<close>

record title_env =
  tl_new_chat :: string
  tl_chat :: string
  tl_answer :: "string \<Rightarrow> string result option"

definition strip_chars :: "string \<Rightarrow> string \<Rightarrow> string" where
  "strip_chars cs x = rev (dropWhile (\<lambda>c. c \<in> set cs) (rev (dropWhile (\<lambda>c. c \<in> set cs) x)))"

fun title_lines :: "string list \<Rightarrow> string list \<Rightarrow> string list" where
  "title_lines [] ls = ls"
| "title_lines (l # rest) ls =
     (let stripped = py_strip l in
      if stripped = [] \<or> prefix ''--- File Attachment:'' stripped \<or> prefix ''--- End File'' stripped \<or> prefix ''[Attached Image:'' stripped
      then title_lines rest ls
      else let ls' = ls @ [stripped] in if 1500 \<le> length (join_words ls') then ls' else title_lines rest ls')"

definition plain_title_text :: "string \<Rightarrow> string" where
  "plain_title_text x = py_strip (join_words (title_lines (split_on newline (map (\<lambda>c. if c = CHR 0x0D then newline else c) x)) []))"

definition sanitize_title :: "string \<Rightarrow> string" where
  "sanitize_title x =
     (let t1 = join_words (py_words (py_strip x)); t2 = strip_chars ([CHR 0x22, CHR 0x27, CHR 0x60] @ ''[](){}'') t1;
          t3 = py_strip (filter (\<lambda>c. c \<noteq> CHR ''#'' \<and> c \<noteq> CHR ''*'') t2)
      in take 60 t3)"

definition fallback_title :: "title_env \<Rightarrow> string \<Rightarrow> string" where
  "fallback_title te x = text_or (sanitize_title x) (tl_new_chat te)"

definition is_placeholder_title :: "title_env \<Rightarrow> string \<Rightarrow> bool" where
  "is_placeholder_title te title \<longleftrightarrow>
     join_words (py_words (py_lower (py_strip title))) \<in> {''local session'', ''untitled session'', ''new chat'', ''chat'', tl_new_chat te, tl_chat te}"

definition generate_session_title :: "title_env \<Rightarrow> string \<Rightarrow> string" where
  "generate_session_title te message =
     (let clean_message = plain_title_text message in
      if clean_message = [] then tl_new_chat te
      else case tl_answer te (take 1500 clean_message) of
        None \<Rightarrow> fallback_title te clean_message
      | Some (Inl _) \<Rightarrow> fallback_title te clean_message
      | Some (Inr generated) \<Rightarrow>
          (let title = sanitize_title generated in
           if is_placeholder_title te title then fallback_title te clean_message else text_or title (fallback_title te clean_message)))"

definition maybe_auto_title_session :: "store_env \<Rightarrow> title_env \<Rightarrow> string \<Rightarrow> string \<Rightarrow> string \<Rightarrow> (agent_store, unit) action" where
  "maybe_auto_title_session env te sid message now =
     with_state (\<lambda>st.
     case session_of sid st of
       Inl _ \<Rightarrow> ret ()
     | Inr d \<Rightarrow>
         (let session = sd_session d in
          if (case dict_get (se_metadata session) ''title_user_edited'' of Some v \<Rightarrow> truthy v | None \<Rightarrow> False) then ret ()
          else if py_strip (se_title session) \<notin> {''Local session'', ''Untitled session'', tl_new_chat te} then ret ()
          else let title = generate_session_title te message in
            if title = [] then ret () else sbind (rename_session env sid title False now) (\<lambda>_. ret ())))"

section \<open>Starting a turn\<close>

record agent_world =
  aw_store :: agent_store
  aw_resources :: resources

definition in_store :: "(agent_store, 'a) action \<Rightarrow> (agent_world, 'a) action" where
  "in_store m w = (case m (aw_store w) of (st, r) \<Rightarrow> (w\<lparr>aw_store := st\<rparr>, r))"

definition in_resources :: "(resources, 'a) action \<Rightarrow> (agent_world, 'a) action" where
  "in_resources m w = (case m (aw_resources w) of (rm, r) \<Rightarrow> (w\<lparr>aw_resources := rm\<rparr>, r))"

definition new_message :: "chat_role \<Rightarrow> string \<Rightarrow> string \<Rightarrow> string \<Rightarrow> stored_message" where
  "new_message rl content now mid = \<lparr>cm_role = rl, cm_content = content, cm_reasoning = None, cm_created_at = now, cm_message_id = mid\<rparr>"

definition prepare_chat_turn ::
    "store_env \<Rightarrow> title_env \<Rightarrow> int \<Rightarrow> string \<Rightarrow> string \<Rightarrow> string list \<Rightarrow> string \<Rightarrow> string \<Rightarrow> string \<Rightarrow> string \<Rightarrow> (agent_world, turn) action" where
  "prepare_chat_turn env te used sid message images now user_id assistant_id notice_id =
     sbind (in_resources (ensure_disk_available used sid (int (utf8_length message)) now)) (\<lambda>_.
     sbind (in_store (append_message env sid (new_message ChatUser message now user_id) now notice_id)) (\<lambda>_.
     sbind (in_store (append_message env sid (new_message ChatAssistant [] now assistant_id) now notice_id)) (\<lambda>_.
     sbind (in_store (maybe_auto_title_session env te sid message now)) (\<lambda>_.
     ret \<lparr>tn_session_id = sid, tn_user_message_id = user_id, tn_assistant_message_id = assistant_id, tn_images = images\<rparr>))))"

text \<open>The answer of \<^verbatim>\<open>complete\<close> is an argument; \<open>slot\<close> is the outcome of waiting for a compute slot.\<close>

definition chat ::
    "store_env \<Rightarrow> title_env \<Rightarrow> int \<Rightarrow> (allocation \<Rightarrow> string) \<Rightarrow> unit result \<Rightarrow> (api_message list \<Rightarrow> string result) \<Rightarrow> string \<Rightarrow> string \<Rightarrow> string list \<Rightarrow>
     string \<Rightarrow> string \<Rightarrow> string \<Rightarrow> string \<Rightarrow> (agent_world, string) action" where
  "chat env te used system_of slot llm sid message images now user_id assistant_id notice_id =
     sbind (in_resources (ensure_disk_available used sid (int (utf8_length message)) now)) (\<lambda>_.
     sbind (in_store (append_message env sid (new_message ChatUser message now user_id) now notice_id)) (\<lambda>_.
     sbind (in_store (maybe_auto_title_session env te sid message now)) (\<lambda>_.
     sbind (in_resources (get_allocation used sid now)) (\<lambda>a.
     sbind (in_store (chat_messages env a (system_of a) sid images None)) (\<lambda>messages.
     sbind (lift_result slot) (\<lambda>_.
     sbind (lift_result (llm messages)) (\<lambda>response.
     sbind (in_store (append_message env sid (new_message ChatAssistant response now assistant_id) now notice_id)) (\<lambda>_. ret response))))))))"

lemma auto_title_keeps_user_title:
  assumes "dict_get (ag_sessions st) sid = Some d" "dict_get (se_metadata (sd_session d)) ''title_user_edited'' = Some (JBool True)"
  shows "maybe_auto_title_session env te sid message now st = (st, Inr ())"
  using assms by (simp add: maybe_auto_title_session_def effect_defs session_of_def)

lemma sanitize_title_clean: "length (sanitize_title x) \<le> 60 \<and> CHR ''#'' \<notin> set (sanitize_title x) \<and> CHR ''*'' \<notin> set (sanitize_title x)"
proof -
  have "set (py_strip t) \<subseteq> set t" for t unfolding py_strip_def by (metis set_dropWhileD set_rev subsetI)
  then have "CHR ''#'' \<notin> set (py_strip (filter (\<lambda>c. c \<noteq> CHR ''#'' \<and> c \<noteq> CHR ''*'') t)) \<and> CHR ''*'' \<notin> set (py_strip (filter (\<lambda>c. c \<noteq> CHR ''#'' \<and> c \<noteq> CHR ''*'') t))" for t
    by fastforce
  then show ?thesis by (auto simp: sanitize_title_def Let_def dest!: in_set_takeD)
qed

section \<open>What a turn stores\<close>

definition streamed :: "string \<Rightarrow> job_event list \<Rightarrow> string" where
  "streamed kind evs = concat (map snd (filter (\<lambda>e. fst e = kind) evs))"

definition stored_so_far :: "string \<Rightarrow> turn_state \<Rightarrow> bool" where
  "stored_so_far extra s \<longleftrightarrow> concat (ts_content s) = streamed ''content'' (ts_yielded s) @ extra \<and> concat (ts_reasoning s) = streamed ''reasoning'' (ts_yielded s)"

lemma streamed_simps [simp]: "streamed kind [] = []" "streamed kind (evs @ evs') = streamed kind evs @ streamed kind evs'"
  "streamed kind [(k, d)] = (if k = kind then d else [])"
  by (simp_all add: streamed_def)

lemma persist_fields:
  assumes "persist tv tn s = (s', r)"
  shows "s' = s\<lparr>ts_store := ts_store s'\<rparr>"
  using assms by (auto simp: persist_def with_state_def on_store_def split: prod.splits)

lemma keeps_persist: "(\<And>s st. P (s\<lparr>ts_store := st\<rparr>) = P s) \<Longrightarrow> keeps P (persist tv tn)"
proof (rule keepsI)
  fix s assume P: "\<And>s st. P (s\<lparr>ts_store := st\<rparr>) = P s" "P s"
  obtain s' r where "persist tv tn s = (s', r)" by fastforce
  then show "P (fst (persist tv tn s))" using persist_fields [of tv tn s s' r] P by (metis fst_conv)
qed

lemma keeps_read_answer:
  assumes "\<And>s st. P (s\<lparr>ts_store := st\<rparr>) = P s" "\<And>s t. P (s\<lparr>ts_last_persisted := t\<rparr>) = P s" "\<And>e s. P s \<Longrightarrow> P (take_event e s)"
  shows "keeps P (read_answer tv tn i k evs)"
  by (induction evs arbitrary: k) (auto intro!: keeps_intros keeps_persist simp: assms)

lemma keeps_request_round:
  assumes "\<And>s st. P (s\<lparr>ts_store := st\<rparr>) = P s" "\<And>s t. P (s\<lparr>ts_last_persisted := t\<rparr>) = P s" "\<And>e s. P s \<Longrightarrow> P (take_event e s)"
    and "\<And>s n. P (s\<lparr>ts_requests := n\<rparr>) = P s"
  shows "keeps P (request_round tv tn model i)"
  unfolding request_round_def by (auto intro!: keeps_intros keeps_read_answer simp: assms split: prod.splits)

lemma in_step_take_event: "stored_so_far [] s \<Longrightarrow> stored_so_far [] (take_event e s)"
  by (cases e) (simp_all add: stored_so_far_def yield_event_def)

lemma in_step_run_tools: "stored_so_far x s \<Longrightarrow> stored_so_far x (run_tools tv tn i k ts s)"
  by (induction ts arbitrary: k s) (auto simp: run_tool_def stored_so_far_def yield_event_def split: prod.splits)

lemma in_step_request_round: "keeps (stored_so_far []) (request_round tv tn model i)"
  by (rule keeps_request_round) (simp_all add: in_step_take_event, simp_all add: stored_so_far_def)

lemma tool_rounds_in_step:
  assumes "stored_so_far [] s" "tool_rounds tv tn model n i s = (s', r)"
  shows "stored_so_far [] s' \<or> (r = Inr () \<and> stored_so_far (tv_limit_notice tv) s')"
  using assms
proof (induction n arbitrary: i s)
  case 0
  then show ?case by (simp add: ret_def)
next
  case (Suc n)
  obtain s1 r1 where r1: "request_round tv tn model i s = (s1, r1)" by fastforce
  have s1: "stored_so_far [] s1" using keepsD [OF in_step_request_round Suc.prems(1), of tv tn model i] r1 by simp
  show ?case
  proof (cases r1)
    case (Inl e)
    then show ?thesis using Suc.prems(2) r1 s1 by (simp add: sbind_def)
  next
    case (Inr evs)
    define s2 where "s2 = run_tools tv tn i 0 (round_tool_calls evs) (s1\<lparr>ts_messages := ts_messages s1 @ [ApiToolCalls (round_content evs)
        (if round_reasoning evs = [] then None else Some (concat (round_reasoning evs))) (round_tool_calls evs)]\<rparr>)"
    have s2: "stored_so_far [] s2" unfolding s2_def by (rule in_step_run_tools) (use s1 in \<open>simp add: stored_so_far_def\<close>)
    consider "(s', r) = (s1, Inr ())" | "(s', r) = (s1\<lparr>ts_content := ts_content s1 @ [tv_limit_notice tv]\<rparr>, Inr ())" | "tool_rounds tv tn model n (Suc i) s2 = (s', r)"
      using Suc.prems(2) r1 Inr by (auto simp: sbind_def upd_def ret_def s2_def split: if_splits)
    then show ?thesis
    proof cases
      case 2
      then show ?thesis using s1 by (simp add: stored_so_far_def)
    qed (use s1 Suc.IH [OF s2] in auto)
  qed
qed

lemma report_error_in_step:
  assumes "stored_so_far [] s" "report_error tv tn e s = (s', Inr ())"
  shows "(''error'', error_message tv e) \<in> set (ts_yielded s') \<and>
    (stored_so_far [] s' \<or> (streamed ''content'' (ts_yielded s') = [] \<and> stored_so_far (tv_error_prefix tv @ error_message tv e) s'))"
proof -
  define s1 where "s1 = (if ts_content s = [] then s\<lparr>ts_content := [tv_error_prefix tv @ error_message tv e]\<rparr> else s)"
  obtain s2 where s2: "persist tv tn s1 = (s2, Inr ())" "s' = yield_event ''error'' (error_message tv e) s2"
    using assms(2) by (auto simp: report_error_def s1_def [symmetric] sbind_def [of "persist tv tn"] upd_def split: prod.splits sum.splits)
  have "s2 = s1\<lparr>ts_store := ts_store s2\<rparr>" by (rule persist_fields [OF s2(1)])
  then have "ts_content s2 = ts_content s1" "ts_reasoning s2 = ts_reasoning s1" "ts_yielded s2 = ts_yielded s1" by (metis turn_state.select_convs turn_state.update_convs(1) turn_state.surjective)+
  then show ?thesis using assms(1) s2(2) by (auto simp: stored_so_far_def yield_event_def s1_def)
qed

lemma replace_message_hit:
  "replace_message mid f ms = Some ms' \<Longrightarrow> \<exists>m \<in> set ms. cm_message_id m = mid \<and> f m \<in> set ms'"
  by (induction ms arbitrary: ms') (fastforce split: if_splits)+

lemma update_message_writes:
  assumes "update_message env sid mid content reasoning st = (st', Inr ())"
  shows "\<exists>d ms m. dict_get (ag_sessions st') sid = Some d \<and> sd_lines d = Some (file_of_messages ms) \<and> m \<in> set ms \<and>
    cm_message_id m = mid \<and> cm_content m = content \<and> cm_reasoning m = reasoning"
proof -
  obtain st1 ms ms' where ms: "list_messages env sid st = (st1, Inr ms)"
    "replace_message mid (\<lambda>m. m\<lparr>cm_content := content, cm_reasoning := reasoning\<rparr>) ms = Some ms'"
    "sbind (write_messages sid ms') (\<lambda>_. rebuild_chat_markdown sid ms') st1 = (st', Inr ())"
    using assms by (auto simp: update_message_def sbind_def [of "list_messages env sid"] raises_def split: prod.splits sum.splits option.splits)
  obtain d where d: "dict_get (ag_sessions st1) sid = Some d"
    using ms(1) by (auto simp: list_messages_def migrate_messages_def effect_defs session_of_def of_option_def on_session_def split: option.splits)
  obtain d' where d': "dict_get (ag_sessions st') sid = Some d'" "sd_lines d' = Some (file_of_messages ms')"
    using ms(3) d by (auto simp: write_messages_def rebuild_chat_markdown_def get_session_def effect_defs session_of_def on_session_hit)
  obtain m where "m \<in> set ms" "cm_message_id m = mid" "m\<lparr>cm_content := content, cm_reasoning := reasoning\<rparr> \<in> set ms'"
    using replace_message_hit [OF ms(2)] by blast
  then show ?thesis using d' by (intro exI [of _ d'] exI [of _ ms'] exI [of _ "m\<lparr>cm_content := content, cm_reasoning := reasoning\<rparr>"]) simp
qed

lemma turn_start:
  assumes "stream_prepared_turn tv a system_content slot tn s0 = (s, Inr ())"
  obtains s1 s2 model where "ts_yielded s1 = ts_yielded s0" "ts_content s1 = ts_content s0" "ts_reasoning s1 = ts_reasoning s0"
    "ts_requests s1 = ts_requests s0" "ts_effects s1 = ts_effects s0"
    "try_except (sbind (lift_result slot) (\<lambda>_. tool_rounds tv tn model (nat (tv_max_tool_rounds tv + 1)) 0)) (report_error tv tn) s1 = (s2, Inr ())"
    "persist tv tn s2 = (s, Inr ())"
proof -
  obtain st session st' messages s2 where *: "get_session (tn_session_id tn) (ts_store s0) = (st, Inr session)"
    "chat_messages (tv_store tv) a system_content (tn_session_id tn) (tn_images tn) (Some (tn_user_message_id tn)) st = (st', Inr messages)"
    "try_except (sbind (lift_result slot) (\<lambda>_. tool_rounds tv tn (dict_get (se_metadata session) ''model'') (nat (tv_max_tool_rounds tv + 1)) 0))
       (report_error tv tn) (s0\<lparr>ts_store := st', ts_messages := messages\<rparr>) = (s2, Inr ())" "persist tv tn s2 = (s, Inr ())"
    using assms
    by (auto simp: stream_prepared_turn_def sbind_def [of "on_store _"] on_store_def sbind_upd try_finally_def split: prod.splits sum.splits)
  show ?thesis by (rule that [OF _ _ _ _ _ *(3,4)]) simp_all
qed

text \<open>
  C18: what the reader of a turn was streamed is what the session stores. When a turn has ended, the message file of its session
  has the assistant's message with exactly the streamed content and reasoning; only the notice that the limit of tool
  rounds was reached, or the text of an error before any content, comes after it - the former without having been streamed.
\<close>

theorem turn_stores_what_it_streamed:
  assumes "stream_prepared_turn tv a system_content slot tn (mk_turn_state st) = (s, Inr ())"
  shows "\<exists>extra d ms m. dict_get (ag_sessions (ts_store s)) (tn_session_id tn) = Some d \<and> sd_lines d = Some (file_of_messages ms) \<and> m \<in> set ms \<and>
    cm_message_id m = tn_assistant_message_id tn \<and> cm_content m = streamed ''content'' (ts_yielded s) @ extra \<and>
    (case cm_reasoning m of None \<Rightarrow> [] | Some r \<Rightarrow> r) = streamed ''reasoning'' (ts_yielded s) \<and>
    (extra = [] \<or> extra = tv_limit_notice tv \<or>
     (\<exists>e. (''error'', error_message tv e) \<in> set (ts_yielded s) \<and> streamed ''content'' (ts_yielded s) = [] \<and> extra = tv_error_prefix tv @ error_message tv e))"
proof -
  obtain s1 s2 model where s1: "ts_yielded s1 = []" "ts_content s1 = []" "ts_reasoning s1 = []"
    and body: "try_except (sbind (lift_result slot) (\<lambda>_. tool_rounds tv tn model (nat (tv_max_tool_rounds tv + 1)) 0)) (report_error tv tn) s1 = (s2, Inr ())"
    and fin: "persist tv tn s2 = (s, Inr ())"
    by (rule turn_start [OF assms]) (simp add: mk_turn_state_def)
  have start: "stored_so_far [] s1" using s1 by (simp add: stored_so_far_def)
  obtain s3 r where r: "sbind (lift_result slot) (\<lambda>_. tool_rounds tv tn model (nat (tv_max_tool_rounds tv + 1)) 0) s1 = (s3, r)" by fastforce
  have s3: "stored_so_far [] s3 \<or> (r = Inr () \<and> stored_so_far (tv_limit_notice tv) s3)"
    using r start tool_rounds_in_step [OF start, of tv tn model _ 0 s3 r] by (cases slot) (auto simp: sbind_def lift_result_def)
  have s2: "\<exists>extra. stored_so_far extra s2 \<and> (extra = [] \<or> extra = tv_limit_notice tv \<or>
     (\<exists>e. (''error'', error_message tv e) \<in> set (ts_yielded s2) \<and> streamed ''content'' (ts_yielded s2) = [] \<and> extra = tv_error_prefix tv @ error_message tv e))"
  proof (cases r)
    case (Inl e)
    then have e: "stored_so_far [] s3" "report_error tv tn e s3 = (s2, Inr ())" using s3 r body by (auto simp: try_except_def)
    from report_error_in_step [OF this] show ?thesis by blast
  next
    case (Inr x)
    then show ?thesis using s3 r body by (auto simp: try_except_def)
  qed
  then obtain extra where extra: "stored_so_far extra s2" "extra = [] \<or> extra = tv_limit_notice tv \<or>
     (\<exists>e. (''error'', error_message tv e) \<in> set (ts_yielded s2) \<and> streamed ''content'' (ts_yielded s2) = [] \<and> extra = tv_error_prefix tv @ error_message tv e)"
    by blast
  have up: "update_message (tv_store tv) (tn_session_id tn) (tn_assistant_message_id tn) (concat (ts_content s2))
      (if concat (ts_reasoning s2) = [] then None else Some (concat (ts_reasoning s2))) (ts_store s2) = (ts_store s, Inr ())" "ts_yielded s = ts_yielded s2"
    using fin by (auto simp: persist_def with_state_def on_store_def simp del: concat_eq_Nil_conv split: prod.splits)
  obtain d ms m where m: "dict_get (ag_sessions (ts_store s)) (tn_session_id tn) = Some d" "sd_lines d = Some (file_of_messages ms)" "m \<in> set ms"
    "cm_message_id m = tn_assistant_message_id tn" "cm_content m = concat (ts_content s2)"
    "cm_reasoning m = (if concat (ts_reasoning s2) = [] then None else Some (concat (ts_reasoning s2)))"
    using update_message_writes [OF up(1)] by blast
  have "(case cm_reasoning m of None \<Rightarrow> [] | Some r \<Rightarrow> r) = concat (ts_reasoning s2)" using m(6) by simp
  then show ?thesis using m(1-5) extra up(2) unfolding stored_so_far_def by (intro exI [of _ extra] exI [of _ d] exI [of _ ms] exI [of _ m]) simp
qed

section \<open>Bounds of a turn\<close>

definition turn_within :: "turn_env \<Rightarrow> nat \<Rightarrow> turn_state \<Rightarrow> bool" where
  "turn_within tv n s \<longleftrightarrow> ts_requests s \<le> n \<and> (\<forall>eff \<in> set (ts_effects s). \<exists>i k. confined (tv_tools tv) (tv_world tv i k) eff)"

definition roots_exist :: "turn_env \<Rightarrow> bool" where
  "roots_exist tv \<longleftrightarrow> (\<forall>i k. \<forall>base \<in> set (te_allowed_roots (tv_tools tv)). fs_is_dir (tw_fs (tv_world tv i k)) base)"

lemma within_take_event: "turn_within tv n s \<Longrightarrow> turn_within tv n (take_event e s)"
  by (cases e) (simp_all add: turn_within_def yield_event_def)

lemma within_run_tools:
  assumes "roots_exist tv"
  shows "turn_within tv n s \<Longrightarrow> turn_within tv n (run_tools tv tn i k ts s)"
proof (induction ts arbitrary: k s)
  case (Cons t ts)
  have "turn_within tv n (run_tool tv tn i k t s)"
    using Cons.prems execute_confined [of _ "tv_tools tv" "tv_world tv i k" "tc_name t" "call_arguments tv tn t"] assms
    by (cases "execute (tv_tools tv) (tv_world tv i k) (tc_name t) (call_arguments tv tn t)")
      (fastforce simp: run_tool_def turn_within_def yield_event_def roots_exist_def)
  then show ?case using Cons.IH by simp
qed simp

lemma within_request_round:
  assumes "turn_within tv n s"
  shows "turn_within tv (Suc n) (fst (request_round tv tn model i s))"
proof -
  have "keeps (turn_within tv (Suc n)) (read_answer tv tn i 0 evs)" for evs
    by (rule keeps_read_answer) (simp_all add: within_take_event, simp_all add: turn_within_def)
  moreover have "turn_within tv (Suc n) (s\<lparr>ts_requests := Suc (ts_requests s)\<rparr>)" using assms by (simp add: turn_within_def)
  ultimately have "turn_within tv (Suc n) (fst (read_answer tv tn i 0 evs (s\<lparr>ts_requests := Suc (ts_requests s)\<rparr>)))" for evs by (rule keepsD)
  then show ?thesis unfolding request_round_def
    by (auto simp: with_state_def sbind_def [of "read_answer _ _ _ _ _"] sbind_def [of "lift_result _"] lift_result_def ret_def split: prod.splits sum.splits)
      (metis fst_conv)+
qed

lemma within_tool_rounds:
  assumes "roots_exist tv"
  shows "turn_within tv m s \<Longrightarrow> turn_within tv (m + n) (fst (tool_rounds tv tn model n i s))"
proof (induction n arbitrary: i m s)
  case 0
  then show ?case by (simp add: ret_def)
next
  case (Suc n)
  obtain s1 r1 where r1: "request_round tv tn model i s = (s1, r1)" by fastforce
  have s1: "turn_within tv (Suc m) s1" using within_request_round [OF Suc.prems, of tn model i] r1 by simp
  then have le: "turn_within tv (m + Suc n) s1" by (simp add: turn_within_def)
  show ?case
  proof (cases r1)
    case (Inl e)
    then show ?thesis using r1 le by (simp add: sbind_def)
  next
    case (Inr evs)
    define s2 where "s2 = run_tools tv tn i 0 (round_tool_calls evs) (s1\<lparr>ts_messages := ts_messages s1 @ [ApiToolCalls (round_content evs)
        (if round_reasoning evs = [] then None else Some (concat (round_reasoning evs))) (round_tool_calls evs)]\<rparr>)"
    have "turn_within tv (Suc m) s2" unfolding s2_def by (rule within_run_tools [OF assms]) (use s1 in \<open>simp add: turn_within_def\<close>)
    from Suc.IH [OF this, of "Suc i"] show ?thesis
      using r1 Inr le by (auto simp: sbind_def upd_def ret_def s2_def turn_within_def)
  qed
qed

lemma keeps_on_store: "(\<And>s st. P (s\<lparr>ts_store := st\<rparr>) = P s) \<Longrightarrow> keeps P (on_store m)"
  by (simp add: keeps_def on_store_def split: prod.splits)

lemma keeps_try_except:
  assumes "keeps P m" "\<And>e. keeps P (h e)"
  shows "keeps P (try_except m h)"
proof (rule keepsI)
  fix s assume "P s"
  obtain s1 r where r: "m s = (s1, r)" by fastforce
  then have "P s1" using keepsD [OF assms(1) \<open>P s\<close>] by simp
  then show "P (fst (try_except m h s))" using r keepsD [OF assms(2)] by (cases r) (simp_all add: try_except_def)
qed

lemma keeps_try_finally:
  assumes "keeps P m" "keeps P f"
  shows "keeps P (try_finally m f)"
proof (rule keepsI)
  fix s assume "P s"
  obtain s1 r where r: "m s = (s1, r)" by fastforce
  obtain s2 r2 where r2: "f s1 = (s2, r2)" by fastforce
  have "P s1" using keepsD [OF assms(1) \<open>P s\<close>] r by simp
  then have "P s2" using keepsD [OF assms(2), of s1] r2 by simp
  then show "P (fst (try_finally m f s))" using r r2 by (cases r2) (simp_all add: try_finally_def)
qed

lemma within_other [simp]: "turn_within tv n (s\<lparr>ts_store := st\<rparr>) = turn_within tv n s" "turn_within tv n (s\<lparr>ts_messages := ms\<rparr>) = turn_within tv n s"
  by (simp_all add: turn_within_def)

lemma within_report_error: "keeps (turn_within tv n) (report_error tv tn e)"
  unfolding report_error_def by (intro keeps_intros keeps_persist) (simp_all add: turn_within_def yield_event_def)

text \<open>
  C40: a turn is bounded and its tools are confined. However the language model answers, a turn ends after at most one request more
  than the limit of tool rounds, and everything the server itself did for its tool calls was confined: files under the allowed
  directories, and no program started but \<^verbatim>\<open>rg\<close>, \<^verbatim>\<open>patch\<close> and Python as the tools start them (\<open>Agent_Tools\<close>). The allowed
  directories are taken to exist; what the programs did once started is not covered.
\<close>

theorem turn_bounded_and_confined:
  assumes "roots_exist tv"
  shows "ts_requests (fst (stream_prepared_turn tv a system_content slot tn (mk_turn_state st))) \<le> nat (tv_max_tool_rounds tv + 1) \<and>
    (\<forall>eff \<in> set (ts_effects (fst (stream_prepared_turn tv a system_content slot tn (mk_turn_state st)))).
       \<exists>i k. confined (tv_tools tv) (tv_world tv i k) eff)"
proof -
  let ?n = "nat (tv_max_tool_rounds tv + 1)"
  define body where "body = (\<lambda>session :: session_record. sbind (lift_result slot) (\<lambda>_. tool_rounds tv tn (dict_get (se_metadata session) ''model'') ?n 0))"
  have body: "turn_within tv ?n (fst (body session s))" if "turn_within tv 0 s" for session s
    using within_tool_rounds [OF assms that, of ?n] that by (cases slot) (auto simp: body_def sbind_def lift_result_def turn_within_def)
  have rest: "turn_within tv ?n (fst (try_finally (try_except (body session) (report_error tv tn)) (persist tv tn) s))" if "turn_within tv 0 s" for session s
  proof -
    obtain s1 r where r: "body session s = (s1, r)" by fastforce
    then have s1: "turn_within tv ?n s1" using body [OF that, of session] by simp
    have "keeps (turn_within tv ?n) (try_finally (try_except (\<lambda>s. (s, r)) (report_error tv tn)) (persist tv tn))"
      by (intro keeps_try_finally keeps_try_except within_report_error keeps_persist) (simp_all add: keeps_def)
    from keepsD [OF this s1] show ?thesis using r by (simp add: try_finally_def try_except_def)
  qed
  have s0: "turn_within tv k (mk_turn_state st)" for k by (simp add: turn_within_def mk_turn_state_def)
  obtain st1 r1 where g: "get_session (tn_session_id tn) (ts_store (mk_turn_state st)) = (st1, r1)" by fastforce
  obtain st2 r2 where c: "chat_messages (tv_store tv) a system_content (tn_session_id tn) (tn_images tn) (Some (tn_user_message_id tn)) st1 = (st2, r2)" by fastforce
  have "turn_within tv ?n (fst (stream_prepared_turn tv a system_content slot tn (mk_turn_state st)))"
  proof (cases r1)
    case (Inl e)
    then show ?thesis using g s0 by (simp add: stream_prepared_turn_def sbind_def [of "on_store _"] on_store_def)
  next
    case (Inr session)
    show ?thesis
    proof (cases r2)
      case (Inl e)
      then show ?thesis using Inr g c s0 by (simp add: stream_prepared_turn_def sbind_def [of "on_store _"] on_store_def)
    next
      case (Inr messages)
      have "turn_within tv 0 ((mk_turn_state st)\<lparr>ts_store := st2, ts_messages := messages\<rparr>)" using s0 by simp
      from rest [OF this, of session] show ?thesis
        using \<open>r1 = Inr session\<close> Inr g c by (simp add: stream_prepared_turn_def sbind_def [of "on_store _"] on_store_def body_def)
    qed
  qed
  then show ?thesis by (simp add: turn_within_def)
qed

section \<open>The context of a turn\<close>

definition chars_of :: "stored_message list \<Rightarrow> int" where
  "chars_of ms = int (sum_list (map (\<lambda>m. length (cm_content m)) ms))"

lemma chars_of_simps [simp]: "chars_of [] = 0" "chars_of (m # ms) = int (length (cm_content m)) + chars_of ms"
  by (simp_all add: chars_of_def)

definition fits :: "int \<Rightarrow> int \<Rightarrow> stored_message list \<Rightarrow> bool" where
  "fits ml cl sel \<longleftrightarrow> int (length sel) \<le> max 1 ml \<and> (chars_of sel \<le> cl \<or> length sel \<le> 1)"

definition full :: "int \<Rightarrow> int \<Rightarrow> stored_message \<Rightarrow> stored_message list \<Rightarrow> bool" where
  "full ml cl m sel \<longleftrightarrow> sel \<noteq> [] \<and> (ml \<le> int (length sel) \<or> cl < chars_of (m # sel))"

lemma fits_more: "fits ml cl sel \<Longrightarrow> \<not> full ml cl m sel \<Longrightarrow> fits ml cl (m # sel)"
  by (cases sel) (auto simp: fits_def full_def max_def)

lemma select_recent_step:
  "select_recent ml cl (m # ms) sel (chars_of sel) = (if full ml cl m sel then sel else select_recent ml cl ms (m # sel) (chars_of (m # sel)))"
  by (simp add: full_def Let_def add.commute)

lemma select_recent_spec:
  "fits ml cl sel \<Longrightarrow> \<exists>older newer. rest = newer @ older \<and> select_recent ml cl rest sel (chars_of sel) = rev newer @ sel \<and>
     fits ml cl (rev newer @ sel) \<and> (older \<noteq> [] \<longrightarrow> full ml cl (hd older) (rev newer @ sel))"
proof (induction rest arbitrary: sel)
  case (Cons m ms)
  show ?case
  proof (cases "full ml cl m sel")
    case True
    show ?thesis unfolding select_recent_step using True Cons.prems by (intro exI [of _ "m # ms"] exI [of _ "[]"]) simp
  next
    case False
    obtain older newer where "ms = newer @ older" "select_recent ml cl ms (m # sel) (chars_of (m # sel)) = rev newer @ m # sel"
      "fits ml cl (rev newer @ m # sel)" "older \<noteq> [] \<longrightarrow> full ml cl (hd older) (rev newer @ m # sel)"
      using Cons.IH [OF fits_more [OF Cons.prems False]] by blast
    then show ?thesis unfolding select_recent_step using False by (intro exI [of _ older] exI [of _ "m # newer"]) (simp del: chars_of_simps)
  qed
qed simp

text \<open>
  A turn shows the model the longest run of recent messages that fits its session's memory limits: the messages sent are a suffix of
  the conversation, the newest message is always there, no limit is exceeded by more than that one message, and one
  more message would exceed a limit.
\<close>

theorem context_is_longest_recent_suffix:
  "\<exists>older. ms = older @ select_recent ml cl (rev ms) [] 0 \<and>
    fits ml cl (select_recent ml cl (rev ms) [] 0) \<and> (older \<noteq> [] \<longrightarrow> full ml cl (last older) (select_recent ml cl (rev ms) [] 0))"
proof -
  have "fits ml cl []" by (simp add: fits_def)
  from select_recent_spec [OF this, of "rev ms"] obtain older newer where on: "rev ms = newer @ older" "select_recent ml cl (rev ms) [] 0 = rev newer"
    "fits ml cl (rev newer)" "older \<noteq> [] \<longrightarrow> full ml cl (hd older) (rev newer)"
    unfolding chars_of_simps append_Nil2 by blast
  have "ms = rev older @ rev newer" using on(1) by (metis rev_append rev_rev_ident)
  then show ?thesis unfolding on(2) using on(3,4) by (intro exI [of _ "rev older"]) (simp add: last_rev)
qed

section \<open>Examples\<close>

text \<open>A reader for a session of two messages, which it tells apart by their role.\<close>

definition demo_store_env :: store_env where
  "demo_store_env = \<lparr>en_loads = (\<lambda>l. if take 5 (drop 10 l) = ''user'' @ [CHR 0x22] then Inr (new_message ChatUser ''Hi'' ''t'' ''u'') else Inr (new_message ChatAssistant [] ''t'' ''a'')),
     en_parse_chat = (\<lambda>_. []), en_new_id = (\<lambda>_. ''id'')\<rparr>"

definition demo_session_record :: session_record where
  "demo_session_record = \<lparr>se_session_id = ''s'', se_title = ''T'', se_created_at = ''t'', se_updated_at = ''t'', se_metadata = []\<rparr>"

definition demo_store :: agent_store where
  "demo_store = \<lparr>ag_sessions = [(''s'', \<lparr>sd_session = demo_session_record, sd_chat = Some [],
     sd_lines = Some (file_of_messages [new_message ChatUser ''Hi'' ''t'' ''u'', new_message ChatAssistant [] ''t'' ''a''])\<rparr>)], ag_max_messages = 100\<rparr>"

text \<open>The model answers in two pieces and asks for a tool in its first round.\<close>

definition demo_turn_env :: turn_env where
  "demo_turn_env = \<lparr>tv_store = demo_store_env,
     tv_llm = (\<lambda>i _ _. \<lparr>la_lines = (if i = 0 then [SseDelta [] ''Hello'' [\<lparr>rt_index = 0, rt_id = ''c'', rt_type = [], rt_name = ''write_file'', rt_arguments = ''p''\<rparr>], SseDone]
        else [SseDelta [] ''!'' []]), la_error = None\<rparr>),
     tv_clock = (\<lambda>_ _. 0), tv_tools = demo_tools, tv_world = (\<lambda>_ _. demo_world),
     tv_loads = (\<lambda>_. Some (JObj [(''path'', JStr ''f''), (''content'', JStr ''x'')])), tv_result_text = (\<lambda>_. ''r''), tv_error_text = (\<lambda>_. ''e''), tv_error_type = (\<lambda>_. ''E''),
     tv_limit_notice = ''!'', tv_error_prefix = ''error: '', tv_max_tool_rounds = 4\<rparr>"

definition demo_turn :: turn where
  "demo_turn = \<lparr>tn_session_id = ''s'', tn_user_message_id = ''u'', tn_assistant_message_id = ''a'', tn_images = []\<rparr>"

definition demo_result :: "int \<Rightarrow> turn_state \<times> unit result" where
  "demo_result n = stream_prepared_turn (demo_turn_env\<lparr>tv_max_tool_rounds := n\<rparr>) demo_allocation ''system'' (Inr ()) demo_turn (mk_turn_state demo_store)"

lemma demo_result_eval:
  "(case demo_result 4 of (s, r) \<Rightarrow> (r, ts_yielded s)) = (Inr (), [(''content'', ''Hello''), (''tool'', ''write_file: ok''), (''content'', ''!'')])"
  by code_simp

theorem turn_stores_what_it_streamed_witness:
  "\<exists>s extra d ms m. demo_result 4 = (s, Inr ()) \<and> dict_get (ag_sessions (ts_store s)) ''s'' = Some d \<and> sd_lines d = Some (file_of_messages ms) \<and> m \<in> set ms \<and>
     cm_message_id m = ''a'' \<and> cm_content m = ''Hello!'' @ extra"
proof -
  obtain s where s: "demo_result 4 = (s, Inr ())" using demo_result_eval by (cases "demo_result 4") simp
  have c: "streamed ''content'' (ts_yielded s) = ''Hello!''" using demo_result_eval s by (simp add: streamed_def)
  from turn_stores_what_it_streamed [OF s [unfolded demo_result_def]] obtain extra d ms m
    where "dict_get (ag_sessions (ts_store s)) ''s'' = Some d" "sd_lines d = Some (file_of_messages ms)" "m \<in> set ms"
      "cm_message_id m = ''a''" "cm_content m = ''Hello!'' @ extra" unfolding c by (auto simp: demo_turn_def)
  then show ?thesis using s by blast
qed

theorem turn_bounded_and_confined_witness:
  "ts_requests (fst (demo_result 4)) \<le> 5 \<and> list_all (\<lambda>eff. \<exists>i k. confined demo_tools (tv_world demo_turn_env i k) eff) (ts_effects (fst (demo_result 4)))"
proof -
  have "roots_exist (demo_turn_env\<lparr>tv_max_tool_rounds := 4\<rparr>)" by (simp add: roots_exist_def demo_turn_env_def demo_tools_def demo_world_def demo_fs_def)
  from turn_bounded_and_confined [OF this, of demo_allocation "''system''" "Inr ()" demo_turn demo_store] show ?thesis
    unfolding demo_result_def [symmetric] by (simp add: demo_turn_env_def list_all_iff)
qed

theorem context_is_longest_recent_suffix_witness:
  "\<exists>older. [new_message ChatUser ''old'' ''t'' ''o'', new_message ChatUser ''Hi'' ''t'' ''u''] = older @ [new_message ChatUser ''Hi'' ''t'' ''u''] \<and>
     full 24 4 (last older) [new_message ChatUser ''Hi'' ''t'' ''u'']"
proof -
  let ?ms = "[new_message ChatUser ''old'' ''t'' ''o'', new_message ChatUser ''Hi'' ''t'' ''u'']"
  have sel: "select_recent 24 4 (rev ?ms) [] 0 = [new_message ChatUser ''Hi'' ''t'' ''u'']" by code_simp
  from context_is_longest_recent_suffix [of ?ms 24 4] obtain older where older: "?ms = older @ [new_message ChatUser ''Hi'' ''t'' ''u'']"
    "older \<noteq> [] \<longrightarrow> full 24 4 (last older) [new_message ChatUser ''Hi'' ''t'' ''u'']" unfolding sel by blast
  then have "older \<noteq> []" by auto
  then show ?thesis using older by blast
qed

text \<open>When the limit of tool rounds is reached, the notice is stored but the reader is not sent it.\<close>

lemma limit_notice_not_streamed:
  "(case demo_result 0 of (s, r) \<Rightarrow> (r, ts_yielded s, ts_content s)) = (Inr (), [(''content'', ''Hello'')], [''Hello'', ''!''])"
  by code_simp

end
