(* ===== verification/Session_Routes.thy ===== *)
theory Session_Routes
  imports Auth_Routes Agent_Runner
begin

text \<open>
  The session routes of the agent server (\<^verbatim>\<open>create_app\<close> in \<^verbatim>\<open>tools/src/exo_tools/agent_server.py\<close>) over the models of accounts, store,
  resources, runner and jobs: creating, listing, reading, changing and deleting sessions, chatting in them, and their resources. A route
  answers a status code or the session records and messages it shows. What a route draws from outside - clock, new ids, directory
  sizes, the language model - is in the record \<open>route_env\<close>.
\<close>

section \<open>The server\<close>

record agent_app =
  ap_auth :: auth_server
  ap_world :: agent_world
  ap_jobs :: jobs_state

record route_env =
  re_crypto :: crypto
  re_store :: store_env
  re_titles :: title_env
  re_used :: "string \<Rightarrow> int"
  re_now :: int
  re_now_iso :: string
  re_new_session_id :: string
  re_user_message_id :: string
  re_assistant_message_id :: string
  re_notice_id :: string
  re_answer_id :: string
  re_system :: "allocation \<Rightarrow> string"
  re_slot :: "unit result"
  re_llm :: "api_message list \<Rightarrow> string result"
  re_max_sessions :: nat

type_synonym shown = "session_record list \<times> stored_message list"

text \<open>\<^verbatim>\<open>session.metadata.get("owner_user_id") == user.user_id\<close>, with Python's equality of numbers.\<close>

fun equals_int :: "json \<Rightarrow> int \<Rightarrow> bool" where
  "equals_int (JInt n) k = (n = k)"
| "equals_int (JBool b) k = ((if b then 1 else 0) = k)"
| "equals_int (JFloat x) k = (x = of_int k)"
| "equals_int _ k = False"

definition owned_by :: "auth_user \<Rightarrow> session_record \<Rightarrow> bool" where
  "owned_by user session = (case dict_get (se_metadata session) ''owner_user_id'' of Some v \<Rightarrow> equals_int v (au_user_id user) | None \<Rightarrow> False)"

text \<open>A part of a route that may raise, with the status codes for the exceptions the route handles.\<close>

definition world_call :: "(py_error \<Rightarrow> nat) \<Rightarrow> (agent_world, 'a) action \<Rightarrow> agent_app \<Rightarrow> agent_app \<times> 'a answer" where
  "world_call code m app =
     (case m (ap_world app) of (w, Inl e) \<Rightarrow> (app\<lparr>ap_world := w\<rparr>, Inl (code e)) | (w, Inr x) \<Rightarrow> (app\<lparr>ap_world := w\<rparr>, Inr x))"

definition missing_code :: "py_error \<Rightarrow> nat" where
  "missing_code e = (if e = file_not_found then 404 else 500)"

definition update_code :: "py_error \<Rightarrow> nat" where
  "update_code e = (if e = file_not_found then 404 else if value_error_raised e then 400 else 500)"

definition resource_code :: "py_error \<Rightarrow> nat" where
  "resource_code e = (if e = file_not_found then 404 else case e of RuntimeError _ \<Rightarrow> 400 | ValueError _ \<Rightarrow> 400 | _ \<Rightarrow> 500)"

definition require_session_access :: "route_env \<Rightarrow> http_request \<Rightarrow> string \<Rightarrow> string \<Rightarrow> bool \<Rightarrow> agent_app \<Rightarrow> auth_user answer" where
  "require_session_access re rq sid permission csrf app =
     (case require (re_crypto re) (re_now re) rq permission csrf (ap_auth app) of
        Inl code \<Rightarrow> Inl code
      | Inr user \<Rightarrow>
          (case dict_get (ag_sessions (aw_store (ap_world app))) sid of
             None \<Rightarrow> Inl 404
           | Some d \<Rightarrow> if owned_by user (sd_session d) then Inr user else Inl 404))"

definition with_access ::
    "route_env \<Rightarrow> http_request \<Rightarrow> string \<Rightarrow> string \<Rightarrow> bool \<Rightarrow> (auth_user \<Rightarrow> agent_app \<Rightarrow> agent_app \<times> shown answer) \<Rightarrow> agent_app \<Rightarrow> agent_app \<times> shown answer" where
  "with_access re rq sid permission csrf f app =
     (case require_session_access re rq sid permission csrf app of Inl code \<Rightarrow> (app, Inl code) | Inr user \<Rightarrow> f user app)"

section \<open>Routes\<close>

definition create_session_route :: "route_env \<Rightarrow> http_request \<Rightarrow> string \<Rightarrow> (string, json) dict \<Rightarrow> agent_app \<Rightarrow> agent_app \<times> shown answer" where
  "create_session_route re rq title metadata app =
     (case require (re_crypto re) (re_now re) rq ''chat:write'' True (ap_auth app) of
        Inl code \<Rightarrow> (app, Inl code)
      | Inr user \<Rightarrow>
          if re_max_sessions re \<le> length (filter (owned_by user) (list_sessions (aw_store (ap_world app)))) then (app, Inl 409)
          else world_call (\<lambda>_. 500)
            (sbind (in_store (store_create_session (re_new_session_id re) title (dict_set metadata ''owner_user_id'' (JInt (au_user_id user))) (re_now_iso re))) (\<lambda>session.
             sbind (in_resources (allocate (re_used re (re_new_session_id re)) (re_new_session_id re) [] (re_now_iso re) (re_now_iso re))) (\<lambda>_.
             ret ([session], [])))) app)"

definition list_sessions_route :: "route_env \<Rightarrow> http_request \<Rightarrow> agent_app \<Rightarrow> agent_app \<times> shown answer" where
  "list_sessions_route re rq app =
     (case require (re_crypto re) (re_now re) rq ''chat:read'' False (ap_auth app) of
        Inl code \<Rightarrow> (app, Inl code)
      | Inr user \<Rightarrow> (app, Inr (filter (owned_by user) (list_sessions (aw_store (ap_world app))), [])))"

definition read_chat :: "string \<Rightarrow> (agent_store, string) action" where
  "read_chat sid = with_state (\<lambda>st. lift_result (rbind (session_of sid st) (\<lambda>d. of_option file_not_found (sd_chat d))))"

definition get_session_route :: "route_env \<Rightarrow> http_request \<Rightarrow> string \<Rightarrow> agent_app \<Rightarrow> agent_app \<times> shown answer" where
  "get_session_route re rq sid =
     with_access re rq sid ''chat:read'' False (\<lambda>_. world_call missing_code
       (sbind (in_store (get_session sid)) (\<lambda>session.
        sbind (in_store (read_chat sid)) (\<lambda>_.
        sbind (in_resources (get_allocation (re_used re sid) sid (re_now_iso re))) (\<lambda>_.
        sbind (in_resources (session_usage (re_used re sid) sid (re_now_iso re))) (\<lambda>_.
        sbind (in_store (list_messages (re_store re) sid)) (\<lambda>messages. ret ([session], messages))))))))"

definition set_model :: "string \<Rightarrow> session_record \<Rightarrow> string option \<Rightarrow> (agent_store, session_record) action" where
  "set_model sid session model =
     (case model of
        None \<Rightarrow> ret session
      | Some m \<Rightarrow>
          (let session' = session\<lparr>se_metadata := dict_set (se_metadata session) ''model'' (JStr m)\<rparr> in
           sbind (upd (on_session sid (\<lambda>d. d\<lparr>sd_session := session'\<rparr>))) (\<lambda>_. ret session')))"

definition update_session_route :: "route_env \<Rightarrow> http_request \<Rightarrow> string \<Rightarrow> string option \<Rightarrow> string option \<Rightarrow> agent_app \<Rightarrow> agent_app \<times> shown answer" where
  "update_session_route re rq sid title model =
     with_access re rq sid ''chat:write'' True (\<lambda>_ app.
       if has_pending sid (ap_jobs app) then (app, Inl 409)
       else world_call update_code
         (sbind (in_store (get_session sid)) (\<lambda>session.
          sbind (in_store (case title of None \<Rightarrow> ret session | Some t \<Rightarrow> rename_session (re_store re) sid t True (re_now_iso re))) (\<lambda>session.
          sbind (in_store (set_model sid session model)) (\<lambda>session. ret ([session], []))))) app)"

text \<open>Deleting removes the session's directory, with the allocation in it; the manager keeps its semaphore.\<close>

definition delete_session_route :: "route_env \<Rightarrow> http_request \<Rightarrow> string \<Rightarrow> agent_app \<Rightarrow> agent_app \<times> shown answer" where
  "delete_session_route re rq sid =
     with_access re rq sid ''chat:write'' True (\<lambda>_ app.
       if has_pending sid (ap_jobs app) then (app, Inl 409)
       else world_call missing_code
         (sbind (in_store (delete_session sid)) (\<lambda>_.
          sbind (in_resources (upd (\<lambda>rm. rm\<lparr>rm_files := dict_del (rm_files rm) sid\<rparr>))) (\<lambda>_. ret ([], [])))) app)"

definition chat_route :: "route_env \<Rightarrow> http_request \<Rightarrow> string \<Rightarrow> string \<Rightarrow> string list \<Rightarrow> agent_app \<Rightarrow> agent_app \<times> shown answer" where
  "chat_route re rq sid message images =
     with_access re rq sid ''chat:write'' True (\<lambda>_. world_call missing_code
       (sbind (chat (re_store re) (re_titles re) (re_used re sid) (re_system re) (re_slot re) (re_llm re) sid message images (re_now_iso re)
          (re_user_message_id re) (re_assistant_message_id re) (re_notice_id re)) (\<lambda>response.
        ret ([], [new_message ChatAssistant response (re_now_iso re) (re_answer_id re)]))))"

definition get_resources_route :: "route_env \<Rightarrow> http_request \<Rightarrow> string \<Rightarrow> agent_app \<Rightarrow> agent_app \<times> shown answer" where
  "get_resources_route re rq sid =
     with_access re rq sid ''resources:read'' False (\<lambda>_. world_call missing_code
       (sbind (in_store (get_session sid)) (\<lambda>_.
        sbind (in_resources (get_allocation (re_used re sid) sid (re_now_iso re))) (\<lambda>_.
        sbind (in_resources (session_usage (re_used re sid) sid (re_now_iso re))) (\<lambda>_. ret ([], []))))))"

definition update_resources_route :: "route_env \<Rightarrow> http_request \<Rightarrow> string \<Rightarrow> (string, json) dict \<Rightarrow> agent_app \<Rightarrow> agent_app \<times> shown answer" where
  "update_resources_route re rq sid overrides =
     with_access re rq sid ''resources:update'' True (\<lambda>_. world_call resource_code
       (sbind (in_store (get_session sid)) (\<lambda>_.
        sbind (in_resources (allocate (re_used re sid) sid overrides (re_now_iso re) (re_now_iso re))) (\<lambda>_.
        sbind (in_resources (ensure_disk_available (re_used re sid) sid 0 (re_now_iso re))) (\<lambda>_.
        sbind (in_resources (session_usage (re_used re sid) sid (re_now_iso re))) (\<lambda>_. ret ([], [])))))))"

definition chat_stream_route :: "route_env \<Rightarrow> http_request \<Rightarrow> string \<Rightarrow> string \<Rightarrow> string list \<Rightarrow> agent_app \<Rightarrow> agent_app \<times> shown answer" where
  "chat_stream_route re rq sid message images =
     with_access re rq sid ''chat:write'' True (\<lambda>_ app.
       case world_call missing_code (prepare_chat_turn (re_store re) (re_titles re) (re_used re sid) sid message images (re_now_iso re)
           (re_user_message_id re) (re_assistant_message_id re) (re_notice_id re)) app of
         (app', Inl code) \<Rightarrow> (app', Inl code)
       | (app', Inr tn) \<Rightarrow> (app'\<lparr>ap_jobs := submit_job sid (tn_assistant_message_id tn) (ap_jobs app')\<rparr>, Inr ([], [])))"

datatype session_call =
    CreateSession http_request string "(string, json) dict"
  | ListSessions http_request
  | GetSession http_request string
  | UpdateSession http_request string "string option" "string option"
  | DeleteSession http_request string
  | ChatMessage http_request string string "string list"
  | GetResources http_request string
  | UpdateResources http_request string "(string, json) dict"
  | ChatStream http_request string string "string list"

fun session_route :: "route_env \<Rightarrow> session_call \<Rightarrow> agent_app \<Rightarrow> agent_app \<times> shown answer" where
  "session_route re (CreateSession rq title metadata) = create_session_route re rq title metadata"
| "session_route re (ListSessions rq) = list_sessions_route re rq"
| "session_route re (GetSession rq sid) = get_session_route re rq sid"
| "session_route re (UpdateSession rq sid title model) = update_session_route re rq sid title model"
| "session_route re (DeleteSession rq sid) = delete_session_route re rq sid"
| "session_route re (ChatMessage rq sid message images) = chat_route re rq sid message images"
| "session_route re (GetResources rq sid) = get_resources_route re rq sid"
| "session_route re (UpdateResources rq sid overrides) = update_resources_route re rq sid overrides"
| "session_route re (ChatStream rq sid message images) = chat_stream_route re rq sid message images"

section \<open>What an operation leaves alone\<close>

text \<open>Every operation on a session leaves the directory and the allocation of another session as they were.\<close>

definition session_is :: "string \<Rightarrow> session_dir option \<Rightarrow> agent_store \<Rightarrow> bool" where
  "session_is sid d st \<longleftrightarrow> dict_get (ag_sessions st) sid = d"

definition allocation_is :: "string \<Rightarrow> allocation option \<Rightarrow> resources \<Rightarrow> bool" where
  "allocation_is sid a rm \<longleftrightarrow> dict_get (rm_files rm) sid = a"

definition world_is :: "string \<Rightarrow> session_dir option \<Rightarrow> allocation option \<Rightarrow> agent_world \<Rightarrow> bool" where
  "world_is sid d a w \<longleftrightarrow> session_is sid d (aw_store w) \<and> allocation_is sid a (aw_resources w)"

lemma session_is_on_session: "sid' \<noteq> sid \<Longrightarrow> session_is sid d (on_session sid' f st) = session_is sid d st"
  by (simp add: session_is_def on_session_def split: option.splits)

lemma keeps_cases: "(c \<Longrightarrow> keeps P m) \<Longrightarrow> (\<not> c \<Longrightarrow> keeps P n) \<Longrightarrow> keeps P (if c then m else n)"
  by simp

lemma keeps_option: "keeps P m \<Longrightarrow> (\<And>x. keeps P (f x)) \<Longrightarrow> keeps P (case v of None \<Rightarrow> m | Some x \<Rightarrow> f x)"
  by (cases v) simp_all

lemma frame_on_session: "sid' \<noteq> sid \<Longrightarrow> keeps (session_is sid d) (upd (on_session sid' f))"
  by (rule keeps_upd) (simp add: session_is_on_session)

lemma frame_migrate: "sid' \<noteq> sid \<Longrightarrow> keeps (session_is sid d) (migrate_messages env sid')"
  unfolding migrate_messages_def by (intro keeps_intros) (simp add: session_is_on_session)

lemma frame_list: "sid' \<noteq> sid \<Longrightarrow> keeps (session_is sid d) (list_messages env sid')"
  unfolding list_messages_def by (intro keeps_intros frame_migrate)

lemma frame_get: "keeps (session_is sid d) (get_session sid')" "keeps (session_is sid d) (read_chat sid')"
  unfolding get_session_def read_chat_def by (intro keeps_intros)+

lemma frame_write: "sid' \<noteq> sid \<Longrightarrow> keeps (session_is sid d) (write_messages sid' ms)"
  unfolding write_messages_def by (rule frame_on_session)

lemma frame_rebuild: "sid' \<noteq> sid \<Longrightarrow> keeps (session_is sid d) (rebuild_chat_markdown sid' ms)"
  unfolding rebuild_chat_markdown_def by (intro keeps_sbind frame_get frame_on_session)

lemma frame_compact: "sid' \<noteq> sid \<Longrightarrow> keeps (session_is sid d) (compact_session env sid' now mid)"
  unfolding compact_session_def Let_def by (intro keeps_sbind keeps_with_state keeps_cases keeps_pure frame_list frame_write frame_rebuild)

lemma frame_append: "sid' \<noteq> sid \<Longrightarrow> keeps (session_is sid d) (append_message env sid' m now mid)"
  unfolding append_message_def by (intro keeps_sbind frame_get frame_migrate frame_on_session frame_compact)

lemma frame_rename: "sid' \<noteq> sid \<Longrightarrow> keeps (session_is sid d) (rename_session env sid' title edited now)"
  unfolding rename_session_def Let_def by (intro keeps_cases keeps_pure keeps_sbind frame_get frame_on_session frame_list frame_rebuild)

lemma frame_delete: "sid' \<noteq> sid \<Longrightarrow> keeps (session_is sid d) (delete_session sid')"
  unfolding delete_session_def by (intro keeps_with_state keeps_cases keeps_pure keeps_upd) (simp add: session_is_def)

lemma frame_set_model: "sid' \<noteq> sid \<Longrightarrow> keeps (session_is sid d) (set_model sid' session model)"
  unfolding set_model_def Let_def by (intro keeps_option keeps_sbind keeps_pure frame_on_session)

lemma frame_title: "sid' \<noteq> sid \<Longrightarrow> keeps (session_is sid d) (maybe_auto_title_session env te sid' message now)"
proof -
  assume "sid' \<noteq> sid"
  then have "keeps (session_is sid d) (sbind (rename_session env sid' t False now) (\<lambda>_. ret ()))" for t by (intro keeps_sbind keeps_pure frame_rename)
  then show ?thesis unfolding maybe_auto_title_session_def Let_def
    by (intro keeps_with_state) (auto simp: keeps_pure split: sum.splits)
qed

lemma frame_chat_messages: "sid' \<noteq> sid \<Longrightarrow> keeps (session_is sid d) (chat_messages env a system_content sid' images through)"
  unfolding chat_messages_def Let_def by (intro keeps_sbind keeps_pure frame_list)

lemma frame_create: "keeps (session_is sid (Some d)) (store_create_session sid' title metadata now)"
  by (auto simp: keeps_def session_is_def store_create_session_def effect_defs Let_def)

lemma frame_allocate: "sid' \<noteq> sid \<Longrightarrow> keeps (allocation_is sid a) (allocate used sid' overrides now now')"
proof (rule keepsI)
  fix rm assume "sid' \<noteq> sid" "allocation_is sid a rm"
  then show "allocation_is sid a (fst (allocate used sid' overrides now now' rm))"
    using allocate_effect [of used sid' overrides now now' rm] by (cases "allocate used sid' overrides now now' rm") (auto simp: allocation_is_def)
qed

lemma frame_allocation: "sid' \<noteq> sid \<Longrightarrow> keeps (allocation_is sid a) (get_allocation used sid' now)"
  unfolding get_allocation_def by (intro keeps_with_state keeps_option keeps_pure frame_allocate)

lemma frame_usage: "sid' \<noteq> sid \<Longrightarrow> keeps (allocation_is sid a) (session_usage used sid' now)"
  unfolding session_usage_def by (intro keeps_sbind keeps_pure frame_allocation)

lemma frame_ensure: "sid' \<noteq> sid \<Longrightarrow> keeps (allocation_is sid a) (ensure_disk_available used sid' requested now)"
  unfolding ensure_disk_available_def by (intro keeps_sbind frame_allocation frame_usage) (auto split: prod.splits simp: keeps_pure)

lemma frame_in_store: "keeps (session_is sid d) m \<Longrightarrow> keeps (world_is sid d a) (in_store m)"
  by (auto simp: keeps_def in_store_def world_is_def split: prod.splits)

lemma frame_in_resources: "keeps (allocation_is sid a) m \<Longrightarrow> keeps (world_is sid d a) (in_resources m)"
  by (auto simp: keeps_def in_resources_def world_is_def split: prod.splits)

lemmas world_frames = keeps_sbind keeps_pure keeps_option frame_in_store frame_in_resources frame_get frame_list frame_append frame_rename frame_delete frame_set_model
  frame_title frame_chat_messages frame_allocate frame_allocation frame_usage frame_ensure

lemma frame_prepare: "sid' \<noteq> sid \<Longrightarrow> keeps (world_is sid d a) (prepare_chat_turn env te used sid' message images now u v n)"
  unfolding prepare_chat_turn_def by (intro world_frames)

lemma frame_chat: "sid' \<noteq> sid \<Longrightarrow> keeps (world_is sid d a) (chat env te used sys slot llm sid' message images now u v n)"
  unfolding chat_def by (intro world_frames)

section \<open>Isolation of sessions\<close>

fun request_of :: "session_call \<Rightarrow> http_request" where
  "request_of (CreateSession rq _ _) = rq"
| "request_of (ListSessions rq) = rq"
| "request_of (GetSession rq _) = rq"
| "request_of (UpdateSession rq _ _ _) = rq"
| "request_of (DeleteSession rq _) = rq"
| "request_of (ChatMessage rq _ _ _) = rq"
| "request_of (GetResources rq _) = rq"
| "request_of (UpdateResources rq _ _) = rq"
| "request_of (ChatStream rq _ _ _) = rq"

fun addressed :: "session_call \<Rightarrow> string option" where
  "addressed (CreateSession _ _ _) = None"
| "addressed (ListSessions _) = None"
| "addressed (GetSession _ sid) = Some sid"
| "addressed (UpdateSession _ sid _ _) = Some sid"
| "addressed (DeleteSession _ sid) = Some sid"
| "addressed (ChatMessage _ sid _ _) = Some sid"
| "addressed (GetResources _ sid) = Some sid"
| "addressed (UpdateResources _ sid _) = Some sid"
| "addressed (ChatStream _ sid _ _) = Some sid"

text \<open>The request does not come from the owner of the session.\<close>

definition foreign :: "route_env \<Rightarrow> http_request \<Rightarrow> agent_app \<Rightarrow> session_dir \<Rightarrow> bool" where
  "foreign re rq app d \<longleftrightarrow>
     (case request_identity (re_crypto re) (re_now re) rq (ap_auth app) of Inl _ \<Rightarrow> True | Inr (user, _) \<Rightarrow> \<not> owned_by user (sd_session d))"

definition jobs_of :: "string \<Rightarrow> agent_app \<Rightarrow> chat_job list" where
  "jobs_of sid app = filter (\<lambda>j. jb_session j = sid) (js_jobs (ap_jobs app))"

definition app_is :: "string \<Rightarrow> session_dir option \<Rightarrow> allocation option \<Rightarrow> chat_job list \<Rightarrow> agent_app \<Rightarrow> bool" where
  "app_is sid d a js app \<longleftrightarrow> world_is sid d a (ap_world app) \<and> jobs_of sid app = js"

lemma require_identity: "require cr now rq permission csrf srv = Inr user \<Longrightarrow> \<exists>token. request_identity cr now rq srv = Inr (user, token)"
  by (auto simp: require_def split: sum.splits prod.splits if_splits)

lemma foreign_denied:
  assumes "foreign re rq app d" "dict_get (ag_sessions (aw_store (ap_world app))) sid = Some d"
  shows "\<exists>code. with_access re rq sid permission csrf f app = (app, Inl code)"
  using assms require_identity [of "re_crypto re" "re_now re" rq permission csrf "ap_auth app"]
  by (auto simp: with_access_def require_session_access_def foreign_def split: sum.splits)

lemma access_cases:
  obtains code where "with_access re rq sid permission csrf f app = (app, Inl code)"
    | user where "with_access re rq sid permission csrf f app = f user app"
  by (cases "require_session_access re rq sid permission csrf app") (auto simp: with_access_def)

lemma frame_world_call: "keeps (world_is sid d a) m \<Longrightarrow> app_is sid d a js app \<Longrightarrow> app_is sid d a js (fst (world_call code m app))"
proof -
  assume m: "keeps (world_is sid d a) m" and app: "app_is sid d a js app"
  obtain w r where w: "m (ap_world app) = (w, r)" by fastforce
  have "world_is sid d a w" using keepsD [OF m, of "ap_world app"] app w by (simp add: app_is_def)
  then show ?thesis using app w by (cases r) (simp_all add: world_call_def app_is_def jobs_of_def)
qed

lemma frame_submit: "sid' \<noteq> sid \<Longrightarrow> app_is sid d a js app \<Longrightarrow> app_is sid d a js (app\<lparr>ap_jobs := submit_job sid' mid (ap_jobs app)\<rparr>)"
  by (simp add: app_is_def jobs_of_def submit_job_def Let_def)

lemma frame_with_access:
  assumes "app_is sid d a js app" "\<And>user. app_is sid d a js (fst (f user app))"
  shows "app_is sid d a js (fst (with_access re rq sid' permission csrf f app))"
  by (rule access_cases [of re rq sid' permission csrf f app]) (simp_all add: assms)

lemma frame_routes:
  assumes other: "sid' \<noteq> sid" and app: "app_is sid d a js app"
  shows "app_is sid d a js (fst (get_session_route re rq sid' app))" "app_is sid d a js (fst (update_session_route re rq sid' title model app))"
    "app_is sid d a js (fst (delete_session_route re rq sid' app))" "app_is sid d a js (fst (chat_route re rq sid' message images app))"
    "app_is sid d a js (fst (get_resources_route re rq sid' app))" "app_is sid d a js (fst (update_resources_route re rq sid' overrides app))"
    "app_is sid d a js (fst (chat_stream_route re rq sid' message images app))"
proof -
  show "app_is sid d a js (fst (get_session_route re rq sid' app))" "app_is sid d a js (fst (get_resources_route re rq sid' app))"
    "app_is sid d a js (fst (update_resources_route re rq sid' overrides app))" "app_is sid d a js (fst (chat_route re rq sid' message images app))"
    unfolding get_session_route_def get_resources_route_def update_resources_route_def chat_route_def
    by (intro frame_with_access [OF app] frame_world_call [OF _ app] world_frames frame_chat other)+
  have up: "keeps (world_is sid d a) (sbind (in_store (get_session sid')) (\<lambda>session.
      sbind (in_store (case title of None \<Rightarrow> ret session | Some t \<Rightarrow> rename_session (re_store re) sid' t True (re_now_iso re))) (\<lambda>session.
      sbind (in_store (set_model sid' session model)) (\<lambda>session. ret ([session], [])))))"
    by (intro world_frames other)
  show "app_is sid d a js (fst (update_session_route re rq sid' title model app))"
    unfolding update_session_route_def by (rule frame_with_access [OF app]) (simp add: app frame_world_call [OF up app])
  have "keeps (world_is sid d a) (in_resources (upd (\<lambda>rm. rm\<lparr>rm_files := dict_del (rm_files rm) sid'\<rparr>)))"
    by (intro frame_in_resources keeps_upd) (use other in \<open>simp add: allocation_is_def\<close>)
  then have del: "keeps (world_is sid d a) (sbind (in_store (delete_session sid')) (\<lambda>_. sbind (in_resources (upd (\<lambda>rm. rm\<lparr>rm_files := dict_del (rm_files rm) sid'\<rparr>))) (\<lambda>_. ret ([], []))))"
    by (intro keeps_sbind keeps_pure frame_in_store frame_delete other)
  show "app_is sid d a js (fst (delete_session_route re rq sid' app))"
    unfolding delete_session_route_def by (rule frame_with_access [OF app]) (simp add: app frame_world_call [OF del app])
  show "app_is sid d a js (fst (chat_stream_route re rq sid' message images app))"
    unfolding chat_stream_route_def
  proof (rule frame_with_access [OF app])
    let ?p = "prepare_chat_turn (re_store re) (re_titles re) (re_used re sid') sid' message images (re_now_iso re) (re_user_message_id re) (re_assistant_message_id re) (re_notice_id re)"
    obtain app1 r where r: "world_call missing_code ?p app = (app1, r)" by fastforce
    have "app_is sid d a js app1" using frame_world_call [OF frame_prepare [OF other] app] r by (metis fst_conv)
    then show "app_is sid d a js (fst (case world_call missing_code ?p app of (app', Inl code) \<Rightarrow> (app', Inl code)
        | (app', Inr tn) \<Rightarrow> (app'\<lparr>ap_jobs := submit_job sid' (tn_assistant_message_id tn) (ap_jobs app')\<rparr>, Inr ([], []))))" for user
      using r frame_submit [OF other] by (cases r) simp_all
  qed
qed

lemma create_existing_raises:
  "dict_get (ag_sessions st) sid = Some d \<Longrightarrow> store_create_session sid title metadata now st = (st, Inl (OtherError ''FileExistsError''))"
  by (simp add: store_create_session_def effect_defs)

lemma frame_create_route:
  assumes app: "app_is sid (Some d) a js app"
  shows "app_is sid (Some d) a js (fst (create_session_route re rq title metadata app))"
proof -
  define body where "body md = (sbind (in_store (store_create_session (re_new_session_id re) title md (re_now_iso re))) (\<lambda>session.
      sbind (in_resources (allocate (re_used re (re_new_session_id re)) (re_new_session_id re) [] (re_now_iso re) (re_now_iso re))) (\<lambda>_. ret ([session], [] :: stored_message list))))" for md
  have "app_is sid (Some d) a js (fst (world_call (\<lambda>_. 500) (body md) app))" for md
  proof (cases "re_new_session_id re = sid")
    case True
    have "dict_get (ag_sessions (aw_store (ap_world app))) sid = Some d" using app by (simp add: app_is_def world_is_def session_is_def)
    then have "body md (ap_world app) = ((ap_world app)\<lparr>aw_store := aw_store (ap_world app)\<rparr>, Inl (OtherError ''FileExistsError''))"
      by (simp add: body_def True sbind_def in_store_def create_existing_raises)
    then show ?thesis using app by (simp add: world_call_def app_is_def world_is_def jobs_of_def)
  next
    case False
    then have "keeps (world_is sid (Some d) a) (body md)" unfolding body_def by (intro world_frames frame_create)
    then show ?thesis by (rule frame_world_call [OF _ app])
  qed
  then show ?thesis unfolding create_session_route_def body_def [symmetric] using app by (auto split: sum.splits)
qed

lemma rename_keeps_owner:
  "rename_session env sid t edited now st = (st', Inr s') \<Longrightarrow> session_of sid st = Inr d \<Longrightarrow> owned_by user s' = owned_by user (sd_session d)"
  by (auto simp: rename_session_def get_session_def effect_defs owned_by_def Let_def split: if_splits sum.splits prod.splits)

lemma set_model_keeps_owner: "set_model sid s m st = (st', Inr s') \<Longrightarrow> owned_by user s' = owned_by user s"
  by (auto simp: set_model_def effect_defs owned_by_def Let_def split: option.splits)

lemma access_granted:
  assumes "with_access re rq sid permission csrf f app = (app', Inr x)"
  obtains user token d where "request_identity (re_crypto re) (re_now re) rq (ap_auth app) = Inr (user, token)"
    "dict_get (ag_sessions (aw_store (ap_world app))) sid = Some d" "owned_by user (sd_session d)" "f user app = (app', Inr x)"
  using assms require_identity [of "re_crypto re" "re_now re" rq permission csrf "ap_auth app"]
  by (auto simp: with_access_def require_session_access_def split: sum.splits option.splits if_splits)

lemma access_identity:
  "with_access re rq sid permission csrf f app = (app', Inr x) \<Longrightarrow> \<exists>user token. request_identity (re_crypto re) (re_now re) rq (ap_auth app) = Inr (user, token)"
  by (blast elim: access_granted)

lemma world_call_Inr: "world_call code m app = (app', Inr x) \<Longrightarrow> \<exists>w. m (ap_world app) = (w, Inr x)"
  by (auto simp: world_call_def split: prod.splits sum.splits)

lemma get_session_Inr: "get_session sid st = (st', Inr s) \<longleftrightarrow> st' = st \<and> (\<exists>d. dict_get (ag_sessions st) sid = Some d \<and> s = sd_session d)"
  by (auto simp: get_session_def effect_defs session_of_def)

lemma in_store_Inr: "in_store m w = (w', Inr x) \<longleftrightarrow> (\<exists>st. m (aw_store w) = (st, Inr x) \<and> w' = w\<lparr>aw_store := st\<rparr>)"
  by (auto simp: in_store_def split: prod.splits)

lemma sbind_Inr: "sbind m f s = (s', Inr y) \<longleftrightarrow> (\<exists>s1 x. m s = (s1, Inr x) \<and> f x s1 = (s', Inr y))"
  by (auto simp: sbind_def split: prod.splits sum.splits)

definition shows_own :: "route_env \<Rightarrow> http_request \<Rightarrow> agent_app \<Rightarrow> session_record list \<Rightarrow> bool" where
  "shows_own re rq app recs \<longleftrightarrow>
     (\<exists>user token. request_identity (re_crypto re) (re_now re) rq (ap_auth app) = Inr (user, token) \<and> list_all (owned_by user) recs)"

lemma create_shows_own:
  assumes "create_session_route re rq title metadata app = (app', Inr (recs, msgs))"
  shows "shows_own re rq app recs"
proof -
  obtain user where u: "require (re_crypto re) (re_now re) rq ''chat:write'' True (ap_auth app) = Inr user"
    using assms by (auto simp: create_session_route_def split: sum.splits)
  obtain session md st where s: "store_create_session (re_new_session_id re) title (dict_set md ''owner_user_id'' (JInt (au_user_id user))) (re_now_iso re)
      (aw_store (ap_world app)) = (st, Inr session)" "recs = [session]"
    using assms u by (auto simp: create_session_route_def sbind_Inr in_store_Inr ret_def split: if_splits dest!: world_call_Inr)
  have "owned_by user session" using s(1) by (auto simp: store_create_session_def effect_defs owned_by_def Let_def split: if_splits)
  then show ?thesis using require_identity [OF u] s(2) by (auto simp: shows_own_def)
qed

lemma list_shows_own: "list_sessions_route re rq app = (app', Inr (recs, msgs)) \<Longrightarrow> shows_own re rq app recs"
  using require_identity [of "re_crypto re" "re_now re" rq "''chat:read''" False "ap_auth app"]
  by (auto simp: list_sessions_route_def shows_own_def list_all_iff split: sum.splits)

lemma get_shows_own:
  assumes "get_session_route re rq sid app = (app', Inr (recs, msgs))"
  shows "shows_own re rq app recs"
proof -
  obtain user token d where a: "request_identity (re_crypto re) (re_now re) rq (ap_auth app) = Inr (user, token)"
    "dict_get (ag_sessions (aw_store (ap_world app))) sid = Some d" "owned_by user (sd_session d)" and r: "\<exists>w. sbind (in_store (get_session sid)) (\<lambda>session.
        sbind (in_store (read_chat sid)) (\<lambda>_.
        sbind (in_resources (get_allocation (re_used re sid) sid (re_now_iso re))) (\<lambda>_.
        sbind (in_resources (session_usage (re_used re sid) sid (re_now_iso re))) (\<lambda>_.
        sbind (in_store (list_messages (re_store re) sid)) (\<lambda>messages. ret ([session], messages)))))) (ap_world app) = (w, Inr (recs, msgs))"
    using assms unfolding get_session_route_def by (elim access_granted) (drule world_call_Inr, blast)
  have "recs = [sd_session d]" using r a(2) by (auto simp: sbind_Inr in_store_Inr get_session_Inr ret_def)
  then show ?thesis using a by (auto simp: shows_own_def)
qed

lemma update_shows_own:
  assumes "update_session_route re rq sid title model app = (app', Inr (recs, msgs))"
  shows "shows_own re rq app recs"
proof -
  obtain user token d where a: "request_identity (re_crypto re) (re_now re) rq (ap_auth app) = Inr (user, token)"
    "dict_get (ag_sessions (aw_store (ap_world app))) sid = Some d" "owned_by user (sd_session d)" and r: "\<exists>w. sbind (in_store (get_session sid)) (\<lambda>session.
      sbind (in_store (case title of None \<Rightarrow> ret session | Some t \<Rightarrow> rename_session (re_store re) sid t True (re_now_iso re))) (\<lambda>session.
      sbind (in_store (set_model sid session model)) (\<lambda>session. ret ([session], [])))) (ap_world app) = (w, Inr (recs, msgs))"
    using assms unfolding update_session_route_def by (elim access_granted) (auto split: if_splits dest!: world_call_Inr)
  obtain st s1 st' s2 where s: "(case title of None \<Rightarrow> ret (sd_session d) | Some t \<Rightarrow> rename_session (re_store re) sid t True (re_now_iso re)) (aw_store (ap_world app)) = (st, Inr s1)"
    "set_model sid s1 model st = (st', Inr s2)" "recs = [s2]"
    using r a(2) by (auto simp: sbind_Inr in_store_Inr get_session_Inr ret_def)
  have "owned_by user s1" using s(1) a(2,3) rename_keeps_owner [of _ sid _ _ _ _ _ s1 d user]
    by (cases title) (auto simp: ret_def session_of_def)
  then show ?thesis using a s(3) set_model_keeps_owner [OF s(2)] by (auto simp: shows_own_def)
qed

lemma route_shows_own: "session_route re call app = (app', Inr (recs, msgs)) \<Longrightarrow> shows_own re (request_of call) app recs"
proof -
  assume r: "session_route re call app = (app', Inr (recs, msgs))"
  have none_shown: "recs = []" if "\<nexists>rq t m. call = CreateSession rq t m" "\<nexists>rq. call = ListSessions rq" "\<nexists>rq sid. call = GetSession rq sid" "\<nexists>rq sid t m. call = UpdateSession rq sid t m"
    using r that by (cases call)
      (auto simp: delete_session_route_def chat_route_def get_resources_route_def update_resources_route_def chat_stream_route_def sbind_Inr ret_def
        elim!: access_granted dest!: world_call_Inr split: if_splits prod.splits sum.splits)
  show ?thesis
  proof (cases call)
    case (DeleteSession rq sid)
    have "recs = []" by (rule none_shown) (simp_all add: DeleteSession)
    then show ?thesis using access_identity [OF r [unfolded DeleteSession session_route.simps delete_session_route_def]] DeleteSession by (auto simp: shows_own_def)
  next
    case (ChatMessage rq sid m i)
    have "recs = []" by (rule none_shown) (simp_all add: ChatMessage)
    then show ?thesis using access_identity [OF r [unfolded ChatMessage session_route.simps chat_route_def]] ChatMessage by (auto simp: shows_own_def)
  next
    case (GetResources rq sid)
    have "recs = []" by (rule none_shown) (simp_all add: GetResources)
    then show ?thesis using access_identity [OF r [unfolded GetResources session_route.simps get_resources_route_def]] GetResources by (auto simp: shows_own_def)
  next
    case (UpdateResources rq sid ov)
    have "recs = []" by (rule none_shown) (simp_all add: UpdateResources)
    then show ?thesis using access_identity [OF r [unfolded UpdateResources session_route.simps update_resources_route_def]] UpdateResources by (auto simp: shows_own_def)
  next
    case (ChatStream rq sid m i)
    have "recs = []" by (rule none_shown) (simp_all add: ChatStream)
    then show ?thesis using access_identity [OF r [unfolded ChatStream session_route.simps chat_stream_route_def]] ChatStream by (auto simp: shows_own_def)
  qed (use r in \<open>auto intro: create_shows_own list_shows_own get_shows_own update_shows_own\<close>)
qed

lemma foreign_addressed:
  assumes "foreign re (request_of call) app d" "dict_get (ag_sessions (aw_store (ap_world app))) sid = Some d" "addressed call = Some sid"
  shows "\<exists>code. session_route re call app = (app, Inl code)"
  using assms by (cases call)
    (auto simp: get_session_route_def update_session_route_def delete_session_route_def chat_route_def get_resources_route_def update_resources_route_def chat_stream_route_def
      intro: foreign_denied)

text \<open>
  C6: sessions are isolated. Whatever request comes from somebody who is not the owner of a session - another user, also an
  administrator or master, or nobody -, it leaves the session's record, messages, chat and allocation and its queued turns exactly as
  they are; when it addresses the session it is refused; and the session records a request is shown are its sender's own.
\<close>

theorem sessions_are_isolated:
  assumes "dict_get (ag_sessions (aw_store (ap_world app))) sid = Some d" "foreign re (request_of call) app d"
    and "session_route re call app = (app', r)"
  shows "dict_get (ag_sessions (aw_store (ap_world app'))) sid = Some d \<and>
    dict_get (rm_files (aw_resources (ap_world app'))) sid = dict_get (rm_files (aw_resources (ap_world app))) sid \<and> jobs_of sid app' = jobs_of sid app \<and>
    (addressed call = Some sid \<longrightarrow> (\<exists>code. r = Inl code)) \<and>
    (\<forall>recs msgs. r = Inr (recs, msgs) \<longrightarrow> shows_own re (request_of call) app recs \<and> sd_session d \<notin> set recs)"
proof -
  let ?a = "dict_get (rm_files (aw_resources (ap_world app))) sid" let ?js = "jobs_of sid app"
  have app: "app_is sid (Some d) ?a ?js app" using assms(1) by (simp add: app_is_def world_is_def session_is_def allocation_is_def)
  have "app_is sid (Some d) ?a ?js app'"
  proof (cases "addressed call = Some sid")
    case True
    then show ?thesis using foreign_addressed [OF assms(2,1)] assms(3) app by auto
  next
    case False
    then have "app_is sid (Some d) ?a ?js (fst (session_route re call app))"
      using app by (cases call) (auto simp: list_sessions_route_def intro: frame_routes frame_create_route split: sum.splits)
    then show ?thesis using assms(3) by simp
  qed
  moreover have "addressed call = Some sid \<longrightarrow> (\<exists>code. r = Inl code)" using foreign_addressed [OF assms(2,1)] assms(3) by auto
  moreover have "shows_own re (request_of call) app recs \<and> sd_session d \<notin> set recs" if "r = Inr (recs, msgs)" for recs msgs
  proof -
    have own: "shows_own re (request_of call) app recs" using route_shows_own assms(3) that by blast
    then show ?thesis using assms(2) by (auto simp: shows_own_def foreign_def list_all_iff)
  qed
  ultimately show ?thesis by (auto simp: app_is_def world_is_def session_is_def allocation_is_def)
qed

definition demo_app :: agent_app where
  "demo_app = \<lparr>ap_auth = demo_auth_server,
     ap_world = \<lparr>aw_store = \<lparr>ag_sessions = [(''s'', \<lparr>sd_session = demo_session_record\<lparr>se_metadata := [(''owner_user_id'', JInt 7)]\<rparr>, sd_chat = Some [], sd_lines = None\<rparr>)],
        ag_max_messages = 100\<rparr>, aw_resources = demo_resources\<rparr>,
     ap_jobs = mk_jobs 1\<rparr>"

definition demo_route_env :: route_env where
  "demo_route_env = \<lparr>re_crypto = demo_crypto, re_store = demo_store_env, re_titles = \<lparr>tl_new_chat = [], tl_chat = [], tl_answer = (\<lambda>_. None)\<rparr>, re_used = (\<lambda>_. 0), re_now = 2,
     re_now_iso = ''t'', re_new_session_id = ''n'', re_user_message_id = ''u'', re_assistant_message_id = ''a'', re_notice_id = ''x'', re_answer_id = ''y'', re_system = (\<lambda>_. []), re_slot = Inr (),
     re_llm = (\<lambda>_. Inr []), re_max_sessions = 20\<rparr>"

text \<open>The master of the server asks to delete the session of another user.\<close>

theorem sessions_are_isolated_witness:
  "\<exists>app' code d. session_route demo_route_env (DeleteSession (demo_browser ''token'') ''s'') demo_app = (app', Inl code) \<and>
     dict_get (ag_sessions (aw_store (ap_world demo_app))) ''s'' = Some d \<and> dict_get (ag_sessions (aw_store (ap_world app'))) ''s'' = Some d"
proof -
  obtain d where d: "dict_get (ag_sessions (aw_store (ap_world demo_app))) ''s'' = Some d" "sd_session d = demo_session_record\<lparr>se_metadata := [(''owner_user_id'', JInt 7)]\<rparr>"
    by (simp add: demo_app_def)
  have "(case request_identity demo_crypto 2 (demo_browser ''token'') demo_auth_server of Inl _ \<Rightarrow> False | Inr (user, _) \<Rightarrow> au_user_id user = 1)" by code_simp
  then have f: "foreign demo_route_env (request_of (DeleteSession (demo_browser ''token'') ''s'')) demo_app d"
    by (auto simp: foreign_def owned_by_def d(2) demo_route_env_def demo_app_def split: sum.splits)
  obtain app' r where r: "session_route demo_route_env (DeleteSession (demo_browser ''token'') ''s'') demo_app = (app', r)" by fastforce
  then show ?thesis using sessions_are_isolated [OF d(1) f r] d(1) by auto
qed

end
