(* ===== verification/Spec2Isabelle.thy ===== *)
theory Spec2Isabelle
  imports State_Apply Replica Event_Buffer Election Worker Master Event_Router Node Llama_Router Output_Parsers Stream_Adapters
    Prefill_Protocol Task_Agreement Auth_Safety Session_Routes
begin

text \<open>
  Verification of exo (\<^verbatim>\<open>src/src/exo\<close>): a cluster of nodes that runs models too large for one machine. One node is
  elected master. It orders all events of the cluster in a log, and every node rebuilds the state by replaying
  the log. From the state the master decides where models are placed, and each worker what its runner processes do
  next. The HTTP interface turns requests into commands for the master and the resulting chunks into answers.

  \<^bold>\<open>Conventions.\<close> A function that may raise returns \<open>error + 'a\<close> (\<open>Inl\<close> the exception); a method that changes its object
  before it may raise is an action of \<open>Effects\<close> that keeps these changes. A dictionary is an association list in
  insertion order with the operations of \<open>Prelude\<close>; a Python set is a list without repetition. Integers are
  unbounded (\<open>int\<close>), floats are the binary64 values of \<open>Py_Float\<close> with correct rounding; the sources use no
  fixed-width integers except in the lengths of log records and frames, whose four bytes are written out. Coroutines
  are cut at their \<^verbatim>\<open>await\<close>s: each piece between two of them is one step, and the theorems range over all
  interleavings of the steps. Clocks, generated ids, random numbers and answers of disks and networks are
  arguments of the step that reads them.

  \<^bold>\<open>Parameters.\<close> Code outside the repository is an argument with its documented behaviour as assumptions: the
  \<^verbatim>\<open>rustworkx\<close> graph (locale \<open>rx_digraph\<close>, met by the graph of \<open>Reference_Graph\<close>), the msgpack and Pydantic codecs
  (\<open>codec\<close>, and the coders of \<open>Prefill_Protocol\<close>), the engines of a runner, the Harmony parser of
  \<^verbatim>\<open>openai_harmony\<close>, the tool parsers a tokenizer brings, the collective operations of \<^verbatim>\<open>mx.distributed\<close>, the answers of
  the Hugging Face hub.

  \<^bold>\<open>Foundations.\<close>
  \<^item> \<open>Prelude\<close>, \<open>Effects\<close>, \<open>Py_Float\<close>, \<open>Py_String\<close>: results, dictionaries, Python's \<^verbatim>\<open>max\<close>, \<^verbatim>\<open>sorted\<close> and sets, actions, floats,
    the methods of strings.
  \<^item> \<open>Memory_Size\<close>, \<open>Multiaddr\<close>, \<open>Shared_Types\<close>: \<^verbatim>\<open>shared/types\<close>. Shown: the order and printing of sizes (the unit is
    printed twice), the patterns of multiaddresses and that reading one back gives address and port.

  \<^bold>\<open>The replicated state.\<close>
  \<^item> \<open>Topology\<close>, \<open>Topology_Laws\<close>, \<open>Reference_Graph\<close>: \<^verbatim>\<open>shared/topology.py\<close>, every method, over the graph parameter; the
    methods are shown to change the abstract sets of nodes and edges as their names say.
  \<^item> \<open>State_Apply\<close>: \<^verbatim>\<open>shared/apply.py\<close> and \<^verbatim>\<open>shared/types/state.py\<close>, one function per event. Shown: the invariant of the state,
    that a replay is a function of the log, that RDMA edges join enabled nodes, what the removal of a node and of an
    instance leaves.
  \<^item> \<open>Replica\<close>: the replay of the same log by two processes, whose sets of strings have different orders. Shown: the states agree but for
    the recorded Thunderbolt bridge cycles, which do depend on that order.
  \<^item> \<open>Event_Buffer\<close>: \<^verbatim>\<open>utils/event_buffer.py\<close>. Shown: under any arrival order a buffer releases a prefix of the numbering, and all of it
    once it has arrived.
  \<^item> \<open>Event_Log\<close>: \<^verbatim>\<open>utils/disk_event_log.py\<close>, records and the offset cache. Shown: reads return what was appended.

  \<^bold>\<open>Master and routing.\<close>
  \<^item> \<open>Placement_Utils\<close>, \<open>Placement\<close>: \<^verbatim>\<open>master/placement_utils.py\<close>, \<^verbatim>\<open>master/placement.py\<close>, \<^verbatim>\<open>utils/ports.py\<close>. Shown: the layers are
    distributed exactly, shards partition the model, a placement meets the command, the transition events reach the target but for instances
    changed under an id they keep.
  \<^item> \<open>Master\<close>: \<^verbatim>\<open>master/main.py\<close>, all commands, local events and the planning loop, as a step relation. Shown: log, state
    and broadcasts stay in step; text generation goes to a least loaded instance.
  \<^item> \<open>Event_Router\<close>: \<^verbatim>\<open>routing/event_router.py\<close>. Shown: receivers get a prefix of the log, unacknowledged events are retried.
  \<^item> \<open>Election\<close>: \<^verbatim>\<open>shared/election.py\<close>. Shown: the invariant of a node, the winner is a maximum, equal candidates give equal sessions.
  \<^item> \<open>Node\<close>: \<^verbatim>\<open>main.py\<close>, which starts the parts and replaces them after an election, over the models of its parts. Shown: after
    a result the node's parts belong to the elected session; the exception two overlapping campaigns make.
  \<^item> This theory: the composition of master, router and replica.

  \<^bold>\<open>Worker.\<close>
  \<^item> \<open>Backoff\<close>, \<open>Plan\<close>, \<open>Worker\<close>: \<^verbatim>\<open>utils/keyed_backoff.py\<close>, \<^verbatim>\<open>worker/plan.py\<close>, \<^verbatim>\<open>worker/main.py\<close>. Shown: planned tasks fit the
    runner, group barriers hold, the planner of some node plans the next step of a startup, the planner does not raise, retries are bounded.
  \<^item> \<open>Runner\<close>, \<open>Supervisor\<close>: \<^verbatim>\<open>worker/runner/runner.py\<close>, \<^verbatim>\<open>supervisor.py\<close>, \<^verbatim>\<open>diagnostics.py\<close>. Shown: the protocol of events between the
    two, that every event can be forwarded and that a failure is reported.
  \<^item> \<open>Task_Agreement\<close>: \<^verbatim>\<open>mx_all_gather_tasks\<close> and the queues of \<^verbatim>\<open>llm_inference/batch_generator.py\<close>. Shown: the ranks of a
    group enqueue the same tasks in the same order, which tasks each of them gives up, and no common task is lost; a cancel-all that
    ends on one rank only.
  \<^item> \<open>Output_Parsers\<close>: \<^verbatim>\<open>llm_inference/model_output_parsers.py\<close>, a pipeline of stream transformers with locales for a stage
    and for a pair of stages. Shown: the pipeline ends a stream exactly once for the parsers used by default, but for an
    empty list of tool calls, thinking tags are split off in the one way an inductive specification allows, text without tool calls passes unchanged; and the
    inputs on which a stream loses text or its end.
  \<^item> \<open>Prefill_Protocol\<close>: \<^verbatim>\<open>worker/disaggregated\<close> and the client of \<^verbatim>\<open>engines/mlx/disaggregated\<close>. Shown: what the server
    writes is what the client reads, errors are reported, and that a truncated answer is accepted.
  \<^item> \<open>Download_Progress\<close>, \<open>Coordinator\<close>: the progress of \<^verbatim>\<open>download/download_utils.py\<close> and \<^verbatim>\<open>download/coordinator.py\<close>. Shown: reported
    progress is sound, the replicated download status is the coordinator's own; two races.

  \<^bold>\<open>HTTP interface.\<close>
  \<^item> \<open>Api\<close>: the event side of \<^verbatim>\<open>api/main.py\<close>, the queues between events and streams. Shown: a stream gets the chunks of
    its command in order; what a reset and a failed image request do to it.
  \<^item> \<open>Stream_Adapters\<close>: the answers of \<^verbatim>\<open>api/adapters/chat_completions.py\<close> and \<^verbatim>\<open>claude.py\<close>, streamed and collected. Shown: both
    forms carry the same content, the Claude stream follows its block protocol, and where it does not.
  \<^item> \<open>Llama_Router\<close>: \<^verbatim>\<open>api/llama_router.py\<close>, requests as small state machines. Shown: capacity is respected, a waiting
    request is never left asleep beside a free replica, an acquisition ends; a lease can be lost.

  \<^bold>\<open>Agent server\<close> (\<^verbatim>\<open>src/tools/src/exo_tools\<close>), a chat server with accounts and tools that uses the cluster as its model.
  \<^item> \<open>Auth\<close>, \<open>Auth_Routes\<close>, \<open>Auth_Safety\<close>: \<^verbatim>\<open>agent_core/auth.py\<close>, \<^verbatim>\<open>accounts.py\<close> and the account routes of \<^verbatim>\<open>agent_server.py\<close>. Shown: the
    standing of an account is changed only from above and masters not at all, failed logins are limited whatever the next password is, OAuth states are used
    once, signing up with Google ends; names that escape the limit, permissions granted by those who lack them, a
    logout that keeps the session.
  \<^item> \<open>Agent_Jobs\<close>: \<^verbatim>\<open>agent_core/jobs.py\<close>, the worker threads as interleaved steps. Shown: jobs of a session run in order, readers see
    every event.
  \<^item> \<open>Agent_Store\<close>: \<^verbatim>\<open>agent_core/store.py\<close> and \<^verbatim>\<open>schemas.py\<close>, down to the lines of the files. Shown: a session implements a titled
    list of messages; a character that makes a session unreadable.
  \<^item> \<open>Agent_Tools\<close>: \<^verbatim>\<open>agent_core/tools.py\<close>, each tool with its effects; a program is an effect as it is started. Shown: files and
    directories are touched where they may be and programs started only in three forms; a query that \<^verbatim>\<open>rg\<close> takes for an option. Nothing is
    shown about what the programs do.
  \<^item> \<open>Agent_Resources\<close>: \<^verbatim>\<open>agent_core/resources.py\<close>. Shown: quota and compute slots are respected; what a new allocation does to the slots.
  \<^item> \<open>Agent_Runner\<close>: \<^verbatim>\<open>agent_core/runner.py\<close> and the stream of \<^verbatim>\<open>llm.py\<close>, over store, tools and resources. Shown: a turn stores what it streamed, is
    bounded and confined, and its context is the longest recent part of the conversation within the limits; a notice that is not streamed.
  \<^item> \<open>Session_Routes\<close>: the routes under \<^verbatim>\<open>/sessions\<close> of \<^verbatim>\<open>agent_server.py\<close>, the composition of all of these. Shown: sessions are isolated from
    everybody but their owner.

  \<^bold>\<open>Bounds and fuel.\<close> Recursions are structural or have a termination proof by a measure; no definition is cut off
  by fuel. The acquisition loop of \<open>Llama_Router\<close> is a sequence of rounds, each of which settles the request or waits for a
  positive time that ends by the deadline; from the deadline on a round rejects. The search of \<^verbatim>\<open>create_google_user\<close> for a free name
  is a recursion that terminates because only finitely many names are taken. Characters are the first 256 code points.

  \<^bold>\<open>Not modelled.\<close> The tensor programs (\<^verbatim>\<open>worker/engines\<close>, except what is named above), since their meaning is that of
  MLX kernels; the transport (\<^verbatim>\<open>routing/router.py\<close> and the libp2p bindings, which are Rust), whose loss, duplication and
  reordering the theorems admit; HTTP requests and file input and output (the routes of \<^verbatim>\<open>api/main.py\<close>, the transfers of
  \<^verbatim>\<open>download_utils.py\<close>), where the outcome is an argument; the conversion of requests in the adapters and the Ollama and
  Responses adapters; the probes of \<^verbatim>\<open>utils/info_gatherer\<close>; process start (\<^verbatim>\<open>worker/runner/bootstrap.py\<close>); of the agent server its
  pages, the proxy routes, the requests of the language model client, the Git history of the store and the workspace copies; the dashboard and
  \<^verbatim>\<open>bench\<close>, which are clients of the interface.
\<close>

section \<open>Master, router and replica\<close>

lemma log_prefix_index_events: "j \<le> length es \<Longrightarrow> log_prefix es j = take j (index_events es)"
  by (simp add: log_prefix_def indexed_prefix_def index_events_def take_map)

text \<open>A message the router accepts is one the master has broadcast.\<close>

fun input_broadcast :: "session_id \<Rightarrow> global_forwarder_event list \<Rightarrow> er_input \<Rightarrow> bool" where
  "input_broadcast sid sent (EExtIn _ g) =
     (gf_session g = sid \<and> gf_origin g = master_node_id sid \<longrightarrow> g \<in> set sent)"
| "input_broadcast sid sent _ = True"

lemma broadcast_from_log:
  assumes "ma_inv ok rx ser n sid es m" "input_broadcast sid (ma_global m) i"
  shows "input_from_log sid es i"
  using assms by (cases i) (auto simp: ma_inv_def broadcast_def)

lemma broadcasts_from_log:
  assumes "ma_inv ok rx ser n sid es m" "list_all (input_broadcast sid (ma_global m)) ins"
  shows "list_all (input_from_log sid es) ins"
  using assms(2) broadcast_from_log [OF assms(1)] by (auto simp: list_all_iff)

text \<open>
  C1: every receiver behind a node's event router rebuilds the master's state. Whatever part of the
  master's broadcast reached the router, in whatever order and however often, replaying what the
  receiver was sent does not raise, and once it was sent as many events as the master has logged, the
  state it has rebuilt is the master's state but for the recorded Thunderbolt bridge cycles. The
  replica is another process, in which Python iterates over a set in another order (\<open>ord\<close>) than in
  the master's; the cycles are the one field that order reaches (\<open>cycles_depend_on_order\<close>).
\<close>

theorem replica_rebuilds_master_state:
  assumes "codec ok ser deser" "ma_reach ok rx ser deser (mk_master rx n sid) m"
    and "rfold er_next (mk_router sid k) ins = Inr r" "list_all (input_broadcast sid (ma_global m)) ins"
    and "c \<in> set (er_receivers r)" "lists_set (set_order rx)" "lists_set ord"
  shows "\<exists>s. rfold (apply_event (rx\<lparr>set_order := ord\<rparr>)) (init_state (rx\<lparr>set_order := ord\<rparr>)) (rc_got c) = Inr s \<and>
    last_event_applied_idx s = int (length (rc_got c)) - 1 \<and>
    (int (length (rc_got c)) = lg_count (ma_event_log m) \<longrightarrow>
       s = (ma_state m)\<lparr>thunderbolt_bridge_cycles := thunderbolt_bridge_cycles s\<rparr>)"
proof -
  obtain es where es: "ma_inv ok rx ser n sid es m"
    using ma_reach_inv [OF assms(1,2) ma_inv_init] by auto
  have rep: "rfold (apply_event rx) (init_state rx) (index_events es) = Inr (ma_state m)"
    and cnt: "lg_count (ma_event_log m) = int (length es)" using es by (auto simp: ma_inv_def holds_def)
  obtain nn where "er_inv sid es nn r"
    using er_run_inv [OF assms(3) broadcasts_from_log [OF es assms(4)] er_inv_init] by blast
  then have "nn \<le> length es" "\<exists>j \<le> nn. rc_got c = log_prefix es j"
    using assms(5) by (auto simp: er_inv_def ob.agrees_def)
  then obtain j where j: "j \<le> length es" "rc_got c = log_prefix es j" by (meson order_trans)
  then have got: "rc_got c = take j (index_events es)" "length (rc_got c) = j"
    by (auto simp: log_prefix_index_events index_events_def)
  have "rfold (apply_event rx) (init_state rx) (take j (index_events es) @ drop j (index_events es)) = Inr (ma_state m)"
    using rep by simp
  then obtain s0 where s0: "rfold (apply_event rx) (init_state rx) (rc_got c) = Inr s0"
    unfolding rfold_append got(1) by auto
  have eq: "s0 = ma_state m" if "j = length es"
    using s0 rep that by (simp add: got(1) index_events_def)
  from replay_at_order [OF assms(6,7) s0 init_at_order(2)] obtain s
    where s: "rfold (apply_event (at_order rx ord)) (init_state (at_order rx ord)) (rc_got c) = Inr s" "agree_but_cycles s0 s"
    unfolding init_at_order(1) by auto
  have "last_event_applied_idx s = int (length (rc_got c)) - 1"
    using log.replay_contiguous [OF s(1)] by (simp add: init_state_def)
  then show ?thesis using s eq got(2) cnt unfolding agree_but_cycles_def by auto
qed

theorem replica_rebuilds_master_state_witness:
  "\<exists>m r s. ma_reach demo_codec_ok ref_env demo_encode demo_decode (mk_master ref_env ''a'' demo_session) m \<and>
     rfold er_next (mk_router demo_session 1) [EExtIn (\<lambda>_ _. False) (broadcast ''a'' demo_session [demo_event] 0)] = Inr r \<and>
     rfold (apply_event (ref_env\<lparr>set_order := rev \<circ> remdups\<rparr>)) (init_state (ref_env\<lparr>set_order := rev \<circ> remdups\<rparr>))
       (rc_got (er_receivers r ! 0)) = Inr s \<and>
     s = (ma_state m)\<lparr>thunderbolt_bridge_cycles := thunderbolt_bridge_cycles s\<rparr>"
proof -
  obtain m where m: "ma_reach demo_codec_ok ref_env demo_encode demo_decode (mk_master ref_env ''a'' demo_session) m"
    and n: "lg_count (ma_event_log m) = 1" by (rule demo_master_reach)
  obtain es where es: "ma_inv demo_codec_ok ref_env demo_encode ''a'' demo_session es m"
    using ma_reach_inv [OF demo_codec m ma_inv_init] by auto
  then have "length es = 1" "list_all demo_codec_ok es" using n by (auto simp: ma_inv_def holds_def)
  then have "es = [demo_event]" by (cases es) (auto simp: demo_codec_ok_def)
  then have g: "set (ma_global m) = {broadcast ''a'' demo_session [demo_event] 0}" using es by (auto simp: ma_inv_def)
  let ?ins = "[EExtIn (\<lambda>_ _. False) (broadcast ''a'' demo_session [demo_event] 0)]"
  let ?r = "rfold er_next (mk_router demo_session 1) ?ins"
  have "(case ?r of Inr r \<Rightarrow> length (er_receivers r) = 1 \<and> length (rc_got (er_receivers r ! 0)) = 1 | Inl _ \<Rightarrow> False)" by code_simp
  then obtain r where r: "?r = Inr r" "length (er_receivers r) = 1" "length (rc_got (er_receivers r ! 0)) = 1"
    by (cases ?r) auto
  have bc: "list_all (input_broadcast demo_session (ma_global m)) ?ins" using g by simp
  have c: "er_receivers r ! 0 \<in> set (er_receivers r)" using r(2) by simp
  have ord: "lists_set (set_order ref_env)" "lists_set (rev \<circ> remdups)" by (simp_all add: lists_set_def ref_env_def)
  from replica_rebuilds_master_state [OF demo_codec m r(1) bc c ord] r n m show ?thesis by fastforce
qed

section \<open>Trace reports\<close>

text \<open>No other event of the master's broadcast carries the id of the event.\<close>

definition id_unique :: "event \<Rightarrow> global_forwarder_event list \<Rightarrow> bool" where
  "id_unique e sent \<longleftrightarrow> (\<forall>g \<in> set sent. event_id (gf_event g) = event_id e \<longrightarrow> event_body (gf_event g) = event_body e)"

fun not_ingested :: "event_id \<Rightarrow> er_input \<Rightarrow> bool" where
  "not_ingested eid (EIngest _ _ e) = (event_id e \<noteq> eid)"
| "not_ingested eid _ = True"

text \<open>
  The master merges trace reports without indexing them, so it never broadcasts one; a router clears
  an event only when it sees its broadcast. Hence a trace report a node has sent stays out for
  delivery for ever, and every retry more than five seconds after the last attempt sends it again.
\<close>

theorem trace_reports_never_cleared:
  assumes "codec ok ser deser" "ma_reach ok rx ser deser (mk_master rx n sid) m"
    and "is_traces (event_body e)" "id_unique e (ma_global m)"
    and "er_session_id r = sid" "wf_dict (er_out_for_delivery r)"
    and "rfold er_next (er_ingest now sys e r) ins = Inr r'"
    and "list_all (input_broadcast sid (ma_global m)) ins" "list_all (not_ingested (event_id e)) ins"
  shows "\<exists>t f. dict_get (er_out_for_delivery r') (event_id e) = Some (t, f) \<and> lf_event f = e \<and>
    (\<forall>later. fl (t + 5) < later \<longrightarrow>
       (\<exists>sent. er_outbound (simple_retry later r') = er_outbound r' @ sent \<and> f \<in> set sent))"
proof -
  let ?f = "\<lparr>lf_origin_idx = dict_get_default (er_next_origin_idx r) sys 0, lf_origin = sys, lf_session = er_session_id r, lf_event = e\<rparr>"
  obtain es where es: "ma_inv ok rx ser n sid es m"
    using ma_reach_inv [OF assms(1,2) ma_inv_init] by auto
  have "event_id (gf_event g) \<noteq> event_id e" if g: "g \<in> set (ma_global m)" for g
  proof -
    from es g obtain j where "j < length es" "gf_event g = es ! j" by (auto simp: ma_inv_def broadcast_def)
    with es have "\<not> is_traces (event_body (gf_event g))" by (auto simp: ma_inv_def list_all_length)
    with assms(3,4) g show ?thesis by (auto simp: id_unique_def)
  qed
  then have "leaves_alone sid (event_id e) i" if "input_broadcast sid (ma_global m) i" "not_ingested (event_id e) i" for i
    using that by (cases i) auto
  with assms(8,9) have "list_all (leaves_alone sid (event_id e)) ins" by (auto simp: list_all_iff)
  moreover have "awaiting sid (event_id e) ?f (er_ingest now sys e r)"
    using assms(5,6) by (simp add: awaiting_def er_ingest_def Let_def wf_dict_set)
  ultimately have aw: "awaiting sid (event_id e) ?f r'" by (rule er_run_awaiting [OF assms(7)])
  then obtain t where t: "dict_get (er_out_for_delivery r') (event_id e) = Some (t, ?f)" by (auto simp: awaiting_def)
  have "\<forall>later. fl (t + 5) < later \<longrightarrow>
       (\<exists>sent. er_outbound (simple_retry later r') = er_outbound r' @ sent \<and> ?f \<in> set sent)"
    using retry_resends [OF aw t] by blast
  with t show ?thesis by (intro exI [of _ t] exI [of _ ?f]) simp
qed

definition demo_traces :: event where
  "demo_traces = \<lparr>event_id = ''z'', event_body = TracesCollected ''t'' 0 []\<rparr>"

theorem trace_reports_never_cleared_witness:
  "\<exists>m r' t f. ma_reach demo_codec_ok ref_env demo_encode demo_decode (mk_master ref_env ''a'' demo_session) m \<and>
     rfold er_next (er_ingest 0 ''s'' demo_traces (mk_router demo_session 1)) [ERetry 9] = Inr r' \<and>
     dict_get (er_out_for_delivery r') ''z'' = Some (t, f) \<and> lf_event f = demo_traces"
proof -
  let ?m = "mk_master ref_env ''a'' demo_session"
  have m: "ma_reach demo_codec_ok ref_env demo_encode demo_decode ?m ?m" by (rule ma_init)
  let ?init = "mk_router demo_session 1"
  obtain r' where r': "rfold er_next (er_ingest 0 ''s'' demo_traces ?init) [ERetry 9] = Inr r'" by simp
  have hyps: "is_traces (event_body demo_traces)" "id_unique demo_traces (ma_global ?m)"
    "er_session_id ?init = demo_session" "wf_dict (er_out_for_delivery ?init)"
    by (simp_all add: demo_traces_def id_unique_def mk_master_def mk_router_def)
  have ins: "list_all (input_broadcast demo_session (ma_global ?m)) [ERetry 9]"
    "list_all (not_ingested (event_id demo_traces)) [ERetry 9]" by simp_all
  from trace_reports_never_cleared [OF demo_codec m hyps r' ins] m r' show ?thesis
    by (auto simp: demo_traces_def)
qed

end
